(* ===== verification/Prelude.thy ===== *)
theory Prelude
  imports Main "HOL-Library.Word"
begin

text \<open>
  Shared vocabulary of the development: the C integer types as fixed-width words,
  network masks, fixed-size slot arrays with a \<open>used\<close> flag and a counter, and the generic
  lemmas on lists and words that several components use.
\<close>

unbundle bit_operations_syntax

named_theorems rconf_defs \<open>unfolding rules of the router configuration operations\<close>
named_theorems wire_simps \<open>length and lookup facts of byte buffers\<close>

section \<open>Machine integers\<close>

type_synonym u8 = "8 word"
type_synonym u16 = "16 word"
type_synonym u32 = "32 word"
type_synonym u64 = "64 word"

text \<open>The error codes of the SDK that the code names.\<close>

datatype doca_error =
    DOCA_SUCCESS
  | DOCA_ERROR_INVALID_VALUE
  | DOCA_ERROR_NO_MEMORY
  | DOCA_ERROR_BAD_STATE
  | DOCA_ERROR_NOT_FOUND
  | DOCA_ERROR_IN_USE
  | DOCA_ERROR_ALREADY_EXIST
  | DOCA_ERROR_NOT_SUPPORTED
  | DOCA_ERROR_IO_FAILED
  | DOCA_ERROR_TOO_BIG
  | DOCA_ERROR_FULL
  | DOCA_ERROR_DRIVER
  | DOCA_ERROR_OTHER nat

text \<open>A byte buffer is the list of its bytes, a MAC address a list of six bytes.\<close>

type_synonym bytes = "u8 list"
type_synonym mac = "u8 list"

lemma unat_u8_less [simp]: "unat (x :: u8) < 256"
  using unsigned_less [of x] by simp

lemma unat_u16_less [simp]: "unat (x :: u16) < 65536"
  using unsigned_less [of x] by simp

lemma unat_u8_le: "unat (x :: u8) \<le> 255"
  using unat_u8_less [of x] by linarith

lemma unat_u16_le: "unat (x :: u16) \<le> 65535"
  using unat_u16_less [of x] by linarith

lemma unat_u32_less [simp]: "unat (x :: u32) < 4294967296"
  using unsigned_less [of x] by simp

lemma unat_ucast_u16_u32 [simp]: "unat (ucast (x :: u16) :: u32) = unat x"
proof -
  have "unat x < 4294967296" using unat_u16_less [of x] by linarith
  then show ?thesis by (simp add: unsigned_ucast_eq take_bit_eq_mod)
qed

lemma unat_ucast_u8_u32 [simp]: "unat (ucast (x :: u8) :: u32) = unat x"
proof -
  have "unat x < 4294967296" using unat_u8_less [of x] by linarith
  then show ?thesis by (simp add: unsigned_ucast_eq take_bit_eq_mod)
qed

section \<open>Lists\<close>

text \<open>
  A C array with a separate element count is the list of its first \<open>count\<close> elements.
  Removing element \<open>i\<close> with \<open>memmove\<close> and decrementing the count is \<open>remove_nth\<close>.
\<close>

definition remove_nth :: "nat \<Rightarrow> 'a list \<Rightarrow> 'a list" where
  "remove_nth i xs = take i xs @ drop (Suc i) xs"

lemma set_remove_nth: "set (remove_nth i xs) \<subseteq> set xs"
  using set_take_subset [of i xs] set_drop_subset [of "Suc i" xs]
  by (simp add: remove_nth_def)

lemma remove_nth_subsetD: "x \<in> set (remove_nth i xs) \<Longrightarrow> x \<in> set xs"
  by (rule subsetD [OF set_remove_nth])

lemma length_remove_nth: "i < length xs \<Longrightarrow> length (remove_nth i xs) = length xs - 1"
  by (simp add: remove_nth_def)

lemma length_remove_nth_le: "length (remove_nth i xs) \<le> length xs"
  by (simp add: remove_nth_def)

lemma map_remove_nth: "map f (remove_nth i xs) = remove_nth i (map f xs)"
  by (simp add: remove_nth_def take_map drop_map)

lemma distinct_remove_nth: "distinct xs \<Longrightarrow> distinct (remove_nth i xs)"
proof -
  assume d: "distinct xs"
  have "distinct (take i xs @ drop i xs)" using d by (simp only: append_take_drop_id)
  moreover have "set (drop (Suc i) xs) \<subseteq> set (drop i xs)"
    by (rule set_drop_subset_set_drop) simp
  ultimately have "set (take i xs) \<inter> set (drop (Suc i) xs) = {}"
    by (simp only: distinct_append disjoint_iff subset_iff) fast
  with d show ?thesis by (simp add: remove_nth_def)
qed

lemma set_remove_nth_distinct:
  assumes "distinct xs" "i < length xs"
  shows "set (remove_nth i xs) = set xs - {xs ! i}"
proof -
  have xs: "xs = take i xs @ xs ! i # drop (Suc i) xs"
    using assms(2) by (simp add: id_take_nth_drop)
  have "distinct (take i xs @ xs ! i # drop (Suc i) xs)"
    using assms(1) xs by simp
  then have "xs ! i \<notin> set (take i xs)" "xs ! i \<notin> set (drop (Suc i) xs)"
    by auto
  moreover have "set xs = set (take i xs) \<union> {xs ! i} \<union> set (drop (Suc i) xs)"
    by (subst xs) auto
  ultimately show ?thesis unfolding remove_nth_def by auto
qed

text \<open>The index of the first element satisfying a test, as a C search loop finds it.\<close>

fun find_index :: "('a \<Rightarrow> bool) \<Rightarrow> 'a list \<Rightarrow> nat option" where
  "find_index P [] = None"
| "find_index P (x # xs) = (if P x then Some 0 else map_option Suc (find_index P xs))"

lemma find_index_None: "find_index P xs = None \<longleftrightarrow> (\<forall>x\<in>set xs. \<not> P x)"
  by (induction xs) auto

lemma find_index_Some:
  "find_index P xs = Some i \<Longrightarrow> i < length xs \<and> P (xs ! i) \<and> (\<forall>j<i. \<not> P (xs ! j))"
proof (induction xs arbitrary: i)
  case (Cons x xs)
  show ?case
  proof (cases "P x")
    case False
    with Cons.prems obtain k where k: "find_index P xs = Some k" "i = Suc k" by auto
    with Cons.IH [OF k(1)] False show ?thesis by (auto simp: less_Suc_eq_0_disj)
  qed (use Cons.prems in auto)
qed simp

lemma find_index_SomeD:
  assumes "find_index P xs = Some i"
  shows "i < length xs" "P (xs ! i)" "xs ! i \<in> set xs"
  using find_index_Some [OF assms] by auto

lemma find_SomeD: "find P xs = Some x \<Longrightarrow> x \<in> set xs \<and> P x"
  by (induction xs) (auto split: if_splits)

lemma find_unique:
  assumes "x \<in> set xs" "P x" "\<And>y. y \<in> set xs \<Longrightarrow> P y \<Longrightarrow> y = x"
  shows "find P xs = Some x"
proof (cases "find P xs")
  case None
  with assms(1,2) show ?thesis by (auto simp: find_None_iff)
next
  case (Some y)
  with assms(3) find_SomeD [OF Some] show ?thesis by auto
qed

lemma distinct_map_inj:
  "distinct (map f xs) \<Longrightarrow> x \<in> set xs \<Longrightarrow> y \<in> set xs \<Longrightarrow> f x = f y \<Longrightarrow> x = y"
  by (auto simp: distinct_map dest: inj_onD)

lemma map_eq_ex:
  assumes "map f xs = map f ys" "x \<in> set xs"
  shows "\<exists>y\<in>set ys. f y = f x"
proof -
  have "f x \<in> f ` set ys" using assms by (metis image_eqI list.set_map)
  then show ?thesis by auto
qed

end
