(* ===== verification/Router_Config.thy ===== *)
theory Router_Config
  imports Prelude
begin

text \<open>
  The router configuration of \<^verbatim>\<open>router/router.h\<close> and the queries of \<^verbatim>\<open>router/router.c\<close>.
  Every fixed array with a separate count is the list of its live elements; the
  \<^verbatim>\<open>ROUTER_MAX_*\<close> capacities are constants the operations test.  Addresses are host-order
  32-bit words, as in the code.
\<close>

section \<open>Capacities\<close>

definition ROUTER_MAX_VRS :: nat where "ROUTER_MAX_VRS = 64"
definition ROUTER_MAX_INTERFACES :: nat where "ROUTER_MAX_INTERFACES = 256"
definition ROUTER_MAX_ROUTES :: nat where "ROUTER_MAX_ROUTES = 512"
definition ROUTER_MAX_LINKS :: nat where "ROUTER_MAX_LINKS = 128"
definition ROUTER_MAX_NAT_POLICIES :: nat where "ROUTER_MAX_NAT_POLICIES = ROUTER_MAX_VRS"
definition ROUTER_MAX_PORT_FORWARDS :: nat where "ROUTER_MAX_PORT_FORWARDS = 128"
definition ROUTER_MAX_EGRESS_POLICIES :: nat where
  "ROUTER_MAX_EGRESS_POLICIES = ROUTER_MAX_INTERFACES"
definition ROUTER_MAX_EGRESS_RULES :: nat where "ROUTER_MAX_EGRESS_RULES = 512"
definition ROUTER_NAME_SIZE :: nat where "ROUTER_NAME_SIZE = 32"

section \<open>Data\<close>

record router_port_identity =
  pi_host :: u32
  pi_pf :: u32
  pi_vf :: u32

datatype router_attachment = ROUTER_VSWITCH | ROUTER_PORT | ROUTER_LINK

record router_interface =
  rif_vr_id :: u16
  rif_interface_id :: u16
  rif_name :: string
  rif_attachment :: router_attachment
  rif_vswitch_id :: u16
  rif_link_id :: u16
  rif_port :: router_port_identity
  rif_mac :: mac
  rif_has_address :: bool
  rif_address :: u32
  rif_prefix :: u8

record router_route =
  rt_vr_id :: u16
  rt_interface_id :: u16
  rt_prefix :: u32
  rt_gateway :: u32
  rt_length :: u8

record router_nat_policy =
  np_vr_id :: u16
  np_interface_id :: u16
  np_public_address :: u32
  np_port_first :: u16
  np_port_last :: u16

record router_port_forward =
  pf_vr_id :: u16
  pf_rule_id :: u16
  pf_interface_id :: u16
  pf_protocol :: u8
  pf_public_port :: u16
  pf_public_port_last :: u16
  pf_private_port :: u16
  pf_private_port_last :: u16
  pf_public_ip :: u32
  pf_private_ip :: u32

record router_egress_policy =
  ep_vr_id :: u16
  ep_interface_id :: u16
  ep_default_allow :: bool

text \<open>\<^verbatim>\<open>icmp_type\<close> and \<^verbatim>\<open>icmp_code\<close> are \<^verbatim>\<open>int16_t\<close> with -1 for "any".\<close>

record router_egress_rule =
  er_vr_id :: u16
  er_interface_id :: u16
  er_rule_id :: u16
  er_source :: u32
  er_destination :: u32
  er_source_prefix :: u8
  er_destination_prefix :: u8
  er_protocol :: u8
  er_port_first :: u16
  er_port_last :: u16
  er_icmp_type :: int
  er_icmp_code :: int
  er_allow :: bool

record router_config =
  cfg_vr_ids :: "u16 list"
  cfg_link_ids :: "u16 list"
  cfg_interfaces :: "router_interface list"
  cfg_routes :: "router_route list"
  cfg_nat_policies :: "router_nat_policy list"
  cfg_port_forwards :: "router_port_forward list"
  cfg_egress_policies :: "router_egress_policy list"
  cfg_egress_rules :: "router_egress_rule list"
  cfg_ingress_policies :: "router_egress_policy list"
  cfg_ingress_rules :: "router_egress_rule list"
  cfg_next_interface_id :: u32

text \<open>
  The callbacks of \<^verbatim>\<open>struct router_inventory\<close>: the manager's inventory decides which ports
  and virtual switches exist.
\<close>

record router_inventory =
  inv_port :: "u16 \<Rightarrow> router_port_identity option"
  inv_switch_exists :: "u16 \<Rightarrow> bool"

definition router_config_init :: router_config where
  "router_config_init = \<lparr>cfg_vr_ids = [], cfg_link_ids = [], cfg_interfaces = [],
     cfg_routes = [], cfg_nat_policies = [], cfg_port_forwards = [],
     cfg_egress_policies = [], cfg_egress_rules = [], cfg_ingress_policies = [],
     cfg_ingress_rules = [], cfg_next_interface_id = 1\<rparr>"

section \<open>Network masks\<close>

text \<open>\<open>prefix == 0 ? 0 : UINT32_MAX << (32 - prefix)\<close> (\<open>mask\<close>, \<open>prefix_mask\<close> in the code).\<close>

definition prefix_mask :: "u8 \<Rightarrow> u32" where
  "prefix_mask n = (if n = 0 then 0 else push_bit (32 - unat n) (- 1))"

definition usable_address :: "u32 \<Rightarrow> u8 \<Rightarrow> bool" where
  "usable_address ip n =
     (if ip = 0 \<or> drop_bit 24 ip = 127 \<or> drop_bit 24 ip = 0 \<or> drop_bit 28 ip \<ge> 14 \<or> n = 0
      then False
      else if n < 31 then
        (let host = ip AND NOT (prefix_mask n) in \<not> (host = 0 \<or> host = NOT (prefix_mask n)))
      else True)"

section \<open>Queries\<close>

definition router_has_vr :: "router_config \<Rightarrow> u16 \<Rightarrow> bool" where
  "router_has_vr c vid = List.member (cfg_vr_ids c) vid"

definition router_has_link :: "router_config \<Rightarrow> u16 \<Rightarrow> bool" where
  "router_has_link c lid = List.member (cfg_link_ids c) lid"

definition interface_by_id :: "router_config \<Rightarrow> u16 \<Rightarrow> router_interface option" where
  "interface_by_id c i = find (\<lambda>r. rif_interface_id r = i) (cfg_interfaces c)"

definition interface_in_vr :: "router_config \<Rightarrow> u16 \<Rightarrow> u16 \<Rightarrow> router_interface option" where
  "interface_in_vr c vr i =
     find (\<lambda>r. rif_vr_id r = vr \<and> rif_interface_id r = i) (cfg_interfaces c)"

definition router_link_peer :: "router_config \<Rightarrow> u16 \<Rightarrow> router_interface option" where
  "router_link_peer c i =
     (if i = 0 then None
      else case interface_by_id c i of
        None \<Rightarrow> None
      | Some self \<Rightarrow>
          if rif_attachment self \<noteq> ROUTER_LINK then None
          else find (\<lambda>r. rif_attachment r = ROUTER_LINK \<and> rif_link_id r = rif_link_id self \<and>
                         rif_interface_id r \<noteq> i) (cfg_interfaces c))"

definition router_nat_policy_find :: "router_config \<Rightarrow> u16 \<Rightarrow> router_nat_policy option" where
  "router_nat_policy_find c vr = find (\<lambda>p. np_vr_id p = vr) (cfg_nat_policies c)"

definition router_nat_policy_address :: "router_config \<Rightarrow> router_nat_policy \<Rightarrow> u32" where
  "router_nat_policy_address c p =
     (if np_public_address p \<noteq> 0 then np_public_address p
      else case find (\<lambda>r. rif_vr_id r = np_vr_id p \<and> rif_interface_id r = np_interface_id p \<and>
                          rif_has_address r) (cfg_interfaces c) of
        None \<Rightarrow> 0 | Some r \<Rightarrow> rif_address r)"

definition router_port_forward_uses_interface :: "router_config \<Rightarrow> u16 \<Rightarrow> bool" where
  "router_port_forward_uses_interface c i =
     list_ex (\<lambda>p. pf_interface_id p = i) (cfg_port_forwards c)"

definition router_egress_policy_find ::
  "router_config \<Rightarrow> u16 \<Rightarrow> u16 \<Rightarrow> router_egress_policy option" where
  "router_egress_policy_find c vr i =
     find (\<lambda>p. ep_vr_id p = vr \<and> ep_interface_id p = i) (cfg_egress_policies c)"

definition router_egress_vr_has_policy :: "router_config \<Rightarrow> u16 \<Rightarrow> bool" where
  "router_egress_vr_has_policy c vr = list_ex (\<lambda>p. ep_vr_id p = vr) (cfg_egress_policies c)"

definition router_ingress_vr_has_policy :: "router_config \<Rightarrow> u16 \<Rightarrow> bool" where
  "router_ingress_vr_has_policy c vr = list_ex (\<lambda>p. ep_vr_id p = vr) (cfg_ingress_policies c)"

definition router_port_reserved :: "router_config \<Rightarrow> router_port_identity \<Rightarrow> bool" where
  "router_port_reserved c p =
     list_ex (\<lambda>r. rif_attachment r = ROUTER_PORT \<and> rif_port r = p) (cfg_interfaces c)"

definition router_switch_reserved :: "router_config \<Rightarrow> u16 \<Rightarrow> bool" where
  "router_switch_reserved c vs =
     list_ex (\<lambda>r. rif_attachment r = ROUTER_VSWITCH \<and> rif_vswitch_id r = vs) (cfg_interfaces c)"

text \<open>\<open>interface(c, vr, name)\<close> returns a pointer into the array: here the index.\<close>

definition interface_index :: "router_config \<Rightarrow> u16 \<Rightarrow> string \<Rightarrow> nat option" where
  "interface_index c vr name =
     find_index (\<lambda>r. rif_vr_id r = vr \<and> rif_name r = name) (cfg_interfaces c)"

definition routes_reference :: "router_config \<Rightarrow> u16 \<Rightarrow> bool" where
  "routes_reference c i = list_ex (\<lambda>r. rt_interface_id r = i) (cfg_routes c)"

definition nat_references :: "router_config \<Rightarrow> u16 \<Rightarrow> bool" where
  "nat_references c i = list_ex (\<lambda>p. np_interface_id p = i) (cfg_nat_policies c)"

definition egress_references :: "router_config \<Rightarrow> u16 \<Rightarrow> bool" where
  "egress_references c i = list_ex (\<lambda>p. ep_interface_id p = i) (cfg_egress_policies c)"

definition ingress_references :: "router_config \<Rightarrow> u16 \<Rightarrow> bool" where
  "ingress_references c i = list_ex (\<lambda>p. ep_interface_id p = i) (cfg_ingress_policies c)"

definition peer_routes_reference :: "router_config \<Rightarrow> router_interface \<Rightarrow> bool" where
  "peer_routes_reference c rif =
     (if rif_attachment rif \<noteq> ROUTER_LINK \<or> \<not> rif_has_address rif then False
      else case router_link_peer c (rif_interface_id rif) of
        None \<Rightarrow> False
      | Some peer \<Rightarrow> list_ex (\<lambda>r. rt_interface_id r = rif_interface_id peer \<and>
                                  rt_gateway r = rif_address rif) (cfg_routes c))"

definition default_route_uses :: "router_config \<Rightarrow> u16 \<Rightarrow> u16 \<Rightarrow> bool" where
  "default_route_uses c vr i =
     list_ex (\<lambda>r. rt_vr_id r = vr \<and> rt_interface_id r = i \<and> rt_prefix r = 0 \<and> rt_length r = 0)
       (cfg_routes c)"

lemmas reference_defs = routes_reference_def nat_references_def egress_references_def
  ingress_references_def router_port_forward_uses_interface_def default_route_uses_def
  list_ex_iff

section \<open>Facts about masks\<close>

lemma prefix_mask_bit: "bit (prefix_mask n) k \<longleftrightarrow> n \<noteq> 0 \<and> 32 - unat n \<le> k \<and> k < 32"
  by (auto simp: prefix_mask_def bit_simps)

lemma prefix_mask_0 [simp]: "prefix_mask 0 = 0"
  by (simp add: prefix_mask_def)

lemma prefix_mask_32: "prefix_mask 32 = - 1"
  by (simp add: prefix_mask_def)

text \<open>A longer prefix is finer: agreement under it implies agreement under a shorter one.\<close>

lemma prefix_mask_mono:
  assumes "m \<le> n"
  shows "prefix_mask m AND prefix_mask n = prefix_mask m"
proof (rule bit_word_eqI)
  fix k :: nat
  have "unat m \<le> unat n" using assms by (simp add: word_le_nat_alt)
  moreover have "m \<noteq> 0 \<Longrightarrow> n \<noteq> 0" using assms by (auto simp: word_le_nat_alt unat_eq_0)
  ultimately show "bit (prefix_mask m AND prefix_mask n) k = bit (prefix_mask m) k"
    by (auto simp: bit_and_iff prefix_mask_bit)
qed

lemma prefix_agree_shorter:
  assumes "a AND prefix_mask n = b AND prefix_mask n" "m \<le> n"
  shows "a AND prefix_mask m = b AND prefix_mask m"
proof -
  have "a AND prefix_mask m = (a AND prefix_mask n) AND prefix_mask m" for a
    using prefix_mask_mono [OF assms(2)] by (metis and.assoc and.commute)
  with assms(1) show ?thesis by metis
qed

end
