(* ===== verification/Router_Ops.thy ===== *)
theory Router_Ops
  imports Router_Config
begin

text \<open>
  The mutating operations of \<^verbatim>\<open>router_command\<close> (\<^verbatim>\<open>router/router.c\<close>) on a parsed command.
  Each definition is one branch of the dispatcher: its guards in source order, each with the
  error message the code returns, then the new configuration.  \<^verbatim>\<open>Inl m\<close> is
  \<^verbatim>\<open>return error(out,size,m)\<close> with nothing changed; \<^verbatim>\<open>Inr c\<close> is the committed candidate.
\<close>

section \<open>Parsed commands\<close>

datatype operation =
    CREATE | DELETE | SHOW | LINK_CREATE | LINK_DELETE | LINK_SHOW
  | ATTACH_PORT | ATTACH_SWITCH | ATTACH_LINK | DETACH_PORT | DETACH_SWITCH | DETACH_LINK
  | IP_ADD | IP_DEL | ROUTE_ADD | ROUTE_DEL | ROUTE_SHOW | MAC_SET
  | NAT_ENABLE | NAT_DISABLE | NAT_SHOW | PF_ADD | PF_DELETE | PF_SHOW
  | EGRESS_POLICY_SET | EGRESS_POLICY_DELETE | EGRESS_POLICY_SHOW
  | EGRESS_RULE_ADD | EGRESS_RULE_DELETE | EGRESS_RULE_SHOW

record command =
  q_op :: operation
  q_id :: u16
  q_port :: u16
  q_vswitch :: u16
  q_link :: u16
  q_name :: string
  q_address :: u32
  q_gateway :: u32
  q_prefix :: u8
  q_mac :: mac
  q_address_from_interface :: bool
  q_port_first :: u16
  q_port_last :: u16
  q_rule_id :: u16
  q_public_port :: u16
  q_public_port_last :: u16
  q_private_port :: u16
  q_private_port_last :: u16
  q_private_ip :: u32
  q_protocol :: u8
  q_source :: u32
  q_destination :: u32
  q_source_prefix :: u8
  q_destination_prefix :: u8
  q_icmp_type :: int
  q_icmp_code :: int
  q_allow :: bool
  q_default_allow :: bool
  q_ingress :: bool

type_synonym op_result = "string + router_config"

section \<open>Virtual routers and router links\<close>

definition link_create :: "router_config \<Rightarrow> command \<Rightarrow> op_result" where
  "link_create c q =
     (if router_has_link c (q_id q) then Inl ''router link already exists''
      else if length (cfg_link_ids c) = ROUTER_MAX_LINKS
        then Inl ''router link capacity reached''
      else Inr (c\<lparr>cfg_link_ids := cfg_link_ids c @ [q_id q]\<rparr>))"

definition link_delete :: "router_config \<Rightarrow> command \<Rightarrow> op_result" where
  "link_delete c q =
     (if \<not> router_has_link c (q_id q) then Inl ''router link not found''
      else if list_ex (\<lambda>r. rif_attachment r = ROUTER_LINK \<and> rif_link_id r = q_id q)
                (cfg_interfaces c)
        then Inl ''detach router link endpoints before deleting link''
      else case find_index (\<lambda>i. i = q_id q) (cfg_link_ids c) of
        None \<Rightarrow> Inr c
      | Some i \<Rightarrow> Inr (c\<lparr>cfg_link_ids := remove_nth i (cfg_link_ids c)\<rparr>))"

definition vr_create :: "router_config \<Rightarrow> command \<Rightarrow> op_result" where
  "vr_create c q =
     (if router_has_vr c (q_id q) then Inl ''VR already exists''
      else if length (cfg_vr_ids c) = ROUTER_MAX_VRS then Inl ''VR capacity reached''
      else Inr (c\<lparr>cfg_vr_ids := cfg_vr_ids c @ [q_id q]\<rparr>))"

definition vr_delete :: "router_config \<Rightarrow> command \<Rightarrow> op_result" where
  "vr_delete c q =
     (if list_ex (\<lambda>r. rif_vr_id r = q_id q) (cfg_interfaces c)
        then Inl ''detach interfaces before deleting VR''
      else case find_index (\<lambda>i. i = q_id q) (cfg_vr_ids c) of
        None \<Rightarrow> Inr c
      | Some i \<Rightarrow> Inr (c\<lparr>cfg_vr_ids := remove_nth i (cfg_vr_ids c)\<rparr>))"

section \<open>Interfaces\<close>

text \<open>The MAC generated at attach: locally administered, from the VR and interface ids.\<close>

definition default_mac :: "u16 \<Rightarrow> u16 \<Rightarrow> mac" where
  "default_mac vr i =
     [2, 0, ucast (drop_bit 8 vr), ucast vr, ucast (drop_bit 8 i), ucast i]"

text \<open>The attachment-specific part of \<^verbatim>\<open>ATTACH_*\<close>: the checks, then the filled interface.\<close>

fun link_endpoints_conflict :: "u16 \<Rightarrow> u16 \<Rightarrow> nat \<Rightarrow> router_interface list \<Rightarrow> string option" where
  "link_endpoints_conflict vr lid n [] =
     (if n \<ge> 2 then Some ''router link already has two endpoints'' else None)"
| "link_endpoints_conflict vr lid n (r # rs) =
     (if rif_attachment r = ROUTER_LINK \<and> rif_link_id r = lid then
        (if rif_vr_id r = vr then Some ''router link already has an endpoint in this VR''
         else link_endpoints_conflict vr lid (Suc n) rs)
      else link_endpoints_conflict vr lid n rs)"

definition attach_kind ::
  "router_config \<Rightarrow> router_inventory \<Rightarrow> command \<Rightarrow> router_interface \<Rightarrow> string + router_interface" where
  "attach_kind c inven q r =
     (case q_op q of
        ATTACH_PORT \<Rightarrow>
          (case inv_port inven (q_port q) of
             None \<Rightarrow> Inl ''port must be an available, in-scope VF representor''
           | Some p \<Rightarrow>
               if router_port_reserved c p then Inl ''port already attached to a VR''
               else if list_ex (\<lambda>i. rif_vr_id i = q_id q \<and> rif_attachment i = ROUTER_PORT)
                         (cfg_interfaces c)
                 then Inl ''MVP permits one public uplink per VR''
               else Inr (r\<lparr>rif_attachment := ROUTER_PORT, rif_port := p\<rparr>))
      | ATTACH_SWITCH \<Rightarrow>
          (if \<not> inv_switch_exists inven (q_vswitch q) then Inl ''vSwitch not found''
           else Inr (r\<lparr>rif_attachment := ROUTER_VSWITCH, rif_vswitch_id := q_vswitch q\<rparr>))
      | _ \<Rightarrow>
          (if \<not> router_has_link c (q_link q) then Inl ''router link not found''
           else case link_endpoints_conflict (q_id q) (q_link q) 0 (cfg_interfaces c) of
             Some m \<Rightarrow> Inl m
           | None \<Rightarrow> Inr (r\<lparr>rif_attachment := ROUTER_LINK, rif_link_id := q_link q\<rparr>)))"

definition fresh_interface :: "router_config \<Rightarrow> command \<Rightarrow> router_interface" where
  "fresh_interface c q = \<lparr>rif_vr_id = q_id q, rif_interface_id = ucast (cfg_next_interface_id c),
     rif_name = q_name q, rif_attachment = ROUTER_VSWITCH, rif_vswitch_id = 0, rif_link_id = 0,
     rif_port = \<lparr>pi_host = 0, pi_pf = 0, pi_vf = 0\<rparr>,
     rif_mac = default_mac (q_id q) (ucast (cfg_next_interface_id c)),
     rif_has_address = False, rif_address = 0, rif_prefix = 0\<rparr>"

definition attach :: "router_config \<Rightarrow> router_inventory \<Rightarrow> command \<Rightarrow> op_result" where
  "attach c inven q =
     (if interface_index c (q_id q) (q_name q) \<noteq> None
        then Inl ''interface name already exists in VR''
      else if length (cfg_interfaces c) = ROUTER_MAX_INTERFACES \<or> cfg_next_interface_id c > 65535
        then Inl ''interface capacity reached''
      else case attach_kind c inven q (fresh_interface c q) of
        Inl m \<Rightarrow> Inl m
      | Inr r \<Rightarrow> Inr (c\<lparr>cfg_interfaces := cfg_interfaces c @ [r],
                        cfg_next_interface_id := cfg_next_interface_id c + 1\<rparr>))"

definition detach_type_mismatch :: "operation \<Rightarrow> router_attachment \<Rightarrow> bool" where
  "detach_type_mismatch opr a \<longleftrightarrow>
     opr = DETACH_PORT \<and> a \<noteq> ROUTER_PORT \<or>
     opr = DETACH_SWITCH \<and> a \<noteq> ROUTER_VSWITCH \<or>
     opr = DETACH_LINK \<and> a \<noteq> ROUTER_LINK"

definition detach :: "router_config \<Rightarrow> command \<Rightarrow> nat \<Rightarrow> op_result" where
  "detach c q k =
     (let rif = cfg_interfaces c ! k; i = rif_interface_id rif in
      if detach_type_mismatch (q_op q) (rif_attachment rif) then Inl ''attachment type mismatch''
      else if rif_has_address rif \<or> routes_reference c i \<or> nat_references c i \<or>
              router_port_forward_uses_interface c i \<or> egress_references c i \<or>
              ingress_references c i
        then Inl ''remove NAT, port-forward, egress policy, IP and route dependencies before detach''
      else Inr (c\<lparr>cfg_interfaces := remove_nth k (cfg_interfaces c)\<rparr>))"

text \<open>The loop of \<^verbatim>\<open>IP_ADD\<close> over all interfaces, stopping at the first conflict.\<close>

definition subnet_overlap :: "router_interface \<Rightarrow> u32 \<Rightarrow> u8 \<Rightarrow> bool" where
  "subnet_overlap r ip n =
     (let len = (if rif_prefix r < n then rif_prefix r else n) in
      rif_address r AND prefix_mask len = ip AND prefix_mask len)"

fun ip_add_conflict ::
  "nat \<Rightarrow> router_interface \<Rightarrow> command \<Rightarrow> nat \<Rightarrow> router_interface list \<Rightarrow> string option" where
  "ip_add_conflict k rif q j [] = None"
| "ip_add_conflict k rif q j (r # rs) =
     (if rif_vr_id r = q_id q \<and> rif_has_address r \<and> subnet_overlap r (q_address q) (q_prefix q)
        then Some ''overlapping interface subnets within VR are not supported''
      else if j \<noteq> k \<and> rif_attachment rif = ROUTER_VSWITCH \<and> rif_attachment r = ROUTER_VSWITCH \<and>
              rif_vswitch_id r = rif_vswitch_id rif \<and> rif_has_address r \<and>
              rif_address r = q_address q
        then Some ''IPv4 address already assigned on shared vSwitch''
      else ip_add_conflict k rif q (Suc j) rs)"

definition link_peer_mismatch :: "router_config \<Rightarrow> router_interface \<Rightarrow> command \<Rightarrow> bool" where
  "link_peer_mismatch c rif q =
     (rif_attachment rif = ROUTER_LINK \<and>
      (case router_link_peer c (rif_interface_id rif) of
         None \<Rightarrow> False
       | Some peer \<Rightarrow> rif_has_address peer \<and>
           (rif_prefix peer \<noteq> q_prefix q \<or>
            rif_address peer AND prefix_mask (q_prefix q) \<noteq>
              q_address q AND prefix_mask (q_prefix q) \<or>
            rif_address peer = q_address q)))"

definition ip_add :: "router_config \<Rightarrow> command \<Rightarrow> nat \<Rightarrow> op_result" where
  "ip_add c q k =
     (let rif = cfg_interfaces c ! k in
      if rif_has_address rif
        then Inl ''one IPv4 address per interface in MVP; delete existing address first''
      else if \<not> usable_address (q_address q) (q_prefix q)
        then Inl ''invalid unicast interface address''
      else case ip_add_conflict k rif q 0 (cfg_interfaces c) of
        Some m \<Rightarrow> Inl m
      | None \<Rightarrow>
          if link_peer_mismatch c rif q
            then Inl ''router link endpoints must use distinct addresses in the same prefix''
          else Inr (c\<lparr>cfg_interfaces := (cfg_interfaces c)
            [k := rif\<lparr>rif_has_address := True, rif_address := q_address q,
                      rif_prefix := q_prefix q\<rparr>]\<rparr>))"

definition ip_del :: "router_config \<Rightarrow> command \<Rightarrow> nat \<Rightarrow> op_result" where
  "ip_del c q k =
     (let rif = cfg_interfaces c ! k; i = rif_interface_id rif in
      if \<not> rif_has_address rif \<or> rif_address rif \<noteq> q_address q \<or> rif_prefix rif \<noteq> q_prefix q
        then Inl ''address not found''
      else if routes_reference c i \<or> nat_references c i \<or> router_port_forward_uses_interface c i
        then Inl ''remove dependent NAT, port-forward and static routes first''
      else if peer_routes_reference c rif
        then Inl ''remove peer VR routes that use this router-link address first''
      else Inr (c\<lparr>cfg_interfaces := (cfg_interfaces c)
        [k := rif\<lparr>rif_has_address := False, rif_address := 0, rif_prefix := 0\<rparr>]\<rparr>))"

definition mac_set :: "router_config \<Rightarrow> command \<Rightarrow> nat \<Rightarrow> op_result" where
  "mac_set c q k =
     (let rif = cfg_interfaces c ! k in
      if list_ex (\<lambda>(j, r). j \<noteq> k \<and> rif_mac r = q_mac q) (enumerate 0 (cfg_interfaces c))
        then Inl ''MAC already assigned to another RIF''
      else Inr (c\<lparr>cfg_interfaces := (cfg_interfaces c)[k := rif\<lparr>rif_mac := q_mac q\<rparr>]\<rparr>))"

section \<open>Routes\<close>

definition route_key_index :: "router_config \<Rightarrow> u16 \<Rightarrow> u32 \<Rightarrow> u8 \<Rightarrow> nat option" where
  "route_key_index c vr p n =
     find_index (\<lambda>r. rt_vr_id r = vr \<and> rt_prefix r = p \<and> rt_length r = n) (cfg_routes c)"

definition route_add :: "router_config \<Rightarrow> command \<Rightarrow> nat \<Rightarrow> op_result" where
  "route_add c q k =
     (let rif = cfg_interfaces c ! k in
      if \<not> rif_has_address rif \<or> \<not> usable_address (q_gateway q) (rif_prefix rif) \<or>
         q_gateway q = rif_address rif \<or>
         q_gateway q AND prefix_mask (rif_prefix rif) \<noteq>
           rif_address rif AND prefix_mask (rif_prefix rif)
        then Inl ''gateway must be an on-link neighbor of addressed interface''
      else if rif_attachment rif = ROUTER_LINK \<and>
              (case router_link_peer c (rif_interface_id rif) of
                 None \<Rightarrow> True
               | Some peer \<Rightarrow> \<not> rif_has_address peer \<or> q_gateway q \<noteq> rif_address peer)
        then Inl ''router-link gateway must equal the addressed peer endpoint''
      else if length (cfg_routes c) = ROUTER_MAX_ROUTES then Inl ''route capacity reached''
      else if route_key_index c (q_id q) (q_address q) (q_prefix q) \<noteq> None
        then Inl ''static route already exists''
      else Inr (c\<lparr>cfg_routes := cfg_routes c @ [\<lparr>rt_vr_id = q_id q,
             rt_interface_id = rif_interface_id rif, rt_prefix = q_address q,
             rt_gateway = q_gateway q, rt_length = q_prefix q\<rparr>]\<rparr>))"

definition route_del :: "router_config \<Rightarrow> command \<Rightarrow> op_result" where
  "route_del c q =
     (case route_key_index c (q_id q) (q_address q) (q_prefix q) of
        None \<Rightarrow> Inl ''static route not found (connected routes follow interface IP)''
      | Some i \<Rightarrow>
          if q_address q = 0 \<and> q_prefix q = 0 \<and>
             (case router_nat_policy_find c (q_id q) of
                None \<Rightarrow> False
              | Some p \<Rightarrow> np_interface_id p = rt_interface_id (cfg_routes c ! i))
            then Inl ''disable NAT before removing its default route''
          else Inr (c\<lparr>cfg_routes := remove_nth i (cfg_routes c)\<rparr>))"

section \<open>NAT and port forwarding\<close>

definition nat_enable :: "router_config \<Rightarrow> command \<Rightarrow> nat \<Rightarrow> op_result" where
  "nat_enable c q k =
     (let rif = cfg_interfaces c ! k; i = rif_interface_id rif in
      if router_nat_policy_find c (q_id q) \<noteq> None then Inl ''NAT already enabled''
      else if (rif_attachment rif \<noteq> ROUTER_PORT \<and> rif_attachment rif \<noteq> ROUTER_VSWITCH) \<or>
              \<not> rif_has_address rif
        then Inl ''NAT interface must be an addressed public port-link or vs-link''
      else if egress_references c i
        then Inl ''NAT public RIF cannot have a guest egress policy''
      else if \<not> default_route_uses c (q_id q) i
        then Inl ''NAT interface must own the VR default route''
      else if \<not> q_address_from_interface q \<and> q_address q \<noteq> rif_address rif
        then Inl ''MVP NAT address must equal the uplink interface address''
      else if length (cfg_nat_policies c) = ROUTER_MAX_NAT_POLICIES
        then Inl ''NAT policy capacity reached''
      else Inr (c\<lparr>cfg_nat_policies := cfg_nat_policies c @ [\<lparr>np_vr_id = q_id q,
             np_interface_id = i,
             np_public_address = (if q_address_from_interface q then 0 else q_address q),
             np_port_first = q_port_first q, np_port_last = q_port_last q\<rparr>]\<rparr>))"

definition nat_disable :: "router_config \<Rightarrow> command \<Rightarrow> op_result" where
  "nat_disable c q =
     (case find_index (\<lambda>p. np_vr_id p = q_id q) (cfg_nat_policies c) of
        None \<Rightarrow> Inl ''NAT is not enabled''
      | Some i \<Rightarrow> Inr (c\<lparr>cfg_nat_policies := remove_nth i (cfg_nat_policies c)\<rparr>))"

definition ports_overlap :: "u16 \<Rightarrow> u16 \<Rightarrow> u16 \<Rightarrow> u16 \<Rightarrow> bool" where
  "ports_overlap a_first a_last b_first b_last \<longleftrightarrow> a_first \<le> b_last \<and> b_first \<le> a_last"

fun pf_add_conflict ::
  "router_interface \<Rightarrow> command \<Rightarrow> router_port_forward list \<Rightarrow> string option" where
  "pf_add_conflict rif q [] = None"
| "pf_add_conflict rif q (r # rs) =
     (if pf_vr_id r \<noteq> q_id q then pf_add_conflict rif q rs
      else if pf_rule_id r = q_rule_id q then Some ''port-forward rule ID already exists''
      else if pf_protocol r = q_protocol q \<and> pf_public_ip r = rif_address rif \<and>
              ports_overlap (pf_public_port r) (pf_public_port_last r)
                (q_public_port q) (q_public_port_last q)
        then Some ''public IP, protocol and port range already forwarded''
      else if (pf_private_port r \<noteq> pf_private_port_last r \<or>
               q_private_port q \<noteq> q_private_port_last q) \<and>
              pf_protocol r = q_protocol q \<and> pf_private_ip r = q_private_ip q \<and>
              ports_overlap (pf_private_port r) (pf_private_port_last r)
                (q_private_port q) (q_private_port_last q)
        then Some ''private IP, protocol and port range already forwarded''
      else pf_add_conflict rif q rs)"

definition pf_add :: "router_config \<Rightarrow> command \<Rightarrow> nat \<Rightarrow> op_result" where
  "pf_add c q k =
     (let rif = cfg_interfaces c ! k; i = rif_interface_id rif in
      if egress_references c i
        then Inl ''port-forward public RIF cannot have a guest egress policy''
      else if (rif_attachment rif \<noteq> ROUTER_PORT \<and> rif_attachment rif \<noteq> ROUTER_VSWITCH) \<or>
              \<not> rif_has_address rif
        then Inl ''port-forward interface must be an addressed public port-link or vs-link''
      else if (case router_nat_policy_find c (q_id q) of
                 None \<Rightarrow> False | Some p \<Rightarrow> np_interface_id p \<noteq> i)
        then Inl ''port-forward interface must match the active NAT uplink''
      else if q_private_ip q = 0 \<or> drop_bit 28 (q_private_ip q) \<ge> 14 \<or>
              drop_bit 24 (q_private_ip q) = 0 \<or> drop_bit 24 (q_private_ip q) = 127
        then Inl ''private IP must be unicast IPv4''
      else case pf_add_conflict rif q (cfg_port_forwards c) of
        Some m \<Rightarrow> Inl m
      | None \<Rightarrow>
          if length (cfg_port_forwards c) = ROUTER_MAX_PORT_FORWARDS
            then Inl ''port-forward capacity reached''
          else Inr (c\<lparr>cfg_port_forwards := cfg_port_forwards c @ [\<lparr>pf_vr_id = q_id q,
                 pf_rule_id = q_rule_id q, pf_interface_id = i, pf_protocol = q_protocol q,
                 pf_public_port = q_public_port q, pf_public_port_last = q_public_port_last q,
                 pf_private_port = q_private_port q,
                 pf_private_port_last = q_private_port_last q,
                 pf_public_ip = rif_address rif, pf_private_ip = q_private_ip q\<rparr>]\<rparr>))"

definition pf_delete :: "router_config \<Rightarrow> command \<Rightarrow> op_result" where
  "pf_delete c q =
     (case find_index (\<lambda>p. pf_vr_id p = q_id q \<and> pf_rule_id p = q_rule_id q)
             (cfg_port_forwards c) of
        None \<Rightarrow> Inl ''port-forward rule not found''
      | Some i \<Rightarrow> Inr (c\<lparr>cfg_port_forwards := remove_nth i (cfg_port_forwards c)\<rparr>))"

section \<open>Egress and ingress policies\<close>

text \<open>
  One branch serves both directions: \<^verbatim>\<open>q.ingress\<close> selects which pair of arrays the pointers
  \<^verbatim>\<open>policies\<close> and \<^verbatim>\<open>rules\<close> refer to.
\<close>

definition fw_policies :: "router_config \<Rightarrow> bool \<Rightarrow> router_egress_policy list" where
  "fw_policies c ing = (if ing then cfg_ingress_policies c else cfg_egress_policies c)"

definition fw_rules :: "router_config \<Rightarrow> bool \<Rightarrow> router_egress_rule list" where
  "fw_rules c ing = (if ing then cfg_ingress_rules c else cfg_egress_rules c)"

definition set_fw_policies :: "router_config \<Rightarrow> bool \<Rightarrow> router_egress_policy list \<Rightarrow> router_config" where
  "set_fw_policies c ing ps =
     (if ing then c\<lparr>cfg_ingress_policies := ps\<rparr> else c\<lparr>cfg_egress_policies := ps\<rparr>)"

definition set_fw_rules :: "router_config \<Rightarrow> bool \<Rightarrow> router_egress_rule list \<Rightarrow> router_config" where
  "set_fw_rules c ing rs =
     (if ing then c\<lparr>cfg_ingress_rules := rs\<rparr> else c\<lparr>cfg_egress_rules := rs\<rparr>)"

definition policy_set :: "router_config \<Rightarrow> command \<Rightarrow> router_interface \<Rightarrow> nat option \<Rightarrow> op_result" where
  "policy_set c q rif pidx =
     (let ps = fw_policies c (q_ingress q); i = rif_interface_id rif in
      if \<not> q_ingress q \<and>
         ((case router_nat_policy_find c (q_id q) of
             None \<Rightarrow> False | Some p \<Rightarrow> np_interface_id p = i) \<or>
          router_port_forward_uses_interface c i)
        then Inl ''egress policy cannot be set on a public RIF''
      else case pidx of
        None \<Rightarrow>
          if length ps = ROUTER_MAX_EGRESS_POLICIES then Inl ''egress policy capacity reached''
          else Inr (set_fw_policies c (q_ingress q) (ps @ [\<lparr>ep_vr_id = q_id q,
                 ep_interface_id = i, ep_default_allow = q_default_allow q\<rparr>]))
      | Some n \<Rightarrow> Inr (set_fw_policies c (q_ingress q)
                 (ps[n := (ps ! n)\<lparr>ep_default_allow := q_default_allow q\<rparr>])))"

definition policy_delete :: "router_config \<Rightarrow> command \<Rightarrow> router_interface \<Rightarrow> nat \<Rightarrow> op_result" where
  "policy_delete c q rif n =
     (if list_ex (\<lambda>r. er_vr_id r = q_id q \<and> er_interface_id r = rif_interface_id rif)
           (fw_rules c (q_ingress q))
        then Inl ''delete egress rules before policy''
      else Inr (set_fw_policies c (q_ingress q) (remove_nth n (fw_policies c (q_ingress q)))))"

definition rule_key_index :: "router_config \<Rightarrow> command \<Rightarrow> router_interface \<Rightarrow> nat option" where
  "rule_key_index c q rif =
     find_index (\<lambda>r. er_vr_id r = q_id q \<and> er_interface_id r = rif_interface_id rif \<and>
                     er_rule_id r = q_rule_id q) (fw_rules c (q_ingress q))"

definition rule_delete :: "router_config \<Rightarrow> command \<Rightarrow> router_interface \<Rightarrow> op_result" where
  "rule_delete c q rif =
     (case rule_key_index c q rif of
        None \<Rightarrow> Inl ''egress rule not found''
      | Some i \<Rightarrow> Inr (set_fw_rules c (q_ingress q) (remove_nth i (fw_rules c (q_ingress q)))))"

definition rule_add :: "router_config \<Rightarrow> command \<Rightarrow> router_interface \<Rightarrow> op_result" where
  "rule_add c q rif =
     (let rs = fw_rules c (q_ingress q) in
      if rule_key_index c q rif \<noteq> None then Inl ''egress rule ID already exists on interface''
      else if length rs = ROUTER_MAX_EGRESS_RULES then Inl ''egress rule capacity reached''
      else Inr (set_fw_rules c (q_ingress q) (rs @ [\<lparr>er_vr_id = q_id q,
             er_interface_id = rif_interface_id rif, er_rule_id = q_rule_id q,
             er_source = q_source q, er_destination = q_destination q,
             er_source_prefix = q_source_prefix q,
             er_destination_prefix = q_destination_prefix q,
             er_protocol = q_protocol q, er_port_first = q_port_first q,
             er_port_last = q_port_last q, er_icmp_type = q_icmp_type q,
             er_icmp_code = q_icmp_code q, er_allow = q_allow q\<rparr>])))"

definition policy_command :: "router_config \<Rightarrow> command \<Rightarrow> nat option \<Rightarrow> op_result" where
  "policy_command c q kopt =
     (case kopt of
        None \<Rightarrow> Inl ''egress policy requires a guest vSwitch interface''
      | Some k \<Rightarrow>
          let rif = cfg_interfaces c ! k;
              pidx = find_index (\<lambda>p. ep_vr_id p = q_id q \<and>
                       ep_interface_id p = rif_interface_id rif) (fw_policies c (q_ingress q)) in
          if \<not> q_ingress q \<and> rif_attachment rif \<noteq> ROUTER_VSWITCH
            then Inl ''egress policy requires a guest vSwitch interface''
          else if q_ingress q \<and> (q_op q = EGRESS_POLICY_SET \<or> q_op q = EGRESS_RULE_ADD) \<and>
                  (rif_attachment rif = ROUTER_LINK \<or> \<not> rif_has_address rif)
            then Inl ''ingress policy requires an addressed port or vSwitch RIF''
          else if q_op q = EGRESS_POLICY_SET then policy_set c q rif pidx
          else case pidx of
            None \<Rightarrow> Inl ''egress policy not configured''
          | Some n \<Rightarrow>
              if q_op q = EGRESS_POLICY_DELETE then policy_delete c q rif n
              else if q_op q = EGRESS_RULE_DELETE then rule_delete c q rif
              else rule_add c q rif)"

section \<open>The dispatcher\<close>

text \<open>
  The part of \<^verbatim>\<open>router_command\<close> after \<^verbatim>\<open>parse\<close> for the operations that change the
  configuration, with the existence guards of the VR and of the named interface.
\<close>

definition interface_command :: "router_config \<Rightarrow> command \<Rightarrow> nat \<Rightarrow> op_result" where
  "interface_command c q k =
     (case q_op q of
        DETACH_PORT \<Rightarrow> detach c q k
      | DETACH_SWITCH \<Rightarrow> detach c q k
      | DETACH_LINK \<Rightarrow> detach c q k
      | IP_ADD \<Rightarrow> ip_add c q k
      | IP_DEL \<Rightarrow> ip_del c q k
      | MAC_SET \<Rightarrow> mac_set c q k
      | ROUTE_ADD \<Rightarrow> route_add c q k
      | NAT_ENABLE \<Rightarrow> nat_enable c q k
      | PF_ADD \<Rightarrow> pf_add c q k
      | _ \<Rightarrow> Inr c)"

definition is_show :: "operation \<Rightarrow> bool" where
  "is_show opr \<longleftrightarrow> opr \<in> set [SHOW, LINK_SHOW, ROUTE_SHOW, NAT_SHOW, PF_SHOW,
     EGRESS_POLICY_SHOW, EGRESS_RULE_SHOW]"

definition router_apply :: "router_config \<Rightarrow> router_inventory \<Rightarrow> command \<Rightarrow> op_result" where
  "router_apply c inven q =
     (case q_op q of
        LINK_CREATE \<Rightarrow> link_create c q
      | LINK_DELETE \<Rightarrow> link_delete c q
      | CREATE \<Rightarrow> vr_create c q
      | opr \<Rightarrow>
          if \<not> router_has_vr c (q_id q) then Inl ''VR not found''
          else let k = interface_index c (q_id q) (q_name q) in
          (case opr of
             DELETE \<Rightarrow> vr_delete c q
           | NAT_DISABLE \<Rightarrow> nat_disable c q
           | PF_DELETE \<Rightarrow> pf_delete c q
           | EGRESS_POLICY_SET \<Rightarrow> policy_command c q k
           | EGRESS_POLICY_DELETE \<Rightarrow> policy_command c q k
           | EGRESS_RULE_ADD \<Rightarrow> policy_command c q k
           | EGRESS_RULE_DELETE \<Rightarrow> policy_command c q k
           | ATTACH_PORT \<Rightarrow> attach c inven q
           | ATTACH_SWITCH \<Rightarrow> attach c inven q
           | ATTACH_LINK \<Rightarrow> attach c inven q
           | ROUTE_DEL \<Rightarrow> route_del c q
           | _ \<Rightarrow> (case k of None \<Rightarrow> Inl ''interface not found in VR''
                            | Some i \<Rightarrow> interface_command c q i)))"

end
