(* ===== verification/Text.thy ===== *)
theory Text
  imports Prelude "HOL-Library.Char_ord"
begin

text \<open>
  The text layer shared by the command parser and the persisted router state: tokenising with
  \<^verbatim>\<open>strtok_r\<close>, decimal numbers, dotted IPv4 addresses (\<^verbatim>\<open>inet_pton\<close>, \<^verbatim>\<open>inet_ntop\<close>) and the
  \<^verbatim>\<open>%2x\<close> conversion of \<^verbatim>\<open>sscanf\<close>, each as the C library documents it.
\<close>

section \<open>Characters\<close>

abbreviation ord :: "char \<Rightarrow> nat" where "ord c \<equiv> of_char c"

definition is_digit :: "char \<Rightarrow> bool" where
  "is_digit c \<longleftrightarrow> 48 \<le> ord c \<and> ord c \<le> 57"

definition is_alpha :: "char \<Rightarrow> bool" where
  "is_alpha c \<longleftrightarrow> 97 \<le> ord c \<and> ord c \<le> 122 \<or> 65 \<le> ord c \<and> ord c \<le> 90"

text \<open>\<open>isspace\<close> in the C locale: space and the codes 9 to 13.\<close>

definition is_space :: "char \<Rightarrow> bool" where
  "is_space c \<longleftrightarrow> ord c = 32 \<or> 9 \<le> ord c \<and> ord c \<le> 13"

text \<open>The delimiter set \<^verbatim>\<open>" \t\r\n"\<close> of every \<^verbatim>\<open>strtok_r\<close> call of the router.\<close>

definition is_delim :: "char \<Rightarrow> bool" where
  "is_delim c \<longleftrightarrow> ord c = 32 \<or> ord c = 9 \<or> ord c = 13 \<or> ord c = 10"

text \<open>The maximal runs of characters that are not delimiters.\<close>

fun strtok_from :: "string \<Rightarrow> string \<Rightarrow> string list" where
  "strtok_from acc [] = (if acc = [] then [] else [rev acc])"
| "strtok_from acc (c # cs) =
     (if is_delim c then (if acc = [] then strtok_from [] cs else rev acc # strtok_from [] cs)
      else strtok_from (c # acc) cs)"

definition strtok :: "string \<Rightarrow> string list" where
  "strtok s = strtok_from [] s"

text \<open>\<open>strchr\<close> then overwriting the separator with 0: the parts before and after it.\<close>

fun split_at :: "char \<Rightarrow> string \<Rightarrow> (string \<times> string) option" where
  "split_at d [] = None"
| "split_at d (c # cs) =
     (if c = d then Some ([], cs) else map_option (\<lambda>(a, b). (c # a, b)) (split_at d cs))"

section \<open>Decimal numbers\<close>

definition dec_value :: "string \<Rightarrow> nat" where
  "dec_value s = foldl (\<lambda>a c. 10 * a + (ord c - 48)) 0 s"

text \<open>
  \<open>number\<close> of \<^verbatim>\<open>router.c\<close>: only digits, at least one, value at most \<^verbatim>\<open>UINT16_MAX\<close> (a
  \<^verbatim>\<open>strtoul\<close> range error is a larger value still).
\<close>

definition number :: "string \<Rightarrow> u16 option" where
  "number s = (if s = [] \<or> \<not> list_all is_digit s then None
               else if dec_value s > 65535 then None else Some (of_nat (dec_value s)))"

text \<open>\<open>printf("%u")\<close>.\<close>

definition digit_char :: "nat \<Rightarrow> char" where
  "digit_char d = char_of (48 + d)"

fun dec :: "nat \<Rightarrow> string" where
  "dec n = (if n < 10 then [digit_char n] else dec (n div 10) @ [digit_char (n mod 10)])"

declare dec.simps [simp del]

definition dec_u16 :: "u16 \<Rightarrow> string" where "dec_u16 w = dec (unat w)"
definition dec_u8 :: "u8 \<Rightarrow> string" where "dec_u8 w = dec (unat w)"
definition dec_u32 :: "u32 \<Rightarrow> string" where "dec_u32 w = dec (unat w)"

text \<open>\<open>printf("%02x")\<close> of a byte.\<close>

definition hex_char :: "nat \<Rightarrow> char" where
  "hex_char d = char_of (if d < 10 then 48 + d else 87 + d)"

definition hex2 :: "u8 \<Rightarrow> string" where
  "hex2 b = [hex_char (unat b div 16), hex_char (unat b mod 16)]"

section \<open>IPv4 addresses\<close>

definition newline :: string where "newline = [CHR 0x0A]"

definition mac_text :: "mac \<Rightarrow> string" where
  "mac_text m = hex2 (m ! 0) @ '':'' @ hex2 (m ! 1) @ '':'' @ hex2 (m ! 2) @ '':'' @
                hex2 (m ! 3) @ '':'' @ hex2 (m ! 4) @ '':'' @ hex2 (m ! 5)"

text \<open>One decimal octet as \<^verbatim>\<open>inet_pton\<close> reads it: no leading zero, at most 255.\<close>

definition octet :: "string \<Rightarrow> nat option" where
  "octet s = (if s = [] \<or> \<not> list_all is_digit s then None
              else if length s > 1 \<and> hd s = CHR ''0'' then None
              else if dec_value s > 255 then None else Some (dec_value s))"

text \<open>\<open>address\<close> of \<^verbatim>\<open>router.c\<close>: \<^verbatim>\<open>inet_pton(AF_INET)\<close> then \<^verbatim>\<open>ntohl\<close>.\<close>

definition address :: "string \<Rightarrow> u32 option" where
  "address s =
     (case split_at (CHR ''.'') s of None \<Rightarrow> None
      | Some (a, s1) \<Rightarrow> (case split_at (CHR ''.'') s1 of None \<Rightarrow> None
      | Some (b, s2) \<Rightarrow> (case split_at (CHR ''.'') s2 of None \<Rightarrow> None
      | Some (c, d) \<Rightarrow>
          (case (octet a, octet b, octet c, octet d) of
             (Some w, Some x, Some y, Some z) \<Rightarrow>
               Some (of_nat (16777216 * w + 65536 * x + 256 * y + z))
           | _ \<Rightarrow> None))))"

text \<open>\<open>ipstr\<close>/\<open>iptext\<close>: \<^verbatim>\<open>htonl\<close> then \<^verbatim>\<open>inet_ntop(AF_INET)\<close>.\<close>

definition ip_text :: "u32 \<Rightarrow> string" where
  "ip_text ip = dec (unat ip div 16777216) @ ''.'' @ dec (unat ip div 65536 mod 256) @ ''.'' @
                dec (unat ip div 256 mod 256) @ ''.'' @ dec (unat ip mod 256)"

section \<open>Hexadecimal scanning\<close>

definition hex_value :: "char \<Rightarrow> nat option" where
  "hex_value c =
     (if is_digit c then Some (ord c - 48)
      else if 97 \<le> ord c \<and> ord c \<le> 102 then Some (ord c - 87)
      else if 65 \<le> ord c \<and> ord c \<le> 70 then Some (ord c - 55)
      else None)"

text \<open>
  One \<^verbatim>\<open>%2x\<close>: leading white space is skipped, then at most two characters are read: a sign
  and a digit, the prefix \<^verbatim>\<open>0x\<close> (value 0), or one or two hexadecimal digits.
\<close>

definition scan_hex2 :: "string \<Rightarrow> (u32 \<times> string) option" where
  "scan_hex2 s =
     (case dropWhile is_space s of
        [] \<Rightarrow> None
      | c # cs \<Rightarrow>
          if c = CHR ''-'' \<or> c = CHR ''+'' then
            (case cs of [] \<Rightarrow> None
             | d # ds \<Rightarrow> (case hex_value d of None \<Rightarrow> None
                | Some v \<Rightarrow> Some (if c = CHR ''-'' then - of_nat v else of_nat v, ds)))
          else (case hex_value c of None \<Rightarrow> None
             | Some v \<Rightarrow>
                 (case cs of [] \<Rightarrow> Some (of_nat v, [])
                  | d # ds \<Rightarrow>
                      if c = CHR ''0'' \<and> (d = CHR ''x'' \<or> d = CHR ''X'') then Some (0, ds)
                      else (case hex_value d of
                              None \<Rightarrow> Some (of_nat v, cs)
                            | Some w \<Rightarrow> Some (of_nat (16 * v + w), ds)))))"

text \<open>The format \<^verbatim>\<open>%2x:%2x:%2x:%2x:%2x:%2x%c\<close> with exactly six conversions.\<close>

fun scan_hex_groups :: "nat \<Rightarrow> string \<Rightarrow> u32 list option" where
  "scan_hex_groups 0 s = None"
| "scan_hex_groups (Suc n) s =
     (case scan_hex2 s of None \<Rightarrow> None
      | Some (v, rest) \<Rightarrow>
          if n = 0 then (if rest = [] then Some [v] else None)
          else (case rest of [] \<Rightarrow> None
                | c # cs \<Rightarrow> if c = CHR '':'' then map_option ((#) v) (scan_hex_groups n cs)
                            else None))"

section \<open>Round trips\<close>

lemma ord_digit_char [simp]: "d < 10 \<Longrightarrow> ord (digit_char d) = 48 + d"
  by (simp add: digit_char_def take_bit_eq_mod)

lemma dec_nonempty [simp]: "dec n \<noteq> []"
  by (subst dec.simps) simp

lemma dec_digits: "list_all is_digit (dec n)"
proof (induction n rule: dec.induct)
  case (1 n)
  then show ?case
    by (cases "n < 10") (simp_all add: dec.simps [of n] is_digit_def)
qed

lemma dec_value_append: "dec_value (s @ [c]) = 10 * dec_value s + (ord c - 48)"
  by (simp add: dec_value_def)

lemma dec_value_dec [simp]: "dec_value (dec n) = n"
proof (induction n rule: dec.induct)
  case (1 n)
  show ?case
  proof (cases "n < 10")
    case True
    then show ?thesis by (simp add: dec.simps [of n] dec_value_def)
  next
    case False
    with 1 show ?thesis by (simp add: dec.simps [of n] dec_value_append)
  qed
qed

lemma number_dec_u16: "number (dec_u16 w) = Some w"
proof -
  have "unat w \<le> 65535" using unat_u16_less [of w] by linarith
  then show ?thesis by (simp add: number_def dec_u16_def dec_digits)
qed

lemma dec_hd_nonzero: "0 < n \<Longrightarrow> hd (dec n) \<noteq> CHR ''0''"
proof (induction n rule: dec.induct)
  case (1 n)
  show ?case
  proof (cases "n < 10")
    case True
    with 1(2) have "ord (hd (dec n)) \<noteq> 48" by (simp add: dec.simps [of n])
    then show ?thesis by auto
  next
    case False
    with 1 show ?thesis by (simp add: dec.simps [of n] hd_append)
  qed
qed

lemma octet_dec: "n \<le> 255 \<Longrightarrow> octet (dec n) = Some n"
proof (cases "n = 0")
  case True
  then show ?thesis by (simp add: octet_def dec_digits) (simp add: dec.simps)
next
  case False
  then show "n \<le> 255 \<Longrightarrow> octet (dec n) = Some n"
    by (simp add: octet_def dec_digits dec_hd_nonzero)
qed

lemma split_at_append:
  "(\<forall>c\<in>set a. c \<noteq> d) \<Longrightarrow> split_at d (a @ d # b) = Some (a, b)"
  by (induction a) auto

lemma dec_no_char: "\<not> is_digit d \<Longrightarrow> \<forall>c\<in>set (dec n). c \<noteq> d"
  using dec_digits [of n] by (auto simp: list_all_iff)

lemma address_ip_text: "address (ip_text ip) = Some ip"
proof -
  let ?n = "unat ip"
  have b: "?n div 16777216 \<le> 255" using unat_u32_less [of ip] by linarith
  have m: "x mod 256 \<le> 255" for x :: nat by simp
  have nd: "\<not> is_digit (CHR ''.'')" by (simp add: is_digit_def)
  note sp = split_at_append [OF dec_no_char [OF nd]]
  have sum: "16777216 * (?n div 16777216) + 65536 * (?n div 65536 mod 256) +
      256 * (?n div 256 mod 256) + ?n mod 256 = ?n"
  proof -
    have "?n = 256 * (?n div 256) + ?n mod 256" by simp
    moreover have "?n div 65536 = ?n div 256 div 256" by (simp add: div_mult2_eq [symmetric])
    then have "?n div 256 = 256 * (?n div 65536) + ?n div 256 mod 256" by simp
    moreover have "?n div 16777216 = ?n div 65536 div 256" by (simp add: div_mult2_eq [symmetric])
    then have "?n div 65536 = 256 * (?n div 16777216) + ?n div 65536 mod 256" by simp
    ultimately show ?thesis by linarith
  qed
  show ?thesis
    unfolding address_def ip_text_def
    using sum by (simp add: sp octet_dec b m)
qed

section \<open>Properties\<close>

text \<open>Printing and parsing are inverse: every 32-bit address printed in dotted form is read back as
  itself, and every 16-bit number printed in decimal is read back as itself.\<close>

lemma text_round_trip: "address (ip_text ip) = Some ip \<and> number (dec_u16 n) = Some n"
  by (simp add: address_ip_text number_dec_u16)

end
