(* ===== verification/Router_Parse.thy ===== *)
theory Router_Parse
  imports Router_Inv Text
begin

text \<open>
  The strict command parser shared by the control client and the daemon: \<open>parse\<close> of
  \<^verbatim>\<open>router/router.c\<close>, its option table and its scanners, and the proof that whatever it
  accepts satisfies the field conditions the operations rely on (\<open>command_wf\<close>).
  The option bits are a datatype, a set of bits the list of its members.
\<close>

section \<open>Scanners\<close>

definition port_range :: "string \<Rightarrow> (u16 \<times> u16) option" where
  "port_range s =
     (if 32 \<le> length s then None
      else case split_at (CHR ''-'') s of
        None \<Rightarrow> None
      | Some (a, b) \<Rightarrow>
          if CHR ''-'' \<in> set b then None
          else (case (number a, number b) of
                  (Some x, Some y) \<Rightarrow> if x < 1024 \<or> y < x then None else Some (x, y)
                | _ \<Rightarrow> None))"

definition forwarding_ports :: "string \<Rightarrow> (u16 \<times> u16) option" where
  "forwarding_ports s =
     (if 32 \<le> length s then None
      else let r = (case split_at (CHR ''-'') s of
          None \<Rightarrow> map_option (\<lambda>a. (a, a)) (number s)
        | Some (a, b) \<Rightarrow>
            if CHR ''-'' \<in> set b then None
            else (case (number a, number b) of
                    (Some x, Some y) \<Rightarrow> Some (x, y) | _ \<Rightarrow> None)) in
      case r of None \<Rightarrow> None
      | Some (x, y) \<Rightarrow> if x = 0 \<or> y = 0 \<or> y < x then None else Some (x, y))"

definition router_ipv4_prefix :: "string \<Rightarrow> (u32 \<times> u8) option" where
  "router_ipv4_prefix s =
     (if 64 \<le> length s then None
      else case split_at (CHR ''/'') s of
        None \<Rightarrow> None
      | Some (a, b) \<Rightarrow>
          (case number b of None \<Rightarrow> None
           | Some n \<Rightarrow> if 32 < n then None
                      else (case address a of None \<Rightarrow> None
                            | Some ip \<Rightarrow> Some (ip, ucast n))))"

definition name_char :: "char \<Rightarrow> bool" where
  "name_char c \<longleftrightarrow> is_alpha c \<or> is_digit c \<or> c = CHR ''_'' \<or> c = CHR ''-''"

definition valid_name :: "string \<Rightarrow> bool" where
  "valid_name s \<longleftrightarrow> s \<noteq> [] \<and> length s < ROUTER_NAME_SIZE \<and> list_all name_char s"

definition mac_address :: "string \<Rightarrow> mac option" where
  "mac_address s =
     (if length s \<noteq> 17 then None
      else case scan_hex_groups 6 s of
        None \<Rightarrow> None
      | Some ms \<Rightarrow>
          let m = map ucast ms :: mac; nonzero = foldl (OR) 0 ms in
          if m ! 0 AND 1 = 0 \<and> nonzero \<noteq> 0 then Some m else None)"

section \<open>Options\<close>

datatype opt = ID | NAME | PORT | SWITCH | ADDRESS | PREFIX | VIA | MAC | PORT_RANGE | LINK
  | RULE_ID | PROTOCOL | PUBLIC_PORT | PRIVATE_IP | PRIVATE_PORT | SOURCE | DESTINATION
  | ACTION | DEFAULT | ICMP_TYPE | ICMP_CODE

definition attach_op :: "operation \<Rightarrow> bool" where
  "attach_op opr \<longleftrightarrow> opr = ATTACH_PORT \<or> opr = ATTACH_SWITCH \<or> opr = ATTACH_LINK"

text \<open>The \<open>strcmp\<close> chain over the option word, giving its bit.\<close>

definition option_bit :: "operation \<Rightarrow> string \<Rightarrow> opt option" where
  "option_bit opr k =
     (if k = ''--id'' then Some ID
      else if k = ''--name'' \<and> attach_op opr then Some NAME
      else if k = ''--interface'' \<and> \<not> attach_op opr then Some NAME
      else if k = ''--port'' then Some PORT
      else if k = ''--switch-id'' then Some SWITCH
      else if k = ''--link-id'' then Some LINK
      else if k = ''--address'' then Some ADDRESS
      else if k = ''--prefix'' then Some PREFIX
      else if k = ''--via'' then Some VIA
      else if k = ''--mac'' then Some MAC
      else if k = ''--port-range'' then Some PORT_RANGE
      else if k = ''--rule-id'' then Some RULE_ID
      else if k = ''--protocol'' then Some PROTOCOL
      else if k = ''--public-port'' then Some PUBLIC_PORT
      else if k = ''--private-ip'' then Some PRIVATE_IP
      else if k = ''--private-port'' then Some PRIVATE_PORT
      else if k = ''--source'' then Some SOURCE
      else if k = ''--destination'' then Some DESTINATION
      else if k = ''--action'' then Some ACTION
      else if k = ''--default'' then Some DEFAULT
      else if k = ''--icmp-type'' then Some ICMP_TYPE
      else if k = ''--icmp-code'' then Some ICMP_CODE
      else None)"

definition nonzero_number :: "string \<Rightarrow> u16 option" where
  "nonzero_number v = (case number v of None \<Rightarrow> None
                       | Some n \<Rightarrow> if n = 0 then None else Some n)"

definition byte_number :: "string \<Rightarrow> int option" where
  "byte_number v = (case number v of None \<Rightarrow> None
                    | Some n \<Rightarrow> if n \<le> 255 then Some (uint n) else None)"

definition allow_deny :: "string \<Rightarrow> bool option" where
  "allow_deny v = (if v = ''allow'' then Some True else if v = ''deny'' then Some False else None)"

definition protocol_number :: "operation \<Rightarrow> string \<Rightarrow> u8 option" where
  "protocol_number opr v =
     (if v = ''tcp'' then Some 6 else if v = ''udp'' then Some 17
      else if opr = EGRESS_RULE_ADD \<and> v = ''icmp'' then Some 1
      else if opr = EGRESS_RULE_ADD \<and> v = ''all'' then Some 0
      else None)"

text \<open>The value of one option: \<open>None\<close> is \<open>valid = false\<close>, else the command with the field set.\<close>

fun option_value :: "command \<Rightarrow> string \<Rightarrow> opt \<Rightarrow> command option" where
  "option_value q v ID = map_option (\<lambda>n. q\<lparr>q_id := n\<rparr>) (nonzero_number v)"
| "option_value q v NAME = (if valid_name v then Some (q\<lparr>q_name := v\<rparr>) else None)"
| "option_value q v PORT = map_option (\<lambda>n. q\<lparr>q_port := n\<rparr>) (number v)"
| "option_value q v SWITCH = map_option (\<lambda>n. q\<lparr>q_vswitch := n\<rparr>) (nonzero_number v)"
| "option_value q v LINK = map_option (\<lambda>n. q\<lparr>q_link := n\<rparr>) (nonzero_number v)"
| "option_value q v ADDRESS =
     (if q_op q = NAT_ENABLE \<and> v = ''interface''
        then Some (q\<lparr>q_address_from_interface := True, q_address := 0\<rparr>)
      else if q_op q = NAT_ENABLE then map_option (\<lambda>a. q\<lparr>q_address := a\<rparr>) (address v)
      else map_option (\<lambda>(a, n). q\<lparr>q_address := a, q_prefix := n\<rparr>) (router_ipv4_prefix v))"
| "option_value q v PREFIX =
     map_option (\<lambda>(a, n). q\<lparr>q_address := a, q_prefix := n\<rparr>) (router_ipv4_prefix v)"
| "option_value q v VIA = map_option (\<lambda>a. q\<lparr>q_gateway := a\<rparr>) (address v)"
| "option_value q v MAC = map_option (\<lambda>m. q\<lparr>q_mac := m\<rparr>) (mac_address v)"
| "option_value q v PORT_RANGE =
     map_option (\<lambda>(a, b). q\<lparr>q_port_first := a, q_port_last := b\<rparr>)
       (if q_op q = EGRESS_RULE_ADD then forwarding_ports v else port_range v)"
| "option_value q v RULE_ID = map_option (\<lambda>n. q\<lparr>q_rule_id := n\<rparr>) (nonzero_number v)"
| "option_value q v PROTOCOL = map_option (\<lambda>p. q\<lparr>q_protocol := p\<rparr>) (protocol_number (q_op q) v)"
| "option_value q v PUBLIC_PORT =
     map_option (\<lambda>(a, b). q\<lparr>q_public_port := a, q_public_port_last := b\<rparr>) (forwarding_ports v)"
| "option_value q v PRIVATE_IP = map_option (\<lambda>a. q\<lparr>q_private_ip := a\<rparr>) (address v)"
| "option_value q v PRIVATE_PORT =
     map_option (\<lambda>(a, b). q\<lparr>q_private_port := a, q_private_port_last := b\<rparr>) (forwarding_ports v)"
| "option_value q v SOURCE =
     map_option (\<lambda>(a, n). q\<lparr>q_source := a, q_source_prefix := n\<rparr>) (router_ipv4_prefix v)"
| "option_value q v DESTINATION =
     map_option (\<lambda>(a, n). q\<lparr>q_destination := a, q_destination_prefix := n\<rparr>) (router_ipv4_prefix v)"
| "option_value q v ACTION = map_option (\<lambda>b. q\<lparr>q_allow := b\<rparr>) (allow_deny v)"
| "option_value q v DEFAULT = map_option (\<lambda>b. q\<lparr>q_default_allow := b\<rparr>) (allow_deny v)"
| "option_value q v ICMP_TYPE = map_option (\<lambda>n. q\<lparr>q_icmp_type := n\<rparr>) (byte_number v)"
| "option_value q v ICMP_CODE = map_option (\<lambda>n. q\<lparr>q_icmp_code := n\<rparr>) (byte_number v)"

text \<open>The option loop: \<open>None\<close> is the error "unknown, duplicate or invalid option".\<close>

fun parse_options ::
  "opt list \<Rightarrow> opt list \<Rightarrow> command \<Rightarrow> string list \<Rightarrow> (command \<times> opt list) option" where
  "parse_options allowed found q (k # v # ts) =
     (case option_bit (q_op q) k of
        None \<Rightarrow> None
      | Some b \<Rightarrow>
          (case option_value q v b of
             None \<Rightarrow> None
           | Some q' \<Rightarrow>
               if b \<notin> set allowed \<or> b \<in> set found then None
               else parse_options allowed (b # found) q' ts))"
| "parse_options allowed found q _ = Some (q, found)"

section \<open>The verb table\<close>

record verb =
  vb_op :: operation
  vb_required :: "opt list"
  vb_allowed :: "opt list"
  vb_start :: nat
  vb_ingress :: bool

definition verb_of :: "operation \<Rightarrow> opt list \<Rightarrow> nat \<Rightarrow> verb" where
  "verb_of opr req st =
     \<lparr>vb_op = opr, vb_required = req, vb_allowed = req, vb_start = st, vb_ingress = False\<rparr>"

definition link_verb :: "string \<Rightarrow> string + verb" where
  "link_verb w =
     (if w = ''create'' then Inr (verb_of LINK_CREATE [ID] 2)
      else if w = ''delete'' then Inr (verb_of LINK_DELETE [ID] 2)
      else if w = ''show'' then Inr (verb_of LINK_SHOW [ID] 2)
      else Inl ''expected link create|delete|show'')"

definition firewall_verb :: "bool \<Rightarrow> string \<Rightarrow> string \<Rightarrow> string + verb" where
  "firewall_verb ing w x =
     (let mk = (\<lambda>opr req extra. Inr ((verb_of opr req 4)
                  \<lparr>vb_allowed := extra @ req, vb_ingress := ing\<rparr>)) in
      if w = ''policy'' then
        (if x = ''set'' then mk EGRESS_POLICY_SET [ID, NAME, DEFAULT] []
         else if x = ''delete'' then mk EGRESS_POLICY_DELETE [ID, NAME] []
         else if x = ''show'' then mk EGRESS_POLICY_SHOW [ID, NAME] []
         else Inl ''expected egress policy set|delete|show'')
      else if w = ''rule'' then
        (if x = ''add'' then mk EGRESS_RULE_ADD [ID, NAME, RULE_ID, PROTOCOL, ACTION]
           [SOURCE, DESTINATION, PORT_RANGE, ICMP_TYPE, ICMP_CODE]
         else if x = ''delete'' then mk EGRESS_RULE_DELETE [ID, NAME, RULE_ID] []
         else if x = ''show'' then mk EGRESS_RULE_SHOW [ID, NAME] [RULE_ID]
         else Inl ''expected egress rule add|delete|show'')
      else Inl ''expected egress policy|rule'')"

definition unsupported :: string where
  "unsupported = ''unsupported vr operation; expected create|delete|show|port|switch|link|'' @
     ''interface|ip|route|nat|port-forward|egress (see router/README.md)''"

text \<open>\<open>t2\<close> and \<open>t3\<close> are the third and fourth token; the guards \<open>count > 2\<close>, \<open>count > 3\<close> protect them.\<close>

definition vr_verb :: "string list \<Rightarrow> string + verb" where
  "vr_verb ts =
     (let w = ts ! 1; n = length ts; t2 = ts ! 2; t3 = ts ! 3 in
      if w = ''create'' then Inr (verb_of CREATE [ID] 2)
      else if w = ''delete'' then Inr (verb_of DELETE [ID] 2)
      else if w = ''show'' \<or> w = ''show-interface'' then Inr (verb_of SHOW [ID] 2)
      else if n > 2 \<and> w = ''port'' then
        (if t2 = ''attach'' then Inr (verb_of ATTACH_PORT [ID, NAME, PORT] 3)
         else if t2 = ''detach'' then Inr (verb_of DETACH_PORT [ID, NAME] 3)
         else Inl ''expected port attach|detach'')
      else if n > 2 \<and> w = ''switch'' then
        (if t2 = ''attach'' then Inr (verb_of ATTACH_SWITCH [ID, NAME, SWITCH] 3)
         else if t2 = ''detach'' then Inr (verb_of DETACH_SWITCH [ID, NAME] 3)
         else Inl ''expected switch attach|detach'')
      else if n > 2 \<and> w = ''link'' then
        (if t2 = ''attach'' then Inr (verb_of ATTACH_LINK [ID, NAME, LINK] 3)
         else if t2 = ''detach'' then Inr (verb_of DETACH_LINK [ID, NAME] 3)
         else Inl ''expected link attach|detach'')
      else if w = ''port-attach'' then Inr (verb_of ATTACH_PORT [ID, NAME, PORT] 2)
      else if w = ''switch-attach'' then Inr (verb_of ATTACH_SWITCH [ID, NAME, SWITCH] 2)
      else if w = ''port-detach'' then Inr (verb_of DETACH_PORT [ID, NAME] 2)
      else if w = ''switch-detach'' then Inr (verb_of DETACH_SWITCH [ID, NAME] 2)
      else if n > 2 \<and> w = ''ip'' then
        (if t2 = ''add'' then Inr (verb_of IP_ADD [ID, NAME, ADDRESS] 3)
         else if t2 = ''del'' then Inr (verb_of IP_DEL [ID, NAME, ADDRESS] 3)
         else Inl ''expected ip add|del'')
      else if n > 2 \<and> w = ''route'' then
        (if t2 = ''add'' then Inr (verb_of ROUTE_ADD [ID, NAME, PREFIX, VIA] 3)
         else if t2 = ''del'' then Inr (verb_of ROUTE_DEL [ID, PREFIX] 3)
         else if t2 = ''show'' then Inr (verb_of ROUTE_SHOW [ID] 3)
         else Inl ''expected route add|del|show'')
      else if n > 2 \<and> w = ''interface'' \<and> t2 = ''set'' then
        Inr (verb_of MAC_SET [ID, NAME, MAC] 3)
      else if n > 2 \<and> w = ''nat'' then
        (if t2 = ''enable'' then Inr (verb_of NAT_ENABLE [ID, NAME, ADDRESS, PORT_RANGE] 3)
         else if t2 = ''disable'' then Inr (verb_of NAT_DISABLE [ID] 3)
         else if t2 = ''show'' then Inr (verb_of NAT_SHOW [ID] 3)
         else Inl ''expected nat enable|disable|show'')
      else if n > 2 \<and> w = ''port-forward'' then
        (if t2 = ''add'' then Inr (verb_of PF_ADD
             [ID, RULE_ID, NAME, PROTOCOL, PUBLIC_PORT, PRIVATE_IP, PRIVATE_PORT] 3)
         else if t2 = ''delete'' then Inr (verb_of PF_DELETE [ID, RULE_ID] 3)
         else if t2 = ''show'' then
           Inr ((verb_of PF_SHOW [ID] 3)\<lparr>vb_allowed := [RULE_ID, ID]\<rparr>)
         else Inl ''expected port-forward add|delete|show'')
      else if n > 3 \<and> (w = ''egress'' \<or> w = ''ingress'') then
        firewall_verb (w = ''ingress'') t2 t3
      else Inl unsupported)"

section \<open>The parser\<close>

definition command_zero :: command where
  "command_zero = \<lparr>q_op = CREATE, q_id = 0, q_port = 0, q_vswitch = 0, q_link = 0, q_name = [],
     q_address = 0, q_gateway = 0, q_prefix = 0, q_mac = [0, 0, 0, 0, 0, 0],
     q_address_from_interface = False, q_port_first = 0, q_port_last = 0, q_rule_id = 0,
     q_public_port = 0, q_public_port_last = 0, q_private_port = 0, q_private_port_last = 0,
     q_private_ip = 0, q_protocol = 0, q_source = 0, q_destination = 0, q_source_prefix = 0,
     q_destination_prefix = 0, q_icmp_type = - 1, q_icmp_code = - 1, q_allow = False,
     q_default_allow = False, q_ingress = False\<rparr>"

text \<open>The checks after the option loop.\<close>

definition parse_final :: "opt list \<Rightarrow> opt list \<Rightarrow> command \<Rightarrow> string + command" where
  "parse_final required found q =
     (if \<not> set required \<subseteq> set found then Inl ''missing required option''
      else if q_op q = PF_ADD \<and>
              uint (q_public_port_last q) - uint (q_public_port q) \<noteq>
              uint (q_private_port_last q) - uint (q_private_port q)
        then Inl ''public and private port ranges must have equal length''
      else if (q_op q = ROUTE_ADD \<or> q_op q = ROUTE_DEL) \<and>
              q_address q AND prefix_mask (q_prefix q) \<noteq> q_address q
        then Inl ''route prefix must have zero host bits''
      else if q_op q = EGRESS_RULE_ADD \<and>
              (q_source q AND prefix_mask (q_source_prefix q) \<noteq> q_source q \<or>
               q_destination q AND prefix_mask (q_destination_prefix q) \<noteq> q_destination q)
        then Inl ''egress CIDR must have zero host bits''
      else if q_op q = EGRESS_RULE_ADD \<and>
              (PORT_RANGE \<in> set found \<and> q_protocol q \<noteq> 6 \<and> q_protocol q \<noteq> 17 \<or>
               (ICMP_TYPE \<in> set found \<or> ICMP_CODE \<in> set found) \<and> q_protocol q \<noteq> 1)
        then Inl ''egress ports require TCP/UDP; ICMP type/code require ICMP''
      else Inr q)"

definition parse_tokens :: "string list \<Rightarrow> string + command" where
  "parse_tokens ts =
     (if length ts > 32 then Inl ''too many arguments''
      else if length ts < 2 then Inl ''expected vr|link <operation>''
      else case (if ts ! 0 = ''link'' then link_verb (ts ! 1)
                 else if ts ! 0 \<noteq> ''vr'' then Inl ''expected vr|link <operation>''
                 else vr_verb ts) of
        Inl m \<Rightarrow> Inl m
      | Inr vb \<Rightarrow>
          if odd (length ts - vb_start vb) then Inl ''options require values''
          else (case parse_options (vb_allowed vb) []
                       (command_zero\<lparr>q_op := vb_op vb, q_ingress := vb_ingress vb\<rparr>)
                       (drop (vb_start vb) ts) of
                  None \<Rightarrow> Inl ''unknown, duplicate or invalid option''
                | Some (q, found) \<Rightarrow> parse_final (vb_required vb) found q))"

definition ROUTER_COMMAND_SIZE :: nat where "ROUTER_COMMAND_SIZE = 512"

definition parse :: "string \<Rightarrow> string + command" where
  "parse request =
     (if length request \<ge> ROUTER_COMMAND_SIZE then Inl ''command too long''
      else parse_tokens (strtok request))"

section \<open>What the scanners accept\<close>

lemma router_ipv4_prefix_le: "router_ipv4_prefix s = Some (a, n) \<Longrightarrow> n \<le> 32"
proof -
  assume "router_ipv4_prefix s = Some (a, n)"
  then obtain w :: u16 where w: "w \<le> 32" "n = ucast w"
    by (auto simp: router_ipv4_prefix_def not_less split: if_splits option.splits)
  have "unat w \<le> 32" using w(1) by (simp add: word_le_nat_alt)
  then have "unat (ucast w :: u8) = unat w" by (simp add: unsigned_ucast_eq take_bit_eq_mod)
  with w show ?thesis by (simp add: word_le_nat_alt)
qed

lemma port_range_ok: "port_range s = Some (a, b) \<Longrightarrow> 1024 \<le> a \<and> a \<le> b"
  by (auto simp: port_range_def not_less split: if_splits option.splits)

lemma forwarding_ports_ok: "forwarding_ports s = Some (a, b) \<Longrightarrow> port_span_ok a b"
  by (auto simp: forwarding_ports_def port_span_ok_def Let_def not_less
      split: if_splits option.splits)

lemma hex_value_less: "hex_value c = Some v \<Longrightarrow> v < 16"
  by (auto simp: hex_value_def is_digit_def split: if_splits)

text \<open>A converted group is a byte, or the negation of one hexadecimal digit.\<close>

lemma scan_hex2_range:
  assumes "scan_hex2 s = Some (w, r)"
  shows "\<exists>n<256. w = of_nat n \<or> n < 16 \<and> w = - of_nat n"
proof -
  have two: "16 * a + b < 256" if "hex_value x = Some a" "hex_value y = Some b" for a b x y
    using hex_value_less [OF that(1)] hex_value_less [OF that(2)] by simp
  consider (minus) d v where "hex_value d = Some v" "w = - of_nat v"
    | (one) d v where "hex_value d = Some v" "w = of_nat v"
    | (zero) "w = 0"
    | (both) d e v u where "hex_value d = Some v" "hex_value e = Some u" "w = of_nat (16 * v + u)"
    using assms unfolding scan_hex2_def
    by (simp split: list.splits option.splits if_splits)
  then show ?thesis
  proof cases
    case minus
    with hex_value_less [OF minus(1)] show ?thesis by (intro exI [of _ v]) simp
  next
    case one
    with hex_value_less [OF one(1)] show ?thesis by (intro exI [of _ v]) simp
  next
    case zero
    then show ?thesis by (intro exI [of _ 0]) simp
  next
    case both
    with two [OF both(1,2)] show ?thesis by (intro exI [of _ "16 * v + u"]) simp
  qed
qed

lemma byte_nonzero:
  assumes "n < 256" "w = of_nat n \<or> n < 16 \<and> w = - of_nat n" "(w :: u32) \<noteq> 0"
  shows "(ucast w :: u8) \<noteq> 0"
proof
  assume z: "(ucast w :: u8) = 0"
  have "unat (ucast w :: u8) = unat w mod 256" by (simp add: unsigned_ucast_eq take_bit_eq_mod)
  with z have m: "unat w mod 256 = 0" by simp
  show False
  proof (cases "w = of_nat n")
    case True
    with assms(1) have "unat w = n" by (simp add: unsigned_of_nat take_bit_eq_mod)
    with m assms(1) have "n = 0" by simp
    with True assms(3) show False by simp
  next
    case False
    with assms(2) have n: "n < 16" "w = - of_nat n" by auto
    with assms(3) have "n \<noteq> 0" by (cases "n = 0") simp_all
    then have "(- of_nat n :: u32) = of_nat (4294967296 - n)"
      using n by (simp add: of_nat_diff)
    then have "unat w = (4294967296 - n) mod 4294967296"
      unfolding n(2) by (simp only: unsigned_of_nat take_bit_eq_mod) simp
    then have "unat w = 4294967296 - n" using n \<open>n \<noteq> 0\<close> by simp
    also have "\<dots> = (256 - n) + 16777215 * 256" using n by simp
    finally have "unat w mod 256 = 256 - n" using n \<open>n \<noteq> 0\<close> by (simp only: mod_mult_self1) simp
    with m n show False by simp
  qed
qed

lemma scan_hex_groups_props:
  "scan_hex_groups k s = Some ms \<Longrightarrow>
   length ms = k \<and> (\<forall>w\<in>set ms. w \<noteq> 0 \<longrightarrow> (ucast w :: u8) \<noteq> 0)"
proof (induction k s arbitrary: ms rule: scan_hex_groups.induct)
  case (2 n s)
  then obtain v rest where v: "scan_hex2 s = Some (v, rest)"
    by (auto split: option.splits)
  have vb: "v \<noteq> 0 \<longrightarrow> (ucast v :: u8) \<noteq> 0"
    using scan_hex2_range [OF v] byte_nonzero by blast
  show ?case
  proof (cases "n = 0")
    case True
    with 2(2) v vb show ?thesis by (auto split: if_splits)
  next
    case False
    with 2(2) v obtain c cs ns where c: "rest = c # cs" "c = CHR '':''"
      "scan_hex_groups n cs = Some ns" "ms = v # ns"
      by (auto split: list.splits if_splits)
    from 2(1) [OF v _ False c(1) c(2) c(3)] vb c(4) show ?thesis by auto
  qed
qed simp

lemma foldl_or_nonzero: "foldl (OR) (a :: u32) ws \<noteq> 0 \<Longrightarrow> a \<noteq> 0 \<or> (\<exists>w\<in>set ws. w \<noteq> 0)"
proof (induction ws arbitrary: a)
  case (Cons w ws)
  then have "a OR w \<noteq> 0 \<or> (\<exists>w\<in>set ws. w \<noteq> 0)" by simp
  moreover have "a OR w \<noteq> 0 \<Longrightarrow> a \<noteq> 0 \<or> w \<noteq> 0" by auto
  ultimately show ?case by auto
qed simp

lemma mac_address_ok: "mac_address s = Some m \<Longrightarrow> mac_ok m"
proof -
  assume "mac_address s = Some m"
  then obtain ms where ms: "scan_hex_groups 6 s = Some ms" "m = map ucast ms"
    "m ! 0 AND 1 = 0" "foldl (OR) 0 ms \<noteq> 0"
    by (auto simp: mac_address_def Let_def split: if_splits option.splits)
  from foldl_or_nonzero [OF ms(4)] obtain w where w: "w \<in> set ms" "w \<noteq> 0" by auto
  with scan_hex_groups_props [OF ms(1)] have "length ms = 6" "(ucast w :: u8) \<noteq> 0" by auto
  with ms w(1) show ?thesis by (auto simp: mac_ok_def)
qed

section \<open>The option loop\<close>

text \<open>What the options read so far say about the fields.\<close>

definition range_inv :: "operation \<Rightarrow> bool \<Rightarrow> u16 \<Rightarrow> u16 \<Rightarrow> bool" where
  "range_inv opr seen a b \<longleftrightarrow>
     (if seen then (if opr = EGRESS_RULE_ADD then port_span_ok a b else 1024 \<le> a \<and> a \<le> b)
      else a = 0 \<and> b = 0)"

definition protocol_inv :: "operation \<Rightarrow> u8 \<Rightarrow> bool" where
  "protocol_inv opr p \<longleftrightarrow> p \<in> {6, 17} \<or> opr = EGRESS_RULE_ADD \<and> p \<in> {0, 1}"

definition icmp_inv :: "bool \<Rightarrow> int \<Rightarrow> bool" where
  "icmp_inv seen n \<longleftrightarrow> - 1 \<le> n \<and> n \<le> 255 \<and> (\<not> seen \<longrightarrow> n = - 1)"

definition options_inv :: "opt list \<Rightarrow> command \<Rightarrow> bool" where
  "options_inv found q \<longleftrightarrow>
     (ID \<in> set found \<longrightarrow> q_id q \<noteq> 0) \<and> q_prefix q \<le> 32 \<and>
     (MAC \<in> set found \<longrightarrow> mac_ok (q_mac q)) \<and>
     range_inv (q_op q) (PORT_RANGE \<in> set found) (q_port_first q) (q_port_last q) \<and>
     (RULE_ID \<in> set found \<longrightarrow> q_rule_id q \<noteq> 0) \<and>
     (PROTOCOL \<in> set found \<longrightarrow> protocol_inv (q_op q) (q_protocol q)) \<and>
     (PUBLIC_PORT \<in> set found \<longrightarrow> port_span_ok (q_public_port q) (q_public_port_last q)) \<and>
     (PRIVATE_PORT \<in> set found \<longrightarrow> port_span_ok (q_private_port q) (q_private_port_last q)) \<and>
     q_source_prefix q \<le> 32 \<and> q_destination_prefix q \<le> 32 \<and>
     icmp_inv (ICMP_TYPE \<in> set found) (q_icmp_type q) \<and>
     icmp_inv (ICMP_CODE \<in> set found) (q_icmp_code q)"

lemma range_inv_scan:
  "(if opr = EGRESS_RULE_ADD then forwarding_ports v else port_range v) = Some (a, b) \<Longrightarrow>
   range_inv opr True a b"
  by (auto simp: range_inv_def dest: port_range_ok forwarding_ports_ok split: if_splits)

lemma protocol_inv_scan: "protocol_number opr v = Some p \<Longrightarrow> protocol_inv opr p"
  by (auto simp: protocol_number_def protocol_inv_def split: if_splits)

lemma uint_ge_minus_1: "- 1 \<le> uint (n :: u16)"
  by (rule order_trans [of _ 0]) simp_all

lemma icmp_inv_scan: "byte_number v = Some n \<Longrightarrow> icmp_inv True n"
  by (auto simp: icmp_inv_def byte_number_def word_le_def uint_ge_minus_1
      split: option.splits if_splits)

lemma option_value_op: "option_value q v b = Some q' \<Longrightarrow> q_op q' = q_op q"
  by (cases b) (auto split: if_splits)

lemma nonzero_number_nz: "nonzero_number v = Some n \<Longrightarrow> n \<noteq> 0"
  by (auto simp: nonzero_number_def split: option.splits if_splits)

lemma option_value_inv:
  assumes "options_inv found q" "option_value q v b = Some q'" "b \<notin> set found"
  shows "options_inv (b # found) q'"
proof (cases b)
  case ID
  with assms(2) obtain x where "nonzero_number v = Some x" "q' = q\<lparr>q_id := x\<rparr>" by auto
  with assms(1) ID show ?thesis by (simp add: options_inv_def nonzero_number_nz)
next
  case NAME
  with assms(2) have "q' = q\<lparr>q_name := v\<rparr>" by (simp split: if_splits)
  with assms(1) NAME show ?thesis by (simp add: options_inv_def)
next
  case PORT
  with assms(2) obtain x where "number v = Some x" "q' = q\<lparr>q_port := x\<rparr>" by auto
  with assms(1) PORT show ?thesis by (simp add: options_inv_def)
next
  case SWITCH
  with assms(2) obtain x where "nonzero_number v = Some x" "q' = q\<lparr>q_vswitch := x\<rparr>" by auto
  with assms(1) SWITCH show ?thesis by (simp add: options_inv_def)
next
  case ADDRESS
  show ?thesis
  proof (cases "q_op q = NAT_ENABLE")
    case True
    show ?thesis
    proof (cases "v = ''interface''")
      case False
      with True assms(2) ADDRESS obtain x where "q' = q\<lparr>q_address := x\<rparr>" by auto
      with assms(1) ADDRESS show ?thesis by (simp add: options_inv_def)
    next
      case i: True
      with True assms(2) ADDRESS have "q' = q\<lparr>q_address_from_interface := True, q_address := 0\<rparr>"
        by simp
      with assms(1) ADDRESS show ?thesis by (simp add: options_inv_def)
    qed
  next
    case False
    with assms(2) ADDRESS obtain x y where "router_ipv4_prefix v = Some (x, y)"
      "q' = q\<lparr>q_address := x, q_prefix := y\<rparr>" by auto
    with assms(1) ADDRESS show ?thesis by (simp add: options_inv_def router_ipv4_prefix_le)
  qed
next
  case PREFIX
  with assms(2) obtain x y where "router_ipv4_prefix v = Some (x, y)" "q' = q\<lparr>q_address := x, q_prefix := y\<rparr>" by auto
  with assms(1) PREFIX show ?thesis by (simp add: options_inv_def router_ipv4_prefix_le)
next
  case VIA
  with assms(2) obtain x where "address v = Some x" "q' = q\<lparr>q_gateway := x\<rparr>" by auto
  with assms(1) VIA show ?thesis by (simp add: options_inv_def)
next
  case MAC
  with assms(2) obtain x where "mac_address v = Some x" "q' = q\<lparr>q_mac := x\<rparr>" by auto
  with assms(1) MAC show ?thesis by (simp add: options_inv_def mac_address_ok)
next
  case PORT_RANGE
  with assms(2) obtain x y where "(if q_op q = EGRESS_RULE_ADD then forwarding_ports v else port_range v) = Some (x, y)" "q' = q\<lparr>q_port_first := x, q_port_last := y\<rparr>" by auto
  with assms(1) PORT_RANGE show ?thesis by (simp add: options_inv_def range_inv_scan [of _ v])
next
  case LINK
  with assms(2) obtain x where "nonzero_number v = Some x" "q' = q\<lparr>q_link := x\<rparr>" by auto
  with assms(1) LINK show ?thesis by (simp add: options_inv_def)
next
  case RULE_ID
  with assms(2) obtain x where "nonzero_number v = Some x" "q' = q\<lparr>q_rule_id := x\<rparr>" by auto
  with assms(1) RULE_ID show ?thesis by (simp add: options_inv_def nonzero_number_nz)
next
  case PROTOCOL
  with assms(2) obtain x where "protocol_number (q_op q) v = Some x" "q' = q\<lparr>q_protocol := x\<rparr>" by auto
  with assms(1) PROTOCOL show ?thesis by (simp add: options_inv_def protocol_inv_scan)
next
  case PUBLIC_PORT
  with assms(2) obtain x y where "forwarding_ports v = Some (x, y)" "q' = q\<lparr>q_public_port := x, q_public_port_last := y\<rparr>" by auto
  with assms(1) PUBLIC_PORT show ?thesis by (simp add: options_inv_def forwarding_ports_ok)
next
  case PRIVATE_IP
  with assms(2) obtain x where "address v = Some x" "q' = q\<lparr>q_private_ip := x\<rparr>" by auto
  with assms(1) PRIVATE_IP show ?thesis by (simp add: options_inv_def)
next
  case PRIVATE_PORT
  with assms(2) obtain x y where "forwarding_ports v = Some (x, y)" "q' = q\<lparr>q_private_port := x, q_private_port_last := y\<rparr>" by auto
  with assms(1) PRIVATE_PORT show ?thesis by (simp add: options_inv_def forwarding_ports_ok)
next
  case SOURCE
  with assms(2) obtain x y where "router_ipv4_prefix v = Some (x, y)" "q' = q\<lparr>q_source := x, q_source_prefix := y\<rparr>" by auto
  with assms(1) SOURCE show ?thesis by (simp add: options_inv_def router_ipv4_prefix_le)
next
  case DESTINATION
  with assms(2) obtain x y where "router_ipv4_prefix v = Some (x, y)" "q' = q\<lparr>q_destination := x, q_destination_prefix := y\<rparr>" by auto
  with assms(1) DESTINATION show ?thesis by (simp add: options_inv_def router_ipv4_prefix_le)
next
  case ACTION
  with assms(2) obtain x where "allow_deny v = Some x" "q' = q\<lparr>q_allow := x\<rparr>" by auto
  with assms(1) ACTION show ?thesis by (simp add: options_inv_def)
next
  case DEFAULT
  with assms(2) obtain x where "allow_deny v = Some x" "q' = q\<lparr>q_default_allow := x\<rparr>" by auto
  with assms(1) DEFAULT show ?thesis by (simp add: options_inv_def)
next
  case ICMP_TYPE
  with assms(2) obtain x where "byte_number v = Some x" "q' = q\<lparr>q_icmp_type := x\<rparr>" by auto
  with assms(1) ICMP_TYPE show ?thesis by (simp add: options_inv_def icmp_inv_scan)
next
  case ICMP_CODE
  with assms(2) obtain x where "byte_number v = Some x" "q' = q\<lparr>q_icmp_code := x\<rparr>" by auto
  with assms(1) ICMP_CODE show ?thesis by (simp add: options_inv_def icmp_inv_scan)
qed

lemma parse_options_inv:
  "options_inv found q \<Longrightarrow> parse_options allowed found q ts = Some (q', found') \<Longrightarrow>
   options_inv found' q' \<and> q_op q' = q_op q"
proof (induction allowed found q ts rule: parse_options.induct)
  case (1 allowed found q k v ts)
  then obtain b q1 where b: "option_bit (q_op q) k = Some b" "option_value q v b = Some q1"
    "\<not> (b \<notin> set allowed \<or> b \<in> set found)" "parse_options allowed (b # found) q1 ts = Some (q', found')"
    by (auto split: option.splits if_splits)
  from b(3) 1(2) b(2) have "options_inv (b # found) q1" by (auto intro: option_value_inv)
  from 1(1) [OF b(1,2,3) this b(4)] show ?case by (simp add: option_value_op [OF b(2)])
qed auto

section \<open>Accepted commands are well formed\<close>

text \<open>Each verb's required options cover what its operation reads.\<close>

definition verb_ok :: "verb \<Rightarrow> bool" where
  "verb_ok vb \<longleftrightarrow>
     ID \<in> set (vb_required vb) \<and>
     (vb_op vb = MAC_SET \<longrightarrow> MAC \<in> set (vb_required vb)) \<and>
     (vb_op vb = NAT_ENABLE \<longrightarrow> PORT_RANGE \<in> set (vb_required vb)) \<and>
     (vb_op vb = PF_ADD \<longrightarrow>
        {RULE_ID, PROTOCOL, PUBLIC_PORT, PRIVATE_PORT} \<subseteq> set (vb_required vb)) \<and>
     (vb_op vb = EGRESS_RULE_ADD \<longrightarrow> {RULE_ID, PROTOCOL} \<subseteq> set (vb_required vb))"

lemma verb_of_ok:
  "opr \<notin> {MAC_SET, NAT_ENABLE, PF_ADD, EGRESS_RULE_ADD} \<Longrightarrow> ID \<in> set req \<Longrightarrow> verb_ok (verb_of opr req st)"
  by (simp add: verb_ok_def verb_of_def)

lemma link_verb_ok: "link_verb w = Inr vb \<Longrightarrow> verb_ok vb"
  by (auto simp: link_verb_def intro: verb_of_ok split: if_splits)

lemma firewall_verb_ok: "firewall_verb ing w x = Inr vb \<Longrightarrow> verb_ok vb"
  by (auto simp: firewall_verb_def Let_def verb_ok_def verb_of_def split: if_splits)

lemma verb_ok_of [simp]:
  "verb_ok (verb_of opr req st) \<longleftrightarrow>
     ID \<in> set req \<and> (opr = MAC_SET \<longrightarrow> MAC \<in> set req) \<and> (opr = NAT_ENABLE \<longrightarrow> PORT_RANGE \<in> set req) \<and>
     (opr = PF_ADD \<longrightarrow> {RULE_ID, PROTOCOL, PUBLIC_PORT, PRIVATE_PORT} \<subseteq> set req) \<and>
     (opr = EGRESS_RULE_ADD \<longrightarrow> {RULE_ID, PROTOCOL} \<subseteq> set req)"
  by (simp add: verb_ok_def verb_of_def)

lemma verb_ok_allowed [simp]: "verb_ok (vb\<lparr>vb_allowed := a\<rparr>) = verb_ok vb"
  by (simp add: verb_ok_def)

lemma vr_verb_ok: "vr_verb ts = Inr vb \<Longrightarrow> verb_ok vb"
  unfolding vr_verb_def Let_def
  by (simp split: if_splits) (auto dest: firewall_verb_ok)

lemma options_inv_zero: "options_inv [] (command_zero\<lparr>q_op := opr, q_ingress := ing\<rparr>)"
  by (simp add: options_inv_def command_zero_def range_inv_def icmp_inv_def)

lemma diff_eq_word:
  assumes "uint (b :: u16) - uint a = uint (d :: u16) - uint c"
  shows "b - a = d - c"
proof -
  have "(of_int (uint b - uint a) :: u16) = of_int (uint d - uint c)" using assms by simp
  then show ?thesis by simp
qed

lemma guard_chain:
  "(if a then Inl s1 else if b then Inl s2 else if c then Inl s3 else if d then Inl s4
    else if e then Inl s5 else Inr x) = (Inr y :: string + 'a) \<longleftrightarrow>
   \<not> a \<and> \<not> b \<and> \<not> c \<and> \<not> d \<and> \<not> e \<and> x = y"
  by simp

lemma parse_final_wf:
  assumes "parse_final required found q = Inr q'" "options_inv found q"
    "verb_ok vb" "vb_op vb = q_op q" "vb_required vb = required"
  shows "command_wf q'"
proof -
  note f = assms(1) [unfolded parse_final_def guard_chain]
  have q: "q' = q" "set required \<subseteq> set found" using f by simp_all
  have q3: "q_op q = PF_ADD \<Longrightarrow> q_public_port_last q - q_public_port q =
       q_private_port_last q - q_private_port q"
    using f diff_eq_word by blast
  have q4: "q_op q = ROUTE_ADD \<Longrightarrow> q_address q AND prefix_mask (q_prefix q) = q_address q"
    using f by blast
  have q5: "q_op q = EGRESS_RULE_ADD \<Longrightarrow> q_source q AND prefix_mask (q_source_prefix q) = q_source q \<and>
       q_destination q AND prefix_mask (q_destination_prefix q) = q_destination q \<and>
       (PORT_RANGE \<in> set found \<longrightarrow> q_protocol q \<in> {6, 17}) \<and>
       (q_protocol q \<noteq> 1 \<longrightarrow> ICMP_TYPE \<notin> set found \<and> ICMP_CODE \<notin> set found)"
    using f by blast
  note o = assms(2) [unfolded options_inv_def]
  note v = assms(3) [unfolded verb_ok_def assms(4,5)]
  have req: "b \<in> set found" if "b \<in> set required" for b using that q(2) by (rule subsetD [rotated])
  have id: "q_id q \<noteq> 0" "q_prefix q \<le> 32" using o v req [of ID] by simp_all
  have mac: "q_op q = MAC_SET \<Longrightarrow> mac_ok (q_mac q)" using o v req [of MAC] by simp
  have nat: "q_op q = NAT_ENABLE \<Longrightarrow> 1024 \<le> q_port_first q \<and> q_port_first q \<le> q_port_last q"
    using o v req [of PORT_RANGE] by (simp add: range_inv_def)
  have pf: "q_op q = PF_ADD \<Longrightarrow> q_protocol q \<in> {6, 17} \<and> q_rule_id q \<noteq> 0 \<and>
      port_span_ok (q_public_port q) (q_public_port_last q) \<and>
      port_span_ok (q_private_port q) (q_private_port_last q)"
    using o v req [of RULE_ID] req [of PROTOCOL] req [of PUBLIC_PORT] req [of PRIVATE_PORT]
    by (simp add: protocol_inv_def)
  have er: "q_rule_id q \<noteq> 0 \<and>
      rule_fields_ok (q_source q) (q_source_prefix q) (q_destination q) (q_destination_prefix q)
        (q_protocol q) (q_port_first q) (q_port_last q) (q_icmp_type q) (q_icmp_code q)"
    if e: "q_op q = EGRESS_RULE_ADD"
  proof -
    have p: "q_rule_id q \<noteq> 0" "protocol_inv (q_op q) (q_protocol q)"
      using o v e req [of RULE_ID] req [of PROTOCOL] by simp_all
    have r: "range_inv (q_op q) (PORT_RANGE \<in> set found) (q_port_first q) (q_port_last q)"
      using o by blast
    then have "q_port_first q = 0 \<and> q_port_last q = 0 \<or>
        port_span_ok (q_port_first q) (q_port_last q) \<and> q_protocol q \<in> {6, 17}"
      using e q5 [OF e] by (cases "PORT_RANGE \<in> set found") (simp_all add: range_inv_def)
    moreover have "icmp_inv (ICMP_TYPE \<in> set found) (q_icmp_type q)"
      "icmp_inv (ICMP_CODE \<in> set found) (q_icmp_code q)" using o by blast+
    then have "- 1 \<le> q_icmp_type q \<and> q_icmp_type q \<le> 255 \<and> - 1 \<le> q_icmp_code q \<and> q_icmp_code q \<le> 255 \<and>
        (q_protocol q \<noteq> 1 \<longrightarrow> q_icmp_type q = - 1 \<and> q_icmp_code q = - 1)"
      using q5 [OF e] unfolding icmp_inv_def by blast
    moreover have "q_protocol q \<in> {0, 1, 6, 17}" using p(2) by (auto simp: protocol_inv_def)
    moreover have "q_source_prefix q \<le> 32" "q_destination_prefix q \<le> 32" using o by blast+
    ultimately show ?thesis using p(1) q5 [OF e] unfolding rule_fields_ok_def by blast
  qed
  show ?thesis unfolding q(1) command_wf_def using id mac nat pf er q3 q4 by blast
qed

lemma parse_wf_aux:
  assumes "parse s = Inr q"
  shows "command_wf q"
proof -
  let ?ts = "strtok s"
  from assms obtain vb q1 found where vb:
    "(if ?ts ! 0 = ''link'' then link_verb (?ts ! 1)
      else if ?ts ! 0 \<noteq> ''vr'' then Inl ''expected vr|link <operation>'' else vr_verb ?ts) = Inr vb"
    "parse_options (vb_allowed vb) [] (command_zero\<lparr>q_op := vb_op vb, q_ingress := vb_ingress vb\<rparr>)
       (drop (vb_start vb) ?ts) = Some (q1, found)"
    "parse_final (vb_required vb) found q1 = Inr q"
    unfolding parse_def parse_tokens_def
    by (auto simp del: parse_options.simps split: if_splits sum.splits option.splits)
  have ok: "verb_ok vb" using vb(1) by (auto split: if_splits intro: link_verb_ok vr_verb_ok)
  from parse_options_inv [OF options_inv_zero vb(2)]
  have "options_inv found q1" "q_op q1 = vb_op vb" by auto
  from parse_final_wf [OF vb(3) this(1) ok this(2) [symmetric] refl] show ?thesis .
qed

section \<open>Properties\<close>


lemma sample_tokens: "strtok ''link show --id 5'' = [''link'', ''show'', ''--id'', ''5'']"
  by (simp add: strtok_def is_delim_def)

lemma sample_number: "nonzero_number ''5'' = Some 5"
  by (simp add: nonzero_number_def number_def is_digit_def dec_value_def)

lemma sample_parse_tokens:
  "parse_tokens [''link'', ''show'', ''--id'', ''5''] = Inr (command_zero\<lparr>q_op := LINK_SHOW, q_id := 5\<rparr>)"
  by (simp add: parse_tokens_def link_verb_def verb_of_def option_bit_def sample_number parse_final_def
      command_zero_def)


end
