(* ===== verification/Router_Preserve.thy ===== *)
theory Router_Preserve
  imports Router_Inv
begin

text \<open>
  Every operation of the router configuration preserves \<^const>\<open>config_wf\<close>: one lemma per
  operation, then the dispatcher.
\<close>

section \<open>References under changes of the interface array\<close>

lemma rif_ref_mono:
  assumes "rif_ref ifs vr i P"
    and "\<And>r. r \<in> set ifs \<Longrightarrow> rif_interface_id r = i \<Longrightarrow> rif_vr_id r = vr \<Longrightarrow> P r \<Longrightarrow>
           \<exists>r'\<in>set ifs'. rif_interface_id r' = i \<and> rif_vr_id r' = vr \<and> Q r'"
  shows "rif_ref ifs' vr i Q"
  using assms unfolding rif_ref_def by blast

lemma in_set_update_other: "x \<in> set xs \<Longrightarrow> x \<noteq> xs ! k \<Longrightarrow> x \<in> set (xs[k := y])"
  by (metis in_set_conv_nth length_list_update nth_list_update_neq)

lemma in_set_remove_other:
  assumes "x \<in> set xs" "x \<noteq> xs ! k"
  shows "x \<in> set (remove_nth k xs)"
proof (cases "k < length xs")
  case True
  then have "xs = take k xs @ xs ! k # drop (Suc k) xs" by (simp add: id_take_nth_drop)
  then have "set xs = set (take k xs) \<union> {xs ! k} \<union> set (drop (Suc k) xs)"
    by (metis Un_insert_right list.simps(15) set_append sup_bot_right Un_assoc Un_commute)
  with assms show ?thesis by (auto simp: remove_nth_def)
qed (use assms in \<open>simp add: remove_nth_def\<close>)

lemma wf_interfaces_unique:
  assumes "wf_interfaces vrs links n ifs" "a \<in> set ifs" "b \<in> set ifs"
    and "rif_interface_id a = rif_interface_id b"
  shows "a = b"
  using assms by (auto simp: wf_interfaces_def intro: distinct_map_inj)

lemma two_endpoints:
  assumes "wf_interfaces vrs links n ifs"
    and "a \<in> set ifs" "b \<in> set ifs" "d \<in> set ifs" "on_link l a" "on_link l b" "on_link l d"
    and "rif_interface_id a \<noteq> rif_interface_id b" "rif_interface_id a \<noteq> rif_interface_id d"
  shows "b = d"
proof (rule ccontr)
  assume "b \<noteq> d"
  moreover have "a \<noteq> b" "a \<noteq> d" using assms(8,9) by auto
  ultimately have "card {a, b, d} = 3" by simp
  moreover have "{a, b, d} \<subseteq> set (filter (on_link l) ifs)" using assms(2-7) by auto
  then have "card {a, b, d} \<le> length (filter (on_link l) ifs)"
    by (meson List.finite_set card_length card_mono le_trans)
  ultimately show False using assms(1) by (auto simp: wf_interfaces_def dest: spec [of _ l])
qed

section \<open>Virtual routers and links\<close>

lemma remove_found:
  assumes "distinct xs" "find_index (\<lambda>i. i = x) xs = Some k"
  shows "set (remove_nth k xs) = set xs - {x}"
  using assms find_index_SomeD [OF assms(2)] by (simp add: set_remove_nth_distinct)

lemma wf_interfaces_ids_mono:
  assumes "wf_interfaces vrs links n ifs"
    and "\<And>r. r \<in> set ifs \<Longrightarrow> rif_vr_id r \<in> set vrs \<Longrightarrow> rif_vr_id r \<in> set vrs'"
    and "\<And>r. r \<in> set ifs \<Longrightarrow> rif_attachment r = ROUTER_LINK \<Longrightarrow> rif_link_id r \<in> set links \<Longrightarrow>
           rif_link_id r \<in> set links'"
  shows "wf_interfaces vrs' links' n ifs"
  using assms by (auto simp: wf_interfaces_def rif_ok_def)

lemma link_create_wf:
  assumes "config_wf c" "link_create c q = Inr c'"
  shows "config_wf c'"
  using assms unfolding link_create_def config_wf_def
  by (auto split: if_splits simp: router_has_link_def intro: wf_interfaces_ids_mono)

lemma vr_create_wf:
  assumes "config_wf c" "q_id q \<noteq> 0" "vr_create c q = Inr c'"
  shows "config_wf c'"
  using assms unfolding vr_create_def config_wf_def
  by (auto split: if_splits simp: router_has_vr_def intro: wf_interfaces_ids_mono)

lemma link_delete_wf:
  assumes "config_wf c" "link_delete c q = Inr c'"
  shows "config_wf c'"
proof (cases "find_index (\<lambda>i. i = q_id q) (cfg_link_ids c)")
  case None
  with assms show ?thesis by (auto simp: link_delete_def split: if_splits)
next
  case (Some k)
  have free: "\<And>r. r \<in> set (cfg_interfaces c) \<Longrightarrow> rif_attachment r = ROUTER_LINK \<Longrightarrow>
      rif_link_id r \<noteq> q_id q"
    and c': "c' = c\<lparr>cfg_link_ids := remove_nth k (cfg_link_ids c)\<rparr>"
    using assms(2) Some by (auto simp: link_delete_def list_ex_iff split: if_splits)
  have d: "distinct (cfg_link_ids c)" using assms(1) by (simp add: config_wf_def)
  have "wf_interfaces (cfg_vr_ids c) (remove_nth k (cfg_link_ids c)) (cfg_next_interface_id c)
          (cfg_interfaces c)"
    by (rule wf_interfaces_ids_mono [where vrs = "cfg_vr_ids c" and links = "cfg_link_ids c"])
      (use assms(1) free remove_found [OF d Some] in \<open>auto simp: config_wf_def\<close>)
  with assms(1) length_remove_nth_le [of k "cfg_link_ids c"] show ?thesis
    unfolding c' config_wf_def by (simp add: distinct_remove_nth)
qed

lemma vr_delete_wf:
  assumes "config_wf c" "vr_delete c q = Inr c'"
  shows "config_wf c'"
proof (cases "find_index (\<lambda>i. i = q_id q) (cfg_vr_ids c)")
  case None
  with assms show ?thesis by (auto simp: vr_delete_def split: if_splits)
next
  case (Some k)
  have free: "\<And>r. r \<in> set (cfg_interfaces c) \<Longrightarrow> rif_vr_id r \<noteq> q_id q"
    and c': "c' = c\<lparr>cfg_vr_ids := remove_nth k (cfg_vr_ids c)\<rparr>"
    using assms(2) Some by (auto simp: vr_delete_def list_ex_iff split: if_splits)
  have d: "distinct (cfg_vr_ids c)" using assms(1) by (simp add: config_wf_def)
  have "wf_interfaces (remove_nth k (cfg_vr_ids c)) (cfg_link_ids c) (cfg_next_interface_id c)
          (cfg_interfaces c)"
    by (rule wf_interfaces_ids_mono [where vrs = "cfg_vr_ids c" and links = "cfg_link_ids c"])
      (use assms(1) free remove_found [OF d Some] in \<open>auto simp: config_wf_def\<close>)
  moreover have "0 \<notin> set (remove_nth k (cfg_vr_ids c))"
    using assms(1) remove_nth_subsetD [of 0 k "cfg_vr_ids c"] by (auto simp: config_wf_def)
  ultimately show ?thesis
    using assms(1) length_remove_nth_le [of k "cfg_vr_ids c"]
    unfolding c' config_wf_def by (simp add: distinct_remove_nth)
qed

section \<open>Routes\<close>

lemma wf_nat_routes_superset:
  assumes "wf_nat ifs rts eps ns" "set rts \<subseteq> set rts'"
  shows "wf_nat ifs rts' eps ns"
  using assms unfolding wf_nat_def nat_ok_def by blast

lemma route_add_wf:
  assumes wf: "config_wf c" and q: "command_wf q" "q_op q = ROUTE_ADD"
    and k: "k < length (cfg_interfaces c)" "rif_vr_id (cfg_interfaces c ! k) = q_id q"
    and r: "route_add c q k = Inr c'"
  shows "config_wf c'"
proof -
  let ?rif = "cfg_interfaces c ! k"
  define rt where "rt = \<lparr>rt_vr_id = q_id q, rt_interface_id = rif_interface_id ?rif,
    rt_prefix = q_address q, rt_gateway = q_gateway q, rt_length = q_prefix q\<rparr>"
  have c': "c' = c\<lparr>cfg_routes := cfg_routes c @ [rt]\<rparr>"
    using r by (auto simp: route_add_def rt_def Let_def split: if_splits)
  have peer: "\<exists>p\<in>set (cfg_interfaces c). on_link (rif_link_id ?rif) p \<and>
      rif_interface_id p \<noteq> rif_interface_id ?rif \<and> rif_has_address p \<and> rif_address p = q_gateway q"
    if lk: "rif_attachment ?rif = ROUTER_LINK"
  proof -
    obtain p where p: "router_link_peer c (rif_interface_id ?rif) = Some p"
      "rif_has_address p" "q_gateway q = rif_address p"
      using r lk by (auto simp: route_add_def Let_def split: if_splits option.splits)
    have "interface_by_id c (rif_interface_id ?rif) = Some ?rif"
      unfolding interface_by_id_def using wf k
      by (intro find_unique) (auto simp: config_wf_def intro: wf_interfaces_unique)
    with p(1) have "p \<in> set (cfg_interfaces c) \<and> on_link (rif_link_id ?rif) p \<and>
        rif_interface_id p \<noteq> rif_interface_id ?rif"
      by (auto simp: router_link_peer_def split: if_splits dest: find_SomeD)
    with p show ?thesis by auto
  qed
  have "gateway_ok (cfg_interfaces c) (q_gateway q) ?rif"
    using r peer by (auto simp: gateway_ok_def route_add_def Let_def split: if_splits)
  then have "route_ok (cfg_interfaces c) rt"
    using q k by (auto simp: route_ok_def rt_def command_wf_def rif_ref_def)
  moreover have "(q_id q, q_address q, q_prefix q) \<notin>
      set (map (\<lambda>r. (rt_vr_id r, rt_prefix r, rt_length r)) (cfg_routes c))"
    using r by (auto simp: route_add_def Let_def route_key_index_def find_index_None split: if_splits)
  moreover have "length (cfg_routes c) \<noteq> ROUTER_MAX_ROUTES"
    using r by (auto simp: route_add_def Let_def split: if_splits)
  ultimately have "wf_routes (cfg_interfaces c) (cfg_routes c @ [rt])"
    using wf by (auto simp: config_wf_def wf_routes_def rt_def)
  with wf show ?thesis
    unfolding c' config_wf_def by (auto intro: wf_nat_routes_superset)
qed


lemma key_unique:
  assumes "distinct (map f xs)" "i < length xs" "x \<in> set (remove_nth i xs)"
  shows "f x \<noteq> f (xs ! i)"
proof -
  have "f x \<in> set (remove_nth i (map f xs))" using assms(3) by (simp flip: map_remove_nth)
  then show ?thesis using assms by (simp add: set_remove_nth_distinct)
qed

lemma wf_routes_remove: "wf_routes ifs rts \<Longrightarrow> wf_routes ifs (remove_nth i rts)"
  using length_remove_nth_le [of i rts]
  by (auto simp: wf_routes_def map_remove_nth distinct_remove_nth dest: remove_nth_subsetD)

lemma route_del_wf:
  assumes wf: "config_wf c" and r: "route_del c q = Inr c'"
  shows "config_wf c'"
proof -
  obtain k where k: "route_key_index c (q_id q) (q_address q) (q_prefix q) = Some k"
    and c': "c' = c\<lparr>cfg_routes := remove_nth k (cfg_routes c)\<rparr>"
    and guard: "\<not> (q_address q = 0 \<and> q_prefix q = 0 \<and>
             (case router_nat_policy_find c (q_id q) of None \<Rightarrow> False
              | Some p \<Rightarrow> np_interface_id p = rt_interface_id (cfg_routes c ! k)))"
    using r by (auto simp: route_del_def split: option.splits if_splits)
  let ?rt = "cfg_routes c ! k"
  have rt: "rt_vr_id ?rt = q_id q" "rt_prefix ?rt = q_address q" "rt_length ?rt = q_prefix q"
    using find_index_SomeD [OF k [unfolded route_key_index_def]] by auto
  have nat: "nat_ok (cfg_interfaces c) (remove_nth k (cfg_routes c)) (cfg_egress_policies c) p"
    if p: "p \<in> set (cfg_nat_policies c)" for p
  proof -
    have ok: "nat_ok (cfg_interfaces c) (cfg_routes c) (cfg_egress_policies c) p"
      using wf p by (auto simp: config_wf_def wf_nat_def)
    then obtain d where d: "d \<in> set (cfg_routes c)" "rt_vr_id d = np_vr_id p"
      "rt_interface_id d = np_interface_id p" "rt_prefix d = 0" "rt_length d = 0"
      by (auto simp: nat_ok_def)
    have "d \<noteq> ?rt"
    proof
      assume e: "d = ?rt"
      have "router_nat_policy_find c (q_id q) = Some p"
        unfolding router_nat_policy_find_def using wf p e d rt
        by (intro find_unique) (auto simp: config_wf_def wf_nat_def dest: distinct_map_inj)
      with guard e d rt show False by simp
    qed
    then have "d \<in> set (remove_nth k (cfg_routes c))" using d(1) by (simp add: in_set_remove_other)
    with ok d show ?thesis unfolding nat_ok_def by blast
  qed
  have "wf_nat (cfg_interfaces c) (remove_nth k (cfg_routes c)) (cfg_egress_policies c)
          (cfg_nat_policies c)"
    using wf nat by (auto simp: config_wf_def wf_nat_def)
  with wf show ?thesis
    unfolding c' config_wf_def by (auto intro: wf_routes_remove)
qed

section \<open>NAT policies\<close>

lemma wf_nat_remove: "wf_nat ifs rts eps ns \<Longrightarrow> wf_nat ifs rts eps (remove_nth i ns)"
  using length_remove_nth_le [of i ns]
  by (auto simp: wf_nat_def map_remove_nth distinct_remove_nth dest: remove_nth_subsetD)

lemma nat_disable_wf:
  assumes "config_wf c" "nat_disable c q = Inr c'"
  shows "config_wf c'"
  using assms unfolding nat_disable_def config_wf_def
  by (auto split: option.splits intro: wf_nat_remove)

lemma nat_enable_wf:
  assumes wf: "config_wf c" and q: "command_wf q" "q_op q = NAT_ENABLE"
    and k: "k < length (cfg_interfaces c)" "rif_vr_id (cfg_interfaces c ! k) = q_id q"
    and r: "nat_enable c q k = Inr c'"
  shows "config_wf c'"
proof -
  let ?rif = "cfg_interfaces c ! k"
  define p where "p = \<lparr>np_vr_id = q_id q, np_interface_id = rif_interface_id ?rif,
    np_public_address = (if q_address_from_interface q then 0 else q_address q),
    np_port_first = q_port_first q, np_port_last = q_port_last q\<rparr>"
  have c': "c' = c\<lparr>cfg_nat_policies := cfg_nat_policies c @ [p]\<rparr>"
    using r by (auto simp: nat_enable_def p_def Let_def split: if_splits)
  have guards: "router_nat_policy_find c (q_id q) = None" "public_rif ?rif"
    "\<not> egress_references c (rif_interface_id ?rif)"
    "default_route_uses c (q_id q) (rif_interface_id ?rif)"
    "q_address_from_interface q \<or> q_address q = rif_address ?rif"
    "length (cfg_nat_policies c) \<noteq> ROUTER_MAX_NAT_POLICIES"
    using r by (auto simp: nat_enable_def Let_def public_rif_def split: if_splits
        router_attachment.splits)
  have "nat_ok (cfg_interfaces c) (cfg_routes c) (cfg_egress_policies c) p"
    using guards q k unfolding nat_ok_def p_def
    by (auto simp: command_wf_def rif_ref_def not_policed_def reference_defs)
  moreover have "q_id q \<notin> set (map np_vr_id (cfg_nat_policies c))"
    using guards(1) by (auto simp: router_nat_policy_find_def find_None_iff)
  ultimately have "wf_nat (cfg_interfaces c) (cfg_routes c) (cfg_egress_policies c)
      (cfg_nat_policies c @ [p])"
    using wf guards(6) by (auto simp: config_wf_def wf_nat_def p_def)
  with wf show ?thesis unfolding c' config_wf_def by simp
qed

section \<open>Port forwards\<close>

lemma wf_port_forwards_remove:
  "wf_port_forwards ifs eps pfs \<Longrightarrow> wf_port_forwards ifs eps (remove_nth i pfs)"
  using length_remove_nth_le [of i pfs]
  by (auto simp: wf_port_forwards_def map_remove_nth distinct_remove_nth dest: remove_nth_subsetD)

lemma pf_delete_wf:
  assumes "config_wf c" "pf_delete c q = Inr c'"
  shows "config_wf c'"
  using assms unfolding pf_delete_def config_wf_def
  by (auto split: option.splits intro: wf_port_forwards_remove)

lemma pf_add_no_conflict:
  "pf_add_conflict rif q pfs = None \<Longrightarrow> r \<in> set pfs \<Longrightarrow> pf_vr_id r = q_id q \<Longrightarrow>
     pf_rule_id r \<noteq> q_rule_id q \<and>
     (pf_protocol r = q_protocol q \<and> pf_public_ip r = rif_address rif \<longrightarrow>
        \<not> ports_overlap (pf_public_port r) (pf_public_port_last r)
             (q_public_port q) (q_public_port_last q))"
  by (induction pfs) (auto split: if_splits)

lemma ports_overlap_sym: "ports_overlap a b d e = ports_overlap d e a b"
  by (auto simp: ports_overlap_def)

lemma pf_add_wf:
  assumes wf: "config_wf c" and q: "command_wf q" "q_op q = PF_ADD"
    and k: "k < length (cfg_interfaces c)" "rif_vr_id (cfg_interfaces c ! k) = q_id q"
    and r: "pf_add c q k = Inr c'"
  shows "config_wf c'"
proof -
  let ?rif = "cfg_interfaces c ! k"
  define p where "p = \<lparr>pf_vr_id = q_id q,
    pf_rule_id = q_rule_id q, pf_interface_id = rif_interface_id ?rif, pf_protocol = q_protocol q,
    pf_public_port = q_public_port q, pf_public_port_last = q_public_port_last q,
    pf_private_port = q_private_port q, pf_private_port_last = q_private_port_last q,
    pf_public_ip = rif_address ?rif, pf_private_ip = q_private_ip q\<rparr>"
  have c': "c' = c\<lparr>cfg_port_forwards := cfg_port_forwards c @ [p]\<rparr>"
    using r by (auto simp: pf_add_def p_def Let_def split: if_splits option.splits)
  have guards: "public_rif ?rif" "\<not> egress_references c (rif_interface_id ?rif)"
    "pf_add_conflict ?rif q (cfg_port_forwards c) = None"
    "length (cfg_port_forwards c) \<noteq> ROUTER_MAX_PORT_FORWARDS"
    using r by (auto simp: pf_add_def Let_def public_rif_def split: if_splits option.splits)
  note nc = pf_add_no_conflict [OF guards(3)]
  have ok: "pf_ok (cfg_interfaces c) (cfg_egress_policies c) p"
    using guards q k unfolding pf_ok_def p_def
    by (auto simp: command_wf_def rif_ref_def not_policed_def reference_defs)
  have fresh: "pf_key p \<notin> set (map pf_key (cfg_port_forwards c))"
  proof
    assume "pf_key p \<in> set (map pf_key (cfg_port_forwards c))"
    then obtain a where "a \<in> set (cfg_port_forwards c)" "pf_key a = pf_key p" by force
    with nc [of a] show False by (simp add: p_def)
  qed
  have dis: "pf_disjoint a p" "pf_disjoint p a" if "a \<in> set (cfg_port_forwards c)" for a
    using nc [OF that] by (auto simp: pf_disjoint_def p_def ports_overlap_sym)
  have "wf_port_forwards (cfg_interfaces c) (cfg_egress_policies c) (cfg_port_forwards c @ [p])"
    using wf ok fresh dis guards(4) by (auto simp: config_wf_def wf_port_forwards_def)
  with wf show ?thesis unfolding c' config_wf_def by simp
qed


section \<open>Policies and rules\<close>

definition wf_egress_users :: "router_config \<Rightarrow> router_egress_policy list \<Rightarrow> bool" where
  "wf_egress_users c eps \<longleftrightarrow>
     (\<forall>p\<in>set (cfg_nat_policies c). not_policed eps (np_interface_id p)) \<and>
     (\<forall>p\<in>set (cfg_port_forwards c). not_policed eps (pf_interface_id p))"

lemma config_wf_egress_users: "config_wf c \<Longrightarrow> wf_egress_users c (cfg_egress_policies c)"
  by (auto simp: config_wf_def wf_egress_users_def wf_nat_def wf_port_forwards_def nat_ok_def pf_ok_def)

lemma fw_update_wf:
  assumes wf: "config_wf c"
    and fw: "wf_firewall (cfg_interfaces c) ing ps (fw_rules c ing)"
    and users: "\<not> ing \<Longrightarrow> wf_egress_users c ps"
  shows "config_wf (set_fw_policies c ing ps)"
proof (cases ing)
  case True
  with wf fw show ?thesis by (simp add: config_wf_def set_fw_policies_def fw_rules_def)
next
  case False
  have "wf_nat (cfg_interfaces c) (cfg_routes c) ps (cfg_nat_policies c)"
    "wf_port_forwards (cfg_interfaces c) ps (cfg_port_forwards c)"
    using wf users [OF False]
    by (auto simp: config_wf_def wf_egress_users_def wf_nat_def wf_port_forwards_def nat_ok_def pf_ok_def)
  with False wf fw show ?thesis by (simp add: config_wf_def set_fw_policies_def fw_rules_def)
qed

lemma fw_rules_update_wf:
  assumes "config_wf c" "wf_firewall (cfg_interfaces c) ing (fw_policies c ing) rs"
  shows "config_wf (set_fw_rules c ing rs)"
  using assms by (auto simp: config_wf_def set_fw_rules_def fw_policies_def split: if_splits)

lemma config_wf_firewall:
  "config_wf c \<Longrightarrow> wf_firewall (cfg_interfaces c) ing (fw_policies c ing) (fw_rules c ing)"
  by (cases ing) (simp_all add: config_wf_def fw_policies_def fw_rules_def)

lemma policy_set_wf:
  assumes wf: "config_wf c"
    and k: "rif \<in> set (cfg_interfaces c)" "rif_vr_id rif = q_id q"
    and kind: "q_ingress q \<or> rif_attachment rif = ROUTER_VSWITCH"
    and pidx: "pidx = find_index (\<lambda>p. ep_vr_id p = q_id q \<and> ep_interface_id p = rif_interface_id rif)
                 (fw_policies c (q_ingress q))"
    and r: "policy_set c q rif pidx = Inr c'"
  shows "config_wf c'"
proof -
  let ?ing = "q_ingress q"
  let ?ps = "fw_policies c ?ing"
  note fw = config_wf_firewall [OF wf, of ?ing]
  define p where "p = \<lparr>ep_vr_id = q_id q, ep_interface_id = rif_interface_id rif,
    ep_default_allow = q_default_allow q\<rparr>"
  have nopub: "\<not> router_port_forward_uses_interface c (rif_interface_id rif)"
    "\<And>n. router_nat_policy_find c (q_id q) = Some n \<Longrightarrow> np_interface_id n \<noteq> rif_interface_id rif"
    if "\<not> ?ing"
    using r that by (auto simp: policy_set_def Let_def split: if_splits option.splits)
  show ?thesis
  proof (cases pidx)
    case None
    have c': "c' = set_fw_policies c ?ing (?ps @ [p])"
      and cap: "length ?ps \<noteq> ROUTER_MAX_EGRESS_POLICIES"
      using r None by (auto simp: policy_set_def Let_def p_def split: if_splits)
    have fresh: "ep_key p \<notin> set (map ep_key ?ps)"
      using None pidx by (auto simp: p_def find_index_None)
    have ref: "rif_ref (cfg_interfaces c) (q_id q) (rif_interface_id rif)
        (\<lambda>r. ?ing \<or> rif_attachment r = ROUTER_VSWITCH)"
      using k kind by (auto simp: rif_ref_def)
    have "wf_firewall (cfg_interfaces c) ?ing (?ps @ [p]) (fw_rules c ?ing)"
      using fw fresh ref cap by (auto simp: wf_firewall_def p_def)
    moreover have "wf_egress_users c (?ps @ [p])" if ing: "\<not> ?ing"
    proof -
      have nat: "np_interface_id n \<noteq> rif_interface_id rif" if n: "n \<in> set (cfg_nat_policies c)" for n
      proof
        assume e: "np_interface_id n = rif_interface_id rif"
        have ok: "nat_ok (cfg_interfaces c) (cfg_routes c) (cfg_egress_policies c) n"
          using wf n by (auto simp: config_wf_def wf_nat_def)
        then obtain r where "r \<in> set (cfg_interfaces c)" "rif_interface_id r = rif_interface_id rif"
          "rif_vr_id r = np_vr_id n"
          using e by (auto simp: nat_ok_def rif_ref_def)
        moreover from this have "r = rif"
          using wf k by (auto simp: config_wf_def intro: wf_interfaces_unique)
        ultimately have "np_vr_id n = q_id q" using k by simp
        then have "router_nat_policy_find c (q_id q) = Some n"
          unfolding router_nat_policy_find_def using wf n
          by (intro find_unique) (auto simp: config_wf_def wf_nat_def dest: distinct_map_inj)
        with nopub(2) [OF ing] e show False by blast
      qed
      show ?thesis
        using config_wf_egress_users [OF wf] nat [THEN not_sym] nopub(1) [OF ing] ing
        by (auto simp: wf_egress_users_def not_policed_def fw_policies_def reference_defs p_def)
    qed
    ultimately show ?thesis unfolding c' by (intro fw_update_wf [OF wf])
  next
    case (Some n)
    let ?qs = "?ps[n := (?ps ! n)\<lparr>ep_default_allow := q_default_allow q\<rparr>]"
    have c': "c' = set_fw_policies c ?ing ?qs"
      using r Some by (auto simp: policy_set_def Let_def split: if_splits)
    have n: "n < length ?ps" using Some pidx by (auto dest: find_index_SomeD)
    have keys: "map ep_key ?qs = map ep_key ?ps"
      using n by (simp add: map_update list_update_same_conv)
    note same = map_eq_ex [OF keys] and same' = map_eq_ex [OF keys [symmetric]]
    have "wf_firewall (cfg_interfaces c) ?ing ?qs (fw_rules c ?ing)"
      unfolding wf_firewall_def keys
    proof (intro conjI ballI)
      fix p assume "p \<in> set ?qs"
      from same [OF this] obtain p' where "p' \<in> set ?ps" "ep_key p' = ep_key p" by blast
      then show "rif_ref (cfg_interfaces c) (ep_vr_id p) (ep_interface_id p)
          (\<lambda>r. ?ing \<or> rif_attachment r = ROUTER_VSWITCH)"
        using fw by (auto simp: wf_firewall_def)
    next
      fix r assume "r \<in> set (fw_rules c ?ing)"
      then obtain p where "p \<in> set ?ps" "ep_key p = (er_vr_id r, er_interface_id r)"
        using fw by (auto simp: wf_firewall_def)
      with same' [of p] show "\<exists>p\<in>set ?qs. ep_key p = (er_vr_id r, er_interface_id r)" by simp
    qed (use fw in \<open>auto simp: wf_firewall_def\<close>)
    moreover have "wf_egress_users c ?qs" if ing: "\<not> ?ing"
    proof -
      have "not_policed ?qs i" if "not_policed ?ps i" for i
        using that same by (fastforce simp: not_policed_def)
      then show ?thesis
        using config_wf_egress_users [OF wf] ing
        by (auto simp: wf_egress_users_def fw_policies_def)
    qed
    ultimately show ?thesis unfolding c' by (intro fw_update_wf [OF wf])
  qed
qed


lemma policy_delete_wf:
  assumes wf: "config_wf c" and n: "n < length (fw_policies c (q_ingress q))"
    and key: "ep_key (fw_policies c (q_ingress q) ! n) = (q_id q, rif_interface_id rif)"
    and r: "policy_delete c q rif n = Inr c'"
  shows "config_wf c'"
proof -
  let ?ing = "q_ingress q"
  let ?ps = "fw_policies c ?ing"
  note fw = config_wf_firewall [OF wf, of ?ing]
  have c': "c' = set_fw_policies c ?ing (remove_nth n ?ps)"
    and norules: "\<And>r. r \<in> set (fw_rules c ?ing) \<Longrightarrow>
      (er_vr_id r, er_interface_id r) \<noteq> (q_id q, rif_interface_id rif)"
    using r by (auto simp: policy_delete_def list_ex_iff split: if_splits)
  have keep: "p \<in> set (remove_nth n ?ps)" if "p \<in> set ?ps" "ep_key p \<noteq> (q_id q, rif_interface_id rif)" for p
  proof (rule in_set_remove_other)
    show "p \<noteq> ?ps ! n" using that(2) key by metis
  qed (fact that(1))
  have "wf_firewall (cfg_interfaces c) ?ing (remove_nth n ?ps) (fw_rules c ?ing)"
    unfolding wf_firewall_def
  proof (intro conjI ballI)
    fix r assume r: "r \<in> set (fw_rules c ?ing)"
    then obtain p where "p \<in> set ?ps" "ep_key p = (er_vr_id r, er_interface_id r)"
      using fw by (auto simp: wf_firewall_def)
    with keep norules [OF r] show "\<exists>p\<in>set (remove_nth n ?ps). ep_key p = (er_vr_id r, er_interface_id r)"
      by metis
  qed (use fw length_remove_nth_le [of n ?ps] in
      \<open>auto simp: wf_firewall_def map_remove_nth distinct_remove_nth dest: remove_nth_subsetD\<close>)
  moreover have "wf_egress_users c (remove_nth n ?ps)" if "\<not> ?ing"
    using config_wf_egress_users [OF wf] that
    by (auto simp: wf_egress_users_def not_policed_def fw_policies_def dest: remove_nth_subsetD)
  ultimately show ?thesis unfolding c' by (intro fw_update_wf [OF wf])
qed

lemma rule_delete_wf:
  assumes wf: "config_wf c" and r: "rule_delete c q rif = Inr c'"
  shows "config_wf c'"
proof -
  obtain i where c': "c' = set_fw_rules c (q_ingress q) (remove_nth i (fw_rules c (q_ingress q)))"
    using r by (auto simp: rule_delete_def split: option.splits)
  have "wf_firewall (cfg_interfaces c) (q_ingress q) (fw_policies c (q_ingress q))
      (remove_nth i (fw_rules c (q_ingress q)))"
    using config_wf_firewall [OF wf, of "q_ingress q"]
      length_remove_nth_le [of i "fw_rules c (q_ingress q)"]
    by (auto simp: wf_firewall_def map_remove_nth distinct_remove_nth dest: remove_nth_subsetD)
  then show ?thesis unfolding c' by (rule fw_rules_update_wf [OF wf])
qed

lemma rule_add_wf:
  assumes wf: "config_wf c" and q: "command_wf q" "q_op q = EGRESS_RULE_ADD"
    and n: "n < length (fw_policies c (q_ingress q))"
    and key: "ep_key (fw_policies c (q_ingress q) ! n) = (q_id q, rif_interface_id rif)"
    and r: "rule_add c q rif = Inr c'"
  shows "config_wf c'"
proof -
  let ?ing = "q_ingress q"
  let ?rs = "fw_rules c ?ing"
  define er where "er = \<lparr>er_vr_id = q_id q,
             er_interface_id = rif_interface_id rif, er_rule_id = q_rule_id q,
             er_source = q_source q, er_destination = q_destination q,
             er_source_prefix = q_source_prefix q,
             er_destination_prefix = q_destination_prefix q,
             er_protocol = q_protocol q, er_port_first = q_port_first q,
             er_port_last = q_port_last q, er_icmp_type = q_icmp_type q,
             er_icmp_code = q_icmp_code q, er_allow = q_allow q\<rparr>"
  have c': "c' = set_fw_rules c ?ing (?rs @ [er])"
    and cap: "length ?rs \<noteq> ROUTER_MAX_EGRESS_RULES"
    and none: "rule_key_index c q rif = None"
    using r by (auto simp: rule_add_def Let_def er_def split: if_splits)
  have fresh: "er_key er \<notin> set (map er_key ?rs)"
    using none by (auto simp: rule_key_index_def find_index_None er_def)
  have pol: "\<exists>p\<in>set (fw_policies c ?ing). ep_key p = (er_vr_id er, er_interface_id er)"
    using n key nth_mem [OF n] by (intro bexI [of _ "fw_policies c ?ing ! n"]) (auto simp: er_def)
  have ok: "er_ok er" using q by (auto simp: er_ok_def er_def command_wf_def)
  have "wf_firewall (cfg_interfaces c) ?ing (fw_policies c ?ing) (?rs @ [er])"
    using config_wf_firewall [OF wf, of ?ing] fresh cap pol ok
    by (auto simp: wf_firewall_def)
  then show ?thesis unfolding c' by (rule fw_rules_update_wf [OF wf])
qed

lemma policy_command_wf:
  assumes wf: "config_wf c" and q: "command_wf q"
    and op: "q_op q \<in> {EGRESS_POLICY_SET, EGRESS_POLICY_DELETE, EGRESS_RULE_ADD, EGRESS_RULE_DELETE}"
    and r: "policy_command c q (interface_index c (q_id q) (q_name q)) = Inr c'"
  shows "config_wf c'"
proof -
  obtain k where k: "interface_index c (q_id q) (q_name q) = Some k"
    using r by (auto simp: policy_command_def split: option.splits)
  let ?rif = "cfg_interfaces c ! k"
  have rif: "?rif \<in> set (cfg_interfaces c)" "rif_vr_id ?rif = q_id q"
    using find_index_SomeD [OF k [unfolded interface_index_def]] by auto
  define pidx where "pidx = find_index (\<lambda>p. ep_vr_id p = q_id q \<and>
      ep_interface_id p = rif_interface_id ?rif) (fw_policies c (q_ingress q))"
  have kind: "q_ingress q \<or> rif_attachment ?rif = ROUTER_VSWITCH"
    using r k by (auto simp: policy_command_def Let_def split: if_splits)
  show ?thesis
  proof (cases "q_op q = EGRESS_POLICY_SET")
    case True
    then have "policy_set c q ?rif pidx = Inr c'"
      using r k kind by (auto simp: policy_command_def Let_def pidx_def split: if_splits)
    then show ?thesis unfolding pidx_def by (rule policy_set_wf [OF wf rif kind refl])
  next
    case False
    then obtain n where n: "pidx = Some n"
      and r': "(if q_op q = EGRESS_POLICY_DELETE then policy_delete c q ?rif n
                else if q_op q = EGRESS_RULE_DELETE then rule_delete c q ?rif
                else rule_add c q ?rif) = Inr c'"
      using r k kind by (auto simp: policy_command_def Let_def pidx_def split: if_splits option.splits)
    have key: "n < length (fw_policies c (q_ingress q))"
      "ep_key (fw_policies c (q_ingress q) ! n) = (q_id q, rif_interface_id ?rif)"
      using find_index_SomeD [OF n [unfolded pidx_def]] by auto
    consider "policy_delete c q ?rif n = Inr c'" | "rule_delete c q ?rif = Inr c'"
      | "q_op q = EGRESS_RULE_ADD" "rule_add c q ?rif = Inr c'"
      using r' op False by (auto split: if_splits)
    then show ?thesis
    proof cases
      case 1
      then show ?thesis by (rule policy_delete_wf [OF wf key])
    next
      case 2
      then show ?thesis by (rule rule_delete_wf [OF wf])
    next
      case 3
      then show ?thesis by (intro rule_add_wf [OF wf q _ key])
    qed
  qed
qed


section \<open>Changing the interface array\<close>

text \<open>\<open>rif_refines r r'\<close>: every reference satisfied by \<open>r\<close> is satisfied by \<open>r'\<close>.\<close>

definition rif_same :: "router_interface \<Rightarrow> router_interface \<Rightarrow> bool" where
  "rif_same r r' \<longleftrightarrow> rif_interface_id r' = rif_interface_id r \<and> rif_vr_id r' = rif_vr_id r \<and>
     rif_attachment r' = rif_attachment r \<and> rif_link_id r' = rif_link_id r"

definition rif_refines :: "router_interface \<Rightarrow> router_interface \<Rightarrow> bool" where
  "rif_refines r r' \<longleftrightarrow> rif_same r r' \<and>
     (rif_has_address r \<longrightarrow> rif_has_address r' \<and> rif_address r' = rif_address r \<and>
        rif_prefix r' = rif_prefix r)"

lemma rif_refines_refl [simp]: "rif_refines r r"
  by (simp add: rif_refines_def rif_same_def)

lemma route_ok_change:
  assumes ok: "route_ok ifs rt"
    and full: "\<And>r. r \<in> set ifs \<Longrightarrow> rif_interface_id r = rt_interface_id rt \<Longrightarrow>
        \<exists>r'\<in>set ifs'. rif_refines r r'"
    and peer: "\<And>r p. r \<in> set ifs \<Longrightarrow> rif_interface_id r = rt_interface_id rt \<Longrightarrow> p \<in> set ifs \<Longrightarrow>
        on_link (rif_link_id r) p \<Longrightarrow> rif_attachment r = ROUTER_LINK \<Longrightarrow>
        rif_interface_id p \<noteq> rif_interface_id r \<Longrightarrow> rif_has_address p \<Longrightarrow>
        rif_address p = rt_gateway rt \<Longrightarrow> \<exists>p'\<in>set ifs'. rif_refines p p'"
  shows "route_ok ifs' rt"
proof -
  obtain r where r: "r \<in> set ifs" "rif_interface_id r = rt_interface_id rt"
    "rif_vr_id r = rt_vr_id rt" "gateway_ok ifs (rt_gateway rt) r"
    using ok by (auto simp: route_ok_def rif_ref_def)
  obtain r' where r': "r' \<in> set ifs'" "rif_refines r r'" using full [OF r(1,2)] by blast
  have "gateway_ok ifs' (rt_gateway rt) r'"
  proof (cases "rif_attachment r = ROUTER_LINK")
    case True
    then obtain p where p: "p \<in> set ifs" "on_link (rif_link_id r) p"
      "rif_interface_id p \<noteq> rif_interface_id r" "rif_has_address p" "rif_address p = rt_gateway rt"
      using r(4) by (auto simp: gateway_ok_def)
    obtain p' where "p' \<in> set ifs'" "rif_refines p p'"
      using peer [OF r(1,2) p(1,2) True p(3-5)] by blast
    with p r r' show ?thesis
      by (auto simp: gateway_ok_def rif_refines_def rif_same_def intro!: bexI [of _ p'])
  next
    case False
    with r r' show ?thesis by (auto simp: gateway_ok_def rif_refines_def rif_same_def)
  qed
  with r r' ok show ?thesis
    by (auto simp: route_ok_def rif_ref_def rif_refines_def rif_same_def intro!: bexI [of _ r'])
qed

lemma interfaces_change_wf:
  assumes wf: "config_wf c"
    and ifs': "wf_interfaces (cfg_vr_ids c) (cfg_link_ids c) n' ifs'"
    and pol: "\<And>r. r \<in> set (cfg_interfaces c) \<Longrightarrow>
        egress_references c (rif_interface_id r) \<or> ingress_references c (rif_interface_id r) \<Longrightarrow>
        \<exists>r'\<in>set ifs'. rif_same r r'"
    and full: "\<And>r. r \<in> set (cfg_interfaces c) \<Longrightarrow>
        routes_reference c (rif_interface_id r) \<or> nat_references c (rif_interface_id r) \<or>
        router_port_forward_uses_interface c (rif_interface_id r) \<Longrightarrow>
        \<exists>r'\<in>set ifs'. rif_refines r r'"
    and peer: "\<And>rt r p. rt \<in> set (cfg_routes c) \<Longrightarrow> r \<in> set (cfg_interfaces c) \<Longrightarrow>
        rif_interface_id r = rt_interface_id rt \<Longrightarrow> p \<in> set (cfg_interfaces c) \<Longrightarrow>
        on_link (rif_link_id r) p \<Longrightarrow> rif_attachment r = ROUTER_LINK \<Longrightarrow>
        rif_interface_id p \<noteq> rif_interface_id r \<Longrightarrow> rif_has_address p \<Longrightarrow>
        rif_address p = rt_gateway rt \<Longrightarrow> \<exists>p'\<in>set ifs'. rif_refines p p'"
  shows "config_wf (c\<lparr>cfg_interfaces := ifs', cfg_next_interface_id := n'\<rparr>)"
proof -
  let ?ifs = "cfg_interfaces c"
  have routes: "wf_routes ifs' (cfg_routes c)"
    unfolding wf_routes_def
  proof (intro conjI ballI)
    fix rt assume rt: "rt \<in> set (cfg_routes c)"
    then have "route_ok ?ifs rt" using wf by (auto simp: config_wf_def wf_routes_def)
    then show "route_ok ifs' rt"
    proof (rule route_ok_change)
      fix r assume "r \<in> set ?ifs" "rif_interface_id r = rt_interface_id rt"
      then show "\<exists>r'\<in>set ifs'. rif_refines r r'"
        using rt by (intro full) (auto simp: reference_defs)
    qed (rule peer [OF rt])
  qed (use wf in \<open>auto simp: config_wf_def wf_routes_def\<close>)
  have nat: "wf_nat ifs' (cfg_routes c) (cfg_egress_policies c) (cfg_nat_policies c)"
    unfolding wf_nat_def
  proof (intro conjI ballI)
    fix p assume p: "p \<in> set (cfg_nat_policies c)"
    then have ok: "nat_ok ?ifs (cfg_routes c) (cfg_egress_policies c) p"
      using wf by (auto simp: config_wf_def wf_nat_def)
    then obtain r where r: "r \<in> set ?ifs" "rif_interface_id r = np_interface_id p"
      "rif_vr_id r = np_vr_id p" "public_rif r"
      "np_public_address p = 0 \<or> np_public_address p = rif_address r"
      by (auto simp: nat_ok_def rif_ref_def)
    from full [OF r(1)] p r(2) obtain r' where "r' \<in> set ifs'" "rif_refines r r'"
      by (auto simp: reference_defs)
    with r have "rif_ref ifs' (np_vr_id p) (np_interface_id p)
       (\<lambda>r. public_rif r \<and> (np_public_address p = 0 \<or> np_public_address p = rif_address r))"
      unfolding rif_ref_def
      by (intro bexI [of _ r']) (auto simp: rif_refines_def rif_same_def public_rif_def)
    with ok show "nat_ok ifs' (cfg_routes c) (cfg_egress_policies c) p" by (auto simp: nat_ok_def)
  qed (use wf in \<open>auto simp: config_wf_def wf_nat_def\<close>)
  have pf: "wf_port_forwards ifs' (cfg_egress_policies c) (cfg_port_forwards c)"
    unfolding wf_port_forwards_def
  proof (intro conjI)
    show "\<forall>p\<in>set (cfg_port_forwards c). pf_ok ifs' (cfg_egress_policies c) p"
    proof
      fix p assume p: "p \<in> set (cfg_port_forwards c)"
      then have ok: "pf_ok ?ifs (cfg_egress_policies c) p"
        using wf by (auto simp: config_wf_def wf_port_forwards_def)
      then obtain r where r: "r \<in> set ?ifs" "rif_interface_id r = pf_interface_id p"
        "rif_vr_id r = pf_vr_id p" "public_rif r" "pf_public_ip p = rif_address r"
        by (auto simp: pf_ok_def rif_ref_def)
      from full [OF r(1)] p r(2) obtain r' where "r' \<in> set ifs'" "rif_refines r r'"
        by (auto simp: reference_defs)
      with r have "rif_ref ifs' (pf_vr_id p) (pf_interface_id p)
         (\<lambda>r. public_rif r \<and> pf_public_ip p = rif_address r)"
        unfolding rif_ref_def
        by (intro bexI [of _ r']) (auto simp: rif_refines_def rif_same_def public_rif_def)
      with ok show "pf_ok ifs' (cfg_egress_policies c) p" by (auto simp: pf_ok_def)
    qed
  qed (use wf in \<open>auto simp: config_wf_def wf_port_forwards_def\<close>)
  have fw: "wf_firewall ifs' ing (fw_policies c ing) (fw_rules c ing)" for ing
    unfolding wf_firewall_def
  proof (intro conjI)
    show "\<forall>p\<in>set (fw_policies c ing). rif_ref ifs' (ep_vr_id p) (ep_interface_id p)
        (\<lambda>r. ing \<or> rif_attachment r = ROUTER_VSWITCH)"
    proof
      fix p assume p: "p \<in> set (fw_policies c ing)"
      then obtain r where r: "r \<in> set ?ifs" "rif_interface_id r = ep_interface_id p"
        "rif_vr_id r = ep_vr_id p" "ing \<or> rif_attachment r = ROUTER_VSWITCH"
        using config_wf_firewall [OF wf, of ing] by (auto simp: wf_firewall_def rif_ref_def)
      have "egress_references c (rif_interface_id r) \<or> ingress_references c (rif_interface_id r)"
        using p r(2) by (auto simp: fw_policies_def reference_defs split: if_splits)
      from pol [OF r(1) this] obtain r' where "r' \<in> set ifs'" "rif_same r r'" by blast
      with r show "rif_ref ifs' (ep_vr_id p) (ep_interface_id p)
          (\<lambda>r. ing \<or> rif_attachment r = ROUTER_VSWITCH)"
        unfolding rif_ref_def by (intro bexI [of _ r']) (auto simp: rif_same_def)
    qed
  qed (use config_wf_firewall [OF wf, of ing] in \<open>auto simp: wf_firewall_def\<close>)
  show ?thesis
    using wf ifs' routes nat pf fw [of True] fw [of False]
    by (simp add: config_wf_def fw_policies_def fw_rules_def)
qed


section \<open>Interface operations\<close>

lemma subnet_overlap_sym:
  "subnet_overlap a (rif_address b) (rif_prefix b) = subnet_overlap b (rif_address a) (rif_prefix a)"
proof (cases "rif_prefix a = rif_prefix b")
  case False
  then show ?thesis by (auto simp: subnet_overlap_def Let_def not_less)
qed (auto simp: subnet_overlap_def Let_def)

lemma rif_compat_sym: "rif_compat a b \<Longrightarrow> rif_compat b a"
  unfolding rif_compat_def by (metis subnet_overlap_sym)

lemma wf_interfaces_remove:
  assumes "wf_interfaces vrs links n ifs"
  shows "wf_interfaces vrs links n (remove_nth k ifs)"
proof -
  have "length (filter (on_link l) (remove_nth k ifs)) \<le> 2" for l
  proof -
    have "length (filter (on_link l) (remove_nth k ifs)) \<le> length (filter (on_link l) ifs)"
    proof (cases "k < length ifs")
      case True
      have "filter (on_link l) ifs =
          filter (on_link l) (take k ifs @ ifs ! k # drop (Suc k) ifs)"
        using True by (simp add: id_take_nth_drop [symmetric])
      then show ?thesis by (simp add: remove_nth_def)
    qed (simp add: remove_nth_def)
    then show ?thesis using assms by (auto simp: wf_interfaces_def intro: le_trans)
  qed
  moreover have "pairwise_compat (remove_nth k ifs)"
    using assms remove_nth_subsetD [of _ k ifs]
    unfolding wf_interfaces_def pairwise_compat_def by meson
  ultimately show ?thesis
    using assms length_remove_nth_le [of k ifs]
    by (auto simp: wf_interfaces_def map_remove_nth distinct_remove_nth dest: remove_nth_subsetD)
qed

lemma detach_wf:
  assumes wf: "config_wf c" and k: "k < length (cfg_interfaces c)"
    and r: "detach c q k = Inr c'"
  shows "config_wf c'"
proof -
  let ?ifs = "cfg_interfaces c"
  let ?rif = "?ifs ! k"
  have c': "c' = c\<lparr>cfg_interfaces := remove_nth k ?ifs\<rparr>"
    and free: "\<not> rif_has_address ?rif" "\<not> routes_reference c (rif_interface_id ?rif)"
      "\<not> nat_references c (rif_interface_id ?rif)"
      "\<not> router_port_forward_uses_interface c (rif_interface_id ?rif)"
      "\<not> egress_references c (rif_interface_id ?rif)"
      "\<not> ingress_references c (rif_interface_id ?rif)"
    using r by (auto simp: detach_def Let_def split: if_splits)
  have keep: "\<exists>r'\<in>set (remove_nth k ?ifs). rif_refines r r'" if "r \<in> set ?ifs" "r \<noteq> ?rif" for r
    using in_set_remove_other [OF that] by (intro bexI [of _ r]) auto
  have "wf_interfaces (cfg_vr_ids c) (cfg_link_ids c) (cfg_next_interface_id c) (remove_nth k ?ifs)"
    using wf by (auto simp: config_wf_def intro: wf_interfaces_remove)
  then have "config_wf (c\<lparr>cfg_interfaces := remove_nth k ?ifs,
      cfg_next_interface_id := cfg_next_interface_id c\<rparr>)"
  proof (rule interfaces_change_wf [OF wf], goal_cases)
    case (1 r)
    with free have "r \<noteq> ?rif" by auto
    from keep [OF 1(1) this] show ?case by (auto simp: rif_refines_def)
  next
    case (2 r)
    with free have "r \<noteq> ?rif" by auto
    from keep [OF 2(1) this] show ?case .
  next
    case (3 rt r p)
    with free have "p \<noteq> ?rif" by auto
    from keep [OF 3(4) this] show ?case .
  qed
  then show ?thesis unfolding c' by simp
qed

lemma filter_update_length:
  assumes "k < length xs" "P y = P (xs ! k)"
  shows "length (filter P (xs[k := y])) = length (filter P xs)"
proof -
  have xs: "xs = take k xs @ xs ! k # drop (Suc k) xs" using assms(1) by (simp add: id_take_nth_drop)
  have "xs[k := y] = take k xs @ y # drop (Suc k) xs" using assms(1) by (simp add: upd_conv_take_nth_drop)
  then have "length (filter P (xs[k := y])) =
      length (filter P (take k xs)) + (if P y then 1 else 0) + length (filter P (drop (Suc k) xs))"
    by simp
  also have "\<dots> = length (filter P (take k xs @ xs ! k # drop (Suc k) xs))"
    using assms(2) by simp
  also have "\<dots> = length (filter P xs)" using xs by simp
  finally show ?thesis .
qed

lemma wf_interfaces_update:
  assumes wf: "wf_interfaces vrs links n ifs" and k: "k < length ifs"
    and same: "rif_same (ifs ! k) y" "rif_name y = rif_name (ifs ! k)"
    and ok: "rif_ok vrs links n y"
    and compat: "\<And>b. b \<in> set ifs \<Longrightarrow> rif_interface_id b \<noteq> rif_interface_id y \<Longrightarrow> rif_compat y b"
  shows "wf_interfaces vrs links n (ifs[k := y])"
proof -
  have mem: "b = y \<or> b \<in> set ifs" if "b \<in> set (ifs[k := y])" for b
    using that set_update_subset_insert by fast
  have ids: "map rif_interface_id (ifs[k := y]) = map rif_interface_id ifs"
    and keys: "map rif_key (ifs[k := y]) = map rif_key ifs"
    using same k by (simp_all add: map_update list_update_same_conv rif_same_def)
  have "length (filter (on_link l) (ifs[k := y])) \<le> 2" for l
    using same k wf by (subst filter_update_length) (auto simp: rif_same_def wf_interfaces_def)
  moreover have "pairwise_compat (ifs[k := y])"
    unfolding pairwise_compat_def
    using wf compat mem rif_compat_sym
    by (metis pairwise_compat_def wf_interfaces_def)
  ultimately show ?thesis
    using wf ok mem unfolding wf_interfaces_def ids keys by auto
qed


text \<open>The interface a command names, as the dispatcher looks it up.\<close>

definition names_rif :: "router_config \<Rightarrow> command \<Rightarrow> nat \<Rightarrow> bool" where
  "names_rif c q k \<longleftrightarrow> k < length (cfg_interfaces c) \<and> rif_vr_id (cfg_interfaces c ! k) = q_id q"

lemma names_rif_index:
  "interface_index c (q_id q) (q_name q) = Some k \<Longrightarrow> names_rif c q k"
  by (auto simp: names_rif_def interface_index_def dest: find_index_SomeD)

lemma in_place_change_wf:
  assumes wf: "config_wf c" and k: "k < length (cfg_interfaces c)"
    and ref: "rif_refines (cfg_interfaces c ! k) y"
    and ifs: "wf_interfaces (cfg_vr_ids c) (cfg_link_ids c) (cfg_next_interface_id c)
        ((cfg_interfaces c)[k := y])"
  shows "config_wf (c\<lparr>cfg_interfaces := (cfg_interfaces c)[k := y]\<rparr>)"
proof -
  have keep: "\<exists>r'\<in>set ((cfg_interfaces c)[k := y]). rif_refines r r'"
    if "r \<in> set (cfg_interfaces c)" for r
  proof (cases "r = cfg_interfaces c ! k")
    case True
    with ref k show ?thesis by (auto intro!: bexI [of _ y] set_update_memI)
  next
    case False
    from in_set_update_other [OF that False] show ?thesis by (intro bexI [of _ r]) auto
  qed
  have "config_wf (c\<lparr>cfg_interfaces := (cfg_interfaces c)[k := y],
      cfg_next_interface_id := cfg_next_interface_id c\<rparr>)"
  proof (rule interfaces_change_wf [OF wf ifs], goal_cases)
    case (1 r)
    from keep [OF 1(1)] show ?case by (auto simp: rif_refines_def)
  next
    case (2 r)
    from keep [OF 2(1)] show ?case .
  next
    case (3 rt r p)
    from keep [OF 3(4)] show ?case .
  qed
  then show ?thesis by simp
qed

lemma config_wf_rif:
  assumes "config_wf c" "r \<in> set (cfg_interfaces c)"
  shows "rif_ok (cfg_vr_ids c) (cfg_link_ids c) (cfg_next_interface_id c) r"
  using assms by (auto simp: config_wf_def wf_interfaces_def)

lemma config_wf_interfaces:
  "config_wf c \<Longrightarrow>
     wf_interfaces (cfg_vr_ids c) (cfg_link_ids c) (cfg_next_interface_id c) (cfg_interfaces c)"
  by (simp add: config_wf_def)

lemma config_wf_compat:
  assumes "config_wf c" "a \<in> set (cfg_interfaces c)" "b \<in> set (cfg_interfaces c)"
    and "rif_interface_id a \<noteq> rif_interface_id b"
  shows "rif_compat a b"
  using assms by (auto simp: config_wf_def wf_interfaces_def pairwise_compat_def)

lemma mac_set_wf:
  assumes wf: "config_wf c" and q: "command_wf q" "q_op q = MAC_SET" and k: "names_rif c q k"
    and r: "mac_set c q k = Inr c'"
  shows "config_wf c'"
proof -
  let ?rif = "cfg_interfaces c ! k"
  let ?y = "?rif\<lparr>rif_mac := q_mac q\<rparr>"
  have kl: "k < length (cfg_interfaces c)" and mem: "?rif \<in> set (cfg_interfaces c)"
    using k by (auto simp: names_rif_def)
  have c': "c' = c\<lparr>cfg_interfaces := (cfg_interfaces c)[k := ?y]\<rparr>"
    using r by (auto simp: mac_set_def Let_def split: if_splits)
  have "rif_compat ?y b" if "b \<in> set (cfg_interfaces c)" "rif_interface_id b \<noteq> rif_interface_id ?y" for b
    using config_wf_compat [OF wf mem that(1)] that(2) by (auto simp: rif_compat_def subnet_overlap_def)
  moreover have "rif_ok (cfg_vr_ids c) (cfg_link_ids c) (cfg_next_interface_id c) ?y"
    using config_wf_rif [OF wf mem] q by (auto simp: rif_ok_def command_wf_def)
  ultimately have "wf_interfaces (cfg_vr_ids c) (cfg_link_ids c) (cfg_next_interface_id c)
      ((cfg_interfaces c)[k := ?y])"
    using wf kl by (intro wf_interfaces_update) (auto simp: config_wf_def rif_same_def)
  then show ?thesis unfolding c'
    by (intro in_place_change_wf [OF wf kl]) (auto simp: rif_refines_def rif_same_def)
qed

text \<open>The peer the code looks up is the other endpoint, and there is only one.\<close>

lemma link_peer_unique:
  assumes wf: "config_wf c" and a: "a \<in> set (cfg_interfaces c)" "rif_attachment a = ROUTER_LINK"
    and b: "b \<in> set (cfg_interfaces c)" "on_link (rif_link_id a) b"
      "rif_interface_id b \<noteq> rif_interface_id a"
  shows "router_link_peer c (rif_interface_id a) = Some b"
proof -
  have "interface_by_id c (rif_interface_id a) = Some a"
    unfolding interface_by_id_def using a
    by (intro find_unique) (auto intro: wf_interfaces_unique [OF config_wf_interfaces [OF wf]])
  moreover have "rif_interface_id a \<noteq> 0" using config_wf_rif [OF wf a(1)] by (simp add: rif_ok_def)
  moreover have "find (\<lambda>r. rif_attachment r = ROUTER_LINK \<and> rif_link_id r = rif_link_id a \<and>
      rif_interface_id r \<noteq> rif_interface_id a) (cfg_interfaces c) = Some b"
  proof (rule find_unique)
    fix y assume "y \<in> set (cfg_interfaces c)"
      "rif_attachment y = ROUTER_LINK \<and> rif_link_id y = rif_link_id a \<and>
       rif_interface_id y \<noteq> rif_interface_id a"
    then show "y = b"
      using two_endpoints [OF config_wf_interfaces [OF wf] a(1), of y b "rif_link_id a"] a b by auto
  qed (use b in auto)
  ultimately show ?thesis using a by (simp add: router_link_peer_def)
qed

lemma ip_add_no_conflict:
  assumes "ip_add_conflict k rif q j rs = None" "i < length rs"
  shows "(rif_vr_id (rs ! i) = q_id q \<and> rif_has_address (rs ! i) \<longrightarrow>
            \<not> subnet_overlap (rs ! i) (q_address q) (q_prefix q)) \<and>
         (j + i \<noteq> k \<and> rif_attachment rif = ROUTER_VSWITCH \<and> rif_attachment (rs ! i) = ROUTER_VSWITCH \<and>
          rif_vswitch_id (rs ! i) = rif_vswitch_id rif \<and> rif_has_address (rs ! i) \<longrightarrow>
          rif_address (rs ! i) \<noteq> q_address q)"
  using assms
proof (induction rs arbitrary: j i)
  case (Cons r rs)
  show ?case
  proof (cases i)
    case 0
    with Cons.prems show ?thesis by (auto split: if_splits)
  next
    case (Suc m)
    have "ip_add_conflict k rif q (Suc j) rs = None" using Cons.prems by (auto split: if_splits)
    from Cons.IH [OF this, of m] Cons.prems Suc show ?thesis by auto
  qed
qed simp


lemma ip_add_wf:
  assumes wf: "config_wf c" and q: "command_wf q" and k: "names_rif c q k"
    and r: "ip_add c q k = Inr c'"
  shows "config_wf c'"
proof -
  let ?ifs = "cfg_interfaces c"
  let ?rif = "?ifs ! k"
  let ?y = "?rif\<lparr>rif_has_address := True, rif_address := q_address q, rif_prefix := q_prefix q\<rparr>"
  have kl: "k < length ?ifs" and vr: "rif_vr_id ?rif = q_id q" and mem: "?rif \<in> set ?ifs"
    using k by (auto simp: names_rif_def)
  have c': "c' = c\<lparr>cfg_interfaces := ?ifs[k := ?y]\<rparr>"
    and noaddr: "\<not> rif_has_address ?rif" and us: "usable_address (q_address q) (q_prefix q)"
    and nc: "ip_add_conflict k ?rif q 0 ?ifs = None" and lp: "\<not> link_peer_mismatch c ?rif q"
    using r by (auto simp: ip_add_def Let_def split: if_splits option.splits)
  have compat: "rif_compat ?y b"
    if b: "b \<in> set ?ifs" "rif_interface_id b \<noteq> rif_interface_id ?y" for b
  proof -
    obtain i where i: "i < length ?ifs" "b = ?ifs ! i" using b(1) by (auto simp: in_set_conv_nth)
    have ik: "i \<noteq> k" using b(2) i by auto
    note n = ip_add_no_conflict [OF nc i(1)]
    have old: "rif_compat ?rif b" using config_wf_compat [OF wf mem b(1)] b(2) by simp
    have sub: "rif_vr_id b = q_id q \<and> rif_has_address b \<longrightarrow>
        \<not> subnet_overlap ?y (rif_address b) (rif_prefix b)"
      using n i subnet_overlap_sym [of ?y b] by simp
    have link: "rif_prefix b = q_prefix q \<and>
        q_address q AND prefix_mask (q_prefix q) = rif_address b AND prefix_mask (q_prefix q) \<and>
        q_address q \<noteq> rif_address b"
      if "rif_attachment ?rif = ROUTER_LINK" "on_link (rif_link_id ?rif) b" "rif_has_address b"
      using lp link_peer_unique [OF wf mem that(1) b(1) that(2)] b(2) that
      by (auto simp: link_peer_mismatch_def)
    have shared: "q_address q \<noteq> rif_address b"
      if "rif_attachment ?rif = ROUTER_VSWITCH" "rif_attachment b = ROUTER_VSWITCH"
        "rif_vswitch_id ?rif = rif_vswitch_id b" "rif_has_address b"
      using n i ik that by auto
    show ?thesis
      using old sub shared vr link unfolding rif_compat_def by simp
  qed
  have "rif_ok (cfg_vr_ids c) (cfg_link_ids c) (cfg_next_interface_id c) ?y"
    using config_wf_rif [OF wf mem] us q by (auto simp: rif_ok_def command_wf_def)
  with compat have "wf_interfaces (cfg_vr_ids c) (cfg_link_ids c) (cfg_next_interface_id c) (?ifs[k := ?y])"
    by (intro wf_interfaces_update [OF config_wf_interfaces [OF wf] kl]) (auto simp: rif_same_def)
  then show ?thesis unfolding c' using noaddr
    by (intro in_place_change_wf [OF wf kl]) (auto simp: rif_refines_def rif_same_def)
qed

lemma ip_del_wf:
  assumes wf: "config_wf c" and k: "names_rif c q k" and r: "ip_del c q k = Inr c'"
  shows "config_wf c'"
proof -
  let ?ifs = "cfg_interfaces c"
  let ?rif = "?ifs ! k"
  let ?y = "?rif\<lparr>rif_has_address := False, rif_address := 0, rif_prefix := 0\<rparr>"
  have kl: "k < length ?ifs" and mem: "?rif \<in> set ?ifs" using k by (auto simp: names_rif_def)
  have c': "c' = c\<lparr>cfg_interfaces := ?ifs[k := ?y]\<rparr>"
    and free: "rif_has_address ?rif" "\<not> routes_reference c (rif_interface_id ?rif)"
      "\<not> nat_references c (rif_interface_id ?rif)"
      "\<not> router_port_forward_uses_interface c (rif_interface_id ?rif)"
      "\<not> peer_routes_reference c ?rif"
    using r by (auto simp: ip_del_def Let_def split: if_splits)
  have compat: "rif_compat ?y b"
    if "b \<in> set ?ifs" "rif_interface_id b \<noteq> rif_interface_id ?y" for b
    using config_wf_compat [OF wf mem that(1)] that(2) by (auto simp: rif_compat_def)
  have "rif_ok (cfg_vr_ids c) (cfg_link_ids c) (cfg_next_interface_id c) ?y"
    using config_wf_rif [OF wf mem] by (auto simp: rif_ok_def)
  with compat have ifs: "wf_interfaces (cfg_vr_ids c) (cfg_link_ids c) (cfg_next_interface_id c) (?ifs[k := ?y])"
    by (intro wf_interfaces_update [OF config_wf_interfaces [OF wf] kl]) (auto simp: rif_same_def)
  have other: "\<exists>r'\<in>set (?ifs[k := ?y]). rif_refines r r'" if "r \<in> set ?ifs" "r \<noteq> ?rif" for r
    using in_set_update_other [OF that] by (intro bexI [of _ r]) auto
  have "config_wf (c\<lparr>cfg_interfaces := ?ifs[k := ?y],
      cfg_next_interface_id := cfg_next_interface_id c\<rparr>)"
  proof (rule interfaces_change_wf [OF wf ifs], goal_cases)
    case (1 r)
    show ?case
    proof (cases "r = ?rif")
      case True
      with kl show ?thesis by (auto simp: rif_same_def intro!: bexI [of _ ?y] set_update_memI)
    next
      case False
      from other [OF 1(1) this] show ?thesis by (auto simp: rif_refines_def)
    qed
  next
    case (2 r)
    with free have "r \<noteq> ?rif" by auto
    from other [OF 2(1) this] show ?case .
  next
    case (3 rt r p)
    have "p \<noteq> ?rif"
    proof
      assume p: "p = ?rif"
      have "router_link_peer c (rif_interface_id p) = Some r"
        using 3 by (intro link_peer_unique [OF wf]) auto
      with 3 p free(1) have "peer_routes_reference c ?rif"
        by (auto simp: peer_routes_reference_def list_ex_iff intro!: bexI [of _ rt])
      with free(5) show False ..
    qed
    from other [OF 3(4) this] show ?case .
  qed
  then show ?thesis unfolding c' by simp
qed

lemma link_endpoints_no_conflict:
  "link_endpoints_conflict vr l n rs = None \<Longrightarrow>
     n + length (filter (on_link l) rs) < 2 \<and> (\<forall>r\<in>set rs. on_link l r \<longrightarrow> rif_vr_id r \<noteq> vr)"
proof (induction rs arbitrary: n)
  case Nil
  then show ?case by (simp split: if_splits)
next
  case (Cons r rs)
  show ?case
  proof (cases "on_link l r")
    case True
    with Cons.prems have "link_endpoints_conflict vr l (Suc n) rs = None" "rif_vr_id r \<noteq> vr"
      by (simp_all split: if_splits)
    with Cons.IH [of "Suc n"] True show ?thesis by simp
  next
    case False
    with Cons.prems have "link_endpoints_conflict vr l n rs = None" by simp
    with Cons.IH [of n] False show ?thesis by auto
  qed
qed

lemma default_mac_ok: "mac_ok (default_mac vr i)"
  by (simp add: mac_ok_def default_mac_def)

lemma attach_kind_cases:
  assumes "attach_kind c inven q r0 = Inr r"
    and "q_op q \<in> {ATTACH_PORT, ATTACH_SWITCH, ATTACH_LINK}"
  obtains (port) p where "r = r0\<lparr>rif_attachment := ROUTER_PORT, rif_port := p\<rparr>"
      "\<not> router_port_reserved c p"
      "\<And>i. i \<in> set (cfg_interfaces c) \<Longrightarrow> rif_vr_id i = q_id q \<Longrightarrow> rif_attachment i \<noteq> ROUTER_PORT"
  | (switch) "r = r0\<lparr>rif_attachment := ROUTER_VSWITCH, rif_vswitch_id := q_vswitch q\<rparr>"
  | (link) "r = r0\<lparr>rif_attachment := ROUTER_LINK, rif_link_id := q_link q\<rparr>"
      "router_has_link c (q_link q)"
      "link_endpoints_conflict (q_id q) (q_link q) 0 (cfg_interfaces c) = None"
proof -
  from assms(2) consider "q_op q = ATTACH_PORT" | "q_op q = ATTACH_SWITCH" | "q_op q = ATTACH_LINK"
    by auto
  then show thesis
  proof cases
    case 1
    then obtain p where "r = r0\<lparr>rif_attachment := ROUTER_PORT, rif_port := p\<rparr>"
      "\<not> router_port_reserved c p"
      "\<not> list_ex (\<lambda>i. rif_vr_id i = q_id q \<and> rif_attachment i = ROUTER_PORT) (cfg_interfaces c)"
      using assms(1) by (simp add: attach_kind_def split: if_splits option.splits) metis
    then show thesis by (intro port) (auto simp: list_ex_iff)
  next
    case 2
    with assms(1) have "r = r0\<lparr>rif_attachment := ROUTER_VSWITCH, rif_vswitch_id := q_vswitch q\<rparr>"
      by (simp add: attach_kind_def split: if_splits)
    then show thesis by (rule switch)
  next
    case 3
    with assms(1) have "r = r0\<lparr>rif_attachment := ROUTER_LINK, rif_link_id := q_link q\<rparr>"
      "router_has_link c (q_link q)"
      "link_endpoints_conflict (q_id q) (q_link q) 0 (cfg_interfaces c) = None"
      by (simp_all add: attach_kind_def split: if_splits option.splits)
    then show thesis by (rule link)
  qed
qed

text \<open>
  An attachment at an id below the bound \<open>N\<close> of the others: the replay of a saved configuration
  attaches in the order of the file, each interface at its own id.
\<close>

lemma attach_wf_at:
  assumes wf: "config_wf (c\<lparr>cfg_next_interface_id := N\<rparr>)" and q: "q_op q \<in> {ATTACH_PORT, ATTACH_SWITCH, ATTACH_LINK}"
    and vr: "router_has_vr c (q_id q)" and r: "attach c inven q = Inr c'"
    and n0: "0 < unat (cfg_next_interface_id c)" and nN: "unat (cfg_next_interface_id c) < unat N"
    and new: "\<And>b. b \<in> set (cfg_interfaces c) \<Longrightarrow> unat (rif_interface_id b) \<noteq> unat (cfg_next_interface_id c)"
  shows "config_wf (c'\<lparr>cfg_next_interface_id := N\<rparr>)"
proof -
  let ?ifs = "cfg_interfaces c"
  let ?n = "cfg_next_interface_id c"
  let ?r0 = "fresh_interface c q"
  let ?d = "c\<lparr>cfg_next_interface_id := N\<rparr>"
  obtain y where y: "attach_kind c inven q ?r0 = Inr y"
    and c': "c' = c\<lparr>cfg_interfaces := ?ifs @ [y], cfg_next_interface_id := ?n + 1\<rparr>"
    and name: "interface_index c (q_id q) (q_name q) = None"
    and cap: "length ?ifs \<noteq> ROUTER_MAX_INTERFACES" "?n \<le> 65535"
    using r by (auto simp: attach_def not_less split: if_splits sum.splits)
  note wfi = config_wf_interfaces [OF wf]
  have un: "unat ?n \<le> 65535" "unat ?n \<noteq> 0"
    using cap(2) n0 by (simp_all add: word_le_nat_alt)
  have idn: "unat (ucast ?n :: u16) = unat ?n"
    using un by (simp add: unsigned_ucast_eq take_bit_eq_mod)
  have y0: "rif_interface_id y = ucast ?n \<and> rif_vr_id y = q_id q \<and> rif_name y = q_name q \<and>
      \<not> rif_has_address y \<and> rif_address y = 0 \<and> rif_prefix y = 0 \<and> mac_ok (rif_mac y)"
    using y q by (cases rule: attach_kind_cases) (auto simp: fresh_interface_def default_mac_ok)
  have "ucast ?n \<noteq> (0 :: u16)" using idn un by (metis unat_0)
  note nz = this
  have ok: "rif_ok (cfg_vr_ids c) (cfg_link_ids c) N y"
    using y q
  proof (cases rule: attach_kind_cases)
    case (port p)
    then show ?thesis using y0 nz idn nN vr by (auto simp: rif_ok_def router_has_vr_def)
  next
    case switch
    then show ?thesis using y0 nz idn nN vr by (auto simp: rif_ok_def router_has_vr_def)
  next
    case link
    then show ?thesis using y0 nz idn nN vr
      by (auto simp: rif_ok_def router_has_vr_def router_has_link_def)
  qed
  have older: "rif_ok (cfg_vr_ids c) (cfg_link_ids c) N b \<and>
      rif_interface_id b \<noteq> rif_interface_id y" if "b \<in> set ?ifs" for b
    using config_wf_rif [OF wf, of b] new [OF that] that y0 idn by auto
  have compat: "rif_compat y b" if b: "b \<in> set ?ifs" for b
    using y q
  proof (cases rule: attach_kind_cases)
    case (port p)
    with b y0 show ?thesis
      by (auto simp: rif_compat_def router_port_reserved_def list_ex_iff)
  next
    case switch
    with b y0 show ?thesis by (auto simp: rif_compat_def)
  next
    case link
    with b y0 link_endpoints_no_conflict [OF link(3)] show ?thesis by (auto simp: rif_compat_def)
  qed
  have ends: "length (filter (on_link l) (?ifs @ [y])) \<le> 2" for l
  proof (cases "on_link l y")
    case True
    from y q True have "length (filter (on_link l) ?ifs) < 2"
      by (cases rule: attach_kind_cases) (auto dest: link_endpoints_no_conflict)
    then show ?thesis by simp
  next
    case False
    then show ?thesis using wfi by (auto simp: wf_interfaces_def)
  qed
  have keyf: "rif_key y \<notin> set (map rif_key ?ifs)"
    using name y0 by (auto simp: interface_index_def find_index_None)
  have pc: "pairwise_compat (?ifs @ [y])"
    using wfi compat rif_compat_sym by (auto simp: wf_interfaces_def pairwise_compat_def)
  have "wf_interfaces (cfg_vr_ids c) (cfg_link_ids c) N (?ifs @ [y])"
    unfolding wf_interfaces_def
  proof (intro conjI)
    have "rif_interface_id y \<notin> set (map rif_interface_id ?ifs)"
    proof
      assume "rif_interface_id y \<in> set (map rif_interface_id ?ifs)"
      then obtain b where "b \<in> set ?ifs" "rif_interface_id b = rif_interface_id y" by force
      with older show False by blast
    qed
    then show "distinct (map rif_interface_id (?ifs @ [y]))" "distinct (map rif_key (?ifs @ [y]))"
      using wfi keyf by (auto simp: wf_interfaces_def)
    show "length (?ifs @ [y]) \<le> ROUTER_MAX_INTERFACES"
      using wfi cap by (auto simp: wf_interfaces_def)
    show "0 < N" "N \<le> 65536" using wfi by (auto simp: wf_interfaces_def)
  qed (use pc ends ok older in auto)
  then have "config_wf (?d\<lparr>cfg_interfaces := ?ifs @ [y], cfg_next_interface_id := N\<rparr>)"
    by (intro interfaces_change_wf [OF wf]) (simp, (force simp: rif_same_def intro: bexI [of _ r for r])+)
  moreover have "c'\<lparr>cfg_next_interface_id := N\<rparr> = ?d\<lparr>cfg_interfaces := ?ifs @ [y], cfg_next_interface_id := N\<rparr>"
    by (simp add: c')
  ultimately show ?thesis by simp
qed

lemma config_wf_next:
  assumes "config_wf c" "unat (cfg_next_interface_id c) \<le> unat N" "unat N \<le> 65536"
  shows "config_wf (c\<lparr>cfg_next_interface_id := N\<rparr>)"
proof -
  have "0 < N" "N \<le> 65536"
    using assms config_wf_interfaces [OF assms(1)]
    by (auto simp: wf_interfaces_def word_less_nat_alt word_le_nat_alt)
  then have "wf_interfaces (cfg_vr_ids c) (cfg_link_ids c) N (cfg_interfaces c)"
    using assms(2) config_wf_interfaces [OF assms(1)] by (fastforce simp: wf_interfaces_def rif_ok_def)
  with assms(1) show ?thesis by (simp add: config_wf_def)
qed

lemma attach_wf:
  assumes wf: "config_wf c" and q: "q_op q \<in> {ATTACH_PORT, ATTACH_SWITCH, ATTACH_LINK}"
    and vr: "router_has_vr c (q_id q)" and r: "attach c inven q = Inr c'"
  shows "config_wf c'"
proof -
  let ?n = "cfg_next_interface_id c"
  have c': "cfg_next_interface_id c' = ?n + 1" "?n \<le> 65535"
    using r by (auto simp: attach_def not_less split: if_splits sum.splits)
  have n: "0 < unat ?n" using config_wf_interfaces [OF wf] by (simp add: wf_interfaces_def word_less_nat_alt)
  have m: "unat ?n \<le> 65535" using c'(2) by (simp add: word_le_nat_alt)
  then have n1: "unat (?n + 1) = unat ?n + 1" by (simp add: unat_word_ariths)
  then have "config_wf (c\<lparr>cfg_next_interface_id := ?n + 1\<rparr>)" using m by (intro config_wf_next [OF wf]) simp_all
  moreover have "unat (rif_interface_id b) \<noteq> unat ?n" if "b \<in> set (cfg_interfaces c)" for b
    using config_wf_rif [OF wf that] by (simp add: rif_ok_def)
  ultimately have "config_wf (c'\<lparr>cfg_next_interface_id := ?n + 1\<rparr>)"
    using n n1 by (intro attach_wf_at [OF _ q vr r]) simp_all
  moreover have "c'\<lparr>cfg_next_interface_id := ?n + 1\<rparr> = c'" using c'(1) by (cases c') simp
  ultimately show ?thesis by simp
qed


section \<open>The dispatcher\<close>

lemma interface_command_wf:
  assumes wf: "config_wf c" and q: "command_wf q" and k: "names_rif c q k"
    and r: "interface_command c q k = Inr c'"
  shows "config_wf c'"
proof -
  have k': "k < length (cfg_interfaces c)" "rif_vr_id (cfg_interfaces c ! k) = q_id q"
    using k by (simp_all add: names_rif_def)
  show ?thesis
    using r wf
    by (cases "q_op q")
      (simp_all add: interface_command_def detach_wf [OF wf k'(1)] ip_add_wf [OF wf q k]
        ip_del_wf [OF wf k] mac_set_wf [OF wf q _ k] route_add_wf [OF wf q _ k']
        nat_enable_wf [OF wf q _ k'] pf_add_wf [OF wf q _ k'])
qed

lemma router_apply_preserves:
  assumes wf: "config_wf c" and q: "command_wf q" and r: "router_apply c inven q = Inr c'"
  shows "config_wf c'"
proof -
  have id: "q_id q \<noteq> 0" using q by (simp add: command_wf_def)
  have iface: "config_wf c'"
    if "(case interface_index c (q_id q) (q_name q) of None \<Rightarrow> Inl ''interface not found in VR''
         | Some i \<Rightarrow> interface_command c q i) = Inr c'"
    using that
    by (auto split: option.splits intro: interface_command_wf [OF wf q names_rif_index])
  note rules = link_create_wf [OF wf] link_delete_wf [OF wf] vr_create_wf [OF wf id]
    vr_delete_wf [OF wf] nat_disable_wf [OF wf] pf_delete_wf [OF wf] route_del_wf [OF wf]
    policy_command_wf [OF wf q] attach_wf [OF wf] iface
  show ?thesis
    using r by (cases "q_op q") (auto simp: router_apply_def Let_def split: if_splits intro: rules)
qed

end
