(* ===== verification/Router_Command.thy ===== *)
theory Router_Command
  imports Router_Parse Router_Preserve
begin

text \<open>
  \<open>router_command\<close> of \<^verbatim>\<open>router/router.c\<close> on the request text: parsing, the show commands with
  their bounded output buffer, the mutating operations, and the configurations a sequence of
  requests can reach.
\<close>

section \<open>Bounded output\<close>

text \<open>
  \<open>append\<close>: the buffer keeps at most \<open>cap - 1\<close> characters, \<open>used\<close> counts what was asked
  for, and nothing more is written once \<open>used\<close> has reached \<open>cap\<close>.
\<close>

fun append_out :: "nat \<Rightarrow> string \<times> nat \<Rightarrow> string \<Rightarrow> string \<times> nat" where
  "append_out cap (buf, used) s =
     (if cap \<le> used then (buf, used)
      else (buf @ take (cap - used - 1) s, used + length s))"

definition emit :: "nat \<Rightarrow> string list \<Rightarrow> string \<times> nat" where
  "emit cap chunks = foldl (append_out cap) ([], 0) chunks"

type_synonym reply = "bool \<times> string"

text \<open>\<open>error\<close>: \<open>snprintf(out, cap, "ERR %s\n", message)\<close> and false.\<close>

definition error_reply :: "nat \<Rightarrow> string \<Rightarrow> reply" where
  "error_reply cap m = (False, take (cap - 1) (''ERR '' @ m @ newline))"

definition shown_reply :: "nat \<Rightarrow> string list \<Rightarrow> reply" where
  "shown_reply cap chunks =
     (let (buf, used) = emit cap chunks in
      if cap \<le> used then error_reply cap ''response too large'' else (True, buf))"

section \<open>Show commands\<close>

definition allow_text :: "bool \<Rightarrow> string" where
  "allow_text b = (if b then ''allow'' else ''deny'')"

definition protocol_text :: "u8 \<Rightarrow> string" where
  "protocol_text p = (if p = 6 then ''tcp'' else if p = 17 then ''udp''
                      else if p = 1 then ''icmp'' else ''all'')"

definition int_text :: "int \<Rightarrow> string" where
  "int_text n = (if n < 0 then ''-'' @ dec (nat (- n)) else dec (nat n))"

definition link_show :: "router_config \<Rightarrow> command \<Rightarrow> nat \<Rightarrow> reply" where
  "link_show c q cap =
     (if \<not> router_has_link c (q_id q) then error_reply cap ''router link not found''
      else let eps = filter (on_link (q_id q)) (cfg_interfaces c);
               chunk = (\<lambda>(k, r). (if k = 0 then [] else '','') @ ''vr'' @ dec_u16 (rif_vr_id r) @
                          ''/'' @ rif_name r);
               (buf, used) = emit cap
                 ([''OK link='' @ dec_u16 (q_id q) @ '' dataplane=ARM endpoints=''] @
                  map chunk (enumerate (0::nat) eps) @
                  [(if eps = [] then ''-'' else []) @ newline])
           in (used < cap, buf))"

definition show_head :: "command \<Rightarrow> string" where
  "show_head q = ''OK vr='' @ dec_u16 (q_id q) @ '' dataplane=ARM_LPM_ROUTER_LINK_NAT_MVP'' @ newline"

definition rule_line :: "router_egress_rule \<Rightarrow> string list" where
  "rule_line r =
     [''rule='' @ dec_u16 (er_rule_id r) @ '' action='' @ allow_text (er_allow r) @
      '' protocol='' @ protocol_text (er_protocol r) @
      '' source='' @ ip_text (er_source r) @ ''/'' @ dec_u8 (er_source_prefix r) @
      '' destination='' @ ip_text (er_destination r) @ ''/'' @ dec_u8 (er_destination_prefix r)] @
     (if er_port_first r \<noteq> 0
        then ['' port='' @ dec_u16 (er_port_first r) @ ''-'' @ dec_u16 (er_port_last r)] else []) @
     (if 0 \<le> er_icmp_type r then ['' icmp-type='' @ int_text (er_icmp_type r)] else []) @
     (if 0 \<le> er_icmp_code r then ['' icmp-code='' @ int_text (er_icmp_code r)] else []) @
     [newline]"

text \<open>A search that keeps the last match, as a loop without \<open>break\<close> does.\<close>

definition last_match :: "('a \<Rightarrow> bool) \<Rightarrow> 'a list \<Rightarrow> 'a option" where
  "last_match P xs = find P (rev xs)"

definition direction_text :: "bool \<Rightarrow> string" where
  "direction_text ing = (if ing then ''ingress'' else ''egress'')"

definition firewall_show ::
  "router_config \<Rightarrow> command \<Rightarrow> router_interface option \<Rightarrow> nat \<Rightarrow> reply" where
  "firewall_show c q rifo cap =
     (case rifo of
        None \<Rightarrow> error_reply cap ''guest vSwitch interface not found in VR''
      | Some rif \<Rightarrow>
          if \<not> q_ingress q \<and> rif_attachment rif \<noteq> ROUTER_VSWITCH
            then error_reply cap ''guest vSwitch interface not found in VR''
          else (case last_match (\<lambda>p. ep_vr_id p = q_id q \<and>
                       ep_interface_id p = rif_interface_id rif) (fw_policies c (q_ingress q)) of
            None \<Rightarrow> error_reply cap ''egress policy not configured''
          | Some p \<Rightarrow>
              let dir = direction_text (q_ingress q);
                  policy_line = dir @ '' interface='' @ rif_name rif @ '' switch='' @
                    dec_u16 (rif_vswitch_id rif) @ '' default='' @ allow_text (ep_default_allow p) @
                    '' dataplane='' @
                    (if q_ingress q then ''ARM_PRE_NAT'' else ''ARM_PRE_ROUTE'') @ newline;
                  shown = filter (\<lambda>r. er_vr_id r = q_id q \<and>
                    er_interface_id r = rif_interface_id rif \<and>
                    \<not> (q_rule_id q \<noteq> 0 \<and> er_rule_id r \<noteq> q_rule_id q)) (fw_rules c (q_ingress q))
              in if q_op q = EGRESS_RULE_SHOW then
                   (if q_rule_id q \<noteq> 0 \<and> shown = [] then error_reply cap ''egress rule not found''
                    else shown_reply cap ([show_head q, policy_line] @
                           concat (map rule_line shown) @
                           (if shown = [] then [dir @ '' rules=0'' @ newline] else [])))
                 else shown_reply cap [show_head q, policy_line]))"

definition interface_name :: "router_config \<Rightarrow> u16 \<Rightarrow> string" where
  "interface_name c i = (case last_match (\<lambda>r. rif_interface_id r = i) (cfg_interfaces c) of
     None \<Rightarrow> ''?'' | Some r \<Rightarrow> rif_name r)"

definition nat_show :: "router_config \<Rightarrow> command \<Rightarrow> nat \<Rightarrow> reply" where
  "nat_show c q cap = shown_reply cap [show_head q,
     (case router_nat_policy_find c (q_id q) of
        None \<Rightarrow> ''nat=disabled'' @ newline
      | Some p \<Rightarrow>
          ''nat=enabled mode=snat-pat protocols=tcp,udp,icmp-echo interface='' @
          interface_name c (np_interface_id p) @ '' address='' @
          ip_text (router_nat_policy_address c p) @ '' ports='' @ dec_u16 (np_port_first p) @
          ''-'' @ dec_u16 (np_port_last p) @ '' dataplane=ARM_ACTIVE hw-ct=PENDING'' @ newline)]"

definition pf_line :: "router_config \<Rightarrow> router_port_forward \<Rightarrow> string list" where
  "pf_line c r =
     [''rule='' @ dec_u16 (pf_rule_id r) @ '' interface='' @ interface_name c (pf_interface_id r) @
      '' public='' @ ip_text (pf_public_ip r) @ '':'' @ dec_u16 (pf_public_port r)] @
     (if pf_public_port_last r \<noteq> pf_public_port r
        then [''-'' @ dec_u16 (pf_public_port_last r)] else []) @
     ['' protocol='' @ (if pf_protocol r = 6 then ''tcp'' else ''udp'') @ '' private='' @
      ip_text (pf_private_ip r) @ '':'' @ dec_u16 (pf_private_port r)] @
     (if pf_private_port_last r \<noteq> pf_private_port r
        then [''-'' @ dec_u16 (pf_private_port_last r)] else []) @
     ['' dataplane=ARM'' @ newline]"

definition pf_show :: "router_config \<Rightarrow> command \<Rightarrow> nat \<Rightarrow> reply" where
  "pf_show c q cap =
     (let shown = filter (\<lambda>r. pf_vr_id r = q_id q \<and>
                    \<not> (q_rule_id q \<noteq> 0 \<and> pf_rule_id r \<noteq> q_rule_id q)) (cfg_port_forwards c)
      in if q_rule_id q \<noteq> 0 \<and> shown = [] then error_reply cap ''port-forward rule not found''
         else shown_reply cap ([show_head q] @ concat (map (pf_line c) shown) @
                (if shown = [] then [''port-forward rules=0'' @ newline] else [])))"

definition vr_line :: "router_config \<Rightarrow> command \<Rightarrow> router_interface \<Rightarrow> string list" where
  "vr_line c q r =
     [rif_name r @ '' ifindex='' @ dec_u16 (rif_interface_id r) @ '' type='' @
      (if rif_attachment r = ROUTER_PORT then ''port-link''
       else if rif_attachment r = ROUTER_LINK then ''router-link'' else ''vs-link'') @ '' ''] @
     [(case rif_attachment r of
         ROUTER_PORT \<Rightarrow> ''host='' @ dec_u32 (pi_host (rif_port r)) @ '' pf='' @
           dec_u32 (pi_pf (rif_port r)) @ '' vf='' @ dec_u32 (pi_vf (rif_port r)) @ '' ''
       | ROUTER_VSWITCH \<Rightarrow> ''switch='' @ dec_u16 (rif_vswitch_id r) @ '' ''
       | ROUTER_LINK \<Rightarrow> ''link='' @ dec_u16 (rif_link_id r) @ '' peer='' @
           (if router_link_peer c (rif_interface_id r) \<noteq> None then ''ready'' else ''pending'') @ '' '')] @
     [''mac='' @ mac_text (rif_mac r) @ '' ''] @
     [(if rif_has_address r then
         (let nat_active = (case router_nat_policy_find c (q_id q) of
                              None \<Rightarrow> False | Some p \<Rightarrow> np_interface_id p = rif_interface_id r) in
          ''address='' @ ip_text (rif_address r) @ ''/'' @ dec_u8 (rif_prefix r) @ '' status='' @
          (if nat_active then ''ACTIVE_ARM_NAT''
           else if rif_attachment r = ROUTER_VSWITCH then ''ACTIVE_ARM_LPM''
           else if rif_attachment r = ROUTER_LINK then ''ACTIVE_ARM_ROUTER_LINK''
           else ''ACTIVE_ARM_UPLINK'') @ '' arp='' @
          (if rif_attachment r = ROUTER_VSWITCH then ''PRIVATE_GATEWAY_ENABLED''
           else if rif_attachment r = ROUTER_LINK then ''STATIC_PEER''
           else ''PUBLIC_RIF_ENABLED'') @ newline)
       else ''address=- status=NO_ADDRESS'' @ newline)]"

definition connected_line :: "router_interface \<Rightarrow> string list" where
  "connected_line r =
     (if rif_has_address r
      then [''connected '' @ ip_text (rif_address r AND prefix_mask (rif_prefix r)) @ ''/'' @
            dec_u8 (rif_prefix r) @ '' interface='' @ rif_name r @ newline]
      else [])"

definition static_line :: "router_route \<Rightarrow> string" where
  "static_line r = ''static '' @ ip_text (rt_prefix r) @ ''/'' @ dec_u8 (rt_length r) @ '' via='' @
     ip_text (rt_gateway r) @ '' ifindex='' @ dec_u16 (rt_interface_id r) @ newline"

definition vr_show :: "router_config \<Rightarrow> command \<Rightarrow> nat \<Rightarrow> reply" where
  "vr_show c q cap =
     (let ifs = filter (\<lambda>r. rif_vr_id r = q_id q) (cfg_interfaces c) in
      if q_op q = SHOW then shown_reply cap ([show_head q] @ concat (map (vr_line c q) ifs))
      else shown_reply cap ([show_head q] @ concat (map connected_line ifs) @
             map static_line (filter (\<lambda>r. rt_vr_id r = q_id q) (cfg_routes c))))"

definition show_reply :: "router_config \<Rightarrow> command \<Rightarrow> nat \<Rightarrow> reply" where
  "show_reply c q cap =
     (if q_op q = LINK_SHOW then link_show c q cap
      else if \<not> router_has_vr c (q_id q) then error_reply cap ''VR not found''
      else if q_op q = EGRESS_POLICY_SHOW \<or> q_op q = EGRESS_RULE_SHOW
        then firewall_show c q (map_option ((!) (cfg_interfaces c))
               (interface_index c (q_id q) (q_name q))) cap
      else if q_op q = NAT_SHOW then nat_show c q cap
      else if q_op q = PF_SHOW then pf_show c q cap
      else vr_show c q cap)"

section \<open>The command entry point\<close>

definition commit_text :: "command \<Rightarrow> string" where
  "commit_text q =
     (if q_op q = LINK_CREATE
        then ''OK router link '' @ dec_u16 (q_id q) @ '' created; dataplane=ARM'' @ newline
      else if q_op q = LINK_DELETE
        then ''OK router link '' @ dec_u16 (q_id q) @ '' deleted'' @ newline
      else ''OK configuration committed; private-vs-dataplane=ARM_LPM '' @
           ''router-link-dataplane=ARM public-dataplane=ARM_NAT_MVP'' @ newline)"

record command_result =
  cr_ok :: bool
  cr_text :: string
  cr_changed :: bool
  cr_config :: router_config

definition router_command ::
  "router_config \<Rightarrow> router_inventory \<Rightarrow> string \<Rightarrow> nat \<Rightarrow> command_result" where
  "router_command c inven request cap =
     (let refuse = (\<lambda>(ok, text).
            \<lparr>cr_ok = ok, cr_text = text, cr_changed = False, cr_config = c\<rparr>) in
      case parse request of
        Inl m \<Rightarrow> refuse (error_reply cap m)
      | Inr q \<Rightarrow>
          if is_show (q_op q) then refuse (show_reply c q cap)
          else (case router_apply c inven q of
                  Inl m \<Rightarrow> refuse (error_reply cap m)
                | Inr c' \<Rightarrow> \<lparr>cr_ok = True, cr_text = take (cap - 1) (commit_text q),
                            cr_changed = True, cr_config = c'\<rparr>))"

definition router_command_valid :: "string \<Rightarrow> nat \<Rightarrow> reply" where
  "router_command_valid s cap =
     (case parse s of Inl m \<Rightarrow> error_reply cap m | Inr q \<Rightarrow> (True, []))"

text \<open>A session: requests in order, each with the inventory at that moment.\<close>

fun router_run ::
  "router_config \<Rightarrow> (router_inventory \<times> string \<times> nat) list \<Rightarrow> router_config" where
  "router_run c [] = c"
| "router_run c ((inven, request, cap) # rs) =
     router_run (cr_config (router_command c inven request cap)) rs"

section \<open>Facts about the output buffer\<close>

lemma emit_exact:
  "length (concat chunks) + length buf < cap \<Longrightarrow>
   foldl (append_out cap) (buf, length buf) chunks =
     (buf @ concat chunks, length buf + length (concat chunks))"
proof (induction chunks arbitrary: buf)
  case (Cons s chunks)
  have "append_out cap (buf, length buf) s = (buf @ s, length (buf @ s))"
    using Cons.prems by simp
  with Cons.IH [of "buf @ s"] Cons.prems show ?case by (simp add: add.assoc)
qed simp

lemma append_out_stuck: "cap \<le> used \<Longrightarrow> foldl (append_out cap) (buf, used) chunks = (buf, used)"
  by (induction chunks) auto

lemma emit_overflow:
  "cap \<le> length (concat chunks) + length buf \<Longrightarrow>
   cap \<le> snd (foldl (append_out cap) (buf, length buf) chunks)"
proof (induction chunks arbitrary: buf)
  case (Cons s chunks)
  show ?case
  proof (cases "length buf + length s < cap")
    case True
    then have "append_out cap (buf, length buf) s = (buf @ s, length (buf @ s))" by simp
    with Cons.IH [of "buf @ s"] Cons.prems show ?thesis by (simp add: add.assoc add.commute)
  next
    case False
    then show ?thesis by (cases "cap \<le> length buf") (simp_all add: append_out_stuck)
  qed
qed simp

lemma shown_reply_eq:
  "shown_reply cap chunks =
     (if length (concat chunks) < cap then (True, concat chunks)
      else error_reply cap ''response too large'')"
  using emit_exact [of chunks "[]" cap] emit_overflow [of cap chunks "[]"]
  by (auto simp: shown_reply_def emit_def split: prod.splits)

section \<open>Reachable configurations\<close>

lemma command_wf_step:
  "config_wf c \<Longrightarrow> config_wf (cr_config (router_command c inven request cap))"
  by (auto simp: router_command_def Let_def split: sum.splits prod.splits
      dest: parse_wf_aux intro: router_apply_preserves)

lemma router_run_wf: "config_wf c \<Longrightarrow> config_wf (router_run c rs)"
  by (induction c rs rule: router_run.induct) (auto intro: command_wf_step)

lemma config_wf_init: "config_wf router_config_init"
  by (simp add: config_wf_def router_config_init_def wf_interfaces_def wf_routes_def wf_nat_def
      wf_port_forwards_def wf_firewall_def pairwise_compat_def)

lemma command_refused:
  "\<not> cr_changed (router_command c inven request cap) \<Longrightarrow>
   cr_config (router_command c inven request cap) = c"
  by (auto simp: router_command_def Let_def split: sum.splits prod.splits)

lemma error_reply_length: "0 < cap \<Longrightarrow> length (snd (error_reply cap m)) < cap"
  by (auto simp: error_reply_def min_def)

lemma shown_reply_length: "0 < cap \<Longrightarrow> length (snd (shown_reply cap chunks)) < cap"
  by (simp add: shown_reply_eq error_reply_length)

lemma reply_if:
  "length (snd a) < cap \<Longrightarrow> length (snd b) < cap \<Longrightarrow> length (snd (if p then a else b)) < cap"
  by simp

lemma reply_option:
  "length (snd a) < cap \<Longrightarrow> (\<And>y. length (snd (f y)) < cap) \<Longrightarrow>
   length (snd (case x of None \<Rightarrow> a | Some y \<Rightarrow> f y)) < cap"
  by (cases x) simp_all

lemma emit_length:
  "length b < cap \<Longrightarrow> length b \<le> u \<Longrightarrow> length (fst (foldl (append_out cap) (b, u) chunks)) < cap"
  by (induction chunks arbitrary: b u) (auto split: if_split)

lemma reply_emit:
  "0 < cap \<Longrightarrow> length (snd (case emit cap chunks of (buf, used) \<Rightarrow> (used < cap, buf))) < cap"
  using emit_length [of "[]" cap 0 chunks] by (simp add: emit_def split_def)

lemma show_reply_length:
  assumes "0 < cap"
  shows "length (snd (show_reply c q cap)) < cap"
  unfolding show_reply_def link_show_def firewall_show_def nat_show_def pf_show_def vr_show_def Let_def
  by (intro reply_if reply_option reply_emit error_reply_length shown_reply_length assms)

lemma command_reply_length:
  assumes "0 < cap"
  shows "length (cr_text (router_command c inven request cap)) < cap"
proof -
  have "min a (cap - Suc 0) < cap" for a using assms by simp
  then show ?thesis
    using error_reply_length [OF assms] show_reply_length [OF assms, of c]
    by (auto simp: router_command_def Let_def split_def split: sum.split)
qed

section \<open>Properties\<close>

text \<open>C2: Whatever request texts arrive, with whatever inventories and buffer sizes, the configuration the
  router reaches is well formed: identifiers and names unique, capacities kept, every reference
  (route, NAT policy, port forward, firewall policy and rule) to an existing and suitable
  interface, subnets of one virtual router disjoint, forwarded ports disjoint.\<close>

theorem router_reachable_wf: "config_wf (router_run router_config_init requests)"
  by (rule router_run_wf [OF config_wf_init])


definition empty_inventory :: router_inventory where
  "empty_inventory = \<lparr>inv_port = (\<lambda>_. None), inv_switch_exists = (\<lambda>_. False)\<rparr>"


end
