(* ===== verification/Wire.thy ===== *)
theory Wire
  imports Prelude
begin

text \<open>
  Big-endian access to packet bytes and the one's-complement Internet checksum, as written
  in \<^verbatim>\<open>router_forward.c\<close>, \<^verbatim>\<open>router_icmp.c\<close>, \<^verbatim>\<open>router_nat.c\<close> and their siblings (each
  file has its own copy of the same static helpers).  The main result is that storing the
  computed checksum in a zeroed, even-aligned field makes the range verify.
\<close>

section \<open>Big-endian access\<close>

definition read16 :: "bytes \<Rightarrow> nat \<Rightarrow> u16" where
  "read16 p i = push_bit 8 (ucast (p ! i)) OR ucast (p ! (i + 1))"

definition read32 :: "bytes \<Rightarrow> nat \<Rightarrow> u32" where
  "read32 p i = push_bit 24 (ucast (p ! i)) OR push_bit 16 (ucast (p ! (i + 1))) OR
                push_bit 8 (ucast (p ! (i + 2))) OR ucast (p ! (i + 3))"

definition write16 :: "bytes \<Rightarrow> nat \<Rightarrow> u16 \<Rightarrow> bytes" where
  "write16 p i v = p[i := ucast (drop_bit 8 v), i + 1 := ucast v]"

definition write32 :: "bytes \<Rightarrow> nat \<Rightarrow> u32 \<Rightarrow> bytes" where
  "write32 p i v = p[i := ucast (drop_bit 24 v), i + 1 := ucast (drop_bit 16 v),
                     i + 2 := ucast (drop_bit 8 v), i + 3 := ucast v]"

text \<open>\<open>memcpy(out + i, src, length src)\<close> into a buffer that is long enough.\<close>

definition memcpy_at :: "bytes \<Rightarrow> nat \<Rightarrow> bytes \<Rightarrow> bytes" where
  "memcpy_at out i src = take i out @ src @ drop (i + length src) out"

lemma length_write16 [simp, wire_simps]: "length (write16 p i v) = length p"
  by (simp add: write16_def)

lemma length_write32 [simp, wire_simps]: "length (write32 p i v) = length p"
  by (simp add: write32_def)

lemma length_memcpy_at [wire_simps]:
  "i + length src \<le> length out \<Longrightarrow> length (memcpy_at out i src) = length out"
  by (simp add: memcpy_at_def)

lemma nth_memcpy_at:
  assumes "i + length src \<le> length out" "j < length out"
  shows "memcpy_at out i src ! j =
         (if i \<le> j \<and> j < i + length src then src ! (j - i) else out ! j)"
  using assms by (auto simp: memcpy_at_def nth_append)

lemma write16_nth_other [wire_simps]:
  "j \<noteq> i \<Longrightarrow> j \<noteq> Suc i \<Longrightarrow> write16 p i v ! j = p ! j"
  by (simp add: write16_def)

lemma write32_nth_other [wire_simps]:
  "j < i \<or> i + 4 \<le> j \<Longrightarrow> write32 p i v ! j = p ! j"
  by (auto simp: write32_def)

lemma read16_write16_same [simp]: "Suc i < length p \<Longrightarrow> read16 (write16 p i v) i = v"
  by (rule bit_word_eqI)
    (auto simp: read16_def write16_def bit_simps nth_list_update)

lemma read32_write32_same [simp]: "i + 3 < length p \<Longrightarrow> read32 (write32 p i v) i = v"
proof (rule bit_word_eqI)
  fix n
  assume i: "i + 3 < length p" and n: "n < LENGTH(32)"
  then consider "n < 8" | "8 \<le> n" "n < 16" | "16 \<le> n" "n < 24" | "24 \<le> n" by linarith
  then show "bit (read32 (write32 p i v) i) n = bit v n"
    using i n by cases (auto simp: read32_def write32_def bit_simps nth_list_update)
qed

text \<open>The value of a big-endian field, on natural numbers.\<close>

lemma unat_read16: "unat (read16 p i) = 256 * unat (p ! i) + unat (p ! (i + 1))"
proof -
  have "read16 p i = of_nat (256 * unat (p ! i) + unat (p ! (i + 1)))"
  proof -
    have "push_bit 8 (ucast (p ! i)) OR (ucast (p ! (i + 1)) :: u16)
          = push_bit 8 (ucast (p ! i)) + ucast (p ! (i + 1))"
      by (rule disjunctive_add_eq_or [symmetric]) (rule bit_word_eqI, auto simp: bit_simps dest: bit_imp_le_length)
    also have "\<dots> = of_nat (256 * unat (p ! i) + unat (p ! (i + 1)))"
      by (simp add: push_bit_eq_mult)
    finally show ?thesis by (simp add: read16_def)
  qed
  moreover have "256 * unat (p ! i) + unat (p ! (i + 1)) < 65536"
    using unat_u8_less [of "p ! i"] unat_u8_less [of "p ! (i + 1)"] by linarith
  ultimately show ?thesis using of_nat_inverse [of _ "read16 p i"] by simp
qed

lemma read32_cong:
  "p ! i = q ! j \<Longrightarrow> p ! (i + 1) = q ! (j + 1) \<Longrightarrow> p ! (i + 2) = q ! (j + 2) \<Longrightarrow>
   p ! (i + 3) = q ! (j + 3) \<Longrightarrow> read32 p i = read32 q j"
  by (simp add: read32_def)

section \<open>The Internet checksum\<close>

text \<open>\<open>checksum_add\<close>: the running 32-bit sum of big-endian 16-bit words, an odd last byte padded.\<close>

fun checksum_add :: "u32 \<Rightarrow> bytes \<Rightarrow> u32" where
  "checksum_add s (a # b # bs) = checksum_add (s + ucast (read16 [a, b] 0)) bs"
| "checksum_add s [a] = s + push_bit 8 (ucast a)"
| "checksum_add s [] = s"

text \<open>\<open>while (sum >> 16) sum = (sum & UINT16_MAX) + (sum >> 16)\<close>.\<close>

lemma unat_drop16: "unat (drop_bit 16 (s :: u32)) = unat s div 65536"
  by (simp add: drop_bit_eq_div unat_div)

lemma fold_step_unat:
  "unat ((s AND 65535) + drop_bit 16 (s :: u32)) = unat s mod 65536 + unat s div 65536"
proof -
  have a: "unat (s AND 65535) = unat s mod 65536"
  proof -
    have "(s AND 65535) = take_bit 16 s"
      by (simp add: take_bit_eq_mask mask_eq_exp_minus_1)
    then show ?thesis by (simp add: take_bit_eq_mod unat_mod)
  qed
  have "unat s mod 65536 + unat s div 65536 < 4294967296"
    using unat_u32_less [of s] by linarith
  then show ?thesis by (simp add: unat_word_ariths a unat_drop16)
qed

function checksum_fold :: "u32 \<Rightarrow> u32" where
  "checksum_fold s = (if drop_bit 16 s \<noteq> 0 then checksum_fold ((s AND 65535) + drop_bit 16 s) else s)"
  by pat_completeness auto
termination
proof (relation "measure unat")
  fix s :: u32
  assume "drop_bit 16 s \<noteq> 0"
  then have "unat (drop_bit 16 s) \<noteq> 0" by (simp only: unat_eq_0 not_False_eq_True)
  then have "unat s div 65536 \<noteq> 0" unfolding unat_drop16 .
  then have "unat s mod 65536 + unat s div 65536 < unat s"
    using mult_div_mod_eq [of 65536 "unat s"] by linarith
  then show "((s AND 65535) + drop_bit 16 s, s) \<in> measure unat"
    by (simp add: fold_step_unat)
qed simp

declare checksum_fold.simps [simp del]

definition checksum_finish :: "u32 \<Rightarrow> u16" where
  "checksum_finish s = NOT (ucast (checksum_fold s))"

text \<open>\<open>checksum(bytes, length)\<close> (\<open>ipv4_checksum\<close> in \<^verbatim>\<open>router_nat.c\<close>).\<close>

definition checksum :: "bytes \<Rightarrow> u16" where
  "checksum bs = checksum_finish (checksum_add 0 bs)"

subsection \<open>The checksum on natural numbers\<close>

text \<open>The unbounded sum of the 16-bit words of a byte range.\<close>

fun wsum :: "bytes \<Rightarrow> nat" where
  "wsum (a # b # bs) = 256 * unat a + unat b + wsum bs"
| "wsum [a] = 256 * unat a"
| "wsum [] = 0"

lemma wsum_bound: "wsum bs \<le> 65535 * ((length bs + 1) div 2)"
proof (induction bs rule: wsum.induct)
  case (1 a b bs)
  have "256 * unat a + unat b \<le> 65535"
    using unat_u8_less [of a] unat_u8_less [of b] by linarith
  with 1 show ?case by simp
next
  case (2 a)
  show ?case using unat_u8_less [of a] by (simp, linarith)
qed simp

lemma wsum_append: "even (length xs) \<Longrightarrow> wsum (xs @ ys) = wsum xs + wsum ys"
  by (induction xs rule: wsum.induct) auto

lemma checksum_add_eq: "checksum_add s bs = s + of_nat (wsum bs)"
proof (induction s bs rule: checksum_add.induct)
  case (1 s a b bs)
  have "(ucast (read16 [a, b] 0) :: u32) = of_nat (unat (read16 [a, b] 0))"
    by simp
  also have "\<dots> = of_nat (256 * unat a + unat b)"
    by (simp only: unat_read16) simp
  finally show ?case using 1 by simp
next
  case (2 s a)
  show ?case by (simp add: push_bit_eq_mult)
qed simp

text \<open>The one's-complement fold of a natural number into 0 .. 65535.\<close>

definition ocfold :: "nat \<Rightarrow> nat" where
  "ocfold n = (if n = 0 then 0 else (n - 1) mod 65535 + 1)"

lemma ocfold_le: "ocfold n \<le> 65535"
  using mod_less_divisor [of 65535 "n - 1"] by (auto simp: ocfold_def)

lemma ocfold_step:
  assumes "n mod 65536 + n div 65536 = m"
  shows "ocfold m = ocfold n"
proof (cases "n = 0")
  case False
  have n: "n = m + 65535 * (n div 65536)"
    using assms mult_div_mod_eq [of 65536 n] by linarith
  with False have m: "m > 0" by (cases "m = 0") (use assms in auto)
  have "n - 1 = (m - 1) + 65535 * (n div 65536)" using n m by linarith
  then have "(n - 1) mod 65535 = (m - 1) mod 65535"
    by (metis mod_mult_self2)
  with False m show ?thesis by (simp add: ocfold_def)
qed (use assms in \<open>simp add: ocfold_def\<close>)

lemma unat_checksum_fold: "unat (checksum_fold s) = ocfold (unat s)"
proof (induction s rule: checksum_fold.induct)
  case (1 s)
  show ?case
  proof (cases "drop_bit 16 s = 0")
    case True
    then have "unat s div 65536 = 0"
      using unat_drop16 [of s] by simp
    then have "unat s < 65536" by simp
    with True show ?thesis
      by (auto simp: checksum_fold.simps [of s] ocfold_def)
  next
    case False
    have "ocfold (unat s mod 65536 + unat s div 65536) = ocfold (unat s)"
      by (rule ocfold_step) simp
    with 1 [OF False] False show ?thesis
      by (simp add: checksum_fold.simps [of s] fold_step_unat)
  qed
qed

lemma unat_checksum_finish: "unat (checksum_finish s) = 65535 - ocfold (unat s)"
proof -
  have "unat (ucast (checksum_fold s) :: u16) = ocfold (unat s)"
    using ocfold_le [of "unat s"]
    by (simp add: unat_checksum_fold [symmetric] unsigned_ucast_eq take_bit_eq_mod
        del: unat_checksum_fold)
  moreover have "unat (NOT (w :: u16)) = 65535 - unat w" for w
  proof -
    have "uint (NOT w) = take_bit 16 (NOT (uint w))" by (simp add: unsigned_not_eq)
    also have "\<dots> = (- uint w - 1) mod 65536"
      by (simp add: take_bit_eq_mod not_eq_complement)
    also have "\<dots> = (65535 - uint w) mod 65536"
      using mod_add_self2 [of "- uint w - 1" 65536] by simp
    also have "\<dots> = 65535 - uint w"
    proof (rule mod_pos_pos_trivial)
      show "0 \<le> 65535 - uint w" using uint_lt2p [of w] by simp
      have "0 \<le> uint w" by simp
      then show "65535 - uint w < 65536" by linarith
    qed
    finally have e: "uint (NOT w) = 65535 - uint w" .
    have "uint w \<le> 65535" using uint_lt2p [of w] by simp
    then show ?thesis
      unfolding unat_eq_nat_uint e by (subst nat_diff_distrib) auto
  qed
  ultimately show ?thesis by (simp add: checksum_finish_def)
qed

lemma checksum_finish_zero: "checksum_finish s = 0 \<longleftrightarrow> s \<noteq> 0 \<and> 65535 dvd unat s"
proof -
  have "checksum_finish s = 0 \<longleftrightarrow> ocfold (unat s) = 65535"
    using ocfold_le [of "unat s"] unat_checksum_finish [of s]
    by (auto simp: unat_eq_0 [symmetric])
  moreover have "ocfold n = 65535 \<longleftrightarrow> n \<noteq> 0 \<and> 65535 dvd n" for n
  proof (cases "n = 0")
    case False
    then obtain k where "n = Suc k" by (cases n) auto
    then show ?thesis by (auto simp: ocfold_def dvd_eq_mod_eq_0 mod_Suc)
  qed (simp add: ocfold_def)
  ultimately show ?thesis by (simp add: unat_eq_0 [symmetric])
qed

text \<open>Adding the finished sum to the sum itself always verifies.\<close>

lemma ocfold_complement: "0 < n + (65535 - ocfold n) \<and> 65535 dvd n + (65535 - ocfold n)"
proof (cases "n = 0")
  case False
  then obtain k where k: "n = Suc k" by (cases n) auto
  have "ocfold n = k mod 65535 + 1" using k by (simp add: ocfold_def)
  then have "n + (65535 - ocfold n) = 65535 * (k div 65535) + 65535"
    using k mod_less_divisor [of 65535 k] mult_div_mod_eq [of 65535 k] by linarith
  then show ?thesis by (metis add_gr_0 dvd_add dvd_refl dvd_triv_left zero_less_numeral)
qed (simp add: ocfold_def)

lemma checksum_finish_complement:
  assumes "unat s + 65535 < 4294967296"
  shows "checksum_finish (s + ucast (checksum_finish s)) = 0"
proof -
  have le: "unat (checksum_finish s) \<le> 65535" by (simp add: unat_checksum_finish)
  have u: "unat (s + ucast (checksum_finish s)) = unat s + (65535 - ocfold (unat s))"
    using assms le by (simp add: unat_word_ariths unat_checksum_finish unsigned_ucast_eq take_bit_eq_mod)
  have "unat (s + ucast (checksum_finish s)) \<noteq> 0 \<and> 65535 dvd unat (s + ucast (checksum_finish s))"
    unfolding u using ocfold_complement [of "unat s"] by (simp only: neq0_conv)
  then show ?thesis by (auto simp: checksum_finish_zero)
qed

subsection \<open>Checksum fields\<close>

lemma wsum_write16:
  assumes "even k" "Suc k < length bs" "bs ! k = 0" "bs ! Suc k = 0"
  shows "wsum (write16 bs k v) = wsum bs + unat v"
proof -
  define w where "w = [ucast (drop_bit 8 v) :: u8, ucast v]"
  have split: "bs = take k bs @ [0, 0] @ drop (k + 2) bs"
    using assms by (metis (no_types, lifting) Cons_nth_drop_Suc Suc_lessD add_2_eq_Suc'
        append_Cons append_Nil append_take_drop_id)
  have len: "length (take k bs) = k" using assms(2) by simp
  have "write16 bs k v = take k bs @ w @ drop (k + 2) bs"
    using assms(2) unfolding w_def write16_def
    by (intro nth_equalityI)
      (auto simp: nth_list_update nth_append nth_Cons split: nat.splits intro: arg_cong [of _ _ "nth bs"])
  then have "wsum (write16 bs k v) = wsum (take k bs) + wsum w + wsum (drop (k + 2) bs)"
    using assms(1) len by (simp add: wsum_append w_def)
  moreover have "wsum bs = wsum (take k bs) + wsum (drop (k + 2) bs)"
    using assms(1) len by (subst split) (simp add: wsum_append)
  moreover have "wsum w = unat v"
  proof -
    have "read16 (write16 [0, 0] 0 v) 0 = v" by simp
    then have "unat v = 256 * unat (ucast (drop_bit 8 v) :: u8) + unat (ucast v :: u8)"
      using unat_read16 [of "write16 [0, 0] 0 v" 0] by (simp add: write16_def)
    then show ?thesis by (simp add: w_def)
  qed
  ultimately show ?thesis by simp
qed

text \<open>
  Storing the checksum of a range in its zeroed field makes the range verify, also when a
  partial sum \<open>s0\<close> (the pseudo header) precedes it.
\<close>

lemma checksum_store:
  assumes "even k" "Suc k < length bs" "bs ! k = 0" "bs ! Suc k = 0"
    and "unat s0 + wsum bs + 65535 < 4294967296"
  shows "checksum_finish (checksum_add s0 (write16 bs k (checksum_finish (checksum_add s0 bs)))) = 0"
proof -
  let ?c = "checksum_finish (checksum_add s0 bs)"
  have "unat (checksum_add s0 bs) = unat s0 + wsum bs"
    using assms(5) by (simp add: checksum_add_eq unat_word_ariths unat_of_nat take_bit_eq_mod)
  then have "checksum_finish (checksum_add s0 bs + ucast ?c) = 0"
    using assms(5) by (intro checksum_finish_complement) simp
  moreover have "checksum_add s0 (write16 bs k ?c) = checksum_add s0 bs + ucast ?c"
    by (simp only: checksum_add_eq wsum_write16 [OF assms(1-4)] of_nat_add of_nat_unat add.assoc)
  ultimately show ?thesis by simp
qed

lemma checksum_store_all:
  assumes "even k" "Suc k < length bs" "bs ! k = 0" "bs ! Suc k = 0" "length bs \<le> 65536"
  shows "checksum (write16 bs k (checksum bs)) = 0"
proof -
  have "(length bs + 1) div 2 \<le> 32768" using assms(5) by linarith
  then have "wsum bs \<le> 65535 * 32768"
    using wsum_bound [of bs] by linarith
  then show ?thesis using assms unfolding checksum_def by (intro checksum_store) simp_all
qed

end
