(* ===== verification/Sample.thy ===== *)
theory Sample
  imports Router_Inv
begin

text \<open>
  A small configuration and a few frames on which the theorems are exercised: one virtual router
  with a private and a public vSwitch interface, a default route, NAT, one forwarded port and a
  firewall in each direction.
\<close>

section \<open>A configuration\<close>

definition no_port :: router_port_identity where
  "no_port = \<lparr>pi_host = 0, pi_pf = 0, pi_vf = 0\<rparr>"

definition lan_rif :: router_interface where
  "lan_rif = \<lparr>rif_vr_id = 1, rif_interface_id = 1, rif_name = ''lan'', rif_attachment = ROUTER_VSWITCH,
     rif_vswitch_id = 10, rif_link_id = 0, rif_port = no_port, rif_mac = [2, 0, 0, 1, 0, 1],
     rif_has_address = True, rif_address = 0x0A000001, rif_prefix = 24\<rparr>"

definition wan_rif :: router_interface where
  "wan_rif = \<lparr>rif_vr_id = 1, rif_interface_id = 2, rif_name = ''wan'', rif_attachment = ROUTER_VSWITCH,
     rif_vswitch_id = 20, rif_link_id = 0, rif_port = no_port, rif_mac = [2, 0, 0, 1, 0, 2],
     rif_has_address = True, rif_address = 0xC0000202, rif_prefix = 24\<rparr>"

definition sample_route :: router_route where
  "sample_route = \<lparr>rt_vr_id = 1, rt_interface_id = 2, rt_prefix = 0, rt_gateway = 0xC0000201, rt_length = 0\<rparr>"

definition sample_nat :: router_nat_policy where
  "sample_nat = \<lparr>np_vr_id = 1, np_interface_id = 2, np_public_address = 0,
     np_port_first = 40000, np_port_last = 40000\<rparr>"

definition sample_forward :: router_port_forward where
  "sample_forward = \<lparr>pf_vr_id = 1, pf_rule_id = 1, pf_interface_id = 2, pf_protocol = 17,
     pf_public_port = 8080, pf_public_port_last = 8081, pf_private_port = 80,
     pf_private_port_last = 81, pf_public_ip = 0xC0000202, pf_private_ip = 0x0A000005\<rparr>"

definition sample_egress_rule :: router_egress_rule where
  "sample_egress_rule = \<lparr>er_vr_id = 1, er_interface_id = 1, er_rule_id = 10, er_source = 0,
     er_destination = 0xC6336400, er_source_prefix = 0, er_destination_prefix = 24,
     er_protocol = 17, er_port_first = 53, er_port_last = 53, er_icmp_type = - 1,
     er_icmp_code = - 1, er_allow = True\<rparr>"

definition sample_ingress_rule :: router_egress_rule where
  "sample_ingress_rule = \<lparr>er_vr_id = 1, er_interface_id = 2, er_rule_id = 20, er_source = 0,
     er_destination = 0, er_source_prefix = 0, er_destination_prefix = 0,
     er_protocol = 17, er_port_first = 8080, er_port_last = 65535, er_icmp_type = - 1,
     er_icmp_code = - 1, er_allow = True\<rparr>"

definition sample_config :: router_config where
  "sample_config = \<lparr>cfg_vr_ids = [1], cfg_link_ids = [], cfg_interfaces = [lan_rif, wan_rif],
     cfg_routes = [sample_route], cfg_nat_policies = [sample_nat],
     cfg_port_forwards = [sample_forward],
     cfg_egress_policies = [\<lparr>ep_vr_id = 1, ep_interface_id = 1, ep_default_allow = False\<rparr>],
     cfg_egress_rules = [sample_egress_rule],
     cfg_ingress_policies = [\<lparr>ep_vr_id = 1, ep_interface_id = 2, ep_default_allow = False\<rparr>],
     cfg_ingress_rules = [sample_ingress_rule], cfg_next_interface_id = 3\<rparr>"

lemmas sample_defs = sample_config_def lan_rif_def wan_rif_def sample_route_def sample_nat_def
  sample_forward_def sample_egress_rule_def sample_ingress_rule_def no_port_def

lemma mask24: "prefix_mask 24 = 0xFFFFFF00"
  by code_simp

lemma sample_interfaces_wf:
  "wf_interfaces (cfg_vr_ids sample_config) (cfg_link_ids sample_config)
     (cfg_next_interface_id sample_config) (cfg_interfaces sample_config)"
  by (simp add: sample_defs wf_interfaces_def ROUTER_MAX_INTERFACES_def rif_ok_def pairwise_compat_def
      rif_compat_def subnet_overlap_def usable_address_def mac_ok_def mask24)

lemma sample_routes_wf: "wf_routes (cfg_interfaces sample_config) (cfg_routes sample_config)"
  by (simp add: sample_defs wf_routes_def ROUTER_MAX_ROUTES_def route_ok_def rif_ref_def gateway_ok_def
      usable_address_def mask24)

lemma sample_nat_wf:
  "wf_nat (cfg_interfaces sample_config) (cfg_routes sample_config) (cfg_egress_policies sample_config)
     (cfg_nat_policies sample_config)"
  by (simp add: sample_defs wf_nat_def ROUTER_MAX_NAT_POLICIES_def ROUTER_MAX_VRS_def nat_ok_def
      not_policed_def rif_ref_def public_rif_def)

lemma sample_forwards_wf:
  "wf_port_forwards (cfg_interfaces sample_config) (cfg_egress_policies sample_config)
     (cfg_port_forwards sample_config)"
  by (simp add: sample_defs wf_port_forwards_def ROUTER_MAX_PORT_FORWARDS_def pf_ok_def port_span_ok_def
      not_policed_def rif_ref_def public_rif_def)

lemma sample_firewall_wf:
  "wf_firewall (cfg_interfaces sample_config) False (cfg_egress_policies sample_config)
     (cfg_egress_rules sample_config)"
  "wf_firewall (cfg_interfaces sample_config) True (cfg_ingress_policies sample_config)
     (cfg_ingress_rules sample_config)"
  by (simp_all add: sample_defs wf_firewall_def ROUTER_MAX_EGRESS_POLICIES_def ROUTER_MAX_INTERFACES_def
      ROUTER_MAX_EGRESS_RULES_def er_ok_def rule_fields_ok_def port_span_ok_def rif_ref_def mask24)

lemma sample_wf: "config_wf sample_config"
  using sample_interfaces_wf sample_routes_wf sample_nat_wf sample_forwards_wf sample_firewall_wf
  by (simp add: config_wf_def)
    (simp add: sample_config_def ROUTER_MAX_VRS_def ROUTER_MAX_LINKS_def)

section \<open>Frames\<close>

text \<open>UDP from the inside host 10.0.0.7:5353 to 198.51.100.9:53, its answer after translation, a
  packet to the forwarded port, and an ICMP Echo Request to the inside gateway address.\<close>

definition udp_out :: bytes where
  "udp_out = [2, 0, 0, 1, 0, 1, 2, 0, 0, 0, 0, 7, 8, 0, 69, 0, 0, 28, 0, 0, 0, 0, 64, 17, 70, 142,
     10, 0, 0, 7, 198, 51, 100, 9, 20, 233, 0, 53, 0, 8, 0, 0]"

definition udp_in :: bytes where
  "udp_in = [2, 0, 0, 1, 0, 2, 2, 0, 0, 0, 0, 9, 8, 0, 69, 0, 0, 28, 0, 0, 0, 0, 64, 17, 142, 146,
     198, 51, 100, 9, 192, 0, 2, 2, 0, 53, 156, 64, 0, 8, 0, 0]"

definition forward_in :: bytes where
  "forward_in = [2, 0, 0, 1, 0, 2, 2, 0, 0, 0, 0, 9, 8, 0, 69, 0, 0, 28, 0, 0, 0, 0, 64, 17, 142, 146,
     198, 51, 100, 9, 192, 0, 2, 2, 27, 88, 31, 144, 0, 8, 0, 0]"

definition ping :: bytes where
  "ping = [2, 0, 0, 1, 0, 1, 2, 0, 0, 0, 0, 7, 8, 0, 69, 0, 0, 30, 0, 0, 0, 0, 64, 1, 102, 216,
     10, 0, 0, 7, 10, 0, 0, 1, 8, 0, 143, 72, 0, 77, 0, 1, 104, 105]"

end
