(* ===== verification/Router_Forward.thy ===== *)
theory Router_Forward
  imports Router_Preserve Wire Sample
begin

text \<open>
  The IPv4 data path of \<^verbatim>\<open>router/router_forward.c\<close>: frame validation, longest-prefix lookup
  over connected and static routes, and the forwarding rewrite.  A frame is the list of its
  bytes, so \<^verbatim>\<open>length\<close> is its length; the buffers a caller passes are never \<^verbatim>\<open>NULL\<close> here.
\<close>

section \<open>Frames\<close>

definition ETH_HEADER_LEN :: nat where "ETH_HEADER_LEN = 14"
definition IPV4_MIN_HEADER_LEN :: nat where "IPV4_MIN_HEADER_LEN = 20"
definition ETHERNET_MIN_FRAME_NO_FCS :: nat where "ETHERNET_MIN_FRAME_NO_FCS = 60"

lemmas frame_consts = ETH_HEADER_LEN_def IPV4_MIN_HEADER_LEN_def ETHERNET_MIN_FRAME_NO_FCS_def

text \<open>The range \<^verbatim>\<open>p[i .. i + n - 1]\<close>.\<close>

definition slice :: "bytes \<Rightarrow> nat \<Rightarrow> nat \<Rightarrow> bytes" where
  "slice p i n = take n (drop i p)"

lemma length_slice: "i + n \<le> length p \<Longrightarrow> length (slice p i n) = n"
  by (simp add: slice_def)

lemma nth_slice: "j < n \<Longrightarrow> i + n \<le> length p \<Longrightarrow> slice p i n ! j = p ! (i + j)"
  by (simp add: slice_def)

definition ethertype_ipv4 :: "bytes \<Rightarrow> bool" where
  "ethertype_ipv4 f \<longleftrightarrow> f ! 12 = 8 \<and> f ! 13 = 0"

text \<open>\<open>(ip[0] & 0x0f) * 4\<close> for the header behind the Ethernet header.\<close>

definition ip_header_length :: "bytes \<Rightarrow> nat" where
  "ip_header_length f = unat (f ! 14 AND 15) * 4"

text \<open>Version, header length, checksum and total length checks shared by lookup and rewrite.\<close>

definition ip_version_ok :: "bytes \<Rightarrow> bool" where
  "ip_version_ok f \<longleftrightarrow> drop_bit 4 (f ! 14) = 4 \<and> \<not> f ! 14 AND 15 < 5"

definition ip_header_ok :: "bytes \<Rightarrow> bool" where
  "ip_header_ok f \<longleftrightarrow>
     \<not> length f < ETH_HEADER_LEN + ip_header_length f \<and>
     checksum (slice f 14 (ip_header_length f)) = 0"

definition ip_total_ok :: "bytes \<Rightarrow> bool" where
  "ip_total_ok f \<longleftrightarrow>
     \<not> unat (read16 f 16) < ip_header_length f \<and>
     \<not> length f - ETH_HEADER_LEN < unat (read16 f 16)"

section \<open>Longest-prefix lookup\<close>

datatype disposition = ROUTER_IPV4_NOT_FOR_ROUTER | ROUTER_IPV4_INVALID | ROUTER_IPV4_LOCAL
  | ROUTER_IPV4_TTL_EXPIRED | ROUTER_IPV4_NO_ROUTE | ROUTER_IPV4_FORWARD

record decision =
  d_disposition :: disposition
  d_vr_id :: u16
  d_ingress_interface_id :: u16
  d_egress_interface_id :: u16
  d_egress_vswitch_id :: u16
  d_source_ip :: u32
  d_destination_ip :: u32
  d_next_hop_ip :: u32
  d_prefix_length :: u8
  d_connected :: bool

definition decision_zero :: decision where
  "decision_zero = \<lparr>d_disposition = ROUTER_IPV4_NOT_FOR_ROUTER, d_vr_id = 0,
     d_ingress_interface_id = 0, d_egress_interface_id = 0, d_egress_vswitch_id = 0,
     d_source_ip = 0, d_destination_ip = 0, d_next_hop_ip = 0, d_prefix_length = 0,
     d_connected = False\<rparr>"

text \<open>The local variables of the two route loops.\<close>

record lpm =
  l_have :: bool
  l_connected :: bool
  l_length :: u8
  l_next_hop :: u32
  l_egress :: "router_interface option"

definition lpm_init :: lpm where
  "lpm_init = \<lparr>l_have = False, l_connected = False, l_length = 0, l_next_hop = 0, l_egress = None\<rparr>"

definition connected_step :: "u16 \<Rightarrow> u32 \<Rightarrow> lpm \<Rightarrow> router_interface \<Rightarrow> lpm" where
  "connected_step vr dst s r =
     (if rif_vr_id r \<noteq> vr \<or> \<not> rif_has_address r then s
      else if dst AND prefix_mask (rif_prefix r) \<noteq> rif_address r AND prefix_mask (rif_prefix r) then s
      else if \<not> l_have s \<or> l_length s < rif_prefix r \<or>
              (rif_prefix r = l_length s \<and> \<not> l_connected s)
        then \<lparr>l_have = True, l_connected = True, l_length = rif_prefix r, l_next_hop = dst,
              l_egress = Some r\<rparr>
      else s)"

definition static_step :: "router_config \<Rightarrow> u16 \<Rightarrow> u32 \<Rightarrow> lpm \<Rightarrow> router_route \<Rightarrow> lpm" where
  "static_step c vr dst s rt =
     (if rt_vr_id rt \<noteq> vr then s
      else if dst AND prefix_mask (rt_length rt) \<noteq> rt_prefix rt \<or>
              (l_have s \<and> rt_length rt \<le> l_length s) then s
      else let eg = interface_in_vr c vr (rt_interface_id rt); s' = s\<lparr>l_egress := eg\<rparr> in
        (case eg of
           None \<Rightarrow> s'
         | Some e \<Rightarrow>
             if \<not> rif_has_address e then s'
             else s'\<lparr>l_have := True, l_connected := False, l_length := rt_length rt,
                     l_next_hop := rt_gateway rt\<rparr>))"

definition lpm_search :: "router_config \<Rightarrow> u16 \<Rightarrow> u32 \<Rightarrow> lpm" where
  "lpm_search c vr dst =
     foldl (static_step c vr dst)
       (foldl (connected_step vr dst) lpm_init (cfg_interfaces c)) (cfg_routes c)"

definition is_local :: "router_config \<Rightarrow> u16 \<Rightarrow> u32 \<Rightarrow> bool" where
  "is_local c vr dst =
     list_ex (\<lambda>r. rif_vr_id r = vr \<and> rif_has_address r \<and> rif_address r = dst) (cfg_interfaces c)"

definition lookup_with_ingress ::
  "router_config \<Rightarrow> router_interface option \<Rightarrow> bytes \<Rightarrow> disposition \<times> decision" where
  "lookup_with_ingress c ingo f =
     (case ingo of None \<Rightarrow> (ROUTER_IPV4_INVALID, decision_zero)
      | Some ing \<Rightarrow>
     if length f < ETH_HEADER_LEN + IPV4_MIN_HEADER_LEN then (ROUTER_IPV4_INVALID, decision_zero)
     else if \<not> ethertype_ipv4 f then (ROUTER_IPV4_NOT_FOR_ROUTER, decision_zero)
     else if \<not> rif_has_address ing \<or> slice f 0 6 \<noteq> rif_mac ing
       then (ROUTER_IPV4_NOT_FOR_ROUTER, decision_zero)
     else if \<not> ip_version_ok f then (ROUTER_IPV4_INVALID, decision_zero)
     else if \<not> ip_header_ok f then (ROUTER_IPV4_INVALID, decision_zero)
     else if \<not> ip_total_ok f then (ROUTER_IPV4_INVALID, decision_zero)
     else
       let dst = read32 f 30; vr = rif_vr_id ing;
           d = decision_zero\<lparr>d_vr_id := vr, d_ingress_interface_id := rif_interface_id ing,
                 d_source_ip := read32 f 26, d_destination_ip := dst\<rparr>;
           stop = (\<lambda>x. (x, d\<lparr>d_disposition := x\<rparr>)) in
       if drop_bit 28 dst = 14 \<or> dst = - 1 then stop ROUTER_IPV4_NO_ROUTE
       else if is_local c vr dst then stop ROUTER_IPV4_LOCAL
       else if f ! 22 \<le> 1 then stop ROUTER_IPV4_TTL_EXPIRED
       else let s = lpm_search c vr dst in
         (case (l_have s, l_egress s) of
            (True, Some e) \<Rightarrow>
              (ROUTER_IPV4_FORWARD, d\<lparr>d_disposition := ROUTER_IPV4_FORWARD,
                 d_egress_interface_id := rif_interface_id e,
                 d_egress_vswitch_id := rif_vswitch_id e, d_next_hop_ip := l_next_hop s,
                 d_prefix_length := l_length s, d_connected := l_connected s\<rparr>)
          | _ \<Rightarrow> stop ROUTER_IPV4_NO_ROUTE))"

definition router_ipv4_lookup ::
  "router_config \<Rightarrow> u16 \<Rightarrow> bytes \<Rightarrow> disposition \<times> decision" where
  "router_ipv4_lookup c vs f =
     (if vs = 0 then (ROUTER_IPV4_INVALID, decision_zero)
      else case find (\<lambda>r. rif_attachment r = ROUTER_VSWITCH \<and> rif_has_address r \<and>
                  rif_vswitch_id r = vs \<and> length f \<ge> ETH_HEADER_LEN \<and>
                  slice f 0 6 = rif_mac r) (cfg_interfaces c) of
        None \<Rightarrow> (ROUTER_IPV4_NOT_FOR_ROUTER, decision_zero)
      | Some r \<Rightarrow> lookup_with_ingress c (Some r) f)"

definition router_ipv4_lookup_interface ::
  "router_config \<Rightarrow> u16 \<Rightarrow> bytes \<Rightarrow> disposition \<times> decision" where
  "router_ipv4_lookup_interface c i f =
     (if i = 0 then (ROUTER_IPV4_INVALID, decision_zero)
      else lookup_with_ingress c (interface_by_id c i) f)"

section \<open>Rewrite\<close>

text \<open>\<open>router_ipv4_rewrite\<close>: \<open>None\<close> is the return value 0, else the frame written to the output.\<close>

definition rewrite_header :: "bytes \<Rightarrow> nat \<Rightarrow> bytes" where
  "rewrite_header out ihl =
     (let o1 = out[22 := out ! 22 - 1, 24 := 0, 25 := 0] in
      write16 o1 24 (checksum (slice o1 14 ihl)))"

definition router_ipv4_rewrite :: "bytes \<Rightarrow> mac \<Rightarrow> mac \<Rightarrow> nat \<Rightarrow> bytes option" where
  "router_ipv4_rewrite f source_mac destination_mac capacity =
     (if length f < ETH_HEADER_LEN + IPV4_MIN_HEADER_LEN \<or> \<not> ethertype_ipv4 f then None
      else if \<not> ip_version_ok f \<or> f ! 22 \<le> 1 then None
      else if \<not> ip_header_ok f then None
      else if \<not> ip_total_ok f then None
      else
        let total = unat (read16 f 16);
            frame_length = (if ETH_HEADER_LEN + total < ETHERNET_MIN_FRAME_NO_FCS
                            then ETHERNET_MIN_FRAME_NO_FCS else ETH_HEADER_LEN + total) in
        if capacity < frame_length then None
        else
          let o0 = replicate frame_length 0;
              o1 = memcpy_at (memcpy_at o0 0 destination_mac) 6 source_mac;
              o2 = memcpy_at (o1[12 := 8, 13 := 0]) 14 (slice f 14 total) in
          Some (rewrite_header o2 (ip_header_length f)))"

section \<open>The routing table the search ranges over\<close>

text \<open>
  A candidate: prefix length, whether it is connected, next hop and egress interface.
  This is the specification: every live route of the VR that matches the destination.
\<close>

type_synonym candidate = "u8 \<times> bool \<times> u32 \<times> router_interface"

definition connected_match :: "u16 \<Rightarrow> u32 \<Rightarrow> router_interface \<Rightarrow> bool" where
  "connected_match vr dst r \<longleftrightarrow> rif_vr_id r = vr \<and> rif_has_address r \<and>
     dst AND prefix_mask (rif_prefix r) = rif_address r AND prefix_mask (rif_prefix r)"

definition connected_candidates :: "router_config \<Rightarrow> u16 \<Rightarrow> u32 \<Rightarrow> candidate list" where
  "connected_candidates c vr dst =
     map (\<lambda>r. (rif_prefix r, True, dst, r)) (filter (connected_match vr dst) (cfg_interfaces c))"

definition static_candidates :: "router_config \<Rightarrow> u16 \<Rightarrow> u32 \<Rightarrow> candidate list" where
  "static_candidates c vr dst =
     List.map_filter (\<lambda>rt.
       if rt_vr_id rt = vr \<and> dst AND prefix_mask (rt_length rt) = rt_prefix rt then
         (case interface_in_vr c vr (rt_interface_id rt) of
            None \<Rightarrow> None
          | Some e \<Rightarrow> if rif_has_address e then Some (rt_length rt, False, rt_gateway rt, e) else None)
       else None) (cfg_routes c)"

definition better :: "candidate \<Rightarrow> candidate \<Rightarrow> bool" where
  "better a b \<longleftrightarrow> fst b < fst a \<or> (fst a = fst b \<and> (fst (snd b) \<longrightarrow> fst (snd a)))"

definition best_of :: "candidate list \<Rightarrow> lpm \<Rightarrow> bool" where
  "best_of cs s \<longleftrightarrow>
     (if cs = [] then \<not> l_have s
      else l_have s \<and> (\<exists>e. l_egress s = Some e \<and>
        (let x = (l_length s, l_connected s, l_next_hop s, e) in
          x \<in> set cs \<and> (\<forall>y\<in>set cs. better x y))))"

lemma best_of_cand:
  "best_of (cs :: candidate list) s \<Longrightarrow> cs \<noteq> [] \<Longrightarrow>
   \<exists>e. l_have s \<and> l_egress s = Some e \<and> (l_length s, l_connected s, l_next_hop s, e) \<in> set cs \<and>
       (\<forall>y\<in>set cs. better (l_length s, l_connected s, l_next_hop s, e) y)"
  by (auto simp: best_of_def Let_def)

lemma best_of_snoc_keep:
  assumes "best_of cs s" "l_have s"
    "fst x < l_length s \<or> fst x = l_length s \<and> (fst (snd x) \<longrightarrow> l_connected s)"
  shows "best_of (cs @ [x]) s"
  using assms by (auto simp: best_of_def Let_def better_def split: if_splits)

lemma better_trans: "better a b \<Longrightarrow> better b d \<Longrightarrow> better a d"
  by (auto simp: better_def)

lemma best_of_snoc_new:
  assumes "best_of cs s" "\<not> l_have s \<or> l_length s < n \<or> l_length s = n \<and> (l_connected s \<longrightarrow> k)"
  shows "best_of (cs @ [(n, k, h, e)])
     \<lparr>l_have = True, l_connected = k, l_length = n, l_next_hop = h, l_egress = Some e\<rparr>"
proof -
  have "better (n, k, h, e) y" if y: "y \<in> set cs" for y
  proof -
    from y have ne: "cs \<noteq> []" by auto
    from best_of_cand [OF assms(1) ne] y obtain e' where h: "l_have s"
      and b: "better (l_length s, l_connected s, l_next_hop s, e') y" by blast
    have "better (n, k, h, e) (l_length s, l_connected s, l_next_hop s, e')"
      using assms(2) h by (auto simp: better_def)
    from better_trans [OF this b] show ?thesis .
  qed
  moreover have "better (n, k, h, e) (n, k, h, e)" by (simp add: better_def)
  ultimately show ?thesis by (auto simp: best_of_def Let_def)
qed

section \<open>The search is longest-prefix match\<close>

lemma connected_loop:
  "best_of (map (\<lambda>r. (rif_prefix r, True, dst, r)) (filter (connected_match vr dst) rs))
     (foldl (connected_step vr dst) lpm_init rs)"
proof (induction rs rule: rev_induct)
  case Nil
  then show ?case by (simp add: best_of_def lpm_init_def)
next
  case (snoc r rs)
  let ?s = "foldl (connected_step vr dst) lpm_init rs"
  let ?m = "connected_match vr dst r"
  let ?better = "\<not> l_have ?s \<or> l_length ?s < rif_prefix r \<or> rif_prefix r = l_length ?s \<and> \<not> l_connected ?s"
  show ?case
  proof (cases ?m)
    case False
    then have "connected_step vr dst ?s r = ?s" by (auto simp: connected_step_def connected_match_def)
    with False snoc show ?thesis by simp
  next
    case m: True
    show ?thesis
    proof (cases ?better)
      case True
      then have "connected_step vr dst ?s r = \<lparr>l_have = True, l_connected = True,
          l_length = rif_prefix r, l_next_hop = dst, l_egress = Some r\<rparr>"
        using m by (simp add: connected_step_def connected_match_def)
      with m best_of_snoc_new [OF snoc, of "rif_prefix r" True dst r] True show ?thesis by auto
    next
      case False
      then have "connected_step vr dst ?s r = ?s" using m by (auto simp: connected_step_def connected_match_def)
      moreover have "rif_prefix r < l_length ?s \<or> rif_prefix r = l_length ?s \<and> l_connected ?s"
        using False by (auto simp: not_less order_le_less)
      ultimately show ?thesis
        using m False best_of_snoc_keep [OF snoc, of "(rif_prefix r, True, dst, r)"] by auto
    qed
  qed
qed

definition routes_resolve :: "router_config \<Rightarrow> u16 \<Rightarrow> router_route list \<Rightarrow> bool" where
  "routes_resolve c vr rts \<longleftrightarrow>
     (\<forall>rt\<in>set rts. rt_vr_id rt = vr \<longrightarrow>
        (\<exists>e. interface_in_vr c vr (rt_interface_id rt) = Some e \<and> rif_has_address e))"

definition static_candidate :: "router_config \<Rightarrow> u16 \<Rightarrow> u32 \<Rightarrow> router_route \<Rightarrow> candidate option" where
  "static_candidate c vr dst rt =
     (if rt_vr_id rt = vr \<and> dst AND prefix_mask (rt_length rt) = rt_prefix rt then
        (case interface_in_vr c vr (rt_interface_id rt) of
           None \<Rightarrow> None
         | Some e \<Rightarrow> if rif_has_address e then Some (rt_length rt, False, rt_gateway rt, e) else None)
      else None)"

lemma static_candidates_eq:
  "static_candidates c vr dst = List.map_filter (static_candidate c vr dst) (cfg_routes c)"
  by (simp add: static_candidates_def static_candidate_def [abs_def])

lemma map_filter_snoc:
  "List.map_filter f (xs @ [x]) =
     List.map_filter f xs @ (case f x of None \<Rightarrow> [] | Some y \<Rightarrow> [y])"
  by (simp add: map_filter_def split: option.splits)

lemma static_loop:
  assumes "best_of cs s0"
  shows "routes_resolve c vr rts \<Longrightarrow>
     best_of (cs @ List.map_filter (static_candidate c vr dst) rts)
       (foldl (static_step c vr dst) s0 rts)"
proof (induction rts rule: rev_induct)
  case Nil
  with assms show ?case by (simp add: map_filter_def)
next
  case (snoc rt rts)
  let ?cs = "cs @ List.map_filter (static_candidate c vr dst) rts"
  let ?s = "foldl (static_step c vr dst) s0 rts"
  have ih: "best_of ?cs ?s" using snoc by (simp add: routes_resolve_def)
  show ?case
  proof (cases "rt_vr_id rt = vr \<and> dst AND prefix_mask (rt_length rt) = rt_prefix rt")
    case False
    then have "static_step c vr dst ?s rt = ?s" "static_candidate c vr dst rt = None"
      by (auto simp: static_step_def static_candidate_def)
    with ih show ?thesis by (simp add: map_filter_snoc)
  next
    case m: True
    with snoc(2) obtain e where e: "interface_in_vr c vr (rt_interface_id rt) = Some e"
      "rif_has_address e" by (auto simp: routes_resolve_def)
    with m have cand: "static_candidate c vr dst rt = Some (rt_length rt, False, rt_gateway rt, e)"
      by (simp add: static_candidate_def)
    show ?thesis
    proof (cases "l_have ?s \<and> rt_length rt \<le> l_length ?s")
      case True
      then have "static_step c vr dst ?s rt = ?s" by (simp add: static_step_def)
      with True ih cand show ?thesis
        using best_of_snoc_keep [OF ih, of "(rt_length rt, False, rt_gateway rt, e)"]
        by (simp add: map_filter_snoc order_le_less)
    next
      case False
      then have "static_step c vr dst ?s rt = \<lparr>l_have = True, l_connected = False,
          l_length = rt_length rt, l_next_hop = rt_gateway rt, l_egress = Some e\<rparr>"
        using m e by (auto simp: static_step_def Let_def)
      moreover have "\<not> l_have ?s \<or> l_length ?s < rt_length rt \<or>
          l_length ?s = rt_length rt \<and> (l_connected ?s \<longrightarrow> False)"
        using False by (auto simp: not_le)
      ultimately show ?thesis
        using best_of_snoc_new [OF ih, of "rt_length rt" False "rt_gateway rt" e] cand
        by (simp add: map_filter_snoc)
    qed
  qed
qed

definition candidates :: "router_config \<Rightarrow> u16 \<Rightarrow> u32 \<Rightarrow> candidate list" where
  "candidates c vr dst = connected_candidates c vr dst @ static_candidates c vr dst"

lemma lpm_search_best:
  "routes_resolve c vr (cfg_routes c) \<Longrightarrow> best_of (candidates c vr dst) (lpm_search c vr dst)"
  unfolding lpm_search_def candidates_def static_candidates_eq
  by (rule static_loop) (simp_all add: connected_candidates_def connected_loop)

section \<open>Lookup in a well-formed configuration\<close>

lemma interface_in_vr_ref:
  assumes "config_wf c" "r \<in> set (cfg_interfaces c)" "rif_interface_id r = i" "rif_vr_id r = vr"
  shows "interface_in_vr c vr i = Some r"
  unfolding interface_in_vr_def
  using assms by (intro find_unique) (auto simp: config_wf_def intro: wf_interfaces_unique)

lemma config_wf_resolve:
  assumes "config_wf c"
  shows "routes_resolve c vr (cfg_routes c)"
  unfolding routes_resolve_def
proof (intro ballI impI)
  fix rt
  assume rt: "rt \<in> set (cfg_routes c)" "rt_vr_id rt = vr"
  with assms have "route_ok (cfg_interfaces c) rt" by (simp add: config_wf_def wf_routes_def)
  then obtain r where "r \<in> set (cfg_interfaces c)" "rif_interface_id r = rt_interface_id rt"
    "rif_vr_id r = vr" "rif_has_address r"
    using rt(2) by (auto simp: route_ok_def rif_ref_def gateway_ok_def)
  with interface_in_vr_ref [OF assms] show
    "\<exists>e. interface_in_vr c vr (rt_interface_id rt) = Some e \<and> rif_has_address e" by blast
qed

lemma lpm_search_spec:
  assumes "config_wf c"
  shows "(candidates c vr dst = [] \<longrightarrow> \<not> l_have (lpm_search c vr dst)) \<and>
    (candidates c vr dst \<noteq> [] \<longrightarrow>
      (\<exists>e. l_have (lpm_search c vr dst) \<and> l_egress (lpm_search c vr dst) = Some e \<and>
        (l_length (lpm_search c vr dst), l_connected (lpm_search c vr dst),
         l_next_hop (lpm_search c vr dst), e) \<in> set (candidates c vr dst) \<and>
        (\<forall>y\<in>set (candidates c vr dst). better (l_length (lpm_search c vr dst),
          l_connected (lpm_search c vr dst), l_next_hop (lpm_search c vr dst), e) y)))"
proof -
  have b: "best_of (candidates c vr dst) (lpm_search c vr dst)"
    by (rule lpm_search_best [OF config_wf_resolve [OF assms]])
  show ?thesis using b best_of_cand [OF b] by (auto simp: best_of_def)
qed

text \<open>The frame checks that precede the routing decision.\<close>

definition frame_accepted :: "router_interface \<Rightarrow> bytes \<Rightarrow> bool" where
  "frame_accepted ing f \<longleftrightarrow>
     34 \<le> length f \<and> ethertype_ipv4 f \<and> rif_has_address ing \<and> slice f 0 6 = rif_mac ing \<and>
     ip_version_ok f \<and> ip_header_ok f \<and> ip_total_ok f"

lemma lookup_forward_aux:
  assumes wf: "config_wf c" and fwd: "lookup_with_ingress c (Some ing) f = (ROUTER_IPV4_FORWARD, d)"
  shows "frame_accepted ing f \<and> 1 < f ! 22 \<and> \<not> is_local c (rif_vr_id ing) (read32 f 30) \<and>
    d_vr_id d = rif_vr_id ing \<and> d_destination_ip d = read32 f 30 \<and> d_source_ip d = read32 f 26 \<and>
    (\<exists>e. (d_prefix_length d, d_connected d, d_next_hop_ip d, e)
           \<in> set (candidates c (rif_vr_id ing) (read32 f 30)) \<and>
         d_egress_interface_id d = rif_interface_id e \<and> d_egress_vswitch_id d = rif_vswitch_id e \<and>
         (\<forall>y\<in>set (candidates c (rif_vr_id ing) (read32 f 30)).
            better (d_prefix_length d, d_connected d, d_next_hop_ip d, e) y))"
proof -
  let ?s = "lpm_search c (rif_vr_id ing) (read32 f 30)"
  from fwd obtain e where e: "l_have ?s" "l_egress ?s = Some e"
    "frame_accepted ing f" "1 < f ! 22" "\<not> is_local c (rif_vr_id ing) (read32 f 30)"
    "d_vr_id d = rif_vr_id ing" "d_destination_ip d = read32 f 30" "d_source_ip d = read32 f 26"
    "d_prefix_length d = l_length ?s" "d_connected d = l_connected ?s"
    "d_next_hop_ip d = l_next_hop ?s" "d_egress_interface_id d = rif_interface_id e"
    "d_egress_vswitch_id d = rif_vswitch_id e"
    by (auto simp: lookup_with_ingress_def Let_def frame_accepted_def frame_consts not_less not_le
        split: if_splits option.splits bool.splits)
  with lpm_search_spec [OF wf, of "rif_vr_id ing" "read32 f 30"] show ?thesis by auto
qed

lemma lookup_no_route_aux:
  assumes wf: "config_wf c" and acc: "frame_accepted ing f"
    and "drop_bit 28 (read32 f 30) \<noteq> 14" "read32 f 30 \<noteq> - 1"
    "\<not> is_local c (rif_vr_id ing) (read32 f 30)" "1 < f ! 22"
  shows "fst (lookup_with_ingress c (Some ing) f) =
    (if candidates c (rif_vr_id ing) (read32 f 30) = [] then ROUTER_IPV4_NO_ROUTE
     else ROUTER_IPV4_FORWARD)"
  using assms lpm_search_spec [OF wf, of "rif_vr_id ing" "read32 f 30"]
  by (auto simp: lookup_with_ingress_def Let_def frame_accepted_def frame_consts not_le
      split: option.splits bool.splits)

section \<open>The rewritten frame\<close>

lemma ip_header_length_bounds:
  "ip_version_ok f \<Longrightarrow> 20 \<le> ip_header_length f \<and> ip_header_length f \<le> 60"
proof -
  assume "ip_version_ok f"
  then have "5 \<le> unat (f ! 14 AND 15)"
    by (simp add: ip_version_ok_def not_less word_le_nat_alt)
  moreover have "unat (f ! 14 AND 15) \<le> 15"
  proof -
    have "f ! 14 AND 15 = take_bit 4 (f ! 14)" by (simp add: take_bit_eq_mask mask_eq_exp_minus_1)
    then have "unat (f ! 14 AND 15) = unat (f ! 14) mod 16" by (simp add: take_bit_eq_mod unat_mod)
    then show ?thesis by simp
  qed
  ultimately show ?thesis by (simp add: ip_header_length_def)
qed

lemma slice_write16:
  "i \<le> k \<Longrightarrow> Suc k < i + n \<Longrightarrow> i + n \<le> length p \<Longrightarrow>
   slice (write16 p k v) i n = write16 (slice p i n) (k - i) v"
  unfolding write16_def slice_def
  by (rule nth_equalityI) (auto simp: nth_list_update)

lemma slice_cong:
  assumes "length p = length q" "i + n \<le> length p" "\<And>j. i \<le> j \<Longrightarrow> j < i + n \<Longrightarrow> p ! j = q ! j"
  shows "slice p i n = slice q i n"
  using assms by (intro nth_equalityI) (auto simp: slice_def)

lemma length_rewrite_header [simp]: "length (rewrite_header out n) = length out"
  by (simp add: rewrite_header_def Let_def)

lemma rewrite_header_checksum:
  assumes "20 \<le> n" "14 + n \<le> length out" "n \<le> 60"
  shows "checksum (slice (rewrite_header out n) 14 n) = 0"
proof -
  define o1 where "o1 = out[22 := out ! 22 - 1, 24 := 0, 25 := 0]"
  have len: "length o1 = length out" by (simp add: o1_def)
  have ls: "length (slice o1 14 n) = n" using assms(2) len by (simp add: length_slice)
  have z: "slice o1 14 n ! 10 = 0" "slice o1 14 n ! 11 = 0"
    using assms len by (simp_all add: nth_slice o1_def nth_list_update)
  have "slice (rewrite_header out n) 14 n = write16 (slice o1 14 n) 10 (checksum (slice o1 14 n))"
    using assms(1,2) len slice_write16 [of 14 24 n o1 "checksum (slice o1 14 n)"]
    by (simp add: rewrite_header_def o1_def [symmetric] Let_def)
  also have "checksum \<dots> = 0"
    using assms(1,3) ls z by (intro checksum_store_all) simp_all
  finally show ?thesis .
qed

lemma rewrite_header_nth:
  assumes "j < length out"
  shows "j \<notin> {22, 24, 25} \<Longrightarrow> rewrite_header out n ! j = out ! j"
    and "j = 22 \<Longrightarrow> rewrite_header out n ! j = out ! 22 - 1"
  using assms by (auto simp: rewrite_header_def Let_def write16_def nth_list_update)

lemma rewrite_aux:
  assumes rw: "router_ipv4_rewrite f sm dm cap = Some out" and mac: "length sm = 6" "length dm = 6"
  defines "tot \<equiv> unat (read16 f 16)"
  shows "length out = max 60 (14 + tot) \<and> length out \<le> cap \<and>
    slice out 0 6 = dm \<and> slice out 6 6 = sm \<and> ethertype_ipv4 out \<and>
    out ! 22 = f ! 22 - 1 \<and> 1 < f ! 22 \<and>
    (\<forall>j. 14 \<le> j \<and> j < 14 + tot \<and> j \<notin> {22, 24, 25} \<longrightarrow> out ! j = f ! j) \<and>
    (\<forall>j. 14 + tot \<le> j \<and> j < length out \<longrightarrow> out ! j = 0) \<and>
    checksum (slice out 14 (ip_header_length f)) = 0"
proof -
  define n where "n = (if 14 + tot < 60 then 60 else 14 + tot)"
  define o0 where "o0 = memcpy_at (memcpy_at (replicate n 0) 0 dm) 6 sm"
  define o2 where "o2 = memcpy_at (o0[12 := 8, 13 := 0]) 14 (slice f 14 tot)"
  from rw have ok: "34 \<le> length f" "ip_version_ok f" "1 < f ! 22" "n \<le> cap"
      "ip_header_length f \<le> tot" "14 + tot \<le> length f"
    and out: "out = rewrite_header o2 (ip_header_length f)"
    unfolding router_ipv4_rewrite_def n_def o2_def o0_def tot_def
    by (auto simp: Let_def frame_consts ip_total_ok_def not_less not_le le_diff_conv2 split: if_splits)
  have h: "20 \<le> ip_header_length f" "ip_header_length f \<le> 60"
    using ip_header_length_bounds [OF ok(2)] by auto
  have n60: "60 \<le> n" "14 + tot \<le> n" by (auto simp: n_def)
  have l0: "length o0 = n" using mac n60 by (simp add: o0_def length_memcpy_at)
  have sl: "length (slice f 14 tot) = tot" using ok(6) by (simp add: length_slice)
  have l2: "length o2 = n" using l0 n60 sl by (simp add: o2_def length_memcpy_at)
  have lo: "length out = n" using l2 by (simp add: out)
  have o0: "o0 ! j = (if j < 6 then dm ! j else if j < 12 then sm ! (j - 6) else 0)" if "j < n" for j
    using that mac n60 by (auto simp: o0_def nth_memcpy_at length_memcpy_at)
  have o2: "o2 ! j = (if j < 6 then dm ! j else if j < 12 then sm ! (j - 6) else if j = 12 then 8
      else if j = 13 then 0 else if j < 14 + tot then f ! j else 0)" if "j < n" for j
    using that l0 n60 sl o0 [OF that] ok(6)
    by (auto simp: o2_def nth_memcpy_at nth_slice nth_list_update)
  have o: "out ! j = o2 ! j" if "j < n" "j \<notin> {22, 24, 25}" for j
    using that l2 rewrite_header_nth(1) [of j o2] by (simp add: out)
  have "out ! 22 = f ! 22 - 1"
    using l2 n60 h ok(5) o2 [of 22] rewrite_header_nth(2) [of 22 o2] by (simp add: out)
  moreover have "slice out 0 6 = dm" "slice out 6 6 = sm"
    using mac lo n60 o o2 by (auto intro!: nth_equalityI simp: length_slice nth_slice)
  moreover have "ethertype_ipv4 out"
    using n60 o o2 by (simp add: ethertype_ipv4_def)
  moreover have "checksum (slice out 14 (ip_header_length f)) = 0"
    unfolding out using h l2 n60 ok(5) by (intro rewrite_header_checksum) simp_all
  moreover have "out ! j = f ! j" if "14 \<le> j" "j < 14 + tot" "j \<notin> {22, 24, 25}" for j
    using that n60 o [of j] o2 [of j] by simp
  moreover have "out ! j = 0" if "14 + tot \<le> j" "j < length out" for j
  proof -
    have "26 \<le> j" using that(1) h ok(5) by simp
    with that lo o [of j] o2 [of j] show ?thesis by simp
  qed
  moreover have "length out = max 60 (14 + tot)" by (simp add: lo n_def max_def)
  ultimately show ?thesis using ok(3,4) lo by simp
qed

text \<open>The forwarded frame passes the header checks of the next router.\<close>

lemma rewrite_reaccepted:
  assumes "router_ipv4_rewrite f sm dm cap = Some out" "length sm = 6" "length dm = 6"
  shows "ip_version_ok out \<and> ip_header_ok out \<and> ip_total_ok out"
proof -
  note r = rewrite_aux [OF assms]
  let ?t = "unat (read16 f 16)"
  from assms(1) have v: "ip_version_ok f" "ip_total_ok f" "34 \<le> length f"
    by (auto simp: router_ipv4_rewrite_def Let_def frame_consts split: if_splits)
  have h: "20 \<le> ip_header_length f" "ip_header_length f \<le> ?t"
    using ip_header_length_bounds [OF v(1)] v(2) by (auto simp: ip_total_ok_def)
  have b: "out ! 14 = f ! 14" "out ! 16 = f ! 16" "out ! 17 = f ! 17" using r h by auto
  then have "ip_header_length out = ip_header_length f" "read16 out 16 = read16 f 16"
    by (simp_all add: ip_header_length_def read16_def)
  with r h b v(1) show ?thesis
    by (auto simp: ip_version_ok_def ip_header_ok_def ip_total_ok_def frame_consts)
qed

section \<open>Properties\<close>

text \<open>C3: A forwarded packet passed every frame check, is not addressed to the router, has time to
  live left, and leaves by the best live route of its virtual router: the longest matching
  prefix, a connected route winning a tie; the next hop and egress interface are that route's.\<close>

theorem lookup_forwards_best:
  assumes wf: "config_wf c" and fwd: "lookup_with_ingress c (Some ing) f = (ROUTER_IPV4_FORWARD, d)"
  shows "frame_accepted ing f \<and> 1 < f ! 22 \<and> \<not> is_local c (rif_vr_id ing) (read32 f 30) \<and>
    d_vr_id d = rif_vr_id ing \<and> d_destination_ip d = read32 f 30 \<and> d_source_ip d = read32 f 26 \<and>
    (\<exists>e. (d_prefix_length d, d_connected d, d_next_hop_ip d, e)
           \<in> set (candidates c (rif_vr_id ing) (read32 f 30)) \<and>
         d_egress_interface_id d = rif_interface_id e \<and> d_egress_vswitch_id d = rif_vswitch_id e \<and>
         (\<forall>y\<in>set (candidates c (rif_vr_id ing) (read32 f 30)).
            better (d_prefix_length d, d_connected d, d_next_hop_ip d, e) y))"
  by (rule lookup_forward_aux [OF assms])

lemma sample_lookup: "fst (lookup_with_ingress sample_config (Some lan_rif) udp_out) = ROUTER_IPV4_FORWARD"
  by code_simp

theorem lookup_forwards_best_witness:
  "frame_accepted lan_rif udp_out \<and>
   d_next_hop_ip (snd (lookup_with_ingress sample_config (Some lan_rif) udp_out)) = 0xC0000201"
proof -
  have "lookup_with_ingress sample_config (Some lan_rif) udp_out =
      (ROUTER_IPV4_FORWARD, snd (lookup_with_ingress sample_config (Some lan_rif) udp_out))"
    using sample_lookup by (metis prod.collapse)
  note P = lookup_forwards_best [OF sample_wf this]
  have "d_next_hop_ip (snd (lookup_with_ingress sample_config (Some lan_rif) udp_out)) = 0xC0000201"
    by code_simp
  with P show ?thesis by blast
qed

text \<open>C9: An accepted unicast packet that is not for the router and has time to live left is forwarded
  exactly when some live route of its virtual router matches; otherwise the result is NO_ROUTE.\<close>

theorem lookup_total:
  assumes wf: "config_wf c" and acc: "frame_accepted ing f"
    and "drop_bit 28 (read32 f 30) \<noteq> 14" "read32 f 30 \<noteq> - 1"
    "\<not> is_local c (rif_vr_id ing) (read32 f 30)" "1 < f ! 22"
  shows "fst (lookup_with_ingress c (Some ing) f) =
    (if candidates c (rif_vr_id ing) (read32 f 30) = [] then ROUTER_IPV4_NO_ROUTE
     else ROUTER_IPV4_FORWARD)"
  by (rule lookup_no_route_aux [OF assms])

theorem lookup_total_witness: "candidates sample_config 1 0xC6336409 \<noteq> []"
proof -
  have a: "frame_accepted lan_rif udp_out" by code_simp
  have d: "drop_bit 28 (read32 udp_out 30) \<noteq> 14" "read32 udp_out 30 \<noteq> - 1"
    "\<not> is_local sample_config (rif_vr_id lan_rif) (read32 udp_out 30)" "1 < udp_out ! 22" by code_simp+
  have "read32 udp_out 30 = 0xC6336409" "rif_vr_id lan_rif = 1" by code_simp+
  with lookup_total [OF sample_wf a d] sample_lookup show ?thesis by (auto split: if_splits)
qed

text \<open>C10: The forwarded frame is the received IP packet with new MAC addresses, the time to live
  decremented and a valid header checksum, every other byte of the packet unchanged, padded
  with zeros to the Ethernet minimum, never longer than the buffer, and again acceptable to a
  router.\<close>

theorem rewrite_correct:
  assumes rw: "router_ipv4_rewrite f sm dm cap = Some out" and mac: "length sm = 6" "length dm = 6"
  shows "length out = max 60 (14 + unat (read16 f 16)) \<and> length out \<le> cap \<and>
    slice out 0 6 = dm \<and> slice out 6 6 = sm \<and> ethertype_ipv4 out \<and>
    out ! 22 = f ! 22 - 1 \<and> 1 < f ! 22 \<and>
    (\<forall>j. 14 \<le> j \<and> j < 14 + unat (read16 f 16) \<and> j \<notin> {22, 24, 25} \<longrightarrow> out ! j = f ! j) \<and>
    (\<forall>j. 14 + unat (read16 f 16) \<le> j \<and> j < length out \<longrightarrow> out ! j = 0) \<and>
    checksum (slice out 14 (ip_header_length f)) = 0 \<and>
    ip_version_ok out \<and> ip_header_ok out \<and> ip_total_ok out"
  using rewrite_aux [OF assms] rewrite_reaccepted [OF assms] by blast

theorem rewrite_correct_witness:
  "\<exists>out. router_ipv4_rewrite udp_out (rif_mac wan_rif) [2, 0, 0, 0, 0, 9] 60 = Some out \<and>
     length out = 60 \<and> out ! 22 = 63 \<and> ip_header_ok out"
proof -
  have "router_ipv4_rewrite udp_out (rif_mac wan_rif) [2, 0, 0, 0, 0, 9] 60 \<noteq> None" by code_simp
  then obtain out where o: "router_ipv4_rewrite udp_out (rif_mac wan_rif) [2, 0, 0, 0, 0, 9] 60 = Some out"
    by auto
  have "length (rif_mac wan_rif) = 6" "udp_out ! 22 = 64" "read16 udp_out 16 = 28" by code_simp+
  with rewrite_correct [OF o] o show ?thesis by auto
qed

end
