(* ===== verification/Router_Arp.thy ===== *)
theory Router_Arp
  imports Router_Forward
begin

text \<open>
  ARP for the addresses the router owns: \<^verbatim>\<open>router/router_arp.c\<close>.  Replies and requests are
  60-byte frames; \<open>None\<close> is the return value 0.
\<close>

section \<open>Frames\<close>

definition broadcast_mac :: mac where "broadcast_mac = replicate 6 255"

text \<open>Ethernet type, hardware and protocol types and address sizes of an ARP frame.\<close>

definition arp_header :: "bytes \<Rightarrow> bool" where
  "arp_header p \<longleftrightarrow> p ! 12 = 8 \<and> p ! 13 = 6 \<and> p ! 14 = 0 \<and> p ! 15 = 1 \<and>
     p ! 16 = 8 \<and> p ! 17 = 0 \<and> p ! 18 = 6 \<and> p ! 19 = 4"

definition arp_reply_for_interface :: "router_interface \<Rightarrow> bytes \<Rightarrow> nat \<Rightarrow> bytes option" where
  "arp_reply_for_interface rif p capacity =
     (if length p < 42 \<or> capacity < 60 \<or> \<not> rif_has_address rif then None
      else if \<not> arp_header p \<or> p ! 20 \<noteq> 0 \<or> p ! 21 \<noteq> 1 then None
      else if foldl (OR) 0 (slice p 22 6) = 0 \<or> p ! 22 AND 1 \<noteq> 0 \<or> slice p 6 6 \<noteq> slice p 22 6
        then None
      else if rif_address rif \<noteq> read32 p 38 \<or> slice p 22 6 = rif_mac rif then None
      else if slice p 0 6 \<noteq> broadcast_mac \<and> slice p 0 6 \<noteq> rif_mac rif then None
      else if read32 p 28 = rif_address rif then None
      else
        let o0 = replicate 60 0;
            o1 = memcpy_at (memcpy_at o0 0 (slice p 22 6)) 6 (rif_mac rif);
            o2 = (memcpy_at o1 12 (slice p 12 10))[21 := 2];
            o3 = memcpy_at (memcpy_at o2 22 (rif_mac rif)) 28 (slice p 38 4) in
        Some (memcpy_at (memcpy_at o3 32 (slice p 22 6)) 38 (slice p 28 4)))"

definition router_arp_reply :: "router_config \<Rightarrow> u16 \<Rightarrow> bytes \<Rightarrow> nat \<Rightarrow> bytes option" where
  "router_arp_reply c vs p capacity =
     (if vs = 0 then None
      else case find (\<lambda>r. rif_attachment r = ROUTER_VSWITCH \<and> rif_vswitch_id r = vs \<and>
                  rif_has_address r \<and> length p \<ge> 42 \<and> rif_address r = read32 p 38)
                (cfg_interfaces c) of
        None \<Rightarrow> None
      | Some r \<Rightarrow> arp_reply_for_interface r p capacity)"

definition router_arp_reply_interface :: "router_config \<Rightarrow> u16 \<Rightarrow> bytes \<Rightarrow> nat \<Rightarrow> bytes option" where
  "router_arp_reply_interface c i p capacity =
     (if i = 0 then None
      else case interface_by_id c i of
        None \<Rightarrow> None
      | Some r \<Rightarrow> arp_reply_for_interface r p capacity)"

definition router_arp_request :: "router_interface \<Rightarrow> u32 \<Rightarrow> nat \<Rightarrow> bytes option" where
  "router_arp_request rif target capacity =
     (if capacity < 60 \<or> target = 0 \<or> \<not> rif_has_address rif \<or> rif_mac rif ! 0 AND 1 \<noteq> 0 then None
      else if target AND prefix_mask (rif_prefix rif) \<noteq> rif_address rif AND prefix_mask (rif_prefix rif) \<or>
              target = rif_address rif then None
      else
        let o0 = replicate 60 0;
            o1 = memcpy_at (memcpy_at o0 0 broadcast_mac) 6 (rif_mac rif);
            o2 = o1[12 := 8, 13 := 6, 14 := 0, 15 := 1, 16 := 8, 17 := 0, 18 := 6, 19 := 4,
                    20 := 0, 21 := 1];
            o3 = write32 (memcpy_at o2 22 (rif_mac rif)) 28 (rif_address rif) in
        Some (write32 o3 38 target))"

section \<open>Contents\<close>

lemma length6: "length (m :: mac) = 6 \<Longrightarrow> m = [m ! 0, m ! 1, m ! 2, m ! 3, m ! 4, m ! 5]"
  by (auto simp: eval_nat_numeral length_Suc_conv)

lemma slice6: "i + 6 \<le> length p \<Longrightarrow>
  slice p i 6 = [p ! i, p ! (i + 1), p ! (i + 2), p ! (i + 3), p ! (i + 4), p ! (i + 5)]"
  using length6 [of "slice p i 6"] by (simp add: length_slice nth_slice)

lemma arp_reply_nth:
  assumes r: "arp_reply_for_interface rif p cap = Some out" and m: "length (rif_mac rif) = 6"
  shows "length out = 60 \<and>
    (\<forall>j<60. out ! j =
      (if j < 6 then p ! (22 + j) else if j < 12 then rif_mac rif ! (j - 6)
       else if j = 21 then 2 else if j < 22 then p ! j
       else if j < 28 then rif_mac rif ! (j - 22) else if j < 32 then p ! (38 + (j - 28))
       else if j < 38 then p ! (22 + (j - 32)) else if j < 42 then p ! (28 + (j - 38)) else 0))"
proof -
  from r have l: "42 \<le> length p"
    and out: "out = memcpy_at (memcpy_at (memcpy_at (memcpy_at
      ((memcpy_at (memcpy_at (memcpy_at (replicate 60 0) 0 (slice p 22 6)) 6 (rif_mac rif)) 12
         (slice p 12 10))[21 := 2]) 22 (rif_mac rif)) 28 (slice p 38 4)) 32 (slice p 22 6)) 38 (slice p 28 4)"
    by (auto simp: arp_reply_for_interface_def Let_def split: if_splits)
  have s: "length (slice p 22 6) = 6" "length (slice p 12 10) = 10" "length (slice p 38 4) = 4"
    "length (slice p 28 4) = 4" using l by (simp_all add: length_slice)
  show ?thesis
    using l s m
    by (simp add: out length_memcpy_at) (auto simp: nth_memcpy_at length_memcpy_at nth_list_update nth_slice)
qed

text \<open>The reply as a receiver reads it.\<close>

lemma arp_reply_fields:
  assumes r: "arp_reply_for_interface rif p cap = Some out" and m: "length (rif_mac rif) = 6"
  shows "length out = 60 \<and> slice out 0 6 = slice p 22 6 \<and> slice out 6 6 = rif_mac rif \<and>
    arp_header out \<and> out ! 20 = 0 \<and> out ! 21 = 2 \<and> slice out 22 6 = rif_mac rif \<and>
    read32 out 28 = rif_address rif \<and> slice out 32 6 = slice p 22 6 \<and> read32 out 38 = read32 p 28"
proof -
  note n = arp_reply_nth [OF r m]
  from r have p: "42 \<le> length p" "arp_header p" "p ! 20 = 0" "rif_address rif = read32 p 38"
    by (auto simp: arp_reply_for_interface_def Let_def split: if_splits)
  have "slice out 0 6 = slice p 22 6" "slice out 6 6 = rif_mac rif" "slice out 22 6 = rif_mac rif"
    "slice out 32 6 = slice p 22 6"
    using n p(1) m by (auto intro!: nth_equalityI simp: length_slice nth_slice)
  moreover have "read32 out 28 = read32 p 38" "read32 out 38 = read32 p 28"
    using n by (auto intro!: read32_cong)
  moreover have "arp_header out" "out ! 20 = 0" "out ! 21 = 2" using n p by (auto simp: arp_header_def)
  ultimately show ?thesis using n p(4) by simp
qed

lemma arp_request_fields:
  assumes r: "router_arp_request rif target cap = Some out" and m: "length (rif_mac rif) = 6"
  shows "length out = 60 \<and> slice out 0 6 = broadcast_mac \<and> slice out 6 6 = rif_mac rif \<and>
    arp_header out \<and> out ! 20 = 0 \<and> out ! 21 = 1 \<and> slice out 22 6 = rif_mac rif \<and>
    read32 out 28 = rif_address rif \<and> read32 out 38 = target"
proof -
  define o1 where "o1 = memcpy_at (memcpy_at (replicate 60 (0::u8)) 0 broadcast_mac) 6 (rif_mac rif)"
  define o2 where "o2 = o1[12 := 8, 13 := 6, 14 := 0, 15 := 1, 16 := 8, 17 := 0, 18 := 6, 19 := 4,
                    20 := 0, 21 := 1]"
  define o3 where "o3 = memcpy_at o2 22 (rif_mac rif)"
  define o4 where "o4 = write32 o3 28 (rif_address rif)"
  from r have out: "out = write32 o4 38 target"
    unfolding o4_def o3_def o2_def o1_def
    by (auto simp: router_arp_request_def Let_def split: if_splits)
  have b: "length broadcast_mac = 6" by (simp add: broadcast_mac_def)
  have l: "length o1 = 60" "length o2 = 60" "length o3 = 60" "length o4 = 60"
    using m b by (simp_all add: o1_def o2_def o3_def o4_def length_memcpy_at)
  have "slice out 0 6 = broadcast_mac" "slice out 6 6 = rif_mac rif" "slice out 22 6 = rif_mac rif"
    using m b l
    by (auto intro!: nth_equalityI simp: length_slice nth_slice out o4_def o3_def o2_def o1_def
        write32_nth_other nth_memcpy_at length_memcpy_at nth_list_update)
  moreover have "arp_header out \<and> out ! 20 = 0 \<and> out ! 21 = 1"
    using m b l
    by (simp add: arp_header_def out o4_def o3_def write32_nth_other nth_memcpy_at)
      (simp add: o2_def nth_list_update)
  moreover have "read32 out 28 = read32 o4 28"
    unfolding out by (rule read32_cong) (simp_all add: write32_nth_other)
  moreover have "read32 o4 28 = rif_address rif" using l by (simp add: o4_def)
  moreover have "read32 out 38 = target" using l by (simp add: out)
  moreover have "length out = 60" using l by (simp add: out)
  ultimately show ?thesis by simp
qed

section \<open>A request is answered\<close>

text \<open>Two RIFs of one segment: distinct addresses and MACs, each address in the other's subnet.\<close>

lemma foldl_or_nz: "\<exists>b\<in>set m. b \<noteq> 0 \<Longrightarrow> foldl (OR) (a :: u8) m \<noteq> 0"
proof -
  have keep: "a \<noteq> 0 \<Longrightarrow> foldl (OR) a m \<noteq> 0" for a :: u8 and m
    by (induction m arbitrary: a) (simp_all add: or_eq_0_iff)
  show "\<exists>b\<in>set m. b \<noteq> 0 \<Longrightarrow> foldl (OR) a m \<noteq> 0"
  proof (induction m arbitrary: a)
    case (Cons x m)
    show ?case
    proof (cases "x = 0")
      case True
      with Cons show ?thesis by simp
    next
      case False
      then show ?thesis by (simp add: keep or_eq_0_iff)
    qed
  qed simp
qed

lemma arp_exchange:
  assumes req: "router_arp_request a (rif_address b) cap = Some q"
    and mac: "mac_ok (rif_mac a)" "length (rif_mac b) = 6" "rif_mac a \<noteq> rif_mac b"
    and b: "rif_has_address b" and cap: "60 \<le> cap'"
  shows "\<exists>out. arp_reply_for_interface b q cap' = Some out"
proof -
  have ma: "length (rif_mac a) = 6" "rif_mac a ! 0 AND 1 = 0" "\<exists>b\<in>set (rif_mac a). b \<noteq> 0"
    using mac(1) by (auto simp: mac_ok_def)
  note f = arp_request_fields [OF req ma(1)]
  from req have ne: "rif_address b \<noteq> rif_address a"
    by (auto simp: router_arp_request_def split: if_splits)
  have "q ! 22 = rif_mac a ! 0" using f nth_slice [of 0 6 22 q] by simp
  then have "q ! 22 AND 1 = 0" using ma(2) by simp
  moreover have "foldl (OR) 0 (slice q 22 6) \<noteq> (0 :: u8)" using f foldl_or_nz [OF ma(3)] by simp
  ultimately show ?thesis
    using f ne mac(3) b cap by (auto simp: arp_reply_for_interface_def Let_def)
qed

section \<open>Properties\<close>

text \<open>An ARP reply goes to the asker, from the interface's MAC, as a 60-byte Ethernet/IPv4 reply that
  binds the interface's address to its MAC and names the asker's MAC and address as the target.\<close>

lemma arp_reply_correct:
  assumes r: "arp_reply_for_interface rif p cap = Some out" and m: "length (rif_mac rif) = 6"
  shows "length out = 60 \<and> slice out 0 6 = slice p 22 6 \<and> slice out 6 6 = rif_mac rif \<and>
    arp_header out \<and> out ! 20 = 0 \<and> out ! 21 = 2 \<and> slice out 22 6 = rif_mac rif \<and>
    read32 out 28 = rif_address rif \<and> slice out 32 6 = slice p 22 6 \<and> read32 out 38 = read32 p 28"
  by (rule arp_reply_fields [OF assms])

end
