(* ===== verification/Slots.thy ===== *)
theory Slots
  imports Prelude
begin

text \<open>
  Fixed arrays of slots with a \<open>used\<close> flag and a counter of live entries, the storage scheme of
  the neighbor table, the pending-packet queue and the NAT session table.  An array of \<open>n\<close>
  slots is a function on the indices below \<open>n\<close>.  The locale \<open>slot_table\<close> states what the
  schemes have in common (a zeroed slot is unused) and proves the counter exact; the locale
  \<open>keyed_table\<close> adds that live entries have distinct keys.
\<close>

section \<open>Operations\<close>

text \<open>The first slot satisfying a test, as the search loops find it.\<close>

definition first_slot :: "('e \<Rightarrow> bool) \<Rightarrow> nat \<Rightarrow> (nat \<Rightarrow> 'e) \<Rightarrow> nat option" where
  "first_slot P n e = find (\<lambda>i. P (e i)) [0..<n]"

definition slots_counted :: "('e \<Rightarrow> bool) \<Rightarrow> nat \<Rightarrow> (nat \<Rightarrow> 'e) \<Rightarrow> nat \<Rightarrow> bool" where
  "slots_counted used n e c \<longleftrightarrow> c = card {i. i < n \<and> used (e i)}"

text \<open>The sweep loops: every live slot satisfying \<open>P\<close> is zeroed, the counter decremented and the
  number of removed entries counted.\<close>

definition sweep_step ::
  "('e \<Rightarrow> bool) \<Rightarrow> 'e \<Rightarrow> ('e \<Rightarrow> bool) \<Rightarrow> (nat \<Rightarrow> 'e) \<times> nat \<times> nat \<Rightarrow> nat \<Rightarrow> (nat \<Rightarrow> 'e) \<times> nat \<times> nat" where
  "sweep_step used zero P st i =
     (let (e, c, k) = st in
      if used (e i) \<and> P (e i) then (e(i := zero), c - 1, k + 1) else (e, c, k))"

lemma sweep_step_apply:
  "sweep_step used zero P (e, c, k) i =
     (if used (e i) \<and> P (e i) then (e(i := zero), c - 1, k + 1) else (e, c, k))"
  by (simp add: sweep_step_def)

definition sweep ::
  "('e \<Rightarrow> bool) \<Rightarrow> 'e \<Rightarrow> ('e \<Rightarrow> bool) \<Rightarrow> nat \<Rightarrow> (nat \<Rightarrow> 'e) \<Rightarrow> nat \<Rightarrow> (nat \<Rightarrow> 'e) \<times> nat \<times> nat" where
  "sweep used zero P n e c = foldl (sweep_step used zero P) (e, c, 0) [0..<n]"

definition keys_distinct :: "('e \<Rightarrow> bool) \<Rightarrow> ('e \<Rightarrow> 'k) \<Rightarrow> nat \<Rightarrow> (nat \<Rightarrow> 'e) \<Rightarrow> bool" where
  "keys_distinct used key n e \<longleftrightarrow>
     (\<forall>i<n. \<forall>j<n. used (e i) \<and> used (e j) \<and> key (e i) = key (e j) \<longrightarrow> i = j)"

section \<open>Searching\<close>

lemma find_upt_Some:
  "find P [0..<n] = Some i \<longleftrightarrow> i < n \<and> P i \<and> (\<forall>j<i. \<not> P j)"
  by (auto simp: find_Some_iff)

lemma first_slot_Some:
  "first_slot P n e = Some i \<longleftrightarrow> i < n \<and> P (e i) \<and> (\<forall>j<i. \<not> P (e j))"
  by (simp add: first_slot_def find_upt_Some)

lemma first_slot_SomeD: "first_slot P n e = Some i \<Longrightarrow> i < n \<and> P (e i)"
  by (simp add: first_slot_Some)

lemma first_slot_None: "first_slot P n e = None \<longleftrightarrow> (\<forall>i<n. \<not> P (e i))"
  by (auto simp: first_slot_def find_None_iff)

lemma first_slot_unique:
  assumes "i < n" "P (e i)" "\<And>j. j < n \<Longrightarrow> P (e j) \<Longrightarrow> j = i"
  shows "first_slot P n e = Some i"
proof -
  have "\<not> P (e j)" if "j < i" for j
    using assms(3) [of j] assms(1) that by (cases "P (e j)") simp_all
  with assms(1,2) show ?thesis by (simp add: first_slot_Some)
qed

section \<open>Counted tables\<close>

locale slot_table =
  fixes used :: "'e \<Rightarrow> bool" and zero :: 'e
  assumes zero_unused: "\<not> used zero"
begin

lemma counted_zero: "slots_counted used n (\<lambda>_. zero) 0"
  by (simp add: slots_counted_def zero_unused)

lemma counted_alloc:
  assumes "slots_counted used n e c" "i < n" "\<not> used (e i)" "used x"
  shows "slots_counted used n (e(i := x)) (Suc c)"
proof -
  have "{j. j < n \<and> used ((e(i := x)) j)} = insert i {j. j < n \<and> used (e j)}"
    using assms(2,4) by auto
  with assms(1,3) show ?thesis by (simp add: slots_counted_def)
qed

lemma counted_keep:
  assumes "slots_counted used n e c" "used x = used (e i)"
  shows "slots_counted used n (e(i := x)) c"
proof -
  have "{j. j < n \<and> used ((e(i := x)) j)} = {j. j < n \<and> used (e j)}" using assms(2) by auto
  with assms(1) show ?thesis by (simp add: slots_counted_def)
qed

lemma counted_release:
  assumes "slots_counted used n e c" "i < n" "used (e i)"
  shows "slots_counted used n (e(i := zero)) (c - 1)" "0 < c"
proof -
  let ?S = "{j. j < n \<and> used (e j)}"
  have "{j. j < n \<and> used ((e(i := zero)) j)} = ?S - {i}" using zero_unused by auto
  moreover have "i \<in> ?S" "finite ?S" using assms by auto
  ultimately show "slots_counted used n (e(i := zero)) (c - 1)" "0 < c"
    using assms(1) by (auto simp: slots_counted_def card_gt_0_iff)
qed

lemma counted_le: "slots_counted used n e c \<Longrightarrow> c \<le> n"
  using card_mono [of "{..<n}" "{i. i < n \<and> used (e i)}"] by (auto simp: slots_counted_def)

lemma counted_full:
  "slots_counted used n e c \<Longrightarrow> (\<exists>i<n. \<not> used (e i)) \<longleftrightarrow> c < n"
proof -
  assume c: "slots_counted used n e c"
  let ?S = "{i. i < n \<and> used (e i)}"
  have sub: "?S \<subseteq> {..<n}" by auto
  show ?thesis
  proof (cases "\<exists>i<n. \<not> used (e i)")
    case True
    then have "?S \<subset> {..<n}" by auto
    from psubset_card_mono [OF _ this] True c show ?thesis by (simp add: slots_counted_def)
  next
    case False
    then have "?S = {..<n}" by auto
    with False c show ?thesis by (simp add: slots_counted_def)
  qed
qed

lemma sweep_upto:
  assumes "slots_counted used n e c" "m \<le> n"
  shows "\<exists>k. foldl (sweep_step used zero P) (e, c, 0) [0..<m] =
      (\<lambda>i. if i < m \<and> used (e i) \<and> P (e i) then zero else e i, c - k, k) \<and> k \<le> c \<and>
      slots_counted used n (\<lambda>i. if i < m \<and> used (e i) \<and> P (e i) then zero else e i) (c - k) \<and>
      k = card {i. i < m \<and> used (e i) \<and> P (e i)}"
  using assms(2)
proof (induction m)
  case 0
  then show ?case using assms(1) by (intro exI [of _ 0]) simp
next
  case (Suc m)
  let ?e = "\<lambda>m i. if i < m \<and> used (e i) \<and> P (e i) then zero else e i"
  from Suc obtain k where k: "foldl (sweep_step used zero P) (e, c, 0) [0..<m] = (?e m, c - k, k)"
    "k \<le> c" "slots_counted used n (?e m) (c - k)" "k = card {i. i < m \<and> used (e i) \<and> P (e i)}"
    by auto
  show ?case
  proof (cases "used (e m) \<and> P (e m)")
    case False
    then have "?e (Suc m) = ?e m" by (auto simp: less_Suc_eq)
    moreover have "{i. i < Suc m \<and> used (e i) \<and> P (e i)} = {i. i < m \<and> used (e i) \<and> P (e i)}"
      using False by (auto simp: less_Suc_eq)
    ultimately show ?thesis using k False by (intro exI [of _ k]) (simp add: sweep_step_apply)
  next
    case True
    have e: "?e (Suc m) = (?e m)(m := zero)" using True by (auto simp: less_Suc_eq)
    have s: "{i. i < Suc m \<and> used (e i) \<and> P (e i)} = insert m {i. i < m \<and> used (e i) \<and> P (e i)}"
      using True by (auto simp: less_Suc_eq)
    have r: "slots_counted used n (?e (Suc m)) (c - k - 1)" "0 < c - k"
      unfolding e using counted_release [OF k(3), of m] True Suc.prems by auto
    have f: "foldl (sweep_step used zero P) (e, c, 0) [0..<Suc m] = (?e (Suc m), c - Suc k, Suc k)"
      using k(1) True e by (simp add: sweep_step_apply)
    show ?thesis
      unfolding f using r s k(4) by (intro exI [of _ "Suc k"]) (simp add: s)
  qed
qed

lemma sweep_result:
  assumes "slots_counted used n e c"
  shows "sweep used zero P n e c =
      (\<lambda>i. if i < n \<and> used (e i) \<and> P (e i) then zero else e i,
       c - card {i. i < n \<and> used (e i) \<and> P (e i)}, card {i. i < n \<and> used (e i) \<and> P (e i)})"
    and "slots_counted used n (\<lambda>i. if i < n \<and> used (e i) \<and> P (e i) then zero else e i)
       (c - card {i. i < n \<and> used (e i) \<and> P (e i)})"
    and "card {i. i < n \<and> used (e i) \<and> P (e i)} \<le> c"
  using sweep_upto [OF assms order_refl, of P] unfolding sweep_def by auto

end

section \<open>Keyed tables\<close>

locale keyed_table = slot_table used zero for used :: "'e \<Rightarrow> bool" and zero :: 'e +
  fixes key :: "'e \<Rightarrow> 'k"
begin

lemma keys_zero: "keys_distinct used key n (\<lambda>_. zero)"
  by (simp add: keys_distinct_def zero_unused)

lemma keys_alloc:
  assumes "keys_distinct used key n e" "\<And>j. j < n \<Longrightarrow> used (e j) \<Longrightarrow> key (e j) \<noteq> key x"
  shows "keys_distinct used key n (e(i := x))"
  using assms unfolding keys_distinct_def by (auto dest: not_sym)

lemma keys_keep:
  assumes "keys_distinct used key n e" "used x = used (e i)" "key x = key (e i)"
  shows "keys_distinct used key n (e(i := x))"
proof -
  have "used ((e(i := x)) m) = used (e m)" "key ((e(i := x)) m) = key (e m)" for m
    using assms(2,3) by simp_all
  with assms(1) show ?thesis unfolding keys_distinct_def by presburger
qed

lemma keys_release:
  assumes "keys_distinct used key n e"
  shows "keys_distinct used key n (\<lambda>i. if Q i then zero else e i)"
  using assms zero_unused unfolding keys_distinct_def by auto

lemma keys_lookup:
  assumes "keys_distinct used key n e" "i < n" "used (e i)" "Q (e i)"
  shows "first_slot (\<lambda>x. used x \<and> Q x \<and> key x = key (e i)) n e = Some i"
  using assms unfolding keys_distinct_def by (intro first_slot_unique) auto

end

end
