(* ===== verification/Router_Neighbor.thy ===== *)
theory Router_Neighbor
  imports Router_Arp Slots
begin

text \<open>
  The neighbor table of \<^verbatim>\<open>router/router_neighbor.c\<close>: learning from ARP frames, lookup with a
  reachability window, rate-limited probing, ageing and invalidation by port.  Times are 64-bit
  nanosecond counters with the wrap-around of \<^verbatim>\<open>uint64_t\<close>.
\<close>

section \<open>State\<close>

definition ROUTER_MAX_NEIGHBORS :: nat where "ROUTER_MAX_NEIGHBORS = 512"
definition ROUTER_NEIGHBOR_REACHABLE_NS :: u64 where "ROUTER_NEIGHBOR_REACHABLE_NS = 300000000000"
definition ROUTER_NEIGHBOR_REFRESH_DUE_NS :: u64 where "ROUTER_NEIGHBOR_REFRESH_DUE_NS = 240000000000"
definition ROUTER_NEIGHBOR_PROBE_NS :: u64 where "ROUTER_NEIGHBOR_PROBE_NS = 1000000000"
definition ROUTER_NEIGHBOR_REFRESH_NS :: u64 where "ROUTER_NEIGHBOR_REFRESH_NS = 1000000000"

record router_neighbor =
  nb_used :: bool
  nb_resolved :: bool
  nb_vr_id :: u16
  nb_interface_id :: u16
  nb_port_id :: u16
  nb_ip :: u32
  nb_mac :: mac
  nb_last_seen_ns :: u64
  nb_last_probe_ns :: u64

record router_neighbor_table =
  nt_entries :: "nat \<Rightarrow> router_neighbor"
  nt_count :: nat

definition neighbor_zero :: router_neighbor where
  "neighbor_zero = \<lparr>nb_used = False, nb_resolved = False, nb_vr_id = 0, nb_interface_id = 0,
     nb_port_id = 0, nb_ip = 0, nb_mac = [0, 0, 0, 0, 0, 0], nb_last_seen_ns = 0,
     nb_last_probe_ns = 0\<rparr>"

definition neighbor_table_zero :: router_neighbor_table where
  "neighbor_table_zero = \<lparr>nt_entries = \<lambda>_. neighbor_zero, nt_count = 0\<rparr>"

type_synonym neighbor_key = "u16 \<times> u16 \<times> u32"

definition nb_key :: "router_neighbor \<Rightarrow> neighbor_key" where
  "nb_key n = (nb_vr_id n, nb_interface_id n, nb_ip n)"

section \<open>Operations\<close>

definition find_neighbor :: "router_neighbor_table \<Rightarrow> neighbor_key \<Rightarrow> nat option" where
  "find_neighbor t k =
     first_slot (\<lambda>n. nb_used n \<and> nb_key n = k) ROUTER_MAX_NEIGHBORS (nt_entries t)"

definition allocate_neighbor ::
  "router_neighbor_table \<Rightarrow> neighbor_key \<Rightarrow> router_neighbor_table \<times> nat option" where
  "allocate_neighbor t k =
     (case find_neighbor t k of
        Some i \<Rightarrow> (t, Some i)
      | None \<Rightarrow>
          (case first_slot (\<lambda>n. \<not> nb_used n) ROUTER_MAX_NEIGHBORS (nt_entries t) of
             None \<Rightarrow> (t, None)
           | Some i \<Rightarrow>
               (t\<lparr>nt_entries := (nt_entries t)(i := neighbor_zero\<lparr>nb_used := True,
                    nb_vr_id := fst k, nb_interface_id := fst (snd k), nb_ip := snd (snd k)\<rparr>),
                  nt_count := Suc (nt_count t)\<rparr>, Some i)))"

text \<open>The validation at the top of \<open>learn_on_interface\<close>.\<close>

definition arp_learnable :: "router_interface \<Rightarrow> bytes \<Rightarrow> bool" where
  "arp_learnable rif f \<longleftrightarrow>
     rif_has_address rif \<and> \<not> length f < 42 \<and> arp_header f \<and>
     (read16 f 20 = 1 \<or> read16 f 20 = 2) \<and> slice f 6 6 = slice f 22 6 \<and> f ! 22 AND 1 = 0 \<and>
     foldl (OR) 0 (slice f 22 6) \<noteq> 0 \<and> read32 f 28 \<noteq> 0 \<and>
     read32 f 28 AND prefix_mask (rif_prefix rif) = rif_address rif AND prefix_mask (rif_prefix rif) \<and>
     read32 f 28 \<noteq> rif_address rif"

definition learn_entry :: "u16 \<Rightarrow> mac \<Rightarrow> u64 \<Rightarrow> router_neighbor \<Rightarrow> router_neighbor \<times> bool" where
  "learn_entry port m now n =
     (let changed = (\<not> nb_resolved n \<or> nb_port_id n \<noteq> port \<or> nb_mac n \<noteq> m);
          n' = n\<lparr>nb_resolved := True, nb_port_id := port, nb_mac := m\<rparr> in
      (if changed \<or> nb_last_seen_ns n = 0 \<or>
          ROUTER_NEIGHBOR_REFRESH_NS \<le> now - nb_last_seen_ns n
       then n'\<lparr>nb_last_seen_ns := now\<rparr> else n', changed))"

definition learn_on_interface ::
  "router_neighbor_table \<Rightarrow> router_interface \<Rightarrow> u16 \<Rightarrow> bytes \<Rightarrow> u64 \<Rightarrow> router_neighbor_table \<times> bool" where
  "learn_on_interface t rif port f now =
     (if \<not> arp_learnable rif f then (t, False)
      else case allocate_neighbor t (rif_vr_id rif, rif_interface_id rif, read32 f 28) of
        (t', None) \<Rightarrow> (t', False)
      | (t', Some i) \<Rightarrow>
          let (n, changed) = learn_entry port (slice f 22 6) now (nt_entries t' i) in
          (t'\<lparr>nt_entries := (nt_entries t')(i := n)\<rparr>, changed))"

definition router_neighbor_learn_arp ::
  "router_neighbor_table \<Rightarrow> router_config \<Rightarrow> u16 \<Rightarrow> u16 \<Rightarrow> bytes \<Rightarrow> u64 \<Rightarrow> router_neighbor_table \<times> bool" where
  "router_neighbor_learn_arp t c vs port f now =
     (if vs = 0 \<or> length f < 42 then (t, False)
      else foldl (\<lambda>(t, changed) rif.
          if rif_attachment rif = ROUTER_VSWITCH \<and> rif_vswitch_id rif = vs \<and>
             rif_has_address rif \<and> rif_address rif = read32 f 38
          then (let (t', ch) = learn_on_interface t rif port f now in (t', changed \<or> ch))
          else (t, changed)) (t, False) (cfg_interfaces c))"

definition router_neighbor_learn_arp_interface ::
  "router_neighbor_table \<Rightarrow> router_config \<Rightarrow> u16 \<Rightarrow> u16 \<Rightarrow> bytes \<Rightarrow> u64 \<Rightarrow> router_neighbor_table \<times> bool" where
  "router_neighbor_learn_arp_interface t c i port f now =
     (if i = 0 then (t, False)
      else case interface_by_id c i of
        None \<Rightarrow> (t, False) | Some rif \<Rightarrow> learn_on_interface t rif port f now)"

definition neighbor_fresh :: "u64 \<Rightarrow> router_neighbor \<Rightarrow> bool" where
  "neighbor_fresh now n \<longleftrightarrow>
     nb_resolved n \<and> now - nb_last_seen_ns n \<le> ROUTER_NEIGHBOR_REACHABLE_NS"

definition router_neighbor_lookup ::
  "router_neighbor_table \<Rightarrow> neighbor_key \<Rightarrow> u64 \<Rightarrow> router_neighbor option" where
  "router_neighbor_lookup t k now =
     map_option (nt_entries t)
       (first_slot (\<lambda>n. nb_used n \<and> neighbor_fresh now n \<and> nb_key n = k)
          ROUTER_MAX_NEIGHBORS (nt_entries t))"

definition key_usable :: "neighbor_key \<Rightarrow> bool" where
  "key_usable k \<longleftrightarrow> fst k \<noteq> 0 \<and> fst (snd k) \<noteq> 0 \<and> snd (snd k) \<noteq> 0"

definition router_neighbor_should_probe ::
  "router_neighbor_table \<Rightarrow> neighbor_key \<Rightarrow> u64 \<Rightarrow> router_neighbor_table \<times> bool" where
  "router_neighbor_should_probe t k now =
     (if \<not> key_usable k then (t, False)
      else case allocate_neighbor t k of
        (t', None) \<Rightarrow> (t', False)
      | (t', Some i) \<Rightarrow>
          let n = nt_entries t' i in
          if nb_last_probe_ns n \<noteq> 0 \<and> now - nb_last_probe_ns n < ROUTER_NEIGHBOR_PROBE_NS
            then (t', False)
          else (t'\<lparr>nt_entries := (nt_entries t')(i := n\<lparr>nb_last_probe_ns := now\<rparr>)\<rparr>, True))"

definition router_neighbor_needs_refresh ::
  "router_neighbor_table \<Rightarrow> neighbor_key \<Rightarrow> u64 \<Rightarrow> bool" where
  "router_neighbor_needs_refresh t k now =
     (if \<not> key_usable k then False
      else case find_neighbor t k of
        None \<Rightarrow> True
      | Some i \<Rightarrow> let n = nt_entries t i in
          \<not> nb_resolved n \<or> nb_last_seen_ns n = 0 \<or>
          ROUTER_NEIGHBOR_REFRESH_DUE_NS \<le> now - nb_last_seen_ns n)"

definition neighbor_reference :: "router_neighbor \<Rightarrow> u64" where
  "neighbor_reference n = (if nb_resolved n then nb_last_seen_ns n else nb_last_probe_ns n)"

definition neighbor_stale :: "u64 \<Rightarrow> router_neighbor \<Rightarrow> bool" where
  "neighbor_stale now n \<longleftrightarrow> \<not> now - neighbor_reference n \<le> ROUTER_NEIGHBOR_REACHABLE_NS"

definition neighbor_sweep ::
  "(router_neighbor \<Rightarrow> bool) \<Rightarrow> router_neighbor_table \<Rightarrow> router_neighbor_table" where
  "neighbor_sweep P t =
     (let (e, n, _) = sweep nb_used neighbor_zero P ROUTER_MAX_NEIGHBORS (nt_entries t) (nt_count t)
      in t\<lparr>nt_entries := e, nt_count := n\<rparr>)"

definition router_neighbor_age :: "router_neighbor_table \<Rightarrow> u64 \<Rightarrow> router_neighbor_table" where
  "router_neighbor_age t now = neighbor_sweep (neighbor_stale now) t"

definition router_neighbor_invalidate_port ::
  "router_neighbor_table \<Rightarrow> u16 \<Rightarrow> router_neighbor_table" where
  "router_neighbor_invalidate_port t port = neighbor_sweep (\<lambda>n. nb_port_id n = port) t"

section \<open>The table invariant\<close>

interpretation nbs: keyed_table nb_used neighbor_zero nb_key
  by unfold_locales (simp add: neighbor_zero_def)

definition neighbor_wf :: "router_neighbor_table \<Rightarrow> bool" where
  "neighbor_wf t \<longleftrightarrow>
     slots_counted nb_used ROUTER_MAX_NEIGHBORS (nt_entries t) (nt_count t) \<and>
     keys_distinct nb_used nb_key ROUTER_MAX_NEIGHBORS (nt_entries t)"

lemma neighbor_wf_zero: "neighbor_wf neighbor_table_zero"
  by (simp add: neighbor_wf_def neighbor_table_zero_def nbs.counted_zero nbs.keys_zero)

lemma neighbor_wf_update:
  assumes "neighbor_wf t" "nb_used n = nb_used (nt_entries t i)" "nb_key n = nb_key (nt_entries t i)"
  shows "neighbor_wf (t\<lparr>nt_entries := (nt_entries t)(i := n)\<rparr>)"
  using assms by (simp add: neighbor_wf_def nbs.counted_keep nbs.keys_keep)

lemma find_neighbor_Some:
  "find_neighbor t k = Some i \<Longrightarrow>
   i < ROUTER_MAX_NEIGHBORS \<and> nb_used (nt_entries t i) \<and> nb_key (nt_entries t i) = k"
  by (auto simp: find_neighbor_def dest: first_slot_SomeD)

lemma allocate_neighbor_spec:
  assumes "neighbor_wf t" "allocate_neighbor t k = (t', r)"
  shows "neighbor_wf t' \<and>
    (\<forall>i. r = Some i \<longrightarrow> i < ROUTER_MAX_NEIGHBORS \<and> nb_used (nt_entries t' i) \<and>
       nb_key (nt_entries t' i) = k) \<and>
    (\<forall>j. r \<noteq> Some j \<longrightarrow> nt_entries t' j = nt_entries t j) \<and>
    (r = None \<longrightarrow> nt_count t = ROUTER_MAX_NEIGHBORS \<and> t' = t)"
proof (cases "find_neighbor t k")
  case (Some i)
  with assms find_neighbor_Some [OF Some] show ?thesis
    by (simp add: allocate_neighbor_def) blast
next
  case nf: None
  show ?thesis
  proof (cases "first_slot (\<lambda>n. \<not> nb_used n) ROUTER_MAX_NEIGHBORS (nt_entries t)")
    case None
    have c: "slots_counted nb_used ROUTER_MAX_NEIGHBORS (nt_entries t) (nt_count t)"
      using assms(1) by (simp add: neighbor_wf_def)
    have "\<not> nt_count t < ROUTER_MAX_NEIGHBORS"
      using None nbs.counted_full [OF c] by (auto simp: first_slot_None)
    with nbs.counted_le [OF c] have "nt_count t = ROUTER_MAX_NEIGHBORS" by simp
    with None nf assms show ?thesis by (auto simp: allocate_neighbor_def)
  next
    case (Some i)
    let ?n = "neighbor_zero\<lparr>nb_used := True, nb_vr_id := fst k, nb_interface_id := fst (snd k),
      nb_ip := snd (snd k)\<rparr>"
    have k: "nb_key ?n = k" "nb_used ?n" by (simp_all add: nb_key_def)
    from first_slot_SomeD [OF Some] have i: "i < ROUTER_MAX_NEIGHBORS" "\<not> nb_used (nt_entries t i)"
      by auto
    have r: "r = Some i" "t' = t\<lparr>nt_entries := (nt_entries t)(i := ?n), nt_count := Suc (nt_count t)\<rparr>"
      using assms(2) nf Some by (auto simp: allocate_neighbor_def)
    have free: "nb_key (nt_entries t j) \<noteq> nb_key ?n"
      if "j < ROUTER_MAX_NEIGHBORS" "nb_used (nt_entries t j)" for j
      using nf that unfolding k by (auto simp: find_neighbor_def first_slot_None)
    have "neighbor_wf t'"
      using assms(1) i k(2) free
      unfolding r neighbor_wf_def by (simp add: nbs.counted_alloc nbs.keys_alloc)
    with r i k show ?thesis by auto
  qed
qed

lemma learn_entry_keeps:
  "learn_entry port m now n = (n', ch) \<Longrightarrow>
   nb_used n' = nb_used n \<and> nb_key n' = nb_key n \<and> nb_resolved n' \<and> nb_mac n' = m \<and>
   nb_port_id n' = port \<and>
   (nb_last_seen_ns n' = now \<or>
    nb_last_seen_ns n' = nb_last_seen_ns n \<and> now - nb_last_seen_ns n < ROUTER_NEIGHBOR_REFRESH_NS)"
  by (auto simp: learn_entry_def Let_def nb_key_def not_le split: if_splits)

lemma learn_wf: "neighbor_wf t \<Longrightarrow> neighbor_wf (fst (learn_on_interface t rif port f now))"
  by (auto simp: learn_on_interface_def split: prod.splits option.splits
      dest: allocate_neighbor_spec learn_entry_keeps intro!: neighbor_wf_update)

lemma neighbor_sweep_wf:
  assumes "neighbor_wf t"
  shows "neighbor_wf (neighbor_sweep P t)"
  using assms nbs.sweep_result(1,2) [of ROUTER_MAX_NEIGHBORS "nt_entries t" "nt_count t" P]
    nbs.keys_release [of ROUTER_MAX_NEIGHBORS "nt_entries t"
      "\<lambda>i. i < ROUTER_MAX_NEIGHBORS \<and> nb_used (nt_entries t i) \<and> P (nt_entries t i)"]
  by (simp add: neighbor_wf_def neighbor_sweep_def)

lemma should_probe_wf: "neighbor_wf t \<Longrightarrow> neighbor_wf (fst (router_neighbor_should_probe t k now))"
  by (auto simp: router_neighbor_should_probe_def Let_def nb_key_def split: prod.splits option.splits
      dest: allocate_neighbor_spec intro!: neighbor_wf_update)

section \<open>Learning and lookup\<close>

lemma lookup_learned:
  assumes wf: "neighbor_wf t" and l: "arp_learnable rif f"
    and k: "k = (rif_vr_id rif, rif_interface_id rif, read32 f 28)"
    and room: "find_neighbor t k \<noteq> None \<or> nt_count t < ROUTER_MAX_NEIGHBORS"
    and r: "learn_on_interface t rif port f now = (t', ch)"
  shows "\<exists>n. router_neighbor_lookup t' k now = Some n \<and> nb_mac n = slice f 22 6 \<and> nb_port_id n = port"
proof -
  obtain t1 x where a: "allocate_neighbor t k = (t1, x)" by (cases "allocate_neighbor t k")
  note sp = allocate_neighbor_spec [OF wf a]
  have "x \<noteq> None"
  proof
    assume x: "x = None"
    with sp have "nt_count t = ROUTER_MAX_NEIGHBORS" by simp
    with room have "find_neighbor t k \<noteq> None" by simp
    with a x show False by (auto simp: allocate_neighbor_def)
  qed
  then obtain i where i: "x = Some i" by auto
  obtain n where n: "learn_entry port (slice f 22 6) now (nt_entries t1 i) = (n, ch)"
    "t' = t1\<lparr>nt_entries := (nt_entries t1)(i := n)\<rparr>"
    using r l a i k by (auto simp: learn_on_interface_def split: prod.splits)
  note lk = learn_entry_keeps [OF n(1)]
  have wf': "neighbor_wf t'" using sp lk unfolding n(2) by (intro neighbor_wf_update) auto
  have e: "nt_entries t' i = n" by (simp add: n(2))
  have "now - nb_last_seen_ns n \<le> ROUTER_NEIGHBOR_REACHABLE_NS"
  proof (cases "nb_last_seen_ns n = now")
    case False
    with lk have "now - nb_last_seen_ns n < ROUTER_NEIGHBOR_REFRESH_NS" by auto
    then show ?thesis
      unfolding ROUTER_NEIGHBOR_REFRESH_NS_def ROUTER_NEIGHBOR_REACHABLE_NS_def
      by (rule order_less_imp_le [OF order_less_trans]) simp
  qed (simp add: ROUTER_NEIGHBOR_REACHABLE_NS_def)
  then have fresh: "neighbor_fresh now n" using lk by (simp add: neighbor_fresh_def)
  have "first_slot (\<lambda>x. nb_used x \<and> neighbor_fresh now x \<and> nb_key x = nb_key (nt_entries t' i))
      ROUTER_MAX_NEIGHBORS (nt_entries t') = Some i"
    using wf' sp i lk fresh e by (intro nbs.keys_lookup) (auto simp: neighbor_wf_def)
  moreover have "nb_key (nt_entries t' i) = k" using e lk sp i by simp
  ultimately show ?thesis using e lk by (simp add: router_neighbor_lookup_def)
qed

text \<open>The exchange of two RIFs on one segment teaches the requester the other's MAC.\<close>

lemma arp_reply_learnable:
  assumes req: "router_arp_request a (rif_address b) cap = Some q"
    and rep: "arp_reply_for_interface b q cap' = Some f" and mac: "mac_ok (rif_mac a)" "mac_ok (rif_mac b)"
    and b: "rif_address b \<noteq> 0"
  shows "arp_learnable a f \<and> read32 f 28 = rif_address b \<and> slice f 22 6 = rif_mac b"
proof -
  have m: "length (rif_mac a) = 6" "length (rif_mac b) = 6" "rif_mac b ! 0 AND 1 = 0"
    "\<exists>x\<in>set (rif_mac b). x \<noteq> 0" using mac by (auto simp: mac_ok_def)
  note f = arp_reply_fields [OF rep m(2)]
  from req have a: "rif_has_address a" "rif_address b \<noteq> rif_address a"
    "rif_address b AND prefix_mask (rif_prefix a) = rif_address a AND prefix_mask (rif_prefix a)"
    by (auto simp: router_arp_request_def split: if_splits)
  have "f ! 22 = rif_mac b ! 0" using f nth_slice [of 0 6 22 f] by simp
  then have "f ! 22 AND 1 = 0" using m(3) by simp
  moreover have "read16 f 20 = 2" using f by (simp add: read16_def)
  ultimately show ?thesis
    using f a b foldl_or_nz [OF m(4), of 0] by (simp add: arp_learnable_def)
qed

section \<open>Probing\<close>

lemma probe_limited:
  assumes wf: "neighbor_wf t" and p: "router_neighbor_should_probe t k t1 = (t', True)" and "t1 \<noteq> 0"
    and d: "t2 - t1 < ROUTER_NEIGHBOR_PROBE_NS"
  shows "router_neighbor_should_probe t' k t2 = (t', False)"
proof -
  have u: "key_usable k" using p by (auto simp: router_neighbor_should_probe_def split: if_splits)
  obtain tm x where a: "allocate_neighbor t k = (tm, x)" by (cases "allocate_neighbor t k")
  note sp = allocate_neighbor_spec [OF wf a]
  obtain i where i: "x = Some i"
    using p u a by (cases x) (auto simp: router_neighbor_should_probe_def)
  let ?n = "(nt_entries tm i)\<lparr>nb_last_probe_ns := t1\<rparr>"
  have t': "t' = tm\<lparr>nt_entries := (nt_entries tm)(i := ?n)\<rparr>"
    using p u a i by (auto simp: router_neighbor_should_probe_def Let_def split: if_splits)
  have wf': "neighbor_wf t'" unfolding t' using sp by (intro neighbor_wf_update) (simp_all add: nb_key_def)
  have e: "nt_entries t' i = ?n" by (simp add: t')
  have key: "nb_key (nt_entries t' i) = k" using sp i e by (auto simp: nb_key_def)
  have "first_slot (\<lambda>x. nb_used x \<and> True \<and> nb_key x = nb_key (nt_entries t' i))
      ROUTER_MAX_NEIGHBORS (nt_entries t') = Some i"
    using wf' sp i e by (intro nbs.keys_lookup) (auto simp: neighbor_wf_def)
  then have "find_neighbor t' k = Some i" by (simp add: find_neighbor_def key)
  then have "allocate_neighbor t' k = (t', Some i)" by (simp add: allocate_neighbor_def)
  with u e assms(3) d show ?thesis by (simp add: router_neighbor_should_probe_def Let_def)
qed

section \<open>Ageing\<close>

lemma neighbor_sweep_entries:
  "neighbor_wf t \<Longrightarrow> i < ROUTER_MAX_NEIGHBORS \<Longrightarrow>
   nt_entries (neighbor_sweep P t) i =
     (if nb_used (nt_entries t i) \<and> P (nt_entries t i) then neighbor_zero else nt_entries t i)"
  using nbs.sweep_result(1) [of ROUTER_MAX_NEIGHBORS "nt_entries t" "nt_count t" P]
  by (simp add: neighbor_wf_def neighbor_sweep_def)

section \<open>Reachable tables\<close>

datatype neighbor_event =
    Learn_Switch router_config u16 u16 bytes u64
  | Learn_Interface router_config u16 u16 bytes u64
  | Probe neighbor_key u64
  | Age u64
  | Invalidate u16

fun neighbor_step :: "router_neighbor_table \<Rightarrow> neighbor_event \<Rightarrow> router_neighbor_table" where
  "neighbor_step t (Learn_Switch c vs port f now) = fst (router_neighbor_learn_arp t c vs port f now)"
| "neighbor_step t (Learn_Interface c i port f now) =
     fst (router_neighbor_learn_arp_interface t c i port f now)"
| "neighbor_step t (Probe k now) = fst (router_neighbor_should_probe t k now)"
| "neighbor_step t (Age now) = router_neighbor_age t now"
| "neighbor_step t (Invalidate port) = router_neighbor_invalidate_port t port"

lemma learn_switch_loop_wf:
  assumes "neighbor_wf t"
  shows "neighbor_wf (fst (foldl (\<lambda>(t, changed) rif.
          if rif_attachment rif = ROUTER_VSWITCH \<and> rif_vswitch_id rif = vs \<and>
             rif_has_address rif \<and> rif_address rif = tgt
          then (let (t', ch) = learn_on_interface t rif port f now in (t', changed \<or> ch))
          else (t, changed)) (t, b) rs))"
  using assms
proof (induction rs arbitrary: t b)
  case (Cons r rs)
  show ?case
    using learn_wf [OF Cons.prems, of r port f now] Cons.IH Cons.prems
    by (auto simp: case_prod_beta Let_def)
qed simp

lemma neighbor_step_wf: "neighbor_wf t \<Longrightarrow> neighbor_wf (neighbor_step t ev)"
proof (cases ev)
  case (Learn_Switch c vs port f now)
  then show "neighbor_wf t \<Longrightarrow> ?thesis"
    by (simp add: router_neighbor_learn_arp_def learn_switch_loop_wf)
next
  case (Learn_Interface c i port f now)
  then show "neighbor_wf t \<Longrightarrow> ?thesis"
    by (simp add: router_neighbor_learn_arp_interface_def learn_wf split: option.splits)
qed (simp_all add: should_probe_wf router_neighbor_age_def router_neighbor_invalidate_port_def
      neighbor_sweep_wf)

lemma neighbor_run_wf: "neighbor_wf t \<Longrightarrow> neighbor_wf (foldl neighbor_step t evs)"
  by (induction evs arbitrary: t) (simp_all add: neighbor_step_wf)

section \<open>Properties\<close>

text \<open>C22: Whatever sequence of learning, probing, aging and invalidation runs on an initially empty
  neighbor table, its counter equals the number of live entries and no two live entries share a
  (virtual router, interface, address) key.\<close>

theorem neighbor_table_invariant: "neighbor_wf (foldl neighbor_step neighbor_table_zero evs)"
  by (rule neighbor_run_wf [OF neighbor_wf_zero])

text \<open>C23: An ARP exchange resolves the next hop: a request for the address of another on-link interface is
  answered, and learning the answer makes the lookup return that interface's MAC and the port the
  answer came from.\<close>

theorem arp_exchange_resolves:
  assumes wf: "neighbor_wf t" and room: "nt_count t < ROUTER_MAX_NEIGHBORS"
    and req: "router_arp_request a (rif_address b) cap = Some q" and cap: "60 \<le> cap'"
    and mac: "mac_ok (rif_mac a)" "mac_ok (rif_mac b)" "rif_mac a \<noteq> rif_mac b"
    and b: "rif_has_address b" "rif_address b \<noteq> 0"
  shows "\<exists>f. arp_reply_for_interface b q cap' = Some f \<and>
    (\<forall>port now. \<exists>n. router_neighbor_lookup (fst (learn_on_interface t a port f now))
       (rif_vr_id a, rif_interface_id a, rif_address b) now = Some n \<and>
       nb_mac n = rif_mac b \<and> nb_port_id n = port)"
proof -
  have l: "length (rif_mac b) = 6" using mac(2) by (simp add: mac_ok_def)
  obtain f where f: "arp_reply_for_interface b q cap' = Some f"
    using arp_exchange [OF req mac(1) l mac(3) b(1) cap] by blast
  note r = arp_reply_learnable [OF req f mac(1,2) b(2)]
  have "\<exists>n. router_neighbor_lookup (fst (learn_on_interface t a port f now))
       (rif_vr_id a, rif_interface_id a, rif_address b) now = Some n \<and>
       nb_mac n = rif_mac b \<and> nb_port_id n = port" for port now
    using lookup_learned [OF wf _ refl, of a f port now "fst (learn_on_interface t a port f now)"
        "snd (learn_on_interface t a port f now)"] r room by simp
  with f show ?thesis by blast
qed

theorem arp_exchange_resolves_witness:
  "let host = lan_rif\<lparr>rif_mac := [2, 0, 0, 0, 0, 7], rif_address := 0x0A000007\<rparr>;
       q = the (router_arp_request lan_rif 0x0A000007 60) in
   \<exists>f. arp_reply_for_interface host q 60 = Some f \<and>
     (\<exists>n. router_neighbor_lookup (fst (learn_on_interface neighbor_table_zero lan_rif 3 f 9))
        (1, 1, 0x0A000007) 9 = Some n \<and> nb_mac n = [2, 0, 0, 0, 0, 7])"
proof -
  let ?host = "lan_rif\<lparr>rif_mac := [2, 0, 0, 0, 0, 7], rif_address := 0x0A000007\<rparr>"
  let ?q = "the (router_arp_request lan_rif (rif_address ?host) 60)"
  have "router_arp_request lan_rif (rif_address ?host) 60 \<noteq> None" by code_simp
  then have q: "router_arp_request lan_rif (rif_address ?host) 60 = Some ?q" by simp
  have m: "mac_ok (rif_mac lan_rif)" "mac_ok (rif_mac ?host)" "rif_mac lan_rif \<noteq> rif_mac ?host"
    "rif_has_address ?host" "rif_address ?host \<noteq> 0" by (simp_all add: lan_rif_def mac_ok_def)
  have room: "nt_count neighbor_table_zero < ROUTER_MAX_NEIGHBORS"
    by (simp add: neighbor_table_zero_def ROUTER_MAX_NEIGHBORS_def)
  have ids: "rif_vr_id lan_rif = 1" "rif_interface_id lan_rif = 1" by (simp_all add: lan_rif_def)
  from arp_exchange_resolves [OF neighbor_wf_zero room q order_refl m] obtain f where
    f: "arp_reply_for_interface ?host ?q 60 = Some f"
    "\<And>port now. \<exists>n. router_neighbor_lookup (fst (learn_on_interface neighbor_table_zero lan_rif port f now))
       (rif_vr_id lan_rif, rif_interface_id lan_rif, rif_address ?host) now = Some n \<and>
       nb_mac n = rif_mac ?host \<and> nb_port_id n = port" by blast
  from f(2) [of 3 9] f(1) show ?thesis by (auto simp: Let_def ids)
qed

text \<open>After a probe was sent for an unresolved next hop no second one is due for a second.\<close>

lemma probe_rate_limited:
  assumes "neighbor_wf t" "router_neighbor_should_probe t k t1 = (t', True)" "t1 \<noteq> 0"
    "t2 - t1 < ROUTER_NEIGHBOR_PROBE_NS"
  shows "router_neighbor_should_probe t' k t2 = (t', False)"
  by (rule probe_limited [OF assms])

text \<open>Aging removes exactly the live entries whose last confirmation (or probe, while unresolved) is
  older than the reachable time, and invalidating a port exactly the live entries learned on it.\<close>

lemma neighbor_removal_exact:
  assumes "neighbor_wf t" "i < ROUTER_MAX_NEIGHBORS"
  shows "nt_entries (router_neighbor_age t now) i =
      (if nb_used (nt_entries t i) \<and> neighbor_stale now (nt_entries t i) then neighbor_zero
       else nt_entries t i) \<and>
    nt_entries (router_neighbor_invalidate_port t port) i =
      (if nb_used (nt_entries t i) \<and> nb_port_id (nt_entries t i) = port then neighbor_zero
       else nt_entries t i)"
  unfolding router_neighbor_age_def router_neighbor_invalidate_port_def
  by (intro conjI neighbor_sweep_entries [OF assms])

end
