(* ===== verification/Router_Pending.thy ===== *)
theory Router_Pending
  imports Slots
begin

text \<open>
  The bounded queue of frames waiting for a neighbor: \<^verbatim>\<open>router/router_pending.c\<close>.  The frame
  copy is the list of its bytes, \<open>None\<close> the \<^verbatim>\<open>NULL\<close> of a free slot; whether \<^verbatim>\<open>malloc\<close> succeeds is
  an argument.
\<close>

section \<open>State\<close>

definition ROUTER_PENDING_MAX_PACKETS :: nat where "ROUTER_PENDING_MAX_PACKETS = 128"
definition ROUTER_PENDING_PER_NEIGHBOR :: nat where "ROUTER_PENDING_PER_NEIGHBOR = 16"
definition ROUTER_PENDING_MAX_FRAME :: nat where "ROUTER_PENDING_MAX_FRAME = 10240"
definition ROUTER_PENDING_TIMEOUT_NS :: u64 where "ROUTER_PENDING_TIMEOUT_NS = 3000000000"

record router_pending_packet =
  pp_used :: bool
  pp_vr_id :: u16
  pp_neighbor_interface_id :: u16
  pp_next_hop_ip :: u32
  pp_ingress_interface_id :: u16
  pp_ingress_port :: u16
  pp_expected_egress_interface :: u16
  pp_link_hops :: u8
  pp_length :: nat
  pp_queued_ns :: u64
  pp_frame :: "bytes option"

record router_pending_queue =
  pq_entries :: "nat \<Rightarrow> router_pending_packet"
  pq_count :: nat
  pq_enqueued :: u64
  pq_replayed :: u64
  pq_expired :: u64
  pq_overflow :: u64
  pq_allocation_failures :: u64

definition pending_zero :: router_pending_packet where
  "pending_zero = \<lparr>pp_used = False, pp_vr_id = 0, pp_neighbor_interface_id = 0,
     pp_next_hop_ip = 0, pp_ingress_interface_id = 0, pp_ingress_port = 0,
     pp_expected_egress_interface = 0, pp_link_hops = 0, pp_length = 0, pp_queued_ns = 0,
     pp_frame = None\<rparr>"

definition pending_queue_zero :: router_pending_queue where
  "pending_queue_zero = \<lparr>pq_entries = \<lambda>_. pending_zero, pq_count = 0, pq_enqueued = 0,
     pq_replayed = 0, pq_expired = 0, pq_overflow = 0, pq_allocation_failures = 0\<rparr>"

type_synonym pending_key = "u16 \<times> u16 \<times> u32"

definition pp_key :: "router_pending_packet \<Rightarrow> pending_key" where
  "pp_key p = (pp_vr_id p, pp_neighbor_interface_id p, pp_next_hop_ip p)"

definition same_neighbor :: "pending_key \<Rightarrow> router_pending_packet \<Rightarrow> bool" where
  "same_neighbor k p \<longleftrightarrow> pp_used p \<and> pp_key p = k"

section \<open>Operations\<close>

definition neighbor_load :: "router_pending_queue \<Rightarrow> pending_key \<Rightarrow> nat" where
  "neighbor_load q k =
     length (filter (\<lambda>i. same_neighbor k (pq_entries q i)) [0..<ROUTER_PENDING_MAX_PACKETS])"

definition enqueue_refused :: "pending_key \<Rightarrow> u16 \<Rightarrow> bytes \<Rightarrow> bool" where
  "enqueue_refused k ingress f \<longleftrightarrow>
     fst k = 0 \<or> fst (snd k) = 0 \<or> snd (snd k) = 0 \<or> ingress = 0 \<or>
     length f < 14 \<or> ROUTER_PENDING_MAX_FRAME < length f"

definition router_pending_enqueue ::
  "router_pending_queue \<Rightarrow> bool \<Rightarrow> pending_key \<Rightarrow> u16 \<Rightarrow> u16 \<Rightarrow> u8 \<Rightarrow> u16 \<Rightarrow> bytes \<Rightarrow> u64
     \<Rightarrow> router_pending_queue \<times> bool" where
  "router_pending_enqueue q malloc_ok k ingress port hops expected f now =
     (if enqueue_refused k ingress f then (q, False)
      else case first_slot (\<lambda>p. \<not> pp_used p) ROUTER_PENDING_MAX_PACKETS (pq_entries q) of
        None \<Rightarrow> (q\<lparr>pq_overflow := pq_overflow q + 1\<rparr>, False)
      | Some i \<Rightarrow>
          if ROUTER_PENDING_PER_NEIGHBOR \<le> neighbor_load q k
            then (q\<lparr>pq_overflow := pq_overflow q + 1\<rparr>, False)
          else if \<not> malloc_ok
            then (q\<lparr>pq_allocation_failures := pq_allocation_failures q + 1\<rparr>, False)
          else (q\<lparr>pq_entries := (pq_entries q)(i := \<lparr>pp_used = True, pp_vr_id = fst k,
                    pp_neighbor_interface_id = fst (snd k), pp_next_hop_ip = snd (snd k),
                    pp_ingress_interface_id = ingress, pp_ingress_port = port,
                    pp_expected_egress_interface = expected, pp_link_hops = hops,
                    pp_length = length f, pp_queued_ns = now, pp_frame = Some f\<rparr>),
                  pq_count := pq_count q + 1, pq_enqueued := pq_enqueued q + 1\<rparr>, True))"

definition router_pending_take ::
  "router_pending_queue \<Rightarrow> pending_key \<Rightarrow> router_pending_queue \<times> router_pending_packet option" where
  "router_pending_take q k =
     (case first_slot (same_neighbor k) ROUTER_PENDING_MAX_PACKETS (pq_entries q) of
        None \<Rightarrow> (q, None)
      | Some i \<Rightarrow> (q\<lparr>pq_entries := (pq_entries q)(i := pending_zero),
                     pq_count := pq_count q - 1, pq_replayed := pq_replayed q + 1\<rparr>,
                  Some (pq_entries q i)))"

definition pending_expired :: "u64 \<Rightarrow> router_pending_packet \<Rightarrow> bool" where
  "pending_expired now p \<longleftrightarrow> \<not> now - pp_queued_ns p \<le> ROUTER_PENDING_TIMEOUT_NS"

definition router_pending_expire ::
  "router_pending_queue \<Rightarrow> u64 \<Rightarrow> router_pending_queue \<times> nat" where
  "router_pending_expire q now =
     (let (e, n, k) = sweep pp_used pending_zero (pending_expired now)
            ROUTER_PENDING_MAX_PACKETS (pq_entries q) (pq_count q)
      in (q\<lparr>pq_entries := e, pq_count := n, pq_expired := pq_expired q + of_nat k\<rparr>, k))"

definition router_pending_destroy :: "router_pending_queue \<Rightarrow> router_pending_queue" where
  "router_pending_destroy q = pending_queue_zero"

section \<open>The queue invariant\<close>

interpretation pqs: slot_table pp_used pending_zero
  by unfold_locales (simp add: pending_zero_def)

text \<open>
  The counter is exact, no neighbor holds more than its share, a live slot owns a frame of the
  recorded length within the bounds and a free slot owns none, so nothing leaks.
\<close>

definition packet_ok :: "router_pending_packet \<Rightarrow> bool" where
  "packet_ok p \<longleftrightarrow>
     (if pp_used p then \<exists>f. pp_frame p = Some f \<and> pp_length p = length f \<and>
        14 \<le> length f \<and> length f \<le> ROUTER_PENDING_MAX_FRAME
      else pp_frame p = None)"

definition pending_wf :: "router_pending_queue \<Rightarrow> bool" where
  "pending_wf q \<longleftrightarrow>
     slots_counted pp_used ROUTER_PENDING_MAX_PACKETS (pq_entries q) (pq_count q) \<and>
     (\<forall>k. neighbor_load q k \<le> ROUTER_PENDING_PER_NEIGHBOR) \<and>
     (\<forall>i. packet_ok (pq_entries q i))"

lemma neighbor_load_card:
  "neighbor_load q k = card {i. i < ROUTER_PENDING_MAX_PACKETS \<and> same_neighbor k (pq_entries q i)}"
proof -
  have "distinct (filter (\<lambda>i. same_neighbor k (pq_entries q i)) [0..<ROUTER_PENDING_MAX_PACKETS])"
    by simp
  moreover have "set (filter (\<lambda>i. same_neighbor k (pq_entries q i)) [0..<ROUTER_PENDING_MAX_PACKETS])
      = {i. i < ROUTER_PENDING_MAX_PACKETS \<and> same_neighbor k (pq_entries q i)}" by auto
  ultimately show ?thesis by (simp add: neighbor_load_def distinct_card [symmetric])
qed

lemma neighbor_load_mono:
  assumes "\<And>i. same_neighbor k (pq_entries q' i) \<Longrightarrow> same_neighbor k (pq_entries q i)"
  shows "neighbor_load q' k \<le> neighbor_load q k"
  unfolding neighbor_load_card using assms by (intro card_mono) auto

lemma neighbor_load_set:
  "neighbor_load (q\<lparr>pq_entries := (pq_entries q)(i := x), pq_count := c, pq_enqueued := e\<rparr>) k
   \<le> (if same_neighbor k x then Suc (neighbor_load q k) else neighbor_load q k)"
proof -
  let ?S = "{j. j < ROUTER_PENDING_MAX_PACKETS \<and> same_neighbor k (pq_entries q j)}"
  let ?T = "{j. j < ROUTER_PENDING_MAX_PACKETS \<and> same_neighbor k (((pq_entries q)(i := x)) j)}"
  have f: "finite ?S" by simp
  show ?thesis
  proof (cases "same_neighbor k x")
    case True
    have "?T \<subseteq> insert i ?S" by auto
    then have "card ?T \<le> card (insert i ?S)" using f by (intro card_mono) auto
    also have "\<dots> \<le> Suc (card ?S)" by (rule card_insert_le_m1) simp_all
    finally show ?thesis using True by (simp add: neighbor_load_card)
  next
    case False
    then have "?T \<subseteq> ?S" by (auto split: if_splits)
    then have "card ?T \<le> card ?S" using f by (intro card_mono) auto
    with False show ?thesis by (simp add: neighbor_load_card)
  qed
qed

lemma pending_wf_zero: "pending_wf pending_queue_zero"
  by (auto simp: pending_wf_def pending_queue_zero_def pqs.counted_zero neighbor_load_card
      same_neighbor_def packet_ok_def) (simp_all add: pending_zero_def)

lemma enqueue_wf:
  assumes wf: "pending_wf q" and r: "router_pending_enqueue q ok k ing port hops ex f now = (q', b)"
  shows "pending_wf q'"
proof (cases b)
  case False
  with r have "pq_entries q' = pq_entries q" "pq_count q' = pq_count q"
    by (auto simp: router_pending_enqueue_def Let_def split: if_splits option.splits)
  with wf show ?thesis by (simp add: pending_wf_def neighbor_load_def)
next
  case True
  with r obtain i x where i: "first_slot (\<lambda>p. \<not> pp_used p) ROUTER_PENDING_MAX_PACKETS (pq_entries q) = Some i"
    "neighbor_load q k < ROUTER_PENDING_PER_NEIGHBOR" "\<not> enqueue_refused k ing f"
    and x: "q' = q\<lparr>pq_entries := (pq_entries q)(i := x), pq_count := pq_count q + 1,
         pq_enqueued := pq_enqueued q + 1\<rparr>" "pp_used x" "pp_key x = k" "pp_frame x = Some f"
         "pp_length x = length f"
    by (auto simp: router_pending_enqueue_def pp_key_def not_le split: if_splits option.splits)
  from first_slot_SomeD [OF i(1)] have free: "i < ROUTER_PENDING_MAX_PACKETS" "\<not> pp_used (pq_entries q i)"
    by auto
  have wfl: "neighbor_load q k' \<le> ROUTER_PENDING_PER_NEIGHBOR" for k'
    using wf unfolding pending_wf_def by blast
  have "neighbor_load q' k' \<le> ROUTER_PENDING_PER_NEIGHBOR" for k'
  proof (cases "same_neighbor k' x")
    case True
    with x(3) have "k' = k" by (simp add: same_neighbor_def)
    with True i(2) neighbor_load_set [where q = q and i = i and x = x and c = "pq_count q + 1"
        and e = "pq_enqueued q + 1" and k = k'] show ?thesis by (simp add: x(1))
  next
    case False
    with wfl [of k'] neighbor_load_set [where q = q and i = i and x = x and c = "pq_count q + 1"
        and e = "pq_enqueued q + 1" and k = k'] show ?thesis by (simp add: x(1))
  qed
  moreover have "packet_ok x" using x i(3) by (simp add: packet_ok_def enqueue_refused_def)
  moreover have "slots_counted pp_used ROUTER_PENDING_MAX_PACKETS ((pq_entries q)(i := x)) (Suc (pq_count q))"
    using wf free x(2) by (intro pqs.counted_alloc) (simp_all add: pending_wf_def)
  ultimately show ?thesis using wf by (simp add: pending_wf_def x(1))
qed

lemma packet_ok_zero: "packet_ok pending_zero" "\<not> same_neighbor k pending_zero"
  by (simp_all add: packet_ok_def same_neighbor_def pending_zero_def)

lemma take_wf:
  assumes wf: "pending_wf q" and r: "router_pending_take q k = (q', p)"
  shows "pending_wf q'"
proof (cases "first_slot (same_neighbor k) ROUTER_PENDING_MAX_PACKETS (pq_entries q)")
  case None
  with wf r show ?thesis by (simp add: router_pending_take_def)
next
  case (Some i)
  then have i: "i < ROUTER_PENDING_MAX_PACKETS" "pp_used (pq_entries q i)"
    by (auto dest: first_slot_SomeD simp: same_neighbor_def)
  from r Some have q': "q' = q\<lparr>pq_entries := (pq_entries q)(i := pending_zero),
      pq_count := pq_count q - 1, pq_replayed := pq_replayed q + 1\<rparr>"
    by (simp add: router_pending_take_def)
  have "neighbor_load q' k' \<le> neighbor_load q k'" for k'
    unfolding q' by (rule neighbor_load_mono) (auto simp: packet_ok_zero split: if_splits)
  with wf have "neighbor_load q' k' \<le> ROUTER_PENDING_PER_NEIGHBOR" for k'
    unfolding pending_wf_def by (meson order_trans)
  with wf i show ?thesis
    using pqs.counted_release(1) [of ROUTER_PENDING_MAX_PACKETS "pq_entries q" "pq_count q" i]
    by (simp add: pending_wf_def q' packet_ok_zero)
qed

lemma expire_wf:
  assumes wf: "pending_wf q"
  shows "pending_wf (fst (router_pending_expire q now))"
proof -
  let ?e = "\<lambda>i. if i < ROUTER_PENDING_MAX_PACKETS \<and> pp_used (pq_entries q i) \<and>
    pending_expired now (pq_entries q i) then pending_zero else pq_entries q i"
  let ?k = "card {i. i < ROUTER_PENDING_MAX_PACKETS \<and> pp_used (pq_entries q i) \<and>
    pending_expired now (pq_entries q i)}"
  have c: "slots_counted pp_used ROUTER_PENDING_MAX_PACKETS (pq_entries q) (pq_count q)"
    using wf by (simp add: pending_wf_def)
  have q': "fst (router_pending_expire q now) = q\<lparr>pq_entries := ?e, pq_count := pq_count q - ?k,
      pq_expired := pq_expired q + of_nat ?k\<rparr>"
    by (simp add: router_pending_expire_def pqs.sweep_result(1) [OF c])
  have "neighbor_load (fst (router_pending_expire q now)) k \<le> neighbor_load q k" for k
    unfolding q' by (rule neighbor_load_mono) (auto simp: packet_ok_zero split: if_splits)
  with wf have "neighbor_load (fst (router_pending_expire q now)) k \<le> ROUTER_PENDING_PER_NEIGHBOR" for k
    unfolding pending_wf_def by (meson order_trans)
  with wf pqs.sweep_result(2) [OF c, of "pending_expired now"] show ?thesis
    unfolding pending_wf_def by (simp add: q' packet_ok_zero)
qed

section \<open>Frames in, frames out\<close>

lemma enqueue_take:
  assumes r: "router_pending_enqueue q ok k ing port hops ex f now = (q', True)"
    and fresh: "neighbor_load q k = 0"
  shows "\<exists>q'' p. router_pending_take q' k = (q'', Some p) \<and> pp_frame p = Some f \<and>
     pp_ingress_interface_id p = ing \<and> pp_ingress_port p = port \<and> pp_link_hops p = hops \<and>
     pp_expected_egress_interface p = ex \<and> neighbor_load q'' k = 0"
proof -
  from r obtain i x where i: "first_slot (\<lambda>p. \<not> pp_used p) ROUTER_PENDING_MAX_PACKETS (pq_entries q) = Some i"
    and x: "q' = q\<lparr>pq_entries := (pq_entries q)(i := x), pq_count := pq_count q + 1,
         pq_enqueued := pq_enqueued q + 1\<rparr>" "same_neighbor k x" "pp_frame x = Some f"
       "pp_ingress_interface_id x = ing" "pp_ingress_port x = port" "pp_link_hops x = hops"
       "pp_expected_egress_interface x = ex"
    by (auto simp: router_pending_enqueue_def same_neighbor_def pp_key_def not_le
        split: if_splits option.splits)
  from first_slot_SomeD [OF i] have il: "i < ROUTER_PENDING_MAX_PACKETS" by simp
  have none: "\<not> same_neighbor k (pq_entries q j)" if "j < ROUTER_PENDING_MAX_PACKETS" for j
    using fresh that by (simp add: neighbor_load_card)
  have "first_slot (same_neighbor k) ROUTER_PENDING_MAX_PACKETS (pq_entries q') = Some i"
    using il x(1,2) none by (intro first_slot_unique) (auto split: if_splits)
  then have "router_pending_take q' k = (q'\<lparr>pq_entries := (pq_entries q')(i := pending_zero),
      pq_count := pq_count q' - 1, pq_replayed := pq_replayed q' + 1\<rparr>, Some x)"
    by (simp add: router_pending_take_def x(1))
  moreover have "neighbor_load (q'\<lparr>pq_entries := (pq_entries q')(i := pending_zero),
      pq_count := pq_count q' - 1, pq_replayed := pq_replayed q' + 1\<rparr>) k = 0"
    using none by (auto simp: neighbor_load_card x(1) packet_ok_zero)
  ultimately show ?thesis using x by blast
qed

lemma take_matches:
  "router_pending_take q k = (q', Some p) \<Longrightarrow> pending_wf q \<Longrightarrow>
   pp_key p = k \<and> pp_frame p \<noteq> None \<and> pp_length p = length (the (pp_frame p))"
proof -
  assume t: "router_pending_take q k = (q', Some p)" and wf: "pending_wf q"
  then obtain i where "i < ROUTER_PENDING_MAX_PACKETS" "same_neighbor k (pq_entries q i)"
    "p = pq_entries q i"
    by (auto simp: router_pending_take_def split: option.splits dest: first_slot_SomeD)
  moreover from wf have "packet_ok (pq_entries q i)" unfolding pending_wf_def by blast
  ultimately show ?thesis by (auto simp: same_neighbor_def packet_ok_def)
qed

section \<open>Reachable queues\<close>

datatype pending_event =
    Enqueue bool pending_key u16 u16 u8 u16 bytes u64
  | Take pending_key
  | Expire u64
  | Destroy

fun pending_step :: "router_pending_queue \<Rightarrow> pending_event \<Rightarrow> router_pending_queue" where
  "pending_step q (Enqueue ok k ing port hops ex f now) =
     fst (router_pending_enqueue q ok k ing port hops ex f now)"
| "pending_step q (Take k) = fst (router_pending_take q k)"
| "pending_step q (Expire now) = fst (router_pending_expire q now)"
| "pending_step q Destroy = router_pending_destroy q"

lemma pending_step_wf: "pending_wf q \<Longrightarrow> pending_wf (pending_step q ev)"
proof (cases ev)
  case (Enqueue ok k ing port hops ex f now)
  then show "pending_wf q \<Longrightarrow> ?thesis"
    by (cases "router_pending_enqueue q ok k ing port hops ex f now") (auto dest: enqueue_wf)
next
  case (Take k)
  then show "pending_wf q \<Longrightarrow> ?thesis" by (cases "router_pending_take q k") (auto dest: take_wf)
qed (simp_all add: expire_wf router_pending_destroy_def pending_wf_zero)

lemma pending_run_wf: "pending_wf q \<Longrightarrow> pending_wf (foldl pending_step q evs)"
  by (induction evs arbitrary: q) (simp_all add: pending_step_wf)

section \<open>Properties\<close>

text \<open>C26: Whatever is enqueued, taken, expired or destroyed, the counter of the pending queue equals the
  number of live slots, no neighbor holds more than sixteen of them, every live slot owns a frame of
  the recorded length and every free slot owns none, so no frame leaks.\<close>

theorem pending_queue_invariant: "pending_wf (foldl pending_step pending_queue_zero evs)"
  by (rule pending_run_wf [OF pending_wf_zero])



end
