(* ===== verification/Router_Icmp.thy ===== *)
theory Router_Icmp
  imports Router_Forward
begin

text \<open>
  Echo replies for the router's own addresses: \<^verbatim>\<open>router/router_icmp.c\<close>.  \<open>None\<close> is the return
  value 0, \<open>Some\<close> the frame written to the output buffer.
\<close>

section \<open>The handler\<close>

definition ICMP_HEADER_LEN :: nat where "ICMP_HEADER_LEN = 8"

text \<open>The output writes: IPv4 header with swapped addresses, then the ICMP header.\<close>

definition icmp_ip_header :: "bytes \<Rightarrow> bytes \<Rightarrow> u32 \<Rightarrow> nat \<Rightarrow> bytes" where
  "icmp_ip_header p out local ihl =
     (let o1 = write32 (out[22 := 64]) 26 local;
          o2 = (memcpy_at o1 30 (slice p 26 4))[24 := 0, 25 := 0] in
      write16 o2 24 (checksum (slice o2 14 ihl)))"

definition icmp_icmp_header :: "bytes \<Rightarrow> nat \<Rightarrow> nat \<Rightarrow> bytes" where
  "icmp_icmp_header out at len =
     (let o1 = out[at := 0, at + 1 := 0, at + 2 := 0, at + 3 := 0] in
      write16 o1 (at + 2) (checksum (slice o1 at len)))"

definition icmp_reply_for_interface ::
  "router_config \<Rightarrow> router_interface \<Rightarrow> bytes \<Rightarrow> nat \<Rightarrow> bytes option" where
  "icmp_reply_for_interface c ing p capacity =
     (if length p < ETH_HEADER_LEN + IPV4_MIN_HEADER_LEN + ICMP_HEADER_LEN then None
      else if \<not> ethertype_ipv4 p \<or> p ! 6 AND 1 \<noteq> 0 then None
      else if \<not> ip_version_ok p then None
      else let ihl = ip_header_length p; total = unat (read16 p 16) in
      if length p < ETH_HEADER_LEN + ihl + ICMP_HEADER_LEN \<or> p ! 23 \<noteq> 1 \<or>
         checksum (slice p 14 ihl) \<noteq> 0 then None
      else if total < ihl + ICMP_HEADER_LEN \<or> length p - ETH_HEADER_LEN < total then None
      else if read16 p 20 AND 0x3fff \<noteq> 0 then None
      else if \<not> rif_has_address ing \<or> slice p 0 6 \<noteq> rif_mac ing then None
      else
        (case find (\<lambda>r. rif_vr_id r = rif_vr_id ing \<and> rif_has_address r \<and>
                        rif_address r = read32 p 30) (cfg_interfaces c) of
           None \<Rightarrow> None
         | Some local \<Rightarrow>
             if read32 p 26 = rif_address local then None
             else let len = total - ihl in
             if p ! (14 + ihl) \<noteq> 8 \<or> p ! (14 + ihl + 1) \<noteq> 0 \<or> checksum (slice p (14 + ihl) len) \<noteq> 0
               then None
             else let frame_length = (if ETH_HEADER_LEN + total < ETHERNET_MIN_FRAME_NO_FCS
                                      then ETHERNET_MIN_FRAME_NO_FCS else ETH_HEADER_LEN + total) in
             if capacity < frame_length then None
             else
               let o0 = replicate frame_length 0;
                   o1 = memcpy_at (memcpy_at o0 0 (slice p 6 6)) 6 (rif_mac ing);
                   o2 = memcpy_at (o1[12 := 8, 13 := 0]) 14 (slice p 14 total) in
               Some (icmp_icmp_header (icmp_ip_header p o2 (rif_address local) ihl) (14 + ihl) len)))"

definition router_icmp_echo_reply ::
  "router_config \<Rightarrow> u16 \<Rightarrow> bytes \<Rightarrow> nat \<Rightarrow> bytes option" where
  "router_icmp_echo_reply c vs p capacity =
     (if vs = 0 then None
      else foldl (\<lambda>found r.
          (case found of Some f \<Rightarrow> Some f
           | None \<Rightarrow> if rif_attachment r \<noteq> ROUTER_VSWITCH \<or> rif_vswitch_id r \<noteq> vs then None
                     else icmp_reply_for_interface c r p capacity)) None (cfg_interfaces c))"

definition router_icmp_echo_reply_interface ::
  "router_config \<Rightarrow> u16 \<Rightarrow> bytes \<Rightarrow> nat \<Rightarrow> bytes option" where
  "router_icmp_echo_reply_interface c i p capacity =
     (if i = 0 then None
      else case interface_by_id c i of
        None \<Rightarrow> None | Some r \<Rightarrow> icmp_reply_for_interface c r p capacity)"

section \<open>The written headers\<close>

lemma icmp_ip_header_props:
  fixes a :: u32
  assumes "20 \<le> n" "n \<le> 60" "14 + n \<le> length out" "34 \<le> length p"
  defines "w \<equiv> icmp_ip_header p out a n"
  shows "length w = length out" "checksum (slice w 14 n) = 0" "read32 w 26 = a"
    "read32 w 30 = read32 p 26" "w ! 22 = 64"
    "\<And>j. j < length out \<Longrightarrow> j < 22 \<or> j = 23 \<or> 34 \<le> j \<Longrightarrow> w ! j = out ! j"
proof -
  define o1 where "o1 = write32 (out[22 := 64]) 26 a"
  define o2 where "o2 = (memcpy_at o1 30 (slice p 26 4))[24 := 0, 25 := 0]"
  have w: "w = write16 o2 24 (checksum (slice o2 14 n))"
    by (simp add: w_def icmp_ip_header_def o1_def o2_def Let_def)
  have s: "length (slice p 26 4) = 4" using assms(4) by (simp add: length_slice)
  have l1: "length o1 = length out" by (simp add: o1_def)
  have l2: "length o2 = length out" using assms(1,3) l1 s by (simp add: o2_def length_memcpy_at)
  show lw: "length w = length out" using l2 by (simp add: w)
  have sl: "slice w 14 n = write16 (slice o2 14 n) 10 (checksum (slice o2 14 n))"
    using assms(1,3) l2 slice_write16 [of 14 24 n o2 "checksum (slice o2 14 n)"] by (simp add: w)
  have z: "slice o2 14 n ! 10 = 0" "slice o2 14 n ! 11 = 0"
    using assms(1,3) l1 l2 s by (simp_all add: nth_slice o2_def nth_list_update length_memcpy_at)
  show "checksum (slice w 14 n) = 0"
    unfolding sl using assms(1,2,3) l2 z by (intro checksum_store_all) (simp_all add: length_slice)
  have nth: "w ! j = (if 30 \<le> j \<and> j < 34 then p ! (j - 4) else o1 ! j)"
    if "j < length out" "j \<noteq> 24" "j \<noteq> 25" for j
    using that assms(1,3,4) l1 s
    by (auto simp: w write16_def o2_def nth_list_update nth_memcpy_at length_memcpy_at nth_slice)
  have o1: "o1 ! j = (if j = 22 then 64 else out ! j)" if "j < length out" "j < 26 \<or> 30 \<le> j" for j
    using that by (auto simp: o1_def write32_nth_other nth_list_update)
  show "w ! j = out ! j" if "j < length out" "j < 22 \<or> j = 23 \<or> 34 \<le> j" for j
    using that nth [of j] o1 [of j] by auto
  have lo: "34 \<le> length out" using assms(1,3) by simp
  show "w ! 22 = 64" using nth [of 22] o1 [of 22] lo by simp
  have "read32 w 26 = read32 o1 26" using lo by (intro read32_cong) (simp_all add: nth)
  also have "\<dots> = a" using lo by (simp add: o1_def)
  finally show "read32 w 26 = a" .
  show "read32 w 30 = read32 p 26" using lo by (intro read32_cong) (simp_all add: nth)
qed

lemma icmp_icmp_header_props:
  assumes "8 \<le> n" "n \<le> 65535" "at + n \<le> length out"
  defines "w \<equiv> icmp_icmp_header out at n"
  shows "length w = length out" "checksum (slice w at n) = 0" "w ! at = 0" "w ! (at + 1) = 0"
    "\<And>j. j < at \<or> at + 4 \<le> j \<Longrightarrow> w ! j = out ! j"
proof -
  define o1 where "o1 = out[at := 0, at + 1 := 0, at + 2 := 0, at + 3 := 0]"
  have w: "w = write16 o1 (at + 2) (checksum (slice o1 at n))"
    by (simp add: w_def icmp_icmp_header_def o1_def Let_def)
  have l1: "length o1 = length out" by (simp add: o1_def)
  then show "length w = length out" by (simp add: w)
  have sl: "slice w at n = write16 (slice o1 at n) 2 (checksum (slice o1 at n))"
    using assms(1,3) l1 slice_write16 [of at "at + 2" n o1 "checksum (slice o1 at n)"] by (simp add: w)
  show "checksum (slice w at n) = 0"
    unfolding sl using assms(1,2,3) l1
    by (intro checksum_store_all) (simp_all add: length_slice nth_slice o1_def nth_list_update)
  show "w ! at = 0" "w ! (at + 1) = 0"
    using assms(1,3) by (simp_all add: w write16_def o1_def nth_list_update)
  show "\<And>j. j < at \<or> at + 4 \<le> j \<Longrightarrow> w ! j = out ! j"
    by (auto simp: w write16_def o1_def nth_list_update)
qed

section \<open>The reply\<close>

lemma icmp_reply_aux:
  assumes r: "icmp_reply_for_interface c ing p cap = Some out" and mac: "length (rif_mac ing) = 6"
  defines "ihl \<equiv> ip_header_length p" and "tot \<equiv> unat (read16 p 16)"
  shows "length out = max 60 (14 + tot) \<and> length out \<le> cap \<and>
    slice out 0 6 = slice p 6 6 \<and> slice out 6 6 = rif_mac ing \<and> ethertype_ipv4 out \<and>
    out ! 22 = 64 \<and> read32 out 26 = read32 p 30 \<and> read32 out 30 = read32 p 26 \<and>
    out ! (14 + ihl) = 0 \<and> out ! (14 + ihl + 1) = 0 \<and>
    (\<forall>j. 14 + ihl + 4 \<le> j \<and> j < 14 + tot \<longrightarrow> out ! j = p ! j) \<and>
    checksum (slice out 14 ihl) = 0 \<and> checksum (slice out (14 + ihl) (tot - ihl)) = 0 \<and>
    is_local c (rif_vr_id ing) (read32 p 30)"
proof -
  define n where "n = (if 14 + tot < 60 then 60 else 14 + tot)"
  define o0 where "o0 = memcpy_at (memcpy_at (replicate n 0) 0 (slice p 6 6)) 6 (rif_mac ing)"
  define o2 where "o2 = memcpy_at (o0[12 := 8, 13 := 0]) 14 (slice p 14 tot)"
  from r obtain loc where ok: "42 \<le> length p" "ip_version_ok p" "n \<le> cap"
      "ihl + 8 \<le> tot" "14 + tot \<le> length p"
      "find (\<lambda>r. rif_vr_id r = rif_vr_id ing \<and> rif_has_address r \<and>
          rif_address r = read32 p 30) (cfg_interfaces c) = Some loc"
    and out: "out = icmp_icmp_header (icmp_ip_header p o2 (rif_address loc) ihl) (14 + ihl) (tot - ihl)"
    unfolding icmp_reply_for_interface_def n_def o2_def o0_def tot_def ihl_def
    by (auto simp: Let_def frame_consts ICMP_HEADER_LEN_def not_less le_diff_conv2
        split: if_splits option.splits)
  from find_SomeD [OF ok(6)] have loc: "rif_address loc = read32 p 30"
    "is_local c (rif_vr_id ing) (read32 p 30)" by (auto simp: is_local_def list_ex_iff)
  have h: "20 \<le> ihl" "ihl \<le> 60" using ip_header_length_bounds [OF ok(2)] by (auto simp: ihl_def)
  have t: "tot \<le> 65535" using unat_u16_less [of "read16 p 16"] unfolding tot_def by linarith
  have n60: "60 \<le> n" "14 + tot \<le> n" by (auto simp: n_def)
  have sm: "length (slice p 6 6) = 6" using ok(1) by (simp add: length_slice)
  have l0: "length o0 = n" using mac n60 sm by (simp add: o0_def length_memcpy_at)
  have sl: "length (slice p 14 tot) = tot" using ok(5) by (simp add: length_slice)
  have l2: "length o2 = n" using l0 n60 sl by (simp add: o2_def length_memcpy_at)
  have o0: "o0 ! j = (if j < 6 then p ! (6 + j) else if j < 12 then rif_mac ing ! (j - 6) else 0)"
    if "j < n" for j
    using that mac n60 sm ok(1) by (auto simp: o0_def nth_memcpy_at length_memcpy_at nth_slice)
  have o2: "o2 ! j = (if j < 6 then p ! (6 + j) else if j < 12 then rif_mac ing ! (j - 6)
      else if j = 12 then 8 else if j = 13 then 0 else if j < 14 + tot then p ! j else 0)" if "j < n" for j
    using that l0 n60 sl o0 [OF that] ok(5)
    by (auto simp: o2_def nth_memcpy_at nth_slice nth_list_update)
  define w where "w = icmp_ip_header p o2 (rif_address loc) ihl"
  have "14 + ihl \<le> length o2" "34 \<le> length p" using l2 ok(1,4) n60 by simp_all
  note W = icmp_ip_header_props [OF h this, where a = "rif_address loc", folded w_def]
  have b: "8 \<le> tot - ihl" "tot - ihl \<le> 65535" "14 + ihl + (tot - ihl) \<le> length w"
    using ok(4) t W(1) l2 n60 by simp_all
  note O = icmp_icmp_header_props [OF b, folded out [folded w_def]]
  have keep: "out ! j = o2 ! j" if "j < n" "j < 22" for j
    using that O(5) [of j] W(6) [of j] h l2 by simp
  have "slice out 14 ihl = slice w 14 ihl"
    using O(1,5) b(3) h by (intro slice_cong) simp_all
  then have c1: "checksum (slice out 14 ihl) = 0" using W(2) by simp
  have r32: "read32 out 26 = read32 w 26" "read32 out 30 = read32 w 30"
    using O(5) h by (intro read32_cong; simp)+
  have macs: "slice out 0 6 = slice p 6 6" "slice out 6 6 = rif_mac ing"
    using mac sm O(1) W(1) l2 n60 keep o2 ok(1)
    by (auto intro!: nth_equalityI simp: length_slice nth_slice)
  have et: "ethertype_ipv4 out" using n60 keep o2 by (simp add: ethertype_ipv4_def)
  have pay: "out ! j = p ! j" if "14 + ihl + 4 \<le> j" "j < 14 + tot" for j
    using that O(5) [of j] W(6) [of j] h l2 n60 o2 [of j] by simp
  have ttl: "out ! 22 = 64" using O(5) [of 22] W(5) h by simp
  have "length out = max 60 (14 + tot)" using O(1) W(1) l2 by (simp add: n_def max_def)
  then show ?thesis
    using c1 r32 macs et pay ttl O(2-4) W(3,4) loc ok(3) O(1) W(1) l2 by simp
qed

section \<open>Properties\<close>

text \<open>C28: An Echo Reply goes back to the sender's MAC from the interface's MAC, with the addresses of the
  request swapped, type and code zero, the identifier, sequence number and data unchanged, time to
  live 64, and valid header and ICMP checksums; it is sent only for an address of the router.\<close>

theorem icmp_reply_correct:
  assumes "icmp_reply_for_interface c ing p cap = Some out" "length (rif_mac ing) = 6"
  shows "length out = max 60 (14 + unat (read16 p 16)) \<and> length out \<le> cap \<and>
    slice out 0 6 = slice p 6 6 \<and> slice out 6 6 = rif_mac ing \<and> ethertype_ipv4 out \<and>
    out ! 22 = 64 \<and> read32 out 26 = read32 p 30 \<and> read32 out 30 = read32 p 26 \<and>
    out ! (14 + ip_header_length p) = 0 \<and> out ! (14 + ip_header_length p + 1) = 0 \<and>
    (\<forall>j. 14 + ip_header_length p + 4 \<le> j \<and> j < 14 + unat (read16 p 16) \<longrightarrow> out ! j = p ! j) \<and>
    checksum (slice out 14 (ip_header_length p)) = 0 \<and>
    checksum (slice out (14 + ip_header_length p) (unat (read16 p 16) - ip_header_length p)) = 0 \<and>
    is_local c (rif_vr_id ing) (read32 p 30)"
  by (rule icmp_reply_aux [OF assms])

theorem icmp_reply_correct_witness:
  "\<exists>out. icmp_reply_for_interface sample_config lan_rif ping 60 = Some out \<and>
     out ! 34 = 0 \<and> read32 out 30 = 0x0A000007"
proof -
  have "icmp_reply_for_interface sample_config lan_rif ping 60 \<noteq> None" by code_simp
  then obtain out where o: "icmp_reply_for_interface sample_config lan_rif ping 60 = Some out" by auto
  have "length (rif_mac lan_rif) = 6" "ip_header_length ping = 20" "read32 ping 26 = 0x0A000007"
    by code_simp+
  with icmp_reply_correct [OF o] o show ?thesis by auto
qed

end
