(* ===== verification/Blocks.thy ===== *)
theory Blocks
  imports Router_Config
begin

text \<open>
  Covering an inclusive range by aligned power-of-two blocks, each one ternary match
  (value and prefix mask): \<^verbatim>\<open>router/router_acl_plan.h\<close> for ports and the loop of
  \<open>append_u8_prefixes\<close> in \<^verbatim>\<open>router/router_egress.c\<close> for ICMP types and codes.  The locale
  \<open>range_cover\<close> states what the block function of either loop promises and proves that the
  blocks partition the range; it is interpreted on both loops.
\<close>

section \<open>Blocks\<close>

text \<open>\<open>while (block > remaining) block >>= 1\<close>.\<close>

function shrink_block :: "u32 \<Rightarrow> u32 \<Rightarrow> u32" where
  "shrink_block block remaining =
     (if remaining < block then shrink_block (drop_bit 1 block) remaining else block)"
  by pat_completeness auto
termination
proof (relation "measure (\<lambda>(b, r). unat b)")
  fix r b :: u32
  assume "r < b"
  then have "0 < unat b" by (simp add: word_less_nat_alt)
  then show "((drop_bit 1 b, r), (b, r)) \<in> measure (\<lambda>(b, r). unat b)"
    by (simp add: drop_bit_eq_div unat_div)
qed simp

declare shrink_block.simps [simp del]

definition low_bit :: "u32 \<Rightarrow> u32 \<Rightarrow> u32" where
  "low_bit full cursor = (if cursor = 0 then full else cursor AND (0 - cursor))"

definition router_acl_port_block :: "u32 \<Rightarrow> u32 \<Rightarrow> u32" where
  "router_acl_port_block cursor lst = shrink_block (low_bit 65536 cursor) (lst - cursor + 1)"

definition u8_block :: "u32 \<Rightarrow> u32 \<Rightarrow> u32" where
  "u8_block cursor lst = shrink_block (low_bit 256 cursor) (lst - cursor + 1)"

section \<open>Powers of two\<close>

definition pow2_upto :: "nat \<Rightarrow> u32 \<Rightarrow> bool" where
  "pow2_upto n b \<longleftrightarrow> (\<exists>k. 2 ^ k \<le> n \<and> unat b = 2 ^ k)"

lemma odd_low_bit:
  assumes "odd y"
  shows "y AND - y = (1 :: u32)"
proof (rule bit_word_eqI)
  fix n
  assume "n < LENGTH(32)"
  have b0: "bit y 0" using assms by (simp add: bit_0)
  have y1: "y - 1 = y AND NOT 1"
  proof -
    have "(y AND NOT 1) + 1 = (y AND NOT 1) OR 1"
      by (rule disjunctive_add_eq_or) (rule bit_word_eqI, auto simp: bit_simps)
    also have "\<dots> = y"
      by (rule bit_word_eqI) (use b0 in \<open>auto simp: bit_simps\<close>)
    finally show ?thesis by (metis add_diff_cancel)
  qed
  have "- y = NOT (y - 1)" by (rule minus_eq_not_minus_1)
  then have "bit (- y) n \<longleftrightarrow> n < 32 \<and> (n = 0 \<or> \<not> bit y n)"
    unfolding y1 using b0 by (auto simp: bit_simps)
  then show "bit (y AND - y) n \<longleftrightarrow> bit (1 :: u32) n"
    using b0 by (auto simp: bit_simps)
qed

lemma odd_part: "0 < n \<Longrightarrow> \<exists>k m. n = 2 ^ k * m \<and> odd (m :: nat)"
proof (induction n rule: less_induct)
  case (less n)
  show ?case
  proof (cases "odd n")
    case True
    then show ?thesis by (intro exI [of _ 0] exI [of _ n]) simp
  next
    case False
    then obtain j where j: "n = 2 * j" by auto
    with less.prems have "0 < j" "j < n" by auto
    from less.IH [OF this(2,1)] obtain k m where "j = 2 ^ k * m" "odd m" by blast
    with j show ?thesis by (intro exI [of _ "Suc k"] exI [of _ m]) simp
  qed
qed

lemma low_bit_pow2:
  assumes "0 < unat x"
  shows "\<exists>k. unat (x AND (0 - x)) = 2 ^ k \<and> 2 ^ k dvd unat (x :: u32)"
proof -
  obtain k m where km: "unat x = 2 ^ k * m" "odd m" using odd_part [OF assms] by blast
  define y :: u32 where "y = of_nat m"
  have x: "x = push_bit k y"
    using arg_cong [OF km(1), of "of_nat :: nat \<Rightarrow> u32"] by (simp add: y_def push_bit_eq_mult mult.commute)
  have "odd y" using km(2) by (simp add: y_def)
  have "0 - x = push_bit k (- y)" by (simp add: x push_bit_eq_mult)
  then have "x AND (0 - x) = push_bit k 1"
    unfolding x by (simp add: push_bit_and [symmetric] odd_low_bit [OF \<open>odd y\<close>])
  moreover have "2 ^ k < (4294967296 :: nat)"
  proof -
    have "2 ^ k \<le> unat x" using km assms by (cases m) auto
    then show ?thesis using unat_u32_less [of x] by linarith
  qed
  ultimately have "unat (x AND (0 - x)) = 2 ^ k"
    using of_nat_inverse [of "2 ^ k" "x AND (0 - x)"] by (simp add: push_bit_eq_mult)
  with km(1) show ?thesis by auto
qed

lemma shrink_block_pow2:
  "unat b = 2 ^ k \<Longrightarrow> 0 < r \<Longrightarrow>
   \<exists>j\<le>k. unat (shrink_block b r) = 2 ^ j \<and> 2 ^ j \<le> unat r"
proof (induction b r arbitrary: k rule: shrink_block.induct)
  case (1 b r)
  show ?case
  proof (cases "r < b")
    case False
    then have "shrink_block b r = b" by (simp add: shrink_block.simps [of b r])
    with False 1(2) show ?thesis
      by (intro exI [of _ k]) (simp add: not_less word_le_nat_alt)
  next
    case True
    with 1(3) have "1 < unat b" by (simp add: word_less_nat_alt)
    with 1(2) obtain k' where k: "k = Suc k'" by (cases k) auto
    have "unat (drop_bit 1 b) = 2 ^ k'" using 1(2) k by (simp add: drop_bit_eq_div unat_div)
    from 1(1) [OF True this 1(3)] obtain j where
      "j \<le> k'" "unat (shrink_block (drop_bit 1 b) r) = 2 ^ j" "2 ^ j \<le> unat r" by blast
    with True k show ?thesis
      by (intro exI [of _ j]) (simp add: shrink_block.simps [of b r])
  qed
qed

text \<open>What a block function promises for a cursor in the range: an aligned block inside it.\<close>

definition block_ok :: "u32 \<Rightarrow> u32 \<Rightarrow> u32 \<Rightarrow> bool" where
  "block_ok b cursor lst \<longleftrightarrow>
     (\<exists>k\<le>16. unat b = 2 ^ k \<and> 2 ^ k dvd unat cursor \<and> unat cursor + 2 ^ k \<le> unat lst + 1)"

lemma remaining_unat:
  assumes "cursor \<le> lst" "lst < 65536"
  shows "unat (lst - cursor + 1 :: u32) = unat lst - unat cursor + 1"
proof -
  have a: "unat (lst - cursor) = unat lst - unat cursor"
    using assms(1) by (simp add: unat_sub word_le_nat_alt)
  have "unat lst < 65536" using assms(2) by (simp add: word_less_nat_alt)
  then show ?thesis by (simp add: unat_word_ariths a)
qed

lemma shrunk_block_ok:
  assumes "cursor \<le> lst" "lst < 65536" "unat full = 2 ^ f" "f \<le> 16"
  shows "block_ok (shrink_block (low_bit full cursor) (lst - cursor + 1)) cursor lst"
proof -
  have l: "unat lst < 65536" "unat cursor \<le> unat lst"
    using assms(1,2) by (simp_all add: word_less_nat_alt word_le_nat_alt)
  obtain k where k: "unat (low_bit full cursor) = 2 ^ k" "2 ^ k dvd unat cursor" "k \<le> 16"
  proof (cases "cursor = 0")
    case True
    with assms(3,4) that [of f] show ?thesis by (simp add: low_bit_def)
  next
    case False
    then have c: "0 < unat cursor" by (simp add: unat_gt_0)
    then obtain k where k: "unat (cursor AND (0 - cursor)) = 2 ^ k" "2 ^ k dvd unat cursor"
      using low_bit_pow2 by blast
    have "(2 :: nat) ^ k < 2 ^ 17" using k(2) c l by (auto dest!: dvd_imp_le)
    then have "k \<le> 16" using power_less_imp_less_exp [of "2::nat" k 17] by simp
    with k False that [of k] show ?thesis by (simp add: low_bit_def)
  qed
  have r: "unat (lst - cursor + 1) = unat lst - unat cursor + 1"
    by (rule remaining_unat [OF assms(1,2)])
  then have "0 < lst - cursor + 1" by (simp add: word_less_nat_alt)
  from shrink_block_pow2 [OF k(1) this] obtain j where j: "j \<le> k"
    "unat (shrink_block (low_bit full cursor) (lst - cursor + 1)) = 2 ^ j"
    "2 ^ j \<le> unat lst - unat cursor + 1" using r by auto
  have "2 ^ j dvd unat cursor" using j(1) k(2) by (meson dvd_trans le_imp_power_dvd)
  moreover have "unat cursor + 2 ^ j \<le> unat lst + 1" using j(3) l by simp
  ultimately show ?thesis unfolding block_ok_def using j(1,2) k(3) by (intro exI [of _ j]) auto
qed

lemma port_block_ok: "cursor \<le> lst \<Longrightarrow> lst < 65536 \<Longrightarrow> block_ok (router_acl_port_block cursor lst) cursor lst"
  unfolding router_acl_port_block_def by (rule shrunk_block_ok [of _ _ _ 16]) simp_all

lemma u8_block_ok: "cursor \<le> lst \<Longrightarrow> lst < 65536 \<Longrightarrow> block_ok (u8_block cursor lst) cursor lst"
  unfolding u8_block_def by (rule shrunk_block_ok [of _ _ _ 8]) simp_all

section \<open>Covers\<close>

text \<open>A ternary match of value \<open>c\<close> under the mask of a block.\<close>

definition block_match :: "u32 \<Rightarrow> u32 \<Rightarrow> u32 \<Rightarrow> bool" where
  "block_match v c b \<longleftrightarrow> v AND NOT (b - 1) = c"

lemma block_match_range:
  assumes "unat b = 2 ^ k" "2 ^ k dvd unat c"
  shows "block_match v c b \<longleftrightarrow> unat c \<le> unat v \<and> unat v < unat c + 2 ^ k"
proof -
  have "b = of_nat (unat b)" by simp
  then have b: "b = 2 ^ k" by (simp only: assms(1)) simp
  have "v AND NOT (b - 1) = push_bit k (drop_bit k v)"
    unfolding b mask_eq_exp_minus_1 [symmetric] by (rule bit_word_eqI) (auto simp: bit_simps)
  moreover have "unat (push_bit k (drop_bit k v)) = 2 ^ k * (unat v div 2 ^ k)"
  proof -
    have "2 ^ k * (unat v div 2 ^ k) \<le> unat v" by simp
    then have "2 ^ k * (unat v div 2 ^ k) < 4294967296"
      using unat_u32_less [of v] by linarith
    moreover have d: "unat (drop_bit k v) = unat v div 2 ^ k"
      by (simp only: unsigned_drop_bit_eq) (simp add: drop_bit_eq_div take_bit_eq_mod)
    have "of_nat (2 ^ k * unat w) = push_bit k w" for w :: u32
      by (simp add: push_bit_eq_mult mult.commute)
    from this [of "drop_bit k v"] have "of_nat (2 ^ k * (unat v div 2 ^ k)) = push_bit k (drop_bit k v)"
      unfolding d .
    ultimately show ?thesis
      using of_nat_inverse [of "2 ^ k * (unat v div 2 ^ k)" "push_bit k (drop_bit k v)"] by simp
  qed
  ultimately have "block_match v c b \<longleftrightarrow> 2 ^ k * (unat v div 2 ^ k) = unat c"
    unfolding block_match_def by (metis word_unat_eq_iff)
  also have "\<dots> \<longleftrightarrow> unat c \<le> unat v \<and> unat v < unat c + 2 ^ k"
  proof -
    obtain q where q: "unat c = 2 ^ k * q" using assms(2) by auto
    have "2 ^ k * (unat v div 2 ^ k) = 2 ^ k * q \<longleftrightarrow> unat v div 2 ^ k = q" by simp
    also have "\<dots> \<longleftrightarrow> 2 ^ k * q \<le> unat v \<and> unat v < 2 ^ k * q + 2 ^ k"
      using div_nat_eqI [of "2 ^ k" q "unat v"] dividend_less_times_div [of "2 ^ k" "unat v"]
      by (auto simp: mult.commute add.commute)
    finally show ?thesis by (simp add: q)
  qed
  finally show ?thesis .
qed

text \<open>
  A loop that walks a cursor over \<open>first .. lst\<close> in blocks, as a list of (cursor, block) pairs.
  Under the block law the pairs are disjoint and cover exactly the range.
\<close>

locale range_cover =
  fixes block :: "u32 \<Rightarrow> u32" and cover :: "u32 \<Rightarrow> (u32 \<times> u32) list" and lst :: u32
  assumes lst: "lst < 65536"
    and block_ok: "c \<le> lst \<Longrightarrow> block_ok (block c) c lst"
    and cover_rec: "cover c = (if c \<le> lst then (c, block c) # cover (c + block c) else [])"
begin

lemma block_step:
  assumes "c \<le> lst"
  shows "\<exists>k. unat (block c) = 2 ^ k \<and> 2 ^ k dvd unat c \<and> unat (c + block c) = unat c + 2 ^ k \<and>
     unat c + 2 ^ k \<le> unat lst + 1"
proof -
  obtain k where k: "k \<le> 16" "unat (block c) = 2 ^ k" "2 ^ k dvd unat c"
    "unat c + 2 ^ k \<le> unat lst + 1"
    using block_ok [OF assms] unfolding block_ok_def by blast
  have "unat lst < 65536" using lst by (simp add: word_less_nat_alt)
  then have "unat (c + block c) = unat c + 2 ^ k" using k by (simp add: unat_word_ariths)
  with k show ?thesis by blast
qed

lemma cover_covers:
  "(\<exists>(d, b)\<in>set (cover c). block_match v d b) \<longleftrightarrow> unat c \<le> unat v \<and> unat v \<le> unat lst"
proof (induction "Suc (unat lst) - unat c" arbitrary: c rule: less_induct)
  case less
  show ?case
  proof (cases "c \<le> lst")
    case False
    then have "cover c = []" using cover_rec [of c] by simp
    then show ?thesis using False by (auto simp: word_le_nat_alt)
  next
    case True
    obtain k where k: "unat (block c) = 2 ^ k" "2 ^ k dvd unat c"
      "unat (c + block c) = unat c + 2 ^ k" "unat c + 2 ^ k \<le> unat lst + 1"
      using block_step [OF True] by blast
    have m: "block_match v c (block c) \<longleftrightarrow> unat c \<le> unat v \<and> unat v < unat c + 2 ^ k"
      by (rule block_match_range [OF k(1,2)])
    have p: "0 < (2 :: nat) ^ k" by simp
    have "Suc (unat lst) - unat (c + block c) < Suc (unat lst) - unat c"
      using k(3,4) p by linarith
    note ih = less [OF this]
    have "(\<exists>(d, b)\<in>set (cover c). block_match v d b) \<longleftrightarrow>
        block_match v c (block c) \<or> (\<exists>(d, b)\<in>set (cover (c + block c)). block_match v d b)"
      by (subst cover_rec) (use True in simp)
    also have "\<dots> \<longleftrightarrow> unat c \<le> unat v \<and> unat v \<le> unat lst"
      unfolding ih m k(3) using k(4) p by linarith
    finally show ?thesis .
  qed
qed

lemma cover_from: "(d, b) \<in> set (cover c) \<Longrightarrow> unat c \<le> unat d \<and> unat d \<le> unat lst \<and> b = block d"
proof (induction "Suc (unat lst) - unat c" arbitrary: c rule: less_induct)
  case less
  have cl: "c \<le> lst" using less.prems cover_rec [of c] by (auto split: if_splits)
  obtain k where k: "unat (c + block c) = unat c + 2 ^ k" "unat c + 2 ^ k \<le> unat lst + 1"
    using block_step [OF cl] by blast
  have p: "0 < (2 :: nat) ^ k" by simp
  have "Suc (unat lst) - unat (c + block c) < Suc (unat lst) - unat c" using k p by linarith
  note ih = less.hyps [OF this]
  consider "d = c \<and> b = block c" | "(d, b) \<in> set (cover (c + block c))"
    using less.prems cover_rec [of c] cl by auto
  then show ?case
  proof cases
    case 1
    with cl show ?thesis by (simp add: word_le_nat_alt)
  next
    case 2
    from ih [OF 2] k(1) show ?thesis by linarith
  qed
qed

lemma cover_disjoint:
  "(d, b) \<in> set (cover c) \<Longrightarrow> (d', b') \<in> set (cover c) \<Longrightarrow> block_match v d b \<Longrightarrow>
   block_match v d' b' \<Longrightarrow> d = d' \<and> b = b'"
proof (induction "Suc (unat lst) - unat c" arbitrary: c rule: less_induct)
  case less
  have cl: "c \<le> lst" using less.prems(1) cover_rec [of c] by (auto split: if_splits)
  obtain k where k: "unat (block c) = 2 ^ k" "2 ^ k dvd unat c"
    "unat (c + block c) = unat c + 2 ^ k" "unat c + 2 ^ k \<le> unat lst + 1"
    using block_step [OF cl] by blast
  have p: "0 < (2 :: nat) ^ k" by simp
  have "Suc (unat lst) - unat (c + block c) < Suc (unat lst) - unat c" using k(3,4) p by linarith
  note ih = less.hyps [OF this _ _ less.prems(3,4)]
  have m: "block_match v c (block c) \<longleftrightarrow> unat c \<le> unat v \<and> unat v < unat c + 2 ^ k"
    by (rule block_match_range [OF k(1,2)])
  have later: "unat c + 2 ^ k \<le> unat v"
    if "(e, f) \<in> set (cover (c + block c))" "block_match v e f" for e f
    using cover_covers [where v = v and c = "c + block c"] that k(3) by fastforce
  have split: "(e, f) \<in> set (cover c) \<longleftrightarrow> (e, f) = (c, block c) \<or> (e, f) \<in> set (cover (c + block c))"
    for e f by (subst cover_rec) (use cl in simp)
  show ?case
    using less.prems ih later [of d b] later [of d' b'] m unfolding split by fastforce
qed

end

section \<open>The port loop\<close>

lemma ucast_u16_less: "(ucast (l :: u16) :: u32) < 65536"
  by (simp add: word_less_nat_alt)

lemma ucast_u8_less: "(ucast (l :: u8) :: u32) < 65536"
proof -
  have "unat l < 65536" by (rule less_trans [OF unat_u8_less]) simp
  then show ?thesis by (simp add: word_less_nat_alt)
qed

lemma block_progress:
  assumes "block_ok b c lst" "lst < 65536"
  shows "65536 - unat (c + b) < (65536 :: nat) - unat c"
proof -
  obtain k where k: "unat b = 2 ^ k" "unat c + 2 ^ k \<le> unat lst + 1"
    using assms(1) unfolding block_ok_def by blast
  have l: "unat lst < 65536" using assms(2) by (simp add: word_less_nat_alt)
  then have "unat (c + b) = unat c + 2 ^ k" using k by (simp add: unat_word_ariths)
  moreover have "0 < (2 :: nat) ^ k" by simp
  ultimately show ?thesis using k(2) l by linarith
qed

text \<open>The blocks the loop of \<open>router_acl_port_count\<close> visits, and its counter.\<close>

function port_blocks :: "u32 \<Rightarrow> u16 \<Rightarrow> (u32 \<times> u32) list" where
  "port_blocks cursor l =
     (if cursor \<le> ucast l
      then (cursor, router_acl_port_block cursor (ucast l)) #
           port_blocks (cursor + router_acl_port_block cursor (ucast l)) l
      else [])"
  by pat_completeness auto
termination
  by (relation "measure (\<lambda>(c, l). 65536 - unat c)")
    (simp_all add: block_progress [OF port_block_ok] ucast_u16_less)

function port_count :: "u32 \<Rightarrow> u16 \<Rightarrow> nat \<Rightarrow> nat" where
  "port_count cursor l count =
     (if cursor \<le> ucast l
      then port_count (cursor + router_acl_port_block cursor (ucast l)) l (Suc count)
      else count)"
  by pat_completeness auto
termination
  by (relation "measure (\<lambda>(c, l, n). 65536 - unat c)")
    (simp_all add: block_progress [OF port_block_ok] ucast_u16_less)

declare port_blocks.simps [simp del] port_count.simps [simp del]

definition router_acl_applies :: "router_egress_rule \<Rightarrow> u8 \<Rightarrow> bool" where
  "router_acl_applies r protocol \<longleftrightarrow>
     (protocol = 6 \<or> protocol = 17) \<and> (er_protocol r = 0 \<or> er_protocol r = protocol) \<and>
     er_icmp_type r < 0 \<and> er_icmp_code r < 0"

definition router_acl_port_count :: "router_egress_rule \<Rightarrow> nat" where
  "router_acl_port_count r =
     (if er_port_first r = 0 then 1 else port_count (ucast (er_port_first r)) (er_port_last r) 0)"

interpretation port: range_cover "\<lambda>c. router_acl_port_block c (ucast l)" "\<lambda>c. port_blocks c l"
  "ucast l" for l :: u16
  by unfold_locales (rule ucast_u16_less, erule port_block_ok [OF _ ucast_u16_less],
      rule port_blocks.simps)

lemma port_count_length: "port_count c l n = n + length (port_blocks c l)"
  by (induction c l n rule: port_count.induct)
    (simp add: port_count.simps port_blocks.simps)

section \<open>The ICMP prefix loop\<close>

record router_icmp_deny_match =
  dm_type :: u8
  dm_type_mask :: u8
  dm_code :: u8
  dm_code_mask :: u8

definition deny_entry :: "bool \<Rightarrow> u8 \<Rightarrow> u32 \<times> u32 \<Rightarrow> router_icmp_deny_match" where
  "deny_entry type_dimension fixed cb =
     (let m = NOT (ucast (snd cb - 1)) in
      if type_dimension
        then \<lparr>dm_type = ucast (fst cb), dm_type_mask = m, dm_code = 0, dm_code_mask = 0\<rparr>
      else \<lparr>dm_type = fixed, dm_type_mask = 255, dm_code = ucast (fst cb), dm_code_mask = m\<rparr>)"

function append_u8_from ::
  "router_icmp_deny_match list \<Rightarrow> nat \<Rightarrow> u32 \<Rightarrow> u8 \<Rightarrow> bool \<Rightarrow> u8 \<Rightarrow> router_icmp_deny_match list option" where
  "append_u8_from matches capacity cursor l type_dimension fixed =
     (if cursor \<le> ucast l then
        let block = u8_block cursor (ucast l) in
        (if length matches = capacity then None
         else append_u8_from (matches @ [deny_entry type_dimension fixed (cursor, block)])
                capacity (cursor + block) l type_dimension fixed)
      else Some matches)"
  by pat_completeness auto
termination
  by (relation "measure (\<lambda>(m, k, c, l, d). 65536 - unat c)")
    (simp_all add: block_progress [OF u8_block_ok] ucast_u8_less)

definition append_u8_prefixes ::
  "router_icmp_deny_match list \<Rightarrow> nat \<Rightarrow> u8 \<Rightarrow> u8 \<Rightarrow> bool \<Rightarrow> u8 \<Rightarrow> router_icmp_deny_match list option" where
  "append_u8_prefixes matches capacity first l type_dimension fixed =
     append_u8_from matches capacity (ucast first) l type_dimension fixed"

function u8_blocks :: "u32 \<Rightarrow> u8 \<Rightarrow> (u32 \<times> u32) list" where
  "u8_blocks cursor l =
     (if cursor \<le> ucast l
      then (cursor, u8_block cursor (ucast l)) # u8_blocks (cursor + u8_block cursor (ucast l)) l
      else [])"
  by pat_completeness auto
termination
  by (relation "measure (\<lambda>(c, l). 65536 - unat c)")
    (simp_all add: block_progress [OF u8_block_ok] ucast_u8_less)

declare append_u8_from.simps [simp del] u8_blocks.simps [simp del]

interpretation octet_cover: range_cover "\<lambda>c. u8_block c (ucast l)" "\<lambda>c. u8_blocks c l" "ucast l"
  for l :: u8
  by unfold_locales (rule ucast_u8_less, erule u8_block_ok [OF _ ucast_u8_less],
      rule u8_blocks.simps)

lemma append_u8_from_eq:
  "append_u8_from matches capacity cursor l d x = Some ms \<Longrightarrow>
   ms = matches @ map (deny_entry d x) (u8_blocks cursor l)"
proof (induction matches capacity cursor l d x rule: append_u8_from.induct)
  case (1 matches capacity cursor l d x)
  show ?case
  proof (cases "cursor \<le> ucast l")
    case True
    let ?b = "u8_block cursor (ucast l)"
    from 1(2) True have cap: "length matches \<noteq> capacity"
      and rest: "append_u8_from (matches @ [deny_entry d x (cursor, ?b)]) capacity (cursor + ?b) l d x = Some ms"
      by (auto simp: append_u8_from.simps [of matches] Let_def split: if_splits)
    from 1(1) [OF True refl cap rest] show ?thesis
      using True by (simp add: u8_blocks.simps [of cursor])
  next
    case False
    with 1(2) show ?thesis by (simp add: append_u8_from.simps u8_blocks.simps)
  qed
qed

section \<open>Properties\<close>

text \<open>C29: The hardware entries counted for a rule's port range are the blocks of the loop, and a port
  is matched by exactly one of them when it lies in the range and by none otherwise.\<close>

theorem port_cover_exact:
  "router_acl_port_count r = (if er_port_first r = 0 then 1
     else length (port_blocks (ucast (er_port_first r)) (er_port_last r))) \<and>
   ((\<exists>!cb. cb \<in> set (port_blocks (ucast (er_port_first r)) (er_port_last r)) \<and>
       block_match (ucast (p :: u16)) (fst cb) (snd cb)) \<longleftrightarrow>
    er_port_first r \<le> p \<and> p \<le> er_port_last r) \<and>
   ((\<exists>cb\<in>set (port_blocks (ucast (er_port_first r)) (er_port_last r)).
       block_match (ucast p) (fst cb) (snd cb)) \<longleftrightarrow> er_port_first r \<le> p \<and> p \<le> er_port_last r)"
proof -
  let ?bs = "port_blocks (ucast (er_port_first r)) (er_port_last r)"
  have c: "(\<exists>cb\<in>set ?bs. block_match (ucast p) (fst cb) (snd cb)) \<longleftrightarrow>
      er_port_first r \<le> p \<and> p \<le> er_port_last r"
    using port.cover_covers [where v = "ucast p" and c = "ucast (er_port_first r)" and
        l = "er_port_last r"]
    by (simp add: word_le_nat_alt split_def)
  have "(\<exists>!cb. cb \<in> set ?bs \<and> block_match (ucast p) (fst cb) (snd cb)) \<longleftrightarrow>
      (\<exists>cb\<in>set ?bs. block_match (ucast p) (fst cb) (snd cb))"
    using port.cover_disjoint [where v = "ucast p" and c = "ucast (er_port_first r)" and
        l = "er_port_last r"]
    by (auto simp: Bex_def intro!: ex_ex1I) (metis prod.collapse)+
  with c show ?thesis by (simp add: router_acl_port_count_def port_count_length)
qed

end
