(* ===== verification/Router_Egress.thy ===== *)
theory Router_Egress
  imports Router_Forward Blocks
begin

text \<open>
  The stateless policy check of \<^verbatim>\<open>router/router_egress.c\<close> (guest egress and public ingress) and
  the conservative deny lists it derives for the hardware: TCP/UDP destination-port ranges and
  ICMP type/code matches that no allow rule can admit.
\<close>

section \<open>The software check\<close>

datatype verdict = ROUTER_EGRESS_NOT_APPLICABLE | ROUTER_EGRESS_ALLOW | ROUTER_EGRESS_DENY

definition verdict_of :: "bool \<Rightarrow> verdict" where
  "verdict_of allow = (if allow then ROUTER_EGRESS_ALLOW else ROUTER_EGRESS_DENY)"

text \<open>A loop without \<open>break\<close>: the last matching policy.\<close>

definition rif_policy :: "router_egress_policy list \<Rightarrow> router_interface \<Rightarrow> router_egress_policy option" where
  "rif_policy ps rif =
     find (\<lambda>p. ep_vr_id p = rif_vr_id rif \<and> ep_interface_id p = rif_interface_id rif) (rev ps)"

text \<open>The packet fields the rules look at.\<close>

record flow =
  fl_source :: u32
  fl_destination :: u32
  fl_protocol :: u8
  fl_port :: u16
  fl_l4 :: bytes

definition rule_matches :: "router_interface \<Rightarrow> flow \<Rightarrow> router_egress_rule \<Rightarrow> bool" where
  "rule_matches rif fl r \<longleftrightarrow>
     \<not> (er_vr_id r \<noteq> rif_vr_id rif \<or> er_interface_id r \<noteq> rif_interface_id rif \<or>
        (er_protocol r \<noteq> 0 \<and> er_protocol r \<noteq> fl_protocol fl) \<or>
        fl_source fl AND prefix_mask (er_source_prefix r) \<noteq> er_source r \<or>
        fl_destination fl AND prefix_mask (er_destination_prefix r) \<noteq> er_destination r \<or>
        (er_port_first r \<noteq> 0 \<and>
          ((fl_protocol fl \<noteq> 6 \<and> fl_protocol fl \<noteq> 17) \<or> fl_port fl < er_port_first r \<or>
           er_port_last r < fl_port fl)) \<or>
        (0 \<le> er_icmp_type r \<and>
          (fl_protocol fl \<noteq> 1 \<or> length (fl_l4 fl) < 2 \<or> uint (fl_l4 fl ! 0) \<noteq> er_icmp_type r)) \<or>
        (0 \<le> er_icmp_code r \<and>
          (fl_protocol fl \<noteq> 1 \<or> length (fl_l4 fl) < 2 \<or> uint (fl_l4 fl ! 1) \<noteq> er_icmp_code r)))"

definition best_rule ::
  "router_interface \<Rightarrow> flow \<Rightarrow> router_egress_rule list \<Rightarrow> router_egress_rule option" where
  "best_rule rif fl rs =
     foldl (\<lambda>best r. if \<not> rule_matches rif fl r then best
              else (case best of None \<Rightarrow> Some r
                    | Some b \<Rightarrow> if er_rule_id r < er_rule_id b then Some r else best)) None rs"

definition frame_flow :: "bytes \<Rightarrow> flow" where
  "frame_flow f =
     (let l4 = slice f (14 + ip_header_length f) (unat (read16 f 16) - ip_header_length f);
          proto = f ! 23 in
      \<lparr>fl_source = read32 f 26, fl_destination = read32 f 30, fl_protocol = proto,
       fl_port = (if proto = 6 \<or> proto = 17 then read16 l4 2 else 0), fl_l4 = l4\<rparr>)"

definition l4_truncated :: "flow \<Rightarrow> bool" where
  "l4_truncated fl \<longleftrightarrow>
     (fl_protocol fl = 6 \<and> length (fl_l4 fl) < 20) \<or> (fl_protocol fl = 17 \<and> length (fl_l4 fl) < 8) \<or>
     (fl_protocol fl = 1 \<and> length (fl_l4 fl) < 4)"

definition firewall_check ::
  "router_config \<Rightarrow> router_interface \<Rightarrow> bytes \<Rightarrow> bool \<Rightarrow> verdict" where
  "firewall_check c rif f public_ingress =
     (let pol = rif_policy (if public_ingress then cfg_ingress_policies c else cfg_egress_policies c) rif;
          rules = (if public_ingress then cfg_ingress_rules c else cfg_egress_rules c) in
      case pol of None \<Rightarrow> ROUTER_EGRESS_NOT_APPLICABLE
      | Some policy \<Rightarrow>
        if (\<not> public_ingress \<and> rif_attachment rif \<noteq> ROUTER_VSWITCH) \<or> length f < 14 \<or>
           slice f 0 6 \<noteq> rif_mac rif \<or> \<not> ethertype_ipv4 f then ROUTER_EGRESS_NOT_APPLICABLE
        else if length f < 34 then ROUTER_EGRESS_DENY
        else if \<not> ip_version_ok f then ROUTER_EGRESS_DENY
        else if length f < 14 + ip_header_length f then ROUTER_EGRESS_DENY
        else if \<not> ip_total_ok f then ROUTER_EGRESS_DENY
        else if \<not> public_ingress \<and> is_local c (rif_vr_id rif) (read32 f 30)
          then ROUTER_EGRESS_NOT_APPLICABLE
        else if read16 f 20 AND 0x3fff \<noteq> 0 then ROUTER_EGRESS_DENY
        else if l4_truncated (frame_flow f) then ROUTER_EGRESS_DENY
        else (case best_rule rif (frame_flow f) rules of
                Some r \<Rightarrow> verdict_of (er_allow r)
              | None \<Rightarrow> verdict_of (ep_default_allow policy)))"

definition router_egress_check :: "router_config \<Rightarrow> router_interface \<Rightarrow> bytes \<Rightarrow> verdict" where
  "router_egress_check c rif f = firewall_check c rif f False"

definition router_ingress_check :: "router_config \<Rightarrow> router_interface \<Rightarrow> bytes \<Rightarrow> verdict" where
  "router_ingress_check c rif f = firewall_check c rif f True"

section \<open>The deciding rule\<close>

lemma best_rule_None: "best_rule rif fl rs = None \<longleftrightarrow> (\<forall>r\<in>set rs. \<not> rule_matches rif fl r)"
proof (induction rs rule: rev_induct)
  case (snoc r rs)
  then show ?case by (auto simp: best_rule_def split: option.splits)
qed (simp add: best_rule_def)

lemma best_rule_Some:
  "best_rule rif fl rs = Some b \<Longrightarrow>
   b \<in> set rs \<and> rule_matches rif fl b \<and>
   (\<forall>r\<in>set rs. rule_matches rif fl r \<longrightarrow> er_rule_id b \<le> er_rule_id r)"
proof (induction rs arbitrary: b rule: rev_induct)
  case (snoc r rs)
  show ?case
  proof (cases "rule_matches rif fl r")
    case False
    with snoc show ?thesis by (auto simp: best_rule_def)
  next
    case m: True
    show ?thesis
    proof (cases "best_rule rif fl rs")
      case None
      then have "b = r" using snoc.prems m by (simp add: best_rule_def)
      with None m show ?thesis by (auto simp: best_rule_None)
    next
      case (Some a)
      note ih = snoc.IH [OF Some]
      have b: "b = (if er_rule_id r < er_rule_id a then r else a)"
        using snoc.prems m Some by (auto simp: best_rule_def split: if_splits)
      show ?thesis
      proof (cases "er_rule_id r < er_rule_id a")
        case True
        with b ih m show ?thesis by (auto intro: order_trans [OF less_imp_le])
      next
        case False
        with b ih m show ?thesis by (auto simp: not_less)
      qed
    qed
  qed
qed (simp add: best_rule_def)

section \<open>Runs of an index set\<close>

text \<open>The scanning loops: \<open>while (i <= tp && !excluded[i]) i++\<close> from \<open>i\<close>.\<close>

function run_end :: "nat \<Rightarrow> (nat \<Rightarrow> bool) \<Rightarrow> nat \<Rightarrow> nat" where
  "run_end tp excluded i = (if i \<le> tp \<and> \<not> excluded i then run_end tp excluded (Suc i) else i)"
  by pat_completeness auto
termination by (relation "measure (\<lambda>(t, e, i). Suc t - i)") auto

declare run_end.simps [simp del]

lemma run_end_bounds:
  "i \<le> run_end tp ex i \<and> (\<forall>j. i \<le> j \<and> j < run_end tp ex i \<longrightarrow> j \<le> tp \<and> \<not> ex j)"
proof (induction tp ex i rule: run_end.induct)
  case (1 tp ex i)
  show ?case
  proof (cases "i \<le> tp \<and> \<not> ex i")
    case True
    then have e: "run_end tp ex i = run_end tp ex (Suc i)" by (simp add: run_end.simps [of tp ex i])
    from 1 [OF True] True show ?thesis unfolding e
      by (metis Suc_leD le_eq_less_or_eq Suc_leI)
  next
    case False
    then have "run_end tp ex i = i" by (subst run_end.simps, subst if_not_P) simp_all
    then show ?thesis by auto
  qed
qed

lemma run_end_stop: "run_end tp ex i \<le> tp \<Longrightarrow> ex (run_end tp ex i)"
proof (induction tp ex i rule: run_end.induct)
  case (1 tp ex i)
  show ?case
  proof (cases "i \<le> tp \<and> \<not> ex i")
    case True
    then have e: "run_end tp ex i = run_end tp ex (Suc i)" by (simp add: run_end.simps [of tp ex i])
    from 1(1) [OF True] 1(2) show ?thesis unfolding e .
  next
    case False
    with 1(2) show ?thesis by (auto simp: run_end.simps [of tp ex i] split: if_splits)
  qed
qed

lemma run_end_progress: "i \<le> tp \<Longrightarrow> \<not> ex i \<Longrightarrow> i < run_end tp ex i"
  using run_end_bounds [of "Suc i" tp ex] by (simp add: run_end.simps [of tp ex i])

text \<open>The runs of indices that are not excluded, in order, from \<open>i\<close> on.\<close>

function runs_from :: "nat \<Rightarrow> (nat \<Rightarrow> bool) \<Rightarrow> nat \<Rightarrow> (nat \<times> nat) list" where
  "runs_from tp excluded i =
     (if i \<le> tp then
        (if excluded i then runs_from tp excluded (Suc i)
         else (i, run_end tp excluded i - 1) # runs_from tp excluded (run_end tp excluded i))
      else [])"
  by pat_completeness auto
termination
proof (relation "measure (\<lambda>(t, e, i). Suc t - i)")
  fix tp :: nat and ex i
  assume "i \<le> tp" "\<not> ex i"
  with run_end_progress [of i tp ex, OF this]
  show "((tp, ex, run_end tp ex i), (tp, ex, i)) \<in> measure (\<lambda>(t, e, i). Suc t - i)" by simp
qed auto

declare runs_from.simps [simp del]

lemma runs_from_cover:
  "(\<exists>(a, b)\<in>set (runs_from tp ex i). a \<le> p \<and> p \<le> b) \<longleftrightarrow> i \<le> p \<and> p \<le> tp \<and> \<not> ex p"
proof (induction tp ex i rule: runs_from.induct)
  case (1 tp ex i)
  show ?case
  proof (cases "i \<le> tp")
    case False
    then show ?thesis by (auto simp: runs_from.simps [of tp ex i])
  next
    case it: True
    show ?thesis
    proof (cases "ex i")
      case True
      then have "runs_from tp ex i = runs_from tp ex (Suc i)"
        using it by (simp add: runs_from.simps [of tp ex i])
      with 1(1) [OF it True] True show ?thesis by (metis Suc_leD Suc_leI le_neq_implies_less)
    next
      case False
      let ?e = "run_end tp ex i"
      have r: "runs_from tp ex i = (i, ?e - 1) # runs_from tp ex ?e"
        using it False by (simp add: runs_from.simps [of tp ex i])
      note b = run_end_bounds [of i tp ex] run_end_progress [of i tp ex, OF it False]
      have s: "?e \<le> tp \<longrightarrow> ex ?e" by (simp add: run_end_stop)
      have "(\<exists>(a, b)\<in>set (runs_from tp ex i). a \<le> p \<and> p \<le> b) \<longleftrightarrow>
          i \<le> p \<and> p \<le> ?e - 1 \<or> ?e \<le> p \<and> p \<le> tp \<and> \<not> ex p"
        using 1(2) [OF it False] unfolding r by simp
      also have "\<dots> \<longleftrightarrow> i \<le> p \<and> p \<le> tp \<and> \<not> ex p"
      proof -
        have "i \<le> p \<and> p \<le> ?e - 1 \<longleftrightarrow> i \<le> p \<and> p < ?e" using b(2) by linarith
        with b show ?thesis by (meson leI order_trans less_imp_le)
      qed
      finally show ?thesis .
    qed
  qed
qed

section \<open>Deny ranges for TCP and UDP\<close>

definition mark :: "nat \<Rightarrow> nat \<Rightarrow> (nat \<Rightarrow> bool) \<Rightarrow> nat \<Rightarrow> bool" where
  "mark a b e = (\<lambda>p. e p \<or> a \<le> p \<and> p \<le> b)"

definition default_deny :: "router_config \<Rightarrow> router_interface \<Rightarrow> bool" where
  "default_deny c rif = (case rif_policy (cfg_ingress_policies c) rif of
     None \<Rightarrow> False | Some p \<Rightarrow> \<not> ep_default_allow p)"

definition l4_allow_rule :: "router_interface \<Rightarrow> u8 \<Rightarrow> router_egress_rule \<Rightarrow> bool" where
  "l4_allow_rule rif protocol r \<longleftrightarrow>
     \<not> (er_vr_id r \<noteq> rif_vr_id rif \<or> er_interface_id r \<noteq> rif_interface_id rif \<or> \<not> er_allow r \<or>
        0 \<le> er_icmp_type r \<or> 0 \<le> er_icmp_code r \<or>
        (er_protocol r \<noteq> 0 \<and> er_protocol r \<noteq> protocol))"

definition l4_excluded :: "router_config \<Rightarrow> router_interface \<Rightarrow> u8 \<Rightarrow> nat \<Rightarrow> bool" where
  "l4_excluded c rif protocol =
     foldl (\<lambda>e p. if np_vr_id p \<noteq> rif_vr_id rif \<or> np_interface_id p \<noteq> rif_interface_id rif then e
                  else mark (unat (np_port_first p)) (unat (np_port_last p)) e)
       (foldl (\<lambda>e r. if \<not> l4_allow_rule rif protocol r then e
                     else if er_port_first r \<noteq> 0
                       then mark (unat (er_port_first r)) (unat (er_port_last r)) e
                     else mark 0 65535 e)
          (\<lambda>_. False) (cfg_ingress_rules c)) (cfg_nat_policies c)"

definition router_ingress_l4_deny_ranges ::
  "router_config \<Rightarrow> router_interface \<Rightarrow> u8 \<Rightarrow> nat \<Rightarrow> bool \<Rightarrow> (nat \<times> nat) list" where
  "router_ingress_l4_deny_ranges c rif protocol capacity calloc_ok =
     (if capacity = 0 \<or> rif_attachment rif \<noteq> ROUTER_VSWITCH \<or> \<not> rif_has_address rif \<or>
         (protocol \<noteq> 6 \<and> protocol \<noteq> 17) then []
      else if \<not> default_deny c rif then []
      else if \<not> calloc_ok then []
      else let rs = runs_from 65535 (l4_excluded c rif protocol) 0 in
           if capacity < length rs then [] else rs)"

definition router_ingress_tcp_deny_ranges ::
  "router_config \<Rightarrow> router_interface \<Rightarrow> nat \<Rightarrow> bool \<Rightarrow> (nat \<times> nat) list" where
  "router_ingress_tcp_deny_ranges c rif capacity calloc_ok =
     router_ingress_l4_deny_ranges c rif 6 capacity calloc_ok"

lemma foldl_mark:
  "foldl (\<lambda>e x. if Q x then e else mark (a x) (b x) e) e0 xs p \<longleftrightarrow>
     e0 p \<or> (\<exists>x\<in>set xs. \<not> Q x \<and> a x \<le> p \<and> p \<le> b x)"
  by (induction xs arbitrary: e0) (auto simp: mark_def)

lemma l4_excluded_iff:
  "l4_excluded c rif protocol p \<longleftrightarrow>
     (\<exists>r\<in>set (cfg_ingress_rules c). l4_allow_rule rif protocol r \<and>
        (if er_port_first r \<noteq> 0 then unat (er_port_first r) \<le> p \<and> p \<le> unat (er_port_last r)
         else p \<le> 65535)) \<or>
     (\<exists>n\<in>set (cfg_nat_policies c). np_vr_id n = rif_vr_id rif \<and>
        np_interface_id n = rif_interface_id rif \<and>
        unat (np_port_first n) \<le> p \<and> p \<le> unat (np_port_last n))"
proof -
  have r: "(\<lambda>e r. if \<not> l4_allow_rule rif protocol r then e
              else if er_port_first r \<noteq> 0
                then mark (unat (er_port_first r)) (unat (er_port_last r)) e else mark 0 65535 e) =
        (\<lambda>e r. if \<not> l4_allow_rule rif protocol r then e
              else mark (if er_port_first r \<noteq> 0 then unat (er_port_first r) else 0)
                     (if er_port_first r \<noteq> 0 then unat (er_port_last r) else 65535) e)"
    by (intro ext) simp
  show ?thesis unfolding l4_excluded_def r foldl_mark by auto
qed

text \<open>A frame whose destination port lies in a deny range is never allowed by the software check.\<close>

lemma deny_range_excluded:
  assumes "(a, b) \<in> set (router_ingress_l4_deny_ranges c rif protocol capacity ok)" "a \<le> p" "p \<le> b"
  shows "p \<le> 65535 \<and> \<not> l4_excluded c rif protocol p \<and> default_deny c rif"
proof -
  have "(a, b) \<in> set (runs_from 65535 (l4_excluded c rif protocol) 0)" "default_deny c rif"
    using assms(1) by (auto simp: router_ingress_l4_deny_ranges_def Let_def split: if_splits)
  with assms(2,3) runs_from_cover [of 65535 "l4_excluded c rif protocol" 0 p] show ?thesis by auto
qed

lemma l4_match_allow_rule:
  assumes "rule_matches rif fl r" "er_allow r" "fl_protocol fl = protocol" "protocol = 6 \<or> protocol = 17"
  shows "l4_allow_rule rif protocol r \<and>
    (if er_port_first r \<noteq> 0 then unat (er_port_first r) \<le> unat (fl_port fl) \<and>
       unat (fl_port fl) \<le> unat (er_port_last r) else unat (fl_port fl) \<le> 65535)"
  using assms unat_u16_le [of "fl_port fl"]
  by (auto simp: rule_matches_def l4_allow_rule_def word_less_nat_alt not_less)

lemma ingress_verdict_cases:
  "router_ingress_check c rif f \<noteq> ROUTER_EGRESS_ALLOW \<or>
   (\<exists>pol. rif_policy (cfg_ingress_policies c) rif = Some pol \<and>
     (case best_rule rif (frame_flow f) (cfg_ingress_rules c) of
        Some r \<Rightarrow> er_allow r | None \<Rightarrow> ep_default_allow pol))"
  by (auto simp: router_ingress_check_def firewall_check_def Let_def verdict_of_def
      split: option.splits if_splits)

lemma l4_deny_sound:
  assumes "(a, b) \<in> set (router_ingress_l4_deny_ranges c rif protocol capacity ok)"
    and "fl_protocol (frame_flow f) = protocol"
    and "a \<le> unat (fl_port (frame_flow f))" "unat (fl_port (frame_flow f)) \<le> b"
  shows "router_ingress_check c rif f \<noteq> ROUTER_EGRESS_ALLOW"
proof
  assume al: "router_ingress_check c rif f = ROUTER_EGRESS_ALLOW"
  let ?fl = "frame_flow f"
  have pr: "protocol = 6 \<or> protocol = 17"
    using assms(1) by (auto simp: router_ingress_l4_deny_ranges_def split: if_splits)
  note ex = deny_range_excluded [OF assms(1,3,4)]
  from al ingress_verdict_cases [of c rif f] obtain pol where
    pol: "rif_policy (cfg_ingress_policies c) rif = Some pol"
    and v: "case best_rule rif ?fl (cfg_ingress_rules c) of Some r \<Rightarrow> er_allow r
            | None \<Rightarrow> ep_default_allow pol" by blast
  from ex pol have "\<not> ep_default_allow pol" by (simp add: default_deny_def)
  with v obtain r where r: "best_rule rif ?fl (cfg_ingress_rules c) = Some r" "er_allow r"
    by (auto split: option.splits)
  from best_rule_Some [OF r(1)] have "r \<in> set (cfg_ingress_rules c)" "rule_matches rif ?fl r" by auto
  with l4_match_allow_rule [OF this(2) r(2) assms(2) pr] ex show False
    unfolding l4_excluded_iff by blast
qed

text \<open>Nor can it belong to a NAT session of the interface.\<close>

lemma l4_deny_outside_nat:
  assumes "(a, b) \<in> set (router_ingress_l4_deny_ranges c rif protocol capacity ok)"
    and "a \<le> unat port" "unat port \<le> b" "n \<in> set (cfg_nat_policies c)"
    and "np_vr_id n = rif_vr_id rif" "np_interface_id n = rif_interface_id rif"
  shows "\<not> (np_port_first n \<le> port \<and> port \<le> np_port_last n)"
  using deny_range_excluded [OF assms(1-3)] assms(4-6)
  unfolding l4_excluded_iff word_le_nat_alt by blast

section \<open>Deny matches for ICMP\<close>

definition icmp_rule_span :: "int \<Rightarrow> nat \<times> nat" where
  "icmp_rule_span n = (if 0 \<le> n then (nat (n mod 256), nat (n mod 256)) else (0, 255))"

definition icmp_allow_rule :: "router_interface \<Rightarrow> router_egress_rule \<Rightarrow> bool" where
  "icmp_allow_rule rif r \<longleftrightarrow>
     \<not> (er_vr_id r \<noteq> rif_vr_id rif \<or> er_interface_id r \<noteq> rif_interface_id rif \<or> \<not> er_allow r \<or>
        er_port_first r \<noteq> 0 \<or> (er_protocol r \<noteq> 0 \<and> er_protocol r \<noteq> 1))"

definition mark2 :: "nat \<times> nat \<Rightarrow> nat \<times> nat \<Rightarrow> (nat \<Rightarrow> nat \<Rightarrow> bool) \<Rightarrow> nat \<Rightarrow> nat \<Rightarrow> bool" where
  "mark2 ts cs e = (\<lambda>t k. e t k \<or> (fst ts \<le> t \<and> t \<le> snd ts \<and> fst cs \<le> k \<and> k \<le> snd cs))"

definition icmp_allowed :: "router_config \<Rightarrow> router_interface \<Rightarrow> nat \<Rightarrow> nat \<Rightarrow> bool" where
  "icmp_allowed c rif =
     foldl (\<lambda>e r. if \<not> icmp_allow_rule rif r then e
                  else mark2 (icmp_rule_span (er_icmp_type r)) (icmp_rule_span (er_icmp_code r)) e)
       (\<lambda>_ _. False) (cfg_ingress_rules c)"

definition full_deny :: "(nat \<Rightarrow> nat \<Rightarrow> bool) \<Rightarrow> nat \<Rightarrow> bool" where
  "full_deny allowed t = list_all (\<lambda>k. \<not> allowed t k) [0..<256]"

text \<open>The loop over the codes of one type, then the loop over the types; \<open>None\<close> is "does not fit".\<close>

function deny_codes ::
  "(nat \<Rightarrow> bool) \<Rightarrow> nat \<Rightarrow> nat \<Rightarrow> nat \<Rightarrow> router_icmp_deny_match list \<Rightarrow> router_icmp_deny_match list option" where
  "deny_codes allowed capacity t k ms =
     (if k \<le> 255 then
        (if allowed k then deny_codes allowed capacity t (Suc k) ms
         else (case append_u8_prefixes ms capacity (of_nat k) (of_nat (run_end 255 allowed k - 1))
                      False (of_nat t) of
                 None \<Rightarrow> None
               | Some ms' \<Rightarrow> deny_codes allowed capacity t (run_end 255 allowed k) ms'))
      else Some ms)"
  by pat_completeness auto
termination
proof (relation "measure (\<lambda>(a, n, t, k, ms). 256 - k)")
  fix allowed and capacity t k :: nat and ms x :: "router_icmp_deny_match list"
  assume "k \<le> 255" "\<not> allowed k"
  with run_end_progress [of k 255 allowed, OF this]
  show "((allowed, capacity, t, run_end 255 allowed k, x), (allowed, capacity, t, k, ms))
      \<in> measure (\<lambda>(a, n, t, k, ms). 256 - k)" by simp
qed auto

function deny_types ::
  "(nat \<Rightarrow> nat \<Rightarrow> bool) \<Rightarrow> nat \<Rightarrow> nat \<Rightarrow> router_icmp_deny_match list \<Rightarrow> router_icmp_deny_match list option" where
  "deny_types allowed capacity t ms =
     (if t \<le> 255 then
        (if full_deny allowed t then
           (let e = run_end 255 (\<lambda>i. \<not> full_deny allowed i) t in
            case append_u8_prefixes ms capacity (of_nat t) (of_nat (e - 1)) True 0 of
              None \<Rightarrow> None
            | Some ms' \<Rightarrow> deny_types allowed capacity e ms')
         else (case deny_codes (allowed t) capacity t 0 ms of
                 None \<Rightarrow> None
               | Some ms' \<Rightarrow> deny_types allowed capacity (Suc t) ms'))
      else Some ms)"
  by pat_completeness auto
termination
proof (relation "measure (\<lambda>(a, n, t, ms). 256 - t)")
  fix allowed and capacity t e :: nat and ms x :: "router_icmp_deny_match list"
  assume "t \<le> 255" "full_deny allowed t" "e = run_end 255 (\<lambda>i. \<not> full_deny allowed i) t"
  with run_end_progress [of t 255 "\<lambda>i. \<not> full_deny allowed i"]
  show "((allowed, capacity, e, x), (allowed, capacity, t, ms)) \<in> measure (\<lambda>(a, n, t, ms). 256 - t)"
    by simp
qed auto

declare deny_codes.simps [simp del] deny_types.simps [simp del]

definition router_ingress_icmp_deny_matches ::
  "router_config \<Rightarrow> router_interface \<Rightarrow> nat \<Rightarrow> router_icmp_deny_match list" where
  "router_ingress_icmp_deny_matches c rif capacity =
     (if capacity = 0 \<or> rif_attachment rif \<noteq> ROUTER_VSWITCH \<or> \<not> rif_has_address rif then []
      else if \<not> default_deny c rif then []
      else case deny_types (icmp_allowed c rif) capacity 0 [] of None \<Rightarrow> [] | Some ms \<Rightarrow> ms)"

definition deny_matches :: "router_icmp_deny_match \<Rightarrow> u8 \<Rightarrow> u8 \<Rightarrow> bool" where
  "deny_matches m t k \<longleftrightarrow> t AND dm_type_mask m = dm_type m \<and> k AND dm_code_mask m = dm_code m"

subsection \<open>Bytes and blocks\<close>

lemma u8_block_match:
  assumes "cursor < 256"
  shows "x AND NOT (ucast (b - 1)) = ucast cursor \<longleftrightarrow> block_match (ucast (x :: u8)) cursor b"
proof
  have high: "\<not> bit cursor n" if "8 \<le> n" for n
  proof -
    have "unat cursor < 256" using assms by (simp add: word_less_nat_alt)
    then have "unat cursor = unat (take_bit 8 cursor)"
      by (simp only: unsigned_take_bit_eq) (simp add: take_bit_eq_mod)
    then have "cursor = take_bit 8 cursor" by (simp only: word_unat_eq_iff)
    with that show ?thesis by (metis bit_take_bit_iff leD)
  qed
  show "block_match (ucast x) cursor b" if e: "x AND NOT (ucast (b - 1)) = ucast cursor"
    unfolding block_match_def
  proof (rule bit_word_eqI)
    fix n assume n: "n < LENGTH(32)"
    show "bit (ucast x AND NOT (b - 1)) n \<longleftrightarrow> bit cursor n"
    proof (cases "n < 8")
      case True
      have "bit (x AND NOT (ucast (b - 1))) n \<longleftrightarrow> bit (ucast cursor :: u8) n" by (simp only: e)
      with True n show ?thesis by (simp add: bit_simps)
    next
      case False
      then show ?thesis using high [of n] bit_imp_le_length [of x n] by (auto simp: bit_simps)
    qed
  qed
  show "x AND NOT (ucast (b - 1)) = ucast cursor" if e: "block_match (ucast x) cursor b"
  proof (rule bit_word_eqI)
    fix n assume n: "n < LENGTH(8)"
    have "bit (ucast x AND NOT (b - 1) :: u32) n \<longleftrightarrow> bit cursor n"
      using e by (simp only: block_match_def)
    with n show "bit (x AND NOT (ucast (b - 1))) n \<longleftrightarrow> bit (ucast cursor :: u8) n"
      by (simp add: bit_simps)
  qed
qed

lemma u8_blocks_match:
  "(\<exists>cb\<in>set (u8_blocks (ucast first) l). x AND NOT (ucast (snd cb - 1)) = ucast (fst cb)) \<longleftrightarrow>
   first \<le> x \<and> x \<le> l"
proof -
  have "x AND NOT (ucast (b - 1)) = ucast d \<longleftrightarrow> block_match (ucast x) d b"
    if "(d, b) \<in> set (u8_blocks (ucast first) l)" for d b
  proof -
    have "unat d < 256"
      using octet_cover.cover_from [OF that] unat_u8_le [of l] by simp
    then have "d < 256" by (simp add: word_less_nat_alt)
    then show ?thesis by (rule u8_block_match)
  qed
  then have "(\<exists>cb\<in>set (u8_blocks (ucast first) l). x AND NOT (ucast (snd cb - 1)) = ucast (fst cb)) \<longleftrightarrow>
      (\<exists>(d, b)\<in>set (u8_blocks (ucast first) l). block_match (ucast x) d b)" by force
  also have "\<dots> \<longleftrightarrow> first \<le> x \<and> x \<le> l"
    by (simp add: octet_cover.cover_covers word_le_nat_alt)
  finally show ?thesis .
qed

text \<open>The entries one call appends match exactly the given range.\<close>

definition any_match :: "router_icmp_deny_match list \<Rightarrow> u8 \<Rightarrow> u8 \<Rightarrow> bool" where
  "any_match ms t k \<longleftrightarrow> (\<exists>m\<in>set ms. deny_matches m t k)"

lemma append_u8_prefixes_match:
  assumes "append_u8_prefixes ms capacity first l d x = Some ms'"
  shows "any_match ms' t k \<longleftrightarrow> any_match ms t k \<or>
    (if d then first \<le> t \<and> t \<le> l else t = x \<and> first \<le> k \<and> k \<le> l)"
proof -
  have ms': "ms' = ms @ map (deny_entry d x) (u8_blocks (ucast first) l)"
    using append_u8_from_eq assms by (simp add: append_u8_prefixes_def)
  have m: "deny_matches (deny_entry d x cb) t k \<longleftrightarrow>
      (if d then t AND NOT (ucast (snd cb - 1)) = ucast (fst cb)
       else t = x \<and> k AND NOT (ucast (snd cb - 1)) = ucast (fst cb))" for cb
  proof -
    have "(255 :: u8) = - 1" by simp
    then have "t AND 255 = t" by (simp only: and.right_neutral)
    then show ?thesis by (simp add: deny_matches_def deny_entry_def Let_def)
  qed
  have "any_match ms' t k \<longleftrightarrow> any_match ms t k \<or>
      (\<exists>cb\<in>set (u8_blocks (ucast first) l). deny_matches (deny_entry d x cb) t k)"
    by (auto simp: ms' any_match_def)
  also have "(\<exists>cb\<in>set (u8_blocks (ucast first) l). deny_matches (deny_entry d x cb) t k) \<longleftrightarrow>
      (if d then first \<le> t \<and> t \<le> l else t = x \<and> first \<le> k \<and> k \<le> l)"
    using u8_blocks_match [of first l t] u8_blocks_match [of first l k] unfolding m by auto
  finally show ?thesis .
qed

subsection \<open>The matches are exactly the types and codes no rule admits\<close>

lemma unat_of_nat_u8: "n \<le> 255 \<Longrightarrow> unat (of_nat n :: u8) = n"
  by (simp add: unsigned_of_nat take_bit_eq_mod)

lemma run_end_255: "i \<le> 255 \<Longrightarrow> \<not> ex i \<Longrightarrow> i \<le> run_end 255 ex i - 1 \<and> run_end 255 ex i - 1 \<le> 255"
proof -
  assume i: "i \<le> 255" "\<not> ex i"
  have e: "i < run_end 255 ex i" by (rule run_end_progress [of i 255 ex, OF i])
  then have "i \<le> run_end 255 ex i - 1 \<and> run_end 255 ex i - 1 < run_end 255 ex i" by linarith
  with run_end_bounds [of i 255 ex] show ?thesis by blast
qed

lemma deny_codes_match:
  "deny_codes allowed capacity ty k ms = Some ms' \<Longrightarrow>
   any_match ms' t x \<longleftrightarrow> any_match ms t x \<or> (t = of_nat ty \<and> k \<le> unat x \<and> \<not> allowed (unat x))"
proof (induction allowed capacity ty k ms rule: deny_codes.induct)
  case (1 allowed capacity ty k ms)
  have x: "unat x \<le> 255" using unat_u8_less [of x] by linarith
  show ?case
  proof (cases "k \<le> 255")
    case False
    with 1(3) x show ?thesis by (auto simp: deny_codes.simps [of allowed])
  next
    case k: True
    show ?thesis
    proof (cases "allowed k")
      case True
      with k 1(3) have "deny_codes allowed capacity ty (Suc k) ms = Some ms'"
        by (simp add: deny_codes.simps [of allowed capacity ty k])
      from 1(1) [OF k True this] True show ?thesis by (metis Suc_leD Suc_leI le_neq_implies_less)
    next
      case False
      let ?e = "run_end 255 allowed k"
      from k False 1(3) obtain m where
        m: "append_u8_prefixes ms capacity (of_nat k) (of_nat (?e - 1)) False (of_nat ty) = Some m"
        and r: "deny_codes allowed capacity ty ?e m = Some ms'"
        by (auto simp: deny_codes.simps [of allowed capacity ty k] split: option.splits)
      note e = run_end_255 [of k allowed, OF k False]
      have u: "unat (of_nat k :: u8) = k" "unat (of_nat (?e - Suc 0) :: u8) = ?e - Suc 0"
        using k e by (simp_all add: unat_of_nat_u8)
      have b: "k < ?e" "\<And>j. k \<le> j \<Longrightarrow> j < ?e \<Longrightarrow> \<not> allowed j"
        using run_end_progress [of k 255 allowed, OF k False] run_end_bounds [of k 255 allowed] by auto
      have "any_match ms' t x \<longleftrightarrow> any_match ms t x \<or> (t = of_nat ty \<and> k \<le> unat x \<and> unat x \<le> ?e - 1) \<or>
          (t = of_nat ty \<and> ?e \<le> unat x \<and> \<not> allowed (unat x))"
        using 1(2) [OF k False m r] append_u8_prefixes_match [OF m, of t x]
        by (simp add: word_le_nat_alt u)
      also have "\<dots> \<longleftrightarrow> any_match ms t x \<or> (t = of_nat ty \<and> k \<le> unat x \<and> \<not> allowed (unat x))"
      proof -
        have "unat x \<le> ?e - 1 \<longleftrightarrow> unat x < ?e" using b(1) by linarith
        then show ?thesis using b by (meson leI less_imp_le order_trans)
      qed
      finally show ?thesis .
    qed
  qed
qed

lemma full_deny_iff: "full_deny allowed t \<longleftrightarrow> (\<forall>k<256. \<not> allowed t k)"
  by (auto simp: full_deny_def list_all_iff)

lemma deny_types_match:
  "deny_types allowed capacity ty ms = Some ms' \<Longrightarrow>
   any_match ms' t x \<longleftrightarrow> any_match ms t x \<or> (ty \<le> unat t \<and> \<not> allowed (unat t) (unat x))"
proof (induction allowed capacity ty ms rule: deny_types.induct)
  case (1 allowed capacity ty ms)
  have t: "unat t \<le> 255" "unat x < 256" by (rule unat_u8_le) (rule unat_u8_less)
  show ?case
  proof (cases "ty \<le> 255")
    case False
    with 1(3) t show ?thesis by (auto simp: deny_types.simps [of allowed])
  next
    case ty: True
    show ?thesis
    proof (cases "full_deny allowed ty")
      case fd: True
      let ?e = "run_end 255 (\<lambda>i. \<not> full_deny allowed i) ty"
      from ty fd 1(3) obtain m where
        m: "append_u8_prefixes ms capacity (of_nat ty) (of_nat (?e - 1)) True 0 = Some m"
        and r: "deny_types allowed capacity ?e m = Some ms'"
        by (auto simp: deny_types.simps [of allowed capacity ty] Let_def split: option.splits)
      have nf: "\<not> \<not> full_deny allowed ty" using fd by simp
      note e = run_end_255 [of ty "\<lambda>i. \<not> full_deny allowed i", OF ty nf]
      have u: "unat (of_nat ty :: u8) = ty" "unat (of_nat (?e - Suc 0) :: u8) = ?e - Suc 0"
        using ty e by (simp_all add: unat_of_nat_u8)
      have b: "ty < ?e" "\<And>j. ty \<le> j \<Longrightarrow> j < ?e \<Longrightarrow> full_deny allowed j"
        using run_end_progress [of ty 255 "\<lambda>i. \<not> full_deny allowed i", OF ty nf]
          run_end_bounds [of ty 255 "\<lambda>i. \<not> full_deny allowed i"] by auto
      have "any_match ms' t x \<longleftrightarrow> any_match ms t x \<or> (ty \<le> unat t \<and> unat t \<le> ?e - 1) \<or>
          (?e \<le> unat t \<and> \<not> allowed (unat t) (unat x))"
        using 1(1) [OF ty fd refl m r] append_u8_prefixes_match [OF m, of t x]
        by (simp add: word_le_nat_alt u)
      also have "\<dots> \<longleftrightarrow> any_match ms t x \<or> (ty \<le> unat t \<and> \<not> allowed (unat t) (unat x))"
      proof -
        have "unat t \<le> ?e - 1 \<longleftrightarrow> unat t < ?e" using b(1) by linarith
        moreover have "ty \<le> unat t \<Longrightarrow> unat t < ?e \<Longrightarrow> \<not> allowed (unat t) (unat x)"
          using b(2) [of "unat t"] t(2) by (simp add: full_deny_iff)
        ultimately show ?thesis using b(1) by (meson leI less_imp_le order_trans)
      qed
      finally show ?thesis .
    next
      case fd: False
      from ty fd 1(3) obtain m where
        m: "deny_codes (allowed ty) capacity ty 0 ms = Some m"
        and r: "deny_types allowed capacity (Suc ty) m = Some ms'"
        by (auto simp: deny_types.simps [of allowed capacity ty] split: option.splits)
      have "t = of_nat ty \<longleftrightarrow> unat t = ty" using ty
        by (metis of_nat_unat ucast_id unat_of_nat_u8 word_nat_cases word_unat_eq_iff)
      then show ?thesis
        using 1(2) [OF ty fd m r] deny_codes_match [OF m, of t x]
        by (metis Suc_le_eq le_eq_less_or_eq le0)
    qed
  qed
qed

lemma icmp_allowed_iff:
  "icmp_allowed c rif t k \<longleftrightarrow>
     (\<exists>r\<in>set (cfg_ingress_rules c). icmp_allow_rule rif r \<and>
        fst (icmp_rule_span (er_icmp_type r)) \<le> t \<and> t \<le> snd (icmp_rule_span (er_icmp_type r)) \<and>
        fst (icmp_rule_span (er_icmp_code r)) \<le> k \<and> k \<le> snd (icmp_rule_span (er_icmp_code r)))"
proof -
  have "foldl (\<lambda>e r. if \<not> icmp_allow_rule rif r then e
          else mark2 (icmp_rule_span (er_icmp_type r)) (icmp_rule_span (er_icmp_code r)) e) e0 rs t k \<longleftrightarrow>
      e0 t k \<or> (\<exists>r\<in>set rs. icmp_allow_rule rif r \<and>
        fst (icmp_rule_span (er_icmp_type r)) \<le> t \<and> t \<le> snd (icmp_rule_span (er_icmp_type r)) \<and>
        fst (icmp_rule_span (er_icmp_code r)) \<le> k \<and> k \<le> snd (icmp_rule_span (er_icmp_code r)))"
    for e0 rs
    by (induction rs arbitrary: e0) (auto simp: mark2_def)
  then show ?thesis by (simp add: icmp_allowed_def)
qed

lemma icmp_deny_exact:
  assumes "deny_types (icmp_allowed c rif) capacity 0 [] = Some ms"
  shows "any_match ms t k \<longleftrightarrow> \<not> icmp_allowed c rif (unat t) (unat k)"
  using deny_types_match [OF assms, of t k] by (simp add: any_match_def)

lemma icmp_span_byte:
  "0 \<le> n \<and> uint (b :: u8) = n \<or> n < 0 \<Longrightarrow>
   fst (icmp_rule_span n) \<le> unat b \<and> unat b \<le> snd (icmp_rule_span n)"
proof -
  assume n: "0 \<le> n \<and> uint b = n \<or> n < 0"
  have u: "0 \<le> uint b" "uint b < 256" "unat b = nat (uint b)" using uint_lt2p [of b] by simp_all
  show ?thesis
  proof (cases "0 \<le> n")
    case True
    with n have "n = uint b" by auto
    with u True show ?thesis by (simp add: icmp_rule_span_def)
  next
    case False
    with unat_u8_le [of b] show ?thesis by (simp add: icmp_rule_span_def)
  qed
qed

lemma icmp_deny_sound:
  assumes m: "m \<in> set (router_ingress_icmp_deny_matches c rif capacity)"
    and fl: "fl_protocol (frame_flow f) = 1" "fl_l4 (frame_flow f) = t # k # rest"
    and dm: "deny_matches m t k"
  shows "router_ingress_check c rif f \<noteq> ROUTER_EGRESS_ALLOW"
proof
  assume al: "router_ingress_check c rif f = ROUTER_EGRESS_ALLOW"
  let ?fl = "frame_flow f"
  from m obtain ms where ms: "deny_types (icmp_allowed c rif) capacity 0 [] = Some ms" "m \<in> set ms"
    and dd: "default_deny c rif"
    by (cases "deny_types (icmp_allowed c rif) capacity 0 []")
      (auto simp: router_ingress_icmp_deny_matches_def split: if_splits)
  from icmp_deny_exact [OF ms(1), of t k] ms(2) dm
  have na: "\<not> icmp_allowed c rif (unat t) (unat k)" by (auto simp: any_match_def)
  from al ingress_verdict_cases [of c rif f] obtain pol where
    pol: "rif_policy (cfg_ingress_policies c) rif = Some pol"
    and v: "case best_rule rif ?fl (cfg_ingress_rules c) of Some r \<Rightarrow> er_allow r
            | None \<Rightarrow> ep_default_allow pol" by blast
  from dd pol have "\<not> ep_default_allow pol" by (simp add: default_deny_def)
  with v obtain r where r: "best_rule rif ?fl (cfg_ingress_rules c) = Some r" "er_allow r"
    by (auto split: option.splits)
  from best_rule_Some [OF r(1)] have mr: "r \<in> set (cfg_ingress_rules c)" "rule_matches rif ?fl r"
    by auto
  from mr(2) r(2) fl have a: "icmp_allow_rule rif r"
    "0 \<le> er_icmp_type r \<and> uint t = er_icmp_type r \<or> er_icmp_type r < 0"
    "0 \<le> er_icmp_code r \<and> uint k = er_icmp_code r \<or> er_icmp_code r < 0"
    by (auto simp: rule_matches_def icmp_allow_rule_def not_le)
  from icmp_span_byte [OF a(2)] icmp_span_byte [OF a(3)] a(1) mr(1) na show False
    unfolding icmp_allowed_iff by blast
qed

section \<open>Properties\<close>


lemma forward_in_frame:
  "slice forward_in 0 6 = rif_mac wan_rif" "ethertype_ipv4 forward_in" "34 \<le> length forward_in"
  "ip_version_ok forward_in" "14 + ip_header_length forward_in \<le> length forward_in"
  "ip_total_ok forward_in" "read16 forward_in 20 AND 0x3fff = 0"
  "\<not> l4_truncated (frame_flow forward_in)"
  by code_simp+


text \<open>C17: No frame whose TCP or UDP destination port lies in a derived hardware deny range is admitted by
  the software check, and no such port belongs to the port range of a NAT policy of the interface.\<close>

theorem l4_deny_conservative:
  assumes "(a, b) \<in> set (router_ingress_l4_deny_ranges c rif protocol capacity ok)"
  shows "(\<forall>f. fl_protocol (frame_flow f) = protocol \<and> a \<le> unat (fl_port (frame_flow f)) \<and>
      unat (fl_port (frame_flow f)) \<le> b \<longrightarrow> router_ingress_check c rif f \<noteq> ROUTER_EGRESS_ALLOW) \<and>
    (\<forall>n port. n \<in> set (cfg_nat_policies c) \<and> np_vr_id n = rif_vr_id rif \<and>
      np_interface_id n = rif_interface_id rif \<and> a \<le> unat port \<and> unat port \<le> b \<longrightarrow>
      \<not> (np_port_first n \<le> port \<and> port \<le> np_port_last n))"
  using l4_deny_sound [OF assms] l4_deny_outside_nat [OF assms] by blast

definition closed_config :: router_config where
  "closed_config = sample_config\<lparr>cfg_ingress_rules := [], cfg_nat_policies := []\<rparr>"

lemma run_end_whole:
  assumes "\<And>i. i \<le> tp \<Longrightarrow> \<not> ex i"
  shows "run_end tp ex 0 = Suc tp"
proof -
  have "\<not> run_end tp ex 0 \<le> tp" using run_end_stop [of tp ex 0] assms by blast
  moreover have "\<not> Suc tp < run_end tp ex 0" using run_end_bounds [of 0 tp ex] by fastforce
  ultimately show ?thesis by linarith
qed

lemma closed_deny_range: "(0, 65535) \<in> set (router_ingress_l4_deny_ranges closed_config wan_rif 17 8 True)"
proof -
  let ?ex = "l4_excluded closed_config wan_rif 17"
  have ex: "\<not> ?ex p" for p by (simp add: l4_excluded_iff closed_config_def)
  have e: "run_end 65535 ?ex 0 = 65536"
    using run_end_whole [of 65535 ?ex] ex by simp
  have "runs_from 65535 ?ex 0 = [(0, 65535)]"
    by (simp add: runs_from.simps [of 65535 ?ex 0] runs_from.simps [of 65535 ?ex 65536] ex e)
  then show ?thesis
    by (simp add: router_ingress_l4_deny_ranges_def default_deny_def rif_policy_def closed_config_def
        sample_config_def wan_rif_def)
qed

theorem l4_deny_conservative_witness:
  "router_ingress_check closed_config wan_rif forward_in \<noteq> ROUTER_EGRESS_ALLOW"
proof -
  have "fl_protocol (frame_flow forward_in) = 17" by code_simp
  moreover have "unat (fl_port (frame_flow forward_in)) \<le> 65535" by (rule unat_u16_le)
  ultimately show ?thesis using l4_deny_conservative [OF closed_deny_range] by simp
qed

text \<open>C18: The ICMP deny matches derived for the hardware, when they fit, match exactly the type and code
  pairs that no allow rule covers, and no matched packet is admitted by the software check.\<close>

theorem icmp_deny_conservative:
  assumes "m \<in> set (router_ingress_icmp_deny_matches c rif capacity)"
  shows "(\<forall>f t k rest. fl_protocol (frame_flow f) = 1 \<and> fl_l4 (frame_flow f) = t # k # rest \<and>
      deny_matches m t k \<longrightarrow> router_ingress_check c rif f \<noteq> ROUTER_EGRESS_ALLOW) \<and>
    (\<forall>t k. any_match (router_ingress_icmp_deny_matches c rif capacity) t k \<longleftrightarrow>
      \<not> icmp_allowed c rif (unat t) (unat k))"
proof -
  from assms have ms: "deny_types (icmp_allowed c rif) capacity 0 [] =
      Some (router_ingress_icmp_deny_matches c rif capacity)"
    by (cases "deny_types (icmp_allowed c rif) capacity 0 []")
      (auto simp: router_ingress_icmp_deny_matches_def split: if_splits)
  from icmp_deny_exact [OF this] icmp_deny_sound [OF assms] show ?thesis by blast
qed

lemma closed_icmp_deny:
  "router_ingress_icmp_deny_matches closed_config wan_rif 8 =
     [\<lparr>dm_type = 0, dm_type_mask = 0, dm_code = 0, dm_code_mask = 0\<rparr>]"
proof -
  let ?a = "icmp_allowed closed_config wan_rif"
  have "\<not> ?a t k" for t k by (simp add: icmp_allowed_iff closed_config_def)
  then have fd: "full_deny ?a t" for t by (simp add: full_deny_iff)
  have e: "run_end 255 (\<lambda>i. False) 0 = 256" by (subst run_end_whole) simp_all
  have a: "append_u8_prefixes [] 8 0 255 True 0 =
      Some [\<lparr>dm_type = 0, dm_type_mask = 0, dm_code = 0, dm_code_mask = 0\<rparr>]" by code_simp
  have "deny_types ?a 8 0 [] = Some [\<lparr>dm_type = 0, dm_type_mask = 0, dm_code = 0, dm_code_mask = 0\<rparr>]"
    using a by (simp add: deny_types.simps [of ?a 8 0] deny_types.simps [of ?a 8 256] fd e Let_def)
  then show ?thesis
    by (simp add: router_ingress_icmp_deny_matches_def default_deny_def rif_policy_def closed_config_def
        sample_config_def wan_rif_def)
qed

theorem icmp_deny_conservative_witness: "\<not> icmp_allowed closed_config wan_rif 8 0"
proof -
  let ?m = "\<lparr>dm_type = 0, dm_type_mask = 0, dm_code = 0, dm_code_mask = 0\<rparr>"
  have "?m \<in> set (router_ingress_icmp_deny_matches closed_config wan_rif 8)"
    by (simp add: closed_icmp_deny)
  note P = icmp_deny_conservative [OF this]
  have "any_match (router_ingress_icmp_deny_matches closed_config wan_rif 8) 8 0"
    by (simp add: closed_icmp_deny any_match_def deny_matches_def)
  moreover have "unat (8 :: u8) = 8" "unat (0 :: u8) = 0" by simp_all
  ultimately show ?thesis using P by metis
qed

end
