(* ===== verification/Router_Hw.thy ===== *)
theory Router_Hw
  imports Router_Forward Router_Neighbor "HOL-Library.Multiset"
begin

text \<open>
  The hardware route plan of \<^verbatim>\<open>router/router_hw.c\<close>: resolved neighbors of private vSwitch
  interfaces as /32 entries, static prefixes with a resolved next hop, and the comparison of two
  plans.  A host entry is proved to agree with the software lookup, plan equality is proved to be
  equality of multisets, and a static entry is shown to be able to disagree with the software
  lookup.
\<close>

section \<open>Building the plan\<close>

record router_hw_route =
  hr_vr_id :: u16
  hr_egress_interface_id :: u16
  hr_egress_vswitch_id :: u16
  hr_target_port_id :: u16
  hr_prefix :: u32
  hr_length :: u8
  hr_source_mac :: mac
  hr_destination_mac :: mac

definition ROUTER_HW_MAX_ROUTES :: nat where
  "ROUTER_HW_MAX_ROUTES = ROUTER_MAX_NEIGHBORS + ROUTER_MAX_ROUTES"

definition interface_is_nat_egress :: "router_config \<Rightarrow> router_interface \<Rightarrow> bool" where
  "interface_is_nat_egress c rif =
     (case router_nat_policy_find c (rif_vr_id rif) of
        None \<Rightarrow> False | Some p \<Rightarrow> np_interface_id p = rif_interface_id rif)"

definition static_route_wins :: "router_config \<Rightarrow> router_interface \<Rightarrow> u32 \<Rightarrow> bool" where
  "static_route_wins c connected dst =
     list_ex (\<lambda>rt. rt_vr_id rt = rif_vr_id connected \<and> rif_prefix connected < rt_length rt \<and>
        dst AND prefix_mask (rt_length rt) = rt_prefix rt) (cfg_routes c)"

text \<open>\<open>append_route\<close>: \<open>None\<close> is false (no room); a key already present is kept as it is.\<close>

definition hw_route_of :: "router_interface \<Rightarrow> router_neighbor \<Rightarrow> u32 \<Rightarrow> u8 \<Rightarrow> router_hw_route" where
  "hw_route_of egress nb prefix len =
     \<lparr>hr_vr_id = rif_vr_id egress, hr_egress_interface_id = rif_interface_id egress,
      hr_egress_vswitch_id = rif_vswitch_id egress, hr_target_port_id = nb_port_id nb,
      hr_prefix = prefix, hr_length = len, hr_source_mac = rif_mac egress,
      hr_destination_mac = nb_mac nb\<rparr>"

definition append_route ::
  "nat \<Rightarrow> router_hw_route list \<Rightarrow> router_interface \<Rightarrow> router_neighbor \<Rightarrow> u32 \<Rightarrow> u8 \<Rightarrow>
   router_hw_route list option" where
  "append_route capacity rs egress nb prefix len =
     (if capacity \<le> length rs then None
      else if list_ex (\<lambda>r. hr_vr_id r = rif_vr_id egress \<and> hr_prefix r = prefix \<and> hr_length r = len) rs
        then Some rs
      else Some (rs @ [hw_route_of egress nb prefix len]))"

text \<open>The egress of an entry is a private, addressed vSwitch interface without NAT.\<close>

definition hw_egress :: "router_config \<Rightarrow> u16 \<Rightarrow> u16 \<Rightarrow> router_interface option" where
  "hw_egress c vr i =
     (case interface_in_vr c vr i of
        None \<Rightarrow> None
      | Some e \<Rightarrow> if rif_attachment e \<noteq> ROUTER_VSWITCH \<or> \<not> rif_has_address e \<or>
                    interface_is_nat_egress c e then None else Some e)"

text \<open>The two loops: \<open>Inl\<close> is the early return when the plan is full.\<close>

fun connected_routes ::
  "router_config \<Rightarrow> u64 \<Rightarrow> nat \<Rightarrow> router_hw_route list \<Rightarrow> router_neighbor list \<Rightarrow>
   router_hw_route list + router_hw_route list" where
  "connected_routes c now capacity rs [] = Inr rs"
| "connected_routes c now capacity rs (n # ns) =
     (if \<not> nb_used n \<or> \<not> nb_resolved n \<or> ROUTER_NEIGHBOR_REACHABLE_NS < now - nb_last_seen_ns n
        then connected_routes c now capacity rs ns
      else if router_ingress_vr_has_policy c (nb_vr_id n) then connected_routes c now capacity rs ns
      else case hw_egress c (nb_vr_id n) (nb_interface_id n) of
        None \<Rightarrow> connected_routes c now capacity rs ns
      | Some e \<Rightarrow>
          if static_route_wins c e (nb_ip n) then connected_routes c now capacity rs ns
          else (case append_route capacity rs e n (nb_ip n) 32 of
                  None \<Rightarrow> Inl rs
                | Some rs' \<Rightarrow> connected_routes c now capacity rs' ns))"

fun static_routes ::
  "router_config \<Rightarrow> router_neighbor_table \<Rightarrow> u64 \<Rightarrow> nat \<Rightarrow> router_hw_route list \<Rightarrow> router_route list \<Rightarrow>
   router_hw_route list" where
  "static_routes c nbs now capacity rs [] = rs"
| "static_routes c nbs now capacity rs (rt # rts) =
     (if router_ingress_vr_has_policy c (rt_vr_id rt) then static_routes c nbs now capacity rs rts
      else case hw_egress c (rt_vr_id rt) (rt_interface_id rt) of
        None \<Rightarrow> static_routes c nbs now capacity rs rts
      | Some e \<Rightarrow>
          (case router_neighbor_lookup nbs (rt_vr_id rt, rt_interface_id rt, rt_gateway rt) now of
             None \<Rightarrow> static_routes c nbs now capacity rs rts
           | Some n \<Rightarrow>
               (case append_route capacity rs e n (rt_prefix rt) (rt_length rt) of
                  None \<Rightarrow> rs
                | Some rs' \<Rightarrow> static_routes c nbs now capacity rs' rts)))"

definition router_hw_routes_build ::
  "router_config \<Rightarrow> router_neighbor_table \<Rightarrow> u64 \<Rightarrow> nat \<Rightarrow> router_hw_route list" where
  "router_hw_routes_build c nbs now capacity =
     (if capacity = 0 then []
      else case connected_routes c now capacity [] (map (nt_entries nbs) [0..<ROUTER_MAX_NEIGHBORS]) of
        Inl rs \<Rightarrow> rs
      | Inr rs \<Rightarrow> static_routes c nbs now capacity rs (cfg_routes c))"

section \<open>Comparing plans\<close>

definition route_spec_equal :: "router_hw_route \<Rightarrow> router_hw_route \<Rightarrow> bool" where
  "route_spec_equal l r \<longleftrightarrow>
     hr_vr_id l = hr_vr_id r \<and> hr_egress_interface_id l = hr_egress_interface_id r \<and>
     hr_egress_vswitch_id l = hr_egress_vswitch_id r \<and> hr_target_port_id l = hr_target_port_id r \<and>
     hr_prefix l = hr_prefix r \<and> hr_length l = hr_length r \<and>
     hr_source_mac l = hr_source_mac r \<and> hr_destination_mac l = hr_destination_mac r"

text \<open>The nested loop: each left route claims the first equal right route not yet \<open>matched\<close>.\<close>

fun match_routes :: "router_hw_route list \<Rightarrow> (router_hw_route \<times> bool) list \<Rightarrow> bool" where
  "match_routes [] rs = True"
| "match_routes (l # ls) rs =
     (case find_index (\<lambda>(r, matched). \<not> matched \<and> route_spec_equal l r) rs of
        None \<Rightarrow> False
      | Some j \<Rightarrow> match_routes ls (rs[j := (fst (rs ! j), True)]))"

definition router_hw_route_plans_equal ::
  "router_config \<Rightarrow> router_config \<Rightarrow> router_neighbor_table \<Rightarrow> u64 \<Rightarrow> bool" where
  "router_hw_route_plans_equal left right nbs now =
     (let ls = router_hw_routes_build left nbs now ROUTER_HW_MAX_ROUTES;
          rs = router_hw_routes_build right nbs now ROUTER_HW_MAX_ROUTES in
      length ls = length rs \<and> match_routes ls (map (\<lambda>r. (r, False)) rs))"

section \<open>Plan equality is equality of multisets\<close>

lemma route_spec_equal_iff: "route_spec_equal l r \<longleftrightarrow> l = r"
  by (auto simp: route_spec_equal_def intro: router_hw_route.equality)

definition unclaimed :: "(router_hw_route \<times> bool) list \<Rightarrow> router_hw_route multiset" where
  "unclaimed rs = mset (map fst (filter (\<lambda>(r, matched). \<not> matched) rs))"

lemma unclaimed_claim:
  assumes "find_index (\<lambda>(r, matched). \<not> matched \<and> route_spec_equal l r) rs = Some j"
  shows "unclaimed rs = add_mset l (unclaimed (rs[j := (fst (rs ! j), True)]))"
  using assms
proof (induction rs arbitrary: j)
  case (Cons x rs)
  show ?case
  proof (cases "\<not> snd x \<and> route_spec_equal l (fst x)")
    case True
    then have "j = 0" using Cons.prems by (simp add: case_prod_beta)
    then show ?thesis using True by (simp add: unclaimed_def case_prod_beta route_spec_equal_iff)
  next
    case False
    then obtain k where k: "j = Suc k"
      "find_index (\<lambda>(r, matched). \<not> matched \<and> route_spec_equal l r) rs = Some k"
      using Cons.prems by (cases x) (auto split: option.splits if_splits)
    from Cons.IH [OF k(2)] show ?thesis by (simp add: k(1) unclaimed_def case_prod_beta)
  qed
qed simp

lemma unclaimed_none:
  "find_index (\<lambda>(r, matched). \<not> matched \<and> route_spec_equal l r) rs = None \<Longrightarrow> l \<notin># unclaimed rs"
  by (induction rs) (auto simp: unclaimed_def case_prod_beta route_spec_equal_iff split: if_splits option.splits)

lemma match_routes_sub: "match_routes ls rs \<longleftrightarrow> mset ls \<subseteq># unclaimed rs"
proof (induction ls arbitrary: rs)
  case (Cons l ls)
  show ?case
  proof (cases "find_index (\<lambda>(r, matched). \<not> matched \<and> route_spec_equal l r) rs")
    case None
    from unclaimed_none [OF this] None show ?thesis by (auto dest: mset_subset_eqD)
  next
    case (Some j)
    from unclaimed_claim [OF this] Cons.IH show ?thesis by (simp add: Some)
  qed
qed simp

lemma plans_equal_aux:
  "router_hw_route_plans_equal left right nbs now \<longleftrightarrow>
     mset (router_hw_routes_build left nbs now ROUTER_HW_MAX_ROUTES) =
     mset (router_hw_routes_build right nbs now ROUTER_HW_MAX_ROUTES)"
proof -
  let ?l = "router_hw_routes_build left nbs now ROUTER_HW_MAX_ROUTES"
  let ?r = "router_hw_routes_build right nbs now ROUTER_HW_MAX_ROUTES"
  have u: "unclaimed (map (\<lambda>r. (r, False)) rs) = mset rs" for rs
    by (simp add: unclaimed_def filter_map o_def)
  have "router_hw_route_plans_equal left right nbs now \<longleftrightarrow> length ?l = length ?r \<and> mset ?l \<subseteq># mset ?r"
    by (simp add: router_hw_route_plans_equal_def Let_def match_routes_sub u)
  also have "\<dots> \<longleftrightarrow> mset ?l = mset ?r"
    by (metis mset_eq_length size_mset subset_mset.le_less mset_subset_size nat_less_le)
  finally show ?thesis .
qed

section \<open>Where the entries come from\<close>

definition host_entry :: "router_config \<Rightarrow> router_neighbor_table \<Rightarrow> u64 \<Rightarrow> router_hw_route \<Rightarrow> bool" where
  "host_entry c nbs now r \<longleftrightarrow>
     (\<exists>i<ROUTER_MAX_NEIGHBORS. \<exists>e. let n = nt_entries nbs i in
        nb_used n \<and> neighbor_fresh now n \<and> \<not> router_ingress_vr_has_policy c (nb_vr_id n) \<and>
        hw_egress c (nb_vr_id n) (nb_interface_id n) = Some e \<and>
        \<not> static_route_wins c e (nb_ip n) \<and> r = hw_route_of e n (nb_ip n) 32)"

definition prefix_entry :: "router_config \<Rightarrow> router_neighbor_table \<Rightarrow> u64 \<Rightarrow> router_hw_route \<Rightarrow> bool" where
  "prefix_entry c nbs now r \<longleftrightarrow>
     (\<exists>rt\<in>set (cfg_routes c). \<exists>e n. \<not> router_ingress_vr_has_policy c (rt_vr_id rt) \<and>
        hw_egress c (rt_vr_id rt) (rt_interface_id rt) = Some e \<and>
        router_neighbor_lookup nbs (rt_vr_id rt, rt_interface_id rt, rt_gateway rt) now = Some n \<and>
        r = hw_route_of e n (rt_prefix rt) (rt_length rt))"

lemma append_route_Some:
  "append_route capacity rs e n p l = Some rs' \<Longrightarrow>
   set rs' \<subseteq> insert (hw_route_of e n p l) (set rs) \<and> length rs' \<le> capacity"
  by (auto simp: append_route_def split: if_splits)

definition plan_of :: "router_hw_route list + router_hw_route list \<Rightarrow> router_hw_route list" where
  "plan_of x = (case x of Inl rs \<Rightarrow> rs | Inr rs \<Rightarrow> rs)"

text \<open>A plan within its capacity whose entries all satisfy \<open>P\<close>.\<close>

definition plan_ok :: "(router_hw_route \<Rightarrow> bool) \<Rightarrow> nat \<Rightarrow> router_hw_route list \<Rightarrow> bool" where
  "plan_ok P capacity rs \<longleftrightarrow> (\<forall>r\<in>set rs. P r) \<and> length rs \<le> capacity"

lemma append_route_ok:
  "append_route capacity rs e n p l = Some rs' \<Longrightarrow> P (hw_route_of e n p l) \<Longrightarrow> plan_ok P capacity rs \<Longrightarrow>
   plan_ok P capacity rs'"
  using append_route_Some [of capacity rs e n p l rs'] by (auto simp: plan_ok_def)

lemma connected_routes_from:
  assumes "\<forall>n\<in>set ns. \<forall>e. nb_used n \<and> neighbor_fresh now n \<and>
      \<not> router_ingress_vr_has_policy c (nb_vr_id n) \<and>
      hw_egress c (nb_vr_id n) (nb_interface_id n) = Some e \<and>
      \<not> static_route_wins c e (nb_ip n) \<longrightarrow> P (hw_route_of e n (nb_ip n) 32)"
  shows "plan_ok P capacity rs \<Longrightarrow> plan_ok P capacity (plan_of (connected_routes c now capacity rs ns))"
  using assms
proof (induction ns arbitrary: rs)
  case Nil
  then show ?case by (simp add: plan_of_def)
next
  case (Cons n ns)
  have ih: "plan_ok P capacity rs' \<Longrightarrow>
      plan_ok P capacity (plan_of (connected_routes c now capacity rs' ns))" for rs'
    by (rule Cons.IH) (use Cons.prems(2) in simp_all)
  let ?skip = "\<not> nb_used n \<or> \<not> nb_resolved n \<or> ROUTER_NEIGHBOR_REACHABLE_NS < now - nb_last_seen_ns n"
  show ?case
  proof (cases "?skip \<or> router_ingress_vr_has_policy c (nb_vr_id n) \<or>
      hw_egress c (nb_vr_id n) (nb_interface_id n) = None")
    case True
    then have "connected_routes c now capacity rs (n # ns) = connected_routes c now capacity rs ns" by auto
    with ih [OF Cons.prems(1)] show ?thesis by simp
  next
    case False
    then obtain e where e: "hw_egress c (nb_vr_id n) (nb_interface_id n) = Some e" by auto
    have fresh: "neighbor_fresh now n" using False by (simp add: neighbor_fresh_def not_less)
    have red: "connected_routes c now capacity rs (n # ns) =
      (if static_route_wins c e (nb_ip n) then connected_routes c now capacity rs ns
       else (case append_route capacity rs e n (nb_ip n) 32 of
               None \<Rightarrow> Inl rs | Some rs' \<Rightarrow> connected_routes c now capacity rs' ns))"
      using False e by simp
    have P: "\<not> static_route_wins c e (nb_ip n) \<Longrightarrow> P (hw_route_of e n (nb_ip n) 32)"
      using Cons.prems(2) False fresh e by simp
    show ?thesis
      unfolding red
    proof (split if_split, intro conjI impI)
      assume "\<not> static_route_wins c e (nb_ip n)"
      note P = P [OF this]
      show "plan_ok P capacity (plan_of (case append_route capacity rs e n (nb_ip n) 32 of
          None \<Rightarrow> Inl rs | Some rs' \<Rightarrow> connected_routes c now capacity rs' ns))"
        using Cons.prems(1) ih append_route_ok [OF _ P Cons.prems(1)]
        by (auto simp: plan_of_def split: option.split)
    qed (rule ih [OF Cons.prems(1)])
  qed
qed

lemma static_routes_from:
  assumes "\<forall>rt\<in>set rts. \<forall>e n. \<not> router_ingress_vr_has_policy c (rt_vr_id rt) \<and>
      hw_egress c (rt_vr_id rt) (rt_interface_id rt) = Some e \<and>
      router_neighbor_lookup nbs (rt_vr_id rt, rt_interface_id rt, rt_gateway rt) now = Some n \<longrightarrow>
      P (hw_route_of e n (rt_prefix rt) (rt_length rt))"
  shows "plan_ok P capacity rs \<Longrightarrow> plan_ok P capacity (static_routes c nbs now capacity rs rts)"
  using assms
proof (induction rts arbitrary: rs)
  case (Cons rt rts)
  have ih: "plan_ok P capacity rs' \<Longrightarrow> plan_ok P capacity (static_routes c nbs now capacity rs' rts)" for rs'
    by (rule Cons.IH) (use Cons.prems(2) in simp_all)
  let ?k = "(rt_vr_id rt, rt_interface_id rt, rt_gateway rt)"
  show ?case
  proof (cases "router_ingress_vr_has_policy c (rt_vr_id rt) \<or>
      hw_egress c (rt_vr_id rt) (rt_interface_id rt) = None \<or> router_neighbor_lookup nbs ?k now = None")
    case True
    then have "static_routes c nbs now capacity rs (rt # rts) = static_routes c nbs now capacity rs rts"
      by (auto split: option.split)
    with ih [OF Cons.prems(1)] show ?thesis by simp
  next
    case False
    then obtain e n where en: "hw_egress c (rt_vr_id rt) (rt_interface_id rt) = Some e"
      "router_neighbor_lookup nbs ?k now = Some n" by auto
    have P: "P (hw_route_of e n (rt_prefix rt) (rt_length rt))" using Cons.prems(2) False en by simp
    have red: "static_routes c nbs now capacity rs (rt # rts) =
      (case append_route capacity rs e n (rt_prefix rt) (rt_length rt) of
         None \<Rightarrow> rs | Some rs' \<Rightarrow> static_routes c nbs now capacity rs' rts)"
      using False en by simp
    show ?thesis
      unfolding red using Cons.prems(1) ih append_route_ok [OF _ P Cons.prems(1)]
      by (auto split: option.split)
  qed
qed simp

lemma build_from:
  "plan_ok (\<lambda>r. host_entry c nbs now r \<or> prefix_entry c nbs now r) capacity
     (router_hw_routes_build c nbs now capacity)"
proof (cases "capacity = 0")
  case True
  then show ?thesis by (simp add: router_hw_routes_build_def plan_ok_def)
next
  case False
  let ?P = "\<lambda>r. host_entry c nbs now r \<or> prefix_entry c nbs now r"
  let ?ns = "map (nt_entries nbs) [0..<ROUTER_MAX_NEIGHBORS]"
  have con: "plan_ok ?P capacity (plan_of (connected_routes c now capacity [] ?ns))"
  proof (rule connected_routes_from)
    show "plan_ok ?P capacity []" by (simp add: plan_ok_def)
  qed (auto simp: host_entry_def Let_def)
  have "plan_ok ?P capacity rs \<Longrightarrow> plan_ok ?P capacity (static_routes c nbs now capacity rs (cfg_routes c))" for rs
    by (rule static_routes_from) (auto simp: prefix_entry_def)
  with con False show ?thesis
    by (auto simp: router_hw_routes_build_def plan_of_def split: sum.splits)
qed

section \<open>Host entries agree with the software lookup\<close>

text \<open>Neighbors are kept on the subnet of their interface: learning checks it, and next hops are on-link.\<close>

definition neighbors_on_link :: "router_config \<Rightarrow> router_neighbor_table \<Rightarrow> bool" where
  "neighbors_on_link c nbs \<longleftrightarrow>
     (\<forall>i<ROUTER_MAX_NEIGHBORS. let n = nt_entries nbs i in nb_used n \<longrightarrow>
        (\<forall>e. interface_in_vr c (nb_vr_id n) (nb_interface_id n) = Some e \<longrightarrow>
           connected_match (nb_vr_id n) (nb_ip n) e))"

definition adjacent ::
  "router_neighbor_table \<Rightarrow> u64 \<Rightarrow> neighbor_key \<Rightarrow> router_neighbor \<Rightarrow> bool" where
  "adjacent nbs now k n \<longleftrightarrow>
     (\<exists>i<ROUTER_MAX_NEIGHBORS. nt_entries nbs i = n) \<and> nb_used n \<and> neighbor_fresh now n \<and> nb_key n = k"

lemma hw_egressD:
  assumes "hw_egress c vr i = Some e"
  shows "interface_in_vr c vr i = Some e" "e \<in> set (cfg_interfaces c)" "rif_vr_id e = vr"
    "rif_interface_id e = i" "rif_has_address e"
proof -
  show ie: "interface_in_vr c vr i = Some e"
    using assms by (auto simp: hw_egress_def split: option.splits if_splits)
  show "e \<in> set (cfg_interfaces c)" "rif_vr_id e = vr" "rif_interface_id e = i"
    using ie by (auto simp: interface_in_vr_def dest: find_SomeD)
  show "rif_has_address e" using assms by (auto simp: hw_egress_def split: option.splits if_splits)
qed

lemma connected_unique:
  assumes wf: "config_wf c" and a: "a \<in> set (cfg_interfaces c)" "connected_match vr dst a"
    and b: "b \<in> set (cfg_interfaces c)" "connected_match vr dst b"
  shows "a = b"
proof (rule ccontr)
  assume ne: "a \<noteq> b"
  have "rif_interface_id a \<noteq> rif_interface_id b"
    using wf_interfaces_unique [OF config_wf_interfaces [OF wf] a(1) b(1)] ne by blast
  from config_wf_compat [OF wf a(1) b(1) this] a(2) b(2)
  have no: "\<not> subnet_overlap a (rif_address b) (rif_prefix b)"
    by (simp add: rif_compat_def connected_match_def)
  let ?l = "if rif_prefix a < rif_prefix b then rif_prefix a else rif_prefix b"
  have "rif_address a AND prefix_mask ?l = dst AND prefix_mask ?l"
    by (rule prefix_agree_shorter [of _ "rif_prefix a"], use a(2) in \<open>simp only: connected_match_def\<close>) (auto simp: not_less)
  moreover have "rif_address b AND prefix_mask ?l = dst AND prefix_mask ?l"
    by (rule prefix_agree_shorter [of _ "rif_prefix b"], use b(2) in \<open>simp only: connected_match_def\<close>) (auto simp: not_less)
  ultimately show False using no by (simp add: subnet_overlap_def Let_def)
qed

lemma candidates_cases:
  assumes "x \<in> set (candidates c vr dst)"
  obtains (connected) e where "x = (rif_prefix e, True, dst, e)" "e \<in> set (cfg_interfaces c)"
      "connected_match vr dst e"
    | (static) rt e where "x = (rt_length rt, False, rt_gateway rt, e)" "rt \<in> set (cfg_routes c)"
      "rt_vr_id rt = vr" "dst AND prefix_mask (rt_length rt) = rt_prefix rt"
      "interface_in_vr c vr (rt_interface_id rt) = Some e"
proof -
  consider "x \<in> set (connected_candidates c vr dst)" | "x \<in> set (static_candidates c vr dst)"
    using assms by (auto simp: candidates_def)
  then show thesis
  proof cases
    case 1
    then obtain e where "x = (rif_prefix e, True, dst, e)" "e \<in> set (cfg_interfaces c)"
      "connected_match vr dst e" by (auto simp: connected_candidates_def)
    then show thesis by (rule connected)
  next
    case 2
    then obtain rt where rt: "rt \<in> set (cfg_routes c)" "static_candidate c vr dst rt = Some x"
      by (auto simp: static_candidates_eq map_filter_def)
    then obtain e where "x = (rt_length rt, False, rt_gateway rt, e)" "rt_vr_id rt = vr"
      "dst AND prefix_mask (rt_length rt) = rt_prefix rt"
      "interface_in_vr c vr (rt_interface_id rt) = Some e"
      by (auto simp: static_candidate_def split: if_splits option.splits)
    with rt(1) show thesis by (intro static)
  qed
qed

lemma in_candidates:
  "e \<in> set (cfg_interfaces c) \<Longrightarrow> connected_match vr dst e \<Longrightarrow>
     (rif_prefix e, True, dst, e) \<in> set (candidates c vr dst)"
  "rt \<in> set (cfg_routes c) \<Longrightarrow> rt_vr_id rt = vr \<Longrightarrow> dst AND prefix_mask (rt_length rt) = rt_prefix rt \<Longrightarrow>
     interface_in_vr c vr (rt_interface_id rt) = Some e \<Longrightarrow> rif_has_address e \<Longrightarrow>
     (rt_length rt, False, rt_gateway rt, e) \<in> set (candidates c vr dst)"
  by (force simp: candidates_def connected_candidates_def)
    (force simp: candidates_def static_candidates_eq static_candidate_def map_filter_def)

lemma lpm_unique_best:
  assumes wf: "config_wf c" and x: "(n, k, h, e) \<in> set (candidates c vr dst)"
    and best: "\<And>y. y \<in> set (candidates c vr dst) \<Longrightarrow> better y (n, k, h, e) \<Longrightarrow> y = (n, k, h, e)"
  shows "l_egress (lpm_search c vr dst) = Some e \<and> l_next_hop (lpm_search c vr dst) = h \<and>
    l_have (lpm_search c vr dst)"
proof -
  let ?s = "lpm_search c vr dst"
  have "candidates c vr dst \<noteq> []" using x by auto
  with lpm_search_spec [OF wf, of vr dst] obtain e' where e': "l_have ?s" "l_egress ?s = Some e'"
    "(l_length ?s, l_connected ?s, l_next_hop ?s, e') \<in> set (candidates c vr dst)"
    "\<forall>y\<in>set (candidates c vr dst). better (l_length ?s, l_connected ?s, l_next_hop ?s, e') y" by blast
  from best [OF e'(3)] e'(4) x have "(l_length ?s, l_connected ?s, l_next_hop ?s, e') = (n, k, h, e)" by blast
  with e' show ?thesis by simp
qed

lemma host_entry_agrees:
  assumes wf: "config_wf c" and h: "host_entry c nbs now r" and on: "neighbors_on_link c nbs"
  shows "\<exists>e n. l_have (lpm_search c (hr_vr_id r) (hr_prefix r)) \<and>
    l_egress (lpm_search c (hr_vr_id r) (hr_prefix r)) = Some e \<and>
    adjacent nbs now (hr_vr_id r, rif_interface_id e, l_next_hop (lpm_search c (hr_vr_id r) (hr_prefix r))) n \<and>
    r = hw_route_of e n (hr_prefix r) 32"
proof -
  obtain i e where i: "i < ROUTER_MAX_NEIGHBORS" "nb_used (nt_entries nbs i)"
    "neighbor_fresh now (nt_entries nbs i)"
    and eg: "hw_egress c (nb_vr_id (nt_entries nbs i)) (nb_interface_id (nt_entries nbs i)) = Some e"
    and nw: "\<not> static_route_wins c e (nb_ip (nt_entries nbs i))"
    and r: "r = hw_route_of e (nt_entries nbs i) (nb_ip (nt_entries nbs i)) 32"
    using h unfolding host_entry_def Let_def by blast
  let ?n = "nt_entries nbs i"
  note E = hw_egressD [OF eg]
  have vr: "hr_vr_id r = nb_vr_id ?n" "hr_prefix r = nb_ip ?n" by (simp_all add: r hw_route_of_def E(3))
  have m: "connected_match (nb_vr_id ?n) (nb_ip ?n) e"
    using on i(1,2) E(1) by (simp add: neighbors_on_link_def Let_def)
  have "l_egress (lpm_search c (nb_vr_id ?n) (nb_ip ?n)) = Some e \<and>
      l_next_hop (lpm_search c (nb_vr_id ?n) (nb_ip ?n)) = nb_ip ?n \<and> l_have (lpm_search c (nb_vr_id ?n) (nb_ip ?n))"
  proof (rule lpm_unique_best [OF wf in_candidates(1) [OF E(2) m]])
    fix y
    assume y: "y \<in> set (candidates c (nb_vr_id ?n) (nb_ip ?n))" "better y (rif_prefix e, True, nb_ip ?n, e)"
    from y(1) show "y = (rif_prefix e, True, nb_ip ?n, e)"
    proof (cases rule: candidates_cases)
      case (connected a)
      then show ?thesis using connected_unique [OF wf connected(2,3) E(2) m] connected(1) by simp
    next
      case (static rt a)
      then have "\<not> rif_prefix e < rt_length rt" using nw E(3) static by (auto simp: static_route_wins_def list_ex_iff)
      with y(2) static(1) show ?thesis by (auto simp: better_def)
    qed
  qed
  moreover have "adjacent nbs now (nb_vr_id ?n, rif_interface_id e, nb_ip ?n) ?n"
    using i E(4) by (auto simp: adjacent_def nb_key_def)
  ultimately show ?thesis using vr r by (intro exI [of _ e] exI [of _ ?n]) simp
qed

lemma prefix_entry_agrees:
  assumes wf: "config_wf c" and h: "prefix_entry c nbs now r" and l: "hr_length r = 32"
    and nl: "\<not> is_local c (hr_vr_id r) (hr_prefix r)"
  shows "\<exists>e n. l_have (lpm_search c (hr_vr_id r) (hr_prefix r)) \<and>
    l_egress (lpm_search c (hr_vr_id r) (hr_prefix r)) = Some e \<and>
    adjacent nbs now (hr_vr_id r, rif_interface_id e, l_next_hop (lpm_search c (hr_vr_id r) (hr_prefix r))) n \<and>
    r = hw_route_of e n (hr_prefix r) 32"
proof -
  obtain rt e n where rt: "rt \<in> set (cfg_routes c)" "hw_egress c (rt_vr_id rt) (rt_interface_id rt) = Some e"
    "router_neighbor_lookup nbs (rt_vr_id rt, rt_interface_id rt, rt_gateway rt) now = Some n"
    and r: "r = hw_route_of e n (rt_prefix rt) (rt_length rt)"
    using h unfolding prefix_entry_def by blast
  note E = hw_egressD [OF rt(2)]
  have f: "hr_vr_id r = rt_vr_id rt" "hr_prefix r = rt_prefix rt" "rt_length rt = 32"
    using l by (simp_all add: r hw_route_of_def E(3))
  have d: "distinct (map (\<lambda>r. (rt_vr_id r, rt_prefix r, rt_length r)) (cfg_routes c))"
    and ok: "\<forall>r\<in>set (cfg_routes c). rt_length r \<le> 32"
    using wf by (auto simp: config_wf_def wf_routes_def route_ok_def)
  have "l_egress (lpm_search c (rt_vr_id rt) (rt_prefix rt)) = Some e \<and>
      l_next_hop (lpm_search c (rt_vr_id rt) (rt_prefix rt)) = rt_gateway rt \<and>
      l_have (lpm_search c (rt_vr_id rt) (rt_prefix rt))"
  proof (rule lpm_unique_best [OF wf in_candidates(2) [OF rt(1) refl _ E(1) E(5)]])
    show "rt_prefix rt AND prefix_mask (rt_length rt) = rt_prefix rt" by (simp add: f(3) prefix_mask_32)
    fix y
    assume y: "y \<in> set (candidates c (rt_vr_id rt) (rt_prefix rt))"
      "better y (rt_length rt, False, rt_gateway rt, e)"
    from y(1) show "y = (rt_length rt, False, rt_gateway rt, e)"
    proof (cases rule: candidates_cases)
      case (connected a)
      have "rif_prefix a \<le> 32" using config_wf_rif [OF wf connected(2)] connected(3)
        by (auto simp: rif_ok_def connected_match_def)
      with y(2) connected(1) f(3) have "rif_prefix a = 32" by (auto simp: better_def)
      then have "rif_address a = rt_prefix rt" "rif_has_address a" "rif_vr_id a = rt_vr_id rt"
        using connected(3) by (simp_all add: connected_match_def prefix_mask_32)
      then have "is_local c (hr_vr_id r) (hr_prefix r)"
        using connected(2) f by (auto simp: is_local_def list_ex_iff)
      with nl show ?thesis by simp
    next
      case (static rt' a)
      have "rt_length rt' = 32" using y(2) static(1,2) ok f(3) by (fastforce simp: better_def)
      then have "(rt_vr_id rt', rt_prefix rt', rt_length rt') = (rt_vr_id rt, rt_prefix rt, rt_length rt)"
        using static(3,4) f(3) by (simp add: prefix_mask_32)
      then have "rt' = rt" using d rt(1) static(2) by (auto dest: distinct_map_inj)
      then show ?thesis using static E(1) by simp
    qed
  qed
  moreover have "adjacent nbs now (rt_vr_id rt, rif_interface_id e, rt_gateway rt) n"
    using rt(3) E(4) by (auto simp: adjacent_def router_neighbor_lookup_def dest: first_slot_SomeD)
  ultimately show ?thesis using f r by (intro exI [of _ e] exI [of _ n]) simp
qed

section \<open>A prefix entry that overrides a longer software route\<close>

text \<open>One private interface with a default route through a resolved neighbor, and a router-link
  interface on another subnet of the same virtual router.\<close>

definition link_rif :: router_interface where
  "link_rif = \<lparr>rif_vr_id = 1, rif_interface_id = 2, rif_name = ''rl'', rif_attachment = ROUTER_LINK,
     rif_vswitch_id = 0, rif_link_id = 5, rif_port = no_port, rif_mac = [2, 0, 0, 1, 0, 2],
     rif_has_address = True, rif_address = 0x0A010001, rif_prefix = 24\<rparr>"

definition bypass_config :: router_config where
  "bypass_config = \<lparr>cfg_vr_ids = [1], cfg_link_ids = [5], cfg_interfaces = [lan_rif, link_rif],
     cfg_routes = [\<lparr>rt_vr_id = 1, rt_interface_id = 1, rt_prefix = 0, rt_gateway = 0x0A000002,
                    rt_length = 0\<rparr>],
     cfg_nat_policies = [], cfg_port_forwards = [], cfg_egress_policies = [], cfg_egress_rules = [],
     cfg_ingress_policies = [], cfg_ingress_rules = [], cfg_next_interface_id = 3\<rparr>"

definition gateway_neighbor :: router_neighbor where
  "gateway_neighbor = neighbor_zero\<lparr>nb_used := True, nb_resolved := True, nb_vr_id := 1,
     nb_interface_id := 1, nb_ip := 0x0A000002, nb_mac := [2, 0, 0, 0, 0, 8], nb_port_id := 4,
     nb_last_seen_ns := 1\<rparr>"

definition gateway_table :: router_neighbor_table where
  "gateway_table = neighbor_table_zero\<lparr>nt_entries := (\<lambda>_. neighbor_zero)(0 := gateway_neighbor),
     nt_count := 1\<rparr>"

lemma bypass_wf: "config_wf bypass_config"
  by (simp add: config_wf_def bypass_config_def link_rif_def lan_rif_def no_port_def wf_interfaces_def
      ROUTER_MAX_INTERFACES_def ROUTER_MAX_VRS_def ROUTER_MAX_LINKS_def rif_ok_def pairwise_compat_def
      rif_compat_def subnet_overlap_def usable_address_def mac_ok_def mask24 wf_routes_def
      ROUTER_MAX_ROUTES_def route_ok_def rif_ref_def gateway_ok_def wf_nat_def wf_port_forwards_def
      wf_firewall_def)

lemma connected_routes_unused:
  "(\<forall>n\<in>set ns. \<not> nb_used n) \<Longrightarrow> connected_routes c now capacity rs ns = Inr rs"
  by (induction ns) simp_all

lemma map_upt_first: "0 < n \<Longrightarrow> map f [0..<n] = f 0 # map f [Suc 0..<n]"
  by (simp add: upt_conv_Cons)

lemma gateway_lookup:
  "router_neighbor_lookup gateway_table (1, 1, 0x0A000002) 2 = Some gateway_neighbor"
proof -
  have "first_slot (\<lambda>n. nb_used n \<and> neighbor_fresh 2 n \<and> nb_key n = (1, 1, 0x0A000002))
      ROUTER_MAX_NEIGHBORS (nt_entries gateway_table) = Some 0"
    by (simp add: first_slot_Some ROUTER_MAX_NEIGHBORS_def gateway_table_def gateway_neighbor_def
        neighbor_fresh_def nb_key_def ROUTER_NEIGHBOR_REACHABLE_NS_def)
  then show ?thesis by (simp add: router_neighbor_lookup_def gateway_table_def)
qed

lemma bypass_plan:
  "router_hw_routes_build bypass_config gateway_table 2 ROUTER_HW_MAX_ROUTES =
     [hw_route_of lan_rif gateway_neighbor 0x0A000002 32, hw_route_of lan_rif gateway_neighbor 0 0]"
proof -
  let ?ns = "map (nt_entries gateway_table) [Suc 0..<ROUTER_MAX_NEIGHBORS]"
  have m: "map (nt_entries gateway_table) [0..<ROUTER_MAX_NEIGHBORS] = gateway_neighbor # ?ns"
    by (subst map_upt_first) (simp_all add: gateway_table_def ROUTER_MAX_NEIGHBORS_def)
  have u: "\<forall>n\<in>set ?ns. \<not> nb_used n"
    by (auto simp: gateway_table_def neighbor_zero_def)
  have e: "hw_egress bypass_config 1 1 = Some lan_rif"
    by (simp add: hw_egress_def interface_in_vr_def bypass_config_def interface_is_nat_egress_def
        router_nat_policy_find_def lan_rif_def)
  have g: "nb_vr_id gateway_neighbor = 1" "nb_interface_id gateway_neighbor = 1"
    "nb_ip gateway_neighbor = 0x0A000002" "nb_used gateway_neighbor" "nb_resolved gateway_neighbor"
    "nb_last_seen_ns gateway_neighbor = 1"
    by (simp_all add: gateway_neighbor_def)
  have s: "\<not> static_route_wins bypass_config lan_rif 0x0A000002"
    by (simp add: static_route_wins_def bypass_config_def lan_rif_def)
  have p: "\<not> router_ingress_vr_has_policy bypass_config 1"
    by (simp add: router_ingress_vr_has_policy_def bypass_config_def)
  have r: "cfg_routes bypass_config = [\<lparr>rt_vr_id = 1, rt_interface_id = 1, rt_prefix = 0,
      rt_gateway = 0x0A000002, rt_length = 0\<rparr>]" by (simp add: bypass_config_def)
  have c: "ROUTER_HW_MAX_ROUTES = Suc (Suc (ROUTER_HW_MAX_ROUTES - 2))"
    by (simp add: ROUTER_HW_MAX_ROUTES_def ROUTER_MAX_NEIGHBORS_def ROUTER_MAX_ROUTES_def)
  have a: "append_route ROUTER_HW_MAX_ROUTES [] lan_rif gateway_neighbor 0x0A000002 32 =
      Some [hw_route_of lan_rif gateway_neighbor 0x0A000002 32]"
    "append_route ROUTER_HW_MAX_ROUTES [hw_route_of lan_rif gateway_neighbor 0x0A000002 32]
       lan_rif gateway_neighbor 0 0 =
     Some [hw_route_of lan_rif gateway_neighbor 0x0A000002 32, hw_route_of lan_rif gateway_neighbor 0 0]"
    by (subst c, simp add: append_route_def hw_route_of_def)+
  have "connected_routes bypass_config 2 ROUTER_HW_MAX_ROUTES [] (gateway_neighbor # ?ns) =
      Inr [hw_route_of lan_rif gateway_neighbor 0x0A000002 32]"
    by (simp add: g e s p a(1) connected_routes_unused [OF u] ROUTER_NEIGHBOR_REACHABLE_NS_def
        del: list.map set_map)
  then show ?thesis
    unfolding router_hw_routes_build_def m
    by (subst c) (simp add: r p e gateway_lookup a(2))
qed

section \<open>Properties\<close>

text \<open>C21: Two configurations have equal plans, for the comparison that decides whether a hardware
  replacement is needed, exactly when their plans hold the same entries with the same
  multiplicities, whatever their order.\<close>

theorem plans_equal_multiset:
  "router_hw_route_plans_equal left right nbs now \<longleftrightarrow>
     mset (router_hw_routes_build left nbs now ROUTER_HW_MAX_ROUTES) =
     mset (router_hw_routes_build right nbs now ROUTER_HW_MAX_ROUTES)"
  by (rule plans_equal_aux)


lemma gateway_on_link: "neighbors_on_link bypass_config gateway_table"
  by (auto simp: neighbors_on_link_def Let_def gateway_table_def neighbor_zero_def gateway_neighbor_def
      interface_in_vr_def bypass_config_def lan_rif_def connected_match_def mask24)


text \<open>C20: Prefix entries carry no such guarantee: in a well-formed configuration a default route with a
  resolved next hop is put into the plan although a longer connected prefix on a router link, which
  has no entry, covers part of it, so that by the plan alone packets for that subnet leave by the
  default route's interface and in software by the router link.\<close>

theorem hw_prefix_entry_overrides:
  "config_wf bypass_config \<and> neighbors_on_link bypass_config gateway_table \<and>
   filter (\<lambda>r. hr_vr_id r = 1 \<and> 0x0A010005 AND prefix_mask (hr_length r) = hr_prefix r)
     (router_hw_routes_build bypass_config gateway_table 2 ROUTER_HW_MAX_ROUTES) =
     [hw_route_of lan_rif gateway_neighbor 0 0] \<and>
   l_egress (lpm_search bypass_config 1 0x0A010005) = Some link_rif \<and>
   rif_interface_id link_rif \<noteq> rif_interface_id lan_rif"
proof -
  have "0x0A010005 AND prefix_mask 32 = (0x0A010005 :: u32)" "prefix_mask 0 = 0" by code_simp+
  then have "filter (\<lambda>r. hr_vr_id r = 1 \<and> 0x0A010005 AND prefix_mask (hr_length r) = hr_prefix r)
      (router_hw_routes_build bypass_config gateway_table 2 ROUTER_HW_MAX_ROUTES) =
      [hw_route_of lan_rif gateway_neighbor 0 0]"
    unfolding bypass_plan by (simp add: hw_route_of_def lan_rif_def)
  moreover have "l_egress (lpm_search bypass_config 1 0x0A010005) = Some link_rif" by code_simp
  ultimately show ?thesis
    using bypass_wf gateway_on_link by (simp add: link_rif_def lan_rif_def)
qed

end
