(* ===== verification/Nat_Packet.thy ===== *)
theory Nat_Packet
  imports Router_Forward
begin

text \<open>
  The packet side of \<^verbatim>\<open>router/router_nat.c\<close>: validation of a TCP, UDP or ICMP Echo frame and the
  checksum update after an address or port was rewritten.  Rewriting any mix of addresses,
  ports and the Echo identifier and updating the checksums gives a frame that passes the same
  validation again.
\<close>

section \<open>Views\<close>

datatype nat_result = ROUTER_NAT_NOT_APPLICABLE | ROUTER_NAT_TRANSLATED | ROUTER_NAT_UNSUPPORTED
  | ROUTER_NAT_INVALID | ROUTER_NAT_FULL

datatype packet_direction = PACKET_OUTBOUND | PACKET_INBOUND

text \<open>\<^verbatim>\<open>struct packet_view\<close>; the pointers \<^verbatim>\<open>ip\<close> and \<^verbatim>\<open>l4\<close> are the offsets 14 and \<open>v_l4\<close>.\<close>

record packet_view =
  v_l4 :: nat
  v_ip_header_length :: nat
  v_l4_length :: nat
  v_frame_length :: nat
  v_protocol :: u8
  v_source_ip :: u32
  v_destination_ip :: u32
  v_source_port :: u16
  v_destination_port :: u16

definition transport_checksum :: "bytes \<Rightarrow> nat \<Rightarrow> nat \<Rightarrow> u8 \<Rightarrow> u16" where
  "transport_checksum p l4 len protocol =
     checksum_finish
       (checksum_add
         (checksum_add (checksum_add 0 (slice p 26 8))
           [0, protocol, of_nat (len div 256), of_nat len])
         (slice p l4 len))"

definition icmp_checksum :: "bytes \<Rightarrow> nat \<Rightarrow> nat \<Rightarrow> u16" where
  "icmp_checksum p l4 len = checksum_finish (checksum_add 0 (slice p l4 len))"

text \<open>The checks on the transport header; \<open>TRANSLATED\<close> stands for success.\<close>

definition transport_verdict :: "bytes \<Rightarrow> nat \<Rightarrow> nat \<Rightarrow> u8 \<Rightarrow> packet_direction \<Rightarrow> nat_result" where
  "transport_verdict p l4 len protocol dir =
     (if protocol = 6 then
        (let hdr = unat (drop_bit 4 (p ! (l4 + 12))) * 4 in
         if hdr < 20 \<or> len < hdr \<or> transport_checksum p l4 len protocol \<noteq> 0
           then ROUTER_NAT_INVALID else ROUTER_NAT_TRANSLATED)
      else if protocol = 17 then
        (if unat (read16 p (l4 + 4)) \<noteq> len \<or>
            (read16 p (l4 + 6) \<noteq> 0 \<and> transport_checksum p l4 len protocol \<noteq> 0)
           then ROUTER_NAT_INVALID else ROUTER_NAT_TRANSLATED)
      else
        (if p ! l4 \<noteq> (if dir = PACKET_OUTBOUND then 8 else 0) \<or> p ! (l4 + 1) \<noteq> 0
           then ROUTER_NAT_UNSUPPORTED
         else if icmp_checksum p l4 len \<noteq> 0 then ROUTER_NAT_INVALID else ROUTER_NAT_TRANSLATED))"

text \<open>
  \<open>packet_copy_and_parse\<close>: \<open>Inl\<close> is an early return, \<open>Inr\<close> the view over the copied frame.
\<close>

definition packet_parse :: "bytes \<Rightarrow> nat \<Rightarrow> packet_direction \<Rightarrow> nat_result + packet_view" where
  "packet_parse p capacity dir =
     (if length p < 34 \<or> capacity < length p \<or> \<not> ethertype_ipv4 p then Inl ROUTER_NAT_INVALID
      else if \<not> ip_version_ok p then Inl ROUTER_NAT_INVALID
      else if \<not> ip_header_ok p then Inl ROUTER_NAT_INVALID
      else if \<not> ip_total_ok p then Inl ROUTER_NAT_INVALID
      else if read16 p 20 AND 0x3fff \<noteq> 0 then Inl ROUTER_NAT_UNSUPPORTED
      else
        let ihl = ip_header_length p; l4 = 14 + ihl; total = unat (read16 p 16);
            len = total - ihl; protocol = p ! 23 in
        if (protocol = 6 \<and> len < 20) \<or> (protocol = 17 \<and> len < 8) \<or> (protocol = 1 \<and> len < 8)
          then Inl ROUTER_NAT_INVALID
        else if protocol \<noteq> 1 \<and> protocol \<noteq> 6 \<and> protocol \<noteq> 17 then Inl ROUTER_NAT_UNSUPPORTED
        else if transport_verdict p l4 len protocol dir \<noteq> ROUTER_NAT_TRANSLATED
          then Inl (transport_verdict p l4 len protocol dir)
        else Inr \<lparr>v_l4 = l4, v_ip_header_length = ihl, v_l4_length = len, v_frame_length = 14 + total,
          v_protocol = protocol, v_source_ip = read32 p 26, v_destination_ip = read32 p 30,
          v_source_port = (if protocol = 1
             then (if dir = PACKET_OUTBOUND then read16 p (l4 + 4) else 0) else read16 p l4),
          v_destination_port = (if protocol = 1
             then (if dir = PACKET_INBOUND then read16 p (l4 + 4) else 0) else read16 p (l4 + 2))\<rparr>)"

section \<open>Updating the checksums\<close>

definition csum_offset :: "u8 \<Rightarrow> nat" where
  "csum_offset protocol = (if protocol = 1 then 2 else if protocol = 6 then 16 else 6)"

definition update_ip_checksum :: "bytes \<Rightarrow> nat \<Rightarrow> bytes" where
  "update_ip_checksum p ihl =
     (let p1 = p[24 := 0, 25 := 0] in write16 p1 24 (checksum (slice p1 14 ihl)))"

definition update_checksums :: "bytes \<Rightarrow> packet_view \<Rightarrow> bytes" where
  "update_checksums p v =
     (let l4 = v_l4 v; len = v_l4_length v; protocol = v_protocol v;
          disabled = (protocol = 17 \<and> read16 p (l4 + 6) = 0);
          p2 = update_ip_checksum p (v_ip_header_length v) in
      if protocol = 1 then
        (let p3 = p2[l4 + 2 := 0, l4 + 3 := 0] in write16 p3 (l4 + 2) (icmp_checksum p3 l4 len))
      else if disabled then p2
      else
        (let at = l4 + csum_offset protocol; p3 = p2[at := 0, at + 1 := 0];
             value = transport_checksum p3 l4 len protocol;
             value' = (if protocol = 17 \<and> value = 0 then 65535 else value) in
         write16 p3 at value'))"

section \<open>What the update achieves\<close>

lemma update_ip_checksum_props:
  assumes "20 \<le> n" "n \<le> 60" "14 + n \<le> length p"
  shows "length (update_ip_checksum p n) = length p"
    "checksum (slice (update_ip_checksum p n) 14 n) = 0"
    "\<And>j. j \<noteq> 24 \<Longrightarrow> j \<noteq> 25 \<Longrightarrow> update_ip_checksum p n ! j = p ! j"
proof -
  define p1 where "p1 = p[24 := 0, 25 := 0]"
  have u: "update_ip_checksum p n = write16 p1 24 (checksum (slice p1 14 n))"
    by (simp add: update_ip_checksum_def p1_def Let_def)
  have l: "length p1 = length p" by (simp add: p1_def)
  then show "length (update_ip_checksum p n) = length p" by (simp add: u)
  have "slice (update_ip_checksum p n) 14 n = write16 (slice p1 14 n) 10 (checksum (slice p1 14 n))"
    using assms(1,3) l slice_write16 [of 14 24 n p1 "checksum (slice p1 14 n)"] by (simp add: u)
  moreover have "checksum (write16 (slice p1 14 n) 10 (checksum (slice p1 14 n))) = 0"
    using assms l by (intro checksum_store_all) (simp_all add: length_slice nth_slice p1_def nth_list_update)
  ultimately show "checksum (slice (update_ip_checksum p n) 14 n) = 0" by simp
  show "\<And>j. j \<noteq> 24 \<Longrightarrow> j \<noteq> 25 \<Longrightarrow> update_ip_checksum p n ! j = p ! j"
    by (simp add: u write16_def p1_def)
qed

text \<open>The partial sum of the pseudo header stays far from the 32-bit limit.\<close>

lemma pseudo_sum_bound:
  assumes "26 + 8 \<le> length p"
  shows "unat (checksum_add (checksum_add 0 (slice p 26 8)) [0, pr, a, b]) \<le> 65535 * 6"
proof -
  have "wsum (slice p 26 8) \<le> 65535 * 4"
    using wsum_bound [of "slice p 26 8"] assms by (simp add: length_slice)
  moreover have "wsum [0, pr, a, b] \<le> 65535 * 2"
    using wsum_bound [of "[0, pr, a, b]"] by simp
  ultimately show ?thesis by (simp add: checksum_add_eq unat_word_ariths unsigned_of_nat take_bit_eq_mod)
qed

text \<open>Storing the value, or 65535 for a zero value, makes the sum verify.\<close>

lemma checksum_store_udp:
  assumes "even k" "Suc k < length bs" "bs ! k = 0" "bs ! Suc k = 0"
    and b: "unat s0 + wsum bs + 65535 < 4294967296"
    and z: "checksum_finish (checksum_add s0 bs) = 0"
  shows "checksum_finish (checksum_add s0 (write16 bs k 65535)) = 0"
proof -
  have u: "unat (checksum_add s0 bs) = unat s0 + wsum bs"
    using b by (simp add: checksum_add_eq unat_word_ariths unsigned_of_nat take_bit_eq_mod)
  have d: "65535 dvd unat s0 + wsum bs"
    using z u by (auto simp: checksum_finish_zero)
  have w: "wsum (write16 bs k 65535) = wsum bs + 65535"
    using wsum_write16 [OF assms(1-4), of 65535] by simp
  have u': "unat (checksum_add s0 (write16 bs k 65535)) = unat s0 + wsum bs + 65535"
    using b by (simp add: checksum_add_eq w unat_word_ariths unsigned_of_nat take_bit_eq_mod)
  then have "65535 dvd unat (checksum_add s0 (write16 bs k 65535))" using d by simp
  moreover have "checksum_add s0 (write16 bs k 65535) \<noteq> 0"
  proof
    assume "checksum_add s0 (write16 bs k 65535) = 0"
    with u' show False by simp
  qed
  ultimately show ?thesis by (simp add: checksum_finish_zero)
qed

text \<open>Geometry of a parsed frame.\<close>

definition view_geometry :: "bytes \<Rightarrow> packet_view \<Rightarrow> bool" where
  "view_geometry p v \<longleftrightarrow>
     v_l4 v = 14 + v_ip_header_length v \<and> 20 \<le> v_ip_header_length v \<and> v_ip_header_length v \<le> 60 \<and>
     v_l4 v + v_l4_length v \<le> length p \<and> v_l4_length v \<le> 65535 \<and>
     v_protocol v \<in> {1, 6, 17} \<and> 8 \<le> v_l4_length v \<and> (v_protocol v = 6 \<longrightarrow> 20 \<le> v_l4_length v)"

lemma packet_parse_view:
  assumes "packet_parse p capacity dir = Inr v"
  shows "length p \<le> capacity" "v_ip_header_length v = ip_header_length p"
    "v_l4_length v = unat (read16 p 16) - ip_header_length p" "v_protocol v = p ! 23"
    "v_source_ip v = read32 p 26" "v_destination_ip v = read32 p 30"
    "transport_verdict p (v_l4 v) (v_l4_length v) (v_protocol v) dir = ROUTER_NAT_TRANSLATED"
    "ip_version_ok p" "ethertype_ipv4 p" "34 \<le> length p" "ip_header_ok p" "ip_total_ok p"
    "read16 p 20 AND 0x3fff = 0" "v_frame_length v = 14 + unat (read16 p 16)"
    "v_l4 v = 14 + ip_header_length p"
  using assms by (auto simp: packet_parse_def Let_def split: if_splits)

lemma packet_parse_geometry:
  assumes "packet_parse p capacity dir = Inr v"
  shows "view_geometry p v"
proof -
  note s = packet_parse_view [OF assms]
  from assms have pr: "v_protocol v \<in> {1, 6, 17}"
    and len: "v_protocol v = 6 \<longrightarrow> 20 \<le> v_l4_length v" "v_protocol v \<noteq> 6 \<longrightarrow> 8 \<le> v_l4_length v"
    by (auto simp: packet_parse_def Let_def split: if_splits)
  have t: "ip_header_length p \<le> unat (read16 p 16)" "14 + unat (read16 p 16) \<le> length p"
    using s(12,10) by (auto simp: ip_total_ok_def frame_consts not_less le_diff_conv2)
  have "v_l4_length v \<le> 65535" using s(3) unat_u16_le [of "read16 p 16"] by simp
  then show ?thesis
    using ip_header_length_bounds [OF s(8)] s(15) pr len s(2,3) t
    by (cases "v_protocol v = 6") (auto simp: view_geometry_def)
qed

lemma update_checksums_props:
  assumes g: "view_geometry p v"
  defines "q \<equiv> update_checksums p v" and "at \<equiv> v_l4 v + csum_offset (v_protocol v)"
  shows "length q = length p"
    "checksum (slice q 14 (v_ip_header_length v)) = 0"
    "\<And>j. j \<notin> {24, 25, at, at + 1} \<Longrightarrow> q ! j = p ! j"
    "v_protocol v = 1 \<Longrightarrow> icmp_checksum q (v_l4 v) (v_l4_length v) = 0"
    "v_protocol v = 6 \<Longrightarrow> transport_checksum q (v_l4 v) (v_l4_length v) (v_protocol v) = 0"
    "v_protocol v = 17 \<Longrightarrow>
       (if read16 p (v_l4 v + 6) = 0 then read16 q (v_l4 v + 6) = 0
        else read16 q (v_l4 v + 6) \<noteq> 0 \<and>
          transport_checksum q (v_l4 v) (v_l4_length v) (v_protocol v) = 0)"
proof -
  let ?l4 = "v_l4 v" and ?len = "v_l4_length v" and ?n = "v_ip_header_length v" and ?pr = "v_protocol v"
  from g have n: "20 \<le> ?n" "?n \<le> 60" "14 + ?n \<le> length p" and l4: "?l4 = 14 + ?n" "?l4 + ?len \<le> length p"
    and len: "?len \<le> 65535" "8 \<le> ?len" "?pr = 6 \<longrightarrow> 20 \<le> ?len" and pr: "?pr \<in> {1, 6, 17}"
    by (auto simp: view_geometry_def)
  define p2 where "p2 = update_ip_checksum p ?n"
  note U = update_ip_checksum_props [OF n, folded p2_def]
  define p3 where "p3 = p2[at := 0, at + 1 := 0]"
  have l3: "length p3 = length p" using U(1) by (simp add: p3_def)
  have off: "csum_offset ?pr + 2 \<le> ?len" "even (csum_offset ?pr)"
    using len pr by (auto simp: csum_offset_def)
  have k: "Suc (csum_offset ?pr) < length (slice p3 ?l4 ?len)"
    using off l3 l4 by (simp add: length_slice)
  have z: "slice p3 ?l4 ?len ! csum_offset ?pr = 0" "slice p3 ?l4 ?len ! Suc (csum_offset ?pr) = 0"
    using off l4 l3 U(1) by (simp_all add: nth_slice p3_def at_def nth_list_update)
  have sl: "slice (write16 p3 at x) ?l4 ?len = write16 (slice p3 ?l4 ?len) (csum_offset ?pr) x" for x
    using slice_write16 [of ?l4 at ?len p3 x] off l4 l3 by (simp add: at_def)
  have pseudo: "slice (write16 p3 at x) 26 8 = slice p3 26 8" for x
    using l3 l4 n by (intro slice_cong) (auto simp: write16_nth_other at_def)
  have hdr: "slice r 14 ?n = slice p2 14 ?n"
    if "length r = length p" "\<And>j. j < ?l4 \<Longrightarrow> r ! j = p2 ! j" for r
    using that n l4 U(1) by (intro slice_cong) auto
  have w3: "write16 p3 at x ! j = p2 ! j" if "j \<noteq> at" "j \<noteq> at + 1" for x j
    using that by (simp add: write16_nth_other p3_def)
  have wl: "length (write16 p3 at x) = length p" for x using l3 by simp
  have hw: "checksum (slice (write16 p3 at x) 14 ?n) = 0" for x
  proof -
    have "slice (write16 p3 at x) 14 ?n = slice p2 14 ?n"
      by (rule hdr [OF wl]) (rule w3, simp_all add: at_def)
    then show ?thesis using U(2) by simp
  qed
  have bound: "wsum (slice p3 ?l4 ?len) \<le> 65535 * 32768"
  proof -
    have "wsum (slice p3 ?l4 ?len) \<le> 65535 * ((?len + 1) div 2)"
      using wsum_bound [of "slice p3 ?l4 ?len"] l3 l4 by (simp add: length_slice)
    moreover have "(?len + 1) div 2 \<le> 32768" using len by linarith
    ultimately show ?thesis by linarith
  qed
  let ?ps = "checksum_add (checksum_add 0 (slice p3 26 8)) [0, ?pr, of_nat (?len div 256), of_nat ?len]"
  have big: "unat ?ps + wsum (slice p3 ?l4 ?len) + 65535 < 4294967296"
    using pseudo_sum_bound [of p3 ?pr "of_nat (?len div 256)" "of_nat ?len"] bound l3 l4 n by simp
  have tc: "transport_checksum (write16 p3 at x) ?l4 ?len ?pr =
      checksum_finish (checksum_add ?ps (write16 (slice p3 ?l4 ?len) (csum_offset ?pr) x))" for x
    by (simp only: transport_checksum_def sl pseudo)
  have tc0: "transport_checksum p3 ?l4 ?len ?pr = checksum_finish (checksum_add ?ps (slice p3 ?l4 ?len))"
    by (simp only: transport_checksum_def)
  have store: "transport_checksum (write16 p3 at (transport_checksum p3 ?l4 ?len ?pr)) ?l4 ?len ?pr = 0"
    unfolding tc tc0 by (rule checksum_store [OF off(2) k z big])
  have store_udp: "transport_checksum p3 ?l4 ?len ?pr = 0 \<Longrightarrow>
      transport_checksum (write16 p3 at 65535) ?l4 ?len ?pr = 0"
    unfolding tc tc0 by (rule checksum_store_udp [OF off(2) k z big])
  have atlen: "Suc at < length p3" using off l4 l3 by (simp add: at_def)
  consider (icmp) "?pr = 1" "q = write16 p3 at (icmp_checksum p3 ?l4 ?len)"
    | (disabled) "?pr = 17" "read16 p (?l4 + 6) = 0" "q = p2"
    | (tcp) "?pr = 6" "q = write16 p3 at (transport_checksum p3 ?l4 ?len ?pr)"
    | (udp) x where "?pr = 17" "read16 p (?l4 + 6) \<noteq> 0" "q = write16 p3 at x" "x \<noteq> 0"
        "x = transport_checksum p3 ?l4 ?len ?pr \<or>
         x = 65535 \<and> transport_checksum p3 ?l4 ?len ?pr = 0"
  proof -
    show ?thesis
    proof (cases "?pr = 1")
      case True
      then show ?thesis
        by (intro icmp)
          (simp_all add: q_def update_checksums_def Let_def p2_def [symmetric] p3_def at_def csum_offset_def
            numeral_3_eq_3)
    next
      case p1: False
      show ?thesis
      proof (cases "?pr = 6")
        case True
        then show ?thesis
          by (intro tcp)
            (simp_all add: q_def update_checksums_def Let_def p2_def [symmetric] p3_def at_def)
      next
        case False
        then have 17: "?pr = 17" using pr p1 by auto
        show ?thesis
        proof (cases "read16 p (?l4 + 6) = 0")
          case True
          then show ?thesis using 17
            by (intro disabled) (simp_all add: q_def update_checksums_def Let_def p2_def [symmetric])
        next
          case False
          let ?v = "transport_checksum p3 ?l4 ?len ?pr"
          have "q = write16 p3 at (if ?v = 0 then 65535 else ?v)"
            using 17 False
            by (simp add: q_def update_checksums_def Let_def p2_def [symmetric] p3_def at_def)
          then show ?thesis using 17 False udp [of "if ?v = 0 then 65535 else ?v"] by auto
        qed
      qed
    qed
  qed
  note cs = this
  show "length q = length p" using cs U(1) wl by cases simp_all
  show "checksum (slice q 14 ?n) = 0"
    using cs
  proof cases
    case disabled
    then show ?thesis using U(2) by simp
  qed (simp_all only: hw)
  show "q ! j = p ! j" if "j \<notin> {24, 25, at, at + 1}" for j
    using cs that by cases (simp_all add: w3 U(3))
  show "icmp_checksum q ?l4 ?len = 0" if "?pr = 1"
    using cs
  proof cases
    case icmp
    have "checksum_finish (checksum_add 0 (write16 (slice p3 ?l4 ?len) (csum_offset ?pr)
        (checksum_finish (checksum_add 0 (slice p3 ?l4 ?len))))) = 0"
      using bound by (intro checksum_store [OF off(2) k z]) simp
    then show ?thesis unfolding icmp(2) icmp_checksum_def sl .
  qed (use that in auto)
  show "transport_checksum q ?l4 ?len ?pr = 0" if "?pr = 6"
    using cs store that by cases auto
  show "if read16 p (?l4 + 6) = 0 then read16 q (?l4 + 6) = 0
        else read16 q (?l4 + 6) \<noteq> 0 \<and> transport_checksum q ?l4 ?len ?pr = 0" if p17: "?pr = 17"
    using cs
  proof cases
    case disabled
    have "read16 p2 (?l4 + 6) = read16 p (?l4 + 6)" using l4 n by (simp add: read16_def U(3))
    with disabled show ?thesis by simp
  next
    case (udp x)
    have "at = ?l4 + 6" using p17 by (simp add: at_def csum_offset_def)
    moreover have "read16 (write16 p3 at x) at = x" by (rule read16_write16_same [OF atlen])
    ultimately show ?thesis using udp store store_udp by auto
  qed (use p17 in auto)
qed

section \<open>Rewritten frames\<close>

text \<open>
  The writes of the translation functions: the source (outbound) or destination (inbound)
  address, and the port or Echo identifier, then the checksums.
\<close>

definition port_offset :: "u8 \<Rightarrow> packet_direction \<Rightarrow> nat" where
  "port_offset protocol dir =
     (if protocol = 1 then 4 else if dir = PACKET_OUTBOUND then 0 else 2)"

definition nat_rewrite ::
  "bytes \<Rightarrow> packet_view \<Rightarrow> packet_direction \<Rightarrow> u32 \<Rightarrow> u16 \<Rightarrow> bytes" where
  "nat_rewrite p v dir ip port =
     (let p1 = write32 p (if dir = PACKET_OUTBOUND then 26 else 30) ip;
          p2 = write16 p1 (v_l4 v + port_offset (v_protocol v) dir) port in
      update_checksums p2 v)"

definition rewritten_view ::
  "packet_view \<Rightarrow> packet_direction \<Rightarrow> u32 \<Rightarrow> u16 \<Rightarrow> packet_view" where
  "rewritten_view v dir ip port =
     (if dir = PACKET_OUTBOUND then v\<lparr>v_source_ip := ip, v_source_port := port\<rparr>
      else v\<lparr>v_destination_ip := ip, v_destination_port := port\<rparr>)"

definition view_of :: "bytes \<Rightarrow> packet_direction \<Rightarrow> packet_view" where
  "view_of p dir =
     (let ihl = ip_header_length p; l4 = 14 + ihl; total = unat (read16 p 16); protocol = p ! 23 in
      \<lparr>v_l4 = l4, v_ip_header_length = ihl, v_l4_length = total - ihl, v_frame_length = 14 + total,
       v_protocol = protocol, v_source_ip = read32 p 26, v_destination_ip = read32 p 30,
       v_source_port = (if protocol = 1
          then (if dir = PACKET_OUTBOUND then read16 p (l4 + 4) else 0) else read16 p l4),
       v_destination_port = (if protocol = 1
          then (if dir = PACKET_INBOUND then read16 p (l4 + 4) else 0) else read16 p (l4 + 2))\<rparr>)"

lemma packet_parse_is_view: "packet_parse p cap dir = Inr v \<Longrightarrow> v = view_of p dir"
  by (simp add: packet_parse_def view_of_def Let_def split: if_splits)

lemma packet_parse_intro:
  assumes "34 \<le> length p" "length p \<le> cap" "ethertype_ipv4 p" "ip_version_ok p" "ip_header_ok p"
    "ip_total_ok p" "read16 p 20 AND 0x3fff = 0" "v = view_of p dir"
    "v_protocol v \<in> {1, 6, 17}" "8 \<le> v_l4_length v" "v_protocol v = 6 \<longrightarrow> 20 \<le> v_l4_length v"
    "transport_verdict p (v_l4 v) (v_l4_length v) (v_protocol v) dir = ROUTER_NAT_TRANSLATED"
  shows "packet_parse p cap dir = Inr v"
  using assms by (simp add: packet_parse_def view_of_def Let_def) auto

lemma nat_rewrite_reparses:
  fixes ip :: u32 and port :: u16
  assumes ps: "packet_parse p cap dir = Inr v"
  defines "q \<equiv> nat_rewrite p v dir ip port"
  shows "length q = length p \<and> packet_parse q cap dir = Inr (rewritten_view v dir ip port)"
proof -
  note P = packet_parse_view [OF ps] and g = packet_parse_geometry [OF ps]
  let ?l4 = "v_l4 v" and ?len = "v_l4_length v" and ?n = "v_ip_header_length v" and ?pr = "v_protocol v"
  from g have n: "20 \<le> ?n" "14 + ?n \<le> length p" and l4: "?l4 = 14 + ?n" "?l4 + ?len \<le> length p"
    and len: "?len \<le> 65535" "8 \<le> ?len" "?pr = 6 \<longrightarrow> 20 \<le> ?len" and pr: "?pr \<in> {1, 6, 17}"
    by (auto simp: view_geometry_def)
  define a where "a = (if dir = PACKET_OUTBOUND then 26 else 30 :: nat)"
  define o1 where "o1 = ?l4 + port_offset ?pr dir"
  define p2 where "p2 = write16 (write32 p a ip) o1 port"
  have q: "q = update_checksums p2 v" by (simp add: q_def nat_rewrite_def p2_def a_def o1_def)
  have l2: "length p2 = length p" by (simp add: p2_def)
  have "view_geometry p2 v" using g by (simp add: view_geometry_def l2)
  note U = update_checksums_props [OF this, folded q]
  let ?at = "?l4 + csum_offset ?pr"
  have p2: "p2 ! j = p ! j" if "j \<notin> {a, a + 1, a + 2, a + 3, o1, o1 + 1}" for j
    using that by (auto simp: p2_def write16_def write32_def)
  have keep: "q ! j = p ! j"
    if "j \<notin> {24, 25, ?at, ?at + 1, a, a + 1, a + 2, a + 3, o1, o1 + 1}" for j
    using that U(3) [of j] p2 [of j] by auto
  have low: "q ! j = p ! j" if "j < 24" for j using that keep [of j] l4 n by (auto simp: a_def o1_def)
  have addr: "q ! j = p2 ! j" if "26 \<le> j" "j < 34" for j using that U(3) [of j] l4 n by auto
  have r16: "read16 q i = read16 p i" if "Suc i < 24" for i using that by (simp add: read16_def low)
  have h: "ip_header_length q = ip_header_length p" by (simp add: ip_header_length_def low)
  have ok: "ethertype_ipv4 q" "ip_version_ok q" "ip_header_ok q" "ip_total_ok q"
    "read16 q 20 AND 0x3fff = 0" "q ! 23 = p ! 23" "length q = length p"
    using P(8-13) U(1,2) l2 P(2) n
    by (simp_all add: ethertype_ipv4_def ip_version_ok_def ip_header_ok_def ip_total_ok_def h low r16
        frame_consts)
  have a32: "read32 p2 a = ip"
  proof -
    have "a + 3 < length p" using n by (auto simp: a_def)
    moreover have "read32 p2 a = read32 (write32 p a ip) a"
      using l4 n by (intro read32_cong) (auto simp: p2_def write16_nth_other o1_def a_def)
    ultimately show ?thesis by simp
  qed
  have src: "read32 q 26 = (if dir = PACKET_OUTBOUND then ip else read32 p 26)"
  proof -
    have "read32 q 26 = read32 p2 26" by (intro read32_cong) (simp_all add: addr)
    also have "\<dots> = (if dir = PACKET_OUTBOUND then ip else read32 p 26)"
    proof (cases "dir = PACKET_OUTBOUND")
      case False
      have "read32 p2 26 = read32 p 26"
        using False l4 n by (intro read32_cong) (auto intro!: p2 simp: a_def o1_def)
      with False show ?thesis by simp
    qed (use a32 in \<open>simp add: a_def\<close>)
    finally show ?thesis .
  qed
  have dst: "read32 q 30 = (if dir = PACKET_OUTBOUND then read32 p 30 else ip)"
  proof -
    have "read32 q 30 = read32 p2 30" by (intro read32_cong) (simp_all add: addr)
    also have "\<dots> = (if dir = PACKET_OUTBOUND then read32 p 30 else ip)"
    proof (cases "dir = PACKET_OUTBOUND")
      case True
      have "read32 p2 30 = read32 p 30"
        using True l4 n by (intro read32_cong) (auto intro!: p2 simp: a_def o1_def)
      with True show ?thesis by simp
    qed (use a32 in \<open>simp add: a_def\<close>)
    finally show ?thesis .
  qed
  have o1l: "Suc o1 < length p2" using l2 l4 len by (auto simp: o1_def port_offset_def)
  have port: "read16 q o1 = port"
  proof -
    have "q ! o1 = p2 ! o1" "q ! (o1 + 1) = p2 ! (o1 + 1)"
      using l4 n pr by (auto intro!: U(3) simp: o1_def port_offset_def csum_offset_def)
    then have "read16 q o1 = read16 p2 o1" by (simp add: read16_def)
    also have "\<dots> = port" using o1l by (simp add: p2_def)
    finally show ?thesis .
  qed
  have l4keep: "q ! j = p ! j" if "?l4 \<le> j" "j \<notin> {?at, ?at + 1, o1, o1 + 1}" for j
    using that keep [of j] l4 n by (auto simp: a_def)
  have verdict: "transport_verdict q ?l4 ?len ?pr dir = ROUTER_NAT_TRANSLATED"
  proof -
    consider "?pr = 1" | "?pr = 6" | "?pr = 17" using pr by auto
    then show ?thesis
    proof cases
      case 1
      have "q ! ?l4 = p ! ?l4" "q ! (?l4 + 1) = p ! (?l4 + 1)"
        using 1 by (auto intro!: l4keep simp: o1_def port_offset_def csum_offset_def)
      then show ?thesis using 1 P(7) U(4) [OF 1]
        by (auto simp: transport_verdict_def split: if_splits)
    next
      case 2
      have "q ! (?l4 + 12) = p ! (?l4 + 12)"
        using 2 by (cases dir) (auto intro!: l4keep simp: o1_def port_offset_def csum_offset_def)
      then show ?thesis using 2 P(7) U(5) [OF 2]
        by (auto simp: transport_verdict_def Let_def split: if_splits)
    next
      case 3
      have c: "?at = ?l4 + 6" "o1 = ?l4 \<or> o1 = ?l4 + 2"
        using 3 by (auto simp: csum_offset_def o1_def port_offset_def)
      have "q ! (?l4 + 4) = p ! (?l4 + 4)" by (rule l4keep) (use c in auto)
      moreover have "q ! (?l4 + 4 + 1) = p ! (?l4 + 4 + 1)" by (rule l4keep) (use c in auto)
      ultimately have "read16 q (?l4 + 4) = read16 p (?l4 + 4)" by (simp add: read16_def)
      then show ?thesis using 3 P(7) U(6) [OF 3]
        by (auto simp: transport_verdict_def split: if_splits)
    qed
  qed
  have other: "read16 q (?l4 + i) = read16 p (?l4 + i)"
    if "?pr \<noteq> 1" "i \<in> {0, 2}" "i \<noteq> port_offset ?pr dir" for i
  proof -
    have "q ! (?l4 + i) = p ! (?l4 + i)" "q ! (?l4 + i + 1) = p ! (?l4 + i + 1)"
      using that pr by (auto intro!: l4keep simp: o1_def port_offset_def csum_offset_def split: if_splits)
    then show ?thesis by (simp add: read16_def)
  qed
  have v: "v = view_of p dir" by (rule packet_parse_is_view [OF ps])
  have proto: "?pr = p ! 23" and vl4: "?l4 = 14 + ip_header_length p" by (rule P(4)) (rule P(15))
  have view: "rewritten_view v dir ip port = view_of q dir"
  proof (cases "?pr = 1")
    case True
    have "read16 q (14 + ip_header_length p + 4) = port"
      using port True by (simp add: o1_def port_offset_def vl4)
    with True show ?thesis
      unfolding v rewritten_view_def view_of_def
      by (cases dir) (simp_all add: Let_def h ok(6) r16 src dst proto)
  next
    case False
    have "read16 q (14 + ip_header_length p + (if dir = PACKET_OUTBOUND then 0 else 2)) = port"
      "read16 q (14 + ip_header_length p + (if dir = PACKET_OUTBOUND then 2 else 0)) =
       read16 p (14 + ip_header_length p + (if dir = PACKET_OUTBOUND then 2 else 0))"
      using port False other [of 0] other [of 2] by (auto simp: o1_def port_offset_def vl4)
    with False show ?thesis
      unfolding v rewritten_view_def view_of_def
      by (cases dir) (simp_all add: Let_def h ok(6) r16 src dst proto)
  qed
  have rv: "v_protocol (rewritten_view v dir ip port) = ?pr" "v_l4 (rewritten_view v dir ip port) = ?l4"
    "v_l4_length (rewritten_view v dir ip port) = ?len" by (simp_all add: rewritten_view_def)
  have "packet_parse q cap dir = Inr (rewritten_view v dir ip port)"
    using P(1,10) ok pr len verdict unfolding rv(1,2,3) [symmetric]
    by (intro packet_parse_intro view) simp_all
  then show ?thesis using ok(7) by simp
qed

end
