(* ===== verification/Chains.thy ===== *)
theory Chains
  imports Prelude
begin

text \<open>
  Hash buckets with intrusive links, as the NAT session table keeps them: a bucket head and a
  link per entry hold entry index plus one, and zero ends a chain.  The walks of the code have
  no counter, so they are \<open>partial_function (option)\<close>: \<open>None\<close> is a walk that never ends.  Under
  \<open>index_wf\<close> (every bucket is a duplicate-free chain of exactly its live entries) every walk
  ends, and lookup, insertion and removal act as on the plain set of live entries.
\<close>

section \<open>Walks\<close>

partial_function (option) chain_find :: "(nat \<Rightarrow> nat) \<Rightarrow> (nat \<Rightarrow> bool) \<Rightarrow> nat \<Rightarrow> nat option option" where
  "chain_find nxt P s =
     (if s = 0 then Some None
      else if P (s - 1) then Some (Some (s - 1))
      else chain_find nxt P (nxt (s - 1)))"

text \<open>The predecessor of \<open>slot\<close> in the chain that goes on from entry \<open>p\<close>.\<close>

partial_function (option) chain_pred :: "(nat \<Rightarrow> nat) \<Rightarrow> nat \<Rightarrow> nat \<Rightarrow> nat option option" where
  "chain_pred nxt slot p =
     (if nxt p = 0 then Some None
      else if nxt p = slot then Some (Some p)
      else chain_pred nxt slot (nxt p - 1))"

text \<open>The pointer-to-pointer walk of \<open>index_remove\<close> in bucket \<open>b\<close>: new heads and links.\<close>

definition unlink ::
  "(nat \<Rightarrow> nat) \<Rightarrow> (nat \<Rightarrow> nat) \<Rightarrow> nat \<Rightarrow> nat \<Rightarrow> ((nat \<Rightarrow> nat) \<times> (nat \<Rightarrow> nat)) option" where
  "unlink heads nxt b i =
     (if heads b = 0 then Some (heads, nxt)
      else if heads b = Suc i then Some (heads(b := nxt i), nxt)
      else (case chain_pred nxt (Suc i) (heads b - 1) of
              None \<Rightarrow> None
            | Some None \<Rightarrow> Some (heads, nxt)
            | Some (Some p) \<Rightarrow> Some (heads, nxt(p := nxt i))))"

section \<open>Chains as lists\<close>

fun chain :: "(nat \<Rightarrow> nat) \<Rightarrow> nat \<Rightarrow> nat list \<Rightarrow> bool" where
  "chain nxt s [] \<longleftrightarrow> s = 0"
| "chain nxt s (i # is) \<longleftrightarrow> s = Suc i \<and> chain nxt (nxt i) is"

lemma chain_find_list: "chain nxt s xs \<Longrightarrow> chain_find nxt P s = Some (find P xs)"
proof (induction xs arbitrary: s)
  case Nil
  then show ?case by (simp add: chain_find.simps)
next
  case (Cons i xs)
  then show ?case by (simp add: chain_find.simps [of nxt P "Suc i"])
qed

lemma chain_cong: "chain nxt s xs \<Longrightarrow> (\<And>i. i \<in> set xs \<Longrightarrow> nxt' i = nxt i) \<Longrightarrow> chain nxt' s xs"
  by (induction xs arbitrary: s) auto

lemma chain_pred_list:
  "chain nxt (nxt p) xs \<Longrightarrow> distinct xs \<Longrightarrow> i \<in> set xs \<Longrightarrow>
   \<exists>q ys zs. chain_pred nxt (Suc i) p = Some (Some q) \<and> p # xs = ys @ q # i # zs"
proof (induction xs arbitrary: p)
  case (Cons x xs)
  show ?case
  proof (cases "x = i")
    case True
    with Cons.prems show ?thesis
      by (intro exI [of _ p] exI [of _ "[]"] exI [of _ xs]) (simp add: chain_pred.simps [of nxt _ p])
  next
    case False
    with Cons.prems have "chain nxt (nxt x) xs" "distinct xs" "i \<in> set xs" by auto
    from Cons.IH [OF this] obtain q ys zs where
      q: "chain_pred nxt (Suc i) x = Some (Some q)" "x # xs = ys @ q # i # zs" by blast
    have "chain_pred nxt (Suc i) p = Some (Some q)"
      using Cons.prems(1) False q(1) by (simp add: chain_pred.simps [of nxt _ p])
    with q(2) show ?thesis by (intro exI [of _ q] exI [of _ "p # ys"] exI [of _ zs]) simp
  qed
qed simp

text \<open>Bypassing an inner element.\<close>

lemma chain_bypass:
  "chain nxt s (ys @ q # i # zs) \<Longrightarrow> distinct (ys @ q # i # zs) \<Longrightarrow>
   chain (nxt(q := nxt i)) s (ys @ q # zs)"
proof (induction ys arbitrary: s)
  case Nil
  then have "chain nxt (nxt i) zs" "q \<notin> set zs" by auto
  then have "chain (nxt(q := nxt i)) (nxt i) zs" by (auto intro: chain_cong)
  with Nil show ?case by (simp del: fun_upd_apply add: fun_upd_same)
qed auto

section \<open>A bucket index\<close>

definition index_wf ::
  "nat \<Rightarrow> (nat \<Rightarrow> bool) \<Rightarrow> (nat \<Rightarrow> nat) \<Rightarrow> (nat \<Rightarrow> nat) \<Rightarrow> (nat \<Rightarrow> nat) \<Rightarrow> bool" where
  "index_wf n used bucket heads nxt \<longleftrightarrow>
     (\<forall>b. \<exists>xs. chain nxt (heads b) xs \<and> distinct xs \<and> set xs = {i. i < n \<and> used i \<and> bucket i = b})"

lemma index_wf_empty: "(\<And>i. \<not> used i) \<Longrightarrow> (\<And>b. heads b = 0) \<Longrightarrow> index_wf n used bucket heads nxt"
  unfolding index_wf_def by (intro allI exI [of _ "[]"]) simp

lemma index_wf_cong:
  assumes "index_wf n used bucket heads nxt"
    and "\<And>i. used' i = used i" "\<And>i. used i \<Longrightarrow> bucket' i = bucket i \<and> nxt' i = nxt i"
  shows "index_wf n used' bucket' heads nxt'"
  unfolding index_wf_def
proof
  fix b
  obtain xs where xs: "chain nxt (heads b) xs" "distinct xs"
    "set xs = {i. i < n \<and> used i \<and> bucket i = b}"
    using assms(1) unfolding index_wf_def by blast
  have "chain nxt' (heads b) xs" using xs(1,3) assms(3) by (intro chain_cong [OF xs(1)]) auto
  moreover have "set xs = {i. i < n \<and> used' i \<and> bucket' i = b}"
    unfolding xs(3) using assms(2,3) by auto
  ultimately show "\<exists>xs. chain nxt' (heads b) xs \<and> distinct xs \<and>
      set xs = {i. i < n \<and> used' i \<and> bucket' i = b}" using xs(2) by blast
qed

lemma index_find:
  assumes "index_wf n used bucket heads nxt"
    and "\<And>i. i < n \<Longrightarrow> used i \<Longrightarrow> P i \<Longrightarrow> bucket i = b"
  obtains r where "chain_find nxt (\<lambda>i. used i \<and> P i) (heads b) = Some r"
    "r = None \<Longrightarrow> \<forall>i<n. used i \<longrightarrow> \<not> P i"
    "\<And>i. r = Some i \<Longrightarrow> i < n \<and> used i \<and> P i"
proof -
  obtain xs where xs: "chain nxt (heads b) xs" "set xs = {i. i < n \<and> used i \<and> bucket i = b}"
    using assms(1) unfolding index_wf_def by blast
  let ?r = "find (\<lambda>i. used i \<and> P i) xs"
  have "chain_find nxt (\<lambda>i. used i \<and> P i) (heads b) = Some ?r" by (rule chain_find_list [OF xs(1)])
  moreover have "?r = None \<Longrightarrow> \<forall>i<n. used i \<longrightarrow> \<not> P i"
    using xs(2) assms(2) by (auto simp: find_None_iff)
  moreover have "?r = Some i \<Longrightarrow> i < n \<and> used i \<and> P i" for i
    using xs(2) by (auto dest: find_SomeD)
  ultimately show thesis by (rule that)
qed

lemma index_insert_wf:
  assumes wf: "index_wf n used bucket heads nxt" and i: "i < n" "\<not> used i"
    and b: "bucket' i = b" "\<And>j. used j \<Longrightarrow> bucket' j = bucket j"
  shows "index_wf n (used(i := True)) bucket' (heads(b := Suc i)) (nxt(i := heads b))"
  unfolding index_wf_def
proof
  fix d
  obtain xs where xs: "chain nxt (heads d) xs" "distinct xs"
    "set xs = {j. j < n \<and> used j \<and> bucket j = d}"
    using wf unfolding index_wf_def by blast
  have ni: "i \<notin> set xs" using xs(3) i(2) by auto
  then have c: "chain (nxt(i := heads b)) (heads d) xs" by (intro chain_cong [OF xs(1)]) auto
  show "\<exists>xs. chain (nxt(i := heads b)) ((heads(b := Suc i)) d) xs \<and> distinct xs \<and>
      set xs = {j. j < n \<and> (used(i := True)) j \<and> bucket' j = d}"
  proof (cases "d = b")
    case True
    have "set (i # xs) = {j. j < n \<and> (used(i := True)) j \<and> bucket' j = d}"
      using True xs(3) i b by auto
    with True c ni xs(2) show ?thesis by (intro exI [of _ "i # xs"]) simp
  next
    case False
    have "set xs = {j. j < n \<and> (used(i := True)) j \<and> bucket' j = d}"
      using False xs(3) i b by (auto split: if_splits)
    with False c xs(2) show ?thesis by (intro exI [of _ xs]) simp
  qed
qed

lemma unlink_wf:
  assumes wf: "index_wf n used bucket heads nxt" and i: "i < n" "used i"
  obtains heads' nxt' where "unlink heads nxt (bucket i) i = Some (heads', nxt')"
    "index_wf n (used(i := False)) bucket heads' nxt'" "nxt' i = nxt i"
proof -
  let ?b = "bucket i"
  obtain xs where xs: "chain nxt (heads ?b) xs" "distinct xs"
    "set xs = {j. j < n \<and> used j \<and> bucket j = ?b}"
    using wf unfolding index_wf_def by blast
  have ix: "i \<in> set xs" using xs(3) i by simp
  obtain h r where hr: "xs = h # r" using ix by (cases xs) auto
  have others: "\<exists>ys. chain nxt' (heads d) ys \<and> distinct ys \<and>
      set ys = {j. j < n \<and> (used(i := False)) j \<and> bucket j = d}"
    if "d \<noteq> ?b" "\<And>j. bucket j \<noteq> ?b \<Longrightarrow> nxt' j = nxt j" for d nxt'
  proof -
    obtain ys where ys: "chain nxt (heads d) ys" "distinct ys"
      "set ys = {j. j < n \<and> used j \<and> bucket j = d}"
      using wf unfolding index_wf_def by blast
    have "chain nxt' (heads d) ys" using ys that by (intro chain_cong [OF ys(1)]) auto
    moreover have "set ys = {j. j < n \<and> (used(i := False)) j \<and> bucket j = d}"
      using ys(3) that(1) by auto
    ultimately show ?thesis using ys(2) by blast
  qed
  show thesis
  proof (cases "h = i")
    case True
    let ?heads = "heads(?b := nxt i)"
    have u: "unlink heads nxt ?b i = Some (?heads, nxt)"
      using xs(1) hr True by (simp add: unlink_def)
    have "index_wf n (used(i := False)) bucket ?heads nxt"
      unfolding index_wf_def
    proof
      fix d
      show "\<exists>xs. chain nxt (?heads d) xs \<and> distinct xs \<and>
          set xs = {j. j < n \<and> (used(i := False)) j \<and> bucket j = d}"
      proof (cases "d = ?b")
        case d: True
        have "set r = {j. j < n \<and> (used(i := False)) j \<and> bucket j = d}"
          using xs(2,3) hr True d by auto
        with xs(1,2) hr True d show ?thesis by (intro exI [of _ r]) simp
      next
        case False
        then show ?thesis using others [of d nxt] by simp
      qed
    qed
    from that [OF u this refl] show ?thesis .
  next
    case False
    have c: "chain nxt (nxt h) r" "distinct r" "i \<in> set r" "heads ?b = Suc h"
      using xs(1,2) hr ix False by auto
    from chain_pred_list [OF c(1-3)] obtain q ys zs where
      q: "chain_pred nxt (Suc i) h = Some (Some q)" "xs = ys @ q # i # zs" using hr by auto
    let ?nxt = "nxt(q := nxt i)"
    have u: "unlink heads nxt ?b i = Some (heads, ?nxt)"
      using c(4) False q(1) by (simp add: unlink_def)
    have qb: "bucket q = ?b" "q \<noteq> i" using q(2) xs(2,3) by auto
    have "index_wf n (used(i := False)) bucket heads ?nxt"
      unfolding index_wf_def
    proof
      fix d
      show "\<exists>xs. chain ?nxt (heads d) xs \<and> distinct xs \<and>
          set xs = {j. j < n \<and> (used(i := False)) j \<and> bucket j = d}"
      proof (cases "d = ?b")
        case d: True
        have "chain ?nxt (heads d) (ys @ q # zs)"
          using chain_bypass xs(1,2) d unfolding q(2) by blast
        moreover have "set (ys @ q # zs) = {j. j < n \<and> (used(i := False)) j \<and> bucket j = d}"
        proof -
          have "set (ys @ q # zs) = set xs - {i}" using xs(2) unfolding q(2) by auto
          then show ?thesis unfolding xs(3) d by auto
        qed
        ultimately show ?thesis using xs(2) q(2) by (intro exI [of _ "ys @ q # zs"]) simp
      next
        case d: False
        show ?thesis by (rule others [OF d]) (use qb(1) in auto)
      qed
    qed
    moreover have "?nxt i = nxt i" using qb(2) by simp
    ultimately show ?thesis using that [OF u] by blast
  qed
qed

end
