(* ===== verification/Nat_Table.thy ===== *)
theory Nat_Table
  imports Nat_Packet Chains Slots "HOL-Library.Monad_Syntax"
begin

text \<open>
  The session table of \<^verbatim>\<open>router/router_nat.c\<close>: sessions in fixed slots, three hash indices with
  intrusive links (inside tuple, public tuple, public port), their maintenance and the port
  allocator.  The index walks have no bound of their own in the code, so the operations return
  an \<open>option\<close> whose \<open>None\<close> is a walk that never ends; the invariant \<open>nat_wf\<close> excludes it.
\<close>

section \<open>State\<close>

definition ROUTER_NAT_MAX_SESSIONS :: nat where "ROUTER_NAT_MAX_SESSIONS = 4096"
definition ROUTER_NAT_BUCKETS :: u32 where "ROUTER_NAT_BUCKETS = 8192"
definition ROUTER_NAT_TCP_IDLE_NS :: u64 where "ROUTER_NAT_TCP_IDLE_NS = 300000000000"
definition ROUTER_NAT_UDP_IDLE_NS :: u64 where "ROUTER_NAT_UDP_IDLE_NS = 60000000000"
definition ROUTER_NAT_ICMP_IDLE_NS :: u64 where "ROUTER_NAT_ICMP_IDLE_NS = 30000000000"

record nat_inside =
  in_vr_id :: u16
  in_vswitch_id :: u16
  in_interface_id :: u16
  in_port_id :: u16
  in_mac :: mac

record nat_session =
  ns_index_next :: "nat \<Rightarrow> nat"
  ns_used :: bool
  ns_port_forward :: bool
  ns_vr_id :: u16
  ns_public_interface_id :: u16
  ns_port_forward_rule_id :: u16
  ns_protocol :: u8
  ns_inside_ip :: u32
  ns_inside_port :: u16
  ns_remote_ip :: u32
  ns_remote_port :: u16
  ns_public_ip :: u32
  ns_public_port :: u16
  ns_inside :: nat_inside
  ns_created_ns :: u64
  ns_last_seen_ns :: u64
  ns_original_packets :: u64
  ns_reply_packets :: u64
  ns_hardware_active :: bool

record nat_stats =
  st_outbound_packets :: u64
  st_inbound_packets :: u64
  st_icmp_echo_outbound_packets :: u64
  st_icmp_echo_inbound_packets :: u64
  st_sessions_created :: u64
  st_sessions_aged :: u64
  st_port_allocation_failures :: u64
  st_reverse_misses :: u64
  st_unsupported_packets :: u64
  st_invalid_packets :: u64
  st_port_forward_inbound_packets :: u64
  st_port_forward_outbound_packets :: u64
  st_port_forward_sessions_created :: u64
  st_port_forward_full :: u64

record nat_table =
  nat_entries :: "nat \<Rightarrow> nat_session"
  nat_buckets :: "nat \<Rightarrow> nat \<Rightarrow> nat"
  nat_count :: nat
  nat_next_port :: u16
  nat_port_forwards :: "router_port_forward list"
  nat_st :: nat_stats

definition inside_zero :: nat_inside where
  "inside_zero = \<lparr>in_vr_id = 0, in_vswitch_id = 0, in_interface_id = 0, in_port_id = 0,
     in_mac = [0, 0, 0, 0, 0, 0]\<rparr>"

definition session_zero :: nat_session where
  "session_zero = \<lparr>ns_index_next = \<lambda>_. 0, ns_used = False, ns_port_forward = False, ns_vr_id = 0,
     ns_public_interface_id = 0, ns_port_forward_rule_id = 0, ns_protocol = 0, ns_inside_ip = 0,
     ns_inside_port = 0, ns_remote_ip = 0, ns_remote_port = 0, ns_public_ip = 0,
     ns_public_port = 0, ns_inside = inside_zero, ns_created_ns = 0, ns_last_seen_ns = 0,
     ns_original_packets = 0, ns_reply_packets = 0, ns_hardware_active = False\<rparr>"

definition stats_zero :: nat_stats where
  "stats_zero = \<lparr>st_outbound_packets = 0, st_inbound_packets = 0, st_icmp_echo_outbound_packets = 0,
     st_icmp_echo_inbound_packets = 0, st_sessions_created = 0, st_sessions_aged = 0,
     st_port_allocation_failures = 0, st_reverse_misses = 0, st_unsupported_packets = 0,
     st_invalid_packets = 0, st_port_forward_inbound_packets = 0,
     st_port_forward_outbound_packets = 0, st_port_forward_sessions_created = 0,
     st_port_forward_full = 0\<rparr>"

definition router_nat_init :: nat_table where
  "router_nat_init = \<lparr>nat_entries = \<lambda>_. session_zero, nat_buckets = \<lambda>_ _. 0, nat_count = 0,
     nat_next_port = 0, nat_port_forwards = [], nat_st = stats_zero\<rparr>"

definition router_nat_set_port_forwards :: "nat_table \<Rightarrow> router_config \<Rightarrow> nat_table" where
  "router_nat_set_port_forwards t c = t\<lparr>nat_port_forwards := cfg_port_forwards c\<rparr>"

section \<open>Hashing\<close>

definition hash_step :: "u32 \<Rightarrow> u32 \<Rightarrow> u32" where
  "hash_step h field = (let g = (h XOR field) * 16777619 in g XOR drop_bit 16 g)"

definition tuple_bucket :: "u16 \<Rightarrow> u8 \<Rightarrow> u32 \<Rightarrow> u16 \<Rightarrow> u32 \<Rightarrow> u16 \<Rightarrow> nat" where
  "tuple_bucket vr protocol ip port remote remote_port =
     unat (foldl hash_step 2166136261
       [ucast vr, ucast protocol, ip, ucast port, remote, ucast remote_port] AND
       (ROUTER_NAT_BUCKETS - 1))"

definition session_bucket :: "nat_session \<Rightarrow> nat \<Rightarrow> nat" where
  "session_bucket s k = tuple_bucket (ns_vr_id s) (ns_protocol s)
     (if k = 0 then ns_inside_ip s else ns_public_ip s)
     (if k = 0 then ns_inside_port s else ns_public_port s)
     (if k = 2 then 0 else ns_remote_ip s) (if k = 2 then 0 else ns_remote_port s)"

section \<open>Index maintenance\<close>

definition set_next :: "nat_table \<Rightarrow> nat \<Rightarrow> nat \<Rightarrow> nat \<Rightarrow> nat_table" where
  "set_next t i k v = t\<lparr>nat_entries := (nat_entries t)
     (i := (nat_entries t i)\<lparr>ns_index_next := (ns_index_next (nat_entries t i))(k := v)\<rparr>)\<rparr>"

definition set_head :: "nat_table \<Rightarrow> nat \<Rightarrow> nat \<Rightarrow> nat \<Rightarrow> nat_table" where
  "set_head t k b v = t\<lparr>nat_buckets := (nat_buckets t)(k := (nat_buckets t k)(b := v))\<rparr>"

definition links :: "nat_table \<Rightarrow> nat \<Rightarrow> nat \<Rightarrow> nat" where
  "links t k i = ns_index_next (nat_entries t i) k"

definition index_insert_one :: "nat_table \<Rightarrow> nat \<Rightarrow> nat \<Rightarrow> nat_table" where
  "index_insert_one t i k =
     (let b = session_bucket (nat_entries t i) k in
      set_head (set_next t i k (nat_buckets t k b)) k b (Suc i))"

definition index_insert :: "nat_table \<Rightarrow> nat \<Rightarrow> nat_table" where
  "index_insert t i = foldl (\<lambda>t k. index_insert_one t i k) t [0, 1, 2]"

text \<open>One index of \<open>index_remove\<close>: \<open>link\<close> starts at the bucket head and moves along the links.\<close>

definition index_remove_one :: "nat_table \<Rightarrow> nat \<Rightarrow> nat \<Rightarrow> nat_table option" where
  "index_remove_one t i k =
     (let b = session_bucket (nat_entries t i) k; head = nat_buckets t k b in
      if head = 0 then Some t
      else if head = Suc i then Some (set_head t k b (links t k i))
      else do {
        r \<leftarrow> chain_pred (links t k) (Suc i) (head - 1);
        (case r of None \<Rightarrow> Some t | Some p \<Rightarrow> Some (set_next t p k (links t k i)))
      })"

definition index_remove :: "nat_table \<Rightarrow> nat \<Rightarrow> nat_table option" where
  "index_remove t i = do {
     t0 \<leftarrow> index_remove_one t i 0;
     t1 \<leftarrow> index_remove_one t0 i 1;
     index_remove_one t1 i 2
   }"

section \<open>Lookups\<close>

definition outbound_match :: "u16 \<Rightarrow> packet_view \<Rightarrow> nat_session \<Rightarrow> bool" where
  "outbound_match vr v s \<longleftrightarrow> ns_vr_id s = vr \<and> ns_protocol s = v_protocol v \<and>
     ns_inside_ip s = v_source_ip v \<and> ns_inside_port s = v_source_port v \<and>
     ns_remote_ip s = v_destination_ip v \<and> ns_remote_port s = v_destination_port v"

definition inbound_match :: "u16 \<Rightarrow> packet_view \<Rightarrow> nat_session \<Rightarrow> bool" where
  "inbound_match vr v s \<longleftrightarrow> ns_vr_id s = vr \<and> ns_protocol s = v_protocol v \<and>
     ns_public_ip s = v_destination_ip v \<and> ns_public_port s = v_destination_port v \<and>
     ns_remote_ip s = v_source_ip v \<and> ns_remote_port s = v_source_port v"

definition port_match :: "u16 \<Rightarrow> u8 \<Rightarrow> u32 \<Rightarrow> u16 \<Rightarrow> nat_session \<Rightarrow> bool" where
  "port_match vr protocol ip port s \<longleftrightarrow> ns_vr_id s = vr \<and> ns_protocol s = protocol \<and>
     ns_public_ip s = ip \<and> ns_public_port s = port"

definition walk :: "nat_table \<Rightarrow> nat \<Rightarrow> nat \<Rightarrow> (nat_session \<Rightarrow> bool) \<Rightarrow> nat option option" where
  "walk t k b P =
     chain_find (links t k) (\<lambda>i. ns_used (nat_entries t i) \<and> P (nat_entries t i)) (nat_buckets t k b)"

definition find_outbound :: "nat_table \<Rightarrow> u16 \<Rightarrow> packet_view \<Rightarrow> nat option option" where
  "find_outbound t vr v =
     walk t 0 (tuple_bucket vr (v_protocol v) (v_source_ip v) (v_source_port v)
       (v_destination_ip v) (v_destination_port v)) (outbound_match vr v)"

definition find_inbound :: "nat_table \<Rightarrow> u16 \<Rightarrow> packet_view \<Rightarrow> nat option option" where
  "find_inbound t vr v =
     walk t 1 (tuple_bucket vr (v_protocol v) (v_destination_ip v) (v_destination_port v)
       (v_source_ip v) (v_source_port v)) (inbound_match vr v)"

definition port_reserved :: "nat_table \<Rightarrow> u16 \<Rightarrow> u8 \<Rightarrow> u32 \<Rightarrow> u16 \<Rightarrow> bool" where
  "port_reserved t vr protocol ip port =
     list_ex (\<lambda>r. pf_vr_id r = vr \<and> pf_protocol r = protocol \<and> pf_public_ip r = ip \<and>
        pf_public_port r \<le> port \<and> port \<le> pf_public_port_last r) (nat_port_forwards t)"

definition port_in_use :: "nat_table \<Rightarrow> u16 \<Rightarrow> u8 \<Rightarrow> u32 \<Rightarrow> u16 \<Rightarrow> bool option" where
  "port_in_use t vr protocol ip port =
     (if port_reserved t vr protocol ip port then Some True
      else map_option (\<lambda>r. r \<noteq> None)
             (walk t 2 (tuple_bucket vr protocol ip port 0 0) (port_match vr protocol ip port)))"

section \<open>Sessions\<close>

definition free_slot :: "nat_table \<Rightarrow> nat option" where
  "free_slot t = first_slot (\<lambda>s. \<not> ns_used s) ROUTER_NAT_MAX_SESSIONS (nat_entries t)"

text \<open>Store a new session in a free slot, link it into the indices and count it.\<close>

definition install :: "nat_table \<Rightarrow> nat \<Rightarrow> nat_session \<Rightarrow> nat_table" where
  "install t i s =
     (let t1 = index_insert (t\<lparr>nat_entries := (nat_entries t)(i := s)\<rparr>) i in
      t1\<lparr>nat_count := Suc (nat_count t1),
         nat_st := (nat_st t1)\<lparr>st_sessions_created := st_sessions_created (nat_st t1) + 1\<rparr>\<rparr>)"

definition nat_candidate :: "u16 \<Rightarrow> u16 \<Rightarrow> nat \<Rightarrow> nat \<Rightarrow> u16" where
  "nat_candidate first start span offset =
     of_nat (unat first + ((unat start - unat first) + offset) mod span)"

fun search_port :: "(u16 \<Rightarrow> bool option) \<Rightarrow> (nat \<Rightarrow> u16) \<Rightarrow> nat list \<Rightarrow> u16 option option" where
  "search_port in_use cand [] = Some None"
| "search_port in_use cand (k # ks) = do {
     u \<leftarrow> in_use (cand k);
     if u then search_port in_use cand ks else Some (Some (cand k))
   }"

definition allocate_session ::
  "nat_table \<Rightarrow> router_nat_policy \<Rightarrow> u32 \<Rightarrow> packet_view \<Rightarrow> nat_inside \<Rightarrow> u64 \<Rightarrow> (nat_table \<times> nat option) option" where
  "allocate_session t policy public_ip v inside now =
     (case free_slot t of
        None \<Rightarrow> Some (t, None)
      | Some i \<Rightarrow>
          let first = np_port_first policy; lst = np_port_last policy;
              span = unat lst - unat first + 1;
              start = (if nat_next_port t < first \<or> lst < nat_next_port t then first
                       else nat_next_port t) in
          do {
            r \<leftarrow> search_port (port_in_use t (np_vr_id policy) (v_protocol v) public_ip)
                   (nat_candidate first start span) [0..<span];
            (case r of
               None \<Rightarrow> Some (t, None)
             | Some port \<Rightarrow>
                 Some (install (t\<lparr>nat_next_port := (if port = lst then first else port + 1)\<rparr>) i
                   (session_zero\<lparr>ns_used := True, ns_vr_id := np_vr_id policy,
                      ns_protocol := v_protocol v, ns_public_interface_id := np_interface_id policy,
                      ns_inside_ip := v_source_ip v, ns_inside_port := v_source_port v,
                      ns_remote_ip := v_destination_ip v, ns_remote_port := v_destination_port v,
                      ns_public_ip := public_ip, ns_public_port := port, ns_inside := inside,
                      ns_created_ns := now, ns_last_seen_ns := now\<rparr>), Some i))
          })"

text \<open>Unlink, zero and uncount one session.\<close>

definition release :: "nat_table \<Rightarrow> nat \<Rightarrow> nat_table option" where
  "release t i = do {
     t1 \<leftarrow> index_remove t i;
     Some (t1\<lparr>nat_entries := (nat_entries t1)(i := session_zero), nat_count := nat_count t1 - 1\<rparr>)
   }"

section \<open>The invariant\<close>

interpretation nss: slot_table ns_used session_zero
  by unfold_locales (simp add: session_zero_def)

type_synonym tuple = "u16 \<times> u8 \<times> u32 \<times> u16 \<times> u32 \<times> u16"

definition outbound_key :: "nat_session \<Rightarrow> tuple" where
  "outbound_key s = (ns_vr_id s, ns_protocol s, ns_inside_ip s, ns_inside_port s,
     ns_remote_ip s, ns_remote_port s)"

definition inbound_key :: "nat_session \<Rightarrow> tuple" where
  "inbound_key s = (ns_vr_id s, ns_protocol s, ns_public_ip s, ns_public_port s,
     ns_remote_ip s, ns_remote_port s)"

interpretation out_keys: keyed_table ns_used session_zero outbound_key ..
interpretation in_keys: keyed_table ns_used session_zero inbound_key ..

definition nat_index_wf :: "nat_table \<Rightarrow> nat \<Rightarrow> bool" where
  "nat_index_wf t k \<longleftrightarrow>
     index_wf ROUTER_NAT_MAX_SESSIONS (\<lambda>i. ns_used (nat_entries t i))
       (\<lambda>i. session_bucket (nat_entries t i) k) (nat_buckets t k) (links t k)"

definition nat_wf :: "nat_table \<Rightarrow> bool" where
  "nat_wf t \<longleftrightarrow>
     (\<forall>k\<in>{0, 1, 2}. nat_index_wf t k) \<and>
     slots_counted ns_used ROUTER_NAT_MAX_SESSIONS (nat_entries t) (nat_count t) \<and>
     keys_distinct ns_used outbound_key ROUTER_NAT_MAX_SESSIONS (nat_entries t) \<and>
     keys_distinct ns_used inbound_key ROUTER_NAT_MAX_SESSIONS (nat_entries t)"

text \<open>What a lookup finds, index aside.\<close>

definition live_match :: "nat_table \<Rightarrow> (nat_session \<Rightarrow> bool) \<Rightarrow> nat option \<Rightarrow> bool" where
  "live_match t P r \<longleftrightarrow>
     (case r of
        None \<Rightarrow> \<forall>i<ROUTER_NAT_MAX_SESSIONS. ns_used (nat_entries t i) \<longrightarrow> \<not> P (nat_entries t i)
      | Some i \<Rightarrow> i < ROUTER_NAT_MAX_SESSIONS \<and> ns_used (nat_entries t i) \<and> P (nat_entries t i))"

lemma walk_live:
  assumes "nat_wf t" "k \<in> {0, 1, 2}" "\<And>s. P s \<Longrightarrow> session_bucket s k = b"
  shows "\<exists>r. walk t k b P = Some r \<and> live_match t P r"
proof -
  have "nat_index_wf t k" using assms(1,2) by (auto simp: nat_wf_def)
  then have "index_wf ROUTER_NAT_MAX_SESSIONS (\<lambda>i. ns_used (nat_entries t i))
      (\<lambda>i. session_bucket (nat_entries t i) k) (nat_buckets t k) (links t k)"
    by (simp add: nat_index_wf_def)
  from index_find [OF this, of "\<lambda>i. P (nat_entries t i)" b] assms(3) obtain r where
    "chain_find (links t k) (\<lambda>i. ns_used (nat_entries t i) \<and> P (nat_entries t i)) (nat_buckets t k b) = Some r"
    "r = None \<Longrightarrow> \<forall>i<ROUTER_NAT_MAX_SESSIONS. ns_used (nat_entries t i) \<longrightarrow> \<not> P (nat_entries t i)"
    "\<And>i. r = Some i \<Longrightarrow> i < ROUTER_NAT_MAX_SESSIONS \<and> ns_used (nat_entries t i) \<and> P (nat_entries t i)"
    by blast
  then show ?thesis
    by (intro exI [of _ r]) (auto simp: walk_def live_match_def split: option.splits)
qed

lemma find_outbound_live:
  "nat_wf t \<Longrightarrow> \<exists>r. find_outbound t vr v = Some r \<and> live_match t (outbound_match vr v) r"
  unfolding find_outbound_def
  by (rule walk_live) (simp_all add: outbound_match_def session_bucket_def)

lemma find_inbound_live:
  "nat_wf t \<Longrightarrow> \<exists>r. find_inbound t vr v = Some r \<and> live_match t (inbound_match vr v) r"
  unfolding find_inbound_def
  by (rule walk_live) (simp_all add: inbound_match_def session_bucket_def)

lemma port_in_use_live:
  assumes "nat_wf t"
  shows "port_in_use t vr protocol ip port =
    Some (port_reserved t vr protocol ip port \<or>
      (\<exists>i<ROUTER_NAT_MAX_SESSIONS. ns_used (nat_entries t i) \<and>
         port_match vr protocol ip port (nat_entries t i)))"
proof -
  obtain r where r: "walk t 2 (tuple_bucket vr protocol ip port 0 0) (port_match vr protocol ip port) = Some r"
    "live_match t (port_match vr protocol ip port) r"
    using walk_live [OF assms, of 2 "port_match vr protocol ip port"]
    by (auto simp: port_match_def session_bucket_def)
  then show ?thesis by (auto simp: port_in_use_def live_match_def split: option.splits)
qed

section \<open>Index maintenance keeps the session contents\<close>

definition session_core :: "nat_session \<Rightarrow> nat_session" where
  "session_core s = s\<lparr>ns_index_next := \<lambda>_. 0\<rparr>"

definition same_core :: "nat_table \<Rightarrow> nat_table \<Rightarrow> bool" where
  "same_core t t' \<longleftrightarrow>
     (\<forall>j. session_core (nat_entries t' j) = session_core (nat_entries t j)) \<and>
     nat_count t' = nat_count t \<and> nat_next_port t' = nat_next_port t \<and>
     nat_port_forwards t' = nat_port_forwards t \<and> nat_st t' = nat_st t"

lemma core_fields:
  assumes "session_core a = session_core b"
  shows "ns_used a = ns_used b" "session_bucket a k = session_bucket b k"
    "outbound_key a = outbound_key b" "inbound_key a = inbound_key b"
    "ns_port_forward a = ns_port_forward b" "ns_hardware_active a = ns_hardware_active b"
proof -
  have f: "f a = f b" if "\<And>s. f (session_core s) = f s" for f :: "nat_session \<Rightarrow> 'x"
    using assms that by metis
  have g: "g a = g b" if "\<And>s. g (session_core s) = g s" for g :: "nat_session \<Rightarrow> nat"
    using assms that by metis
  have h: "h a = h b" if "\<And>s. h (session_core s) = h s" for h :: "nat_session \<Rightarrow> tuple"
    using assms that by metis
  have w: "w a = w b" if "\<And>s. w (session_core s) = w s" for w :: "nat_session \<Rightarrow> bool"
    using assms that by metis
  show "ns_used a = ns_used b" "ns_port_forward a = ns_port_forward b"
    "ns_hardware_active a = ns_hardware_active b" by (rule w, simp add: session_core_def)+
  show "session_bucket a k = session_bucket b k"
    by (rule g) (simp add: session_core_def session_bucket_def)
  show "outbound_key a = outbound_key b" by (rule h) (simp add: session_core_def outbound_key_def)
  show "inbound_key a = inbound_key b" by (rule h) (simp add: session_core_def inbound_key_def)
qed

lemma same_coreD:
  assumes "same_core t t'"
  shows "ns_used (nat_entries t' j) = ns_used (nat_entries t j)"
    "session_bucket (nat_entries t' j) k = session_bucket (nat_entries t j) k"
    "outbound_key (nat_entries t' j) = outbound_key (nat_entries t j)"
    "inbound_key (nat_entries t' j) = inbound_key (nat_entries t j)"
    "nat_count t' = nat_count t"
  using assms core_fields [of "nat_entries t' j" "nat_entries t j"] by (auto simp: same_core_def)

lemma same_core_refl [simp]: "same_core t t"
  by (simp add: same_core_def)

lemma same_core_trans: "same_core t t' \<Longrightarrow> same_core t' t'' \<Longrightarrow> same_core t t''"
  by (simp add: same_core_def)

lemma set_next_core: "same_core t (set_next t i k v)"
  by (simp add: same_core_def set_next_def session_core_def)

lemma set_head_core: "same_core t (set_head t k b v)"
  by (simp add: same_core_def set_head_def)

lemma set_next_links: "links (set_next t i k v) k' = (if k' = k then (links t k)(i := v) else links t k')"
  by (auto simp: links_def set_next_def)

lemma set_next_buckets [simp]: "nat_buckets (set_next t i k v) = nat_buckets t"
  by (simp add: set_next_def)

lemma set_head_links [simp]: "links (set_head t k b v) = links t"
  by (simp add: links_def [abs_def] set_head_def)

lemma set_head_buckets: "nat_buckets (set_head t k b v) k' =
    (if k' = k then (nat_buckets t k)(b := v) else nat_buckets t k')"
  by (simp add: set_head_def)

lemma index_insert_one_props:
  "same_core t (index_insert_one t i k)"
  "links (index_insert_one t i k) k' =
     (if k' = k then (links t k)(i := nat_buckets t k (session_bucket (nat_entries t i) k)) else links t k')"
  "nat_buckets (index_insert_one t i k) k' =
     (if k' = k then (nat_buckets t k)(session_bucket (nat_entries t i) k := Suc i) else nat_buckets t k')"
  unfolding index_insert_one_def Let_def
  by (rule same_core_trans [OF set_next_core set_head_core])
    (simp_all add: set_next_links set_head_buckets)

lemma index_insert_props:
  "same_core t (index_insert t i)"
  "k \<in> {0, 1, 2} \<Longrightarrow> links (index_insert t i) k =
     (links t k)(i := nat_buckets t k (session_bucket (nat_entries t i) k))"
  "k \<in> {0, 1, 2} \<Longrightarrow> nat_buckets (index_insert t i) k =
     (nat_buckets t k)(session_bucket (nat_entries t i) k := Suc i)"
proof -
  define t0 where "t0 = index_insert_one t i 0"
  define t1 where "t1 = index_insert_one t0 i 1"
  have ins: "index_insert t i = index_insert_one t1 i 2" by (simp add: index_insert_def t0_def t1_def)
  note P0 = index_insert_one_props [of t i 0, folded t0_def]
  note P1 = index_insert_one_props [of t0 i 1, folded t1_def]
  note P2 = index_insert_one_props [of t1 i 2, folded ins]
  have c1: "same_core t t1" by (rule same_core_trans [OF P0(1) P1(1)])
  show "same_core t (index_insert t i)" by (rule same_core_trans [OF c1 P2(1)])
  have b: "session_bucket (nat_entries t0 i) k = session_bucket (nat_entries t i) k"
    "session_bucket (nat_entries t1 i) k = session_bucket (nat_entries t i) k" for k
    using same_coreD(2) [OF P0(1)] same_coreD(2) [OF c1] by auto
  show "links (index_insert t i) k =
     (links t k)(i := nat_buckets t k (session_bucket (nat_entries t i) k))" if "k \<in> {0, 1, 2}"
    using that by (auto simp: P0(2,3) P1(2,3) P2(2,3) b)
  show "nat_buckets (index_insert t i) k =
     (nat_buckets t k)(session_bucket (nat_entries t i) k := Suc i)" if "k \<in> {0, 1, 2}"
    using that by (auto simp: P0(2,3) P1(2,3) P2(2,3) b)
qed

section \<open>Installing a session\<close>

lemma install_props:
  "session_core (nat_entries (install t i s) j) =
     session_core (if j = i then s else nat_entries t j)"
  "nat_count (install t i s) = Suc (nat_count t)"
  "nat_port_forwards (install t i s) = nat_port_forwards t"
  "nat_next_port (install t i s) = nat_next_port t"
  using index_insert_props(1) [of "t\<lparr>nat_entries := (nat_entries t)(i := s)\<rparr>" i]
  by (simp_all add: install_def Let_def same_core_def)

lemma install_index_wf:
  assumes wf: "nat_index_wf t k" and k: "k \<in> {0, 1, 2}" and i: "i < ROUTER_NAT_MAX_SESSIONS"
    "\<not> ns_used (nat_entries t i)" and s: "ns_used s"
  shows "nat_index_wf (install t i s) k"
proof -
  let ?u = "t\<lparr>nat_entries := (nat_entries t)(i := s)\<rparr>"
  let ?t = "install t i s"
  note I = index_insert_props [where t = ?u and i = i]
  have l: "links ?t k = (links ?u k)(i := nat_buckets t k (session_bucket s k))"
    using I(2) [OF k] by (simp add: install_def Let_def links_def [abs_def])
  have h: "nat_buckets ?t k = (nat_buckets t k)(session_bucket s k := Suc i)"
    using I(3) [OF k] by (simp add: install_def Let_def)
  have u: "ns_used (nat_entries ?t j) = ((\<lambda>i. ns_used (nat_entries t i))(i := True)) j"
    "session_bucket (nat_entries ?t j) k = (if j = i then session_bucket s k
       else session_bucket (nat_entries t j) k)" for j
    using core_fields [OF install_props(1) [of t i s j]] s by auto
  have "index_wf ROUTER_NAT_MAX_SESSIONS ((\<lambda>i. ns_used (nat_entries t i))(i := True))
      (\<lambda>j. session_bucket (nat_entries ?t j) k) ((nat_buckets t k)(session_bucket s k := Suc i))
      ((links t k)(i := nat_buckets t k (session_bucket s k)))"
    using i u(2) by (intro index_insert_wf [OF wf [unfolded nat_index_wf_def]]) auto
  then show ?thesis
    unfolding nat_index_wf_def h
    by (rule index_wf_cong) (auto simp: u(1) l links_def)
qed

lemma install_wf:
  assumes wf: "nat_wf t" and i: "i < ROUTER_NAT_MAX_SESSIONS" "\<not> ns_used (nat_entries t i)"
    and s: "ns_used s"
    and out: "\<And>j. j < ROUTER_NAT_MAX_SESSIONS \<Longrightarrow> ns_used (nat_entries t j) \<Longrightarrow>
      outbound_key (nat_entries t j) \<noteq> outbound_key s"
    and inb: "\<And>j. j < ROUTER_NAT_MAX_SESSIONS \<Longrightarrow> ns_used (nat_entries t j) \<Longrightarrow>
      inbound_key (nat_entries t j) \<noteq> inbound_key s"
  shows "nat_wf (install t i s)"
proof -
  let ?e = "(nat_entries t)(i := s)"
  let ?t = "install t i s"
  have c: "session_core (nat_entries ?t j) = session_core (?e j)" for j
    using install_props(1) [of t i s j] by simp
  have idx: "nat_index_wf ?t k" if "k \<in> {0, 1, 2}" for k
  proof -
    have "nat_index_wf t k" using wf that by (auto simp: nat_wf_def)
    from install_index_wf [OF this that i s] show ?thesis .
  qed
  have "slots_counted ns_used ROUTER_NAT_MAX_SESSIONS ?e (Suc (nat_count t))"
    using wf i s by (intro nss.counted_alloc) (simp_all add: nat_wf_def)
  then have cnt: "slots_counted ns_used ROUTER_NAT_MAX_SESSIONS (nat_entries ?t) (nat_count ?t)"
    by (simp only: slots_counted_def core_fields(1) [OF c] install_props(2))
  have "keys_distinct ns_used outbound_key ROUTER_NAT_MAX_SESSIONS ?e"
    using wf out by (intro out_keys.keys_alloc) (simp_all add: nat_wf_def)
  then have ko: "keys_distinct ns_used outbound_key ROUTER_NAT_MAX_SESSIONS (nat_entries ?t)"
    by (simp only: keys_distinct_def core_fields(1,3) [OF c])
  have "keys_distinct ns_used inbound_key ROUTER_NAT_MAX_SESSIONS ?e"
    using wf inb by (intro in_keys.keys_alloc) (simp_all add: nat_wf_def)
  then have ki: "keys_distinct ns_used inbound_key ROUTER_NAT_MAX_SESSIONS (nat_entries ?t)"
    by (simp only: keys_distinct_def core_fields(1,4) [OF c])
  show ?thesis using idx cnt ko ki by (simp add: nat_wf_def)
qed

section \<open>Releasing a session\<close>

lemma index_remove_one_wf:
  assumes wf: "nat_index_wf t k" and i: "i < ROUTER_NAT_MAX_SESSIONS" "ns_used (nat_entries t i)"
  obtains t' where "index_remove_one t i k = Some t'" "same_core t t'"
    "index_wf ROUTER_NAT_MAX_SESSIONS ((\<lambda>j. ns_used (nat_entries t j))(i := False))
       (\<lambda>j. session_bucket (nat_entries t j) k) (nat_buckets t' k) (links t' k)"
    "\<And>k'. k' \<noteq> k \<Longrightarrow> nat_buckets t' k' = nat_buckets t k' \<and> links t' k' = links t k'"
proof -
  let ?b = "session_bucket (nat_entries t i) k"
  from unlink_wf [OF wf [unfolded nat_index_wf_def] i] obtain hs nx where
    u: "unlink (nat_buckets t k) (links t k) ?b i = Some (hs, nx)"
    and w: "index_wf ROUTER_NAT_MAX_SESSIONS ((\<lambda>j. ns_used (nat_entries t j))(i := False))
       (\<lambda>j. session_bucket (nat_entries t j) k) hs nx" by blast
  show thesis
  proof (cases "nat_buckets t k ?b = 0")
    case True
    then have "index_remove_one t i k = Some t" "hs = nat_buckets t k" "nx = links t k"
      using u by (simp_all add: index_remove_one_def unlink_def)
    with w show ?thesis by (intro that [of t]) simp_all
  next
    case nz: False
    show ?thesis
    proof (cases "nat_buckets t k ?b = Suc i")
      case True
      then have r: "index_remove_one t i k = Some (set_head t k ?b (links t k i))"
        by (simp add: index_remove_one_def Let_def)
      have "hs = (nat_buckets t k)(?b := links t k i)" "nx = links t k"
        using u True by (auto simp: unlink_def)
      with w r show ?thesis
        by (intro that [of "set_head t k ?b (links t k i)"]) (simp_all add: set_head_core set_head_buckets)
    next
      case False
      with nz u obtain r where r: "chain_pred (links t k) (Suc i) (nat_buckets t k ?b - 1) = Some r"
        by (auto simp: unlink_def split: option.splits)
      show ?thesis
      proof (cases r)
        case None
        with nz False r u have "index_remove_one t i k = Some t" "hs = nat_buckets t k" "nx = links t k"
          by (simp_all add: index_remove_one_def unlink_def Let_def)
        with w show ?thesis by (intro that [of t]) simp_all
      next
        case (Some p)
        with nz False r u have "index_remove_one t i k = Some (set_next t p k (links t k i))"
          "hs = nat_buckets t k" "nx = (links t k)(p := links t k i)"
          by (simp_all add: index_remove_one_def unlink_def Let_def)
        with w show ?thesis
          by (intro that [of "set_next t p k (links t k i)"]) (simp_all add: set_next_core set_next_links)
      qed
    qed
  qed
qed

text \<open>\<open>release\<close> never runs astray, zeroes exactly the one slot and keeps the table well formed.\<close>

lemma index_remove_props:
  assumes wf: "nat_wf t" and i: "i < ROUTER_NAT_MAX_SESSIONS" "ns_used (nat_entries t i)"
  obtains t' where "index_remove t i = Some t'" "same_core t t'"
    "\<And>k. k \<in> {0, 1, 2} \<Longrightarrow>
       index_wf ROUTER_NAT_MAX_SESSIONS ((\<lambda>j. ns_used (nat_entries t j))(i := False))
         (\<lambda>j. session_bucket (nat_entries t j) k) (nat_buckets t' k) (links t' k)"
proof -
  have I: "nat_index_wf t k" if "k \<in> {0, 1, 2}" for k using wf that by (auto simp: nat_wf_def)
  have carry: "nat_index_wf u k" if "nat_index_wf t k" "same_core t u"
    "nat_buckets u k = nat_buckets t k" "links u k = links t k" for u k
    using that by (simp add: nat_index_wf_def same_coreD)
  from index_remove_one_wf [OF I i, of 0] obtain a where
    a: "index_remove_one t i 0 = Some a" "same_core t a"
    and aw: "index_wf ROUTER_NAT_MAX_SESSIONS ((\<lambda>j. ns_used (nat_entries t j))(i := False))
       (\<lambda>j. session_bucket (nat_entries t j) 0) (nat_buckets a 0) (links a 0)"
    and ak: "\<And>k'. k' \<noteq> 0 \<Longrightarrow> nat_buckets a k' = nat_buckets t k' \<and> links a k' = links t k'" by blast
  have "nat_index_wf a 1" using carry [OF I a(2)] ak by simp
  from index_remove_one_wf [OF this i(1)] obtain b where
    b: "index_remove_one a i 1 = Some b" "same_core a b"
    and bw: "index_wf ROUTER_NAT_MAX_SESSIONS ((\<lambda>j. ns_used (nat_entries t j))(i := False))
       (\<lambda>j. session_bucket (nat_entries t j) 1) (nat_buckets b 1) (links b 1)"
    and bk: "\<And>k'. k' \<noteq> 1 \<Longrightarrow> nat_buckets b k' = nat_buckets a k' \<and> links b k' = links a k'"
    using i(2) by (auto simp: same_coreD [OF a(2)])
  have tb: "same_core t b" by (rule same_core_trans [OF a(2) b(2)])
  have "nat_index_wf b 2" using carry [OF I tb] ak bk by simp
  from index_remove_one_wf [OF this i(1)] obtain c where
    c: "index_remove_one b i 2 = Some c" "same_core b c"
    and cw: "index_wf ROUTER_NAT_MAX_SESSIONS ((\<lambda>j. ns_used (nat_entries t j))(i := False))
       (\<lambda>j. session_bucket (nat_entries t j) 2) (nat_buckets c 2) (links c 2)"
    and ck: "\<And>k'. k' \<noteq> 2 \<Longrightarrow> nat_buckets c k' = nat_buckets b k' \<and> links c k' = links b k'"
    using i(2) by (auto simp: same_coreD [OF tb])
  show thesis
  proof (rule that)
    show "index_remove t i = Some c" unfolding index_remove_def by (simp only: a(1) b(1) c(1) Option.bind.simps)
    show "same_core t c" by (rule same_core_trans [OF tb c(2)])
    show "index_wf ROUTER_NAT_MAX_SESSIONS ((\<lambda>j. ns_used (nat_entries t j))(i := False))
         (\<lambda>j. session_bucket (nat_entries t j) k) (nat_buckets c k) (links c k)" if "k \<in> {0, 1, 2}" for k
      using that aw bw cw bk ck by auto
  qed
qed

lemma release_wf:
  assumes wf: "nat_wf t" and i: "i < ROUTER_NAT_MAX_SESSIONS" "ns_used (nat_entries t i)"
  obtains t' where "release t i = Some t'" "nat_wf t'"
    "\<And>j. session_core (nat_entries t' j) = session_core (((nat_entries t)(i := session_zero)) j)"
    "nat_count t' = nat_count t - 1" "nat_st t' = nat_st t"
    "nat_port_forwards t' = nat_port_forwards t" "nat_next_port t' = nat_next_port t"
proof -
  from index_remove_props [OF assms] obtain r where r: "index_remove t i = Some r" "same_core t r"
    and rw: "\<And>k. k \<in> {0, 1, 2} \<Longrightarrow>
       index_wf ROUTER_NAT_MAX_SESSIONS ((\<lambda>j. ns_used (nat_entries t j))(i := False))
         (\<lambda>j. session_bucket (nat_entries t j) k) (nat_buckets r k) (links r k)" by blast
  let ?t = "r\<lparr>nat_entries := (nat_entries r)(i := session_zero), nat_count := nat_count r - 1\<rparr>"
  let ?e = "(nat_entries t)(i := session_zero)"
  have c: "session_core (nat_entries ?t j) = session_core (?e j)" for j
    using r(2) by (simp add: same_core_def)
  have idx: "nat_index_wf ?t k" if "k \<in> {0, 1, 2}" for k
    unfolding nat_index_wf_def
    by (rule index_wf_cong [where used = "(\<lambda>j. ns_used (nat_entries t j))(i := False)" and
          bucket = "\<lambda>j. session_bucket (nat_entries t j) k" and nxt = "links r k"])
      (use rw [OF that] in \<open>auto simp: same_coreD [OF r(2)] links_def session_zero_def\<close>)
  have "slots_counted ns_used ROUTER_NAT_MAX_SESSIONS ?e (nat_count t - 1)"
    using wf i by (intro nss.counted_release) (simp_all add: nat_wf_def)
  then have cnt: "slots_counted ns_used ROUTER_NAT_MAX_SESSIONS (nat_entries ?t) (nat_count ?t)"
    by (simp only: slots_counted_def core_fields(1) [OF c]) (simp add: same_coreD [OF r(2)])
  have z: "?e = (\<lambda>j. if j = i then session_zero else nat_entries t j)" by auto
  have "keys_distinct ns_used outbound_key ROUTER_NAT_MAX_SESSIONS ?e"
    using wf unfolding z by (intro out_keys.keys_release) (simp add: nat_wf_def)
  then have ko: "keys_distinct ns_used outbound_key ROUTER_NAT_MAX_SESSIONS (nat_entries ?t)"
    by (simp only: keys_distinct_def core_fields(1,3) [OF c])
  have "keys_distinct ns_used inbound_key ROUTER_NAT_MAX_SESSIONS ?e"
    using wf unfolding z by (intro in_keys.keys_release) (simp add: nat_wf_def)
  then have ki: "keys_distinct ns_used inbound_key ROUTER_NAT_MAX_SESSIONS (nat_entries ?t)"
    by (simp only: keys_distinct_def core_fields(1,4) [OF c])
  have "nat_wf ?t" using idx cnt ko ki by (simp add: nat_wf_def)
  then show thesis
    by (rule that [rotated 1]) (use r c in \<open>simp_all add: release_def same_core_def\<close>)
qed

end
