(* ===== verification/Router_Nat.thy ===== *)
theory Router_Nat
  imports Nat_Table
begin

text \<open>
  The operations of \<^verbatim>\<open>router/router_nat.c\<close> on the session table: outbound and inbound translation,
  port forwarding, rejection, aging, flushing and the offload predicates.  Each returns the new
  table, the result code and, when a frame was translated, the session slot and the frame left
  in \<^verbatim>\<open>output\<close>; the outer \<open>option\<close> is \<open>None\<close> when an index walk does not end.
\<close>

section \<open>Operations\<close>

type_synonym nat_reply = "nat_table \<times> nat_result \<times> (nat \<times> bytes) option"

definition bump :: "(nat_stats \<Rightarrow> nat_stats) \<Rightarrow> nat_table \<Rightarrow> nat_table" where
  "bump f t = t\<lparr>nat_st := f (nat_st t)\<rparr>"

definition touch :: "nat_table \<Rightarrow> nat \<Rightarrow> (nat_session \<Rightarrow> nat_session) \<Rightarrow> nat_table" where
  "touch t i f = t\<lparr>nat_entries := (nat_entries t)(i := f (nat_entries t i))\<rparr>"

definition count_failure :: "nat_result \<Rightarrow> nat_stats \<Rightarrow> nat_stats" where
  "count_failure r st =
     (if r = ROUTER_NAT_UNSUPPORTED then st\<lparr>st_unsupported_packets := st_unsupported_packets st + 1\<rparr>
      else st\<lparr>st_invalid_packets := st_invalid_packets st + 1\<rparr>)"

definition policy_bad :: "router_nat_policy option \<Rightarrow> u32 \<Rightarrow> nat_inside \<Rightarrow> bool" where
  "policy_bad policy public_ip inside =
     (case policy of
        None \<Rightarrow> in_vr_id inside = 0
      | Some p \<Rightarrow> public_ip = 0 \<or> np_vr_id p = 0 \<or> np_port_first p < 1024 \<or>
                  np_port_last p < np_port_first p)"

definition outbound_seen :: "nat_inside \<Rightarrow> u64 \<Rightarrow> nat_session \<Rightarrow> nat_session" where
  "outbound_seen inside now s =
     s\<lparr>ns_inside := inside, ns_last_seen_ns := now, ns_original_packets := ns_original_packets s + 1\<rparr>"

definition outbound_stats :: "bool \<Rightarrow> u8 \<Rightarrow> nat_stats \<Rightarrow> nat_stats" where
  "outbound_stats forward protocol st =
     (let st1 = st\<lparr>st_outbound_packets := st_outbound_packets st + 1\<rparr>;
          st2 = (if forward then st1\<lparr>st_port_forward_outbound_packets :=
                   st_port_forward_outbound_packets st1 + 1\<rparr> else st1) in
      if protocol = 1 then st2\<lparr>st_icmp_echo_outbound_packets := st_icmp_echo_outbound_packets st2 + 1\<rparr>
      else st2)"

definition outbound_session ::
  "nat_table \<Rightarrow> router_nat_policy option \<Rightarrow> u32 \<Rightarrow> packet_view \<Rightarrow> nat_inside \<Rightarrow> u64 \<Rightarrow> (nat_table \<times> nat option) option" where
  "outbound_session t policy public_ip v inside now = do {
     s \<leftarrow> find_outbound t (case policy of Some p \<Rightarrow> np_vr_id p | None \<Rightarrow> in_vr_id inside) v;
     (case (s, policy) of
        (None, Some p) \<Rightarrow> allocate_session t p public_ip v inside now
      | _ \<Rightarrow> Some (t, s))
   }"

definition translate_outbound ::
  "nat_table \<Rightarrow> nat \<Rightarrow> packet_view \<Rightarrow> nat_inside \<Rightarrow> bytes \<Rightarrow> u64 \<Rightarrow> nat_reply" where
  "translate_outbound t i v inside frame now =
     (let s = nat_entries t i in
      (bump (outbound_stats (ns_port_forward s) (v_protocol v)) (touch t i (outbound_seen inside now)),
       ROUTER_NAT_TRANSLATED,
       Some (i, nat_rewrite frame v PACKET_OUTBOUND (ns_public_ip s) (ns_public_port s))))"

definition router_nat_outbound ::
  "nat_table \<Rightarrow> router_nat_policy option \<Rightarrow> u32 \<Rightarrow> nat_inside \<Rightarrow> bytes \<Rightarrow> u64 \<Rightarrow> nat \<Rightarrow> nat_reply option" where
  "router_nat_outbound t policy public_ip inside frame now capacity =
     (if policy_bad policy public_ip inside then Some (t, ROUTER_NAT_INVALID, None)
      else case packet_parse frame capacity PACKET_OUTBOUND of
        Inl r \<Rightarrow> Some (bump (count_failure r) t, r, None)
      | Inr v \<Rightarrow> do {
          (t1, s) \<leftarrow> outbound_session t policy public_ip v inside now;
          (case s of
             None \<Rightarrow>
               if policy = None then Some (t1, ROUTER_NAT_NOT_APPLICABLE, None)
               else Some (bump (\<lambda>st. st\<lparr>st_port_allocation_failures :=
                            st_port_allocation_failures st + 1\<rparr>) t1, ROUTER_NAT_FULL, None)
           | Some i \<Rightarrow>
               if policy = None \<and> \<not> ns_port_forward (nat_entries t1 i)
                 then Some (t1, ROUTER_NAT_NOT_APPLICABLE, None)
               else Some (translate_outbound t1 i v inside frame now))
        })"

definition reply_seen :: "u64 \<Rightarrow> nat_session \<Rightarrow> nat_session" where
  "reply_seen now s = s\<lparr>ns_last_seen_ns := now, ns_reply_packets := ns_reply_packets s + 1\<rparr>"

definition inbound_stats :: "u8 \<Rightarrow> nat_stats \<Rightarrow> nat_stats" where
  "inbound_stats protocol st =
     (let st1 = st\<lparr>st_inbound_packets := st_inbound_packets st + 1\<rparr> in
      if protocol = 1 then st1\<lparr>st_icmp_echo_inbound_packets := st_icmp_echo_inbound_packets st1 + 1\<rparr>
      else st1)"

text \<open>The rewrite and bookkeeping shared by both inbound functions.\<close>

definition translate_inbound ::
  "(nat_stats \<Rightarrow> nat_stats) \<Rightarrow> nat_table \<Rightarrow> nat \<Rightarrow> packet_view \<Rightarrow> bytes \<Rightarrow> u64 \<Rightarrow> nat_reply" where
  "translate_inbound f t i v frame now =
     (let s = nat_entries t i in
      (bump f (touch t i (reply_seen now)), ROUTER_NAT_TRANSLATED,
       Some (i, nat_rewrite frame v PACKET_INBOUND (ns_inside_ip s) (ns_inside_port s))))"

definition router_nat_inbound ::
  "nat_table \<Rightarrow> u16 \<Rightarrow> bytes \<Rightarrow> u64 \<Rightarrow> nat \<Rightarrow> nat_reply option" where
  "router_nat_inbound t vr frame now capacity =
     (if vr = 0 then Some (t, ROUTER_NAT_INVALID, None)
      else case packet_parse frame capacity PACKET_INBOUND of
        Inl r \<Rightarrow> Some (bump (count_failure r) t, r, None)
      | Inr v \<Rightarrow> do {
          s \<leftarrow> find_inbound t vr v;
          (case s of
             None \<Rightarrow> Some (bump (\<lambda>st. st\<lparr>st_reverse_misses := st_reverse_misses st + 1\<rparr>) t,
                           ROUTER_NAT_NOT_APPLICABLE, None)
           | Some i \<Rightarrow> Some (translate_inbound (inbound_stats (v_protocol v)) t i v frame now))
        })"

section \<open>Port forwarding\<close>

definition forward_rule :: "router_config \<Rightarrow> u16 \<Rightarrow> u16 \<Rightarrow> packet_view \<Rightarrow> router_port_forward option" where
  "forward_rule c vr interface v =
     find (\<lambda>r. pf_vr_id r = vr \<and> pf_interface_id r = interface \<and>
        pf_public_ip r = v_destination_ip v \<and> pf_protocol r = v_protocol v \<and>
        pf_public_port r \<le> v_destination_port v \<and> v_destination_port v \<le> pf_public_port_last r)
       (cfg_port_forwards c)"

definition private_port :: "router_port_forward \<Rightarrow> packet_view \<Rightarrow> u16" where
  "private_port r v = pf_private_port r + (v_destination_port v - pf_public_port r)"

definition return_view :: "router_port_forward \<Rightarrow> packet_view \<Rightarrow> packet_view" where
  "return_view r v =
     \<lparr>v_l4 = 0, v_ip_header_length = 0, v_l4_length = 0, v_frame_length = 0,
      v_protocol = v_protocol v, v_source_ip = pf_private_ip r, v_destination_ip = v_source_ip v,
      v_source_port = private_port r v, v_destination_port = v_source_port v\<rparr>"

definition forward_session :: "router_port_forward \<Rightarrow> u16 \<Rightarrow> u16 \<Rightarrow> packet_view \<Rightarrow> u64 \<Rightarrow> nat_session" where
  "forward_session r vr interface v now =
     session_zero\<lparr>ns_used := True, ns_port_forward := True, ns_vr_id := vr,
       ns_public_interface_id := interface, ns_port_forward_rule_id := pf_rule_id r,
       ns_protocol := v_protocol v, ns_inside_ip := pf_private_ip r,
       ns_inside_port := private_port r v, ns_remote_ip := v_source_ip v,
       ns_remote_port := v_source_port v, ns_public_ip := pf_public_ip r,
       ns_public_port := v_destination_port v, ns_created_ns := now, ns_last_seen_ns := now\<rparr>"

definition forward_full :: "nat_table \<Rightarrow> nat_table" where
  "forward_full = bump (\<lambda>st. st\<lparr>st_port_forward_full := st_port_forward_full st + 1\<rparr>)"

definition forward_created :: "nat_table \<Rightarrow> nat_table" where
  "forward_created = bump (\<lambda>st. st\<lparr>st_port_forward_sessions_created :=
     st_port_forward_sessions_created st + 1\<rparr>)"

definition forward_stats :: "nat_stats \<Rightarrow> nat_stats" where
  "forward_stats st = st\<lparr>st_inbound_packets := st_inbound_packets st + 1,
     st_port_forward_inbound_packets := st_port_forward_inbound_packets st + 1\<rparr>"

definition router_nat_port_forward_inbound ::
  "nat_table \<Rightarrow> router_config \<Rightarrow> u16 \<Rightarrow> u16 \<Rightarrow> bytes \<Rightarrow> u64 \<Rightarrow> nat \<Rightarrow> nat_reply option" where
  "router_nat_port_forward_inbound t c vr interface frame now capacity =
     (if vr = 0 \<or> interface = 0 then Some (t, ROUTER_NAT_INVALID, None)
      else case packet_parse frame capacity PACKET_INBOUND of
        Inl r \<Rightarrow> Some (t, r, None)
      | Inr v \<Rightarrow>
          if v_protocol v \<noteq> 6 \<and> v_protocol v \<noteq> 17 then Some (t, ROUTER_NAT_NOT_APPLICABLE, None)
          else case forward_rule c vr interface v of
            None \<Rightarrow> Some (t, ROUTER_NAT_NOT_APPLICABLE, None)
          | Some r \<Rightarrow> do {
              s \<leftarrow> find_inbound t vr v;
              (case s of
                 Some i \<Rightarrow>
                   if \<not> ns_port_forward (nat_entries t i) then Some (t, ROUTER_NAT_NOT_APPLICABLE, None)
                   else Some (translate_inbound forward_stats t i v frame now)
               | None \<Rightarrow> do {
                   clash \<leftarrow> find_outbound t vr (return_view r v);
                   if clash \<noteq> None then Some (forward_full t, ROUTER_NAT_FULL, None)
                   else (case free_slot t of
                     None \<Rightarrow> Some (forward_full t, ROUTER_NAT_FULL, None)
                   | Some i \<Rightarrow> Some (translate_inbound forward_stats
                       (forward_created (install t i (forward_session r vr interface v now)))
                       i v frame now))
                 })
            })"

definition router_nat_port_forward_reject :: "nat_table \<Rightarrow> nat \<Rightarrow> nat_table option" where
  "router_nat_port_forward_reject t i =
     (if ROUTER_NAT_MAX_SESSIONS \<le> i then Some t
      else if \<not> ns_used (nat_entries t i) \<or> \<not> ns_port_forward (nat_entries t i) \<or>
        ns_hardware_active (nat_entries t i) then Some t
      else release t i)"

text \<open>Replies of existing port-forward sessions, recognised before the egress policy.\<close>

definition forward_reply_frame :: "router_interface \<Rightarrow> bytes \<Rightarrow> bool" where
  "forward_reply_frame ingress p =
     (let ihl = ip_header_length p; total = unat (read16 p 16); protocol = p ! 23;
          m = prefix_mask (rif_prefix ingress) in
      rif_has_address ingress \<and> 34 \<le> length p \<and> ethertype_ipv4 p \<and> ip_version_ok p \<and>
      14 + ihl \<le> length p \<and> \<not> (total < ihl + 8 \<or> length p - 14 < total \<or> read16 p 20 AND 0x3fff \<noteq> 0) \<and>
      (protocol = 6 \<or> protocol = 17) \<and> \<not> (protocol = 6 \<and> total < ihl + 20) \<and>
      read32 p 26 AND m = rif_address ingress AND m)"

definition router_nat_is_port_forward_reply :: "nat_table \<Rightarrow> router_interface \<Rightarrow> bytes \<Rightarrow> bool option" where
  "router_nat_is_port_forward_reply t ingress p =
     (if \<not> forward_reply_frame ingress p then Some False
      else
        let v = view_of p PACKET_OUTBOUND; vr = rif_vr_id ingress in
        map_option (\<lambda>r. r \<noteq> None)
          (walk t 0 (tuple_bucket vr (v_protocol v) (v_source_ip v) (v_source_port v)
             (v_destination_ip v) (v_destination_port v))
             (\<lambda>s. ns_port_forward s \<and> outbound_match vr v s)))"

section \<open>Aging and flushing\<close>

definition idle_timeout :: "nat_session \<Rightarrow> u64" where
  "idle_timeout s =
     (if ns_protocol s = 6 then ROUTER_NAT_TCP_IDLE_NS
      else if ns_protocol s = 17 then ROUTER_NAT_UDP_IDLE_NS
      else ROUTER_NAT_ICMP_IDLE_NS)"

text \<open>The two loops over the slots: release what satisfies \<open>P\<close>, then update the counters.\<close>

fun release_all ::
  "(nat_session \<Rightarrow> bool) \<Rightarrow> (nat_stats \<Rightarrow> nat_stats) \<Rightarrow> nat_table \<Rightarrow> nat list \<Rightarrow> nat_table option" where
  "release_all P f t [] = Some t"
| "release_all P f t (i # is) =
     (if ns_used (nat_entries t i) \<and> P (nat_entries t i)
      then (case release t i of None \<Rightarrow> None | Some t1 \<Rightarrow> release_all P f (bump f t1) is)
      else release_all P f t is)"

definition session_idle :: "u64 \<Rightarrow> nat_session \<Rightarrow> bool" where
  "session_idle now s \<longleftrightarrow>
     \<not> ns_hardware_active s \<and> \<not> now - ns_last_seen_ns s \<le> idle_timeout s"

definition router_nat_age :: "nat_table \<Rightarrow> u64 \<Rightarrow> nat_table option" where
  "router_nat_age t now =
     release_all (session_idle now) (\<lambda>st. st\<lparr>st_sessions_aged := st_sessions_aged st + 1\<rparr>)
       t [0..<ROUTER_NAT_MAX_SESSIONS]"

definition session_flushed :: "u16 \<Rightarrow> nat_session \<Rightarrow> bool" where
  "session_flushed vr s \<longleftrightarrow> \<not> (vr \<noteq> 0 \<and> ns_vr_id s \<noteq> vr) \<and> \<not> ns_hardware_active s"

definition router_nat_flush :: "nat_table \<Rightarrow> u16 \<Rightarrow> nat_table option" where
  "router_nat_flush t vr = release_all (session_flushed vr) (\<lambda>st. st) t [0..<ROUTER_NAT_MAX_SESSIONS]"

definition router_nat_session_set_hardware_active :: "nat_table \<Rightarrow> nat \<Rightarrow> bool \<Rightarrow> nat_table" where
  "router_nat_session_set_hardware_active t i active =
     touch t i (\<lambda>s. s\<lparr>ns_hardware_active := active\<rparr>)"

definition router_nat_session_offload_eligible ::
  "nat_session option \<Rightarrow> router_interface option \<Rightarrow> router_interface option \<Rightarrow> u16 \<Rightarrow> mac \<Rightarrow> bool \<Rightarrow> bool" where
  "router_nat_session_offload_eligible session ingress egress port source_mac authorized =
     (authorized \<and>
      (case (session, ingress, egress) of
         (Some s, Some i, Some e) \<Rightarrow>
           ns_used s \<and> (ns_protocol s = 6 \<or> ns_protocol s = 17) \<and>
           rif_attachment i = ROUTER_VSWITCH \<and> rif_attachment e = ROUTER_VSWITCH \<and>
           ns_vr_id s = rif_vr_id i \<and> ns_vr_id s = rif_vr_id e \<and>
           in_interface_id (ns_inside s) = rif_interface_id i \<and>
           in_vswitch_id (ns_inside s) = rif_vswitch_id i \<and>
           ns_public_interface_id s = rif_interface_id e \<and>
           in_port_id (ns_inside s) = port \<and> in_mac (ns_inside s) = source_mac
       | _ \<Rightarrow> False))"

section \<open>Accounting keeps the table well formed\<close>

lemma bump_fields [simp]:
  "nat_entries (bump f t) = nat_entries t" "nat_buckets (bump f t) = nat_buckets t"
  "nat_count (bump f t) = nat_count t" "nat_port_forwards (bump f t) = nat_port_forwards t"
  "nat_st (bump f t) = f (nat_st t)" "links (bump f t) = links t" "nat_next_port (bump f t) = nat_next_port t"
  by (simp_all add: bump_def links_def [abs_def])

lemma bump_wf [simp]: "nat_wf (bump f t) = nat_wf t"
  by (simp add: nat_wf_def nat_index_wf_def)

lemma touch_fields:
  "nat_entries (touch t i f) = (nat_entries t)(i := f (nat_entries t i))"
  "nat_count (touch t i f) = nat_count t" "nat_port_forwards (touch t i f) = nat_port_forwards t"
  "nat_st (touch t i f) = nat_st t" "nat_next_port (touch t i f) = nat_next_port t"
  "nat_buckets (touch t i f) = nat_buckets t"
  by (simp_all add: touch_def)

lemma session_bucket_keys:
  "outbound_key a = outbound_key b \<Longrightarrow> inbound_key a = inbound_key b \<Longrightarrow>
   session_bucket a k = session_bucket b k"
  by (simp add: outbound_key_def inbound_key_def session_bucket_def)

lemma touch_wf:
  assumes wf: "nat_wf t" and f: "\<And>s. ns_used (f s) = ns_used s" "\<And>s. ns_index_next (f s) = ns_index_next s"
    "\<And>s. outbound_key (f s) = outbound_key s" "\<And>s. inbound_key (f s) = inbound_key s"
  shows "nat_wf (touch t i f)"
proof -
  let ?t = "touch t i f"
  have u: "ns_used (nat_entries ?t j) = ns_used (nat_entries t j)"
    and o: "outbound_key (nat_entries ?t j) = outbound_key (nat_entries t j)"
    and b: "inbound_key (nat_entries ?t j) = inbound_key (nat_entries t j)"
    and l: "links ?t k j = links t k j" for j k
    by (simp_all add: touch_fields links_def f)
  have n: "nat_buckets ?t = nat_buckets t" "nat_count ?t = nat_count t" by (simp_all add: touch_fields)
  have s: "session_bucket (nat_entries ?t j) k = session_bucket (nat_entries t j) k" for j k
    by (rule session_bucket_keys [OF o b])
  have "links ?t k = links t k" for k by (rule ext) (rule l)
  then have I: "nat_index_wf ?t k = nat_index_wf t k" for k
    by (simp only: nat_index_wf_def u s n)
  show ?thesis
    using wf unfolding nat_wf_def slots_counted_def keys_distinct_def u o b n I .
qed

lemma outbound_seen_wf: "nat_wf t \<Longrightarrow> nat_wf (touch t i (outbound_seen inside now))"
  by (rule touch_wf) (simp_all add: outbound_seen_def outbound_key_def inbound_key_def)

lemma reply_seen_wf: "nat_wf t \<Longrightarrow> nat_wf (touch t i (reply_seen now))"
  by (rule touch_wf) (simp_all add: reply_seen_def outbound_key_def inbound_key_def)

lemma hardware_wf: "nat_wf t \<Longrightarrow> nat_wf (router_nat_session_set_hardware_active t i a)"
  unfolding router_nat_session_set_hardware_active_def
  by (rule touch_wf) (simp_all add: outbound_key_def inbound_key_def)

lemma nat_wf_init: "nat_wf router_nat_init"
proof -
  have "nat_index_wf router_nat_init k" for k
    unfolding nat_index_wf_def
    by (rule index_wf_empty) (simp_all add: router_nat_init_def session_zero_def)
  then show ?thesis
    using nss.counted_zero out_keys.keys_zero in_keys.keys_zero
    by (simp add: nat_wf_def) (simp add: router_nat_init_def)
qed

lemma set_port_forwards_wf [simp]: "nat_wf (router_nat_set_port_forwards t c) = nat_wf t"
  by (simp add: router_nat_set_port_forwards_def nat_wf_def nat_index_wf_def links_def [abs_def])

section \<open>Port allocation\<close>

lemma search_port_find:
  "(\<And>x. in_use x = Some (b x)) \<Longrightarrow>
   search_port in_use cand ks = Some (map_option cand (find (\<lambda>k. \<not> b (cand k)) ks))"
  by (induction ks) auto

lemma candidate_value:
  assumes "first \<le> lst"
  shows "unat (nat_candidate first start (unat lst - unat first + 1) k) =
     unat first + ((unat start - unat first) + k) mod (unat lst - unat first + 1)"
proof -
  let ?span = "unat lst - unat first + 1"
  have "unat first \<le> unat lst" using assms by (simp add: word_le_nat_alt)
  moreover have "(unat start - unat first + k) mod ?span < ?span" by simp
  ultimately have "unat first + (unat start - unat first + k) mod ?span < 65536"
    using unat_u16_le [of lst] by linarith
  then show ?thesis unfolding nat_candidate_def by (subst of_nat_inverse) simp_all
qed

lemma candidate_range:
  assumes "first \<le> lst"
  shows "first \<le> nat_candidate first start (unat lst - unat first + 1) k"
    "nat_candidate first start (unat lst - unat first + 1) k \<le> lst"
proof -
  let ?span = "unat lst - unat first + 1"
  have "(unat start - unat first + k) mod ?span < ?span" by simp
  moreover have "unat first \<le> unat lst" using assms by (simp add: word_le_nat_alt)
  ultimately show "first \<le> nat_candidate first start ?span k" "nat_candidate first start ?span k \<le> lst"
    unfolding word_le_nat_alt candidate_value [OF assms] by linarith+
qed

text \<open>The search tries every port of the policy's range.\<close>

lemma candidate_onto:
  assumes "first \<le> lst" "first \<le> port" "port \<le> lst" "start \<le> lst"
  shows "\<exists>k<unat lst - unat first + 1. nat_candidate first start (unat lst - unat first + 1) k = port"
proof -
  let ?span = "unat lst - unat first + 1"
  define d where "d = unat start - unat first"
  define x where "x = unat port - unat first"
  have n: "unat first \<le> unat port" "unat port \<le> unat lst" "unat start \<le> unat lst"
    using assms by (simp_all add: word_le_nat_alt)
  then have d: "d < ?span" and x: "x < ?span" by (simp_all add: d_def x_def)
  define k where "k = (x + (?span - d)) mod ?span"
  have "(d + k) mod ?span = (d + (x + (?span - d))) mod ?span"
    unfolding k_def by (rule mod_add_right_eq)
  also have "d + (x + (?span - d)) = x + ?span" using d by simp
  also have "(x + ?span) mod ?span = x" using x by (simp only: mod_add_self2 mod_less)
  finally have "unat (nat_candidate first start ?span k) = unat port"
    unfolding candidate_value [OF assms(1)] using n by (simp add: d_def x_def)
  then have "nat_candidate first start ?span k = port" by (simp only: word_unat_eq_iff)
  moreover have "k < ?span" by (simp add: k_def)
  ultimately show ?thesis by blast
qed

text \<open>The session \<open>allocate_session\<close> builds.\<close>

definition nat_session_of ::
  "router_nat_policy \<Rightarrow> u32 \<Rightarrow> packet_view \<Rightarrow> nat_inside \<Rightarrow> u64 \<Rightarrow> u16 \<Rightarrow> nat_session" where
  "nat_session_of policy public_ip v inside now port =
     session_zero\<lparr>ns_used := True, ns_vr_id := np_vr_id policy, ns_protocol := v_protocol v,
       ns_public_interface_id := np_interface_id policy, ns_inside_ip := v_source_ip v,
       ns_inside_port := v_source_port v, ns_remote_ip := v_destination_ip v,
       ns_remote_port := v_destination_port v, ns_public_ip := public_ip, ns_public_port := port,
       ns_inside := inside, ns_created_ns := now, ns_last_seen_ns := now\<rparr>"

definition port_taken :: "nat_table \<Rightarrow> u16 \<Rightarrow> u8 \<Rightarrow> u32 \<Rightarrow> u16 \<Rightarrow> bool" where
  "port_taken t vr protocol ip port \<longleftrightarrow>
     port_reserved t vr protocol ip port \<or>
     (\<exists>i<ROUTER_NAT_MAX_SESSIONS. ns_used (nat_entries t i) \<and> port_match vr protocol ip port (nat_entries t i))"

definition table_full :: "nat_table \<Rightarrow> bool" where
  "table_full t \<longleftrightarrow> nat_count t = ROUTER_NAT_MAX_SESSIONS"

lemma free_slot_None: "nat_wf t \<Longrightarrow> free_slot t = None \<longleftrightarrow> table_full t"
proof -
  assume "nat_wf t"
  then have c: "slots_counted ns_used ROUTER_NAT_MAX_SESSIONS (nat_entries t) (nat_count t)"
    by (simp add: nat_wf_def)
  show ?thesis
    using nss.counted_full [OF c] nss.counted_le [OF c]
    by (auto simp: free_slot_def first_slot_None table_full_def)
qed

lemma free_slot_Some:
  "free_slot t = Some i \<Longrightarrow> i < ROUTER_NAT_MAX_SESSIONS \<and> \<not> ns_used (nat_entries t i)"
  unfolding free_slot_def by (auto dest: first_slot_SomeD)

lemma allocate_unfold:
  assumes wf: "nat_wf t" and p: "np_port_first p \<le> np_port_last p"
  obtains "allocate_session t p ip v inside now = Some (t, None)"
      "table_full t \<or> (\<forall>port. np_port_first p \<le> port \<and> port \<le> np_port_last p \<longrightarrow>
         port_taken t (np_vr_id p) (v_protocol v) ip port)"
    | i port where "free_slot t = Some i" "np_port_first p \<le> port" "port \<le> np_port_last p"
      "\<not> port_taken t (np_vr_id p) (v_protocol v) ip port"
      "allocate_session t p ip v inside now =
         Some (install (t\<lparr>nat_next_port := (if port = np_port_last p then np_port_first p else port + 1)\<rparr>) i
           (nat_session_of p ip v inside now port), Some i)"
proof -
  let ?first = "np_port_first p" and ?lst = "np_port_last p"
  let ?span = "unat ?lst - unat ?first + 1"
  define start where "start = (if nat_next_port t < ?first \<or> ?lst < nat_next_port t then ?first
                       else nat_next_port t)"
  have start: "start \<le> ?lst" using p by (auto simp: start_def)
  let ?cand = "nat_candidate ?first start ?span"
  let ?taken = "port_taken t (np_vr_id p) (v_protocol v) ip"
  have sp: "search_port (port_in_use t (np_vr_id p) (v_protocol v) ip) ?cand [0..<?span] =
      Some (map_option ?cand (find (\<lambda>k. \<not> ?taken (?cand k)) [0..<?span]))"
    by (rule search_port_find) (simp add: port_in_use_live [OF wf] port_taken_def)
  show thesis
  proof (cases "free_slot t")
    case None
    then have "allocate_session t p ip v inside now = Some (t, None)"
      by (simp add: allocate_session_def)
    moreover have "table_full t" using free_slot_None [OF wf] None by simp
    ultimately show thesis by (intro that(1)) simp_all
  next
    case (Some i)
    have A: "allocate_session t p ip v inside now =
      (case map_option ?cand (find (\<lambda>k. \<not> ?taken (?cand k)) [0..<?span]) of
         None \<Rightarrow> Some (t, None)
       | Some port \<Rightarrow> Some (install (t\<lparr>nat_next_port := (if port = ?lst then ?first else port + 1)\<rparr>) i
           (nat_session_of p ip v inside now port), Some i))"
      unfolding allocate_session_def Some option.case Let_def start_def [symmetric] sp
        Option.bind.simps nat_session_of_def by (rule refl)
    show thesis
    proof (cases "find (\<lambda>k. \<not> ?taken (?cand k)) [0..<?span]")
      case None
      have "?taken port" if rng: "?first \<le> port" "port \<le> ?lst" for port
      proof -
        obtain k where "k < ?span" "?cand k = port" using candidate_onto [OF p rng start] by blast
        moreover have "\<forall>k\<in>set [0..<?span]. ?taken (?cand k)"
          using None by (simp only: find_None_iff) blast
        ultimately show ?thesis by (metis atLeastLessThan_iff set_upt zero_le)
      qed
      then show thesis using A None by (intro that(1)) simp_all
    next
      case (Some k)
      then have nt: "\<not> ?taken (?cand k)" by (auto dest: find_SomeD)
      show thesis
        by (rule that(2) [OF \<open>free_slot t = Some i\<close> candidate_range [OF p] nt])
          (simp only: A Some option.map option.case)
    qed
  qed
qed

section \<open>Fresh sessions\<close>

lemma find_outbound_None:
  assumes "nat_wf t" "find_outbound t vr v = Some None" "j < ROUTER_NAT_MAX_SESSIONS"
    "ns_used (nat_entries t j)"
  shows "outbound_key (nat_entries t j) \<noteq>
    (vr, v_protocol v, v_source_ip v, v_source_port v, v_destination_ip v, v_destination_port v)"
  using find_outbound_live [OF assms(1), of vr v] assms(2-4)
  by (auto simp: live_match_def outbound_match_def outbound_key_def)

lemma find_inbound_None:
  assumes "nat_wf t" "find_inbound t vr v = Some None" "j < ROUTER_NAT_MAX_SESSIONS"
    "ns_used (nat_entries t j)"
  shows "inbound_key (nat_entries t j) \<noteq>
    (vr, v_protocol v, v_destination_ip v, v_destination_port v, v_source_ip v, v_source_port v)"
  using find_inbound_live [OF assms(1), of vr v] assms(2-4)
  by (auto simp: live_match_def inbound_match_def inbound_key_def)

lemma nat_session_of_fields [simp]:
  "ns_used (nat_session_of p ip v inside now port)"
  "\<not> ns_port_forward (nat_session_of p ip v inside now port)"
  "ns_public_ip (nat_session_of p ip v inside now port) = ip"
  "ns_public_port (nat_session_of p ip v inside now port) = port"
  "outbound_key (nat_session_of p ip v inside now port) =
     (np_vr_id p, v_protocol v, v_source_ip v, v_source_port v, v_destination_ip v, v_destination_port v)"
  "inbound_key (nat_session_of p ip v inside now port) =
     (np_vr_id p, v_protocol v, ip, port, v_destination_ip v, v_destination_port v)"
  by (simp_all add: nat_session_of_def outbound_key_def inbound_key_def session_zero_def)

lemma forward_session_fields [simp]:
  "ns_used (forward_session r vr iface v now)"
  "ns_port_forward (forward_session r vr iface v now)"
  "outbound_key (forward_session r vr iface v now) =
     (vr, v_protocol v, pf_private_ip r, private_port r v, v_source_ip v, v_source_port v)"
  "inbound_key (forward_session r vr iface v now) =
     (vr, v_protocol v, pf_public_ip r, v_destination_port v, v_source_ip v, v_source_port v)"
  by (simp_all add: forward_session_def outbound_key_def inbound_key_def session_zero_def)

lemma next_port_wf [simp]: "nat_wf (t\<lparr>nat_next_port := q\<rparr>) = nat_wf t"
  by (simp add: nat_wf_def nat_index_wf_def links_def [abs_def])

lemma install_nat_session_wf:
  assumes wf: "nat_wf t" and fo: "find_outbound t (np_vr_id p) v = Some None"
    and fs: "free_slot t = Some i"
    and nt: "\<not> port_taken t (np_vr_id p) (v_protocol v) ip port"
  shows "nat_wf (install (t\<lparr>nat_next_port := q\<rparr>) i (nat_session_of p ip v inside now port))"
proof (rule install_wf)
  show "nat_wf (t\<lparr>nat_next_port := q\<rparr>)" using wf by simp
  show "i < ROUTER_NAT_MAX_SESSIONS" "\<not> ns_used (nat_entries (t\<lparr>nat_next_port := q\<rparr>) i)"
    using free_slot_Some [OF fs] by simp_all
  fix j
  assume j: "j < ROUTER_NAT_MAX_SESSIONS" "ns_used (nat_entries (t\<lparr>nat_next_port := q\<rparr>) j)"
  then have u: "ns_used (nat_entries t j)" by simp
  show "outbound_key (nat_entries (t\<lparr>nat_next_port := q\<rparr>) j) \<noteq>
      outbound_key (nat_session_of p ip v inside now port)"
    using find_outbound_None [OF wf fo j(1) u] by simp
  have "\<not> port_match (np_vr_id p) (v_protocol v) ip port (nat_entries t j)"
    using nt u j(1) by (auto simp: port_taken_def)
  then show "inbound_key (nat_entries (t\<lparr>nat_next_port := q\<rparr>) j) \<noteq>
      inbound_key (nat_session_of p ip v inside now port)"
    by (auto simp: port_match_def inbound_key_def nat_session_of_def)
qed simp

lemma install_forward_session_wf:
  assumes wf: "nat_wf t" and fi: "find_inbound t vr v = Some None"
    and fo: "find_outbound t vr (return_view r v) = Some None"
    and fs: "free_slot t = Some i" and pub: "pf_public_ip r = v_destination_ip v"
  shows "nat_wf (install t i (forward_session r vr iface v now))"
proof (rule install_wf [OF wf])
  show "i < ROUTER_NAT_MAX_SESSIONS" "\<not> ns_used (nat_entries t i)"
    using free_slot_Some [OF fs] by simp_all
  fix j
  assume j: "j < ROUTER_NAT_MAX_SESSIONS" "ns_used (nat_entries t j)"
  show "outbound_key (nat_entries t j) \<noteq> outbound_key (forward_session r vr iface v now)"
    using find_outbound_None [OF wf fo j] by (simp add: return_view_def)
  show "inbound_key (nat_entries t j) \<noteq> inbound_key (forward_session r vr iface v now)"
    using find_inbound_None [OF wf fi j] pub by simp
qed simp

section \<open>Every operation returns and keeps the invariant\<close>

lemma policy_ok_range: "\<not> policy_bad (Some p) ip inside \<Longrightarrow> np_port_first p \<le> np_port_last p"
  by (simp add: policy_bad_def not_less)

lemma outbound_session_wf:
  assumes wf: "nat_wf t" and p: "\<not> policy_bad policy ip inside"
  obtains t1 s where "outbound_session t policy ip v inside now = Some (t1, s)" "nat_wf t1"
    "s = None \<Longrightarrow> t1 = t"
proof -
  let ?vr = "case policy of Some p \<Rightarrow> np_vr_id p | None \<Rightarrow> in_vr_id inside"
  obtain s where s: "find_outbound t ?vr v = Some s" using find_outbound_live [OF wf] by blast
  show thesis
  proof (cases "s = None \<and> policy \<noteq> None")
    case False
    then have "outbound_session t policy ip v inside now = Some (t, s)"
      by (auto simp: outbound_session_def s split: option.splits)
    then show thesis using wf by (rule that) simp
  next
    case True
    then obtain p' where p': "policy = Some p'" by auto
    have fo: "find_outbound t (np_vr_id p') v = Some None" using s True p' by simp
    have o: "outbound_session t policy ip v inside now = allocate_session t p' ip v inside now"
      using s True p' by (simp add: outbound_session_def)
    from allocate_unfold [OF wf policy_ok_range [OF p [unfolded p']], of ip v inside now]
    show thesis
    proof cases
      case 1
      then show thesis using that [OF _ wf] o by simp
    next
      case (2 i port)
      then show thesis using that [OF _ install_nat_session_wf [OF wf fo 2(1,4)]] o by simp
    qed
  qed
qed

lemma outbound_wf:
  assumes wf: "nat_wf t"
  shows "\<exists>t' r x. router_nat_outbound t policy ip inside frame now cap = Some (t', r, x) \<and> nat_wf t'"
proof (cases "policy_bad policy ip inside")
  case True
  then show ?thesis using wf by (simp add: router_nat_outbound_def)
next
  case False
  show ?thesis
  proof (cases "packet_parse frame cap PACKET_OUTBOUND")
    case (Inl r)
    then show ?thesis using wf False by (simp add: router_nat_outbound_def)
  next
    case (Inr v)
    from outbound_session_wf [OF wf False, of v now] obtain t1 s where
      o: "outbound_session t policy ip v inside now = Some (t1, s)" and w: "nat_wf t1" by blast
    show ?thesis
      using False w outbound_seen_wf [OF w]
      by (cases s) (simp_all add: router_nat_outbound_def Inr o translate_outbound_def Let_def)
  qed
qed

lemma inbound_wf:
  assumes wf: "nat_wf t"
  shows "\<exists>t' r x. router_nat_inbound t vr frame now cap = Some (t', r, x) \<and> nat_wf t'"
proof (cases "vr = 0")
  case True
  then show ?thesis using wf by (simp add: router_nat_inbound_def)
next
  case False
  show ?thesis
  proof (cases "packet_parse frame cap PACKET_INBOUND")
    case (Inl r)
    then show ?thesis using wf False by (simp add: router_nat_inbound_def)
  next
    case (Inr v)
    obtain s where "find_inbound t vr v = Some s" using find_inbound_live [OF wf] by blast
    then show ?thesis
      using False wf reply_seen_wf [OF wf] Inr
      by (cases s) (simp_all add: router_nat_inbound_def translate_inbound_def Let_def)
  qed
qed

lemma forward_created_wf [simp]: "nat_wf (forward_created t) = nat_wf t"
  by (simp add: forward_created_def)

lemma forward_full_wf [simp]: "nat_wf (forward_full t) = nat_wf t"
  by (simp add: forward_full_def)

lemma forward_ruleD:
  assumes "forward_rule c vr iface v = Some r"
  shows "r \<in> set (cfg_port_forwards c)" "pf_vr_id r = vr" "pf_interface_id r = iface"
    "pf_public_ip r = v_destination_ip v" "pf_protocol r = v_protocol v"
    "pf_public_port r \<le> v_destination_port v" "v_destination_port v \<le> pf_public_port_last r"
  using assms unfolding forward_rule_def by (auto dest: find_SomeD)

lemma translate_inbound_wf:
  "nat_wf t \<Longrightarrow> \<exists>t' r x. translate_inbound f t i v frame now = (t', r, x) \<and> nat_wf t'"
  by (simp add: translate_inbound_def Let_def reply_seen_wf)

lemma port_forward_wf:
  assumes wf: "nat_wf t"
  shows "\<exists>t' r x. router_nat_port_forward_inbound t c vr iface frame now cap = Some (t', r, x) \<and> nat_wf t'"
proof (cases "vr = 0 \<or> iface = 0")
  case True
  then show ?thesis using wf by (simp add: router_nat_port_forward_inbound_def)
next
  case guard: False
  show ?thesis
  proof (cases "packet_parse frame cap PACKET_INBOUND")
    case (Inl r)
    then show ?thesis using wf guard by (simp add: router_nat_port_forward_inbound_def)
  next
    case (Inr v)
    show ?thesis
    proof (cases "(v_protocol v \<noteq> 6 \<and> v_protocol v \<noteq> 17) \<or> forward_rule c vr iface v = None")
      case True
      then show ?thesis using wf guard Inr by (auto simp: router_nat_port_forward_inbound_def)
    next
      case False
      then obtain r where r: "forward_rule c vr iface v = Some r" by auto
      obtain s where s: "find_inbound t vr v = Some s" using find_inbound_live [OF wf] by blast
      obtain k where k: "find_outbound t vr (return_view r v) = Some k"
        using find_outbound_live [OF wf] by blast
      note red = router_nat_port_forward_inbound_def Inr r s k
      show ?thesis
      proof (cases "s = None \<and> k = None \<and> free_slot t \<noteq> None")
        case True
        then obtain i where i: "free_slot t = Some i" by auto
        have "nat_wf (install t i (forward_session r vr iface v now))"
          using install_forward_session_wf [OF wf _ _ i forward_ruleD(4) [OF r]] s k True by simp
        then show ?thesis
          using translate_inbound_wf [of "forward_created (install t i (forward_session r vr iface v now))"]
            guard False True i by (auto simp: red)
      next
        case other: False
        show ?thesis
          using guard False other wf translate_inbound_wf [OF wf]
          by (cases s; cases k; cases "free_slot t") (auto simp: red)
      qed
    qed
  qed
qed

lemma reject_wf:
  assumes wf: "nat_wf t"
  shows "\<exists>t'. router_nat_port_forward_reject t i = Some t' \<and> nat_wf t'"
proof (cases "i < ROUTER_NAT_MAX_SESSIONS \<and> ns_used (nat_entries t i)")
  case True
  then show ?thesis
    using release_wf [OF wf, of i] wf
    by (metis router_nat_port_forward_reject_def)
next
  case False
  then show ?thesis using wf by (auto simp: router_nat_port_forward_reject_def)
qed

section \<open>Sweeps\<close>

definition session_kept :: "nat_session \<Rightarrow> nat_session \<Rightarrow> bool" where
  "session_kept a b \<longleftrightarrow> session_core a = session_core b"

lemma session_core_idem [simp]: "session_core (session_core s) = session_core s"
  by (simp add: session_core_def)

text \<open>
  The sweep releases exactly the listed live sessions satisfying \<open>P\<close>, whatever else the links
  of the remaining entries become, and runs \<open>f\<close> once for each.
\<close>

lemma release_all_wf:
  assumes P: "\<And>a b. session_core a = session_core b \<Longrightarrow> P a = P b"
  shows "nat_wf t \<Longrightarrow> distinct is \<Longrightarrow> set is \<subseteq> {..<ROUTER_NAT_MAX_SESSIONS} \<Longrightarrow>
    \<exists>t'. release_all P f t is = Some t' \<and> nat_wf t' \<and>
      (\<forall>j. session_core (nat_entries t' j) =
         session_core (if j \<in> set is \<and> ns_used (nat_entries t j) \<and> P (nat_entries t j)
                       then session_zero else nat_entries t j)) \<and>
      nat_st t' = (f ^^ card {j \<in> set is. ns_used (nat_entries t j) \<and> P (nat_entries t j)}) (nat_st t)"
proof (induction "is" arbitrary: t)
  case Nil
  then show ?case by simp
next
  case (Cons i "is")
  let ?S = "\<lambda>t is. {j \<in> set is. ns_used (nat_entries t j) \<and> P (nat_entries t j)}"
  show ?case
  proof (cases "ns_used (nat_entries t i) \<and> P (nat_entries t i)")
    case False
    then have "?S t (i # is) = ?S t is" by auto
    moreover obtain t' where "release_all P f t is = Some t'" "nat_wf t'"
      "\<forall>j. session_core (nat_entries t' j) =
         session_core (if j \<in> set is \<and> ns_used (nat_entries t j) \<and> P (nat_entries t j)
                       then session_zero else nat_entries t j)"
      "nat_st t' = (f ^^ card (?S t is)) (nat_st t)"
      using Cons.IH [of t] Cons.prems by auto
    ultimately show ?thesis using False by (intro exI [of _ t']) auto
  next
    case True
    have i: "i < ROUTER_NAT_MAX_SESSIONS" using Cons.prems by auto
    from release_wf [OF Cons.prems(1) i] True obtain t1 where t1: "release t i = Some t1" "nat_wf t1"
      "\<And>j. session_core (nat_entries t1 j) = session_core (((nat_entries t)(i := session_zero)) j)"
      "nat_st t1 = nat_st t" by blast
    have same: "ns_used (nat_entries t1 j) = ns_used (nat_entries t j)"
      "P (nat_entries t1 j) = P (nat_entries t j)"
      "session_core (nat_entries t1 j) = session_core (nat_entries t j)" if "j \<noteq> i" for j
      using t1(3) [of j] that core_fields(1) [of "nat_entries t1 j" "nat_entries t j"]
        P [of "nat_entries t1 j" "nat_entries t j"] by auto
    have ni: "i \<notin> set is" using Cons.prems(2) by simp
    have E: "?S t1 is = ?S t is" by (rule Collect_cong) (metis same(1,2) ni)
    have S: "?S t (i # is) = insert i (?S t1 is)" "i \<notin> ?S t1 is"
      unfolding E using True ni by auto
    have c: "card (?S t (i # is)) = Suc (card (?S t1 is))"
      unfolding S(1) using S(2) by simp
    obtain t' where t': "release_all P f (bump f t1) is = Some t'" "nat_wf t'"
      "\<forall>j. session_core (nat_entries t' j) =
         session_core (if j \<in> set is \<and> ns_used (nat_entries t1 j) \<and> P (nat_entries t1 j)
                       then session_zero else nat_entries t1 j)"
      "nat_st t' = (f ^^ card (?S t1 is)) (f (nat_st t1))"
      using Cons.IH [of "bump f t1"] Cons.prems t1(2) by auto
    show ?thesis
    proof (intro exI [of _ t'] conjI allI)
      show "release_all P f t (i # is) = Some t'" using True t1(1) t'(1) by simp
      show "nat_wf t'" by (rule t'(2))
      show "nat_st t' = (f ^^ card (?S t (i # is))) (nat_st t)"
        unfolding c t'(4) t1(4) by (simp add: funpow_swap1)
      show "session_core (nat_entries t' j) =
         session_core (if j \<in> set (i # is) \<and> ns_used (nat_entries t j) \<and> P (nat_entries t j)
                       then session_zero else nat_entries t j)" for j
      proof (cases "j = i")
        case True
        then show ?thesis
          using t'(3) t1(3) [of i] Cons.prems(2) \<open>ns_used (nat_entries t i) \<and> P (nat_entries t i)\<close> by simp
      next
        case False
        then show ?thesis using t'(3) same [OF False] by simp
      qed
    qed
  qed
qed

lemma session_idle_core: "session_core a = session_core b \<Longrightarrow> session_idle now a = session_idle now b"
proof -
  assume c: "session_core a = session_core b"
  have "session_idle now (session_core s) = session_idle now s" for s
    by (simp add: session_idle_def idle_timeout_def session_core_def)
  with c show ?thesis by metis
qed

lemma session_flushed_core: "session_core a = session_core b \<Longrightarrow> session_flushed vr a = session_flushed vr b"
proof -
  assume c: "session_core a = session_core b"
  have "session_flushed vr (session_core s) = session_flushed vr s" for s
    by (simp add: session_flushed_def session_core_def)
  with c show ?thesis by metis
qed

lemma aged_stats:
  "((\<lambda>st. st\<lparr>st_sessions_aged := st_sessions_aged st + 1\<rparr>) ^^ n) st =
   st\<lparr>st_sessions_aged := st_sessions_aged st + of_nat n\<rparr>"
  by (induction n) (simp_all add: algebra_simps)

text \<open>The sessions of the table, links aside, that a sweep with test \<open>P\<close> leaves.\<close>

definition swept :: "(nat_session \<Rightarrow> bool) \<Rightarrow> nat_table \<Rightarrow> nat_table \<Rightarrow> bool" where
  "swept P t t' \<longleftrightarrow>
     (\<forall>j<ROUTER_NAT_MAX_SESSIONS. session_core (nat_entries t' j) =
        session_core (if ns_used (nat_entries t j) \<and> P (nat_entries t j) then session_zero
                      else nat_entries t j))"

definition session_count :: "(nat_session \<Rightarrow> bool) \<Rightarrow> nat_table \<Rightarrow> nat" where
  "session_count P t = card {j. j < ROUTER_NAT_MAX_SESSIONS \<and> ns_used (nat_entries t j) \<and> P (nat_entries t j)}"

lemma release_all_slots:
  assumes P: "\<And>a b. session_core a = session_core b \<Longrightarrow> P a = P b" and wf: "nat_wf t"
  shows "\<exists>t'. release_all P f t [0..<ROUTER_NAT_MAX_SESSIONS] = Some t' \<and> nat_wf t' \<and> swept P t t' \<and>
    nat_st t' = (f ^^ session_count P t) (nat_st t)"
proof -
  have e: "{j \<in> set [0..<ROUTER_NAT_MAX_SESSIONS]. ns_used (nat_entries t j) \<and> P (nat_entries t j)} =
      {j. j < ROUTER_NAT_MAX_SESSIONS \<and> ns_used (nat_entries t j) \<and> P (nat_entries t j)}" by auto
  have s: "set [0..<ROUTER_NAT_MAX_SESSIONS] \<subseteq> {..<ROUTER_NAT_MAX_SESSIONS}" by auto
  have "\<And>a b. session_core a = session_core b \<Longrightarrow> P a = P b" by (rule P)
  from release_all_wf [where P = P and f = f, OF this wf distinct_upt s] obtain t' where
    "release_all P f t [0..<ROUTER_NAT_MAX_SESSIONS] = Some t'" "nat_wf t'"
    "\<forall>j. session_core (nat_entries t' j) =
       session_core (if j \<in> set [0..<ROUTER_NAT_MAX_SESSIONS] \<and> ns_used (nat_entries t j) \<and>
         P (nat_entries t j) then session_zero else nat_entries t j)"
    "nat_st t' = (f ^^ session_count P t) (nat_st t)"
    unfolding e session_count_def by blast
  then show ?thesis by (intro exI [of _ t']) (simp add: swept_def)
qed

lemma nat_age_aux:
  assumes "nat_wf t"
  shows "\<exists>t'. router_nat_age t now = Some t' \<and> nat_wf t' \<and> swept (session_idle now) t t' \<and>
    nat_st t' = (nat_st t)\<lparr>st_sessions_aged :=
      st_sessions_aged (nat_st t) + of_nat (session_count (session_idle now) t)\<rparr>"
  unfolding router_nat_age_def aged_stats [symmetric]
  by (rule release_all_slots [where P = "session_idle now", OF session_idle_core assms])

lemma funpow_same: "((\<lambda>x. x) ^^ n) x = x"
  by (induction n) simp_all

lemma nat_flush_aux:
  assumes "nat_wf t"
  shows "\<exists>t'. router_nat_flush t vr = Some t' \<and> nat_wf t' \<and> swept (session_flushed vr) t t' \<and>
    nat_st t' = nat_st t"
  using release_all_slots [where P = "session_flushed vr" and f = "\<lambda>st. st",
      OF session_flushed_core assms]
  unfolding router_nat_flush_def funpow_same .

section \<open>Runs\<close>

text \<open>Every call the dataplane and the control plane make on a session table.\<close>

datatype nat_event =
    Nat_Outbound "router_nat_policy option" u32 nat_inside bytes u64 nat
  | Nat_Inbound u16 bytes u64 nat
  | Nat_Forward router_config u16 u16 bytes u64 nat
  | Nat_Reject nat
  | Nat_Age u64
  | Nat_Flush u16
  | Nat_Set_Forwards router_config
  | Nat_Set_Hardware nat bool

fun nat_step :: "nat_table \<Rightarrow> nat_event \<Rightarrow> nat_table option" where
  "nat_step t (Nat_Outbound policy ip inside frame now cap) =
     map_option fst (router_nat_outbound t policy ip inside frame now cap)"
| "nat_step t (Nat_Inbound vr frame now cap) = map_option fst (router_nat_inbound t vr frame now cap)"
| "nat_step t (Nat_Forward c vr iface frame now cap) =
     map_option fst (router_nat_port_forward_inbound t c vr iface frame now cap)"
| "nat_step t (Nat_Reject i) = router_nat_port_forward_reject t i"
| "nat_step t (Nat_Age now) = router_nat_age t now"
| "nat_step t (Nat_Flush vr) = router_nat_flush t vr"
| "nat_step t (Nat_Set_Forwards c) = Some (router_nat_set_port_forwards t c)"
| "nat_step t (Nat_Set_Hardware i active) = Some (router_nat_session_set_hardware_active t i active)"

fun nat_run :: "nat_table \<Rightarrow> nat_event list \<Rightarrow> nat_table option" where
  "nat_run t [] = Some t"
| "nat_run t (e # es) = (case nat_step t e of None \<Rightarrow> None | Some t' \<Rightarrow> nat_run t' es)"

lemma nat_step_wf:
  assumes "nat_wf t"
  shows "\<exists>t'. nat_step t e = Some t' \<and> nat_wf t'"
proof (cases e)
  case (Nat_Outbound policy ip inside frame now cap)
  then show ?thesis using outbound_wf [OF assms, of policy ip inside frame now cap] by auto
next
  case (Nat_Inbound vr frame now cap)
  then show ?thesis using inbound_wf [OF assms, of vr frame now cap] by auto
next
  case (Nat_Forward c vr iface frame now cap)
  then show ?thesis using port_forward_wf [OF assms, of c vr iface frame now cap] by auto
next
  case (Nat_Reject i)
  then show ?thesis using reject_wf [OF assms, of i] by auto
next
  case (Nat_Age now)
  then show ?thesis using nat_age_aux [OF assms, of now] by auto
next
  case (Nat_Flush vr)
  then show ?thesis using nat_flush_aux [OF assms, of vr] by auto
qed (use assms hardware_wf in auto)

lemma nat_run_aux: "nat_wf t \<Longrightarrow> \<exists>t'. nat_run t es = Some t' \<and> nat_wf t'"
proof (induction es arbitrary: t)
  case (Cons e es)
  then show ?case using nat_step_wf [OF Cons.prems, of e] by auto
qed simp

section \<open>What translation does\<close>

lemma outbound_match_key:
  "outbound_match vr v s \<longleftrightarrow> outbound_key s =
     (vr, v_protocol v, v_source_ip v, v_source_port v, v_destination_ip v, v_destination_port v)"
  by (auto simp: outbound_match_def outbound_key_def)

lemma inbound_match_key:
  "inbound_match vr v s \<longleftrightarrow> inbound_key s =
     (vr, v_protocol v, v_destination_ip v, v_destination_port v, v_source_ip v, v_source_port v)"
  by (auto simp: inbound_match_def inbound_key_def)

definition policy_vr :: "router_nat_policy option \<Rightarrow> nat_inside \<Rightarrow> u16" where
  "policy_vr policy inside = (case policy of Some p \<Rightarrow> np_vr_id p | None \<Rightarrow> in_vr_id inside)"

text \<open>A live session owning a slot.\<close>

definition live :: "nat_table \<Rightarrow> nat \<Rightarrow> bool" where
  "live t i \<longleftrightarrow> i < ROUTER_NAT_MAX_SESSIONS \<and> ns_used (nat_entries t i)"

text \<open>\<open>t1\<close> extends \<open>t\<close> by one new session in slot \<open>i\<close>, with contents \<open>s\<close>.\<close>

definition gained :: "nat_table \<Rightarrow> nat_table \<Rightarrow> nat \<Rightarrow> nat_session \<Rightarrow> bool" where
  "gained t t1 i s \<longleftrightarrow> i < ROUTER_NAT_MAX_SESSIONS \<and> \<not> ns_used (nat_entries t i) \<and>
     (\<forall>j. session_core (nat_entries t1 j) = session_core (if j = i then s else nat_entries t j)) \<and>
     nat_count t1 = Suc (nat_count t)"

lemma install_gained:
  assumes "free_slot t = Some i"
  shows "gained t (install (t\<lparr>nat_next_port := q\<rparr>) i s) i s" "gained t (install t i s) i s"
  using free_slot_Some [OF assms] by (simp_all add: gained_def install_props)

lemma gained_fields:
  assumes "gained t t1 i s" "ns_used s"
  shows "live t1 i" "outbound_key (nat_entries t1 i) = outbound_key s"
    "inbound_key (nat_entries t1 i) = inbound_key s"
    "ns_port_forward (nat_entries t1 i) = ns_port_forward s"
proof -
  have "session_core (nat_entries t1 i) = session_core s" using assms(1) by (simp add: gained_def)
  note c = core_fields [OF this]
  show "live t1 i" using assms c(1) by (simp add: live_def gained_def)
  show "outbound_key (nat_entries t1 i) = outbound_key s" by (rule c(3))
  show "inbound_key (nat_entries t1 i) = inbound_key s" by (rule c(4))
  show "ns_port_forward (nat_entries t1 i) = ns_port_forward s" by (rule c(5))
qed

lemma outbound_session_cases:
  assumes wf: "nat_wf t" and p: "\<not> policy_bad policy ip inside"
  obtains (found) i where "outbound_session t policy ip v inside now = Some (t, Some i)" "live t i"
      "outbound_match (policy_vr policy inside) v (nat_entries t i)"
    | (missing) "outbound_session t policy ip v inside now = Some (t, None)" "policy = None"
      "\<forall>i. live t i \<longrightarrow> \<not> outbound_match (policy_vr policy inside) v (nat_entries t i)"
    | (full) q where "policy = Some q" "outbound_session t policy ip v inside now = Some (t, None)"
      "\<forall>i. live t i \<longrightarrow> \<not> outbound_match (policy_vr policy inside) v (nat_entries t i)"
      "table_full t \<or> (\<forall>port. np_port_first q \<le> port \<and> port \<le> np_port_last q \<longrightarrow>
         port_taken t (np_vr_id q) (v_protocol v) ip port)"
    | (fresh) q i port t1 where "policy = Some q"
      "outbound_session t policy ip v inside now = Some (t1, Some i)"
      "\<forall>i. live t i \<longrightarrow> \<not> outbound_match (policy_vr policy inside) v (nat_entries t i)"
      "np_port_first q \<le> port" "port \<le> np_port_last q"
      "\<not> port_taken t (np_vr_id q) (v_protocol v) ip port"
      "gained t t1 i (nat_session_of q ip v inside now port)" "nat_wf t1"
proof -
  have vr: "(case policy of Some p \<Rightarrow> np_vr_id p | None \<Rightarrow> in_vr_id inside) = policy_vr policy inside"
    by (simp add: policy_vr_def)
  obtain s where s: "find_outbound t (policy_vr policy inside) v = Some s"
    "live_match t (outbound_match (policy_vr policy inside) v) s"
    using find_outbound_live [OF wf] by blast
  show thesis
  proof (cases s)
    case (Some i)
    then have "outbound_session t policy ip v inside now = Some (t, Some i)"
      by (simp add: outbound_session_def vr s)
    then show thesis using s(2) Some by (intro found [of i]) (simp_all add: live_match_def live_def)
  next
    case None
    have none: "\<forall>i. live t i \<longrightarrow> \<not> outbound_match (policy_vr policy inside) v (nat_entries t i)"
      using s(2) None by (simp add: live_match_def live_def)
    show thesis
    proof (cases policy)
      case pn: None
      have "outbound_session t policy ip v inside now = Some (t, None)"
        unfolding outbound_session_def vr s(1) None using pn by simp
      then show thesis using none pn by (intro missing) simp_all
    next
      case q: (Some q)
      have o: "outbound_session t policy ip v inside now = allocate_session t q ip v inside now"
        unfolding outbound_session_def vr s(1) None using q by simp
      have fo: "find_outbound t (np_vr_id q) v = Some None" using s(1) None q by (simp add: policy_vr_def)
      from allocate_unfold [OF wf policy_ok_range [OF p [unfolded q]], of ip v inside now]
      show thesis
      proof cases
        case 1
        then show thesis using none q o by (intro full [of q]) simp_all
      next
        case (2 i port)
        show thesis
          by (rule fresh [OF q o [unfolded 2(5)] none 2(2,3,4) install_gained(1) [OF 2(1)]
                install_nat_session_wf [OF wf fo 2(1,4)]])
      qed
    qed
  qed
qed

lemma translate_outbound_parses:
  assumes "packet_parse frame cap PACKET_OUTBOUND = Inr v"
    and "translate_outbound t i v inside frame now = (t', r, Some (j, q))"
  shows "r = ROUTER_NAT_TRANSLATED \<and> j = i \<and> length q = length frame \<and>
    packet_parse q cap PACKET_OUTBOUND = Inr (rewritten_view v PACKET_OUTBOUND
      (ns_public_ip (nat_entries t i)) (ns_public_port (nat_entries t i)))"
  using assms(2) nat_rewrite_reparses [OF assms(1)] by (auto simp: translate_outbound_def Let_def)

lemma translate_inbound_parses:
  assumes "packet_parse frame cap PACKET_INBOUND = Inr v"
    and "translate_inbound f t i v frame now = (t', r, Some (j, q))"
  shows "r = ROUTER_NAT_TRANSLATED \<and> j = i \<and> length q = length frame \<and>
    packet_parse q cap PACKET_INBOUND = Inr (rewritten_view v PACKET_INBOUND
      (ns_inside_ip (nat_entries t i)) (ns_inside_port (nat_entries t i)))"
  using assms(2) nat_rewrite_reparses [OF assms(1)] by (auto simp: translate_inbound_def Let_def)

lemma outbound_run:
  assumes "\<not> policy_bad policy ip inside" "packet_parse frame cap PACKET_OUTBOUND = Inr v"
    "outbound_session t policy ip v inside now = Some (t1, s)"
  shows "router_nat_outbound t policy ip inside frame now cap = Some
    (case s of
       None \<Rightarrow> if policy = None then (t1, ROUTER_NAT_NOT_APPLICABLE, None)
         else (bump (\<lambda>st. st\<lparr>st_port_allocation_failures := st_port_allocation_failures st + 1\<rparr>) t1,
               ROUTER_NAT_FULL, None)
     | Some i \<Rightarrow> if policy = None \<and> \<not> ns_port_forward (nat_entries t1 i)
         then (t1, ROUTER_NAT_NOT_APPLICABLE, None)
         else translate_outbound t1 i v inside frame now)"
  using assms by (cases policy; cases s) (simp_all add: router_nat_outbound_def)

lemma outbound_match_fields:
  assumes "outbound_match vr v s"
  shows "ns_vr_id s = vr" "ns_protocol s = v_protocol v" "ns_inside_ip s = v_source_ip v"
    "ns_inside_port s = v_source_port v" "ns_remote_ip s = v_destination_ip v"
    "ns_remote_port s = v_destination_port v"
  using assms by (simp_all add: outbound_match_def)

text \<open>A translated outbound packet: whose session it is and what it now carries.\<close>

lemma outbound_translated_aux:
  assumes wf: "nat_wf t"
    and run: "router_nat_outbound t policy ip inside frame now cap =
      Some (t', ROUTER_NAT_TRANSLATED, Some (i, q))"
  shows "\<exists>v. packet_parse frame cap PACKET_OUTBOUND = Inr v \<and> live t' i \<and>
    outbound_match (policy_vr policy inside) v (nat_entries t' i) \<and>
    ns_inside (nat_entries t' i) = inside \<and> ns_last_seen_ns (nat_entries t' i) = now \<and>
    length q = length frame \<and>
    packet_parse q cap PACKET_OUTBOUND = Inr (rewritten_view v PACKET_OUTBOUND
      (ns_public_ip (nat_entries t' i)) (ns_public_port (nat_entries t' i)))"
proof -
  have p: "\<not> policy_bad policy ip inside" using run by (auto simp: router_nat_outbound_def)
  obtain v where v: "packet_parse frame cap PACKET_OUTBOUND = Inr v"
    using run p by (cases "packet_parse frame cap PACKET_OUTBOUND") (auto simp: router_nat_outbound_def)
  note red = outbound_run [OF p v]
  have main: ?thesis
    if tr: "translate_outbound t1 i v inside frame now = (t', ROUTER_NAT_TRANSLATED, Some (i, q))"
      and l: "live t1 i" and m: "outbound_match (policy_vr policy inside) v (nat_entries t1 i)" for t1
  proof -
    have e: "nat_entries t' i = outbound_seen inside now (nat_entries t1 i)"
      using tr by (auto simp: translate_outbound_def Let_def touch_fields)
    have "live t' i" "outbound_match (policy_vr policy inside) v (nat_entries t' i)"
      "ns_inside (nat_entries t' i) = inside" "ns_last_seen_ns (nat_entries t' i) = now"
      "ns_public_ip (nat_entries t' i) = ns_public_ip (nat_entries t1 i)"
      "ns_public_port (nat_entries t' i) = ns_public_port (nat_entries t1 i)"
      using l m unfolding e by (simp_all add: live_def e outbound_seen_def outbound_match_def)
    with v translate_outbound_parses [OF v tr] show ?thesis by auto
  qed
  show ?thesis
    using wf p
  proof (cases rule: outbound_session_cases [of t policy ip inside v now])
    case (found j)
    from run [unfolded red [OF found(1)]]
    have "translate_outbound t j v inside frame now = (t', ROUTER_NAT_TRANSLATED, Some (i, q))"
      by (simp split: if_splits)
    moreover from this have "j = i" by (simp add: translate_outbound_def Let_def)
    ultimately show ?thesis using main found by blast
  next
    case missing
    from run [unfolded red [OF missing(1)]] show ?thesis by (simp split: if_splits)
  next
    case full
    from run [unfolded red [OF full(2)]] show ?thesis by (simp split: if_splits)
  next
    case (fresh p' j port t1)
    note g = gained_fields [OF fresh(7)]
    from run [unfolded red [OF fresh(2)]]
    have "translate_outbound t1 j v inside frame now = (t', ROUTER_NAT_TRANSLATED, Some (i, q))"
      by (simp split: if_splits)
    moreover from this have "j = i" by (simp add: translate_outbound_def Let_def)
    moreover have "outbound_match (policy_vr policy inside) v (nat_entries t1 j)"
      unfolding outbound_match_key g(2) [OF nat_session_of_fields(1)] using fresh(1) by (simp add: policy_vr_def)
    ultimately show ?thesis using main g(1) by simp
  qed
qed

text \<open>A reply to a live session is found and delivered to its inside host.\<close>

lemma inbound_found:
  assumes wf: "nat_wf t" and l: "live t i" and vr: "vr \<noteq> 0"
    and w: "packet_parse frame cap PACKET_INBOUND = Inr w" and m: "inbound_match vr w (nat_entries t i)"
  shows "router_nat_inbound t vr frame now cap =
    Some (translate_inbound (inbound_stats (v_protocol w)) t i w frame now)"
proof -
  obtain s where s: "find_inbound t vr w = Some s" "live_match t (inbound_match vr w) s"
    using find_inbound_live [OF wf] by blast
  have "s = Some i"
  proof (cases s)
    case None
    then show ?thesis using s(2) l m by (simp add: live_match_def live_def)
  next
    case (Some j)
    then have "j < ROUTER_NAT_MAX_SESSIONS" "ns_used (nat_entries t j)"
      "inbound_key (nat_entries t j) = inbound_key (nat_entries t i)"
      using s(2) m by (simp_all add: live_match_def inbound_match_key)
    moreover have "keys_distinct ns_used inbound_key ROUTER_NAT_MAX_SESSIONS (nat_entries t)"
      using wf by (simp add: nat_wf_def)
    ultimately show ?thesis using l Some unfolding keys_distinct_def live_def by blast
  qed
  with vr w s(1) show ?thesis by (simp add: router_nat_inbound_def)
qed

lemma inbound_match_reply:
  assumes "outbound_match vr v s" "v_protocol w = v_protocol v" "v_source_ip w = v_destination_ip v"
    "v_source_port w = v_destination_port v" "v_destination_ip w = ns_public_ip s"
    "v_destination_port w = ns_public_port s"
  shows "inbound_match vr w s"
  using assms by (simp add: outbound_match_def inbound_match_def)

text \<open>Outbound, then the answer: it comes back to the address and port the request left from.\<close>

lemma nat_round_trip_aux:
  assumes wf: "nat_wf t"
    and out: "router_nat_outbound t policy ip inside frame now cap = Some (t1, ROUTER_NAT_TRANSLATED, Some (i, q))"
    and v: "packet_parse frame cap PACKET_OUTBOUND = Inr v"
    and x: "packet_parse q cap PACKET_OUTBOUND = Inr x"
    and w: "packet_parse reply cap PACKET_INBOUND = Inr w"
    and ans: "v_protocol w = v_protocol x" "v_source_ip w = v_destination_ip x"
      "v_source_port w = v_destination_port x" "v_destination_ip w = v_source_ip x"
      "v_destination_port w = v_source_port x"
  shows "\<exists>t2 r y. router_nat_inbound t1 (policy_vr policy inside) reply later cap =
      Some (t2, ROUTER_NAT_TRANSLATED, Some (i, r)) \<and>
    packet_parse r cap PACKET_INBOUND = Inr y \<and> v_protocol y = v_protocol v \<and>
    v_destination_ip y = v_source_ip v \<and> v_destination_port y = v_source_port v \<and>
    v_source_ip y = v_destination_ip v \<and> v_source_port y = v_destination_port v \<and>
    ns_inside (nat_entries t2 i) = inside"
proof -
  have p: "\<not> policy_bad policy ip inside" using out by (auto simp: router_nat_outbound_def)
  then have vr: "policy_vr policy inside \<noteq> 0"
    by (cases policy) (auto simp: policy_bad_def policy_vr_def)
  have wf1: "nat_wf t1" using outbound_wf [OF wf, of policy ip inside frame now cap] out by auto
  let ?s = "nat_entries t1 i"
  from outbound_translated_aux [OF wf out] v x
  have l: "live t1 i" and m: "outbound_match (policy_vr policy inside) v ?s"
    and ins: "ns_inside ?s = inside"
    and x': "x = rewritten_view v PACKET_OUTBOUND (ns_public_ip ?s) (ns_public_port ?s)" by auto
  have mi: "inbound_match (policy_vr policy inside) w ?s"
    by (rule inbound_match_reply [OF m]) (simp_all add: ans x' rewritten_view_def)
  note run = inbound_found [OF wf1 l vr w mi, of later]
  note f = outbound_match_fields [OF m]
  obtain t2 r where tr: "translate_inbound (inbound_stats (v_protocol w)) t1 i w reply later =
      (t2, ROUTER_NAT_TRANSLATED, Some (i, r))"
    by (simp add: translate_inbound_def Let_def)
  from translate_inbound_parses [OF w tr] have
    y: "packet_parse r cap PACKET_INBOUND = Inr (rewritten_view w PACKET_INBOUND (ns_inside_ip ?s) (ns_inside_port ?s))"
    by simp
  have "ns_inside (nat_entries t2 i) = inside"
    using tr ins by (auto simp: translate_inbound_def Let_def touch_fields reply_seen_def)
  with run tr y f show ?thesis
    by (intro exI [of _ t2] exI [of _ r] exI) (auto simp: rewritten_view_def ans x')
qed

text \<open>The outcome for a flow without a session, under a NAT policy.\<close>

lemma nat_fresh_aux:
  assumes wf: "nat_wf t" and p: "\<not> policy_bad (Some p) ip inside"
    and v: "packet_parse frame cap PACKET_OUTBOUND = Inr v"
    and none: "\<forall>i. live t i \<longrightarrow> \<not> outbound_match (np_vr_id p) v (nat_entries t i)"
  shows "(\<exists>t'. router_nat_outbound t (Some p) ip inside frame now cap = Some (t', ROUTER_NAT_FULL, None) \<and>
      nat_entries t' = nat_entries t \<and> nat_count t' = nat_count t \<and>
      (table_full t \<or> (\<forall>port. np_port_first p \<le> port \<and> port \<le> np_port_last p \<longrightarrow>
         port_taken t (np_vr_id p) (v_protocol v) ip port))) \<or>
    (\<exists>t' i q. router_nat_outbound t (Some p) ip inside frame now cap =
        Some (t', ROUTER_NAT_TRANSLATED, Some (i, q)) \<and>
      \<not> ns_used (nat_entries t i) \<and> nat_count t' = Suc (nat_count t) \<and>
      ns_public_ip (nat_entries t' i) = ip \<and>
      np_port_first p \<le> ns_public_port (nat_entries t' i) \<and>
      ns_public_port (nat_entries t' i) \<le> np_port_last p \<and>
      \<not> port_taken t (np_vr_id p) (v_protocol v) ip (ns_public_port (nat_entries t' i)))"
proof (cases rule: outbound_session_cases [OF wf p, of v now])
  case (1 i)
  then show ?thesis using none by (auto simp: policy_vr_def)
next
  case 2
  then show ?thesis by simp
next
  case (3 q)
  then have "q = p" by simp
  with 3(4) outbound_run [OF p v 3(2)] show ?thesis by (intro disjI1) simp
next
  case (4 q i port t1)
  have q: "q = p" using 4(1) by simp
  let ?s = "nat_session_of p ip v inside now port"
  have "session_core (nat_entries t1 i) = session_core ?s" using 4(7) q by (simp add: gained_def)
  then have pub: "ns_public_ip (nat_entries t1 i) = ip" "ns_public_port (nat_entries t1 i) = port"
    by (auto simp: session_core_def nat_session_of_def session_zero_def)
      (metis nat_session.select_convs(11,12) nat_session.surjective nat_session.update_convs(1) nat_session.ext_inject)+
  obtain t' fr where tr: "translate_outbound t1 i v inside frame now =
      (t', ROUTER_NAT_TRANSLATED, Some (i, fr))"
    by (simp add: translate_outbound_def Let_def)
  then have e: "nat_entries t' i = outbound_seen inside now (nat_entries t1 i)" "nat_count t' = nat_count t1"
    by (auto simp: translate_outbound_def Let_def touch_fields)
  show ?thesis
    using outbound_run [OF p v 4(2)] tr 4(4-7) pub e q
    by (intro disjI2 exI [of _ t'] exI [of _ i] exI [of _ fr]) (simp add: outbound_seen_def gained_def)
qed

section \<open>What port forwarding does\<close>

text \<open>The private port of a packet inside the rule's public range stays inside its private range.\<close>

lemma private_port_value:
  assumes "pf_public_port r \<le> v_destination_port v" "v_destination_port v \<le> pf_public_port_last r"
    "pf_public_port_last r - pf_public_port r = pf_private_port_last r - pf_private_port r"
    "pf_private_port r \<le> pf_private_port_last r"
  shows "unat (private_port r v) =
      unat (pf_private_port r) + (unat (v_destination_port v) - unat (pf_public_port r))"
    "private_port r v \<le> pf_private_port_last r" "pf_private_port r \<le> private_port r v"
proof -
  let ?a = "pf_public_port r" and ?d = "v_destination_port v" and ?b = "pf_public_port_last r"
    and ?x = "pf_private_port r" and ?y = "pf_private_port_last r"
  have n: "unat ?a \<le> unat ?d" "unat ?d \<le> unat ?b" "unat ?x \<le> unat ?y" "unat ?a \<le> unat ?b"
    using assms(1,2,4) by (auto simp: word_le_nat_alt)
  have s: "unat (?d - ?a) = unat ?d - unat ?a" "unat (?b - ?a) = unat ?b - unat ?a"
    "unat (?y - ?x) = unat ?y - unat ?x"
    using assms(1,2,4) by (auto intro!: unat_sub)
  have e: "unat ?b - unat ?a = unat ?y - unat ?x" using assms(3) s(2,3) by simp
  have "unat ?x + (unat ?d - unat ?a) < 2 ^ LENGTH(16)"
    using n e unat_u16_le [of ?y] by simp
  then show v: "unat (private_port r v) = unat ?x + (unat ?d - unat ?a)"
    unfolding private_port_def by (subst unat_add_lem [THEN iffD1]) (simp_all add: s)
  show "private_port r v \<le> ?y" "?x \<le> private_port r v"
    unfolding word_le_nat_alt v using n e by linarith+
qed

lemma port_forward_run:
  assumes "vr \<noteq> 0" "iface \<noteq> 0" "packet_parse frame cap PACKET_INBOUND = Inr v"
    "v_protocol v = 6 \<or> v_protocol v = 17" "forward_rule c vr iface v = Some r"
    "find_inbound t vr v = Some s" "find_outbound t vr (return_view r v) = Some k"
  shows "router_nat_port_forward_inbound t c vr iface frame now cap = Some
    (case s of
       Some i \<Rightarrow> if \<not> ns_port_forward (nat_entries t i) then (t, ROUTER_NAT_NOT_APPLICABLE, None)
         else translate_inbound forward_stats t i v frame now
     | None \<Rightarrow> if k \<noteq> None then (forward_full t, ROUTER_NAT_FULL, None)
         else (case free_slot t of
             None \<Rightarrow> (forward_full t, ROUTER_NAT_FULL, None)
           | Some i \<Rightarrow> translate_inbound forward_stats
               (forward_created (install t i (forward_session r vr iface v now))) i v frame now))"
  using assms by (cases s; cases "free_slot t") (auto simp: router_nat_port_forward_inbound_def)

text \<open>A new inbound connection to a forwarded port, without a session in either direction.\<close>

lemma port_forward_fresh_aux:
  assumes wf: "nat_wf t" and z: "vr \<noteq> 0" "iface \<noteq> 0"
    and v: "packet_parse frame cap PACKET_INBOUND = Inr v" "v_protocol v = 6 \<or> v_protocol v = 17"
    and r: "forward_rule c vr iface v = Some r"
    and none: "\<forall>i. live t i \<longrightarrow> \<not> inbound_match vr v (nat_entries t i)"
  shows "(\<exists>t'. router_nat_port_forward_inbound t c vr iface frame now cap = Some (t', ROUTER_NAT_FULL, None) \<and>
      nat_entries t' = nat_entries t \<and> nat_count t' = nat_count t \<and>
      (table_full t \<or> (\<exists>i. live t i \<and> outbound_match vr (return_view r v) (nat_entries t i)))) \<or>
    (\<exists>t' i q. router_nat_port_forward_inbound t c vr iface frame now cap =
        Some (t', ROUTER_NAT_TRANSLATED, Some (i, q)) \<and>
      live t' i \<and> \<not> live t i \<and> ns_port_forward (nat_entries t' i) \<and>
      outbound_match vr (return_view r v) (nat_entries t' i) \<and>
      length q = length frame \<and> packet_parse q cap PACKET_INBOUND =
        Inr (rewritten_view v PACKET_INBOUND (pf_private_ip r) (private_port r v)))"
proof -
  obtain s where s: "find_inbound t vr v = Some s" "live_match t (inbound_match vr v) s"
    using find_inbound_live [OF wf] by blast
  have sN: "s = None" using s(2) none by (cases s) (auto simp: live_match_def live_def)
  obtain k where k: "find_outbound t vr (return_view r v) = Some k"
    "live_match t (outbound_match vr (return_view r v)) k"
    using find_outbound_live [OF wf] by blast
  note run = port_forward_run [OF z v r s(1) k(1), unfolded sN, simplified]
  show ?thesis
  proof (cases "k = None \<and> free_slot t \<noteq> None")
    case False
    have "table_full t \<or> (\<exists>i. live t i \<and> outbound_match vr (return_view r v) (nat_entries t i))"
      using False k(2) free_slot_None [OF wf] by (cases k) (auto simp: live_match_def live_def)
    then show ?thesis
      using False by (intro disjI1 exI [of _ "forward_full t"]) (auto simp: run forward_full_def)
  next
    case True
    then obtain i where i: "free_slot t = Some i" "k = None" by auto
    let ?n = "forward_session r vr iface v now"
    let ?t1 = "forward_created (install t i ?n)"
    have g: "gained t ?t1 i ?n" using install_gained(2) [OF i(1), of ?n]
      by (simp add: gained_def forward_created_def)
    note gf = gained_fields [OF g forward_session_fields(1)]
    have m: "outbound_match vr (return_view r v) (nat_entries ?t1 i)"
      unfolding outbound_match_key gf(2) by (simp add: return_view_def)
    obtain t' q where tr: "translate_inbound forward_stats ?t1 i v frame now =
        (t', ROUTER_NAT_TRANSLATED, Some (i, q))" by (simp add: translate_inbound_def Let_def)
    then have e: "nat_entries t' i = reply_seen now (nat_entries ?t1 i)"
      by (auto simp: translate_inbound_def Let_def touch_fields)
    have "live t' i" "ns_port_forward (nat_entries t' i)"
      "outbound_match vr (return_view r v) (nat_entries t' i)"
      using gf(1,4) m by (simp_all add: live_def e reply_seen_def outbound_match_def)
    moreover have "\<not> live t i" using g by (simp add: gained_def live_def)
    moreover have "router_nat_port_forward_inbound t c vr iface frame now cap =
        Some (t', ROUTER_NAT_TRANSLATED, Some (i, q))" using run i tr by simp
    moreover have "ns_inside_ip (nat_entries ?t1 i) = pf_private_ip r"
      "ns_inside_port (nat_entries ?t1 i) = private_port r v"
      using outbound_match_fields(3,4) [OF m] by (simp_all add: return_view_def)
    ultimately show ?thesis
      using translate_inbound_parses [OF v(1) tr]
      by (intro disjI2 exI [of _ t'] exI [of _ i] exI [of _ q]) simp
  qed
qed

lemma forward_reply_aux:
  assumes wf: "nat_wf t"
  shows "router_nat_is_port_forward_reply t ingress p =
    Some (forward_reply_frame ingress p \<and>
      (\<exists>i. live t i \<and> ns_port_forward (nat_entries t i) \<and>
         outbound_match (rif_vr_id ingress) (view_of p PACKET_OUTBOUND) (nat_entries t i)))"
proof (cases "forward_reply_frame ingress p")
  case False
  then show ?thesis by (simp add: router_nat_is_port_forward_reply_def)
next
  case True
  let ?v = "view_of p PACKET_OUTBOUND" and ?vr = "rif_vr_id ingress"
  obtain r where r: "walk t 0 (tuple_bucket ?vr (v_protocol ?v) (v_source_ip ?v) (v_source_port ?v)
       (v_destination_ip ?v) (v_destination_port ?v)) (\<lambda>s. ns_port_forward s \<and> outbound_match ?vr ?v s) = Some r"
    "live_match t (\<lambda>s. ns_port_forward s \<and> outbound_match ?vr ?v s) r"
    using walk_live [OF wf, of 0 "\<lambda>s. ns_port_forward s \<and> outbound_match ?vr ?v s"]
    by (auto simp: outbound_match_def session_bucket_def)
  have "(r \<noteq> None) = (\<exists>i. live t i \<and> ns_port_forward (nat_entries t i) \<and>
      outbound_match ?vr ?v (nat_entries t i))"
    using r(2) by (cases r) (auto simp: live_match_def live_def)
  then show ?thesis
    unfolding router_nat_is_port_forward_reply_def Let_def r(1) using True by simp
qed

end
