(* ===== verification/Nat_Properties.thy ===== *)
theory Nat_Properties
  imports Router_Nat
begin

text \<open>
  The properties of the session table of \<^verbatim>\<open>router/router_nat.c\<close>, each with a run of the sample
  configuration that exercises it.
\<close>

section \<open>A run\<close>

definition out_view :: packet_view where
  "out_view = \<lparr>v_l4 = 34, v_ip_header_length = 20, v_l4_length = 8, v_frame_length = 42,
     v_protocol = 17, v_source_ip = 0x0A000007, v_destination_ip = 0xC6336409,
     v_source_port = 5353, v_destination_port = 53\<rparr>"

definition reply_view :: packet_view where
  "reply_view = \<lparr>v_l4 = 34, v_ip_header_length = 20, v_l4_length = 8, v_frame_length = 42,
     v_protocol = 17, v_source_ip = 0xC6336409, v_destination_ip = 0xC0000202,
     v_source_port = 53, v_destination_port = 40000\<rparr>"

definition forward_view :: packet_view where
  "forward_view = \<lparr>v_l4 = 34, v_ip_header_length = 20, v_l4_length = 8, v_frame_length = 42,
     v_protocol = 17, v_source_ip = 0xC6336409, v_destination_ip = 0xC0000202,
     v_source_port = 7000, v_destination_port = 8080\<rparr>"

lemma sample_views:
  "packet_parse udp_out 64 PACKET_OUTBOUND = Inr out_view"
  "packet_parse udp_in 64 PACKET_INBOUND = Inr reply_view"
  "packet_parse forward_in 64 PACKET_INBOUND = Inr forward_view"
  by code_simp+

lemma init_not_live [simp]: "\<not> live router_nat_init i"
  by (simp add: live_def router_nat_init_def session_zero_def)

lemma init_not_taken: "\<not> port_taken router_nat_init vr protocol ip port"
  by (simp add: port_taken_def port_reserved_def router_nat_init_def session_zero_def)

lemma sample_policy_ok: "\<not> policy_bad (Some sample_nat) 0xC0000202 inside"
  by (simp add: policy_bad_def sample_nat_def)

lemma sample_outbound:
  "\<exists>t i q. router_nat_outbound router_nat_init (Some sample_nat) 0xC0000202 inside udp_out now 64 =
      Some (t, ROUTER_NAT_TRANSLATED, Some (i, q)) \<and>
    ns_public_ip (nat_entries t i) = 0xC0000202 \<and> ns_public_port (nat_entries t i) = 40000 \<and>
    packet_parse q 64 PACKET_OUTBOUND = Inr (rewritten_view out_view PACKET_OUTBOUND 0xC0000202 40000)"
proof -
  have "\<not> table_full router_nat_init"
    by (simp add: table_full_def router_nat_init_def ROUTER_NAT_MAX_SESSIONS_def)
  then obtain t i q where r: "router_nat_outbound router_nat_init (Some sample_nat) 0xC0000202 inside
      udp_out now 64 = Some (t, ROUTER_NAT_TRANSLATED, Some (i, q))"
    "ns_public_ip (nat_entries t i) = 0xC0000202"
    "np_port_first sample_nat \<le> ns_public_port (nat_entries t i)"
    "ns_public_port (nat_entries t i) \<le> np_port_last sample_nat"
    using nat_fresh_aux [OF nat_wf_init sample_policy_ok sample_views(1), of inside now]
      init_not_taken order_refl [of "np_port_first sample_nat"] by (auto simp: sample_nat_def)
  then have "ns_public_port (nat_entries t i) = 40000" by (simp add: sample_nat_def)
  with r outbound_translated_aux [OF nat_wf_init r(1)] sample_views(1) show ?thesis by auto
qed

section \<open>Properties\<close>

text \<open>C5: Every sequence of translations, rejections, agings, flushes and configuration changes on a fresh
  session table terminates, index walks included, and leaves the table well formed: the counter
  equals the number of live sessions, no two live sessions share an inside or a public tuple, and
  each live session is in exactly the index chains it hashes to, which are acyclic.\<close>

theorem nat_run_total: "\<exists>t. nat_run router_nat_init events = Some t \<and> nat_wf t"
  by (rule nat_run_aux [OF nat_wf_init])

text \<open>C7: The answer to a translated packet, addressed to where the packet came from after translation, is
  translated back to the inside address and port of the original packet, in the same session.\<close>

theorem nat_round_trip:
  assumes "nat_wf t"
    and "router_nat_outbound t policy ip inside frame now cap =
      Some (t1, ROUTER_NAT_TRANSLATED, Some (i, q))"
    and "packet_parse frame cap PACKET_OUTBOUND = Inr v" "packet_parse q cap PACKET_OUTBOUND = Inr x"
    and "packet_parse reply cap PACKET_INBOUND = Inr w"
    and "v_protocol w = v_protocol x" "v_source_ip w = v_destination_ip x"
      "v_source_port w = v_destination_port x" "v_destination_ip w = v_source_ip x"
      "v_destination_port w = v_source_port x"
  shows "\<exists>t2 r y. router_nat_inbound t1 (policy_vr policy inside) reply later cap =
      Some (t2, ROUTER_NAT_TRANSLATED, Some (i, r)) \<and>
    packet_parse r cap PACKET_INBOUND = Inr y \<and> v_protocol y = v_protocol v \<and>
    v_destination_ip y = v_source_ip v \<and> v_destination_port y = v_source_port v \<and>
    v_source_ip y = v_destination_ip v \<and> v_source_port y = v_destination_port v \<and>
    ns_inside (nat_entries t2 i) = inside"
  by (rule nat_round_trip_aux [OF assms])

theorem nat_round_trip_witness:
  "\<exists>t1 q i t2 r y. router_nat_outbound router_nat_init (Some sample_nat) 0xC0000202 inside_zero udp_out 1 64 =
      Some (t1, ROUTER_NAT_TRANSLATED, Some (i, q)) \<and>
    router_nat_inbound t1 1 udp_in 2 64 = Some (t2, ROUTER_NAT_TRANSLATED, Some (i, r)) \<and>
    packet_parse r 64 PACKET_INBOUND = Inr y \<and>
    v_destination_ip y = 0x0A000007 \<and> v_destination_port y = 5353"
proof -
  obtain t1 i q where o: "router_nat_outbound router_nat_init (Some sample_nat) 0xC0000202 inside_zero
      udp_out 1 64 = Some (t1, ROUTER_NAT_TRANSLATED, Some (i, q))"
    "packet_parse q 64 PACKET_OUTBOUND = Inr (rewritten_view out_view PACKET_OUTBOUND 0xC0000202 40000)"
    using sample_outbound by blast
  have "policy_vr (Some sample_nat) inside_zero = 1" by (simp add: policy_vr_def sample_nat_def)
  with nat_round_trip [OF nat_wf_init o(1) sample_views(1) o(2) sample_views(2), of 2] o(1)
  show ?thesis by (simp add: rewritten_view_def out_view_def reply_view_def) blast
qed



text \<open>C11: Whenever an outbound packet is translated, with an old session or a new one, the session is live,
  belongs to the packet's flow and records the sender and the time, and the frame left in the buffer
  has the same length and parses, checksums included, as the same packet with the session's
  public address and port for its source.\<close>

theorem nat_outbound_translated:
  assumes "nat_wf t"
    and "router_nat_outbound t policy ip inside frame now cap =
      Some (t', ROUTER_NAT_TRANSLATED, Some (i, q))"
  shows "\<exists>v. packet_parse frame cap PACKET_OUTBOUND = Inr v \<and> live t' i \<and>
    outbound_match (policy_vr policy inside) v (nat_entries t' i) \<and>
    ns_inside (nat_entries t' i) = inside \<and> ns_last_seen_ns (nat_entries t' i) = now \<and>
    length q = length frame \<and>
    packet_parse q cap PACKET_OUTBOUND = Inr (rewritten_view v PACKET_OUTBOUND
      (ns_public_ip (nat_entries t' i)) (ns_public_port (nat_entries t' i)))"
  by (rule outbound_translated_aux [OF assms])

theorem nat_outbound_translated_witness:
  "\<exists>t' i q. router_nat_outbound router_nat_init (Some sample_nat) 0xC0000202 inside_zero udp_out 1 64 =
     Some (t', ROUTER_NAT_TRANSLATED, Some (i, q)) \<and> live t' i \<and> length q = 42"
proof -
  obtain t' i q where o: "router_nat_outbound router_nat_init (Some sample_nat) 0xC0000202 inside_zero
      udp_out 1 64 = Some (t', ROUTER_NAT_TRANSLATED, Some (i, q))"
    using sample_outbound by blast
  have "length udp_out = 42" by (simp add: udp_out_def)
  with nat_outbound_translated [OF nat_wf_init o] o show ?thesis by auto
qed


lemma sample_forward_rule: "forward_rule sample_config 1 2 forward_view = Some sample_forward"
  by (simp add: forward_rule_def sample_config_def sample_forward_def forward_view_def)

lemma forward_view_udp: "v_protocol forward_view = 6 \<or> v_protocol forward_view = 17"
  by (simp add: forward_view_def)


text \<open>A frame is recognised as a port-forward reply exactly when it has the form of a return packet of the
  interface's network and some live port-forward session has its tuple.\<close>

lemma port_forward_reply_exact:
  assumes "nat_wf t"
  shows "router_nat_is_port_forward_reply t ingress p =
    Some (forward_reply_frame ingress p \<and>
      (\<exists>i. live t i \<and> ns_port_forward (nat_entries t i) \<and>
         outbound_match (rif_vr_id ingress) (view_of p PACKET_OUTBOUND) (nat_entries t i)))"
  by (rule forward_reply_aux [OF assms])



end
