(* ===== verification/Vlan.thy ===== *)
theory Vlan
  imports Prelude
begin

text \<open>
  The VLAN allow-lists of \<^verbatim>\<open>eswitch_vlan.h\<close>: one primary and one optional extra inclusive range
  of VLAN ids, with a last id of zero meaning a single id.  The spec is the set of ids an
  allow-list denotes; size, enumeration and overlap are proved against it.
\<close>

section \<open>Definitions\<close>

datatype eswitch_port_mode = ESWITCH_PORT_MODE_ACCESS | ESWITCH_PORT_MODE_TRUNK

definition ESWITCH_VLAN_MIN :: u16 where "ESWITCH_VLAN_MIN = 1"
definition ESWITCH_VLAN_MAX :: u16 where "ESWITCH_VLAN_MAX = 4094"

lemmas vlan_consts = ESWITCH_VLAN_MIN_def ESWITCH_VLAN_MAX_def

definition eswitch_vlan_valid :: "u16 \<Rightarrow> bool" where
  "eswitch_vlan_valid v \<longleftrightarrow> ESWITCH_VLAN_MIN \<le> v \<and> v \<le> ESWITCH_VLAN_MAX"

definition eswitch_vlan_range_last :: "u16 \<Rightarrow> u16 \<Rightarrow> u16" where
  "eswitch_vlan_range_last first lst = (if lst = 0 then first else lst)"

definition eswitch_vlan_range_valid :: "u16 \<Rightarrow> u16 \<Rightarrow> bool" where
  "eswitch_vlan_range_valid first lst \<longleftrightarrow>
     (let l = eswitch_vlan_range_last first lst in
      eswitch_vlan_valid first \<and> eswitch_vlan_valid l \<and> first \<le> l)"

definition eswitch_vlan_is_range :: "u16 \<Rightarrow> u16 \<Rightarrow> bool" where
  "eswitch_vlan_is_range first lst \<longleftrightarrow> first < eswitch_vlan_range_last first lst"

definition eswitch_vlan_range_size :: "u16 \<Rightarrow> u16 \<Rightarrow> u16" where
  "eswitch_vlan_range_size first lst =
     (if eswitch_vlan_range_valid first lst then eswitch_vlan_range_last first lst - first + 1 else 0)"

definition eswitch_vlan_ranges_overlap :: "u16 \<Rightarrow> u16 \<Rightarrow> u16 \<Rightarrow> u16 \<Rightarrow> bool" where
  "eswitch_vlan_ranges_overlap a b c d \<longleftrightarrow>
     a \<le> eswitch_vlan_range_last c d \<and> c \<le> eswitch_vlan_range_last a b"

definition eswitch_vlan_extra_present :: "u16 \<Rightarrow> u16 \<Rightarrow> bool" where
  "eswitch_vlan_extra_present first lst \<longleftrightarrow> first \<noteq> 0 \<or> lst \<noteq> 0"

definition eswitch_vlan_allowlist_valid :: "u16 \<Rightarrow> u16 \<Rightarrow> u16 \<Rightarrow> u16 \<Rightarrow> bool" where
  "eswitch_vlan_allowlist_valid first lst ef el =
     (if \<not> eswitch_vlan_range_valid first lst then False
      else if \<not> eswitch_vlan_extra_present ef el then True
      else eswitch_vlan_range_valid ef el \<and> \<not> eswitch_vlan_ranges_overlap first lst ef el)"

definition eswitch_vlan_allowlist_size :: "u16 \<Rightarrow> u16 \<Rightarrow> u16 \<Rightarrow> u16 \<Rightarrow> u16" where
  "eswitch_vlan_allowlist_size first lst ef el =
     (if \<not> eswitch_vlan_allowlist_valid first lst ef el then 0
      else eswitch_vlan_range_size first lst +
        (if eswitch_vlan_extra_present ef el then eswitch_vlan_range_size ef el else 0))"

definition eswitch_vlan_allowlist_at :: "u16 \<Rightarrow> u16 \<Rightarrow> u16 \<Rightarrow> u16 \<Rightarrow> u16 \<Rightarrow> u16" where
  "eswitch_vlan_allowlist_at first lst ef el index =
     (let primary = eswitch_vlan_range_size first lst; rest = index - primary in
      if index < primary then first + index
      else if eswitch_vlan_extra_present ef el \<and> rest < eswitch_vlan_range_size ef el then ef + rest
      else 0)"

definition eswitch_vlan_allowlists_overlap ::
  "u16 \<Rightarrow> u16 \<Rightarrow> u16 \<Rightarrow> u16 \<Rightarrow> u16 \<Rightarrow> u16 \<Rightarrow> u16 \<Rightarrow> u16 \<Rightarrow> bool" where
  "eswitch_vlan_allowlists_overlap lf ll lef lel rf rl ref rel =
     (if eswitch_vlan_ranges_overlap lf ll rf rl then True
      else if eswitch_vlan_extra_present lef lel \<and> eswitch_vlan_ranges_overlap lef lel rf rl then True
      else if eswitch_vlan_extra_present ref rel \<and> eswitch_vlan_ranges_overlap lf ll ref rel then True
      else eswitch_vlan_extra_present lef lel \<and> eswitch_vlan_extra_present ref rel \<and>
           eswitch_vlan_ranges_overlap lef lel ref rel)"

definition eswitch_vlan_is_transparent_trunk ::
  "eswitch_port_mode \<Rightarrow> u16 \<Rightarrow> u16 \<Rightarrow> u16 \<Rightarrow> u16 \<Rightarrow> bool" where
  "eswitch_vlan_is_transparent_trunk mode first lst ef el \<longleftrightarrow>
     mode = ESWITCH_PORT_MODE_TRUNK \<and>
     (eswitch_vlan_is_range first lst \<or> eswitch_vlan_extra_present ef el)"

definition eswitch_vlan_uses_tagged_domain ::
  "eswitch_port_mode \<Rightarrow> u16 \<Rightarrow> u16 \<Rightarrow> u16 \<Rightarrow> u16 \<Rightarrow> bool" where
  "eswitch_vlan_uses_tagged_domain mode first lst ef el \<longleftrightarrow>
     eswitch_vlan_is_transparent_trunk mode first lst ef el \<or>
     (mode = ESWITCH_PORT_MODE_ACCESS \<and> first \<noteq> 0)"

text \<open>
  The check of a member's VLANs, and the number of classifier rules it needs, as
  \<^verbatim>\<open>eswitch_state_add_member\<close> and \<^verbatim>\<open>attach_port\<close> both write them.
\<close>

definition member_vlans_invalid :: "eswitch_port_mode \<Rightarrow> u16 \<Rightarrow> u16 \<Rightarrow> u16 \<Rightarrow> u16 \<Rightarrow> bool" where
  "member_vlans_invalid mode v l ev el \<longleftrightarrow>
     mode = ESWITCH_PORT_MODE_TRUNK \<and> \<not> eswitch_vlan_allowlist_valid v l ev el \<or>
     mode = ESWITCH_PORT_MODE_ACCESS \<and>
       ((v = 0) \<noteq> (l = 0) \<or> v \<noteq> l \<or> v \<noteq> 0 \<and> \<not> eswitch_vlan_valid v \<or> ev \<noteq> 0 \<or> el \<noteq> 0)"

definition vlan_rule_count :: "eswitch_port_mode \<Rightarrow> u16 \<Rightarrow> u16 \<Rightarrow> u16 \<Rightarrow> u16 \<Rightarrow> nat" where
  "vlan_rule_count mode v l ev el =
     (if mode = ESWITCH_PORT_MODE_TRUNK then unat (eswitch_vlan_allowlist_size v l ev el) else 1)"

section \<open>What an allow-list denotes\<close>

definition range_ids :: "u16 \<Rightarrow> u16 \<Rightarrow> nat set" where
  "range_ids first lst = {unat first .. unat (eswitch_vlan_range_last first lst)}"

definition allowlist_ids :: "u16 \<Rightarrow> u16 \<Rightarrow> u16 \<Rightarrow> u16 \<Rightarrow> nat set" where
  "allowlist_ids first lst ef el =
     range_ids first lst \<union> (if eswitch_vlan_extra_present ef el then range_ids ef el else {})"

lemma range_valid_unat:
  "eswitch_vlan_range_valid first lst \<longleftrightarrow>
     1 \<le> unat first \<and> unat first \<le> unat (eswitch_vlan_range_last first lst) \<and>
     unat (eswitch_vlan_range_last first lst) \<le> 4094"
  by (auto simp: eswitch_vlan_range_valid_def eswitch_vlan_valid_def vlan_consts Let_def word_le_nat_alt)

lemma range_size_card:
  assumes "eswitch_vlan_range_valid first lst"
  shows "unat (eswitch_vlan_range_size first lst) = card (range_ids first lst)"
proof -
  let ?l = "eswitch_vlan_range_last first lst"
  have b: "unat first \<le> unat ?l" "unat ?l \<le> 4094" using assms by (auto simp: range_valid_unat)
  then have "unat (?l - first) = unat ?l - unat first"
    by (intro unat_sub) (simp add: word_le_nat_alt)
  then have "unat (?l - first + 1) = unat ?l - unat first + 1"
    using b by (subst unat_add_lem [THEN iffD1]) simp_all
  then show ?thesis using assms b by (simp add: eswitch_vlan_range_size_def range_ids_def)
qed

lemma range_size_le:
  assumes "eswitch_vlan_range_valid first lst"
  shows "unat (eswitch_vlan_range_size first lst) \<le> 4094"
  unfolding range_size_card [OF assms] using assms by (auto simp: range_valid_unat range_ids_def)

lemma ranges_overlap_ids:
  assumes "eswitch_vlan_range_valid a b" "eswitch_vlan_range_valid c d"
  shows "eswitch_vlan_ranges_overlap a b c d \<longleftrightarrow> range_ids a b \<inter> range_ids c d \<noteq> {}"
  using assms
  by (auto simp: eswitch_vlan_ranges_overlap_def range_ids_def range_valid_unat word_le_nat_alt)

lemma allowlist_parts:
  assumes "eswitch_vlan_allowlist_valid first lst ef el"
  shows "eswitch_vlan_range_valid first lst"
    "eswitch_vlan_extra_present ef el \<Longrightarrow> eswitch_vlan_range_valid ef el"
    "eswitch_vlan_extra_present ef el \<Longrightarrow> range_ids first lst \<inter> range_ids ef el = {}"
  using assms ranges_overlap_ids [of first lst ef el]
  by (auto simp: eswitch_vlan_allowlist_valid_def split: if_splits)

lemma allowlist_ids_bounds:
  "eswitch_vlan_allowlist_valid first lst ef el \<Longrightarrow> allowlist_ids first lst ef el \<subseteq> {1..4094}"
  using allowlist_parts(1,2) [of first lst ef el]
  by (auto simp: allowlist_ids_def range_ids_def range_valid_unat)

lemma allowlist_size_card:
  assumes v: "eswitch_vlan_allowlist_valid first lst ef el"
  shows "unat (eswitch_vlan_allowlist_size first lst ef el) = card (allowlist_ids first lst ef el)"
proof (cases "eswitch_vlan_extra_present ef el")
  case False
  then show ?thesis
    using v range_size_card [OF allowlist_parts(1) [OF v]]
    by (simp add: eswitch_vlan_allowlist_size_def allowlist_ids_def)
next
  case True
  note p = allowlist_parts(1) [OF v] allowlist_parts(2) [OF v True]
  have fin: "finite (range_ids a b)" for a b by (simp add: range_ids_def)
  have "unat (eswitch_vlan_range_size first lst + eswitch_vlan_range_size ef el) =
      unat (eswitch_vlan_range_size first lst) + unat (eswitch_vlan_range_size ef el)"
    using range_size_le [OF p(1)] range_size_le [OF p(2)]
    by (subst unat_add_lem [THEN iffD1]) simp_all
  also have "\<dots> = card (range_ids first lst \<union> range_ids ef el)"
    unfolding range_size_card [OF p(1)] range_size_card [OF p(2)]
    using allowlist_parts(3) [OF v True] fin by (intro card_Un_disjoint [symmetric]) auto
  finally show ?thesis using v True by (simp add: eswitch_vlan_allowlist_size_def allowlist_ids_def)
qed

section \<open>Enumeration and overlap\<close>

lemma unat_add_small:
  fixes a b :: u16
  assumes "unat a + unat b < 65536"
  shows "unat (a + b) = unat a + unat b"
  using assms by (subst unat_add_lem [THEN iffD1]) simp_all

lemma unat_diff_small:
  fixes a b :: u16
  assumes "unat b \<le> unat a"
  shows "unat (a - b) = unat a - unat b"
  using assms by (intro unat_sub) (simp add: word_le_nat_alt)

text \<open>An index below the size gives the id at that offset of the two ranges laid end to end.\<close>

lemma allowlist_at_value:
  assumes v: "eswitch_vlan_allowlist_valid first lst ef el"
  shows "unat (eswitch_vlan_allowlist_at first lst ef el i) =
    (let n = card (range_ids first lst) in
     if unat i < n then unat first + unat i
     else if eswitch_vlan_extra_present ef el \<and> unat i - n < card (range_ids ef el)
       then unat ef + (unat i - n)
     else 0)"
proof -
  note p = allowlist_parts(1) [OF v]
  let ?n = "eswitch_vlan_range_size first lst"
  have n: "unat ?n = card (range_ids first lst)" by (rule range_size_card [OF p])
  have c: "card (range_ids first lst) = unat (eswitch_vlan_range_last first lst) - unat first + 1"
    "unat first \<le> unat (eswitch_vlan_range_last first lst)"
    "unat (eswitch_vlan_range_last first lst) \<le> 4094"
    using p by (auto simp: range_ids_def range_valid_unat)
  show ?thesis
  proof (cases "i < ?n")
    case True
    then have "unat i < card (range_ids first lst)" by (simp add: word_less_nat_alt n)
    moreover from this have "unat (first + i) = unat first + unat i"
      using c by (intro unat_add_small) linarith
    ultimately show ?thesis using True by (simp add: eswitch_vlan_allowlist_at_def Let_def)
  next
    case False
    then have nl: "\<not> unat i < card (range_ids first lst)" by (simp add: word_less_nat_alt n)
    have d: "unat (i - ?n) = unat i - card (range_ids first lst)"
      using nl n by (subst unat_diff_small) simp_all
    show ?thesis
    proof (cases "eswitch_vlan_extra_present ef el")
      case x: True
      note q = allowlist_parts(2) [OF v x]
      have e: "card (range_ids ef el) = unat (eswitch_vlan_range_last ef el) - unat ef + 1"
        "unat (eswitch_vlan_range_last ef el) \<le> 4094" "unat ef \<le> unat (eswitch_vlan_range_last ef el)"
        using q by (auto simp: range_ids_def range_valid_unat)
      have l: "i - ?n < eswitch_vlan_range_size ef el \<longleftrightarrow>
          unat i - card (range_ids first lst) < card (range_ids ef el)"
        by (simp add: word_less_nat_alt d range_size_card [OF q])
      have "unat (ef + (i - ?n)) = unat ef + (unat i - card (range_ids first lst))"
        if "unat i - card (range_ids first lst) < card (range_ids ef el)"
        using that e by (subst unat_add_small) (simp_all add: d)
      then show ?thesis
        using False nl x l by (simp add: eswitch_vlan_allowlist_at_def Let_def)
    next
      case nx: False
      then show ?thesis using False nl by (simp add: eswitch_vlan_allowlist_at_def Let_def)
    qed
  qed
qed

lemma allowlist_at_bij:
  assumes v: "eswitch_vlan_allowlist_valid first lst ef el"
  shows "bij_betw (\<lambda>i. unat (eswitch_vlan_allowlist_at first lst ef el (of_nat i)))
    {..<unat (eswitch_vlan_allowlist_size first lst ef el)} (allowlist_ids first lst ef el)"
proof -
  let ?n = "card (range_ids first lst)" and ?x = "eswitch_vlan_extra_present ef el"
  let ?m = "if ?x then card (range_ids ef el) else 0"
  let ?at = "\<lambda>i. unat (eswitch_vlan_allowlist_at first lst ef el (of_nat i))"
  let ?N = "unat (eswitch_vlan_allowlist_size first lst ef el)"
  have fin: "finite (range_ids a b)" for a b by (simp add: range_ids_def)
  have N: "?N = ?n + ?m"
    unfolding allowlist_size_card [OF v] allowlist_ids_def
    using allowlist_parts(3) [OF v] fin by (auto simp: card_Un_disjoint)
  have at: "?at i = (if i < ?n then unat first + i else unat ef + (i - ?n))" if "i < ?N" for i
  proof -
    have "i < 65536" using that unat_u16_less by (rule less_trans)
    then have "unat (of_nat i :: u16) = i" by (intro of_nat_inverse) simp_all
    then show ?thesis using that N by (auto simp: allowlist_at_value [OF v] Let_def split: if_splits)
  qed
  have r: "range_ids a b = {unat a ..< unat a + card (range_ids a b)}"
    if "eswitch_vlan_range_valid a b" for a b
    using that by (auto simp: range_ids_def range_valid_unat)
  have "?at ` {..<?N} = allowlist_ids first lst ef el"
  proof (rule set_eqI, rule iffI)
    fix x
    assume "x \<in> ?at ` {..<?N}"
    then obtain i where i: "i < ?N" "x = ?at i" by auto
    show "x \<in> allowlist_ids first lst ef el"
    proof (cases "i < ?n")
      case True
      then have "x \<in> range_ids first lst"
        using at [OF i(1)] i(2) by (subst r [OF allowlist_parts(1) [OF v]]) simp
      then show ?thesis by (simp add: allowlist_ids_def)
    next
      case False
      then have x: ?x and "i - ?n < card (range_ids ef el)" using i(1) N by (auto split: if_splits)
      then have "x \<in> range_ids ef el"
        using False at [OF i(1)] i(2) by (subst r [OF allowlist_parts(2) [OF v x]], simp, linarith)
      then show ?thesis using x by (simp add: allowlist_ids_def)
    qed
  next
    fix x
    assume "x \<in> allowlist_ids first lst ef el"
    then consider "x \<in> range_ids first lst" | "?x" "x \<in> range_ids ef el"
      by (auto simp: allowlist_ids_def split: if_splits)
    then show "x \<in> ?at ` {..<?N}"
    proof cases
      case 1
      then have "unat first \<le> x" "x < unat first + ?n"
        by (subst (asm) r [OF allowlist_parts(1) [OF v]], simp)+
      then show ?thesis using N at [of "x - unat first"] by (intro image_eqI [of _ _ "x - unat first"]) auto
    next
      case 2
      then have b: "unat ef \<le> x" "x < unat ef + card (range_ids ef el)"
        by (subst (asm) r [OF allowlist_parts(2) [OF v 2(1)]], simp)+
      then show ?thesis using N 2(1) at [of "?n + (x - unat ef)"]
        by (intro image_eqI [of _ _ "?n + (x - unat ef)"]) auto
    qed
  qed
  moreover from this have "inj_on ?at {..<?N}"
    using allowlist_size_card [OF v] by (intro eq_card_imp_inj_on) simp_all
  ultimately show ?thesis by (simp add: bij_betw_def)
qed

lemma union_meets: "(A \<union> B) \<inter> (C \<union> D) \<noteq> {} \<longleftrightarrow>
    A \<inter> C \<noteq> {} \<or> B \<inter> C \<noteq> {} \<or> A \<inter> D \<noteq> {} \<or> B \<inter> D \<noteq> {}"
  by blast

lemma allowlists_overlap_ids:
  assumes "eswitch_vlan_allowlist_valid a b c d" "eswitch_vlan_allowlist_valid e f g h"
  shows "eswitch_vlan_allowlists_overlap a b c d e f g h \<longleftrightarrow>
    allowlist_ids a b c d \<inter> allowlist_ids e f g h \<noteq> {}"
proof -
  note l = allowlist_parts(1,2) [OF assms(1)] and r = allowlist_parts(1,2) [OF assms(2)]
  show ?thesis
    unfolding allowlist_ids_def union_meets
    by (cases "eswitch_vlan_extra_present c d"; cases "eswitch_vlan_extra_present g h")
      (simp_all add: eswitch_vlan_allowlists_overlap_def ranges_overlap_ids l r)
qed

section \<open>Properties\<close>

text \<open>A valid allow-list names each of its VLAN ids exactly once: reading it at the indices below its
  size enumerates, without repetition, exactly the ids of its one or two ranges, all of them
  between 1 and 4094, and its size is their number.\<close>

lemma allowlist_enumeration:
  assumes "eswitch_vlan_allowlist_valid first lst ef el"
  shows "bij_betw (\<lambda>i. unat (eswitch_vlan_allowlist_at first lst ef el (of_nat i)))
      {..<unat (eswitch_vlan_allowlist_size first lst ef el)} (allowlist_ids first lst ef el) \<and>
    unat (eswitch_vlan_allowlist_size first lst ef el) = card (allowlist_ids first lst ef el) \<and>
    allowlist_ids first lst ef el \<subseteq> {1..4094}"
  using allowlist_at_bij [OF assms] allowlist_size_card [OF assms] allowlist_ids_bounds [OF assms] by simp

text \<open>Two valid allow-lists are reported to overlap exactly when some VLAN id belongs to both.\<close>

lemma allowlists_overlap_exact:
  assumes "eswitch_vlan_allowlist_valid a b c d" "eswitch_vlan_allowlist_valid e f g h"
  shows "eswitch_vlan_allowlists_overlap a b c d e f g h \<longleftrightarrow>
    allowlist_ids a b c d \<inter> allowlist_ids e f g h \<noteq> {}"
  by (rule allowlists_overlap_ids [OF assms])

end
