(* ===== verification/Offload_Retry.thy ===== *)
theory Offload_Retry
  imports Prelude
begin

text \<open>
  The backoff of \<^verbatim>\<open>router/offload_retry.h\<close>: after a failed hardware promotion the next attempt
  waits 250 ms, doubling up to 8 s.  The deadline is a 64-bit nanosecond time and may wrap.
\<close>

record offload_retry =
  or_until_ns :: u64
  or_delay_ms :: u32

definition retry_zero :: offload_retry where
  "retry_zero = \<lparr>or_until_ns = 0, or_delay_ms = 0\<rparr>"

definition offload_retry_ready :: "offload_retry \<Rightarrow> u64 \<Rightarrow> bool" where
  "offload_retry_ready r now \<longleftrightarrow> or_until_ns r \<le> now"

definition next_delay :: "u32 \<Rightarrow> u32" where
  "next_delay d = (if d = 0 then 250 else if 4000 \<le> d then 8000 else d * 2)"

definition offload_retry_failed :: "offload_retry \<Rightarrow> u64 \<Rightarrow> offload_retry" where
  "offload_retry_failed r now =
     (let d = next_delay (or_delay_ms r) in
      r\<lparr>or_delay_ms := d, or_until_ns := now + ucast d * 1000000\<rparr>)"

definition offload_retry_reset :: "offload_retry \<Rightarrow> offload_retry" where
  "offload_retry_reset r = retry_zero"

text \<open>The delay after \<open>n\<close> consecutive failures.\<close>

definition delay_after :: "nat \<Rightarrow> nat" where
  "delay_after n = (if n = 0 then 0 else min 8000 (250 * 2 ^ (n - 1)))"

lemma delay_after_step:
  assumes "unat d = delay_after n"
  shows "unat (next_delay d) = delay_after (Suc n)"
proof (cases "n = 0")
  case True
  then have "d = 0" using assms by (simp add: delay_after_def unat_eq_0)
  then show ?thesis using True by (simp add: next_delay_def delay_after_def)
next
  case False
  then obtain k where n: "n = Suc k" by (cases n) auto
  then have d: "unat d = min 8000 (250 * 2 ^ k)" using assms by (simp add: delay_after_def)
  have p: "(1 :: nat) \<le> 2 ^ k" by simp
  have dz: "d \<noteq> 0" using d p by (auto simp: unat_eq_0 [symmetric])
  show ?thesis
  proof (cases "4000 \<le> d")
    case True
    then have "4000 \<le> unat d" by (simp add: word_le_nat_alt)
    then have "8000 \<le> 250 * 2 * (2 :: nat) ^ k" using d by (simp add: min_def split: if_splits)
    then show ?thesis using True dz n by (simp add: next_delay_def delay_after_def)
  next
    case False
    then have "unat d < 4000" by (simp add: word_le_nat_alt not_le)
    then have e: "unat d = 250 * 2 ^ k" using d by (simp add: min_def split: if_splits)
    have "unat (d * 2) = unat d * 2"
      using \<open>unat d < 4000\<close> by (subst unat_mult_lem [THEN iffD1]) simp_all
    then show ?thesis using False dz n e \<open>unat d < 4000\<close> by (simp add: next_delay_def delay_after_def)
  qed
qed

lemma delay_bounds: "0 < n \<Longrightarrow> 250 \<le> delay_after n \<and> delay_after n \<le> 8000"
  by (simp add: delay_after_def)

lemma failed_delay: "or_delay_ms (offload_retry_failed r now) = next_delay (or_delay_ms r)"
  by (simp add: offload_retry_failed_def Let_def)

lemma failures_delay:
  "unat (or_delay_ms (foldl offload_retry_failed retry_zero ts)) = delay_after (length ts)"
proof (induction ts rule: rev_induct)
  case Nil
  then show ?case by (simp add: retry_zero_def delay_after_def)
next
  case (snoc t ts)
  show ?case using delay_after_step [OF snoc] by (simp add: failed_delay)
qed

text \<open>No attempt is ready before the delay is over, unless the deadline wraps.\<close>

lemma failed_not_ready:
  assumes "unat now + unat (next_delay (or_delay_ms r)) * 1000000 < 2 ^ 64"
    and "now \<le> t"
  shows "offload_retry_ready (offload_retry_failed r now) t \<longleftrightarrow>
    unat (next_delay (or_delay_ms r)) * 1000000 \<le> unat t - unat now"
proof -
  let ?d = "next_delay (or_delay_ms r)"
  have "unat ?d < 18446744073709551616" using unat_u32_less [of ?d] by linarith
  then have u: "unat (ucast ?d :: u64) = unat ?d"
    by (simp only: unsigned_ucast_eq) (simp add: take_bit_eq_mod)
  have m: "unat (ucast ?d * 1000000 :: u64) = unat ?d * 1000000"
    using assms(1) u by (subst unat_mult_lem [THEN iffD1]) simp_all
  have a: "unat (now + ucast ?d * 1000000) = unat now + unat ?d * 1000000"
    using assms(1) m by (subst unat_add_lem [THEN iffD1]) simp_all
  have "unat now \<le> unat t" using assms(2) by (simp add: word_le_nat_alt)
  then show ?thesis
    by (simp add: offload_retry_ready_def offload_retry_failed_def Let_def word_le_nat_alt a) linarith
qed

section \<open>Properties\<close>

text \<open>C31: Whatever the times of the failures, the delay after n consecutive failures of a promotion is 250 ms
  doubled n - 1 times and capped at 8 s.\<close>

theorem retry_backoff:
  "unat (or_delay_ms (foldl offload_retry_failed retry_zero ts)) =
     (if length ts = 0 then 0 else min 8000 (250 * 2 ^ (length ts - 1)))"
  using failures_delay [of ts] by (simp add: delay_after_def)

text \<open>After a failure the next attempt is allowed exactly once the new delay has passed, as long as the
  deadline fits 64 bits.\<close>

lemma retry_waits:
  assumes "unat now + unat (next_delay (or_delay_ms r)) * 1000000 < 2 ^ 64" "now \<le> t"
  shows "offload_retry_ready (offload_retry_failed r now) t \<longleftrightarrow>
    unat (next_delay (or_delay_ms r)) * 1000000 \<le> unat t - unat now"
  by (rule failed_not_ready [OF assms])

end
