(* ===== verification/Flow_Rules.thy ===== *)
theory Flow_Rules
  imports Prelude
begin

text \<open>
  Hardware rules as the pipeline keeps them: a handle given by the SDK and a completion cookie
  (\<^verbatim>\<open>ethernet_switch/flow_runtime.c\<close>), with the steps that add, update and remove one
  (\<^verbatim>\<open>pipeline/eswitch_pipeline.c\<close>).  The DOCA Flow SDK is a parameter, the record \<open>flow_env\<close>:
  each call maps the SDK's state to an error code, its outputs and the next state, and nothing
  is assumed of it here.
\<close>

section \<open>The SDK\<close>

datatype flow_op = DOCA_FLOW_ENTRY_OP_ADD | DOCA_FLOW_ENTRY_OP_UPD | DOCA_FLOW_ENTRY_OP_DEL

datatype flow_status =
  DOCA_FLOW_ENTRY_STATUS_IN_PROCESS | DOCA_FLOW_ENTRY_STATUS_SUCCESS | DOCA_FLOW_ENTRY_STATUS_ERROR

record flow_entry_cookie =
  ck_op :: flow_op
  ck_status :: flow_status
  ck_completed :: bool

text \<open>\<^verbatim>\<open>struct eswitch_rule\<close>: the handle is \<open>None\<close> for the \<^verbatim>\<open>NULL\<close> entry.\<close>

record eswitch_rule =
  ru_entry :: "nat option"
  ru_cookie :: flow_entry_cookie

datatype flow_pipe = DESTINATION_PIPE | SOURCE_GUARD_PIPE | GATE_PIPE nat

record flow_match =
  fm_meta :: u32
  fm_src_mac :: mac
  fm_dst_mac :: mac

text \<open>
  The calls: add an entry (the handle written, if any), update one, remove one, wait for
  completions (the completion delivered to each awaited cookie, if any), read a counter, obtain
  the egress gate of a switch member, and whether an allocation succeeds.
\<close>

record 's flow_env =
  env_add :: "flow_pipe \<Rightarrow> flow_match \<Rightarrow> flow_pipe option \<Rightarrow> 's \<Rightarrow> doca_error \<times> nat option \<times> 's"
  env_update :: "flow_pipe \<Rightarrow> flow_pipe \<Rightarrow> nat \<Rightarrow> 's \<Rightarrow> doca_error \<times> 's"
  env_remove :: "nat \<Rightarrow> 's \<Rightarrow> doca_error \<times> 's"
  env_process :: "nat \<Rightarrow> 's \<Rightarrow> doca_error \<times> (nat \<Rightarrow> (flow_op \<times> flow_status) option) \<times> 's"
  env_query :: "nat \<Rightarrow> 's \<Rightarrow> doca_error \<times> u64 \<times> 's"
  env_gate :: "u16 \<Rightarrow> u16 \<Rightarrow> 's \<Rightarrow> doca_error \<times> flow_pipe \<times> 's"
  env_alloc :: "'s \<Rightarrow> bool \<times> 's"

section \<open>Completions\<close>

definition cookie_zero :: flow_entry_cookie where
  "cookie_zero = \<lparr>ck_op = DOCA_FLOW_ENTRY_OP_ADD, ck_status = DOCA_FLOW_ENTRY_STATUS_IN_PROCESS,
     ck_completed = False\<rparr>"

definition rule_zero :: eswitch_rule where
  "rule_zero = \<lparr>ru_entry = None, ru_cookie = cookie_zero\<rparr>"

definition entry_process_callback :: "flow_status \<Rightarrow> flow_op \<Rightarrow> flow_entry_cookie \<Rightarrow> flow_entry_cookie" where
  "entry_process_callback status opr c = c\<lparr>ck_op := opr, ck_status := status, ck_completed := True\<rparr>"

definition flow_entry_cookie_prepare :: "flow_op \<Rightarrow> flow_entry_cookie \<Rightarrow> flow_entry_cookie" where
  "flow_entry_cookie_prepare opr c =
     c\<lparr>ck_op := opr, ck_status := DOCA_FLOW_ENTRY_STATUS_IN_PROCESS, ck_completed := False\<rparr>"

definition cookie_failed :: "flow_entry_cookie \<Rightarrow> bool" where
  "cookie_failed c \<longleftrightarrow> \<not> ck_completed c \<or> ck_status c \<noteq> DOCA_FLOW_ENTRY_STATUS_SUCCESS"

definition complete_cookie :: "(flow_op \<times> flow_status) option \<Rightarrow> flow_entry_cookie \<Rightarrow> flow_entry_cookie" where
  "complete_cookie done c =
     (case done of None \<Rightarrow> c | Some (opr, status) \<Rightarrow> entry_process_callback status opr c)"

text \<open>\<open>flow_runtime_process\<close> on an initialised runtime.\<close>

definition flow_runtime_process ::
  "'s flow_env \<Rightarrow> flow_entry_cookie list \<Rightarrow> 's \<Rightarrow> doca_error \<times> flow_entry_cookie list \<times> 's" where
  "flow_runtime_process env cookies s =
     (if cookies = [] then (DOCA_SUCCESS, [], s)
      else let (r, completion, s') = env_process env (length cookies) s;
               cookies' = map (\<lambda>(i, c). complete_cookie (completion i) c) (enumerate 0 cookies) in
      (if r \<noteq> DOCA_SUCCESS then r
       else if list_ex cookie_failed cookies' then DOCA_ERROR_BAD_STATE
       else DOCA_SUCCESS, cookies', s'))"

section \<open>One rule\<close>

definition process_rules ::
  "'s flow_env \<Rightarrow> eswitch_rule list \<Rightarrow> 's \<Rightarrow> doca_error \<times> eswitch_rule list \<times> 's" where
  "process_rules env rules s =
     (if rules = [] then (DOCA_SUCCESS, [], s)
      else let (ok, s1) = env_alloc env s in
      if \<not> ok then (DOCA_ERROR_NO_MEMORY, rules, s1)
      else let (r, cookies, s2) = flow_runtime_process env (map ru_cookie rules) s1 in
        (r, map (\<lambda>(rule, c). rule\<lparr>ru_cookie := c\<rparr>) (zip rules cookies), s2))"

definition process_rule :: "'s flow_env \<Rightarrow> eswitch_rule \<Rightarrow> 's \<Rightarrow> doca_error \<times> eswitch_rule \<times> 's" where
  "process_rule env rule s = (let (r, rules, s') = process_rules env [rule] s in (r, hd rules, s'))"

definition remove_rule :: "'s flow_env \<Rightarrow> eswitch_rule \<Rightarrow> 's \<Rightarrow> doca_error \<times> eswitch_rule \<times> 's" where
  "remove_rule env rule s =
     (case ru_entry rule of
        None \<Rightarrow> (DOCA_SUCCESS, rule, s)
      | Some h \<Rightarrow>
          let c = flow_entry_cookie_prepare DOCA_FLOW_ENTRY_OP_DEL (ru_cookie rule);
              (r, s1) = env_remove env h s in
          if r \<noteq> DOCA_SUCCESS then (r, rule\<lparr>ru_cookie := c\<rparr>, s1)
          else let (r2, cookies, s2) = flow_runtime_process env [c] s1 in
            (r2, rule\<lparr>ru_cookie := hd cookies,
                      ru_entry := (if r2 = DOCA_SUCCESS then None else Some h)\<rparr>, s2))"

text \<open>Preparing the cookie and adding the entry; the caller waits for the completion.\<close>

definition add_rule ::
  "'s flow_env \<Rightarrow> flow_pipe \<Rightarrow> flow_match \<Rightarrow> flow_pipe option \<Rightarrow> eswitch_rule \<Rightarrow> 's \<Rightarrow>
   doca_error \<times> eswitch_rule \<times> 's" where
  "add_rule env pipe m fwd rule s =
     (let (r, h, s') = env_add env pipe m fwd s in
      (r, rule\<lparr>ru_cookie := flow_entry_cookie_prepare DOCA_FLOW_ENTRY_OP_ADD (ru_cookie rule),
               ru_entry := h\<rparr>, s'))"

section \<open>What the steps do to the handle\<close>

lemma process_rule_entry:
  "process_rule env rule s = (r, rule', s') \<Longrightarrow> ru_entry rule' = ru_entry rule"
  by (auto simp: process_rule_def process_rules_def flow_runtime_process_def Let_def split_def
      split: if_splits)

text \<open>A removal succeeds exactly when the handle is gone; a failed one keeps it.\<close>

lemma remove_rule_entry:
  "remove_rule env rule s = (r, rule', s') \<Longrightarrow>
   ru_entry rule' = (if r = DOCA_SUCCESS then None else ru_entry rule) \<and>
   (r \<noteq> DOCA_SUCCESS \<longrightarrow> ru_entry rule \<noteq> None)"
  by (auto simp: remove_rule_def Let_def split_def split: option.splits if_splits)

lemma remove_rule_None: "ru_entry rule = None \<Longrightarrow> remove_rule env rule s = (DOCA_SUCCESS, rule, s)"
  by (simp add: remove_rule_def)

lemma add_rule_entry:
  "add_rule env pipe m fwd rule s = (r, rule', s') \<Longrightarrow>
   r = fst (env_add env pipe m fwd s) \<and> ru_entry rule' = fst (snd (env_add env pipe m fwd s))"
  by (auto simp: add_rule_def Let_def split_def)

text \<open>The documented behaviour of an accepted addition: it returns the new entry's handle.\<close>

definition add_gives_entry :: "'s flow_env \<Rightarrow> bool" where
  "add_gives_entry env \<longleftrightarrow>
     (\<forall>pipe m fwd s. fst (env_add env pipe m fwd s) = DOCA_SUCCESS \<longrightarrow>
        fst (snd (env_add env pipe m fwd s)) \<noteq> None)"

end
