(* ===== verification/Fdb_Hw.thy ===== *)
theory Fdb_Hw
  imports Flow_Rules
begin

text \<open>
  The hardware side of a forwarding-database entry: \<open>eswitch_pipeline_fdb_add\<close>, \<open>_move\<close>,
  \<open>_remove\<close> and \<open>_query\<close> of \<^verbatim>\<open>pipeline/eswitch_pipeline.c\<close>.  An entry has a destination rule and
  two source-guard rules, of which one is active; a move installs the spare guard, redirects the
  destination and removes the old guard, and every failure has its rollback.
\<close>

section \<open>State\<close>

record eswitch_hw_fdb_entry =
  hw_sources :: "nat \<Rightarrow> eswitch_rule"
  hw_active_source :: nat
  hw_destination :: eswitch_rule
  hw_learned_port_id :: u16

definition hw_zero :: eswitch_hw_fdb_entry where
  "hw_zero = \<lparr>hw_sources = \<lambda>_. rule_zero, hw_active_source = 0, hw_destination = rule_zero,
     hw_learned_port_id = 0\<rparr>"

section \<open>Matches and forwards\<close>

definition eswitch_metadata_encode :: "u16 \<Rightarrow> u16 \<Rightarrow> u32" where
  "eswitch_metadata_encode vs port = push_bit 16 (ucast vs) OR ucast port"

definition eswitch_metadata_decode :: "u32 \<Rightarrow> u16 \<times> u16" where
  "eswitch_metadata_decode m = (ucast (drop_bit 16 m), ucast m)"

definition mac_zero :: mac where "mac_zero = [0, 0, 0, 0, 0, 0]"

definition fill_source_match :: "u16 \<Rightarrow> u16 \<Rightarrow> mac \<Rightarrow> flow_match" where
  "fill_source_match vs port m =
     \<lparr>fm_meta = eswitch_metadata_encode vs port, fm_src_mac = m, fm_dst_mac = mac_zero\<rparr>"

definition fill_destination_match :: "u16 \<Rightarrow> mac \<Rightarrow> flow_match" where
  "fill_destination_match vs m =
     \<lparr>fm_meta = push_bit 16 (ucast vs), fm_src_mac = mac_zero, fm_dst_mac = m\<rparr>"

definition fill_destination_fwd :: "'s flow_env \<Rightarrow> u16 \<Rightarrow> u16 \<Rightarrow> 's \<Rightarrow> doca_error \<times> flow_pipe \<times> 's" where
  "fill_destination_fwd env vs port s = env_gate env vs port s"

section \<open>Operations\<close>

definition set_source :: "nat \<Rightarrow> eswitch_rule \<Rightarrow> eswitch_hw_fdb_entry \<Rightarrow> eswitch_hw_fdb_entry" where
  "set_source i rule hw = hw\<lparr>hw_sources := (hw_sources hw)(i := rule)\<rparr>"

definition eswitch_pipeline_fdb_remove ::
  "'s flow_env \<Rightarrow> eswitch_hw_fdb_entry \<Rightarrow> 's \<Rightarrow> doca_error \<times> eswitch_hw_fdb_entry \<times> 's" where
  "eswitch_pipeline_fdb_remove env hw s =
     (let (r, d, s1) = remove_rule env (hw_destination hw) s; hw1 = hw\<lparr>hw_destination := d\<rparr> in
      if r \<noteq> DOCA_SUCCESS then (r, hw1, s1)
      else let (r0, a, s2) = remove_rule env (hw_sources hw 0) s1; hw2 = set_source 0 a hw1 in
      if r0 \<noteq> DOCA_SUCCESS then (r0, hw2, s2)
      else let (r1, b, s3) = remove_rule env (hw_sources hw 1) s2; hw3 = set_source 1 b hw2 in
      if r1 \<noteq> DOCA_SUCCESS then (r1, hw3, s3)
      else (DOCA_SUCCESS, hw_zero, s3))"

text \<open>\<open>rollback:\<close> of the add: the first error, unless undoing fails too.\<close>

definition fdb_add_rollback ::
  "'s flow_env \<Rightarrow> doca_error \<Rightarrow> eswitch_hw_fdb_entry \<Rightarrow> 's \<Rightarrow> doca_error \<times> eswitch_hw_fdb_entry \<times> 's" where
  "fdb_add_rollback env original hw s =
     (let (r, hw', s') = eswitch_pipeline_fdb_remove env hw s in
      (if r = DOCA_SUCCESS then original else r, hw', s'))"

definition hw_empty :: "eswitch_hw_fdb_entry \<Rightarrow> bool" where
  "hw_empty hw \<longleftrightarrow> ru_entry (hw_destination hw) = None \<and> ru_entry (hw_sources hw 0) = None \<and>
     ru_entry (hw_sources hw 1) = None"

definition eswitch_pipeline_fdb_add ::
  "'s flow_env \<Rightarrow> u16 \<Rightarrow> mac \<Rightarrow> u16 \<Rightarrow> eswitch_hw_fdb_entry \<Rightarrow> 's \<Rightarrow>
   doca_error \<times> eswitch_hw_fdb_entry \<times> 's" where
  "eswitch_pipeline_fdb_add env vs m port hw s =
     (if vs = 0 then (DOCA_ERROR_INVALID_VALUE, hw, s)
      else if \<not> hw_empty hw then (DOCA_ERROR_BAD_STATE, hw, s)
      else let (r, fwd, s1) = fill_destination_fwd env vs port s in
      if r \<noteq> DOCA_SUCCESS then (r, hw, s1)
      else let (r, d, s2) = add_rule env DESTINATION_PIPE (fill_destination_match vs m) (Some fwd)
                 (hw_destination hw) s1;
               hw2 = hw\<lparr>hw_destination := d\<rparr> in
      if r \<noteq> DOCA_SUCCESS then fdb_add_rollback env r hw2 s2
      else let (r, d, s3) = process_rule env (hw_destination hw2) s2; hw3 = hw2\<lparr>hw_destination := d\<rparr> in
      if r \<noteq> DOCA_SUCCESS then fdb_add_rollback env r hw3 s3
      else let (r, a, s4) = add_rule env SOURCE_GUARD_PIPE (fill_source_match vs port m) None
                 (hw_sources hw3 0) s3;
               hw4 = set_source 0 a hw3 in
      if r \<noteq> DOCA_SUCCESS then fdb_add_rollback env r hw4 s4
      else let (r, a, s5) = process_rule env (hw_sources hw4 0) s4; hw5 = set_source 0 a hw4 in
      if r \<noteq> DOCA_SUCCESS then fdb_add_rollback env r hw5 s5
      else (DOCA_SUCCESS, hw5\<lparr>hw_active_source := 0, hw_learned_port_id := port\<rparr>, s5))"

text \<open>\<open>rollback_new_source:\<close> of the move.\<close>

definition rollback_new_source ::
  "'s flow_env \<Rightarrow> doca_error \<Rightarrow> nat \<Rightarrow> eswitch_hw_fdb_entry \<Rightarrow> 's \<Rightarrow>
   doca_error \<times> eswitch_hw_fdb_entry \<times> 's" where
  "rollback_new_source env original i hw s =
     (let (r, b, s') = remove_rule env (hw_sources hw i) s in
      (if r = DOCA_SUCCESS then original else r, set_source i b hw, s'))"

text \<open>Updating the destination rule and waiting for it.\<close>

definition update_destination ::
  "'s flow_env \<Rightarrow> flow_pipe \<Rightarrow> eswitch_hw_fdb_entry \<Rightarrow> 's \<Rightarrow>
   doca_error \<times> eswitch_hw_fdb_entry \<times> 's" where
  "update_destination env fwd hw s =
     (let d = (hw_destination hw)
            \<lparr>ru_cookie := flow_entry_cookie_prepare DOCA_FLOW_ENTRY_OP_UPD (ru_cookie (hw_destination hw))\<rparr>;
          (r, s1) = env_update env DESTINATION_PIPE fwd (the (ru_entry d)) s in
      (r, hw\<lparr>hw_destination := d\<rparr>, s1))"

definition process_destination ::
  "'s flow_env \<Rightarrow> eswitch_hw_fdb_entry \<Rightarrow> 's \<Rightarrow> doca_error \<times> eswitch_hw_fdb_entry \<times> 's" where
  "process_destination env hw s =
     (let (r, d, s') = process_rule env (hw_destination hw) s in (r, hw\<lparr>hw_destination := d\<rparr>, s'))"

text \<open>\<open>rollback_destination:\<close> of the move.\<close>

definition rollback_destination ::
  "'s flow_env \<Rightarrow> doca_error \<Rightarrow> u16 \<Rightarrow> u16 \<Rightarrow> nat \<Rightarrow> eswitch_hw_fdb_entry \<Rightarrow> 's \<Rightarrow>
   doca_error \<times> eswitch_hw_fdb_entry \<times> 's" where
  "rollback_destination env original vs old_port i hw s =
     (let (r, fwd, s1) = fill_destination_fwd env vs old_port s in
      if r \<noteq> DOCA_SUCCESS then (r, hw, s1)
      else let (r, hw2, s2) = update_destination env fwd hw s1 in
      if r \<noteq> DOCA_SUCCESS then (r, hw2, s2)
      else let (r, hw3, s3) = process_destination env hw2 s2 in
      if r \<noteq> DOCA_SUCCESS then (r, hw3, s3)
      else rollback_new_source env original i hw3 s3)"

definition eswitch_pipeline_fdb_move ::
  "'s flow_env \<Rightarrow> u16 \<Rightarrow> mac \<Rightarrow> u16 \<Rightarrow> u16 \<Rightarrow> eswitch_hw_fdb_entry \<Rightarrow> 's \<Rightarrow>
   doca_error \<times> eswitch_hw_fdb_entry \<times> 's" where
  "eswitch_pipeline_fdb_move env vs m old_port new_port hw s =
     (if ru_entry (hw_destination hw) = None \<or> 1 < hw_active_source hw \<or>
         hw_learned_port_id hw \<noteq> old_port then (DOCA_ERROR_INVALID_VALUE, hw, s)
      else let (r, fwd, s1) = fill_destination_fwd env vs new_port s in
      if r \<noteq> DOCA_SUCCESS then (r, hw, s1)
      else let old = hw_active_source hw; i = 1 - old in
      if ru_entry (hw_sources hw old) = None \<or> ru_entry (hw_sources hw i) \<noteq> None
        then (DOCA_ERROR_BAD_STATE, hw, s1)
      else let (r, b, s2) = add_rule env SOURCE_GUARD_PIPE (fill_source_match vs new_port m) None
                 (hw_sources hw i) s1;
               hw2 = set_source i b hw in
      if r \<noteq> DOCA_SUCCESS then (r, hw2, s2)
      else let (r, b, s3) = process_rule env (hw_sources hw2 i) s2; hw3 = set_source i b hw2 in
      if r \<noteq> DOCA_SUCCESS then rollback_new_source env r i hw3 s3
      else let (r, hw4, s4) = update_destination env fwd hw3 s3 in
      if r \<noteq> DOCA_SUCCESS then rollback_new_source env r i hw4 s4
      else let (r, hw5, s5) = process_destination env hw4 s4 in
      if r \<noteq> DOCA_SUCCESS then rollback_destination env r vs old_port i hw5 s5
      else let (r, a, s6) = remove_rule env (hw_sources hw5 old) s5; hw6 = set_source old a hw5 in
      if r \<noteq> DOCA_SUCCESS then rollback_destination env r vs old_port i hw6 s6
      else (DOCA_SUCCESS, hw6\<lparr>hw_active_source := i, hw_learned_port_id := new_port\<rparr>, s6))"

text \<open>The count is meaningful only on success.\<close>

definition eswitch_pipeline_fdb_query ::
  "'s flow_env \<Rightarrow> eswitch_hw_fdb_entry \<Rightarrow> 's \<Rightarrow> doca_error \<times> u64 \<times> 's" where
  "eswitch_pipeline_fdb_query env hw s =
     (if 1 < hw_active_source hw then (DOCA_ERROR_INVALID_VALUE, 0, s)
      else case ru_entry (hw_sources hw (hw_active_source hw)) of
        None \<Rightarrow> (DOCA_ERROR_INVALID_VALUE, 0, s)
      | Some h \<Rightarrow>
          let (r, n, s') = env_query env h s in
          (r, if r = DOCA_SUCCESS then n else 0, s'))"

section \<open>What the operations leave behind\<close>

abbreviation dest_handle :: "eswitch_hw_fdb_entry \<Rightarrow> nat option" where
  "dest_handle hw \<equiv> ru_entry (hw_destination hw)"

abbreviation source_handle :: "eswitch_hw_fdb_entry \<Rightarrow> nat \<Rightarrow> nat option" where
  "source_handle hw i \<equiv> ru_entry (hw_sources hw i)"

text \<open>An entry whose three rules are as the software believes them to be.\<close>

definition hw_ready :: "u16 \<Rightarrow> eswitch_hw_fdb_entry \<Rightarrow> bool" where
  "hw_ready port hw \<longleftrightarrow> dest_handle hw \<noteq> None \<and> hw_active_source hw \<le> 1 \<and>
     source_handle hw (hw_active_source hw) \<noteq> None \<and>
     source_handle hw (1 - hw_active_source hw) = None \<and> hw_learned_port_id hw = port"

lemma hw_zero_empty [simp]: "hw_empty hw_zero"
  by (simp add: hw_empty_def hw_zero_def rule_zero_def)

lemma set_source_simps [simp]:
  "hw_sources (set_source i rule hw) = (hw_sources hw)(i := rule)"
  "hw_destination (set_source i rule hw) = hw_destination hw"
  "hw_active_source (set_source i rule hw) = hw_active_source hw"
  "hw_learned_port_id (set_source i rule hw) = hw_learned_port_id hw"
  by (simp_all add: set_source_def)

lemma fdb_remove_outcome:
  assumes "eswitch_pipeline_fdb_remove env hw s = (r, hw', s')"
  shows "if r = DOCA_SUCCESS then hw' = hw_zero else \<not> hw_empty hw'"
proof -
  obtain r0 d s1 where d: "remove_rule env (hw_destination hw) s = (r0, d, s1)" by (metis prod_cases3)
  obtain r1 a s2 where a: "remove_rule env (hw_sources hw 0) s1 = (r1, a, s2)" by (metis prod_cases3)
  obtain r2 b s3 where b: "remove_rule env (hw_sources hw 1) s2 = (r2, b, s3)" by (metis prod_cases3)
  note e = remove_rule_entry [OF d] remove_rule_entry [OF a] remove_rule_entry [OF b]
  show ?thesis
    using assms d a b e
    by (auto simp: eswitch_pipeline_fdb_remove_def Let_def hw_empty_def split: if_splits)
qed

lemma fdb_add_rollback_outcome:
  assumes "fdb_add_rollback env original hw s = (r, hw', s')" "original \<noteq> DOCA_SUCCESS"
  shows "r \<noteq> DOCA_SUCCESS \<and> (hw' = hw_zero \<or> \<not> hw_empty hw')"
proof -
  obtain r0 h0 s0 where e: "eswitch_pipeline_fdb_remove env hw s = (r0, h0, s0)" by (metis prod_cases3)
  from fdb_remove_outcome [OF e] assms e show ?thesis
    by (auto simp: fdb_add_rollback_def Let_def split: if_splits)
qed

lemma fdb_add_outcome:
  assumes r: "eswitch_pipeline_fdb_add env vs m port hw_zero s = (r, hw', s')" and g: "add_gives_entry env"
  shows "if r = DOCA_SUCCESS then hw_ready port hw' else hw' = hw_zero \<or> \<not> hw_empty hw'"
proof -
  obtain r1 fwd s1 where f: "fill_destination_fwd env vs port s = (r1, fwd, s1)" by (metis prod_cases3)
  obtain r2 d2 s2 where d2: "add_rule env DESTINATION_PIPE (fill_destination_match vs m) (Some fwd)
      (hw_destination hw_zero) s1 = (r2, d2, s2)" by (metis prod_cases3)
  obtain r3 d3 s3 where d3: "process_rule env d2 s2 = (r3, d3, s3)" by (metis prod_cases3)
  obtain r4 a4 s4 where a4: "add_rule env SOURCE_GUARD_PIPE (fill_source_match vs port m) None
      (hw_sources hw_zero 0) s3 = (r4, a4, s4)" by (metis prod_cases3)
  obtain r5 a5 s5 where a5: "process_rule env a4 s4 = (r5, a5, s5)" by (metis prod_cases3)
  note e = add_rule_entry [OF d2] process_rule_entry [OF d3] add_rule_entry [OF a4] process_rule_entry [OF a5]
  have z: "source_handle hw_zero 1 = None" by (simp add: hw_zero_def rule_zero_def)
  note red = r [unfolded eswitch_pipeline_fdb_add_def f Let_def prod.case]
  have rd: "hw_destination (hw_zero\<lparr>hw_destination := d\<rparr>) = d"
    "hw_sources (hw_zero\<lparr>hw_destination := d\<rparr>\<lparr>hw_destination := d'\<rparr>) 0 = hw_sources hw_zero 0" for d d'
    by simp_all
  show ?thesis
  proof (cases "vs = 0 \<or> r1 \<noteq> DOCA_SUCCESS")
    case True
    with red show ?thesis by (auto split: if_splits)
  next
    case False
    then have ok: "vs \<noteq> 0" "r1 = DOCA_SUCCESS" by simp_all
  show ?thesis
  proof (cases "r2 = DOCA_SUCCESS \<and> r3 = DOCA_SUCCESS \<and> r4 = DOCA_SUCCESS \<and> r5 = DOCA_SUCCESS")
    case True
    with red ok d2 d3 a4 a5 have "r = DOCA_SUCCESS"
      "hw' = (set_source 0 a5 (set_source 0 a4 (hw_zero\<lparr>hw_destination := d2\<rparr>\<lparr>hw_destination := d3\<rparr>)))
         \<lparr>hw_active_source := 0, hw_learned_port_id := port\<rparr>" by auto
    moreover have "ru_entry d3 \<noteq> None" "ru_entry a5 \<noteq> None"
      using e True g by (auto simp: add_gives_entry_def)
    ultimately show ?thesis using z by (simp add: hw_ready_def)
  next
    case b: False
    have "\<exists>e0 h t. fdb_add_rollback env e0 h t = (r, hw', s') \<and> e0 \<noteq> DOCA_SUCCESS"
      using red ok d2 d3 a4 a5 b by (auto split: if_splits)
    then show ?thesis using fdb_add_rollback_outcome by metis
  qed
  qed
qed

text \<open>A move that fails never loses what the entry had: the destination rule, the active guard and
  the recorded port stay.  When the new guard could not be undone it stays beside the old one.\<close>

definition hw_kept :: "eswitch_hw_fdb_entry \<Rightarrow> eswitch_hw_fdb_entry \<Rightarrow> bool" where
  "hw_kept hw hw' \<longleftrightarrow> dest_handle hw' = dest_handle hw \<and>
     hw_active_source hw' = hw_active_source hw \<and> hw_learned_port_id hw' = hw_learned_port_id hw \<and>
     source_handle hw' (hw_active_source hw) = source_handle hw (hw_active_source hw)"

lemma rollback_new_source_kept:
  assumes "rollback_new_source env e0 i hw s = (r, hw', s')" "i \<noteq> hw_active_source hw"
    "e0 \<noteq> DOCA_SUCCESS"
  shows "r \<noteq> DOCA_SUCCESS \<and> hw_kept hw hw'"
proof -
  obtain r0 b t where b: "remove_rule env (hw_sources hw i) s = (r0, b, t)" by (metis prod_cases3)
  from assms b show ?thesis
    by (auto simp: rollback_new_source_def Let_def hw_kept_def split: if_splits)
qed

lemma update_destination_kept:
  "update_destination env fwd hw s = (r, hw', s') \<Longrightarrow>
   hw_kept hw hw' \<and> hw_sources hw' = hw_sources hw"
  by (auto simp: update_destination_def Let_def hw_kept_def split: prod.splits)

lemma process_destination_kept:
  "process_destination env hw s = (r, hw', s') \<Longrightarrow> hw_kept hw hw' \<and> hw_sources hw' = hw_sources hw"
  by (auto simp: process_destination_def hw_kept_def dest: process_rule_entry split: prod.splits)

lemma hw_kept_trans: "hw_kept a b \<Longrightarrow> hw_kept b c \<Longrightarrow> hw_kept a c"
  by (auto simp: hw_kept_def)

lemma rollback_destination_kept:
  assumes "rollback_destination env e0 vs old i hw s = (r, hw', s')" "i \<noteq> hw_active_source hw"
    "e0 \<noteq> DOCA_SUCCESS"
  shows "r \<noteq> DOCA_SUCCESS \<and> hw_kept hw hw'"
proof -
  obtain r1 fwd s1 where f: "fill_destination_fwd env vs old s = (r1, fwd, s1)" by (metis prod_cases3)
  obtain r2 hw2 s2 where u: "update_destination env fwd hw s1 = (r2, hw2, s2)" by (metis prod_cases3)
  obtain r3 hw3 s3 where p: "process_destination env hw2 s2 = (r3, hw3, s3)" by (metis prod_cases3)
  note k = update_destination_kept [OF u] process_destination_kept [OF p]
  note red = assms(1) [unfolded rollback_destination_def f Let_def prod.case u p]
  have i: "i \<noteq> hw_active_source hw3" using k assms(2) by (simp add: hw_kept_def)
  have self: "hw_kept hw hw" by (simp add: hw_kept_def)
  show ?thesis
    using red k self hw_kept_trans [of hw hw2 hw3] hw_kept_trans [of hw hw3 hw']
      rollback_new_source_kept [OF _ i assms(3), of env s3 r hw' s']
    by (auto split: if_splits)
qed

lemma fdb_move_outcome:
  assumes r: "eswitch_pipeline_fdb_move env vs m old_port new_port hw s = (r, hw', s')"
    and ready: "hw_ready old_port hw" and g: "add_gives_entry env"
  shows "if r = DOCA_SUCCESS then hw_ready new_port hw' \<and> dest_handle hw' = dest_handle hw
    else hw_kept hw hw'"
proof -
  define old where "old = hw_active_source hw"
  define i where "i = 1 - old"
  have oi: "old \<le> 1" "i \<noteq> old" "i \<le> 1" "1 - i = old"
    using ready by (auto simp: hw_ready_def old_def i_def)
  obtain r1 fwd s1 where f: "fill_destination_fwd env vs new_port s = (r1, fwd, s1)" by (metis prod_cases3)
  obtain r2 b2 s2 where b2: "add_rule env SOURCE_GUARD_PIPE (fill_source_match vs new_port m) None
      (hw_sources hw i) s1 = (r2, b2, s2)" by (metis prod_cases3)
  define hw2 where "hw2 = set_source i b2 hw"
  obtain r3 b3 s3 where b3: "process_rule env (hw_sources hw2 i) s2 = (r3, b3, s3)" by (metis prod_cases3)
  define hw3 where "hw3 = set_source i b3 hw2"
  obtain r4 hw4 s4 where u: "update_destination env fwd hw3 s3 = (r4, hw4, s4)" by (metis prod_cases3)
  obtain r5 hw5 s5 where p: "process_destination env hw4 s4 = (r5, hw5, s5)" by (metis prod_cases3)
  obtain r6 a s6 where a: "remove_rule env (hw_sources hw5 old) s5 = (r6, a, s6)" by (metis prod_cases3)
  define hw6 where "hw6 = set_source old a hw5"
  have guards:
    "(dest_handle hw = None \<or> 1 < old \<or> hw_learned_port_id hw \<noteq> old_port) = False"
    "(source_handle hw old = None \<or> source_handle hw i \<noteq> None) = False"
    using ready oi by (auto simp: hw_ready_def old_def i_def)
  note red = r [unfolded eswitch_pipeline_fdb_move_def f Let_def prod.case old_def [symmetric]
      i_def [symmetric] guards if_False b2 hw2_def [symmetric] b3 hw3_def [symmetric] u p a
      hw6_def [symmetric]]
  have s3b: "ru_entry b3 = ru_entry b2" using process_rule_entry [OF b3] by (simp add: hw2_def)
  have k23: "hw_kept hw hw2" "hw_kept hw hw3" using oi by (simp_all add: hw_kept_def hw2_def hw3_def old_def)
  note k4 = update_destination_kept [OF u] and k5 = process_destination_kept [OF p]
  have k45: "hw_kept hw hw4" "hw_kept hw hw5" using k23 k4 k5 hw_kept_trans by blast+
  have src5: "hw_sources hw5 = (hw_sources hw)(i := b3)" using k4 k5 by (simp add: hw3_def hw2_def)
  note e6 = remove_rule_entry [OF a]
  have k6: "r6 \<noteq> DOCA_SUCCESS \<Longrightarrow> hw_kept hw hw6"
    using k45(2) e6 oi by (auto simp: hw6_def hw_kept_def old_def)
  have act: "i \<noteq> hw_active_source hw3" "i \<noteq> hw_active_source hw4" "i \<noteq> hw_active_source hw5"
    "i \<noteq> hw_active_source hw6"
    using k23 k45 oi by (auto simp: hw_kept_def old_def hw6_def)
  show ?thesis
  proof (cases "r1 = DOCA_SUCCESS \<and> r2 = DOCA_SUCCESS \<and> r3 = DOCA_SUCCESS \<and> r4 = DOCA_SUCCESS \<and>
      r5 = DOCA_SUCCESS \<and> r6 = DOCA_SUCCESS")
    case True
    with red have h: "r = DOCA_SUCCESS" "hw' = hw6\<lparr>hw_active_source := i, hw_learned_port_id := new_port\<rparr>"
      by simp_all
    have "ru_entry b3 \<noteq> None" using add_rule_entry [OF b2] True g s3b by (auto simp: add_gives_entry_def)
    moreover have "ru_entry a = None" using e6 True by simp
    ultimately have "hw_ready new_port hw' \<and> dest_handle hw' = dest_handle hw"
      using ready k45(2) oi src5 by (auto simp: h(2) hw_ready_def hw6_def hw_kept_def)
    with h(1) show ?thesis by simp
  next
    case False
    have "r \<noteq> DOCA_SUCCESS \<and> hw_kept hw hw'"
    proof -
      consider "r \<noteq> DOCA_SUCCESS" "hw' = hw \<or> hw' = hw2"
        | e h t where "rollback_new_source env e i h t = (r, hw', s')" "e \<noteq> DOCA_SUCCESS"
            "i \<noteq> hw_active_source h" "hw_kept hw h"
        | e h t where "rollback_destination env e vs old_port i h t = (r, hw', s')" "e \<noteq> DOCA_SUCCESS"
            "i \<noteq> hw_active_source h" "hw_kept hw h"
        using red False k23 k45 k6 act by (auto split: if_splits)
      then show ?thesis
      proof cases
        case 1
        then show ?thesis using k23(1) by (auto simp: hw_kept_def)
      next
        case 2
        from rollback_new_source_kept [OF this(1,3,2)] 2(4) show ?thesis using hw_kept_trans by blast
      next
        case 3
        from rollback_destination_kept [OF this(1,3,2)] 3(4) show ?thesis using hw_kept_trans by blast
      qed
    qed
    then show ?thesis by simp
  qed
qed

end
