(* ===== verification/Fdb.thy ===== *)
theory Fdb
  imports Fdb_Hw Text
begin

text \<open>
  The forwarding database of the L2 switches: \<^verbatim>\<open>l2/eswitch_fdb.c\<close>.  The linked list of entries is
  a list, its head first.  The SDK is the parameter of \<open>Flow_Rules\<close>; whether \<^verbatim>\<open>calloc\<close> succeeds
  and the time are arguments; log output is left out.
\<close>

section \<open>State\<close>

datatype eswitch_fdb_entry_state =
  ESWITCH_FDB_ENTRY_ACTIVE | ESWITCH_FDB_ENTRY_QUERY_RETRY | ESWITCH_FDB_ENTRY_DELETE_PENDING

record eswitch_fdb_entry =
  fe_vswitch_id :: u16
  fe_vlan_id :: u16
  fe_mac :: mac
  fe_learned_port_id :: u16
  fe_last_seen_ns :: u64
  fe_last_source_packets :: u64
  fe_next_retry_ns :: u64
  fe_query_retries :: u32
  fe_delete_retries :: u32
  fe_state :: eswitch_fdb_entry_state
  fe_hardware :: eswitch_hw_fdb_entry

text \<open>\<open>fdb_pipeline\<close> says whether the pipeline pointer is set.\<close>

record eswitch_fdb =
  fdb_pipeline :: bool
  fdb_entries :: "eswitch_fdb_entry list"
  fdb_count :: nat
  fdb_capacity :: nat
  fdb_aging_ns :: u64

definition fdb_zero :: eswitch_fdb where
  "fdb_zero = \<lparr>fdb_pipeline = False, fdb_entries = [], fdb_count = 0, fdb_capacity = 0,
     fdb_aging_ns = 0\<rparr>"

definition NSEC_PER_SEC :: u64 where "NSEC_PER_SEC = 1000000000"
definition SWITCH_FDB_QUERY_FAILURE_GRACE_SECONDS :: u64 where
  "SWITCH_FDB_QUERY_FAILURE_GRACE_SECONDS = 30"
definition SWITCH_FDB_RETRY_MAX_SECONDS :: u32 where "SWITCH_FDB_RETRY_MAX_SECONDS = 30"

type_synonym fdb_key = "u16 \<times> u16 \<times> mac"

definition fe_key :: "eswitch_fdb_entry \<Rightarrow> fdb_key" where
  "fe_key e = (fe_vswitch_id e, fe_vlan_id e, fe_mac e)"

section \<open>Helpers\<close>

definition retry_delay_ns :: "u32 \<Rightarrow> u64" where
  "retry_delay_ns retries =
     (if retries = 0 then 0
      else let seconds = (if 6 \<le> retries then SWITCH_FDB_RETRY_MAX_SECONDS
                          else push_bit (unat (retries - 1)) 1);
               seconds = (if SWITCH_FDB_RETRY_MAX_SECONDS < seconds then SWITCH_FDB_RETRY_MAX_SECONDS
                          else seconds) in
      ucast seconds * NSEC_PER_SEC)"

text \<open>\<open>rte_is_valid_assigned_ether_addr\<close>: unicast and not zero.\<close>

definition rte_is_valid_assigned_ether_addr :: "mac \<Rightarrow> bool" where
  "rte_is_valid_assigned_ether_addr m \<longleftrightarrow> m ! 0 AND 1 = 0 \<and> m \<noteq> mac_zero"

definition fdb_find_entry :: "eswitch_fdb \<Rightarrow> fdb_key \<Rightarrow> nat option" where
  "fdb_find_entry fdb k = find_index (\<lambda>e. fe_key e = k) (fdb_entries fdb)"

definition eswitch_fdb_init :: "bool \<Rightarrow> nat \<Rightarrow> u32 \<Rightarrow> eswitch_fdb \<Rightarrow> doca_error \<times> eswitch_fdb" where
  "eswitch_fdb_init created capacity aging_seconds fdb =
     (if \<not> created \<or> capacity = 0 \<or> aging_seconds = 0 then (DOCA_ERROR_INVALID_VALUE, fdb)
      else (DOCA_SUCCESS, fdb\<lparr>fdb_pipeline := True, fdb_capacity := capacity,
              fdb_aging_ns := ucast aging_seconds * 1000000000\<rparr>))"

section \<open>Learning\<close>

definition new_entry :: "fdb_key \<Rightarrow> u16 \<Rightarrow> u64 \<Rightarrow> eswitch_fdb_entry" where
  "new_entry k port now =
     \<lparr>fe_vswitch_id = fst k, fe_vlan_id = fst (snd k), fe_mac = snd (snd k),
      fe_learned_port_id = port, fe_last_seen_ns = now, fe_last_source_packets = 0,
      fe_next_retry_ns = 0, fe_query_retries = 0, fe_delete_retries = 0,
      fe_state = ESWITCH_FDB_ENTRY_ACTIVE, fe_hardware = hw_zero\<rparr>"

definition fdb_push :: "eswitch_fdb_entry \<Rightarrow> eswitch_fdb \<Rightarrow> eswitch_fdb" where
  "fdb_push e fdb = fdb\<lparr>fdb_entries := e # fdb_entries fdb, fdb_count := fdb_count fdb + 1\<rparr>"

definition fdb_learn_new ::
  "'s flow_env \<Rightarrow> eswitch_fdb \<Rightarrow> fdb_key \<Rightarrow> u16 \<Rightarrow> u64 \<Rightarrow> bool \<Rightarrow> 's \<Rightarrow>
   doca_error \<times> eswitch_fdb \<times> 's" where
  "fdb_learn_new env fdb k port now calloc_ok s =
     (if fdb_capacity fdb \<le> fdb_count fdb then (DOCA_ERROR_NO_MEMORY, fdb, s)
      else if \<not> calloc_ok then (DOCA_ERROR_NO_MEMORY, fdb, s)
      else let e = new_entry k port now;
               (r, hw, s') = eswitch_pipeline_fdb_add env (fst k) (snd (snd k)) port (fe_hardware e) s;
               e' = e\<lparr>fe_hardware := hw\<rparr> in
      if r \<noteq> DOCA_SUCCESS then (r, if hw_empty hw then fdb else fdb_push e' fdb, s')
      else (DOCA_SUCCESS, fdb_push e' fdb, s'))"

definition fdb_set :: "nat \<Rightarrow> eswitch_fdb_entry \<Rightarrow> eswitch_fdb \<Rightarrow> eswitch_fdb" where
  "fdb_set i e fdb = fdb\<lparr>fdb_entries := (fdb_entries fdb)[i := e]\<rparr>"

definition eswitch_fdb_learn ::
  "'s flow_env \<Rightarrow> eswitch_fdb \<Rightarrow> u16 \<Rightarrow> u16 \<Rightarrow> mac \<Rightarrow> u16 \<Rightarrow> u64 \<Rightarrow> bool \<Rightarrow> 's \<Rightarrow>
   doca_error \<times> eswitch_fdb \<times> 's" where
  "eswitch_fdb_learn env fdb vs vlan source port now calloc_ok s =
     (if \<not> fdb_pipeline fdb \<or> vs = 0 then (DOCA_ERROR_INVALID_VALUE, fdb, s)
      else if \<not> rte_is_valid_assigned_ether_addr source then (DOCA_SUCCESS, fdb, s)
      else case fdb_find_entry fdb (vs, vlan, source) of
        None \<Rightarrow> fdb_learn_new env fdb (vs, vlan, source) port now calloc_ok s
      | Some i \<Rightarrow>
          let e = fdb_entries fdb ! i in
          if fe_learned_port_id e = port
            then (DOCA_SUCCESS, fdb_set i (e\<lparr>fe_last_seen_ns := now\<rparr>) fdb, s)
          else let (r, hw, s') = eswitch_pipeline_fdb_move env vs source (fe_learned_port_id e) port
                 (fe_hardware e) s;
                   e' = e\<lparr>fe_hardware := hw\<rparr> in
            if r \<noteq> DOCA_SUCCESS then (r, fdb_set i e' fdb, s')
            else (DOCA_SUCCESS, fdb_set i (e'\<lparr>fe_learned_port_id := port, fe_last_seen_ns := now,
                    fe_last_source_packets := 0\<rparr>) fdb, s'))"

section \<open>Walks over the list\<close>

text \<open>\<open>remove_at\<close>: the entry is freed (\<open>None\<close>) exactly when its hardware is gone.\<close>

definition remove_at ::
  "'s flow_env \<Rightarrow> eswitch_fdb_entry \<Rightarrow> 's \<Rightarrow> doca_error \<times> eswitch_fdb_entry option \<times> 's" where
  "remove_at env e s =
     (let (r, hw, s') = eswitch_pipeline_fdb_remove env (fe_hardware e) s in
      (r, if r \<noteq> DOCA_SUCCESS then Some (e\<lparr>fe_hardware := hw\<rparr>) else None, s'))"

text \<open>
  A walk with a cursor: each entry is visited once, kept (perhaps changed) or unlinked, and
  reports an error that is remembered if it is the first.
\<close>

type_synonym 's visit = "eswitch_fdb_entry \<Rightarrow> 's \<Rightarrow> doca_error \<times> eswitch_fdb_entry option \<times> 's"

definition first_error :: "doca_error \<Rightarrow> doca_error \<Rightarrow> doca_error" where
  "first_error first r = (if r \<noteq> DOCA_SUCCESS \<and> first = DOCA_SUCCESS then r else first)"

fun fdb_walk :: "'s visit \<Rightarrow> doca_error \<Rightarrow> eswitch_fdb_entry list \<Rightarrow> 's \<Rightarrow>
    doca_error \<times> eswitch_fdb_entry list \<times> 's" where
  "fdb_walk visit first [] s = (first, [], s)"
| "fdb_walk visit first (e # es) s =
     (let (r, kept, s1) = visit e s;
          (first', es', s2) = fdb_walk visit (first_error first r) es s1 in
      (first', (case kept of None \<Rightarrow> es' | Some e' \<Rightarrow> e' # es'), s2))"

text \<open>Every unlinked entry decrements the counter.\<close>

definition fdb_walked :: "'s visit \<Rightarrow> eswitch_fdb \<Rightarrow> 's \<Rightarrow> doca_error \<times> eswitch_fdb \<times> 's" where
  "fdb_walked visit fdb s =
     (let (r, es, s') = fdb_walk visit DOCA_SUCCESS (fdb_entries fdb) s in
      (r, fdb\<lparr>fdb_entries := es,
              fdb_count := fdb_count fdb - (length (fdb_entries fdb) - length es)\<rparr>, s'))"

definition flush_visit :: "'s flow_env \<Rightarrow> (eswitch_fdb_entry \<Rightarrow> bool) \<Rightarrow> 's visit" where
  "flush_visit env P e s = (if \<not> P e then (DOCA_SUCCESS, Some e, s) else remove_at env e s)"

definition eswitch_fdb_flush_port ::
  "'s flow_env \<Rightarrow> eswitch_fdb \<Rightarrow> u16 \<Rightarrow> u16 \<Rightarrow> 's \<Rightarrow> doca_error \<times> eswitch_fdb \<times> 's" where
  "eswitch_fdb_flush_port env fdb vs port s =
     (if \<not> fdb_pipeline fdb \<or> vs = 0 then (DOCA_ERROR_INVALID_VALUE, fdb, s)
      else fdb_walked (flush_visit env (\<lambda>e. \<not> (fe_vswitch_id e \<noteq> vs \<or> fe_learned_port_id e \<noteq> port))) fdb s)"

definition eswitch_fdb_flush_vswitch ::
  "'s flow_env \<Rightarrow> eswitch_fdb \<Rightarrow> u16 \<Rightarrow> 's \<Rightarrow> doca_error \<times> eswitch_fdb \<times> 's" where
  "eswitch_fdb_flush_vswitch env fdb vs s =
     (if \<not> fdb_pipeline fdb \<or> vs = 0 then (DOCA_ERROR_INVALID_VALUE, fdb, s)
      else fdb_walked (flush_visit env (\<lambda>e. fe_vswitch_id e = vs)) fdb s)"

section \<open>Aging\<close>

definition delete_failed :: "u64 \<Rightarrow> eswitch_fdb_entry \<Rightarrow> eswitch_fdb_entry" where
  "delete_failed now e =
     (let n = fe_delete_retries e + 1 in
      e\<lparr>fe_delete_retries := n, fe_next_retry_ns := now + retry_delay_ns n\<rparr>)"

definition reported :: "doca_error \<Rightarrow> doca_error" where
  "reported r = (if r = DOCA_ERROR_IN_USE then DOCA_SUCCESS else r)"

text \<open>A removal during aging; on failure the entry stays, to be retried.\<close>

definition age_remove :: "'s flow_env \<Rightarrow> u64 \<Rightarrow> 's visit" where
  "age_remove env now e s =
     (let (r, kept, s') = remove_at env e s in
      case kept of
        None \<Rightarrow> (DOCA_SUCCESS, None, s')
      | Some e' \<Rightarrow>
          (reported r,
           Some (delete_failed now (e'\<lparr>fe_state := ESWITCH_FDB_ENTRY_DELETE_PENDING\<rparr>)), s'))"

text \<open>A failed counter query: retried later, or the entry is retired after the grace period.\<close>

definition query_failed :: "u64 \<Rightarrow> u64 \<Rightarrow> eswitch_fdb_entry \<Rightarrow> eswitch_fdb_entry" where
  "query_failed aging_ns now e =
     (let n = fe_query_retries e + 1;
          e1 = e\<lparr>fe_state := ESWITCH_FDB_ENTRY_QUERY_RETRY, fe_query_retries := n,
                  fe_next_retry_ns := now + retry_delay_ns n\<rparr> in
      if aging_ns + SWITCH_FDB_QUERY_FAILURE_GRACE_SECONDS * NSEC_PER_SEC \<le> now - fe_last_seen_ns e
        then e1\<lparr>fe_state := ESWITCH_FDB_ENTRY_DELETE_PENDING, fe_next_retry_ns := now\<rparr>
      else e1)"

definition age_visit :: "'s flow_env \<Rightarrow> u64 \<Rightarrow> u64 \<Rightarrow> 's visit" where
  "age_visit env aging_ns now e s =
     (if fe_next_retry_ns e \<noteq> 0 \<and> now < fe_next_retry_ns e then (DOCA_SUCCESS, Some e, s)
      else if fe_state e = ESWITCH_FDB_ENTRY_DELETE_PENDING then age_remove env now e s
      else let (r, packets, s1) = eswitch_pipeline_fdb_query env (fe_hardware e) s in
      if r \<noteq> DOCA_SUCCESS then (reported r, Some (query_failed aging_ns now e), s1)
      else let e1 = e\<lparr>fe_state := ESWITCH_FDB_ENTRY_ACTIVE, fe_query_retries := 0,
                       fe_next_retry_ns := 0\<rparr> in
      if packets \<noteq> fe_last_source_packets e
        then (DOCA_SUCCESS, Some (e1\<lparr>fe_last_source_packets := packets, fe_last_seen_ns := now\<rparr>), s1)
      else if now - fe_last_seen_ns e < aging_ns then (DOCA_SUCCESS, Some e1, s1)
      else age_remove env now e1 s1)"

definition eswitch_fdb_age ::
  "'s flow_env \<Rightarrow> eswitch_fdb \<Rightarrow> u64 \<Rightarrow> 's \<Rightarrow> doca_error \<times> eswitch_fdb \<times> 's" where
  "eswitch_fdb_age env fdb now s =
     (if \<not> fdb_pipeline fdb then (DOCA_ERROR_INVALID_VALUE, fdb, s)
      else fdb_walked (age_visit env (fdb_aging_ns fdb) now) fdb s)"

section \<open>Destruction\<close>

fun fdb_destroy_loop :: "'s flow_env \<Rightarrow> eswitch_fdb_entry list \<Rightarrow> 's \<Rightarrow>
    doca_error \<times> eswitch_fdb_entry list \<times> 's" where
  "fdb_destroy_loop env [] s = (DOCA_SUCCESS, [], s)"
| "fdb_destroy_loop env (e # es) s =
     (let (r, kept, s') = remove_at env e s in
      case kept of None \<Rightarrow> fdb_destroy_loop env es s' | Some e' \<Rightarrow> (r, e' # es, s'))"

definition eswitch_fdb_destroy ::
  "'s flow_env \<Rightarrow> eswitch_fdb \<Rightarrow> 's \<Rightarrow> doca_error \<times> eswitch_fdb \<times> 's" where
  "eswitch_fdb_destroy env fdb s =
     (let (r, es, s') = fdb_destroy_loop env (fdb_entries fdb) s in
      (r, if r = DOCA_SUCCESS then fdb_zero
          else fdb\<lparr>fdb_entries := es,
                    fdb_count := fdb_count fdb - (length (fdb_entries fdb) - length es)\<rparr>, s'))"

section \<open>Formatting\<close>

text \<open>\<open>append_text\<close>: the text written so far and the \<open>used\<close> counter, which reads \<open>sz\<close> once the
  buffer is full.\<close>

definition append_text :: "nat \<Rightarrow> string \<times> nat \<Rightarrow> string \<Rightarrow> string \<times> nat" where
  "append_text sz bu text =
     (let (buf, used) = bu in
      if sz \<le> used then (buf, used)
      else if sz - used \<le> length text then (buf @ take (sz - used - 1) text, sz)
      else (buf @ text, used + length text))"

definition entry_state_name :: "eswitch_fdb_entry_state \<Rightarrow> string" where
  "entry_state_name st =
     (case st of ESWITCH_FDB_ENTRY_ACTIVE \<Rightarrow> ''ACTIVE''
      | ESWITCH_FDB_ENTRY_QUERY_RETRY \<Rightarrow> ''QUERY_RETRY''
      | ESWITCH_FDB_ENTRY_DELETE_PENDING \<Rightarrow> ''DELETE_PENDING'')"

definition fdb_line :: "u64 \<Rightarrow> eswitch_fdb_entry \<Rightarrow> string" where
  "fdb_line now e =
     ''vs='' @ dec_u16 (fe_vswitch_id e) @ '' mac='' @ mac_text (fe_mac e) @
     '' port='' @ dec_u16 (fe_learned_port_id e) @
     '' packets='' @ dec (unat (fe_last_source_packets e)) @
     '' age='' @ dec (if fe_last_seen_ns e \<le> now
                      then unat (now - fe_last_seen_ns e) div unat NSEC_PER_SEC else 0) @
     ''s state='' @ entry_state_name (fe_state e) @
     '' query-retries='' @ dec (unat (fe_query_retries e)) @
     '' delete-retries='' @ dec (unat (fe_delete_retries e)) @ newline"

definition fdb_chunks :: "eswitch_fdb \<Rightarrow> u16 \<Rightarrow> u64 \<Rightarrow> string list" where
  "fdb_chunks fdb vs now =
     (let shown = filter (\<lambda>e. \<not> (vs \<noteq> 0 \<and> fe_vswitch_id e \<noteq> vs)) (fdb_entries fdb) in
      [''FDB entries: total='' @ dec (fdb_count fdb) @ '' filter-vs='' @
         (if vs = 0 then ''all'' else ''selected'') @ newline] @
      map (fdb_line now) shown @ (if shown = [] then [''(empty)'' @ newline] else []))"

definition eswitch_fdb_format :: "eswitch_fdb \<Rightarrow> u16 \<Rightarrow> u64 \<Rightarrow> nat \<Rightarrow> string \<times> nat" where
  "eswitch_fdb_format fdb vs now sz =
     (if sz = 0 then ([], 0) else foldl (append_text sz) ([], 0) (fdb_chunks fdb vs now))"

end
