(* ===== verification/Eswitch_State.thy ===== *)
theory Eswitch_State
  imports Vlan Text "HOL-Library.Sublist"
begin

text \<open>
  The persistent configuration of the L2 switches (\<^verbatim>\<open>eswitch_state.c\<close>): its structure, the text
  format in its five versions, loading line by line and saving by renaming a temporary file.
  The file system is a map from paths to contents; which POSIX calls fail is an argument.  Log
  output is left out and files hold no NUL character.
\<close>

section \<open>State\<close>

datatype eswitch_state_port_kind = ESWITCH_STATE_PORT_PARENT | ESWITCH_STATE_PORT_REPRESENTOR

record eswitch_state_member =
  sm_vswitch_id :: u16
  sm_kind :: eswitch_state_port_kind
  sm_host_index :: u32
  sm_pf_index :: u32
  sm_vf_index :: u32
  sm_mode :: eswitch_port_mode
  sm_vlan_id :: u16
  sm_vlan_last :: u16
  sm_vlan_extra_id :: u16
  sm_vlan_extra_last :: u16

text \<open>The arrays of ids and names, filled from the front, are a list of pairs; a fresh name is empty.\<close>

record eswitch_state =
  es_switches :: "(u16 \<times> string) list"
  es_members :: "eswitch_state_member list"
  es_member_capacity :: nat

definition ESWITCH_MAX_VSWITCHES :: nat where "ESWITCH_MAX_VSWITCHES = 64"
definition ESWITCH_VS_NAME_SIZE :: nat where "ESWITCH_VS_NAME_SIZE = 64"
definition ESWITCH_MAX_VLAN_MEMBERSHIPS :: nat where "ESWITCH_MAX_VLAN_MEMBERSHIPS = 512"
definition ESWITCH_STATE_VERSION :: u32 where "ESWITCH_STATE_VERSION = 5"
definition ESWITCH_STATE_LINE_SIZE :: nat where "ESWITCH_STATE_LINE_SIZE = 512"

lemmas es_consts = ESWITCH_MAX_VSWITCHES_def ESWITCH_VS_NAME_SIZE_def
  ESWITCH_MAX_VLAN_MEMBERSHIPS_def ESWITCH_STATE_VERSION_def ESWITCH_STATE_LINE_SIZE_def

definition state_zero :: eswitch_state where
  "state_zero = \<lparr>es_switches = [], es_members = [], es_member_capacity = 0\<rparr>"

definition member_zero :: eswitch_state_member where
  "member_zero = \<lparr>sm_vswitch_id = 0, sm_kind = ESWITCH_STATE_PORT_PARENT, sm_host_index = 0,
     sm_pf_index = 0, sm_vf_index = 0, sm_mode = ESWITCH_PORT_MODE_ACCESS, sm_vlan_id = 0,
     sm_vlan_last = 0, sm_vlan_extra_id = 0, sm_vlan_extra_last = 0\<rparr>"

section \<open>Operations\<close>

definition vs_name_char :: "char \<Rightarrow> bool" where
  "vs_name_char c \<longleftrightarrow> is_alpha c \<or> is_digit c \<or> c = CHR ''_'' \<or> c = CHR ''-'' \<or> c = CHR ''.''"

definition eswitch_vs_name_valid :: "string \<Rightarrow> bool" where
  "eswitch_vs_name_valid name \<longleftrightarrow>
     name \<noteq> [] \<and> length name \<le> ESWITCH_VS_NAME_SIZE - 1 \<and> list_all vs_name_char name"

definition state_switch_exists :: "eswitch_state \<Rightarrow> u16 \<Rightarrow> bool" where
  "state_switch_exists st vs = list_ex (\<lambda>s. fst s = vs) (es_switches st)"

definition same_physical_port :: "eswitch_state_member \<Rightarrow> eswitch_state_member \<Rightarrow> bool" where
  "same_physical_port a b =
     (if sm_kind a \<noteq> sm_kind b then False
      else if sm_kind a = ESWITCH_STATE_PORT_PARENT then True
      else sm_host_index a = sm_host_index b \<and> sm_pf_index a = sm_pf_index b \<and>
           sm_vf_index a = sm_vf_index b)"

definition eswitch_state_init :: "nat \<Rightarrow> bool \<Rightarrow> eswitch_state \<Rightarrow> doca_error \<times> eswitch_state" where
  "eswitch_state_init capacity calloc_ok st =
     (if capacity = 0 then (DOCA_ERROR_INVALID_VALUE, st)
      else if \<not> calloc_ok then (DOCA_ERROR_NO_MEMORY, st)
      else (DOCA_SUCCESS, st\<lparr>es_members := [], es_member_capacity := capacity\<rparr>))"

definition eswitch_state_destroy :: "eswitch_state \<Rightarrow> eswitch_state" where
  "eswitch_state_destroy st = state_zero"

definition eswitch_state_add_switch :: "eswitch_state \<Rightarrow> u16 \<Rightarrow> doca_error \<times> eswitch_state" where
  "eswitch_state_add_switch st vs =
     (if vs = 0 then (DOCA_ERROR_INVALID_VALUE, st)
      else if state_switch_exists st vs then (DOCA_ERROR_ALREADY_EXIST, st)
      else if ESWITCH_MAX_VSWITCHES \<le> length (es_switches st) then (DOCA_ERROR_NO_MEMORY, st)
      else (DOCA_SUCCESS, st\<lparr>es_switches := es_switches st @ [(vs, [])]\<rparr>))"

definition sm_invalid :: "eswitch_state_member \<Rightarrow> bool" where
  "sm_invalid m = member_vlans_invalid (sm_mode m) (sm_vlan_id m) (sm_vlan_last m)
     (sm_vlan_extra_id m) (sm_vlan_extra_last m)"

definition sm_rules :: "eswitch_state_member \<Rightarrow> nat" where
  "sm_rules m = vlan_rule_count (sm_mode m) (sm_vlan_id m) (sm_vlan_last m)
     (sm_vlan_extra_id m) (sm_vlan_extra_last m)"

definition sm_tagged :: "eswitch_state_member \<Rightarrow> bool" where
  "sm_tagged m = eswitch_vlan_uses_tagged_domain (sm_mode m) (sm_vlan_id m) (sm_vlan_last m)
     (sm_vlan_extra_id m) (sm_vlan_extra_last m)"

definition sm_overlap :: "eswitch_state_member \<Rightarrow> eswitch_state_member \<Rightarrow> bool" where
  "sm_overlap a b = eswitch_vlan_allowlists_overlap (sm_vlan_id a) (sm_vlan_last a)
     (sm_vlan_extra_id a) (sm_vlan_extra_last a) (sm_vlan_id b) (sm_vlan_last b)
     (sm_vlan_extra_id b) (sm_vlan_extra_last b)"

text \<open>The body of the loop over the configured members.\<close>

definition sm_conflict :: "eswitch_state_member \<Rightarrow> eswitch_state_member \<Rightarrow> bool" where
  "sm_conflict a b =
     (if sm_vswitch_id a = sm_vswitch_id b \<and> sm_tagged a \<noteq> sm_tagged b then True
      else if \<not> same_physical_port a b then False
      else sm_vswitch_id a = sm_vswitch_id b \<or> sm_mode a = ESWITCH_PORT_MODE_ACCESS \<or>
           sm_mode b = ESWITCH_PORT_MODE_ACCESS \<or> sm_overlap a b)"

definition eswitch_state_add_member ::
  "eswitch_state \<Rightarrow> eswitch_state_member \<Rightarrow> doca_error \<times> eswitch_state" where
  "eswitch_state_add_member st m =
     (if sm_vswitch_id m = 0 \<or> \<not> state_switch_exists st (sm_vswitch_id m)
        then (DOCA_ERROR_INVALID_VALUE, st)
      else if sm_invalid m then (DOCA_ERROR_INVALID_VALUE, st)
      else if es_member_capacity st \<le> length (es_members st) then (DOCA_ERROR_NO_MEMORY, st)
      else if list_ex (\<lambda>a. sm_conflict a m) (es_members st) then (DOCA_ERROR_ALREADY_EXIST, st)
      else if ESWITCH_MAX_VLAN_MEMBERSHIPS < sm_rules m + sum_list (map sm_rules (es_members st))
        then (DOCA_ERROR_NO_MEMORY, st)
      else (DOCA_SUCCESS, st\<lparr>es_members := es_members st @ [m]\<rparr>))"

section \<open>Tokens of a line\<close>

text \<open>
  \<open>strtoul\<close> in base 10 on a whole token: leading white space, an optional sign (a minus negates
  modulo \<open>2 ^ 64\<close>), then at least one digit and nothing else; a range error is refused.
\<close>

definition strtoul_value :: "bool \<Rightarrow> nat \<Rightarrow> nat" where
  "strtoul_value neg n = (if neg then (2 ^ 64 - n) mod 2 ^ 64 else n)"

definition parse_u32 :: "string \<Rightarrow> u32 option" where
  "parse_u32 t =
     (let s = dropWhile is_space t;
          neg = (s \<noteq> [] \<and> hd s = CHR ''-'');
          ds = (if s \<noteq> [] \<and> (hd s = CHR ''-'' \<or> hd s = CHR ''+'') then tl s else s) in
      if ds = [] \<or> \<not> list_all is_digit ds then None
      else if 2 ^ 64 \<le> dec_value ds then None
      else if 4294967295 < strtoul_value neg (dec_value ds) then None
      else Some (of_nat (strtoul_value neg (dec_value ds))))"

text \<open>A token that starts with \<open>#\<close> ends the line; a count above the capacity is reported as one more.\<close>

definition split_tokens :: "nat \<Rightarrow> string \<Rightarrow> string list \<times> nat" where
  "split_tokens capacity line =
     (let ts = takeWhile (\<lambda>t. hd t \<noteq> CHR ''#'') (strtok line) in
      if capacity < length ts then (take capacity ts, capacity + 1) else (ts, length ts))"

text \<open>A number of at most 16 bits.\<close>

definition parse_u16 :: "string \<Rightarrow> u16 option" where
  "parse_u16 t = (case parse_u32 t of None \<Rightarrow> None
                  | Some v \<Rightarrow> if 65535 < v then None else Some (ucast v))"

definition parse_id :: "string \<Rightarrow> u16 option" where
  "parse_id t = (case parse_u16 t of None \<Rightarrow> None | Some v \<Rightarrow> if v = 0 then None else Some v)"

section \<open>One line\<close>

text \<open>The result of a line: the error code, the version seen so far and the state.\<close>

type_synonym parsed = "doca_error \<times> u32 option \<times> eswitch_state"

definition refused :: "u32 option \<Rightarrow> eswitch_state \<Rightarrow> parsed" where
  "refused v st = (DOCA_ERROR_INVALID_VALUE, v, st)"

definition parse_version :: "string list \<Rightarrow> u32 option \<Rightarrow> eswitch_state \<Rightarrow> parsed" where
  "parse_version tokens version st =
     (if version \<noteq> None then refused version st
      else case parse_u32 (tokens ! 1) of
        None \<Rightarrow> refused version st
      | Some v \<Rightarrow> if v \<noteq> 1 \<and> v \<noteq> 2 \<and> v \<noteq> 3 \<and> v \<noteq> 4 \<and> v \<noteq> ESWITCH_STATE_VERSION then refused version st
                  else (DOCA_SUCCESS, Some v, st))"

definition parse_vswitch :: "string list \<Rightarrow> nat \<Rightarrow> u32 \<Rightarrow> eswitch_state \<Rightarrow> parsed" where
  "parse_vswitch tokens count v st =
     (case parse_id (tokens ! 1) of
        None \<Rightarrow> refused (Some v) st
      | Some vs \<Rightarrow>
          let (r, st') = eswitch_state_add_switch st vs in
          if r \<noteq> DOCA_SUCCESS then refused (Some v) st'
          else if count = 3 then
            (if \<not> eswitch_vs_name_valid (tokens ! 2) then refused (Some v) st'
             else (DOCA_SUCCESS, Some v,
                   st'\<lparr>es_switches := butlast (es_switches st') @ [(vs, tokens ! 2)]\<rparr>))
          else (DOCA_SUCCESS, Some v, st'))"

text \<open>The port of a member: the parent or a representor's three indices.\<close>

definition parse_port ::
  "string list \<Rightarrow> nat \<Rightarrow> u32 \<Rightarrow> eswitch_state_member \<Rightarrow> eswitch_state_member option" where
  "parse_port tokens count v m =
     (if v = 1 \<and> count = 3 \<or> v = 2 \<and> count = 5 \<or> v = 3 \<and> count = 6 \<or> 4 \<le> v \<and> count = 8
        then (if tokens ! 2 \<noteq> ''parent'' then None else Some (m\<lparr>sm_kind := ESWITCH_STATE_PORT_PARENT\<rparr>))
      else if v = 1 \<and> count = 6 \<or> v = 2 \<and> count = 8 \<or> v = 3 \<and> count = 9 \<or> 4 \<le> v \<and> count = 11
        then (if tokens ! 2 \<noteq> ''representor'' then None
              else case (parse_u32 (tokens ! 3), parse_u32 (tokens ! 4), parse_u32 (tokens ! 5)) of
                (Some h, Some p, Some f) \<Rightarrow>
                  Some (m\<lparr>sm_kind := ESWITCH_STATE_PORT_REPRESENTOR, sm_host_index := h,
                         sm_pf_index := p, sm_vf_index := f\<rparr>)
              | _ \<Rightarrow> None)
      else None)"

definition parse_trunk :: "string list \<Rightarrow> nat \<Rightarrow> u32 \<Rightarrow> eswitch_state_member \<Rightarrow> eswitch_state_member option" where
  "parse_trunk tokens i v m =
     (case parse_u16 (tokens ! (i + 1)) of
        None \<Rightarrow> None
      | Some vlan \<Rightarrow>
          if \<not> eswitch_vlan_valid vlan then None
          else let m1 = m\<lparr>sm_mode := ESWITCH_PORT_MODE_TRUNK, sm_vlan_id := vlan, sm_vlan_last := vlan\<rparr> in
          if v < 3 then Some m1
          else case parse_u16 (tokens ! (i + 2)) of
            None \<Rightarrow> None
          | Some lst \<Rightarrow>
              if \<not> eswitch_vlan_range_valid vlan lst then None
              else let m2 = m1\<lparr>sm_vlan_last := lst\<rparr> in
              if v < 4 then Some m2
              else case (parse_u16 (tokens ! (i + 3)), parse_u16 (tokens ! (i + 4))) of
                (Some ev, Some el) \<Rightarrow>
                  if \<not> eswitch_vlan_allowlist_valid vlan lst ev el then None
                  else Some (m2\<lparr>sm_vlan_extra_id := ev, sm_vlan_extra_last := el\<rparr>)
              | _ \<Rightarrow> None)"

definition parse_access :: "string list \<Rightarrow> nat \<Rightarrow> u32 \<Rightarrow> eswitch_state_member \<Rightarrow> eswitch_state_member option" where
  "parse_access tokens i v m =
     (case parse_u16 (tokens ! (i + 1)) of
        None \<Rightarrow> None
      | Some vlan \<Rightarrow>
          if 3 \<le> v \<and> parse_u16 (tokens ! (i + 2)) \<noteq> Some vlan then None
          else if 4 \<le> v \<and> (parse_u32 (tokens ! (i + 3)) \<noteq> Some 0 \<or> parse_u32 (tokens ! (i + 4)) \<noteq> Some 0)
            then None
          else Some (m\<lparr>sm_vlan_id := vlan, sm_vlan_last := vlan\<rparr>))"

definition parse_vlans :: "string list \<Rightarrow> u32 \<Rightarrow> eswitch_state_member \<Rightarrow> eswitch_state_member option" where
  "parse_vlans tokens v m =
     (if v < 2 then Some m
      else let i = (if sm_kind m = ESWITCH_STATE_PORT_PARENT then 3 else 6) in
        if tokens ! i = ''trunk'' then parse_trunk tokens i v m
        else if tokens ! i \<noteq> ''access'' then None
        else parse_access tokens i v m)"

definition parse_member :: "string list \<Rightarrow> nat \<Rightarrow> u32 \<Rightarrow> eswitch_state \<Rightarrow> parsed" where
  "parse_member tokens count v st =
     (case parse_id (tokens ! 1) of
        None \<Rightarrow> refused (Some v) st
      | Some vs \<Rightarrow>
          case parse_port tokens count v (member_zero\<lparr>sm_vswitch_id := vs\<rparr>) of
            None \<Rightarrow> refused (Some v) st
          | Some m1 \<Rightarrow>
              case parse_vlans tokens v m1 of
                None \<Rightarrow> refused (Some v) st
              | Some m \<Rightarrow>
                  let (r, st') = eswitch_state_add_member st m in
                  if r \<noteq> DOCA_SUCCESS then refused (Some v) st' else (DOCA_SUCCESS, Some v, st'))"

definition parse_line :: "string \<Rightarrow> u32 option \<Rightarrow> eswitch_state \<Rightarrow> parsed" where
  "parse_line line version st =
     (let (tokens, count) = split_tokens 16 line in
      if count = 0 then (DOCA_SUCCESS, version, st)
      else if count = 2 \<and> tokens ! 0 = ''version'' then parse_version tokens version st
      else case version of
        None \<Rightarrow> refused version st
      | Some v \<Rightarrow>
          if (count = 2 \<or> count = 3 \<and> v = 5) \<and> tokens ! 0 = ''vswitch''
            then parse_vswitch tokens count v st
          else if 3 \<le> count \<and> tokens ! 0 = ''member'' then parse_member tokens count v st
          else refused version st)"

section \<open>Loading\<close>

definition nl :: char where "nl = CHR 0x0A"

text \<open>\<open>fgets\<close> with a buffer of \<open>n\<close> bytes, on a file that is not at its end.\<close>

definition fgets :: "nat \<Rightarrow> string \<Rightarrow> string \<times> string" where
  "fgets n text =
     (let pre = takeWhile (\<lambda>c. c \<noteq> nl) text;
          line = take (n - 1) (pre @ (if length pre < length text then [nl] else [])) in
      (line, drop (length line) text))"

text \<open>No newline in the buffer and the end of the file not reached: the line does not fit.\<close>

definition line_too_long :: "nat \<Rightarrow> string \<Rightarrow> bool" where
  "line_too_long n line \<longleftrightarrow> nl \<notin> set line \<and> n - 1 \<le> length line"

lemma fgets_shorter:
  assumes "text \<noteq> []"
  shows "length (snd (fgets ESWITCH_STATE_LINE_SIZE text)) < length text"
proof (cases "takeWhile (\<lambda>c. c \<noteq> nl) text")
  case Nil
  then show ?thesis using assms by (simp add: fgets_def ESWITCH_STATE_LINE_SIZE_def)
next
  case (Cons c cs)
  then show ?thesis using assms by (simp add: fgets_def ESWITCH_STATE_LINE_SIZE_def Let_def)
qed

text \<open>The loop ends at the end of the file, or after \<open>limit\<close> lines when reading fails there.\<close>

function load_lines :: "nat option \<Rightarrow> string \<Rightarrow> u32 option \<Rightarrow> eswitch_state \<Rightarrow> parsed" where
  "load_lines limit text version st =
     (if text = [] \<or> limit = Some 0 then (DOCA_SUCCESS, version, st)
      else if line_too_long ESWITCH_STATE_LINE_SIZE (fst (fgets ESWITCH_STATE_LINE_SIZE text))
        then (DOCA_ERROR_TOO_BIG, version, st)
      else let (r, version', st') = parse_line (fst (fgets ESWITCH_STATE_LINE_SIZE text)) version st in
        if r \<noteq> DOCA_SUCCESS then (r, version', st')
        else load_lines (map_option (\<lambda>n. n - 1) limit) (snd (fgets ESWITCH_STATE_LINE_SIZE text))
               version' st')"
  by pat_completeness auto

termination
  by (relation "measure (\<lambda>(limit, text, _). length text)") (simp_all add: fgets_shorter)

declare load_lines.simps [simp del]

type_synonym files = "string \<Rightarrow> string option"

text \<open>
  What the calls do: whether \<open>fopen\<close> and \<open>fclose\<close> succeed, and after how many lines, if ever, reading
  fails, which ends the loop as the end of the file does and is seen by \<open>ferror\<close>.
\<close>

record load_io =
  lio_open :: bool
  lio_read_error :: "nat option"
  lio_close :: bool

definition eswitch_state_load ::
  "load_io \<Rightarrow> files \<Rightarrow> string \<Rightarrow> eswitch_state \<Rightarrow> doca_error \<times> bool \<times> eswitch_state" where
  "eswitch_state_load io fs path st =
     (if path = [] then (DOCA_ERROR_INVALID_VALUE, False, st)
      else case fs path of
        None \<Rightarrow> (DOCA_SUCCESS, False, st)
      | Some text \<Rightarrow>
          if \<not> lio_open io then (DOCA_ERROR_IO_FAILED, False, st)
          else let (r, version, st') = load_lines (lio_read_error io) text None st in
          if r \<noteq> DOCA_SUCCESS then (r, True, st')
          else if lio_read_error io \<noteq> None then (DOCA_ERROR_IO_FAILED, True, st')
          else if \<not> lio_close io then (DOCA_ERROR_IO_FAILED, True, st')
          else if version = None then (DOCA_ERROR_INVALID_VALUE, True, st')
          else (DOCA_SUCCESS, True, st'))"

section \<open>Saving\<close>

fun unwords :: "string list \<Rightarrow> string" where
  "unwords [] = []"
| "unwords [w] = w"
| "unwords (w # ws) = w @ '' '' @ unwords ws"

definition mode_text :: "eswitch_port_mode \<Rightarrow> string" where
  "mode_text mode = (if mode = ESWITCH_PORT_MODE_TRUNK then ''trunk'' else ''access'')"

definition vlan_tokens :: "eswitch_state_member \<Rightarrow> string list" where
  "vlan_tokens m = [mode_text (sm_mode m), dec_u16 (sm_vlan_id m), dec_u16 (sm_vlan_last m),
     dec_u16 (sm_vlan_extra_id m), dec_u16 (sm_vlan_extra_last m)]"

definition member_tokens :: "eswitch_state_member \<Rightarrow> string list" where
  "member_tokens m =
     ''member'' # dec_u16 (sm_vswitch_id m) #
     (if sm_kind m = ESWITCH_STATE_PORT_PARENT then ''parent'' # vlan_tokens m
      else ''representor'' # dec_u32 (sm_host_index m) # dec_u32 (sm_pf_index m) #
           dec_u32 (sm_vf_index m) # vlan_tokens m)"

definition switch_tokens :: "u16 \<times> string \<Rightarrow> string list" where
  "switch_tokens s = [''vswitch'', dec_u16 (fst s)] @ (if snd s \<noteq> [] then [snd s] else [])"

definition state_lines :: "eswitch_state \<Rightarrow> string list" where
  "state_lines st =
     [''# eSwitch Management persistent state'', unwords [''version'', dec_u32 ESWITCH_STATE_VERSION]] @
     map (\<lambda>s. unwords (switch_tokens s)) (es_switches st) @
     map (\<lambda>m. unwords (member_tokens m)) (es_members st)"

definition state_text :: "eswitch_state \<Rightarrow> string" where
  "state_text st = concat (map (\<lambda>l. l @ [nl]) (state_lines st))"

text \<open>A named switch with an invalid name stops the writing.\<close>

definition names_writable :: "eswitch_state \<Rightarrow> bool" where
  "names_writable st \<longleftrightarrow> (\<forall>s\<in>set (es_switches st). snd s \<noteq> [] \<longrightarrow> eswitch_vs_name_valid (snd s))"

record save_io =
  sio_pid :: nat
  sio_open :: bool
  sio_fdopen :: bool
  sio_write :: bool
  sio_sync :: bool
  sio_close :: bool
  sio_rename :: bool
  sio_sync_dir :: bool

definition PATH_MAX :: nat where "PATH_MAX = 4096"

definition temporary_path :: "string \<Rightarrow> nat \<Rightarrow> string" where
  "temporary_path path pid = path @ ''.tmp.'' @ dec pid"

text \<open>
  The new text is on disk under the temporary name before \<open>rename\<close> makes it visible; every failure
  unlinks the temporary file.  A failed \<open>fsync\<close> of the directory is only a warning.
\<close>

definition eswitch_state_save ::
  "save_io \<Rightarrow> string \<Rightarrow> eswitch_state \<Rightarrow> files \<Rightarrow> doca_error \<times> files" where
  "eswitch_state_save io path st fs =
     (let tmp = temporary_path path (sio_pid io); failed = (DOCA_ERROR_IO_FAILED, fs(tmp := None)) in
      if path = [] then (DOCA_ERROR_INVALID_VALUE, fs)
      else if PATH_MAX \<le> length tmp then (DOCA_ERROR_TOO_BIG, fs)
      else if \<not> sio_open io then failed
      else if \<not> sio_fdopen io then failed
      else if \<not> names_writable st \<or> \<not> sio_write io then failed
      else if \<not> sio_sync io then failed
      else if \<not> sio_close io then failed
      else if \<not> sio_rename io then failed
      else (DOCA_SUCCESS, fs(tmp := None, path := Some (state_text st))))"

end
