(* ===== verification/Manager.thy ===== *)
theory Manager
  imports Fdb Eswitch_State Router_Hw Router_Pending Router_Nat
begin

text \<open>
  The state of the eSwitch manager (\<^verbatim>\<open>eswitch_manager.h\<close>) and its lookups.  The hardware
  pipeline, the sub-function packet interface, the clock and the allocator are the parameter
  \<open>manager_env\<close>: each call maps an abstract outer state to an error code, its outputs and the
  next state, and nothing is assumed of them.  The flood group of a switch is part of that outer
  state.
\<close>

section \<open>State\<close>

datatype ethernet_port_role =
    ETHERNET_PORT_ROLE_PARENT | ETHERNET_PORT_ROLE_REPRESENTOR | ETHERNET_PORT_ROLE_SF_REPRESENTOR

record ethernet_port =
  eth_port_id :: u16
  eth_role :: ethernet_port_role
  eth_host_index :: u32
  eth_pf_index :: u32
  eth_vf_index :: u32

record managed_vswitch =
  mv_exists :: bool
  mv_id :: u16
  mv_name :: string

definition vswitch_zero :: managed_vswitch where
  "vswitch_zero = \<lparr>mv_exists = False, mv_id = 0, mv_name = []\<rparr>"

record eswitch_port_membership =
  pm_vswitch_id :: u16
  pm_port_index :: nat
  pm_port_id :: u16
  pm_vlan_id :: u16
  pm_vlan_last :: u16
  pm_vlan_extra_id :: u16
  pm_vlan_extra_last :: u16
  pm_mode :: eswitch_port_mode
  pm_active :: bool

definition membership_zero :: eswitch_port_membership where
  "membership_zero = \<lparr>pm_vswitch_id = 0, pm_port_index = 0, pm_port_id = 0, pm_vlan_id = 0,
     pm_vlan_last = 0, pm_vlan_extra_id = 0, pm_vlan_extra_last = 0,
     pm_mode = ESWITCH_PORT_MODE_ACCESS, pm_active = False\<rparr>"

text \<open>The counters of the manager that its packet path updates, by name.\<close>

datatype manager_counter =
    Arp_replies | Arp_tx_drops | Arp_rate_drops | Arp_ignored | Arp_built | Arp_target_drops
  | Arp_sf_send_drops
  | Icmp_seen | Icmp_ignored | Icmp_built | Icmp_replies | Icmp_tx_drops
  | Nat_local_fallbacks | Nat_fail_closed_drops
  | Routed_seen | Routed_forwarded | Route_no_route | Route_ttl_expired | Route_invalid
  | Route_neighbor_misses | Route_arp_probes | Route_proactive_probes | Route_tx_drops
  | Egress_checked | Egress_allowed | Egress_denied | Egress_established_replies
  | Ingress_checked | Ingress_allowed | Ingress_denied | Ingress_established
  | Router_link_forwards | Router_link_drops | Shared_vswitch_forwards | Shared_vswitch_drops

text \<open>The router pointer is \<open>None\<close> until the router configuration is restored.\<close>

record eswitch_manager =
  mg_ports :: "ethernet_port list"
  mg_fdb :: eswitch_fdb
  mg_router :: "router_config option"
  mg_neighbors :: router_neighbor_table
  mg_pending :: router_pending_queue
  mg_nat :: nat_table
  mg_counters :: "manager_counter \<Rightarrow> u64"
  mg_arp_window_ns :: u64
  mg_arp_window_replies :: u32
  mg_next_hw_route_retry_ns :: u64
  mg_hw_route_retry_backoff_ns :: u64
  mg_switches :: "nat \<Rightarrow> managed_vswitch"
  mg_memberships :: "nat \<Rightarrow> eswitch_port_membership"
  mg_membership_count :: nat
  mg_port_owner :: "nat \<Rightarrow> u16"
  mg_started_ns :: u64
  mg_next_aging_ns :: u64
  mg_state_path :: string
  mg_initialized :: bool

definition ESWITCH_MAX_PERSISTED_MEMBERS :: nat where
  "ESWITCH_MAX_PERSISTED_MEMBERS = ESWITCH_MAX_VLAN_MEMBERSHIPS"
definition ESWITCH_HW_RETRY_INITIAL_NS :: u64 where "ESWITCH_HW_RETRY_INITIAL_NS = 1000000000"
definition ESWITCH_HW_RETRY_MAX_NS :: u64 where "ESWITCH_HW_RETRY_MAX_NS = 60000000000"

text \<open>An active return context of the sub-function interface, as far as the manager reads it.\<close>

record sf_return_context =
  sfc_interface_id :: u16
  sfc_directed :: bool
  sfc_target_port_id :: u16

text \<open>
  Connection tracking marks sessions of the NAT table as owned by hardware: each of its calls
  answers with the marks it set and cleared, slot by slot.
\<close>

type_synonym ct_marks = "(nat \<times> bool) list"

definition apply_marks :: "ct_marks \<Rightarrow> nat_table \<Rightarrow> nat_table" where
  "apply_marks marks t = foldl (\<lambda>t (i, active). router_nat_session_set_hardware_active t i active) t marks"

text \<open>
  The outer calls: ports of a switch attached, detached and released in the classifier, members
  of its flood group, its return context; the hardware route table, whether it is enabled,
  degraded and how large it is; the return contexts of the sub-function interface with their
  tags and its transmission; connection tracking and the reply exceptions; clock and allocator.
\<close>

record 's manager_env =
  me_flow :: "'s flow_env"
  me_attach :: "nat \<Rightarrow> u16 \<Rightarrow> eswitch_port_mode \<Rightarrow> u16 \<Rightarrow> u16 \<Rightarrow> u16 \<Rightarrow> u16 \<Rightarrow> 's \<Rightarrow> doca_error \<times> 's"
  me_detach :: "nat \<Rightarrow> u16 \<Rightarrow> 's \<Rightarrow> doca_error \<times> 's"
  me_release :: "nat \<Rightarrow> u16 \<Rightarrow> 's \<Rightarrow> doca_error \<times> 's"
  me_flood_add :: "u16 \<Rightarrow> u16 \<Rightarrow> 's \<Rightarrow> doca_error \<times> 's"
  me_flood_remove :: "u16 \<Rightarrow> u16 \<Rightarrow> 's \<Rightarrow> doca_error \<times> 's"
  me_flood_destroy :: "u16 \<Rightarrow> 's \<Rightarrow> doca_error \<times> 's"
  me_sf_unbind_vswitch :: "u16 \<Rightarrow> 's \<Rightarrow> doca_error \<times> 's"
  me_routing_enabled :: "'s \<Rightarrow> bool"
  me_routing_degraded :: "'s \<Rightarrow> bool"
  me_route_capacity :: "'s \<Rightarrow> nat"
  me_routes_sync :: "router_hw_route list \<Rightarrow> 's \<Rightarrow> doca_error \<times> 's"
  me_sf_bind_vswitch :: "u16 \<Rightarrow> u16 \<Rightarrow> u16 \<Rightarrow> u32 \<Rightarrow> mac \<Rightarrow> 's \<Rightarrow> doca_error \<times> u16 \<times> 's"
  me_sf_bind_egress :: "u16 \<Rightarrow> u16 \<Rightarrow> u16 \<Rightarrow> u16 \<Rightarrow> mac \<Rightarrow> 's \<Rightarrow> doca_error \<times> u16 \<times> 's"
  me_sf_unbind_rif :: "u16 \<Rightarrow> 's \<Rightarrow> doca_error \<times> 's"
  me_sf_unbind_egress :: "u16 \<Rightarrow> u16 \<Rightarrow> u16 \<Rightarrow> 's \<Rightarrow> doca_error \<times> 's"
  me_sf_send :: "bytes \<Rightarrow> u16 \<Rightarrow> 's \<Rightarrow> doca_error \<times> 's"
  me_sf_ready :: "'s \<Rightarrow> bool"
  me_sf_contexts :: "'s \<Rightarrow> sf_return_context list"
  me_ct_flush :: "u16 \<Rightarrow> 's \<Rightarrow> doca_error \<times> ct_marks \<times> 's"
  me_ct_expire :: "u64 \<Rightarrow> 's \<Rightarrow> doca_error \<times> ct_marks \<times> 's"
  me_acl_reply_flush :: "'s \<Rightarrow> doca_error \<times> 's"
  me_acl_reply_add :: "router_config \<Rightarrow> u16 \<Rightarrow> nat_session \<Rightarrow> 's \<Rightarrow> doca_error \<times> 's"
  me_authorize :: "u16 \<Rightarrow> u16 \<Rightarrow> u16 \<Rightarrow> bytes \<Rightarrow> u64 \<Rightarrow> 's \<Rightarrow> doca_error \<times> 's"
  me_ct_enabled :: "'s \<Rightarrow> bool"
  me_ct_promote :: "nat_session \<Rightarrow> u16 \<Rightarrow> u16 \<Rightarrow> mac \<Rightarrow> mac \<Rightarrow> u16 \<Rightarrow> u16 \<Rightarrow> mac \<Rightarrow> mac \<Rightarrow> 's \<Rightarrow>
     doca_error \<times> ct_marks \<times> 's"
  me_acl_reply_prune :: "'s \<Rightarrow> doca_error \<times> 's"
  me_authorized_prune :: "u64 \<Rightarrow> 's \<Rightarrow> doca_error \<times> 's"
  me_save_io :: "'s \<Rightarrow> save_io \<times> 's"
  me_clock :: "'s \<Rightarrow> u64 \<times> 's"
  me_malloc :: "'s \<Rightarrow> bool \<times> 's"

text \<open>\<open>eswitch_pipeline_ct_flush\<close> as the manager sees it, with the marks it clears.\<close>

definition ct_flush :: "'s manager_env \<Rightarrow> eswitch_manager \<Rightarrow> u16 \<Rightarrow> 's \<Rightarrow> doca_error \<times> eswitch_manager \<times> 's" where
  "ct_flush env m vr s =
     (let (r, marks, s1) = me_ct_flush env vr s in (r, m\<lparr>mg_nat := apply_marks marks (mg_nat m)\<rparr>, s1))"

section \<open>Lookups\<close>

definition find_vswitch :: "eswitch_manager \<Rightarrow> u16 \<Rightarrow> nat option" where
  "find_vswitch m vid =
     first_slot (\<lambda>v. mv_exists v \<and> mv_id v = vid) ESWITCH_MAX_VSWITCHES (mg_switches m)"

definition find_port_index :: "eswitch_manager \<Rightarrow> u16 \<Rightarrow> nat option" where
  "find_port_index m port = find_index (\<lambda>p. eth_port_id p = port) (mg_ports m)"

definition find_membership :: "eswitch_manager \<Rightarrow> u16 \<Rightarrow> u16 \<Rightarrow> nat option" where
  "find_membership m vs port =
     first_slot (\<lambda>p. pm_active p \<and> pm_vswitch_id p = vs \<and> pm_port_id p = port)
       ESWITCH_MAX_PERSISTED_MEMBERS (mg_memberships m)"

definition eswitch_port_in_vswitch :: "eswitch_manager \<Rightarrow> u16 \<Rightarrow> u16 \<Rightarrow> bool" where
  "eswitch_port_in_vswitch m vs port = (find_membership m vs port \<noteq> None)"

definition port_identity :: "ethernet_port \<Rightarrow> router_port_identity" where
  "port_identity p = \<lparr>pi_host = eth_host_index p, pi_pf = eth_pf_index p, pi_vf = eth_vf_index p\<rparr>"

definition router_control_port_reserved :: "eswitch_manager \<Rightarrow> nat \<Rightarrow> bool" where
  "router_control_port_reserved m i =
     (case mg_router m of
        None \<Rightarrow> False
      | Some c \<Rightarrow>
          if length (mg_ports m) \<le> i then False
          else if eth_role (mg_ports m ! i) \<noteq> ETHERNET_PORT_ROLE_REPRESENTOR then False
          else router_port_reserved c (port_identity (mg_ports m ! i)))"

section \<open>A fresh manager\<close>

definition SWITCH_MAX_FDB_ENTRIES :: nat where "SWITCH_MAX_FDB_ENTRIES = 1024"
definition SWITCH_FDB_AGING_SECONDS :: u32 where "SWITCH_FDB_AGING_SECONDS = 300"
definition SWITCH_AGING_SCAN_SECONDS :: u64 where "SWITCH_AGING_SCAN_SECONDS = 1"

text \<open>The zeroed structure, before and after the tables are set up.\<close>

definition manager_zero :: eswitch_manager where
  "manager_zero = \<lparr>mg_ports = [], mg_fdb = fdb_zero, mg_router = None,
     mg_neighbors = neighbor_table_zero, mg_pending = pending_queue_zero, mg_nat = router_nat_init,
     mg_counters = \<lambda>_. 0, mg_arp_window_ns = 0, mg_arp_window_replies = 0,
     mg_next_hw_route_retry_ns = 0, mg_hw_route_retry_backoff_ns = 0,
     mg_switches = \<lambda>_. vswitch_zero, mg_memberships = \<lambda>_. membership_zero,
     mg_membership_count = 0, mg_port_owner = \<lambda>_. 0, mg_started_ns = 0, mg_next_aging_ns = 0,
     mg_state_path = [], mg_initialized = False\<rparr>"

text \<open>
  The first part of \<open>eswitch_manager_init\<close>, with started devices: the two allocations, the check
  of the path and the forwarding database.
\<close>

definition manager_prepare ::
  "'s manager_env \<Rightarrow> ethernet_port list \<Rightarrow> string \<Rightarrow> 's \<Rightarrow> doca_error \<times> eswitch_manager \<times> 's" where
  "manager_prepare env ports path s =
     (if path = [] then (DOCA_ERROR_INVALID_VALUE, manager_zero, s)
      else let (ok, s1) = me_malloc env s in
      if \<not> ok then (DOCA_ERROR_NO_MEMORY, manager_zero, s1)
      else let (ok, s2) = me_malloc env s1 in
      if \<not> ok then (DOCA_ERROR_NO_MEMORY, manager_zero, s2)
      else let m = manager_zero\<lparr>mg_ports := ports, mg_state_path := take (PATH_MAX - 1) path\<rparr> in
      if PATH_MAX \<le> length path then (DOCA_ERROR_TOO_BIG, m, s2)
      else let (r, fdb) = eswitch_fdb_init True SWITCH_MAX_FDB_ENTRIES SWITCH_FDB_AGING_SECONDS (mg_fdb m);
               m1 = m\<lparr>mg_fdb := fdb\<rparr> in
      if r \<noteq> DOCA_SUCCESS then (r, m1, s2)
      else let (now, s3) = me_clock env s2 in
        (DOCA_SUCCESS, m1\<lparr>mg_started_ns := now,
           mg_next_aging_ns := now + SWITCH_AGING_SCAN_SECONDS * 1000000000, mg_initialized := True\<rparr>, s3))"

section \<open>Hardware routes\<close>

text \<open>The loop that drops a route by overwriting it with the last one.\<close>

function drop_routes :: "('a \<Rightarrow> bool) \<Rightarrow> 'a list \<Rightarrow> 'a list" where
  "drop_routes keep [] = []"
| "drop_routes keep (x # xs) =
     (if keep x then x # drop_routes keep xs
      else if xs = [] then [] else drop_routes keep (last xs # butlast xs))"
  by pat_completeness auto

termination by (relation "measure (\<lambda>(keep, xs). length xs)") auto

definition next_backoff :: "u64 \<Rightarrow> u64" where
  "next_backoff b =
     (if b = 0 then ESWITCH_HW_RETRY_INITIAL_NS
      else if b < ESWITCH_HW_RETRY_MAX_NS div 2 then b * 2
      else ESWITCH_HW_RETRY_MAX_NS)"

text \<open>\<open>active\<close> says that the configuration is the manager's own (the pointer comparison).\<close>

definition eswitch_manager_hw_routes_sync ::
  "'s manager_env \<Rightarrow> eswitch_manager \<Rightarrow> router_config option \<Rightarrow> bool \<Rightarrow> 's \<Rightarrow>
   doca_error \<times> eswitch_manager \<times> 's" where
  "eswitch_manager_hw_routes_sync env m config active s =
     (case config of
        None \<Rightarrow> (DOCA_ERROR_INVALID_VALUE, m, s)
      | Some c \<Rightarrow>
          if \<not> me_routing_enabled env s then (DOCA_SUCCESS, m, s)
          else let (now, s1) = me_clock env s in
          if active \<and> me_routing_degraded env s1 \<and> now \<noteq> 0 \<and> now < mg_next_hw_route_retry_ns m
            then (DOCA_SUCCESS, m, s1)
          else let (ok, s2) = me_malloc env s1 in
          if \<not> ok then (DOCA_ERROR_NO_MEMORY, m, s2)
          else let routes = router_hw_routes_build c (mg_neighbors m) now (me_route_capacity env s2);
                   live = drop_routes (\<lambda>r. find_port_index m (hr_target_port_id r) \<noteq> None \<and>
                            eswitch_port_in_vswitch m (hr_egress_vswitch_id r) (hr_target_port_id r)) routes;
                   (r, s3) = me_routes_sync env live s2 in
          if r = DOCA_SUCCESS
            then (r, m\<lparr>mg_next_hw_route_retry_ns := 0, mg_hw_route_retry_backoff_ns := 0\<rparr>, s3)
          else if active \<and> now \<noteq> 0
            then let b = next_backoff (mg_hw_route_retry_backoff_ns m) in
              (r, m\<lparr>mg_hw_route_retry_backoff_ns := b, mg_next_hw_route_retry_ns := now + b\<rparr>, s3)
          else (r, m, s3))"

end
