(* ===== verification/L2_Switch.thy ===== *)
theory L2_Switch
  imports Manager
begin

text \<open>
  Virtual switches and their members: \<^verbatim>\<open>l2/l2_switch.c\<close>, creation, attachment, detachment and
  deletion with their roll-backs, on the tables of the manager.
\<close>

section \<open>Members\<close>

definition pm_tagged :: "eswitch_port_membership \<Rightarrow> bool" where
  "pm_tagged p = eswitch_vlan_uses_tagged_domain (pm_mode p) (pm_vlan_id p) (pm_vlan_last p)
     (pm_vlan_extra_id p) (pm_vlan_extra_last p)"

definition pm_rules :: "eswitch_port_membership \<Rightarrow> nat" where
  "pm_rules p = vlan_rule_count (pm_mode p) (pm_vlan_id p) (pm_vlan_last p) (pm_vlan_extra_id p)
     (pm_vlan_extra_last p)"

definition pm_invalid :: "eswitch_port_membership \<Rightarrow> bool" where
  "pm_invalid p = member_vlans_invalid (pm_mode p) (pm_vlan_id p) (pm_vlan_last p)
     (pm_vlan_extra_id p) (pm_vlan_extra_last p)"

definition pm_overlap :: "eswitch_port_membership \<Rightarrow> eswitch_port_membership \<Rightarrow> bool" where
  "pm_overlap a b = eswitch_vlan_allowlists_overlap (pm_vlan_id a) (pm_vlan_last a)
     (pm_vlan_extra_id a) (pm_vlan_extra_last a) (pm_vlan_id b) (pm_vlan_last b)
     (pm_vlan_extra_id b) (pm_vlan_extra_last b)"

text \<open>The body of the loop of \<open>attach_port\<close> over the active members.\<close>

definition pm_conflict :: "eswitch_port_membership \<Rightarrow> eswitch_port_membership \<Rightarrow> bool" where
  "pm_conflict a b =
     (if pm_vswitch_id a = pm_vswitch_id b \<and> pm_tagged a \<noteq> pm_tagged b then True
      else if pm_port_index a \<noteq> pm_port_index b then False
      else pm_vswitch_id a = pm_vswitch_id b \<or> pm_mode a = ESWITCH_PORT_MODE_ACCESS \<or>
           pm_mode b = ESWITCH_PORT_MODE_ACCESS \<or> pm_overlap a b)"

definition active_members :: "eswitch_manager \<Rightarrow> eswitch_port_membership list" where
  "active_members m = filter pm_active (map (mg_memberships m) [0..<ESWITCH_MAX_PERSISTED_MEMBERS])"

definition requested_member ::
  "u16 \<Rightarrow> nat \<Rightarrow> u16 \<Rightarrow> eswitch_port_mode \<Rightarrow> u16 \<Rightarrow> u16 \<Rightarrow> u16 \<Rightarrow> u16 \<Rightarrow> eswitch_port_membership" where
  "requested_member vs i port mode v l ev el =
     \<lparr>pm_vswitch_id = vs, pm_port_index = i, pm_port_id = port, pm_vlan_id = v, pm_vlan_last = l,
      pm_vlan_extra_id = ev, pm_vlan_extra_last = el, pm_mode = mode, pm_active = True\<rparr>"

text \<open>What is stored: the last ids filled in.\<close>

definition stored_member :: "eswitch_port_membership \<Rightarrow> eswitch_port_membership" where
  "stored_member p = p
     \<lparr>pm_vlan_last := eswitch_vlan_range_last (pm_vlan_id p) (pm_vlan_last p),
      pm_vlan_extra_last :=
        (if eswitch_vlan_extra_present (pm_vlan_extra_id p) (pm_vlan_extra_last p)
           then eswitch_vlan_range_last (pm_vlan_extra_id p) (pm_vlan_extra_last p) else 0)\<rparr>"

section \<open>Creation\<close>

type_synonym 's l2_result = "doca_error \<times> eswitch_manager \<times> 's"

definition create_vswitch :: "eswitch_manager \<Rightarrow> u16 \<Rightarrow> doca_error \<times> eswitch_manager" where
  "create_vswitch m vid =
     (if vid = 0 then (DOCA_ERROR_INVALID_VALUE, m)
      else if find_vswitch m vid \<noteq> None then (DOCA_ERROR_ALREADY_EXIST, m)
      else case first_slot (\<lambda>v. \<not> mv_exists v) ESWITCH_MAX_VSWITCHES (mg_switches m) of
        None \<Rightarrow> (DOCA_ERROR_NO_MEMORY, m)
      | Some i \<Rightarrow> (DOCA_SUCCESS,
          m\<lparr>mg_switches := (mg_switches m)(i := \<lparr>mv_exists = True, mv_id = vid, mv_name = []\<rparr>)\<rparr>))"

section \<open>Attachment\<close>

text \<open>The guards, in order: \<open>Inr\<close> the port's index and the free slot.\<close>

definition attach_check ::
  "eswitch_manager \<Rightarrow> u16 \<Rightarrow> u16 \<Rightarrow> eswitch_port_mode \<Rightarrow> u16 \<Rightarrow> u16 \<Rightarrow> u16 \<Rightarrow> u16 \<Rightarrow>
   doca_error + nat \<times> nat" where
  "attach_check m vs port mode v l ev el =
     (if find_vswitch m vs = None then Inl DOCA_ERROR_NOT_FOUND
      else case find_port_index m port of
        None \<Rightarrow> Inl DOCA_ERROR_NOT_FOUND
      | Some i \<Rightarrow>
          let p = requested_member vs i port mode v l ev el in
          if eth_role (mg_ports m ! i) = ETHERNET_PORT_ROLE_SF_REPRESENTOR
            then Inl DOCA_ERROR_NOT_SUPPORTED
          else if pm_invalid p then Inl DOCA_ERROR_INVALID_VALUE
          else if router_control_port_reserved m i then Inl DOCA_ERROR_IN_USE
          else if pm_tagged p \<and> (case mg_router m of None \<Rightarrow> False | Some c \<Rightarrow> router_switch_reserved c vs)
            then Inl DOCA_ERROR_IN_USE
          else if list_ex (\<lambda>a. pm_conflict a p) (active_members m) then Inl DOCA_ERROR_IN_USE
          else case first_slot (\<lambda>a. \<not> pm_active a) ESWITCH_MAX_PERSISTED_MEMBERS (mg_memberships m) of
            None \<Rightarrow> Inl DOCA_ERROR_NO_MEMORY
          | Some j \<Rightarrow>
              if ESWITCH_MAX_VLAN_MEMBERSHIPS \<le> mg_membership_count m \<or>
                 ESWITCH_MAX_VLAN_MEMBERSHIPS < pm_rules p + sum_list (map pm_rules (active_members m))
                then Inl DOCA_ERROR_NO_MEMORY
              else Inr (i, j))"

text \<open>Slot \<open>j\<close> holds a member of switch \<open>vs\<close> on the port of index \<open>i\<close>.\<close>

definition store_member ::
  "nat \<Rightarrow> u16 \<Rightarrow> nat \<Rightarrow> eswitch_port_membership \<Rightarrow> eswitch_manager \<Rightarrow> eswitch_manager" where
  "store_member i vs j p m =
     m\<lparr>mg_memberships := (mg_memberships m)(j := p), mg_membership_count := mg_membership_count m + 1,
       mg_port_owner := (if pm_mode p = ESWITCH_PORT_MODE_ACCESS
                         then (mg_port_owner m)(i := vs) else mg_port_owner m)\<rparr>"

definition attach_port ::
  "'s manager_env \<Rightarrow> eswitch_manager \<Rightarrow> u16 \<Rightarrow> u16 \<Rightarrow> eswitch_port_mode \<Rightarrow> u16 \<Rightarrow> u16 \<Rightarrow> u16 \<Rightarrow> u16 \<Rightarrow> 's \<Rightarrow>
   's l2_result" where
  "attach_port env m vs port mode v l ev el s =
     (case attach_check m vs port mode v l ev el of
        Inl e \<Rightarrow> (e, m, s)
      | Inr (i, j) \<Rightarrow>
          let (r, s1) = me_attach env i vs mode v l ev el s in
          if r \<noteq> DOCA_SUCCESS then (r, m, s1)
          else let (r, s2) = me_flood_add env vs port s1 in
          if r \<noteq> DOCA_SUCCESS then
            (let (c, s3) = me_detach env i vs s2;
                 (c, s4) = (if c = DOCA_SUCCESS then me_release env i vs s3 else (c, s3)) in
             (if c = DOCA_SUCCESS then r else c, m, s4))
          else (DOCA_SUCCESS, store_member i vs j (stored_member (requested_member vs i port mode v l ev el)) m, s2))"

section \<open>Detachment\<close>

text \<open>Re-installing a member in the classifier and, if asked, its port in the flood group.\<close>

definition reattach ::
  "'s manager_env \<Rightarrow> nat \<Rightarrow> u16 \<Rightarrow> eswitch_port_membership \<Rightarrow> u16 option \<Rightarrow> 's \<Rightarrow> doca_error \<times> 's" where
  "reattach env i vs p flood s =
     (let (r, s1) = me_attach env i vs (pm_mode p) (pm_vlan_id p)
        (pm_vlan_last p) (pm_vlan_extra_id p) (pm_vlan_extra_last p) s in
      case flood of
        None \<Rightarrow> (r, s1)
      | Some port \<Rightarrow> if r = DOCA_SUCCESS then me_flood_add env vs port s1 else (r, s1))"

definition unless_failed :: "doca_error \<Rightarrow> doca_error \<Rightarrow> doca_error" where
  "unless_failed original rollback = (if rollback = DOCA_SUCCESS then original else rollback)"

definition clear_member :: "nat \<Rightarrow> nat \<Rightarrow> eswitch_manager \<Rightarrow> eswitch_manager" where
  "clear_member i j m =
     (let p = mg_memberships m j in
      m\<lparr>mg_port_owner := (if pm_mode p = ESWITCH_PORT_MODE_ACCESS
                          then (mg_port_owner m)(i := 0) else mg_port_owner m),
        mg_memberships := (mg_memberships m)(j := membership_zero),
        mg_membership_count := mg_membership_count m - 1\<rparr>)"

text \<open>The saved membership and neighbor table put back.\<close>

definition restore_member ::
  "nat \<Rightarrow> u16 \<Rightarrow> nat \<Rightarrow> eswitch_port_membership \<Rightarrow> router_neighbor_table \<Rightarrow> eswitch_manager \<Rightarrow>
   eswitch_manager" where
  "restore_member i vs j p nbs m = store_member i vs j p (m\<lparr>mg_neighbors := nbs\<rparr>)"

definition detach_port :: "'s manager_env \<Rightarrow> eswitch_manager \<Rightarrow> u16 \<Rightarrow> u16 \<Rightarrow> 's \<Rightarrow> 's l2_result" where
  "detach_port env m vs port s =
     (if find_vswitch m vs = None then (DOCA_ERROR_NOT_FOUND, m, s)
      else case find_port_index m port of None \<Rightarrow> (DOCA_ERROR_NOT_FOUND, m, s)
      | Some i \<Rightarrow>
      case find_membership m vs port of None \<Rightarrow> (DOCA_ERROR_INVALID_VALUE, m, s)
      | Some j \<Rightarrow>
          let saved = mg_memberships m j; nbs = mg_neighbors m;
              (ok, s0) = me_malloc env s in
          if \<not> ok then (DOCA_ERROR_NO_MEMORY, m, s0)
          else let (r, s1) = me_detach env i vs s0 in
          if r \<noteq> DOCA_SUCCESS then (r, m, s1)
          else let (r, s2) = me_flood_remove env vs port s1 in
          if r \<noteq> DOCA_SUCCESS then
            (let (b, s3) = reattach env i vs saved None s2 in (unless_failed r b, m, s3))
          else let (r, fdb, s3) = eswitch_fdb_flush_port (me_flow env) (mg_fdb m) vs port s2;
                   m3 = m\<lparr>mg_fdb := fdb\<rparr> in
          if r \<noteq> DOCA_SUCCESS then
            (let (b, s4) = reattach env i vs saved (Some port) s3 in (unless_failed r b, m3, s4))
          else let m4 = clear_member i j m3;
                   m5 = m4\<lparr>mg_neighbors := router_neighbor_invalidate_port (mg_neighbors m4) port\<rparr>;
                   (r, m6, s6) = eswitch_manager_hw_routes_sync env m5 (mg_router m5) True s3 in
          if r \<noteq> DOCA_SUCCESS then
            (let m7 = restore_member i vs j saved nbs m6; (b, s7) = reattach env i vs saved (Some port) s6 in
             (unless_failed r b, m7, s7))
          else let (r, s7) = me_release env i vs s6 in
          if r \<noteq> DOCA_SUCCESS then
            (let m7 = restore_member i vs j saved nbs m6;
                 (b, s8) = reattach env i vs saved (Some port) s7;
                 (b, m8, s9) = (if b = DOCA_SUCCESS
                                then eswitch_manager_hw_routes_sync env m7 (mg_router m7) True s8
                                else (b, m7, s8)) in
             (unless_failed r b, m8, s9))
          else (DOCA_SUCCESS, m6, s7))"

section \<open>Deletion\<close>

text \<open>First the classifier of every member, later its gate and its table entry.\<close>

fun detach_members :: "'s manager_env \<Rightarrow> u16 \<Rightarrow> eswitch_manager \<Rightarrow> nat list \<Rightarrow> 's \<Rightarrow> doca_error \<times> 's" where
  "detach_members env vid m [] s = (DOCA_SUCCESS, s)"
| "detach_members env vid m (j # js) s =
     (let p = mg_memberships m j in
      if \<not> pm_active p \<or> pm_vswitch_id p \<noteq> vid then detach_members env vid m js s
      else let (r, s1) = me_detach env (pm_port_index p) vid s in
        if r \<noteq> DOCA_SUCCESS then (r, s1) else detach_members env vid m js s1)"

fun release_members :: "'s manager_env \<Rightarrow> u16 \<Rightarrow> eswitch_manager \<Rightarrow> nat list \<Rightarrow> 's \<Rightarrow> 's l2_result" where
  "release_members env vid m [] s = (DOCA_SUCCESS, m, s)"
| "release_members env vid m (j # js) s =
     (let p = mg_memberships m j in
      if \<not> pm_active p \<or> pm_vswitch_id p \<noteq> vid then release_members env vid m js s
      else let (r, s1) = me_release env (pm_port_index p) vid s in
        if r \<noteq> DOCA_SUCCESS then (r, m, s1) else release_members env vid (clear_member (pm_port_index p) j m) js s1)"

definition delete_vswitch :: "'s manager_env \<Rightarrow> eswitch_manager \<Rightarrow> u16 \<Rightarrow> 's \<Rightarrow> 's l2_result" where
  "delete_vswitch env m vid s =
     (case find_vswitch m vid of
        None \<Rightarrow> (DOCA_ERROR_NOT_FOUND, m, s)
      | Some k \<Rightarrow>
          let (r, s1) = me_sf_unbind_vswitch env vid s in
          if r \<noteq> DOCA_SUCCESS then (r, m, s1)
          else let (r, fdb, s2) = eswitch_fdb_flush_vswitch (me_flow env) (mg_fdb m) vid s1;
                   m2 = m\<lparr>mg_fdb := fdb\<rparr> in
          if r \<noteq> DOCA_SUCCESS then (r, m2, s2)
          else let (r, s3) = detach_members env vid m2 [0..<ESWITCH_MAX_PERSISTED_MEMBERS] s2 in
          if r \<noteq> DOCA_SUCCESS then (r, m2, s3)
          else let (r, s4) = me_flood_destroy env vid s3 in
          if r \<noteq> DOCA_SUCCESS then (r, m2, s4)
          else let (r, m5, s5) = release_members env vid m2 [0..<ESWITCH_MAX_PERSISTED_MEMBERS] s4 in
          if r \<noteq> DOCA_SUCCESS then (r, m5, s5)
          else (DOCA_SUCCESS, m5\<lparr>mg_switches := (mg_switches m5)(k := vswitch_zero)\<rparr>, s5))"

end
