(* ===== verification/Sf_Context.thy ===== *)
theory Sf_Context
  imports Manager
begin

text \<open>
  How the manager finds router interfaces and ports, and keeps the return contexts of the
  sub-function interface armed (the first part of \<^verbatim>\<open>eswitch_manager.c\<close>).
\<close>

section \<open>Router interfaces and ports\<close>

definition manager_interfaces :: "eswitch_manager \<Rightarrow> router_interface list" where
  "manager_interfaces m = (case mg_router m of None \<Rightarrow> [] | Some c \<Rightarrow> cfg_interfaces c)"

definition find_router_interface :: "eswitch_manager \<Rightarrow> u16 \<Rightarrow> u16 \<Rightarrow> router_interface option" where
  "find_router_interface m vr i =
     find (\<lambda>r. rif_vr_id r = vr \<and> rif_interface_id r = i) (manager_interfaces m)"

definition find_router_vswitch_interface :: "eswitch_manager \<Rightarrow> u16 \<Rightarrow> mac \<Rightarrow> router_interface option" where
  "find_router_vswitch_interface m vs rif_mac' =
     find (\<lambda>r. rif_attachment r = ROUTER_VSWITCH \<and> rif_has_address r \<and> rif_vswitch_id r = vs \<and>
             rif_mac r = rif_mac') (manager_interfaces m)"

text \<open>A next hop that is another router interface on the same shared switch.\<close>

definition find_router_vswitch_peer ::
  "eswitch_manager \<Rightarrow> router_interface \<Rightarrow> u32 \<Rightarrow> router_interface option" where
  "find_router_vswitch_peer m egress next_hop =
     (if rif_attachment egress \<noteq> ROUTER_VSWITCH \<or> next_hop = 0 then None
      else find (\<lambda>r. rif_attachment r = ROUTER_VSWITCH \<and> rif_has_address r \<and>
             rif_vswitch_id r = rif_vswitch_id egress \<and> rif_vr_id r \<noteq> rif_vr_id egress \<and>
             rif_address r = next_hop) (manager_interfaces m))"

definition find_router_port_interface :: "eswitch_manager \<Rightarrow> u16 \<Rightarrow> u16 \<Rightarrow> router_interface option" where
  "find_router_port_interface m port vr =
     (case find_port_index m port of
        None \<Rightarrow> None
      | Some i \<Rightarrow> find (\<lambda>r. rif_attachment r = ROUTER_PORT \<and> rif_vr_id r = vr \<and>
                     rif_port r = port_identity (mg_ports m ! i)) (manager_interfaces m))"

definition find_router_interface_port_index :: "eswitch_manager \<Rightarrow> router_interface \<Rightarrow> nat option" where
  "find_router_interface_port_index m rif =
     (if rif_attachment rif \<noteq> ROUTER_PORT then None
      else find_index (\<lambda>p. eth_role p = ETHERNET_PORT_ROLE_REPRESENTOR \<and> port_identity p = rif_port rif)
             (mg_ports m))"

definition port_id_at :: "eswitch_manager \<Rightarrow> nat \<Rightarrow> u16" where
  "port_id_at m i = eth_port_id (mg_ports m ! i)"

section \<open>Binding a context\<close>

text \<open>The result: the error code, the context's tag and the outer state.\<close>

definition bind_sf_return_context ::
  "'s manager_env \<Rightarrow> eswitch_manager \<Rightarrow> u16 \<Rightarrow> mac \<Rightarrow> 's \<Rightarrow> doca_error \<times> u16 \<times> 's" where
  "bind_sf_return_context env m vs rm s =
     (case find_router_vswitch_interface m vs rm of
        None \<Rightarrow> (DOCA_ERROR_NOT_FOUND, 0, s)
      | Some rif \<Rightarrow>
          let (r, tag, s1) = me_sf_bind_vswitch env (rif_vr_id rif) (rif_interface_id rif) vs
                (rif_address rif) rm s in
          if r \<noteq> DOCA_ERROR_BAD_STATE then (r, tag, s1)
          else let (r, s2) = me_sf_unbind_rif env (rif_interface_id rif) s1 in
          if r \<noteq> DOCA_SUCCESS then (r, tag, s2)
          else me_sf_bind_vswitch env (rif_vr_id rif) (rif_interface_id rif) vs (rif_address rif) rm s2)"

definition bind_sf_directed_context ::
  "'s manager_env \<Rightarrow> eswitch_manager \<Rightarrow> u16 \<Rightarrow> u16 \<Rightarrow> mac \<Rightarrow> 's \<Rightarrow> doca_error \<times> u16 \<times> 's" where
  "bind_sf_directed_context env m vs target rm s =
     (let (r, flood_tag, s1) = bind_sf_return_context env m vs rm s in
      if r \<noteq> DOCA_SUCCESS then (r, 0, s1)
      else case find_router_vswitch_interface m vs rm of
        None \<Rightarrow> (DOCA_ERROR_NOT_FOUND, 0, s1)
      | Some rif \<Rightarrow> me_sf_bind_egress env (rif_vr_id rif) (rif_interface_id rif) vs target rm s1)"

definition bind_route_egress ::
  "'s manager_env \<Rightarrow> eswitch_manager \<Rightarrow> router_interface \<Rightarrow> u16 \<Rightarrow> 's \<Rightarrow> doca_error \<times> u16 \<times> 's" where
  "bind_route_egress env m egress target s =
     (if rif_attachment egress = ROUTER_VSWITCH
        then bind_sf_directed_context env m (rif_vswitch_id egress) target (rif_mac egress) s
      else let bind = me_sf_bind_egress env (rif_vr_id egress) (rif_interface_id egress)
                 (rif_vr_id egress) target (rif_mac egress);
               (r, tag, s1) = bind s in
      if r \<noteq> DOCA_ERROR_BAD_STATE then (r, tag, s1)
      else let (r, s2) = me_sf_unbind_egress env (rif_interface_id egress) (rif_vr_id egress) target s1 in
      if r \<noteq> DOCA_SUCCESS then (r, tag, s2) else bind s2)"

section \<open>Arming every context of a configuration\<close>

definition ESWITCH_MAX_SF_RETURN_CONTEXTS :: nat where "ESWITCH_MAX_SF_RETURN_CONTEXTS = 256"

definition sf_context_exists :: "sf_return_context list \<Rightarrow> u16 \<Rightarrow> bool \<Rightarrow> u16 \<Rightarrow> bool" where
  "sf_context_exists contexts i directed target =
     list_ex (\<lambda>c. sfc_interface_id c = i \<and> sfc_directed c = directed \<and>
                (\<not> directed \<or> sfc_target_port_id c = target)) contexts"

definition switch_members :: "eswitch_manager \<Rightarrow> u16 \<Rightarrow> eswitch_port_membership list" where
  "switch_members m vs = filter (\<lambda>p. pm_active p \<and> pm_vswitch_id p = vs)
     (map (mg_memberships m) [0..<ESWITCH_MAX_PERSISTED_MEMBERS])"

text \<open>How many contexts one interface lacks; \<open>None\<close> when its port is not there.\<close>

definition missing_contexts ::
  "eswitch_manager \<Rightarrow> sf_return_context list \<Rightarrow> router_interface \<Rightarrow> nat option" where
  "missing_contexts m contexts rif =
     (if \<not> rif_has_address rif \<or> rif_attachment rif = ROUTER_LINK then Some 0
      else if rif_attachment rif = ROUTER_VSWITCH then
        Some ((if sf_context_exists contexts (rif_interface_id rif) False (- 1) then 0 else 1) +
              length (filter (\<lambda>p. \<not> sf_context_exists contexts (rif_interface_id rif) True (pm_port_id p))
                (switch_members m (rif_vswitch_id rif))))
      else case find_router_interface_port_index m rif of
        None \<Rightarrow> None
      | Some i \<Rightarrow> Some (if sf_context_exists contexts (rif_interface_id rif) True (port_id_at m i) then 0 else 1))"

fun count_missing ::
  "eswitch_manager \<Rightarrow> sf_return_context list \<Rightarrow> router_interface list \<Rightarrow> nat option" where
  "count_missing m contexts [] = Some 0"
| "count_missing m contexts (rif # rifs) =
     (case missing_contexts m contexts rif of
        None \<Rightarrow> None
      | Some k \<Rightarrow> map_option (\<lambda>n. k + n) (count_missing m contexts rifs))"

definition preflight_router_contexts ::
  "'s manager_env \<Rightarrow> eswitch_manager \<Rightarrow> router_config \<Rightarrow> 's \<Rightarrow> doca_error" where
  "preflight_router_contexts env m c s =
     (let contexts = me_sf_contexts env s in
      case count_missing m contexts (cfg_interfaces c) of
        None \<Rightarrow> DOCA_ERROR_NOT_FOUND
      | Some missing \<Rightarrow>
          if ESWITCH_MAX_SF_RETURN_CONTEXTS < length contexts + missing then DOCA_ERROR_NO_MEMORY
          else DOCA_SUCCESS)"

fun arm_members ::
  "'s manager_env \<Rightarrow> router_interface \<Rightarrow> eswitch_port_membership list \<Rightarrow> 's \<Rightarrow> doca_error \<times> 's" where
  "arm_members env rif [] s = (DOCA_SUCCESS, s)"
| "arm_members env rif (p # ps) s =
     (let (r, tag, s1) = me_sf_bind_egress env (rif_vr_id rif) (rif_interface_id rif)
        (rif_vswitch_id rif) (pm_port_id p) (rif_mac rif) s in
      if r \<noteq> DOCA_SUCCESS then (r, s1) else arm_members env rif ps s1)"

definition arm_interface ::
  "'s manager_env \<Rightarrow> eswitch_manager \<Rightarrow> router_interface \<Rightarrow> 's \<Rightarrow> doca_error \<times> 's" where
  "arm_interface env m rif s =
     (if \<not> rif_has_address rif \<or> rif_attachment rif = ROUTER_LINK then (DOCA_SUCCESS, s)
      else if rif_attachment rif = ROUTER_VSWITCH then
        (let (r, tag, s1) = me_sf_bind_vswitch env (rif_vr_id rif) (rif_interface_id rif)
           (rif_vswitch_id rif) (rif_address rif) (rif_mac rif) s in
         if r \<noteq> DOCA_SUCCESS then (r, s1)
         else arm_members env rif (switch_members m (rif_vswitch_id rif)) s1)
      else case find_router_interface_port_index m rif of
        None \<Rightarrow> (DOCA_ERROR_NOT_FOUND, s)
      | Some i \<Rightarrow>
          let (r, tag, s1) = me_sf_bind_egress env (rif_vr_id rif) (rif_interface_id rif)
                (rif_vr_id rif) (port_id_at m i) (rif_mac rif) s in (r, s1))"

fun arm_interfaces ::
  "'s manager_env \<Rightarrow> eswitch_manager \<Rightarrow> router_interface list \<Rightarrow> 's \<Rightarrow> doca_error \<times> 's" where
  "arm_interfaces env m [] s = (DOCA_SUCCESS, s)"
| "arm_interfaces env m (rif # rifs) s =
     (let (r, s1) = arm_interface env m rif s in
      if r \<noteq> DOCA_SUCCESS then (r, s1) else arm_interfaces env m rifs s1)"

definition prearm_router_contexts ::
  "'s manager_env \<Rightarrow> eswitch_manager \<Rightarrow> router_config \<Rightarrow> 's \<Rightarrow> doca_error \<times> 's" where
  "prearm_router_contexts env m c s =
     (let r = preflight_router_contexts env m c s in
      if r \<noteq> DOCA_SUCCESS then (r, s) else arm_interfaces env m (cfg_interfaces c) s)"

definition eswitch_manager_router_prearm ::
  "'s manager_env \<Rightarrow> eswitch_manager \<Rightarrow> router_config \<Rightarrow> 's \<Rightarrow> doca_error \<times> 's" where
  "eswitch_manager_router_prearm env m c s = prearm_router_contexts env m c s"

text \<open>The directed contexts of one member removed, for every interface of its switch.\<close>

fun unarm_interfaces ::
  "'s manager_env \<Rightarrow> u16 \<Rightarrow> u16 \<Rightarrow> router_interface list \<Rightarrow> 's \<Rightarrow> doca_error \<times> 's" where
  "unarm_interfaces env vs port [] s = (DOCA_SUCCESS, s)"
| "unarm_interfaces env vs port (rif # rifs) s =
     (if rif_attachment rif \<noteq> ROUTER_VSWITCH \<or> rif_vswitch_id rif \<noteq> vs
        then unarm_interfaces env vs port rifs s
      else let (r, s1) = me_sf_unbind_egress env (rif_interface_id rif) vs port s in
        if r \<noteq> DOCA_SUCCESS then (r, s1) else unarm_interfaces env vs port rifs s1)"

definition unarm_router_member ::
  "'s manager_env \<Rightarrow> eswitch_manager \<Rightarrow> u16 \<Rightarrow> u16 \<Rightarrow> 's \<Rightarrow> doca_error \<times> 's" where
  "unarm_router_member env m vs port s = unarm_interfaces env vs port (manager_interfaces m) s"

end
