(* ===== verification/Manager_Persist.thy ===== *)
theory Manager_Persist
  imports L2_Switch Sf_Context
begin

text \<open>
  Switch operations with persistence (the middle part of \<^verbatim>\<open>eswitch_manager.c\<close>): the tables written
  to the configuration file after each change, rolled back when that fails, and restored at
  start-up.  Files are the map of \<open>Eswitch_State\<close>, kept beside the outer state.
\<close>

section \<open>Tables to file\<close>

fun add_switches :: "eswitch_state \<Rightarrow> managed_vswitch list \<Rightarrow> doca_error \<times> eswitch_state" where
  "add_switches st [] = (DOCA_SUCCESS, st)"
| "add_switches st (v # vs) =
     (if \<not> mv_exists v then add_switches st vs
      else let (r, st1) = eswitch_state_add_switch st (mv_id v) in
      if r \<noteq> DOCA_SUCCESS then (r, st1)
      else add_switches (st1\<lparr>es_switches := butlast (es_switches st1) @ [(mv_id v, mv_name v)]\<rparr>) vs)"

definition state_member :: "eswitch_manager \<Rightarrow> eswitch_port_membership \<Rightarrow> eswitch_state_member" where
  "state_member m p =
     (let port = mg_ports m ! pm_port_index p;
          x = member_zero\<lparr>sm_vswitch_id := pm_vswitch_id p, sm_mode := pm_mode p,
                sm_vlan_id := pm_vlan_id p, sm_vlan_last := pm_vlan_last p,
                sm_vlan_extra_id := pm_vlan_extra_id p, sm_vlan_extra_last := pm_vlan_extra_last p\<rparr> in
      if eth_role port = ETHERNET_PORT_ROLE_PARENT then x\<lparr>sm_kind := ESWITCH_STATE_PORT_PARENT\<rparr>
      else x\<lparr>sm_kind := ESWITCH_STATE_PORT_REPRESENTOR, sm_host_index := eth_host_index port,
             sm_pf_index := eth_pf_index port, sm_vf_index := eth_vf_index port\<rparr>)"

fun add_members ::
  "eswitch_manager \<Rightarrow> eswitch_state \<Rightarrow> eswitch_port_membership list \<Rightarrow> doca_error \<times> eswitch_state" where
  "add_members m st [] = (DOCA_SUCCESS, st)"
| "add_members m st (p # ps) =
     (if \<not> pm_active p then add_members m st ps
      else let (r, st1) = eswitch_state_add_member st (state_member m p) in
      if r \<noteq> DOCA_SUCCESS then (r, st1) else add_members m st1 ps)"

definition manager_to_state :: "bool \<Rightarrow> eswitch_manager \<Rightarrow> doca_error \<times> eswitch_state" where
  "manager_to_state calloc_ok m =
     (let (r, st) = eswitch_state_init ESWITCH_MAX_PERSISTED_MEMBERS calloc_ok state_zero in
      if r \<noteq> DOCA_SUCCESS then (r, st)
      else let (r, st1) = add_switches st (map (mg_switches m) [0..<ESWITCH_MAX_VSWITCHES]) in
      if r \<noteq> DOCA_SUCCESS then (r, st1)
      else add_members m st1 (map (mg_memberships m) [0..<ESWITCH_MAX_PERSISTED_MEMBERS]))"

definition persist_manager ::
  "'s manager_env \<Rightarrow> eswitch_manager \<Rightarrow> files \<Rightarrow> 's \<Rightarrow> doca_error \<times> files \<times> 's" where
  "persist_manager env m fs s =
     (let (ok, s1) = me_malloc env s; (r, st) = manager_to_state ok m in
      if r \<noteq> DOCA_SUCCESS then (r, fs, s1)
      else let (io, s2) = me_save_io env s1; (r, fs') = eswitch_state_save io (mg_state_path m) st fs in
      (r, fs', s2))"

section \<open>File to tables\<close>

definition find_state_member_port :: "eswitch_manager \<Rightarrow> eswitch_state_member \<Rightarrow> nat option" where
  "find_state_member_port m x =
     find_index (\<lambda>port.
       (sm_kind x = ESWITCH_STATE_PORT_PARENT \<and> eth_role port = ETHERNET_PORT_ROLE_PARENT) \<or>
       (sm_kind x = ESWITCH_STATE_PORT_REPRESENTOR \<and> eth_role port = ETHERNET_PORT_ROLE_REPRESENTOR \<and>
        eth_host_index port = sm_host_index x \<and> eth_pf_index port = sm_pf_index x \<and>
        eth_vf_index port = sm_vf_index x)) (mg_ports m)"

text \<open>\<open>strcpy\<close> into the name of an existing switch.\<close>

definition set_vswitch_name :: "eswitch_manager \<Rightarrow> u16 \<Rightarrow> string \<Rightarrow> eswitch_manager" where
  "set_vswitch_name m vs name =
     (case find_vswitch m vs of
        None \<Rightarrow> m
      | Some k \<Rightarrow> m\<lparr>mg_switches := (mg_switches m)(k := (mg_switches m k)\<lparr>mv_name := name\<rparr>)\<rparr>)"

fun restore_switches :: "eswitch_manager \<Rightarrow> (u16 \<times> string) list \<Rightarrow> doca_error \<times> eswitch_manager" where
  "restore_switches m [] = (DOCA_SUCCESS, m)"
| "restore_switches m ((vs, name) # sws) =
     (let (r, m1) = create_vswitch m vs in
      if r \<noteq> DOCA_SUCCESS then (r, m1) else restore_switches (set_vswitch_name m1 vs name) sws)"

fun restore_members ::
  "'s manager_env \<Rightarrow> eswitch_manager \<Rightarrow> eswitch_state_member list \<Rightarrow> 's \<Rightarrow> 's l2_result" where
  "restore_members env m [] s = (DOCA_SUCCESS, m, s)"
| "restore_members env m (x # xs) s =
     (case find_state_member_port m x of
        None \<Rightarrow> (DOCA_ERROR_NOT_FOUND, m, s)
      | Some i \<Rightarrow>
          let (r, m1, s1) = attach_port env m (sm_vswitch_id x) (port_id_at m i) (sm_mode x) (sm_vlan_id x)
                (sm_vlan_last x) (sm_vlan_extra_id x) (sm_vlan_extra_last x) s in
          if r \<noteq> DOCA_SUCCESS then (r, m1, s1) else restore_members env m1 xs s1)"

type_synonym 's managed = "doca_error \<times> eswitch_manager \<times> files \<times> 's"

definition restore_manager ::
  "'s manager_env \<Rightarrow> load_io \<Rightarrow> eswitch_manager \<Rightarrow> files \<Rightarrow> 's \<Rightarrow> 's managed" where
  "restore_manager env io m fs s =
     (let (ok, s1) = me_malloc env s;
          (r, st) = eswitch_state_init ESWITCH_MAX_PERSISTED_MEMBERS ok state_zero in
      if r \<noteq> DOCA_SUCCESS then (r, m, fs, s1)
      else let (r, found, st) = eswitch_state_load io fs (mg_state_path m) st in
      if r \<noteq> DOCA_SUCCESS then (r, m, fs, s1)
      else if \<not> found then (let (r, fs', s2) = persist_manager env m fs s1 in (r, m, fs', s2))
      else let (r, m1) = restore_switches m (es_switches st) in
      if r \<noteq> DOCA_SUCCESS then (r, m1, fs, s1)
      else let (r, m2, s2) = restore_members env m1 (es_members st) s1 in (r, m2, fs, s2))"

section \<open>Operations with persistence\<close>

definition create_vswitch_persisted ::
  "'s manager_env \<Rightarrow> eswitch_manager \<Rightarrow> u16 \<Rightarrow> string \<Rightarrow> files \<Rightarrow> 's \<Rightarrow> 's managed" where
  "create_vswitch_persisted env m vs name fs s =
     (let (r, m1) = create_vswitch m vs in
      if r \<noteq> DOCA_SUCCESS then (r, m1, fs, s)
      else let m2 = set_vswitch_name m1 vs name; (w, fs2, s2) = persist_manager env m2 fs s in
      if w = DOCA_SUCCESS then (r, m2, fs2, s2)
      else let (b, m3, s3) = delete_vswitch env m2 vs s2 in (unless_failed w b, m3, fs2, s3))"

definition prearm_active :: "'s manager_env \<Rightarrow> eswitch_manager \<Rightarrow> 's \<Rightarrow> doca_error \<times> 's" where
  "prearm_active env m s =
     (case mg_router m of None \<Rightarrow> (DOCA_SUCCESS, s) | Some c \<Rightarrow> eswitch_manager_router_prearm env m c s)"

text \<open>Taking an attached member down again.\<close>

definition undo_attach ::
  "'s manager_env \<Rightarrow> doca_error \<Rightarrow> eswitch_manager \<Rightarrow> u16 \<Rightarrow> u16 \<Rightarrow> files \<Rightarrow> 's \<Rightarrow> 's managed" where
  "undo_attach env original m vs port fs s =
     (let (b, s1) = unarm_router_member env m vs port s in
      if b \<noteq> DOCA_SUCCESS then (b, m, fs, s1)
      else let (b, m2, s2) = detach_port env m vs port s1 in (unless_failed original b, m2, fs, s2))"

definition attach_port_persisted ::
  "'s manager_env \<Rightarrow> eswitch_manager \<Rightarrow> u16 \<Rightarrow> u16 \<Rightarrow> eswitch_port_mode \<Rightarrow> u16 \<Rightarrow> u16 \<Rightarrow> u16 \<Rightarrow> u16 \<Rightarrow>
   files \<Rightarrow> 's \<Rightarrow> 's managed" where
  "attach_port_persisted env m vs port mode v l ev el fs s =
     (let (r, m1, s1) = attach_port env m vs port mode v l ev el s in
      if r \<noteq> DOCA_SUCCESS then (r, m1, fs, s1)
      else let (r, s2) = prearm_active env m1 s1 in
      if r \<noteq> DOCA_SUCCESS then undo_attach env r m1 vs port fs s2
      else let (w, fs3, s3) = persist_manager env m1 fs s2 in
      if w \<noteq> DOCA_SUCCESS then undo_attach env w m1 vs port fs3 s3
      else (DOCA_SUCCESS, m1, fs3, s3))"

text \<open>
  The live sessions and reply exceptions are flushed first; \<open>None\<close> is a NAT index walk that does
  not end.
\<close>

definition detach_port_persisted ::
  "'s manager_env \<Rightarrow> eswitch_manager \<Rightarrow> u16 \<Rightarrow> u16 \<Rightarrow> files \<Rightarrow> 's \<Rightarrow> 's managed option" where
  "detach_port_persisted env m vs port fs s =
     (if find_vswitch m vs = None then Some (DOCA_ERROR_NOT_FOUND, m, fs, s)
      else if find_port_index m port = None then Some (DOCA_ERROR_NOT_FOUND, m, fs, s)
      else case find_membership m vs port of
        None \<Rightarrow> Some (DOCA_ERROR_INVALID_VALUE, m, fs, s)
      | Some j \<Rightarrow>
          let old = mg_memberships m j;
              (r, s1) = me_acl_reply_flush env s;
              (r, m1, s2) = (if r = DOCA_SUCCESS then ct_flush env m 0 s1 else (r, m, s1)) in
          if r \<noteq> DOCA_SUCCESS then Some (r, m1, fs, s2)
          else case router_nat_flush (mg_nat m1) 0 of
            None \<Rightarrow> None
          | Some nt \<Rightarrow>
              let m2 = m1\<lparr>mg_nat := nt\<rparr>; (r, s3) = unarm_router_member env m2 vs port s2 in
              if r \<noteq> DOCA_SUCCESS then Some (r, m2, fs, s3)
              else let (r, m4, s4) = detach_port env m2 vs port s3 in
              if r \<noteq> DOCA_SUCCESS then Some (r, m4, fs, snd (prearm_active env m4 s4))
              else let (w, fs5, s5) = persist_manager env m4 fs s4 in
              if w = DOCA_SUCCESS then Some (DOCA_SUCCESS, m4, fs5, s5)
              else let (b, m6, s6) = attach_port env m4 vs port (pm_mode old) (pm_vlan_id old)
                         (pm_vlan_last old) (pm_vlan_extra_id old) (pm_vlan_extra_last old) s5 in
              if b \<noteq> DOCA_SUCCESS then Some (b, m6, fs5, s6)
              else let (b, s7) = prearm_active env m6 s6 in Some (unless_failed w b, m6, fs5, s7))"

fun reattach_members ::
  "'s manager_env \<Rightarrow> eswitch_manager \<Rightarrow> u16 \<Rightarrow> eswitch_port_membership list \<Rightarrow> 's \<Rightarrow> 's l2_result" where
  "reattach_members env m vs [] s = (DOCA_SUCCESS, m, s)"
| "reattach_members env m vs (p # ps) s =
     (let (r, m1, s1) = attach_port env m vs (pm_port_id p) (pm_mode p) (pm_vlan_id p)
        (pm_vlan_last p) (pm_vlan_extra_id p) (pm_vlan_extra_last p) s in
      if r \<noteq> DOCA_SUCCESS then (r, m1, s1) else reattach_members env m1 vs ps s1)"

definition delete_vswitch_persisted ::
  "'s manager_env \<Rightarrow> eswitch_manager \<Rightarrow> u16 \<Rightarrow> files \<Rightarrow> 's \<Rightarrow> 's managed" where
  "delete_vswitch_persisted env m vs fs s =
     (case find_vswitch m vs of
        None \<Rightarrow> (DOCA_ERROR_NOT_FOUND, m, fs, s)
      | Some k \<Rightarrow>
          let old_name = mv_name (mg_switches m k); (ok, s0) = me_malloc env s in
          if \<not> ok then (DOCA_ERROR_NO_MEMORY, m, fs, s0)
          else let members = switch_members m vs; (r, m1, s1) = delete_vswitch env m vs s0 in
          if r \<noteq> DOCA_SUCCESS then (r, m1, fs, s1)
          else let (w, fs2, s2) = persist_manager env m1 fs s1 in
          if w = DOCA_SUCCESS then (DOCA_SUCCESS, m1, fs2, s2)
          else let (b, m3) = create_vswitch m1 vs in
          if b \<noteq> DOCA_SUCCESS then (b, m3, fs2, s2)
          else let (b, m4, s4) = reattach_members env (set_vswitch_name m3 vs old_name) vs members s2 in
          (unless_failed w b, m4, fs2, s4))"

end
