(* ===== verification/Fdb_Inv.thy ===== *)
theory Fdb_Inv
  imports Fdb "HOL-Library.Sublist"
begin

text \<open>
  The forwarding database over any sequence of operations: its counter is exact, its keys are
  distinct, it never outgrows its capacity and it never forgets a hardware rule; what learning
  and aging decide about one entry.
\<close>

section \<open>The invariant\<close>

text \<open>
  The counter is exact and within the capacity, no two entries have the same switch, VLAN and
  MAC, and every entry still owns a hardware rule: an entry is freed exactly when its hardware
  is gone, so no rule is forgotten and none belongs to a freed cookie.
\<close>

definition fdb_wf :: "eswitch_fdb \<Rightarrow> bool" where
  "fdb_wf fdb \<longleftrightarrow>
     fdb_count fdb = length (fdb_entries fdb) \<and> fdb_count fdb \<le> fdb_capacity fdb \<and>
     distinct (map fe_key (fdb_entries fdb)) \<and>
     (\<forall>e\<in>set (fdb_entries fdb). \<not> hw_empty (fe_hardware e) \<and> fe_vswitch_id e \<noteq> 0 \<and>
        rte_is_valid_assigned_ether_addr (fe_mac e))"

lemma fdb_wf_zero: "fdb_wf fdb_zero"
  by (simp add: fdb_wf_def fdb_zero_def)

lemma fdb_find_None: "fdb_find_entry fdb k = None \<longleftrightarrow> k \<notin> fe_key ` set (fdb_entries fdb)"
  by (auto simp: fdb_find_entry_def find_index_None)

lemma fdb_find_Some:
  "fdb_find_entry fdb k = Some i \<Longrightarrow> i < length (fdb_entries fdb) \<and> fe_key (fdb_entries fdb ! i) = k"
  using find_index_Some [of "\<lambda>e. fe_key e = k" "fdb_entries fdb" i] by (simp add: fdb_find_entry_def)

lemma fdb_set_wf:
  assumes "fdb_wf fdb" "i < length (fdb_entries fdb)" "fe_key e = fe_key (fdb_entries fdb ! i)"
    "\<not> hw_empty (fe_hardware e)"
  shows "fdb_wf (fdb_set i e fdb)"
proof -
  have ob: "fdb_entries fdb ! i \<in> set (fdb_entries fdb)" using assms(2) by simp
  have "map fe_key ((fdb_entries fdb)[i := e]) = map fe_key (fdb_entries fdb)"
    using assms(2,3) by (simp add: map_update list_update_same_conv)
  moreover have "fe_vswitch_id e = fe_vswitch_id (fdb_entries fdb ! i)"
    "fe_mac e = fe_mac (fdb_entries fdb ! i)" using assms(3) by (auto simp: fe_key_def)
  ultimately show ?thesis
    using assms(1,4) ob by (auto simp: fdb_wf_def fdb_set_def dest!: set_update_subset_insert [THEN subsetD])
qed

lemma fdb_push_wf:
  assumes "fdb_wf fdb" "fe_key e \<notin> fe_key ` set (fdb_entries fdb)" "fdb_count fdb < fdb_capacity fdb"
    "\<not> hw_empty (fe_hardware e)" "fe_vswitch_id e \<noteq> 0" "rte_is_valid_assigned_ether_addr (fe_mac e)"
  shows "fdb_wf (fdb_push e fdb)"
  using assms by (auto simp: fdb_wf_def fdb_push_def)

lemma fdb_move_dest:
  assumes "eswitch_pipeline_fdb_move env vs m a b hw s = (r, hw', s')"
  shows "dest_handle hw' = dest_handle hw"
proof -
  have 1: "rollback_new_source env e i h t = (r, h', t') \<Longrightarrow> dest_handle h' = dest_handle h" for e i h t r h' t'
    by (auto simp: rollback_new_source_def Let_def split: prod.splits)
  have 2: "update_destination env f h t = (r, h', t') \<Longrightarrow> dest_handle h' = dest_handle h" for f h t r h' t'
    by (auto simp: update_destination_def Let_def split: prod.splits)
  have 3: "process_destination env h t = (r, h', t') \<Longrightarrow> dest_handle h' = dest_handle h" for h t r h' t'
    by (auto simp: process_destination_def dest: process_rule_entry split: prod.splits)
  have 4: "rollback_destination env e v p i h t = (r, h', t') \<Longrightarrow> dest_handle h' = dest_handle h"
    for e v p i h t r h' t'
    by (auto simp: rollback_destination_def Let_def dest!: 1 2 3 split: prod.splits if_splits)
  show ?thesis
    using assms
    by (auto simp: eswitch_pipeline_fdb_move_def Let_def dest!: 1 2 3 4 split: prod.splits if_splits)
qed

lemma fdb_move_not_empty:
  assumes "eswitch_pipeline_fdb_move env vs m a b hw s = (r, hw', s')" "\<not> hw_empty hw"
  shows "\<not> hw_empty hw'"
proof (cases "dest_handle hw = None")
  case True
  then have "hw' = hw" using assms(1) by (simp add: eswitch_pipeline_fdb_move_def)
  then show ?thesis using assms(2) by simp
next
  case False
  with fdb_move_dest [OF assms(1)] show ?thesis by (simp add: hw_empty_def)
qed

lemma new_entry_fields [simp]:
  "fe_key (new_entry k port now\<lparr>fe_hardware := hw\<rparr>) = k" "fe_hardware (new_entry k port now) = hw_zero"
  "fe_vswitch_id (new_entry k port now) = fst k" "fe_mac (new_entry k port now) = snd (snd k)"
  "fe_learned_port_id (new_entry k port now) = port" "fe_last_seen_ns (new_entry k port now) = now"
  by (simp_all add: new_entry_def fe_key_def)

lemma fdb_learn_new_wf:
  assumes wf: "fdb_wf fdb" and g: "add_gives_entry env" and k: "k \<notin> fe_key ` set (fdb_entries fdb)"
    and ok: "fst k \<noteq> 0" "rte_is_valid_assigned_ether_addr (snd (snd k))"
    and r: "fdb_learn_new env fdb k port now c s = (r, fdb', s')"
  shows "fdb_wf fdb'"
proof (cases "fdb_capacity fdb \<le> fdb_count fdb \<or> \<not> c")
  case True
  with r wf show ?thesis by (auto simp: fdb_learn_new_def split: if_splits)
next
  case False
  obtain r1 hw s1 where a: "eswitch_pipeline_fdb_add env (fst k) (snd (snd k)) port hw_zero s = (r1, hw, s1)"
    by (metis prod_cases3)
  let ?e = "new_entry k port now\<lparr>fe_hardware := hw\<rparr>"
  have push: "\<not> hw_empty hw \<Longrightarrow> fdb_wf (fdb_push ?e fdb)"
    using False k ok by (intro fdb_push_wf [OF wf]) simp_all
  have "r1 = DOCA_SUCCESS \<Longrightarrow> \<not> hw_empty hw"
    using fdb_add_outcome [OF a g] by (simp add: hw_ready_def hw_empty_def)
  with r False a push wf show ?thesis
    by (auto simp: fdb_learn_new_def Let_def split: if_splits)
qed

lemma fdb_learn_wf:
  assumes wf: "fdb_wf fdb" and g: "add_gives_entry env"
    and r: "eswitch_fdb_learn env fdb vs vlan m port now c s = (r, fdb', s')"
  shows "fdb_wf fdb'"
proof (cases "\<not> fdb_pipeline fdb \<or> vs = 0 \<or> \<not> rte_is_valid_assigned_ether_addr m")
  case True
  with r wf show ?thesis by (auto simp: eswitch_fdb_learn_def split: if_splits)
next
  case ok: False
  show ?thesis
  proof (cases "fdb_find_entry fdb (vs, vlan, m)")
    case None
    with r ok have "fdb_learn_new env fdb (vs, vlan, m) port now c s = (r, fdb', s')"
      by (simp add: eswitch_fdb_learn_def)
    from fdb_learn_new_wf [OF wf g _ _ _ this] None ok show ?thesis by (simp add: fdb_find_None)
  next
    case (Some i)
    let ?e = "fdb_entries fdb ! i"
    have i: "i < length (fdb_entries fdb)" using fdb_find_Some [OF Some] by simp
    then have ne: "\<not> hw_empty (fe_hardware ?e)" using wf by (auto simp: fdb_wf_def)
    obtain r1 hw s1 where mv: "eswitch_pipeline_fdb_move env vs m (fe_learned_port_id ?e) port
        (fe_hardware ?e) s = (r1, hw, s1)" by (metis prod_cases3)
    from fdb_move_not_empty [OF mv ne] have nh: "\<not> hw_empty hw" .
    show ?thesis
      using r ok Some mv fdb_set_wf [OF wf i] ne nh
      by (auto simp: eswitch_fdb_learn_def Let_def fe_key_def split: if_splits)
  qed
qed

section \<open>Walks keep the invariant\<close>

text \<open>A visit may change a kept entry, but neither its key nor its ownership of hardware.\<close>

definition visit_keeps :: "'s visit \<Rightarrow> bool" where
  "visit_keeps visit \<longleftrightarrow>
     (\<forall>e s r e' s'. visit e s = (r, Some e', s') \<longrightarrow> \<not> hw_empty (fe_hardware e) \<longrightarrow>
        fe_key e' = fe_key e \<and> \<not> hw_empty (fe_hardware e'))"

lemma visit_keepsD:
  "visit_keeps visit \<Longrightarrow> visit e s = (r, Some e', s') \<Longrightarrow> \<not> hw_empty (fe_hardware e) \<Longrightarrow>
   fe_key e' = fe_key e \<and> \<not> hw_empty (fe_hardware e')"
  unfolding visit_keeps_def by blast

definition entry_ok :: "eswitch_fdb_entry \<Rightarrow> bool" where
  "entry_ok e \<longleftrightarrow> \<not> hw_empty (fe_hardware e) \<and> fe_vswitch_id e \<noteq> 0 \<and>
     rte_is_valid_assigned_ether_addr (fe_mac e)"

lemma fdb_wf_ok:
  "fdb_wf fdb \<longleftrightarrow> fdb_count fdb = length (fdb_entries fdb) \<and> fdb_count fdb \<le> fdb_capacity fdb \<and>
     distinct (map fe_key (fdb_entries fdb)) \<and> (\<forall>e\<in>set (fdb_entries fdb). entry_ok e)"
  by (simp add: fdb_wf_def entry_ok_def)

lemma entry_ok_cong: "fe_key e' = fe_key e \<Longrightarrow> entry_ok e \<Longrightarrow> \<not> hw_empty (fe_hardware e') \<Longrightarrow> entry_ok e'"
  by (simp add: entry_ok_def fe_key_def)

lemma fdb_walk_keeps:
  assumes "visit_keeps visit" "fdb_walk visit first es s = (r, es', s')" "\<forall>e\<in>set es. entry_ok e"
  shows "subseq (map fe_key es') (map fe_key es) \<and> (\<forall>e\<in>set es'. entry_ok e)"
  using assms(2,3)
proof (induction es arbitrary: first s r es' s')
  case Nil
  then show ?case by simp
next
  case (Cons e es)
  obtain r1 k s1 where v: "visit e s = (r1, k, s1)" by (metis prod_cases3)
  obtain r2 es2 s2 where w: "fdb_walk visit (first_error first r1) es s1 = (r2, es2, s2)"
    by (metis prod_cases3)
  have IH: "subseq (map fe_key es2) (map fe_key es)" "\<forall>e\<in>set es2. entry_ok e"
    using Cons.IH [OF w] Cons.prems(2) by simp_all
  have ok: "entry_ok e" using Cons.prems(2) by simp
  have es': "es' = (case k of None \<Rightarrow> es2 | Some e' \<Rightarrow> e' # es2)" using Cons.prems(1) v w by simp
  show ?case
  proof (cases k)
    case None
    with IH es' show ?thesis by (auto intro: list_emb_Cons)
  next
    case (Some e')
    then have "fe_key e' = fe_key e" "\<not> hw_empty (fe_hardware e')"
      using visit_keepsD [OF assms(1)] v ok by (auto simp: entry_ok_def)
    with entry_ok_cong ok IH es' Some show ?thesis by simp
  qed
qed

lemma fdb_walked_wf:
  assumes "visit_keeps visit" "fdb_wf fdb" "fdb_walked visit fdb s = (r, fdb', s')"
  shows "fdb_wf fdb'"
proof -
  obtain r1 es s1 where w: "fdb_walk visit DOCA_SUCCESS (fdb_entries fdb) s = (r1, es, s1)"
    by (metis prod_cases3)
  have k: "subseq (map fe_key es) (map fe_key (fdb_entries fdb))" "\<forall>e\<in>set es. entry_ok e"
    using fdb_walk_keeps [OF assms(1) w] assms(2) by (simp_all add: fdb_wf_ok)
  have "length es \<le> length (fdb_entries fdb)" using list_emb_length [OF k(1)] by simp
  moreover have "distinct (map fe_key es)"
    using k(1) assms(2) by (auto simp: fdb_wf_ok subseq_conv_nths)
  ultimately show ?thesis using assms(2,3) w k(2) by (auto simp: fdb_walked_def fdb_wf_ok)
qed

lemma remove_at_outcome:
  assumes "remove_at env e s = (r, kept, s')"
  shows "if r = DOCA_SUCCESS then kept = None \<and>
      eswitch_pipeline_fdb_remove env (fe_hardware e) s = (DOCA_SUCCESS, hw_zero, s')
    else \<exists>hw. kept = Some (e\<lparr>fe_hardware := hw\<rparr>) \<and> \<not> hw_empty hw"
proof -
  obtain r1 hw s1 where d: "eswitch_pipeline_fdb_remove env (fe_hardware e) s = (r1, hw, s1)"
    by (metis prod_cases3)
  from fdb_remove_outcome [OF d] assms d show ?thesis by (auto simp: remove_at_def split: if_splits)
qed

lemma remove_at_keeps: "visit_keeps (remove_at env)"
  unfolding visit_keeps_def
  by (auto dest!: remove_at_outcome simp: fe_key_def split: if_splits)

lemma flush_visit_keeps: "visit_keeps (flush_visit env P)"
  using remove_at_keeps [of env] by (auto simp: visit_keeps_def flush_visit_def split: if_splits)

lemma age_changes [simp]:
  "fe_key (delete_failed now e) = fe_key e" "fe_hardware (delete_failed now e) = fe_hardware e"
  "fe_key (query_failed a now e) = fe_key e" "fe_hardware (query_failed a now e) = fe_hardware e"
  "fe_key (e\<lparr>fe_state := st\<rparr>) = fe_key e"
  by (simp_all add: delete_failed_def query_failed_def fe_key_def Let_def)

lemma age_remove_outcome:
  assumes "age_remove env now e s = (r, kept, s')"
  shows "(case kept of
      None \<Rightarrow> r = DOCA_SUCCESS \<and>
        eswitch_pipeline_fdb_remove env (fe_hardware e) s = (DOCA_SUCCESS, hw_zero, s')
    | Some e' \<Rightarrow> fe_key e' = fe_key e \<and> \<not> hw_empty (fe_hardware e') \<and>
        fe_state e' = ESWITCH_FDB_ENTRY_DELETE_PENDING)"
proof -
  obtain r1 k s1 where d: "remove_at env e s = (r1, k, s1)" by (metis prod_cases3)
  from remove_at_outcome [OF d] assms d show ?thesis
    by (auto simp: age_remove_def fe_key_def delete_failed_def Let_def split: if_splits)
qed

lemma age_remove_keeps: "age_remove env now e s = (r, Some e', s') \<Longrightarrow>
    fe_key e' = fe_key e \<and> \<not> hw_empty (fe_hardware e')"
  by (drule age_remove_outcome) simp

lemma age_visit_keeps: "visit_keeps (age_visit env aging_ns now)"
proof -
  have "fe_key e' = fe_key e \<and> \<not> hw_empty (fe_hardware e')"
    if v: "age_visit env aging_ns now e s = (r, Some e', s')" and ne: "\<not> hw_empty (fe_hardware e)"
    for e s r e' s'
  proof -
    obtain r1 n s1 where q: "eswitch_pipeline_fdb_query env (fe_hardware e) s = (r1, n, s1)"
      by (metis prod_cases3)
    show ?thesis
      using v ne q
      by (auto simp: age_visit_def Let_def fe_key_def [of "_\<lparr>fe_state := _\<rparr>"] dest!: age_remove_keeps
          split: if_splits)
         (auto simp: fe_key_def)
  qed
  then show ?thesis by (auto simp: visit_keeps_def)
qed

section \<open>Any sequence of operations\<close>

datatype fdb_event =
    FdbLearn u16 u16 mac u16 u64 bool
  | FdbFlushPort u16 u16
  | FdbFlushVswitch u16
  | FdbAge u64
  | FdbDestroy

definition fdb_step :: "'s flow_env \<Rightarrow> fdb_event \<Rightarrow> eswitch_fdb \<times> 's \<Rightarrow> eswitch_fdb \<times> 's" where
  "fdb_step env ev st =
     (case ev of
        FdbLearn vs vlan m port now calloc_ok \<Rightarrow>
          snd (eswitch_fdb_learn env (fst st) vs vlan m port now calloc_ok (snd st))
      | FdbFlushPort vs port \<Rightarrow> snd (eswitch_fdb_flush_port env (fst st) vs port (snd st))
      | FdbFlushVswitch vs \<Rightarrow> snd (eswitch_fdb_flush_vswitch env (fst st) vs (snd st))
      | FdbAge now \<Rightarrow> snd (eswitch_fdb_age env (fst st) now (snd st))
      | FdbDestroy \<Rightarrow> snd (eswitch_fdb_destroy env (fst st) (snd st)))"

lemma destroy_loop_wf:
  assumes "fdb_destroy_loop env es s = (r, es', s')" "\<forall>e\<in>set es. entry_ok e"
  shows "suffix (map fe_key es') (map fe_key es) \<and> (\<forall>e\<in>set es'. entry_ok e)"
  using assms
proof (induction es arbitrary: s)
  case Nil
  then show ?case by simp
next
  case (Cons e es)
  obtain r1 k s1 where v: "remove_at env e s = (r1, k, s1)" by (metis prod_cases3)
  have ok: "entry_ok e" using Cons.prems(2) by simp
  show ?case
  proof (cases k)
    case None
    with Cons v have "suffix (map fe_key es') (map fe_key es) \<and> (\<forall>e\<in>set es'. entry_ok e)" by simp
    then show ?thesis by (simp add: suffix_ConsI)
  next
    case (Some e')
    then have k: "fe_key e' = fe_key e" "\<not> hw_empty (fe_hardware e')"
      using visit_keepsD [OF remove_at_keeps, of env e s r1 e' s1] v ok by (simp_all add: entry_ok_def)
    with Cons.prems Some v entry_ok_cong ok show ?thesis by auto
  qed
qed

lemma fdb_destroy_wf:
  assumes "fdb_wf fdb" "eswitch_fdb_destroy env fdb s = (r, fdb', s')"
  shows "fdb_wf fdb'"
proof -
  obtain r1 es s1 where w: "fdb_destroy_loop env (fdb_entries fdb) s = (r1, es, s1)"
    by (metis prod_cases3)
  have k: "suffix (map fe_key es) (map fe_key (fdb_entries fdb))" "\<forall>e\<in>set es. entry_ok e"
    using destroy_loop_wf [OF w] assms(1) by (simp_all add: fdb_wf_ok)
  have "length es \<le> length (fdb_entries fdb)" using suffix_length_le [OF k(1)] by simp
  moreover have "distinct (map fe_key es)"
    using k(1) assms(1) distinct_suffix by (auto simp: fdb_wf_ok)
  ultimately show ?thesis
    using assms w k(2) by (auto simp: eswitch_fdb_destroy_def fdb_wf_ok fdb_zero_def split: if_splits)
qed

lemma fdb_step_wf:
  assumes wf: "fdb_wf (fst st)" and g: "add_gives_entry env"
  shows "fdb_wf (fst (fdb_step env ev st))"
proof -
  have flush: "fdb_wf (fst (snd (fdb_walked (flush_visit env P) (fst st) (snd st))))" for P
    using fdb_walked_wf [OF flush_visit_keeps wf] by (metis prod_cases3 fst_conv snd_conv)
  have age: "fdb_wf (fst (snd (fdb_walked (age_visit env a now) (fst st) (snd st))))" for a now
    using fdb_walked_wf [OF age_visit_keeps wf] by (metis prod_cases3 fst_conv snd_conv)
  show ?thesis
  proof (cases ev)
    case (FdbLearn vs vlan m port now c)
    obtain r f s where l: "eswitch_fdb_learn env (fst st) vs vlan m port now c (snd st) = (r, f, s)"
      by (metis prod_cases3)
    from fdb_learn_wf [OF wf g l] l FdbLearn show ?thesis by (simp add: fdb_step_def)
  next
    case FdbDestroy
    obtain r f s where l: "eswitch_fdb_destroy env (fst st) (snd st) = (r, f, s)" by (metis prod_cases3)
    from fdb_destroy_wf [OF wf l] l FdbDestroy show ?thesis by (simp add: fdb_step_def)
  qed (use flush age wf in \<open>simp_all add: fdb_step_def eswitch_fdb_flush_port_def
        eswitch_fdb_flush_vswitch_def eswitch_fdb_age_def\<close>)
qed

lemma fdb_run_keeps_wf:
  "fdb_wf (fst st) \<Longrightarrow> add_gives_entry env \<Longrightarrow> fdb_wf (fst (fold (fdb_step env) evs st))"
  by (induction evs arbitrary: st) (simp_all add: fdb_step_wf)

section \<open>The table of learned ports\<close>

definition fdb_table :: "eswitch_fdb \<Rightarrow> fdb_key \<Rightarrow> u16 option" where
  "fdb_table fdb = map_of (map (\<lambda>e. (fe_key e, fe_learned_port_id e)) (fdb_entries fdb))"

lemma map_of_set:
  "distinct (map fe_key es) \<Longrightarrow> i < length es \<Longrightarrow> fe_key e = fe_key (es ! i) \<Longrightarrow>
   map_of (map (\<lambda>e. (fe_key e, fe_learned_port_id e)) (es[i := e])) =
   (map_of (map (\<lambda>e. (fe_key e, fe_learned_port_id e)) es))(fe_key e \<mapsto> fe_learned_port_id e)"
proof (induction es arbitrary: i)
  case Nil
  then show ?case by simp
next
  case (Cons x es)
  show ?case
  proof (cases i)
    case 0
    with Cons.prems show ?thesis by (simp add: fun_eq_iff)
  next
    case (Suc j)
    with Cons.prems have "fe_key (es ! j) \<in> fe_key ` set es" by simp
    with Cons.prems have "fe_key x \<noteq> fe_key e" using Suc by auto
    moreover note Cons.IH [of j]
    ultimately show ?thesis using Cons.prems Suc by (intro ext) auto
  qed
qed

lemma fdb_table_set:
  "fdb_wf fdb \<Longrightarrow> i < length (fdb_entries fdb) \<Longrightarrow> fe_key e = fe_key (fdb_entries fdb ! i) \<Longrightarrow>
   fdb_table (fdb_set i e fdb) = (fdb_table fdb)(fe_key e \<mapsto> fe_learned_port_id e)"
  unfolding fdb_table_def fdb_set_def by (simp add: map_of_set fdb_wf_def)

lemma fdb_table_push: "fdb_table (fdb_push e fdb) = (fdb_table fdb)(fe_key e \<mapsto> fe_learned_port_id e)"
  by (simp add: fdb_table_def fdb_push_def)

lemma fdb_move_success_ready:
  assumes "eswitch_pipeline_fdb_move env vs m old_port new_port hw s = (DOCA_SUCCESS, hw', s')"
    and "add_gives_entry env"
  shows "hw_ready new_port hw'"
proof -
  have "hw_ready old_port hw"
    using assms(1) by (auto simp: eswitch_pipeline_fdb_move_def hw_ready_def Let_def split: if_splits prod.splits)
  from fdb_move_outcome [OF assms(1) this assms(2)] show ?thesis by simp
qed

text \<open>What a learned address looks like.\<close>

definition learned_at :: "eswitch_fdb \<Rightarrow> fdb_key \<Rightarrow> u16 \<Rightarrow> u64 \<Rightarrow> bool" where
  "learned_at fdb k port now \<longleftrightarrow>
     (\<exists>e\<in>set (fdb_entries fdb). fe_key e = k \<and> fe_learned_port_id e = port \<and> fe_last_seen_ns e = now)"

lemma learn_new_success:
  assumes "fdb_learn_new env fdb k port now c s = (DOCA_SUCCESS, fdb', s')" and "add_gives_entry env"
  shows "fdb_table fdb' = (fdb_table fdb)(k \<mapsto> port) \<and> learned_at fdb' k port now \<and>
    (\<exists>e\<in>set (fdb_entries fdb'). fe_key e = k \<and> hw_ready port (fe_hardware e))"
proof -
  obtain r1 hw s1 where a: "eswitch_pipeline_fdb_add env (fst k) (snd (snd k)) port hw_zero s = (r1, hw, s1)"
    by (metis prod_cases3)
  let ?e = "new_entry k port now\<lparr>fe_hardware := hw\<rparr>"
  have "r1 = DOCA_SUCCESS" "fdb' = fdb_push ?e fdb"
    using assms(1) a by (auto simp: fdb_learn_new_def Let_def split: if_splits)
  moreover have "?e \<in> set (fdb_entries (fdb_push ?e fdb))" by (simp add: fdb_push_def)
  ultimately show ?thesis
    using fdb_add_outcome [OF a assms(2)] by (auto simp: fdb_table_push learned_at_def intro!: bexI [of _ ?e])
qed

lemma learn_success:
  assumes wf: "fdb_wf fdb" and g: "add_gives_entry env" and m: "rte_is_valid_assigned_ether_addr m"
    and r: "eswitch_fdb_learn env fdb vs vlan m port now c s = (DOCA_SUCCESS, fdb', s')"
  shows "fdb_table fdb' = (fdb_table fdb)((vs, vlan, m) \<mapsto> port) \<and> learned_at fdb' (vs, vlan, m) port now"
proof -
  let ?k = "(vs, vlan, m)"
  have ok: "fdb_pipeline fdb" "vs \<noteq> 0" using r by (auto simp: eswitch_fdb_learn_def split: if_splits)
  show ?thesis
  proof (cases "fdb_find_entry fdb ?k")
    case None
    with r ok m have "fdb_learn_new env fdb ?k port now c s = (DOCA_SUCCESS, fdb', s')"
      by (simp add: eswitch_fdb_learn_def)
    from learn_new_success [OF this g] show ?thesis by simp
  next
    case (Some i)
    let ?e = "fdb_entries fdb ! i"
    have i: "i < length (fdb_entries fdb)" "fe_key ?e = ?k" using fdb_find_Some [OF Some] by simp_all
    obtain r1 hw s1 where mv: "eswitch_pipeline_fdb_move env vs m (fe_learned_port_id ?e) port
        (fe_hardware ?e) s = (r1, hw, s1)" by (metis prod_cases3)
    obtain e where e: "fdb' = fdb_set i e fdb" "fe_key e = ?k" "fe_learned_port_id e = port"
        "fe_last_seen_ns e = now"
      using r ok m Some mv i(2)
      by (auto simp: eswitch_fdb_learn_def Let_def fe_key_def split: if_splits)
    have "e \<in> set (fdb_entries (fdb_set i e fdb))"
      using i(1) by (simp add: fdb_set_def set_update_memI)
    moreover have "fdb_table (fdb_set i e fdb) = (fdb_table fdb)(?k \<mapsto> port)"
      using fdb_table_set [OF wf i(1)] e i(2) by simp
    ultimately show ?thesis using e by (auto simp: learned_at_def)
  qed
qed

section \<open>What aging removes\<close>

lemma age_remove_None:
  "(\<exists>r s'. age_remove env now e s = (r, None, s')) \<longleftrightarrow>
     fst (eswitch_pipeline_fdb_remove env (fe_hardware e) s) = DOCA_SUCCESS"
  by (auto simp: age_remove_def remove_at_def split_def Let_def split: if_splits option.splits)

lemma age_removes_iff:
  "(\<exists>r s'. age_visit env aging_ns now e s = (r, None, s')) \<longleftrightarrow>
     (fe_next_retry_ns e = 0 \<or> fe_next_retry_ns e \<le> now) \<and>
     (\<exists>s0. (if fe_state e = ESWITCH_FDB_ENTRY_DELETE_PENDING then s0 = s
            else eswitch_pipeline_fdb_query env (fe_hardware e) s =
                   (DOCA_SUCCESS, fe_last_source_packets e, s0) \<and>
                 aging_ns \<le> now - fe_last_seen_ns e) \<and>
           fst (eswitch_pipeline_fdb_remove env (fe_hardware e) s0) = DOCA_SUCCESS)"
proof -
  obtain r1 n s1 where q: "eswitch_pipeline_fdb_query env (fe_hardware e) s = (r1, n, s1)"
    by (metis prod_cases3)
  show ?thesis
    using q by (auto simp: age_visit_def Let_def not_less age_remove_None not_le
        simp del: split_paired_Ex split: if_splits)
qed

section \<open>Text output\<close>

definition written :: "nat \<Rightarrow> string \<Rightarrow> string \<times> nat" where
  "written sz text = (take (sz - 1) text, min sz (length text))"

lemma append_text_written: "append_text sz (written sz t) u = written sz (t @ u)"
  by (auto simp: append_text_def written_def min_def take_append)

lemma append_texts_written: "foldl (append_text sz) (written sz t) us = written sz (t @ concat us)"
  by (induction us arbitrary: t) (simp_all add: append_text_written)

lemma written_Nil: "written sz [] = ([], 0)"
  by (simp add: written_def)

section \<open>Properties\<close>

text \<open>
  An SDK that accepts everything: the state is the next handle, completions arrive at once and
  the counters read 7.
\<close>

definition accepting_env :: "nat flow_env" where
  "accepting_env =
     \<lparr>env_add = \<lambda>_ _ _ s. (DOCA_SUCCESS, Some s, s + 1),
      env_update = \<lambda>_ _ _ s. (DOCA_SUCCESS, s),
      env_remove = \<lambda>_ s. (DOCA_SUCCESS, s),
      env_process = \<lambda>_ s. (DOCA_SUCCESS, \<lambda>_. Some (DOCA_FLOW_ENTRY_OP_ADD, DOCA_FLOW_ENTRY_STATUS_SUCCESS), s),
      env_query = \<lambda>_ s. (DOCA_SUCCESS, 7, s),
      env_gate = \<lambda>_ _ s. (DOCA_SUCCESS, GATE_PIPE 0, s),
      env_alloc = \<lambda>s. (True, s)\<rparr>"

lemma accepting_gives: "add_gives_entry accepting_env"
  by (simp add: add_gives_entry_def accepting_env_def)

definition sample_mac :: mac where "sample_mac = [2, 0, 0, 0, 0, 1]"

definition sample_fdb :: eswitch_fdb where "sample_fdb = snd (eswitch_fdb_init True 8 300 fdb_zero)"

lemma sample_fdb_init: "eswitch_fdb_init True 8 300 fdb_zero = (DOCA_SUCCESS, sample_fdb)"
  by (simp add: sample_fdb_def eswitch_fdb_init_def)

lemma fdb_init_wf: "eswitch_fdb_init created cap aging fdb_zero = (r, fdb) \<Longrightarrow> fdb_wf fdb"
  by (auto simp: eswitch_fdb_init_def fdb_wf_def fdb_zero_def split: if_splits)

lemmas fdb_ops = eswitch_fdb_learn_def fdb_learn_new_def fdb_find_entry_def
  eswitch_pipeline_fdb_add_def eswitch_pipeline_fdb_move_def fill_destination_fwd_def add_rule_def
  process_rule_def process_rules_def flow_runtime_process_def complete_cookie_def
  entry_process_callback_def flow_entry_cookie_prepare_def cookie_failed_def remove_rule_def
  update_destination_def process_destination_def set_source_def accepting_env_def

lemma sample_learn:
  "\<exists>f s. eswitch_fdb_learn accepting_env sample_fdb 5 0 sample_mac 3 100 True 0 = (DOCA_SUCCESS, f, s)"
  by (simp add: fdb_ops rte_is_valid_assigned_ether_addr_def mac_zero_def sample_mac_def
      sample_fdb_def eswitch_fdb_init_def fdb_zero_def hw_zero_def hw_empty_def rule_zero_def
      new_entry_def enumerate_eq_zip)



text \<open>C33: A successful learn of a unicast source address refines a map update: the table of learned
  ports maps the switch, VLAN and MAC to the ingress port, every other address keeps its port,
  and the entry's age restarts at the given time, whether the address was new, already on that
  port or moved from another one.\<close>

theorem fdb_learn_refines:
  assumes "fdb_wf fdb" "add_gives_entry env" "rte_is_valid_assigned_ether_addr m"
    and "eswitch_fdb_learn env fdb vs vlan m port now c s = (DOCA_SUCCESS, fdb', s')"
  shows "fdb_table fdb' = (fdb_table fdb)((vs, vlan, m) \<mapsto> port) \<and> learned_at fdb' (vs, vlan, m) port now"
  by (rule learn_success [OF assms])

theorem fdb_learn_refines_witness:
  "\<exists>f. fdb_table f = [(5, 0, sample_mac) \<mapsto> 3] \<and> learned_at f (5, 0, sample_mac) 3 100"
proof -
  obtain f s where l: "eswitch_fdb_learn accepting_env sample_fdb 5 0 sample_mac 3 100 True 0 =
      (DOCA_SUCCESS, f, s)" using sample_learn by blast
  have v: "rte_is_valid_assigned_ether_addr sample_mac"
    by (simp add: rte_is_valid_assigned_ether_addr_def sample_mac_def mac_zero_def)
  have e: "fdb_table sample_fdb = Map.empty"
    by (simp add: fdb_table_def sample_fdb_def eswitch_fdb_init_def fdb_zero_def)
  from fdb_learn_refines [OF fdb_init_wf [OF sample_fdb_init] accepting_gives v l] e
  show ?thesis by auto
qed

text \<open>C35: Aging unlinks an entry exactly when it is due, its removal was already pending or its counter
  was read and has not moved since the last reading while the entry was idle for the aging time,
  and the hardware removal succeeded: a counter that moved, could not be read or a failed removal
  always leaves the entry in the table.\<close>

theorem fdb_age_removes:
  "(\<exists>r s'. age_visit env aging_ns now e s = (r, None, s')) \<longleftrightarrow>
     (fe_next_retry_ns e = 0 \<or> fe_next_retry_ns e \<le> now) \<and>
     (\<exists>s0. (if fe_state e = ESWITCH_FDB_ENTRY_DELETE_PENDING then s0 = s
            else eswitch_pipeline_fdb_query env (fe_hardware e) s =
                   (DOCA_SUCCESS, fe_last_source_packets e, s0) \<and>
                 aging_ns \<le> now - fe_last_seen_ns e) \<and>
           fst (eswitch_pipeline_fdb_remove env (fe_hardware e) s0) = DOCA_SUCCESS)"
  by (rule age_removes_iff)


definition sample_hw :: eswitch_hw_fdb_entry where
  "sample_hw = hw_zero\<lparr>hw_sources := (\<lambda>_. rule_zero)(0 := rule_zero\<lparr>ru_entry := Some 1\<rparr>),
     hw_destination := rule_zero\<lparr>ru_entry := Some 0\<rparr>, hw_learned_port_id := 3\<rparr>"


text \<open>The text of the forwarding database is the concatenation of its header and one line per shown
  entry, cut to what fits in the buffer: the bytes written are its longest prefix that leaves room
  for the terminator, and the returned length is the full length, or the buffer's size when it
  does not fit.\<close>

lemma fdb_format_prefix:
  "eswitch_fdb_format fdb vs now sz =
     (let text = concat (fdb_chunks fdb vs now) in (take (sz - 1) text, min sz (length text)))"
  using append_texts_written [of sz "[]" "fdb_chunks fdb vs now"]
  by (simp add: eswitch_fdb_format_def written_Nil written_def Let_def)

end
