(* ===== verification/L2_Switch_Inv.thy ===== *)
theory L2_Switch_Inv
  imports L2_Switch Fdb_Inv
begin

text \<open>
  What holds of the switch and member tables over any sequence of operations and any answers of
  the hardware, and that a failed operation leaves them unchanged.
\<close>

section \<open>Normalised VLANs\<close>

lemma range_last_idem [simp]:
  "eswitch_vlan_range_last v (eswitch_vlan_range_last v l) = eswitch_vlan_range_last v l"
  by (simp add: eswitch_vlan_range_last_def)

definition norm_extra :: "u16 \<Rightarrow> u16 \<Rightarrow> u16" where
  "norm_extra ev el = (if eswitch_vlan_extra_present ev el then eswitch_vlan_range_last ev el else 0)"

lemma norm_extra [simp]:
  "eswitch_vlan_extra_present ev (norm_extra ev el) = eswitch_vlan_extra_present ev el"
  "eswitch_vlan_range_last ev (norm_extra ev el) = eswitch_vlan_range_last ev el"
  by (auto simp: norm_extra_def eswitch_vlan_extra_present_def eswitch_vlan_range_last_def)

lemma norm_vlan [simp]:
  "eswitch_vlan_range_valid v (eswitch_vlan_range_last v l) = eswitch_vlan_range_valid v l"
  "eswitch_vlan_range_size v (eswitch_vlan_range_last v l) = eswitch_vlan_range_size v l"
  "eswitch_vlan_is_range v (eswitch_vlan_range_last v l) = eswitch_vlan_is_range v l"
  "eswitch_vlan_ranges_overlap v (eswitch_vlan_range_last v l) a b = eswitch_vlan_ranges_overlap v l a b"
  "eswitch_vlan_ranges_overlap a b v (eswitch_vlan_range_last v l) = eswitch_vlan_ranges_overlap a b v l"
  "eswitch_vlan_range_valid v (norm_extra v l) = eswitch_vlan_range_valid v l"
  "eswitch_vlan_range_size v (norm_extra v l) = eswitch_vlan_range_size v l"
  "eswitch_vlan_ranges_overlap v (norm_extra v l) a b = eswitch_vlan_ranges_overlap v l a b"
  "eswitch_vlan_ranges_overlap a b v (norm_extra v l) = eswitch_vlan_ranges_overlap a b v l"
  by (simp_all add: eswitch_vlan_range_valid_def eswitch_vlan_range_size_def eswitch_vlan_is_range_def
      eswitch_vlan_ranges_overlap_def)

lemma norm_allowlist [simp]:
  "eswitch_vlan_allowlist_valid v (eswitch_vlan_range_last v l) ev (norm_extra ev el) =
   eswitch_vlan_allowlist_valid v l ev el"
  by (simp add: eswitch_vlan_allowlist_valid_def)

lemma stored_member_fields [simp]:
  "pm_vswitch_id (stored_member p) = pm_vswitch_id p" "pm_port_index (stored_member p) = pm_port_index p"
  "pm_port_id (stored_member p) = pm_port_id p" "pm_mode (stored_member p) = pm_mode p"
  "pm_active (stored_member p) = pm_active p"
  by (simp_all add: stored_member_def)

lemma stored_member_norm:
  "stored_member p = p\<lparr>pm_vlan_last := eswitch_vlan_range_last (pm_vlan_id p) (pm_vlan_last p),
     pm_vlan_extra_last := norm_extra (pm_vlan_extra_id p) (pm_vlan_extra_last p)\<rparr>"
  by (simp add: stored_member_def norm_extra_def)

lemma stored_member_idem [simp]: "stored_member (stored_member p) = stored_member p"
proof -
  have "norm_extra v (norm_extra v l) = norm_extra v l" for v l
    by (simp add: norm_extra_def [of v "norm_extra v l"]) (simp add: norm_extra_def)
  then show ?thesis by (simp add: stored_member_norm)
qed

lemma stored_member_vlans [simp]:
  "pm_tagged (stored_member p) = pm_tagged p" "pm_rules (stored_member p) = pm_rules p"
  "pm_overlap (stored_member p) q = pm_overlap p q" "pm_overlap q (stored_member p) = pm_overlap q p"
  by (simp_all add: stored_member_norm pm_tagged_def pm_rules_def pm_overlap_def vlan_rule_count_def
      eswitch_vlan_uses_tagged_domain_def eswitch_vlan_is_transparent_trunk_def
      eswitch_vlan_allowlists_overlap_def eswitch_vlan_allowlist_size_def)

lemma stored_member_invalid [simp]: "\<not> pm_invalid p \<Longrightarrow> \<not> pm_invalid (stored_member p)"
proof (cases "pm_mode p")
  case ESWITCH_PORT_MODE_TRUNK
  then show "\<not> pm_invalid p \<Longrightarrow> ?thesis"
    by (simp add: stored_member_norm pm_invalid_def member_vlans_invalid_def)
next
  case ESWITCH_PORT_MODE_ACCESS
  then show "\<not> pm_invalid p \<Longrightarrow> ?thesis"
    by (auto simp: stored_member_norm pm_invalid_def member_vlans_invalid_def eswitch_vlan_range_last_def
        norm_extra_def eswitch_vlan_extra_present_def)
qed

lemma stored_member_conflict [simp]:
  "pm_conflict (stored_member p) q = pm_conflict p q" "pm_conflict q (stored_member p) = pm_conflict q p"
  by (simp_all add: pm_conflict_def)

lemma ranges_overlap_sym: "eswitch_vlan_ranges_overlap a b c d = eswitch_vlan_ranges_overlap c d a b"
  by (auto simp: eswitch_vlan_ranges_overlap_def)

lemma pm_conflict_sym: "pm_conflict a b = pm_conflict b a"
  by (auto simp: pm_conflict_def pm_overlap_def eswitch_vlan_allowlists_overlap_def ranges_overlap_sym
      split: if_splits)

section \<open>The invariant\<close>

definition switch_known :: "eswitch_manager \<Rightarrow> u16 \<Rightarrow> bool" where
  "switch_known m vs \<longleftrightarrow> (\<exists>k<ESWITCH_MAX_VSWITCHES. mv_exists (mg_switches m k) \<and> mv_id (mg_switches m k) = vs)"

definition member_ok :: "eswitch_manager \<Rightarrow> eswitch_port_membership \<Rightarrow> bool" where
  "member_ok m p \<longleftrightarrow> switch_known m (pm_vswitch_id p) \<and> pm_port_index p < length (mg_ports m) \<and>
     eth_port_id (mg_ports m ! pm_port_index p) = pm_port_id p \<and>
     eth_role (mg_ports m ! pm_port_index p) \<noteq> ETHERNET_PORT_ROLE_SF_REPRESENTOR \<and> \<not> pm_invalid p"

definition total_rules :: "eswitch_manager \<Rightarrow> nat" where
  "total_rules m = sum_list (map pm_rules (active_members m))"

definition owners_exact :: "eswitch_manager \<Rightarrow> bool" where
  "owners_exact m \<longleftrightarrow>
     (\<forall>i. (\<exists>j<ESWITCH_MAX_PERSISTED_MEMBERS. pm_active (mg_memberships m j) \<and>
             pm_mode (mg_memberships m j) = ESWITCH_PORT_MODE_ACCESS \<and>
             pm_port_index (mg_memberships m j) = i \<and>
             mg_port_owner m i = pm_vswitch_id (mg_memberships m j)) \<or>
          (\<forall>j<ESWITCH_MAX_PERSISTED_MEMBERS. pm_active (mg_memberships m j) \<and>
             pm_mode (mg_memberships m j) = ESWITCH_PORT_MODE_ACCESS \<longrightarrow>
             pm_port_index (mg_memberships m j) \<noteq> i) \<and> mg_port_owner m i = 0)"

definition l2_wf :: "eswitch_manager \<Rightarrow> bool" where
  "l2_wf m \<longleftrightarrow>
     distinct (map eth_port_id (mg_ports m)) \<and>
     (\<forall>k<ESWITCH_MAX_VSWITCHES. mv_exists (mg_switches m k) \<longrightarrow> mv_id (mg_switches m k) \<noteq> 0) \<and>
     keys_distinct mv_exists mv_id ESWITCH_MAX_VSWITCHES (mg_switches m) \<and>
     slots_counted pm_active ESWITCH_MAX_PERSISTED_MEMBERS (mg_memberships m) (mg_membership_count m) \<and>
     (\<forall>j<ESWITCH_MAX_PERSISTED_MEMBERS. pm_active (mg_memberships m j) \<longrightarrow>
        member_ok m (mg_memberships m j) \<and> stored_member (mg_memberships m j) = mg_memberships m j) \<and>
     (\<forall>i<ESWITCH_MAX_PERSISTED_MEMBERS. \<forall>j<ESWITCH_MAX_PERSISTED_MEMBERS. i \<noteq> j \<and>
        pm_active (mg_memberships m i) \<and> pm_active (mg_memberships m j) \<longrightarrow>
        \<not> pm_conflict (mg_memberships m i) (mg_memberships m j)) \<and>
     total_rules m \<le> ESWITCH_MAX_VLAN_MEMBERSHIPS \<and> owners_exact m \<and> fdb_wf (mg_fdb m)"

text \<open>The switches and the members are both tables of slots.\<close>

interpretation vs: keyed_table mv_exists vswitch_zero mv_id
  by unfold_locales (simp add: vswitch_zero_def)

interpretation ms: slot_table pm_active membership_zero
  by unfold_locales (simp add: membership_zero_def)

lemma sum_list_active:
  "sum_list (map g (filter P (map f [0..<n]))) = (\<Sum>i<n. if P (f i) then (g (f i) :: nat) else 0)"
  by (induction n) simp_all

lemma total_rules_sum:
  "total_rules m = (\<Sum>i<ESWITCH_MAX_PERSISTED_MEMBERS.
     if pm_active (mg_memberships m i) then pm_rules (mg_memberships m i) else 0)"
  by (simp add: total_rules_def active_members_def sum_list_active)

lemma sum_fun_upd:
  "j < n \<Longrightarrow> (\<Sum>i<n. w ((f(j := x)) i)) + w (f j) = (\<Sum>i<n. w (f i)) + (w x :: nat)" for n :: nat
proof (induction n)
  case 0
  then show ?case by simp
next
  case (Suc n)
  show ?case
  proof (cases "j = n")
    case True
    have "(\<Sum>i<n. w ((f(j := x)) i)) = (\<Sum>i<n. w (f i))"
      using True by (intro sum.cong) auto
    then show ?thesis using True by simp
  next
    case False
    with Suc show ?thesis by simp
  qed
qed

lemma active_members_set:
  "p \<in> set (active_members m) \<longleftrightarrow>
     (\<exists>j<ESWITCH_MAX_PERSISTED_MEMBERS. p = mg_memberships m j \<and> pm_active p)"
  by (auto simp: active_members_def)

lemma find_vswitch_Some:
  "find_vswitch m vs = Some k \<Longrightarrow> k < ESWITCH_MAX_VSWITCHES \<and> mv_exists (mg_switches m k) \<and> mv_id (mg_switches m k) = vs"
  unfolding find_vswitch_def by (drule first_slot_SomeD) simp

lemma find_vswitch_None: "find_vswitch m vs = None \<longleftrightarrow> \<not> switch_known m vs"
  by (auto simp: find_vswitch_def first_slot_None switch_known_def)

lemma find_port_index_Some:
  "find_port_index m port = Some i \<Longrightarrow> i < length (mg_ports m) \<and> eth_port_id (mg_ports m ! i) = port"
  unfolding find_port_index_def by (drule find_index_Some) simp

lemma port_index_unique:
  assumes "l2_wf m" "find_port_index m port = Some i" "k < length (mg_ports m)" "eth_port_id (mg_ports m ! k) = port"
  shows "k = i"
  using assms find_port_index_Some [OF assms(2)] by (auto simp: l2_wf_def distinct_conv_nth)

lemma find_membership_Some:
  "find_membership m vs port = Some j \<Longrightarrow> j < ESWITCH_MAX_PERSISTED_MEMBERS \<and>
     pm_active (mg_memberships m j) \<and> pm_vswitch_id (mg_memberships m j) = vs \<and>
     pm_port_id (mg_memberships m j) = port"
  unfolding find_membership_def by (drule first_slot_SomeD) simp

section \<open>Storing and clearing a member\<close>

lemma create_wf:
  assumes wf: "l2_wf m" and r: "create_vswitch m vid = (r, m')"
  shows "l2_wf m'"
proof (cases "r = DOCA_SUCCESS")
  case False
  with r have "m' = m" by (auto simp: create_vswitch_def split: if_splits option.splits)
  with wf show ?thesis by simp
next
  case True
  then obtain k where k: "first_slot (\<lambda>v. \<not> mv_exists v) ESWITCH_MAX_VSWITCHES (mg_switches m) = Some k"
    and m': "m' = m\<lparr>mg_switches := (mg_switches m)(k := \<lparr>mv_exists = True, mv_id = vid, mv_name = []\<rparr>)\<rparr>"
    and fresh: "\<not> switch_known m vid" "vid \<noteq> 0"
    using r by (auto simp: create_vswitch_def find_vswitch_None split: if_splits option.splits)
  have free: "k < ESWITCH_MAX_VSWITCHES" "\<not> mv_exists (mg_switches m k)"
    using first_slot_SomeD [OF k] by simp_all
  have known: "switch_known m vs \<Longrightarrow> switch_known m' vs" for vs
    using free by (auto simp: switch_known_def m')
  have "keys_distinct mv_exists mv_id ESWITCH_MAX_VSWITCHES (mg_switches m')"
    unfolding m' using wf fresh
    by (auto simp: l2_wf_def switch_known_def intro!: vs.keys_alloc)
  moreover have "member_ok m p \<Longrightarrow> member_ok m' p" for p
    using known by (auto simp: member_ok_def m')
  ultimately show ?thesis
    using wf fresh by (auto simp: l2_wf_def m' owners_exact_def total_rules_def active_members_def)
qed

lemma store_wf:
  assumes wf: "l2_wf m" and j: "j < ESWITCH_MAX_PERSISTED_MEMBERS" "\<not> pm_active (mg_memberships m j)"
    and p: "pm_active p" "member_ok m p" "stored_member p = p"
    and clash: "\<not> list_ex (\<lambda>a. pm_conflict a p) (active_members m)"
    and room: "pm_rules p + total_rules m \<le> ESWITCH_MAX_VLAN_MEMBERSHIPS"
  shows "l2_wf (store_member (pm_port_index p) (pm_vswitch_id p) j p m)"
proof -
  let ?i = "pm_port_index p"
  let ?M = "mg_memberships m"
  let ?m = "store_member ?i (pm_vswitch_id p) j p m"
  have M: "mg_memberships ?m = ?M(j := p)" "mg_ports ?m = mg_ports m" "mg_switches ?m = mg_switches m"
    "mg_fdb ?m = mg_fdb m" "mg_membership_count ?m = Suc (mg_membership_count m)"
    by (simp_all add: store_member_def)
  have nc: "\<not> pm_conflict (?M a) p" "\<not> pm_conflict p (?M a)"
    if "a < ESWITCH_MAX_PERSISTED_MEMBERS" "pm_active (?M a)" for a
  proof -
    have "?M a \<in> set (active_members m)" using that by (auto simp: active_members_set)
    with clash show "\<not> pm_conflict (?M a) p" by (auto simp: list_ex_iff)
    then show "\<not> pm_conflict p (?M a)" by (simp add: pm_conflict_sym)
  qed
  have ok: "member_ok ?m q \<longleftrightarrow> member_ok m q" for q
    by (simp add: member_ok_def switch_known_def M)
  have count: "slots_counted pm_active ESWITCH_MAX_PERSISTED_MEMBERS (?M(j := p)) (Suc (mg_membership_count m))"
    using wf j p by (intro ms.counted_alloc) (simp_all add: l2_wf_def)
  have tot: "total_rules ?m = total_rules m + pm_rules p"
    using sum_fun_upd [OF j(1), of "\<lambda>q. if pm_active q then pm_rules q else 0" ?M p] j p
    unfolding total_rules_sum M by simp
  have own: "owners_exact ?m"
  proof (cases "pm_mode p = ESWITCH_PORT_MODE_ACCESS")
    case False
    then have o: "mg_port_owner ?m = mg_port_owner m" by (simp add: store_member_def)
    have "owners_exact m" using wf by (simp add: l2_wf_def)
    then show ?thesis
      unfolding owners_exact_def o M using False j(2) by (auto simp: fun_upd_apply)
  next
    case True
    have o: "mg_port_owner ?m = (mg_port_owner m)(?i := pm_vswitch_id p)" using True by (simp add: store_member_def)
    have other: "pm_port_index (?M a) \<noteq> ?i" if "a < ESWITCH_MAX_PERSISTED_MEMBERS" "pm_active (?M a)" for a
      using nc(1) [OF that] True by (auto simp: pm_conflict_def split: if_splits)
    have "owners_exact m" using wf by (simp add: l2_wf_def)
    then show ?thesis
      unfolding owners_exact_def o M using True j p(1) other by (auto simp: fun_upd_apply) metis+
  qed
  show ?thesis
    using wf ok p(2,3) count tot room own nc
    unfolding l2_wf_def M by (auto simp: fun_upd_apply)
qed

lemma clear_wf:
  assumes wf: "l2_wf m" and j: "j < ESWITCH_MAX_PERSISTED_MEMBERS" "pm_active (mg_memberships m j)"
  shows "l2_wf (clear_member (pm_port_index (mg_memberships m j)) j m)"
proof -
  let ?M = "mg_memberships m"
  let ?i = "pm_port_index (?M j)"
  let ?m = "clear_member ?i j m"
  have M: "mg_memberships ?m = ?M(j := membership_zero)" "mg_ports ?m = mg_ports m" "mg_switches ?m = mg_switches m"
    "mg_fdb ?m = mg_fdb m" "mg_membership_count ?m = mg_membership_count m - 1"
    by (simp_all add: clear_member_def Let_def)
  have z: "\<not> pm_active membership_zero" by (simp add: membership_zero_def)
  have ok: "member_ok ?m q \<longleftrightarrow> member_ok m q" for q
    by (simp add: member_ok_def switch_known_def M)
  have count: "slots_counted pm_active ESWITCH_MAX_PERSISTED_MEMBERS (?M(j := membership_zero)) (mg_membership_count m - 1)"
    using wf j by (intro ms.counted_release) (simp_all add: l2_wf_def)
  have tot: "total_rules ?m \<le> total_rules m"
    using sum_fun_upd [OF j(1), of "\<lambda>q. if pm_active q then pm_rules q else 0" ?M membership_zero]
    unfolding total_rules_sum M using z j(2) by simp
  have nc: "a \<noteq> j \<Longrightarrow> a < ESWITCH_MAX_PERSISTED_MEMBERS \<Longrightarrow> pm_active (?M a) \<Longrightarrow> \<not> pm_conflict (?M a) (?M j)" for a
    using wf j by (auto simp: l2_wf_def)
  have own: "owners_exact ?m"
  proof (cases "pm_mode (?M j) = ESWITCH_PORT_MODE_ACCESS")
    case False
    then have o: "mg_port_owner ?m = mg_port_owner m" by (simp add: clear_member_def Let_def)
    have "owners_exact m" using wf by (simp add: l2_wf_def)
    then show ?thesis
      unfolding owners_exact_def o M using False z by (auto simp: fun_upd_apply)
  next
    case True
    have o: "mg_port_owner ?m = (mg_port_owner m)(?i := 0)" using True by (simp add: clear_member_def Let_def)
    have other: "pm_port_index (?M a) \<noteq> ?i"
      if "a \<noteq> j" "a < ESWITCH_MAX_PERSISTED_MEMBERS" "pm_active (?M a)" for a
      using nc [OF that] True by (auto simp: pm_conflict_def split: if_splits)
    have "owners_exact m" using wf by (simp add: l2_wf_def)
    then show ?thesis
      unfolding owners_exact_def o M using True j z other by (auto simp: fun_upd_apply) metis+
  qed
  show ?thesis
    using wf ok count tot own z
    unfolding l2_wf_def M by (auto simp: fun_upd_apply)
qed

section \<open>Operations keep the invariant\<close>

lemma attach_check_ok:
  assumes "attach_check m vs port mode v l ev el = Inr (i, j)"
  shows "let p = requested_member vs i port mode v l ev el in
    j < ESWITCH_MAX_PERSISTED_MEMBERS \<and> \<not> pm_active (mg_memberships m j) \<and> member_ok m p \<and>
    \<not> list_ex (\<lambda>a. pm_conflict a p) (active_members m) \<and>
    pm_rules p + total_rules m \<le> ESWITCH_MAX_VLAN_MEMBERSHIPS"
proof -
  have i: "find_port_index m port = Some i" "switch_known m vs"
    using assms by (auto simp: attach_check_def Let_def find_vswitch_None split: if_splits option.splits)
  have j: "first_slot (\<lambda>a. \<not> pm_active a) ESWITCH_MAX_PERSISTED_MEMBERS (mg_memberships m) = Some j"
    using assms by (auto simp: attach_check_def Let_def split: if_splits option.splits)
  from assms show ?thesis
    using find_port_index_Some [OF i(1)] i(2) first_slot_SomeD [OF j]
    by (auto simp: attach_check_def Let_def total_rules_def member_ok_def requested_member_def
        split: if_splits option.splits)
qed

lemma attach_check_fails: "attach_check m vs port mode v l ev el \<noteq> Inl DOCA_SUCCESS"
  by (auto simp: attach_check_def Let_def split: if_splits option.splits)

lemma stored_member_ok: "member_ok m p \<Longrightarrow> member_ok m (stored_member p)"
  by (simp add: member_ok_def)

lemma attach_outcome:
  assumes "attach_port env m vs port mode v l ev el s = (r, m', s')"
  shows "if r = DOCA_SUCCESS
    then \<exists>i j. attach_check m vs port mode v l ev el = Inr (i, j) \<and>
      m' = store_member i vs j (stored_member (requested_member vs i port mode v l ev el)) m
    else m' = m"
  using assms attach_check_fails [of m vs port mode v l ev el]
  by (auto simp: attach_port_def Let_def split: sum.splits prod.splits if_splits)

lemma attach_port_wf:
  assumes wf: "l2_wf m" and r: "attach_port env m vs port mode v l ev el s = (r, m', s')"
  shows "l2_wf m'"
proof (cases "r = DOCA_SUCCESS")
  case False
  with attach_outcome [OF r] wf show ?thesis by simp
next
  case True
  with attach_outcome [OF r] obtain i j where c: "attach_check m vs port mode v l ev el = Inr (i, j)"
    and m': "m' = store_member i vs j (stored_member (requested_member vs i port mode v l ev el)) m" by auto
  let ?p = "requested_member vs i port mode v l ev el"
  note ok = attach_check_ok [OF c, unfolded Let_def]
  have f: "pm_port_index ?p = i" "pm_vswitch_id ?p = vs" "pm_active ?p" by (simp_all add: requested_member_def)
  have "l2_wf (store_member (pm_port_index (stored_member ?p)) (pm_vswitch_id (stored_member ?p)) j (stored_member ?p) m)"
    using ok f by (intro store_wf [OF wf]) (simp_all add: stored_member_ok)
  then show ?thesis by (simp add: m' f)
qed

text \<open>Two managers with the same tables.\<close>

definition same_tables :: "eswitch_manager \<Rightarrow> eswitch_manager \<Rightarrow> bool" where
  "same_tables m m' \<longleftrightarrow> mg_ports m' = mg_ports m \<and> mg_switches m' = mg_switches m \<and>
     mg_memberships m' = mg_memberships m \<and> mg_membership_count m' = mg_membership_count m \<and>
     mg_port_owner m' = mg_port_owner m"

lemma same_tables_refl [simp]: "same_tables m m"
  by (simp add: same_tables_def)

lemma same_tables_trans: "same_tables a b \<Longrightarrow> same_tables b c \<Longrightarrow> same_tables a c"
  by (simp add: same_tables_def)

lemma same_tables_wf: "l2_wf m \<Longrightarrow> same_tables m m' \<Longrightarrow> fdb_wf (mg_fdb m') \<Longrightarrow> l2_wf m'"
  by (simp add: l2_wf_def same_tables_def member_ok_def switch_known_def total_rules_def
      active_members_def owners_exact_def)

lemma hw_sync_tables:
  assumes "eswitch_manager_hw_routes_sync env m config active s = (r, m', s')"
  shows "same_tables m m' \<and> mg_fdb m' = mg_fdb m \<and> mg_neighbors m' = mg_neighbors m \<and>
    mg_router m' = mg_router m"
  using assms
  by (auto simp: eswitch_manager_hw_routes_sync_def Let_def same_tables_def
      split: option.splits prod.splits if_splits)

lemma flush_port_wf:
  "fdb_wf fdb \<Longrightarrow> eswitch_fdb_flush_port env fdb vs port s = (r, fdb', s') \<Longrightarrow> fdb_wf fdb'"
  using fdb_walked_wf [OF flush_visit_keeps] by (auto simp: eswitch_fdb_flush_port_def split: if_splits)

lemma flush_vswitch_wf:
  "fdb_wf fdb \<Longrightarrow> eswitch_fdb_flush_vswitch env fdb vs s = (r, fdb', s') \<Longrightarrow> fdb_wf fdb'"
  using fdb_walked_wf [OF flush_visit_keeps] by (auto simp: eswitch_fdb_flush_vswitch_def split: if_splits)

text \<open>Clearing a member and putting it back.\<close>

lemma restore_same_tables:
  assumes wf: "l2_wf m" and j: "j < ESWITCH_MAX_PERSISTED_MEMBERS" "pm_active (mg_memberships m j)"
    and i: "i = pm_port_index (mg_memberships m j)" and vs: "vs = pm_vswitch_id (mg_memberships m j)"
    and same: "same_tables (clear_member i j m) m1"
  shows "same_tables m (restore_member i vs j (mg_memberships m j) nbs m1)"
proof -
  have c: "0 < mg_membership_count m"
    using wf j ms.counted_release(2) by (auto simp: l2_wf_def)
  have o: "pm_mode (mg_memberships m j) = ESWITCH_PORT_MODE_ACCESS \<Longrightarrow> mg_port_owner m i = vs"
    using wf j i vs unfolding l2_wf_def owners_exact_def
    by (metis (no_types, lifting) eswitch_port_mode.distinct(1) pm_conflict_def)
  show ?thesis
    using same c o by (auto simp: same_tables_def restore_member_def store_member_def clear_member_def Let_def
        fun_upd_idem)
qed

lemma unless_failed_success [simp]: "r \<noteq> DOCA_SUCCESS \<Longrightarrow> unless_failed r b \<noteq> DOCA_SUCCESS"
  by (simp add: unless_failed_def)

lemma detach_outcome:
  assumes wf: "l2_wf m" and r: "detach_port env m vs port s = (r, m', s')"
  shows "fdb_wf (mg_fdb m') \<and>
    (if r = DOCA_SUCCESS
     then \<exists>j. find_membership m vs port = Some j \<and>
       same_tables (clear_member (pm_port_index (mg_memberships m j)) j m) m'
     else same_tables m m' \<and> mg_neighbors m' = mg_neighbors m)"
proof (cases "find_vswitch m vs = None \<or> find_port_index m port = None \<or> find_membership m vs port = None")
  case True
  with r wf show ?thesis
    by (auto simp: detach_port_def l2_wf_def split: if_splits option.splits)
next
  case False
  then obtain i j where i: "find_port_index m port = Some i" and j: "find_membership m vs port = Some j"
    and v: "find_vswitch m vs \<noteq> None" by auto
  note jp = find_membership_Some [OF j]
  have ok: "member_ok m (mg_memberships m j)" using wf jp by (auto simp: l2_wf_def)
  have idx: "pm_port_index (mg_memberships m j) = i"
    using port_index_unique [OF wf i] ok jp by (auto simp: member_ok_def)
  obtain b0 s0 where a: "me_malloc env s = (b0, s0)" by force
  obtain r1 s1 where d: "me_detach env i vs s0 = (r1, s1)" by force
  obtain r2 s2 where fr: "me_flood_remove env vs port s1 = (r2, s2)" by force
  obtain r3 fdb s3 where fl: "eswitch_fdb_flush_port (me_flow env) (mg_fdb m) vs port s2 = (r3, fdb, s3)"
    by (metis prod_cases3)
  let ?m3 = "m\<lparr>mg_fdb := fdb\<rparr>"
  let ?m5 = "(clear_member i j ?m3)\<lparr>mg_neighbors :=
    router_neighbor_invalidate_port (mg_neighbors (clear_member i j ?m3)) port\<rparr>"
  obtain r6 m6 s6 where hw: "eswitch_manager_hw_routes_sync env ?m5 (mg_router ?m5) True s3 = (r6, m6, s6)"
    by (metis prod_cases3)
  let ?m7 = "restore_member i vs j (mg_memberships m j) (mg_neighbors m) m6"
  obtain r7 s7 where rl: "me_release env i vs s6 = (r7, s7)" by force
  have guards: "(find_vswitch m vs = None) = False" using v by simp
  note red = r [unfolded detach_port_def guards if_False i j option.case Let_def a d fr fl hw rl prod.case]
  have f0: "fdb_wf (mg_fdb m)" "fdb_wf fdb" using wf flush_port_wf [OF _ fl] by (simp_all add: l2_wf_def)
  note t6 = hw_sync_tables [OF hw]
  have same5: "same_tables (clear_member i j m) m6"
    using t6 by (auto simp: same_tables_def clear_member_def Let_def)
  have fdb6: "mg_fdb m6 = fdb" using t6 by (simp add: clear_member_def Let_def)
  have undone: "same_tables m ?m7"
    using restore_same_tables [OF wf _ _ _ _ same5] jp idx by simp
  have m7: "mg_fdb ?m7 = fdb" "mg_neighbors ?m7 = mg_neighbors m"
    using fdb6 by (simp_all add: restore_member_def store_member_def)
  have resynced: "same_tables m m' \<and> mg_fdb m' = fdb \<and> mg_neighbors m' = mg_neighbors m"
    if "eswitch_manager_hw_routes_sync env ?m7 (mg_router ?m7) True t = (b, m', u)" for t b u
    using hw_sync_tables [OF that] undone m7 same_tables_trans by metis
  have m3: "same_tables m ?m3" by (simp add: same_tables_def)
  define m7 where "m7 = ?m7"
  note red' = red [folded m7_def]
  show ?thesis
  proof (cases "b0 \<and> r1 = DOCA_SUCCESS \<and> r2 = DOCA_SUCCESS \<and> r3 = DOCA_SUCCESS \<and> r6 = DOCA_SUCCESS \<and>
      r7 = DOCA_SUCCESS")
    case True
    with red' have "r = DOCA_SUCCESS" "m' = m6" by simp_all
    with f0 fdb6 same5 j idx show ?thesis by simp
  next
    case False
    have "r \<noteq> DOCA_SUCCESS \<and> (m' = m \<or> m' = ?m3 \<or> m' = m7 \<or>
        (\<exists>t b u. eswitch_manager_hw_routes_sync env m7 (mg_router m7) True t = (b, m', u)))"
    proof (cases "b0 \<and> r1 = DOCA_SUCCESS \<and> r2 = DOCA_SUCCESS \<and> r3 = DOCA_SUCCESS \<and> r6 = DOCA_SUCCESS")
      case True
      with False red' show ?thesis by (auto split: if_splits prod.splits)
    next
      case False
      with red' show ?thesis by (auto split: if_splits prod.splits)
    qed
    with f0 m3 undone m7 resynced show ?thesis unfolding m7_def [symmetric] by auto
  qed
qed

lemma detach_port_wf:
  assumes wf: "l2_wf m" and r: "detach_port env m vs port s = (r, m', s')"
  shows "l2_wf m'"
proof (cases "r = DOCA_SUCCESS")
  case True
  with detach_outcome [OF wf r] obtain j where j: "find_membership m vs port = Some j"
    and same: "same_tables (clear_member (pm_port_index (mg_memberships m j)) j m) m'" and f: "fdb_wf (mg_fdb m')"
    by auto
  from clear_wf [OF wf] find_membership_Some [OF j] same f same_tables_wf show ?thesis by blast
next
  case False
  with detach_outcome [OF wf r] wf same_tables_wf show ?thesis by auto
qed

lemma clear_member_tables:
  "mg_switches (clear_member i j m) = mg_switches m" "mg_fdb (clear_member i j m) = mg_fdb m"
  "mg_ports (clear_member i j m) = mg_ports m" "mg_neighbors (clear_member i j m) = mg_neighbors m"
  "mg_memberships (clear_member i j m) = (mg_memberships m)(j := membership_zero)"
  by (simp_all add: clear_member_def Let_def)

lemma release_members_outcome:
  assumes "l2_wf m" "\<forall>j\<in>set js. j < ESWITCH_MAX_PERSISTED_MEMBERS"
    and "release_members env vid m js s = (r, m', s')"
  shows "l2_wf m' \<and> mg_switches m' = mg_switches m \<and> mg_ports m' = mg_ports m \<and>
    (\<forall>j. mg_memberships m' j = mg_memberships m j \<or> \<not> pm_active (mg_memberships m' j)) \<and>
    (r = DOCA_SUCCESS \<longrightarrow> (\<forall>j\<in>set js. \<not> (pm_active (mg_memberships m' j) \<and>
       pm_vswitch_id (mg_memberships m' j) = vid)))"
  using assms
proof (induction js arbitrary: m s)
  case Nil
  then show ?case by simp
next
  case (Cons j js)
  let ?p = "mg_memberships m j"
  have z: "\<not> pm_active membership_zero" by (simp add: membership_zero_def)
  have js: "\<forall>j\<in>set js. j < ESWITCH_MAX_PERSISTED_MEMBERS" using Cons.prems(2) by simp
  show ?case
  proof (cases "\<not> pm_active ?p \<or> pm_vswitch_id ?p \<noteq> vid")
    case True
    with Cons.prems(3) have "release_members env vid m js s = (r, m', s')" by simp
    note ih = Cons.IH [OF Cons.prems(1) js this]
    from ih have "mg_memberships m' j = mg_memberships m j \<or> \<not> pm_active (mg_memberships m' j)" by blast
    with True have "\<not> (pm_active (mg_memberships m' j) \<and> pm_vswitch_id (mg_memberships m' j) = vid)" by metis
    with ih show ?thesis by simp
  next
    case False
    obtain r1 s1 where rl: "me_release env (pm_port_index ?p) vid s = (r1, s1)" by force
    show ?thesis
    proof (cases "r1 = DOCA_SUCCESS")
      case fail: False
      with False Cons.prems rl show ?thesis by simp
    next
      case True
      let ?m = "clear_member (pm_port_index ?p) j m"
      have "l2_wf ?m" using clear_wf [OF Cons.prems(1)] False Cons.prems(2) by simp
      moreover have "release_members env vid ?m js s1 = (r, m', s')"
        using Cons.prems(3) False True rl by simp
      ultimately have "l2_wf m' \<and> mg_switches m' = mg_switches ?m \<and> mg_ports m' = mg_ports ?m \<and>
          (\<forall>i. mg_memberships m' i = mg_memberships ?m i \<or> \<not> pm_active (mg_memberships m' i)) \<and>
          (r = DOCA_SUCCESS \<longrightarrow> (\<forall>i\<in>set js. \<not> (pm_active (mg_memberships m' i) \<and>
             pm_vswitch_id (mg_memberships m' i) = vid)))"
        using Cons.IH js by blast
      then show ?thesis
        using z by (auto simp: clear_member_tables fun_upd_apply) (metis z)+
    qed
  qed
qed

lemma remove_switch_wf:
  assumes wf: "l2_wf m" and k: "k < ESWITCH_MAX_VSWITCHES" "mv_exists (mg_switches m k)"
    and unused: "\<forall>j<ESWITCH_MAX_PERSISTED_MEMBERS. pm_active (mg_memberships m j) \<longrightarrow>
      pm_vswitch_id (mg_memberships m j) \<noteq> mv_id (mg_switches m k)"
  shows "l2_wf (m\<lparr>mg_switches := (mg_switches m)(k := vswitch_zero)\<rparr>)"
proof -
  let ?m = "m\<lparr>mg_switches := (mg_switches m)(k := vswitch_zero)\<rparr>"
  have known: "switch_known m vs \<Longrightarrow> vs \<noteq> mv_id (mg_switches m k) \<Longrightarrow> switch_known ?m vs" for vs
    by (auto simp: switch_known_def)
  have upd: "(mg_switches m)(k := vswitch_zero) = (\<lambda>i. if i = k then vswitch_zero else mg_switches m i)"
    by auto
  have "keys_distinct mv_exists mv_id ESWITCH_MAX_VSWITCHES ((mg_switches m)(k := vswitch_zero))"
    unfolding upd by (rule vs.keys_release) (use wf in \<open>simp add: l2_wf_def\<close>)
  then show ?thesis
    using wf unused known
    by (auto simp: l2_wf_def member_ok_def total_rules_def active_members_def owners_exact_def vswitch_zero_def)
qed

lemma delete_wf:
  assumes wf: "l2_wf m" and r: "delete_vswitch env m vid s = (r, m', s')"
  shows "l2_wf m'"
proof (cases "find_vswitch m vid")
  case None
  with r wf show ?thesis by (simp add: delete_vswitch_def)
next
  case (Some k)
  obtain r1 s1 where u: "me_sf_unbind_vswitch env vid s = (r1, s1)" by force
  obtain r2 fdb s2 where fl: "eswitch_fdb_flush_vswitch (me_flow env) (mg_fdb m) vid s1 = (r2, fdb, s2)"
    by (metis prod_cases3)
  let ?m2 = "m\<lparr>mg_fdb := fdb\<rparr>"
  obtain r3 s3 where d: "detach_members env vid ?m2 [0..<ESWITCH_MAX_PERSISTED_MEMBERS] s2 = (r3, s3)" by force
  obtain r4 s4 where fd: "me_flood_destroy env vid s3 = (r4, s4)" by force
  obtain r5 m5 s5 where rl: "release_members env vid ?m2 [0..<ESWITCH_MAX_PERSISTED_MEMBERS] s4 = (r5, m5, s5)"
    by (metis prod_cases3)
  note red = r [unfolded delete_vswitch_def Some option.case Let_def u fl d fd rl prod.case]
  have wf2: "l2_wf ?m2"
    using wf flush_vswitch_wf [OF _ fl] by (intro same_tables_wf [OF wf]) (simp_all add: same_tables_def l2_wf_def)
  have out: "l2_wf m5" "mg_switches m5 = mg_switches m"
      "r5 = DOCA_SUCCESS \<longrightarrow> (\<forall>j\<in>set [0..<ESWITCH_MAX_PERSISTED_MEMBERS].
         \<not> (pm_active (mg_memberships m5 j) \<and> pm_vswitch_id (mg_memberships m5 j) = vid))"
    using release_members_outcome [OF wf2 _ rl] by simp_all
  have "r5 = DOCA_SUCCESS \<Longrightarrow> l2_wf (m5\<lparr>mg_switches := (mg_switches m5)(k := vswitch_zero)\<rparr>)"
    using out find_vswitch_Some [OF Some] by (intro remove_switch_wf) auto
  with red wf wf2 out(1) show ?thesis by (auto split: if_splits)
qed

section \<open>Any sequence of operations\<close>

datatype l2_event =
    Create_vswitch u16
  | Attach_port u16 u16 eswitch_port_mode u16 u16 u16 u16
  | Detach_port u16 u16
  | Delete_vswitch u16

definition l2_step :: "'s manager_env \<Rightarrow> l2_event \<Rightarrow> eswitch_manager \<times> 's \<Rightarrow> eswitch_manager \<times> 's" where
  "l2_step env ev st =
     (case ev of
        Create_vswitch vid \<Rightarrow> (snd (create_vswitch (fst st) vid), snd st)
      | Attach_port vs port mode v l e f \<Rightarrow> snd (attach_port env (fst st) vs port mode v l e f (snd st))
      | Detach_port vs port \<Rightarrow> snd (detach_port env (fst st) vs port (snd st))
      | Delete_vswitch vid \<Rightarrow> snd (delete_vswitch env (fst st) vid (snd st)))"

lemma l2_step_wf: "l2_wf (fst st) \<Longrightarrow> l2_wf (fst (l2_step env ev st))"
proof (cases ev)
  case (Create_vswitch vid)
  then show "l2_wf (fst st) \<Longrightarrow> ?thesis"
    using create_wf [of "fst st" vid] by (metis fst_conv l2_event.simps(17) l2_step_def prod.collapse)
next
  case (Attach_port vs port mode v l e f)
  then show "l2_wf (fst st) \<Longrightarrow> ?thesis"
    using attach_port_wf [of "fst st" env vs port mode v l e f "snd st"] by (simp add: l2_step_def prod_eq_iff)
next
  case (Detach_port vs port)
  then show "l2_wf (fst st) \<Longrightarrow> ?thesis"
    using detach_port_wf [of "fst st" env vs port "snd st"] by (simp add: l2_step_def prod_eq_iff)
next
  case (Delete_vswitch vid)
  then show "l2_wf (fst st) \<Longrightarrow> ?thesis"
    using delete_wf [of "fst st" env vid "snd st"] by (simp add: l2_step_def prod_eq_iff)
qed

lemma l2_run_wf: "l2_wf (fst st) \<Longrightarrow> l2_wf (fst (fold (l2_step env) evs st))"
  by (induction evs arbitrary: st) (simp_all add: l2_step_wf)

section \<open>Properties\<close>

text \<open>The hardware accepts everything: one outer state, no clock.\<close>

definition willing_env :: "nat manager_env" where
  "willing_env = \<lparr>me_flow = accepting_env,
     me_attach = \<lambda>i vs mode v l ev el s. (DOCA_SUCCESS, s), me_detach = \<lambda>i vs s. (DOCA_SUCCESS, s),
     me_release = \<lambda>i vs s. (DOCA_SUCCESS, s), me_flood_add = \<lambda>vs port s. (DOCA_SUCCESS, s),
     me_flood_remove = \<lambda>vs port s. (DOCA_SUCCESS, s), me_flood_destroy = \<lambda>vs s. (DOCA_SUCCESS, s),
     me_sf_unbind_vswitch = \<lambda>vs s. (DOCA_SUCCESS, s), me_routing_enabled = \<lambda>s. False,
     me_routing_degraded = \<lambda>s. False, me_route_capacity = \<lambda>s. 16,
     me_routes_sync = \<lambda>rs s. (DOCA_SUCCESS, s),
     me_sf_bind_vswitch = \<lambda>vr i vs a m s. (DOCA_SUCCESS, 7, s),
     me_sf_bind_egress = \<lambda>vr i vs p m s. (DOCA_SUCCESS, 8, s), me_sf_unbind_rif = \<lambda>i s. (DOCA_SUCCESS, s),
     me_sf_unbind_egress = \<lambda>i vs p s. (DOCA_SUCCESS, s), me_sf_send = \<lambda>f t s. (DOCA_SUCCESS, s + 1),
     me_sf_ready = \<lambda>s. True, me_sf_contexts = \<lambda>s. [], me_ct_flush = \<lambda>vr s. (DOCA_SUCCESS, [], s), me_ct_expire = \<lambda>now s. (DOCA_SUCCESS, [], s),
     me_acl_reply_flush = \<lambda>s. (DOCA_SUCCESS, s), me_acl_reply_add = \<lambda>c i x s. (DOCA_SUCCESS, s),
     me_authorize = \<lambda>vr i p f now s. (DOCA_SUCCESS, s), me_ct_enabled = \<lambda>s. False,
     me_ct_promote = \<lambda>x a b c d e f g h s. (DOCA_SUCCESS, [], s),
     me_acl_reply_prune = \<lambda>s. (DOCA_SUCCESS, s), me_authorized_prune = \<lambda>now s. (DOCA_SUCCESS, s),
     me_save_io = \<lambda>s. (\<lparr>sio_pid = 7, sio_open = True, sio_fdopen = True, sio_write = True,
       sio_sync = True, sio_close = True, sio_rename = True, sio_sync_dir = True\<rparr>, s),
     me_clock = \<lambda>s. (5, s), me_malloc = \<lambda>s. (True, s)\<rparr>"

definition sample_ports :: "ethernet_port list" where
  "sample_ports =
     [\<lparr>eth_port_id = 0, eth_role = ETHERNET_PORT_ROLE_PARENT, eth_host_index = 0, eth_pf_index = 0,
       eth_vf_index = 0\<rparr>,
      \<lparr>eth_port_id = 3, eth_role = ETHERNET_PORT_ROLE_REPRESENTOR, eth_host_index = 1, eth_pf_index = 0,
       eth_vf_index = 2\<rparr>]"

definition sample_manager :: eswitch_manager where
  "sample_manager = fst (snd (manager_prepare willing_env sample_ports ''/c'' 0))"

lemma prepared_wf:
  assumes "distinct (map eth_port_id ports)" "manager_prepare env ports path s = (r, m, s')"
  shows "l2_wf m"
proof -
  have z: "l2_wf (manager_zero\<lparr>mg_ports := p\<rparr>)" if "distinct (map eth_port_id p)" for p
    using that vs.keys_zero ms.counted_zero
    by (simp add: l2_wf_def manager_zero_def fdb_wf_zero total_rules_def active_members_def owners_exact_def)
      (simp add: vswitch_zero_def membership_zero_def comp_def)
  have "fdb_wf (mg_fdb m) \<and> (same_tables manager_zero m \<or> same_tables (manager_zero\<lparr>mg_ports := ports\<rparr>) m)"
    using assms(2)
    by (auto simp: manager_prepare_def Let_def same_tables_def fdb_wf_zero manager_zero_def
        dest!: fdb_init_wf split: if_splits prod.splits)
  moreover have "l2_wf manager_zero" using z [of "[]"] by (simp add: manager_zero_def)
  ultimately show ?thesis using z [OF assms(1)] same_tables_wf by blast
qed

text \<open>C36: From a fresh manager, any sequence of creating, attaching, detaching and deleting, whatever the
  hardware answers, keeps the tables of the virtual switches consistent: switch ids are distinct
  and not zero, the membership counter is exact, every member belongs to an existing switch and
  an existing port and has valid VLANs, no two members conflict, the VLAN rules fit the
  pipeline, and a port's owner is exactly the switch it is an access member of.\<close>

theorem l2_tables_invariant:
  assumes "distinct (map eth_port_id ports)" "manager_prepare env ports path s = (r, m, s')"
  shows "l2_wf (fst (fold (l2_step env) evs (m, s')))"
  using prepared_wf [OF assms] by (intro l2_run_wf) simp

lemma sample_manager_ready: "manager_prepare willing_env sample_ports ''/c'' 0 = (DOCA_SUCCESS, sample_manager, 0)"
  by (simp add: sample_manager_def manager_prepare_def willing_env_def PATH_MAX_def manager_zero_def
      eswitch_fdb_init_def SWITCH_MAX_FDB_ENTRIES_def SWITCH_FDB_AGING_SECONDS_def)

theorem l2_tables_invariant_witness:
  "l2_wf (fst (fold (l2_step willing_env)
     [Create_vswitch 100, Attach_port 100 3 ESWITCH_PORT_MODE_ACCESS 0 0 0 0, Delete_vswitch 100]
     (sample_manager, 0)))"
  by (rule l2_tables_invariant [OF _ sample_manager_ready]) (simp add: sample_ports_def)

text \<open>C37: Attaching and detaching are all or nothing in the tables: a failed attach leaves the manager as it
  was, a failed detach leaves switches, members, owners and the neighbor table as they were
  (whatever the roll-back in hardware answered), and a successful detach removes exactly the
  named member.\<close>

theorem l2_transactions:
  assumes "l2_wf m"
  shows "(\<forall>r m' s'. attach_port env m vs port mode v l ev el s = (r, m', s') \<and> r \<noteq> DOCA_SUCCESS \<longrightarrow> m' = m) \<and>
    (\<forall>r m' s'. detach_port env m vs port s = (r, m', s') \<longrightarrow>
       (if r = DOCA_SUCCESS
        then \<exists>j. find_membership m vs port = Some j \<and>
          same_tables (clear_member (pm_port_index (mg_memberships m j)) j m) m'
        else same_tables m m' \<and> mg_neighbors m' = mg_neighbors m))"
  using attach_outcome [of env m vs port mode v l ev el s] detach_outcome [OF assms, of env vs port s]
  by (metis (full_types))

theorem l2_transactions_witness:
  "fst (detach_port willing_env sample_manager 100 3 0) = DOCA_ERROR_NOT_FOUND \<and>
   same_tables sample_manager (fst (snd (detach_port willing_env sample_manager 100 3 0)))"
proof -
  have "mg_switches sample_manager = (\<lambda>_. vswitch_zero)"
    by (simp add: sample_manager_def manager_prepare_def willing_env_def PATH_MAX_def manager_zero_def
        eswitch_fdb_init_def SWITCH_MAX_FDB_ENTRIES_def SWITCH_FDB_AGING_SECONDS_def)
  then have d: "find_vswitch sample_manager 100 = None"
    by (simp add: find_vswitch_def first_slot_None vswitch_zero_def)
  obtain r m' s' where e: "detach_port willing_env sample_manager 100 3 0 = (r, m', s')" by (metis prod_cases3)
  have "l2_wf sample_manager"
    by (rule prepared_wf [OF _ sample_manager_ready]) (simp add: sample_ports_def)
  from l2_transactions [OF this] e d show ?thesis by (auto simp: detach_port_def split: if_splits)
qed

end
