(* ===== verification/Eswitch_State_Props.thy ===== *)
theory Eswitch_State_Props
  imports Eswitch_State
begin

text \<open>
  The configuration file read back: the invariant of the states the program builds, which parsing
  any text keeps, and the round trip of saving and loading.
\<close>

section \<open>The invariant\<close>

text \<open>
  Switch ids are distinct, names are empty or valid, every member belongs to a switch, has valid
  VLANs and does not conflict with an earlier member, and the VLAN rules fit the pipeline.
\<close>

definition state_wf :: "eswitch_state \<Rightarrow> bool" where
  "state_wf st \<longleftrightarrow>
     length (es_switches st) \<le> ESWITCH_MAX_VSWITCHES \<and> distinct (map fst (es_switches st)) \<and>
     (\<forall>s\<in>set (es_switches st). fst s \<noteq> 0 \<and> (snd s = [] \<or> eswitch_vs_name_valid (snd s))) \<and>
     length (es_members st) \<le> es_member_capacity st \<and>
     (\<forall>m\<in>set (es_members st). sm_vswitch_id m \<in> fst ` set (es_switches st) \<and> \<not> sm_invalid m) \<and>
     sorted_wrt (\<lambda>a b. \<not> sm_conflict a b) (es_members st) \<and>
     sum_list (map sm_rules (es_members st)) \<le> ESWITCH_MAX_VLAN_MEMBERSHIPS"

lemma state_wf_zero: "state_wf (state_zero\<lparr>es_member_capacity := n\<rparr>)"
  by (simp add: state_wf_def state_zero_def)

lemma switch_exists_iff: "state_switch_exists st vs \<longleftrightarrow> vs \<in> fst ` set (es_switches st)"
  by (auto simp: state_switch_exists_def list_ex_iff)

lemma add_switch_wf:
  "state_wf st \<Longrightarrow> eswitch_state_add_switch st vs = (r, st') \<Longrightarrow> state_wf st'"
  by (auto simp: state_wf_def eswitch_state_add_switch_def switch_exists_iff split: if_splits)

lemma add_member_wf:
  "state_wf st \<Longrightarrow> eswitch_state_add_member st m = (r, st') \<Longrightarrow> state_wf st'"
  by (auto simp: state_wf_def eswitch_state_add_member_def switch_exists_iff sorted_wrt_append
      list_ex_iff split: if_splits) force

lemma rename_last_wf:
  assumes "state_wf st" "eswitch_state_add_switch st vs = (DOCA_SUCCESS, st')" "eswitch_vs_name_valid n"
  shows "state_wf (st'\<lparr>es_switches := butlast (es_switches st') @ [(vs, n)]\<rparr>)"
  using assms by (auto simp: state_wf_def eswitch_state_add_switch_def switch_exists_iff split: if_splits)

lemma parse_line_wf:
  assumes wf: "state_wf st" and r: "parse_line line v st = (r, v', st')"
  shows "state_wf st'"
proof -
  obtain tokens count where t: "split_tokens 16 line = (tokens, count)" by force
  have sw: "parse_vswitch tokens count w st = (r, v', st') \<Longrightarrow> state_wf st'" for w
    using wf add_switch_wf [OF wf] rename_last_wf [OF wf]
    by (auto simp: parse_vswitch_def refused_def Let_def split: option.splits prod.splits if_splits)
  have mb: "parse_member tokens count w st = (r, v', st') \<Longrightarrow> state_wf st'" for w
    using wf add_member_wf [OF wf]
    by (auto simp: parse_member_def refused_def Let_def split: option.splits prod.splits if_splits)
  have vr: "parse_version tokens v st = (r, v', st') \<Longrightarrow> state_wf st'"
    using wf by (auto simp: parse_version_def refused_def split: option.splits if_splits)
  show ?thesis
    using r t wf vr mb sw
    by (auto simp: parse_line_def refused_def split: option.splits if_splits)
qed

lemma load_lines_keeps:
  assumes step: "\<And>line v st r v' st'. P st \<Longrightarrow> parse_line line v st = (r, v', st') \<Longrightarrow> P st'"
  shows "P st \<Longrightarrow> load_lines limit body v st = (r, v', st') \<Longrightarrow> P st'"
proof (induction limit body v st rule: load_lines.induct)
  case (1 limit body v st)
  let ?g = "fgets ESWITCH_STATE_LINE_SIZE body"
  obtain r1 v1 st1 where p: "parse_line (fst ?g) v st = (r1, v1, st1)" by (metis prod_cases3)
  note wf1 = step [OF 1(2) p]
  show ?case
  proof (cases "(body = [] \<or> limit = Some 0) \<or> line_too_long ESWITCH_STATE_LINE_SIZE (fst ?g) \<or>
      r1 \<noteq> DOCA_SUCCESS")
    case True
    with 1(2,3) p wf1 show ?thesis
      by (simp add: load_lines.simps [of limit body] split: if_splits)
  next
    case False
    with 1(3) p have "load_lines (map_option (\<lambda>n. n - 1) limit) (snd ?g) v1 st1 = (r, v', st')"
      by (simp add: load_lines.simps [of limit body])
    from 1(1) [OF _ _ p [symmetric] refl refl _ wf1 this] False show ?thesis by simp
  qed
qed

section \<open>Tokens read back\<close>

definition token_ok :: "string \<Rightarrow> bool" where
  "token_ok t \<longleftrightarrow> t \<noteq> [] \<and> list_all (\<lambda>c. \<not> is_delim c) t"

lemma strtok_token:
  "list_all (\<lambda>c. \<not> is_delim c) t \<Longrightarrow> strtok_from acc (t @ rest) = strtok_from (rev t @ acc) rest"
  by (induction t arbitrary: acc) auto

lemma strtok_unwords:
  assumes "list_all token_ok ts"
  shows "strtok (unwords ts @ [nl]) = ts"
proof -
  have d: "is_delim CHR '' ''" "is_delim nl" by (simp_all add: is_delim_def nl_def)
  show ?thesis
    using assms
  proof (induction ts rule: unwords.induct)
    case 1
    then show ?case using d by (simp add: strtok_def)
  next
    case (2 w)
    then show ?case using d strtok_token [of w "[]" "[nl]"] by (simp add: strtok_def token_ok_def)
  next
    case (3 w v vs)
    then show ?case
      using d strtok_token [of w "[]" "CHR '' '' # unwords (v # vs) @ [nl]"]
      by (simp add: strtok_def token_ok_def)
  qed
qed

lemma digit_classes:
  "is_digit c \<Longrightarrow> \<not> is_delim c \<and> \<not> is_space c \<and> c \<noteq> CHR ''-'' \<and> c \<noteq> CHR ''+'' \<and> c \<noteq> CHR ''#'' \<and> c \<noteq> nl"
  by (auto simp: is_digit_def is_delim_def is_space_def nl_def)

lemma dec_token: "token_ok (dec n)"
  using dec_digits [of n] digit_classes by (auto simp: token_ok_def list_all_iff)

lemma dec_hd: "is_digit (hd (dec n))"
  using dec_digits [of n] by (simp add: list_all_iff)

lemma parse_u32_dec: "n \<le> 4294967295 \<Longrightarrow> parse_u32 (dec n) = Some (of_nat n)"
proof -
  assume n: "n \<le> 4294967295"
  have h: "\<not> is_space (hd (dec n))" "hd (dec n) \<noteq> CHR ''-''" "hd (dec n) \<noteq> CHR ''+''"
    using digit_classes [OF dec_hd [of n]] by simp_all
  have "dropWhile is_space (dec n) = dec n"
    using h(1) by (cases "dec n") simp_all
  then show ?thesis using n h by (simp add: parse_u32_def dec_digits strtoul_value_def)
qed

lemma parse_dec_u32 [simp]: "parse_u32 (dec_u32 w) = Some w"
proof -
  have "unat w \<le> 4294967295" using unat_u32_less [of w] by linarith
  from parse_u32_dec [OF this] show ?thesis by (simp add: dec_u32_def)
qed

lemma parse_dec_u16_32: "parse_u32 (dec_u16 w) = Some (ucast w)"
proof -
  have "unat w \<le> 4294967295" using unat_u16_less [of w] by linarith
  from parse_u32_dec [OF this] show ?thesis by (simp add: dec_u16_def)
qed

lemma ucast_ucast_small: "ucast (ucast (w :: u16) :: u32) = w"
  by (rule bit_word_eqI) (simp add: bit_simps)

lemma parse_dec_u16 [simp]: "parse_u16 (dec_u16 w) = Some w"
proof -
  have "unat (ucast w :: u32) \<le> 65535" using unat_u16_le [of w] by (simp add: unat_ucast_u16_u32)
  then have "\<not> (65535 :: u32) < ucast w" by (simp add: word_less_nat_alt)
  then show ?thesis by (simp add: parse_u16_def parse_dec_u16_32 ucast_ucast_small)
qed

lemma parse_dec_id: "w \<noteq> 0 \<Longrightarrow> parse_id (dec_u16 w) = Some w"
  by (simp add: parse_id_def)

lemma name_token: "eswitch_vs_name_valid n \<Longrightarrow> token_ok n"
  by (auto simp: eswitch_vs_name_valid_def token_ok_def list_all_iff vs_name_char_def is_delim_def
      is_alpha_def is_digit_def)

section \<open>Lines read back\<close>

lemma split_tokens_unwords:
  assumes "list_all token_ok ts" "\<forall>t\<in>set ts. hd t \<noteq> CHR ''#''" "length ts \<le> 16"
  shows "split_tokens 16 (unwords ts @ [nl]) = (ts, length ts)"
proof -
  have tw: "takeWhile (\<lambda>t. hd t \<noteq> CHR ''#'') ts = ts" using assms(2) by (simp add: takeWhile_eq_all_conv)
  then show ?thesis
    unfolding split_tokens_def strtok_unwords [OF assms(1)] tw Let_def using assms(3) by simp
qed

lemma fgets_line:
  assumes "nl \<notin> set l" "length l < 511"
  shows "fgets ESWITCH_STATE_LINE_SIZE (l @ nl # rest) = (l @ [nl], rest)"
proof -
  have "takeWhile (\<lambda>c. c \<noteq> nl) (l @ nl # rest) = l" using assms(1) by (subst takeWhile_append2) auto
  then show ?thesis using assms(2) by (simp add: fgets_def ESWITCH_STATE_LINE_SIZE_def)
qed

lemma load_line:
  assumes "nl \<notin> set l" "length l < 511" "parse_line (l @ [nl]) v st = (DOCA_SUCCESS, v', st')"
  shows "load_lines None (l @ nl # rest) v st = load_lines None rest v' st'"
  using assms
  by (subst load_lines.simps) (simp add: fgets_line line_too_long_def)

lemma dec_length: "n < 10 ^ k \<Longrightarrow> 0 < k \<Longrightarrow> length (dec n) \<le> k"
proof (induction n arbitrary: k rule: dec.induct)
  case (1 n)
  show ?case
  proof (cases "n < 10")
    case True
    with 1 show ?thesis by (simp add: dec.simps [of n])
  next
    case False
    obtain j where k1: "k = Suc j" using 1(3) by (cases k) auto
    have "0 < j" using 1(2) False k1 by (cases j) simp_all
    with k1 have k: "k = Suc j" "0 < j" by simp_all
    with 1(2) have "n div 10 < 10 ^ j" by (simp add: less_mult_imp_div_less mult.commute)
    from 1(1) [OF False this k(2)] k False show ?thesis by (simp add: dec.simps [of n])
  qed
qed

lemma dec_u16_length: "length (dec_u16 w) \<le> 5"
  unfolding dec_u16_def by (rule dec_length [OF order.strict_trans [OF unat_u16_less]]) simp_all

lemma dec_u32_length: "length (dec_u32 w) \<le> 10"
  unfolding dec_u32_def by (rule dec_length [OF order.strict_trans [OF unat_u32_less]]) simp_all

lemma length_unwords: "length (unwords ts) \<le> sum_list (map (\<lambda>t. Suc (length t)) ts)"
  by (induction ts rule: unwords.induct) simp_all

lemma unwords_no_nl: "list_all token_ok ts \<Longrightarrow> nl \<notin> set (unwords ts)"
proof (induction ts rule: unwords.induct)
  case (2 w)
  then show ?case by (auto simp: token_ok_def list_all_iff is_delim_def nl_def)
next
  case (3 w v vs)
  then have "nl \<notin> set w" by (auto simp: token_ok_def list_all_iff is_delim_def nl_def)
  with 3 show ?case by (simp add: nl_def)
qed simp

lemma hd_dec: "hd (dec n) \<noteq> CHR ''#''"
  using digit_classes [OF dec_hd [of n]] by simp

lemma number_tokens [simp]:
  "token_ok (dec_u16 w)" "token_ok (dec_u32 x)" "hd (dec_u16 w) \<noteq> CHR ''#''" "hd (dec_u32 x) \<noteq> CHR ''#''"
  by (simp_all add: dec_u16_def dec_u32_def dec_token hd_dec)

lemma word_tokens [simp]:
  "token_ok ''version''" "token_ok ''vswitch''" "token_ok ''member''" "token_ok ''parent''"
  "token_ok ''representor''" "token_ok (mode_text mode)" "hd (mode_text mode) \<noteq> CHR ''#''"
  "length (mode_text mode) \<le> 6"
  by (simp_all add: token_ok_def is_delim_def mode_text_def)

lemma name_hd: "eswitch_vs_name_valid n \<Longrightarrow> hd n \<noteq> CHR ''#''"
  by (cases n) (auto simp: eswitch_vs_name_valid_def vs_name_char_def is_alpha_def is_digit_def)

definition switch_ok :: "u16 \<times> string \<Rightarrow> bool" where
  "switch_ok s \<longleftrightarrow> fst s \<noteq> 0 \<and> (snd s = [] \<or> eswitch_vs_name_valid (snd s))"

lemma switch_tokens_ok:
  assumes "switch_ok s"
  shows "list_all token_ok (switch_tokens s) \<and> (\<forall>t\<in>set (switch_tokens s). hd t \<noteq> CHR ''#'') \<and>
    length (unwords (switch_tokens s)) < 511"
proof -
  have "length (snd s) \<le> 63"
    using assms by (auto simp: switch_ok_def eswitch_vs_name_valid_def ESWITCH_VS_NAME_SIZE_def)
  moreover have "length (unwords (switch_tokens s)) \<le> 8 + Suc (length (dec_u16 (fst s))) + Suc (length (snd s))"
    using length_unwords [of "switch_tokens s"] by (simp add: switch_tokens_def split: if_splits)
  ultimately have "length (unwords (switch_tokens s)) < 511" using dec_u16_length [of "fst s"] by linarith
  then show ?thesis
    using assms by (auto simp: switch_tokens_def switch_ok_def name_token name_hd)
qed

lemma member_tokens_ok:
  "list_all token_ok (member_tokens m) \<and> (\<forall>t\<in>set (member_tokens m). hd t \<noteq> CHR ''#'') \<and>
   length (unwords (member_tokens m)) < 511"
proof -
  have "length (unwords (member_tokens m)) \<le> 7 + 12 + Suc (length (dec_u16 (sm_vswitch_id m))) +
      Suc (length (dec_u32 (sm_host_index m))) + Suc (length (dec_u32 (sm_pf_index m))) +
      Suc (length (dec_u32 (sm_vf_index m))) + Suc (length (mode_text (sm_mode m))) +
      Suc (length (dec_u16 (sm_vlan_id m))) + Suc (length (dec_u16 (sm_vlan_last m))) +
      Suc (length (dec_u16 (sm_vlan_extra_id m))) + Suc (length (dec_u16 (sm_vlan_extra_last m)))"
    using length_unwords [of "member_tokens m"] by (simp add: member_tokens_def vlan_tokens_def split: if_splits)
  then have "length (unwords (member_tokens m)) < 511"
    using dec_u16_length [of "sm_vswitch_id m"] dec_u32_length [of "sm_host_index m"]
      dec_u32_length [of "sm_pf_index m"] dec_u32_length [of "sm_vf_index m"]
      word_tokens(8) [of "sm_mode m"] dec_u16_length [of "sm_vlan_id m"]
      dec_u16_length [of "sm_vlan_last m"] dec_u16_length [of "sm_vlan_extra_id m"]
      dec_u16_length [of "sm_vlan_extra_last m"] by linarith
  then show ?thesis by (auto simp: member_tokens_def vlan_tokens_def)
qed

lemma parse_line_switch:
  assumes "switch_ok s" "fst s \<notin> fst ` set (es_switches st)" "length (es_switches st) < ESWITCH_MAX_VSWITCHES"
  shows "parse_line (unwords (switch_tokens s) @ [nl]) (Some 5) st =
    (DOCA_SUCCESS, Some 5, st\<lparr>es_switches := es_switches st @ [s]\<rparr>)"
proof -
  have sp: "split_tokens 16 (unwords (switch_tokens s) @ [nl]) = (switch_tokens s, length (switch_tokens s))"
    using switch_tokens_ok [OF assms(1)] by (intro split_tokens_unwords) (simp_all add: switch_tokens_def)
  have ad: "eswitch_state_add_switch st (fst s) =
      (DOCA_SUCCESS, st\<lparr>es_switches := es_switches st @ [(fst s, [])]\<rparr>)"
    using assms by (simp add: eswitch_state_add_switch_def switch_exists_iff switch_ok_def)
  have id: "parse_id (dec_u16 (fst s)) = Some (fst s)"
    using assms(1) by (intro parse_dec_id) (simp add: switch_ok_def)
  show ?thesis
    unfolding parse_line_def sp Let_def prod.case
    using assms(1) id ad
    by (cases s) (auto simp: parse_vswitch_def switch_tokens_def switch_ok_def)
qed

text \<open>A parent port is identified by its kind alone; the program leaves its indices zero.\<close>

definition member_normal :: "eswitch_state_member \<Rightarrow> bool" where
  "member_normal m \<longleftrightarrow> (sm_kind m = ESWITCH_STATE_PORT_PARENT \<longrightarrow>
     sm_host_index m = 0 \<and> sm_pf_index m = 0 \<and> sm_vf_index m = 0)"

lemma parse_vlans_back:
  assumes "\<not> sm_invalid m" "i + 4 < length ts"
    "\<forall>j<5. ts ! (i + j) = vlan_tokens m ! j" "i = (if sm_kind p = ESWITCH_STATE_PORT_PARENT then 3 else 6)"
    "sm_mode p = ESWITCH_PORT_MODE_ACCESS" "sm_vlan_extra_id p = 0" "sm_vlan_extra_last p = 0"
  shows "parse_vlans ts 5 p = Some (p\<lparr>sm_mode := sm_mode m, sm_vlan_id := sm_vlan_id m,
    sm_vlan_last := sm_vlan_last m, sm_vlan_extra_id := sm_vlan_extra_id m,
    sm_vlan_extra_last := sm_vlan_extra_last m\<rparr>)"
proof -
  have t: "ts ! i = mode_text (sm_mode m)" "ts ! (i + 1) = dec_u16 (sm_vlan_id m)"
    "ts ! (i + 2) = dec_u16 (sm_vlan_last m)" "ts ! (i + 3) = dec_u16 (sm_vlan_extra_id m)"
    "ts ! (i + 4) = dec_u16 (sm_vlan_extra_last m)"
    using assms(3) [rule_format, of 0] assms(3) [rule_format, of 1] assms(3) [rule_format, of 2]
      assms(3) [rule_format, of 3] assms(3) [rule_format, of 4] by (simp_all add: vlan_tokens_def)
  have d: "parse_vlans ts 5 p = (if ts ! i = ''trunk'' then parse_trunk ts i 5 p
      else if ts ! i \<noteq> ''access'' then None else parse_access ts i 5 p)"
    using assms(4) by (simp add: parse_vlans_def)
  show ?thesis
  proof (cases "sm_mode m")
    case ESWITCH_PORT_MODE_TRUNK
    then have "eswitch_vlan_allowlist_valid (sm_vlan_id m) (sm_vlan_last m) (sm_vlan_extra_id m)
        (sm_vlan_extra_last m)" using assms(1) by (simp add: sm_invalid_def member_vlans_invalid_def)
    moreover from this have "eswitch_vlan_range_valid (sm_vlan_id m) (sm_vlan_last m)"
      by (simp add: eswitch_vlan_allowlist_valid_def split: if_splits)
    moreover from this have "eswitch_vlan_valid (sm_vlan_id m)"
      by (simp add: eswitch_vlan_range_valid_def Let_def)
    ultimately show ?thesis
      using ESWITCH_PORT_MODE_TRUNK t by (simp add: d mode_text_def parse_trunk_def)
  next
    case ESWITCH_PORT_MODE_ACCESS
    then have "sm_vlan_last m = sm_vlan_id m" "sm_vlan_extra_id m = 0" "sm_vlan_extra_last m = 0"
      using assms(1) by (simp_all add: sm_invalid_def member_vlans_invalid_def)
    then show ?thesis
      using ESWITCH_PORT_MODE_ACCESS t assms(5-7)
      by (simp add: d mode_text_def parse_access_def parse_dec_u16_32)
  qed
qed

lemma less_5: "(\<forall>j<5. P j) \<longleftrightarrow> P 0 \<and> P 1 \<and> P 2 \<and> P 3 \<and> P (4 :: nat)"
  by (auto simp: less_Suc_eq numeral_eq_Suc)

lemma parse_line_member:
  assumes m: "\<not> sm_invalid m" "sm_vswitch_id m \<noteq> 0" "member_normal m"
    and add: "eswitch_state_add_member st m = (DOCA_SUCCESS, st')"
  shows "parse_line (unwords (member_tokens m) @ [nl]) (Some 5) st = (DOCA_SUCCESS, Some 5, st')"
proof -
  let ?ts = "member_tokens m"
  define p where "p = (member_zero\<lparr>sm_vswitch_id := sm_vswitch_id m\<rparr>)
    \<lparr>sm_kind := sm_kind m, sm_host_index := sm_host_index m, sm_pf_index := sm_pf_index m,
     sm_vf_index := sm_vf_index m\<rparr>"
  have "length ?ts \<le> 16" by (simp add: member_tokens_def vlan_tokens_def)
  with member_tokens_ok [of m] have sp: "split_tokens 16 (unwords ?ts @ [nl]) = (?ts, length ?ts)"
    by (intro split_tokens_unwords) simp_all
  have id: "parse_id (?ts ! 1) = Some (sm_vswitch_id m)"
    using parse_dec_id [OF m(2)] by (simp add: member_tokens_def)
  have port: "parse_port ?ts (length ?ts) 5 (member_zero\<lparr>sm_vswitch_id := sm_vswitch_id m\<rparr>) = Some p"
    using m(3) by (cases "sm_kind m")
      (simp_all add: parse_port_def member_tokens_def vlan_tokens_def p_def member_normal_def member_zero_def)
  have vl: "parse_vlans ?ts 5 p = Some m"
  proof (subst parse_vlans_back [OF m(1), where i = "if sm_kind p = ESWITCH_STATE_PORT_PARENT then 3 else 6"])
    show "(if sm_kind p = ESWITCH_STATE_PORT_PARENT then 3 else 6) + 4 < length ?ts"
      by (simp add: p_def member_tokens_def vlan_tokens_def)
    show "\<forall>j<5. ?ts ! ((if sm_kind p = ESWITCH_STATE_PORT_PARENT then 3 else 6) + j) = vlan_tokens m ! j"
      by (simp add: less_5 p_def member_tokens_def vlan_tokens_def)
  qed (simp_all add: p_def member_zero_def)
  have c: "3 \<le> length ?ts" "length ?ts \<noteq> 2" "length ?ts \<noteq> 3" "length ?ts \<noteq> 0"
    by (simp_all add: member_tokens_def vlan_tokens_def)
  show ?thesis
    unfolding parse_line_def sp Let_def prod.case
    using c id port vl add by (simp add: parse_member_def member_tokens_def [of m, THEN arg_cong [where f = "\<lambda>t. t ! 0"]])
qed

section \<open>A saved state read back\<close>

lemma state_prefix_switches:
  assumes "state_wf (st\<lparr>es_switches := es_switches st @ s # ss\<rparr>)"
  shows "switch_ok s" "fst s \<notin> fst ` set (es_switches st)" "length (es_switches st) < ESWITCH_MAX_VSWITCHES"
  using assms by (auto simp: state_wf_def switch_ok_def image_iff)

lemma load_switches:
  assumes "state_wf (st\<lparr>es_switches := es_switches st @ ss\<rparr>)"
  shows "load_lines None (concat (map (\<lambda>s. unwords (switch_tokens s) @ [nl]) ss) @ rest) (Some 5) st =
    load_lines None rest (Some 5) (st\<lparr>es_switches := es_switches st @ ss\<rparr>)"
  using assms
proof (induction ss arbitrary: st)
  case Nil
  then show ?case by simp
next
  case (Cons s ss)
  note ok = state_prefix_switches [OF Cons.prems]
  have "nl \<notin> set (unwords (switch_tokens s))" "length (unwords (switch_tokens s)) < 511"
    using switch_tokens_ok [OF ok(1)] unwords_no_nl by blast+
  note step = load_line [OF this parse_line_switch [OF ok]]
  show ?case
    using Cons.IH [of "st\<lparr>es_switches := es_switches st @ [s]\<rparr>"] Cons.prems
    by (simp add: step)
qed

lemma load_members:
  assumes "state_wf (st\<lparr>es_members := es_members st @ ms\<rparr>)" "list_all member_normal ms"
  shows "load_lines None (concat (map (\<lambda>m. unwords (member_tokens m) @ [nl]) ms) @ rest) (Some 5) st =
    load_lines None rest (Some 5) (st\<lparr>es_members := es_members st @ ms\<rparr>)"
  using assms
proof (induction ms arbitrary: st)
  case Nil
  then show ?case by simp
next
  case (Cons m ms)
  have add: "eswitch_state_add_member st m = (DOCA_SUCCESS, st\<lparr>es_members := es_members st @ [m]\<rparr>)"
    and ok: "\<not> sm_invalid m" "sm_vswitch_id m \<noteq> 0" "member_normal m"
    using Cons.prems
    by (auto simp: state_wf_def eswitch_state_add_member_def switch_exists_iff sorted_wrt_append list_ex_iff)
  have "nl \<notin> set (unwords (member_tokens m))" "length (unwords (member_tokens m)) < 511"
    using member_tokens_ok [of m] unwords_no_nl by blast+
  note step = load_line [OF this parse_line_member [OF ok add]]
  show ?case
    using Cons.IH [of "st\<lparr>es_members := es_members st @ [m]\<rparr>"] Cons.prems
    by (simp add: step)
qed

lemma comment_line: "''# eSwitch Management persistent state'' =
    unwords [''#'', ''eSwitch'', ''Management'', ''persistent'', ''state'']"
  by simp

lemma parse_comment: "parse_line (''# eSwitch Management persistent state'' @ [nl]) v st = (DOCA_SUCCESS, v, st)"
proof -
  have "strtok (''# eSwitch Management persistent state'' @ [nl]) =
      [''#'', ''eSwitch'', ''Management'', ''persistent'', ''state'']"
    unfolding comment_line by (rule strtok_unwords) (simp add: token_ok_def is_delim_def)
  then have "split_tokens 16 (''# eSwitch Management persistent state'' @ [nl]) = ([], 0)"
    by (simp add: split_tokens_def)
  then show ?thesis by (simp add: parse_line_def)
qed

lemma parse_version_line:
  "parse_line (unwords [''version'', dec_u32 ESWITCH_STATE_VERSION] @ [nl]) None st = (DOCA_SUCCESS, Some 5, st)"
proof -
  have "split_tokens 16 (unwords [''version'', dec_u32 ESWITCH_STATE_VERSION] @ [nl]) =
      ([''version'', dec_u32 ESWITCH_STATE_VERSION], 2)"
    by (subst split_tokens_unwords) simp_all
  then show ?thesis
    unfolding parse_line_def Let_def by (simp add: parse_version_def ESWITCH_STATE_VERSION_def)
qed

lemma version_line:
  "nl \<notin> set (unwords [''version'', dec_u32 ESWITCH_STATE_VERSION])"
  "length (unwords [''version'', dec_u32 ESWITCH_STATE_VERSION]) < 511"
proof -
  show "nl \<notin> set (unwords [''version'', dec_u32 ESWITCH_STATE_VERSION])"
    by (rule unwords_no_nl) simp
  show "length (unwords [''version'', dec_u32 ESWITCH_STATE_VERSION]) < 511"
    using dec_u32_length [of ESWITCH_STATE_VERSION] by simp
qed

lemma comment_line_short:
  "nl \<notin> set ''# eSwitch Management persistent state''" "length ''# eSwitch Management persistent state'' < 511"
  by (simp_all add: nl_def)

lemma state_text_split:
  "state_text st = ''# eSwitch Management persistent state'' @ nl #
     unwords [''version'', dec_u32 ESWITCH_STATE_VERSION] @ nl #
     concat (map (\<lambda>s. unwords (switch_tokens s) @ [nl]) (es_switches st)) @
     concat (map (\<lambda>m. unwords (member_tokens m) @ [nl]) (es_members st))"
  by (simp add: state_text_def state_lines_def comp_def del: unwords.simps)

lemma load_state_text:
  assumes wf: "state_wf st" and n: "list_all member_normal (es_members st)"
  shows "load_lines None (state_text st) None (state_zero\<lparr>es_member_capacity := es_member_capacity st\<rparr>) =
    (DOCA_SUCCESS, Some 5, st)"
proof -
  let ?z = "state_zero\<lparr>es_member_capacity := es_member_capacity st\<rparr>"
  let ?s = "?z\<lparr>es_switches := es_switches ?z @ es_switches st\<rparr>"
  have s: "state_wf ?s" using wf by (simp add: state_wf_def state_zero_def)
  have m: "?s\<lparr>es_members := es_members ?s @ es_members st\<rparr> = st" by (simp add: state_zero_def)
  have "load_lines None (concat (map (\<lambda>m. unwords (member_tokens m) @ [nl]) (es_members st)) @ []) (Some 5) ?s =
      load_lines None [] (Some 5) st"
    using load_members [of ?s "es_members st" "[]"] wf n m by simp
  then show ?thesis
    unfolding state_text_split
    by (simp only: load_line [OF comment_line_short parse_comment] load_line [OF version_line parse_version_line]
        load_switches [OF s] append_Nil2) (simp add: load_lines.simps)
qed

section \<open>Parsed states are normal\<close>

lemma parse_vlans_port:
  "parse_vlans ts v p = Some m \<Longrightarrow> sm_kind m = sm_kind p \<and> sm_host_index m = sm_host_index p \<and>
     sm_pf_index m = sm_pf_index p \<and> sm_vf_index m = sm_vf_index p"
  by (auto simp: parse_vlans_def parse_trunk_def parse_access_def Let_def split: if_splits option.splits)

lemma parse_port_normal:
  "parse_port ts n v (member_zero\<lparr>sm_vswitch_id := vs\<rparr>) = Some p \<Longrightarrow> member_normal p"
  by (auto simp: parse_port_def member_normal_def member_zero_def split: if_splits option.splits)

lemma parse_line_normal:
  assumes "list_all member_normal (es_members st)" "parse_line line v st = (r, v', st')"
  shows "list_all member_normal (es_members st')"
proof -
  obtain tokens count where t: "split_tokens 16 line = (tokens, count)" by force
  have sw: "parse_vswitch tokens count w st = (r, v', st') \<Longrightarrow> es_members st' = es_members st" for w
    by (auto simp: parse_vswitch_def refused_def Let_def eswitch_state_add_switch_def
        split: option.splits prod.splits if_splits)
  have mb: "parse_member tokens count w st = (r, v', st') \<Longrightarrow> list_all member_normal (es_members st')" for w
    using assms(1) parse_port_normal
    by (fastforce simp: parse_member_def refused_def Let_def eswitch_state_add_member_def member_normal_def
        dest: parse_vlans_port split: option.splits prod.splits if_splits)
  have vr: "parse_version tokens v st = (r, v', st') \<Longrightarrow> st' = st"
    by (auto simp: parse_version_def refused_def split: option.splits if_splits)
  show ?thesis
    using assms t vr mb sw
    by (auto simp: parse_line_def refused_def split: option.splits if_splits)
qed

lemma load_lines_wf: "state_wf st \<Longrightarrow> load_lines limit body v st = (r, v', st') \<Longrightarrow> state_wf st'"
  by (rule load_lines_keeps [of state_wf]) (rule parse_line_wf)

lemma load_lines_normal:
  "list_all member_normal (es_members st) \<Longrightarrow> load_lines limit body v st = (r, v', st') \<Longrightarrow>
   list_all member_normal (es_members st')"
  by (rule load_lines_keeps [of "\<lambda>st. list_all member_normal (es_members st)"]) (rule parse_line_normal)

section \<open>Saving and loading\<close>

text \<open>Saving is atomic, and a saved file loads as exactly the saved state.\<close>

lemma saved_then_loaded:
  assumes "state_wf st" "list_all member_normal (es_members st)"
    and "eswitch_state_save sio path st fs = (r, fs')"
    and "lio_open lio \<and> lio_read_error lio = None \<and> lio_close lio"
  shows "if r = DOCA_SUCCESS
    then eswitch_state_load lio fs' path (state_zero\<lparr>es_member_capacity := es_member_capacity st\<rparr>) =
      (DOCA_SUCCESS, True, st)
    else fs' path = fs path"
proof -
  have "temporary_path path (sio_pid sio) \<noteq> path" by (simp add: temporary_path_def)
  then have "if r = DOCA_SUCCESS then path \<noteq> [] \<and> fs' path = Some (state_text st) else fs' path = fs path"
    using assms(3) by (auto simp: eswitch_state_save_def Let_def split: if_splits)
  then show ?thesis
    using assms(4) load_state_text [OF assms(1,2)] by (simp add: eswitch_state_load_def split: if_splits)
qed

section \<open>Properties\<close>

definition quiet_load :: load_io where
  "quiet_load = \<lparr>lio_open = True, lio_read_error = None, lio_close = True\<rparr>"

lemma loaded_state:
  assumes "eswitch_state_load io fs path (state_zero\<lparr>es_member_capacity := capacity\<rparr>) = (r, found, st)"
  shows "state_wf st \<and> list_all member_normal (es_members st)"
proof -
  let ?z = "state_zero\<lparr>es_member_capacity := capacity\<rparr>"
  have z: "state_wf ?z" "list_all member_normal (es_members ?z)"
    by (rule state_wf_zero) (simp add: state_zero_def)
  show ?thesis
  proof (cases "fs path")
    case None
    with assms have "st = ?z" by (simp add: eswitch_state_load_def split: if_splits)
    with z show ?thesis by simp
  next
    case (Some body)
    obtain r1 v1 st1 where l: "load_lines (lio_read_error io) body None ?z = (r1, v1, st1)"
      by (metis prod_cases3)
    from load_lines_wf [OF z(1) l] load_lines_normal [OF z(2) l] have "state_wf st1 \<and> list_all member_normal (es_members st1)" by blast
    moreover have "st = st1 \<or> st = ?z"
      using assms by (simp add: eswitch_state_load_def Some l split: if_splits)
    ultimately show ?thesis using z by blast
  qed
qed

end
