(* ===== verification/Manager_Persist_Props.thy ===== *)
theory Manager_Persist_Props
  imports Manager_Persist L2_Switch_Inv Eswitch_State_Props
begin

text \<open>
  What the persistent configuration of the switches promises: the tables of the running manager
  are always accepted by the file format, and a manager restarted on the same ports rebuilds them.
\<close>

section \<open>Tables filled from the front\<close>

definition compact :: "('e \<Rightarrow> bool) \<Rightarrow> nat \<Rightarrow> (nat \<Rightarrow> 'e) \<Rightarrow> nat \<Rightarrow> bool" where
  "compact P n f k \<longleftrightarrow> (\<forall>i<n. P (f i) = (i < k))"

lemma compact_first:
  assumes "compact P n f k"
  shows "first_slot (\<lambda>x. \<not> P x) n f = (if k < n then Some k else None)"
  using assms by (auto simp: compact_def first_slot_Some first_slot_None)

lemma compact_store: "compact P n f k \<Longrightarrow> P x \<Longrightarrow> compact P n (f(k := x)) (Suc k)"
  by (auto simp: compact_def less_Suc_eq)

lemma compact_filter:
  assumes "compact P n f k" "k \<le> n"
  shows "filter P (map f [0..<n]) = map f [0..<k]"
proof -
  have "[0..<n] = [0..<k] @ [k..<n]" using assms(2) by (metis le0 upt_add_eq_append le_add_diff_inverse)
  moreover have "filter P (map f [0..<k]) = map f [0..<k]"
    using assms by (intro filter_True) (auto simp: compact_def)
  moreover have "filter P (map f [k..<n]) = []"
    using assms by (intro filter_False) (auto simp: compact_def)
  ultimately show ?thesis by simp
qed

lemma compact_filter_store:
  assumes "compact P n f k" "k < n" "P x"
  shows "filter P (map (f(k := x)) [0..<n]) = filter P (map f [0..<n]) @ [x]"
  using compact_filter [OF assms(1)] compact_filter [OF compact_store [OF assms(1,3)]] assms(2) by simp

section \<open>Switches and members\<close>

definition active_switches :: "eswitch_manager \<Rightarrow> (u16 \<times> string) list" where
  "active_switches m = map (\<lambda>v. (mv_id v, mv_name v))
     (filter mv_exists (map (mg_switches m) [0..<ESWITCH_MAX_VSWITCHES]))"

definition names_ok :: "eswitch_manager \<Rightarrow> bool" where
  "names_ok m \<longleftrightarrow> (\<forall>s\<in>set (active_switches m). snd s = [] \<or> eswitch_vs_name_valid (snd s))"

text \<open>Ports are told apart by what the file records of them.\<close>

definition ports_identified :: "ethernet_port list \<Rightarrow> bool" where
  "ports_identified ps \<longleftrightarrow>
     (\<forall>i<length ps. \<forall>j<length ps. eth_role (ps ! i) = eth_role (ps ! j) \<and>
        eth_role (ps ! i) \<noteq> ETHERNET_PORT_ROLE_SF_REPRESENTOR \<and>
        (eth_role (ps ! i) = ETHERNET_PORT_ROLE_PARENT \<or> port_identity (ps ! i) = port_identity (ps ! j)) \<longrightarrow>
        i = j)"

lemma state_member_fields [simp]:
  "sm_vswitch_id (state_member m p) = pm_vswitch_id p" "sm_mode (state_member m p) = pm_mode p"
  "sm_vlan_id (state_member m p) = pm_vlan_id p" "sm_vlan_last (state_member m p) = pm_vlan_last p"
  "sm_vlan_extra_id (state_member m p) = pm_vlan_extra_id p"
  "sm_vlan_extra_last (state_member m p) = pm_vlan_extra_last p"
  "sm_invalid (state_member m p) = pm_invalid p" "sm_rules (state_member m p) = pm_rules p"
  "sm_tagged (state_member m p) = pm_tagged p" "member_normal (state_member m p)"
  "sm_overlap (state_member m p) (state_member m q) = pm_overlap p q"
  by (simp_all add: state_member_def Let_def member_zero_def sm_invalid_def pm_invalid_def sm_rules_def
      pm_rules_def sm_tagged_def pm_tagged_def sm_overlap_def pm_overlap_def member_normal_def)

lemma state_member_port:
  "sm_kind (state_member m p) = (if eth_role (mg_ports m ! pm_port_index p) = ETHERNET_PORT_ROLE_PARENT
     then ESWITCH_STATE_PORT_PARENT else ESWITCH_STATE_PORT_REPRESENTOR)"
  "eth_role (mg_ports m ! pm_port_index p) \<noteq> ETHERNET_PORT_ROLE_PARENT \<Longrightarrow>
     sm_host_index (state_member m p) = eth_host_index (mg_ports m ! pm_port_index p) \<and>
     sm_pf_index (state_member m p) = eth_pf_index (mg_ports m ! pm_port_index p) \<and>
     sm_vf_index (state_member m p) = eth_vf_index (mg_ports m ! pm_port_index p)"
  by (simp_all add: state_member_def Let_def)

lemma same_port_index:
  assumes "ports_identified (mg_ports m)" "member_ok m a" "member_ok m b"
    "same_physical_port (state_member m a) (state_member m b)"
  shows "pm_port_index a = pm_port_index b"
proof -
  let ?a = "mg_ports m ! pm_port_index a" and ?b = "mg_ports m ! pm_port_index b"
  have n: "eth_role ?a \<noteq> ETHERNET_PORT_ROLE_SF_REPRESENTOR" "eth_role ?b \<noteq> ETHERNET_PORT_ROLE_SF_REPRESENTOR"
    "pm_port_index a < length (mg_ports m)" "pm_port_index b < length (mg_ports m)"
    using assms(2,3) by (simp_all add: member_ok_def)
  have "eth_role ?a = eth_role ?b"
    using assms(4) n by (cases "eth_role ?a"; cases "eth_role ?b")
      (simp_all add: same_physical_port_def state_member_port split: if_splits)
  moreover have "eth_role ?a = ETHERNET_PORT_ROLE_PARENT \<or> port_identity ?a = port_identity ?b"
    using assms(4) calculation by (auto simp: same_physical_port_def state_member_port port_identity_def
        split: if_splits)
  ultimately show ?thesis using assms(1) n unfolding ports_identified_def by blast
qed

lemma state_conflict:
  assumes "ports_identified (mg_ports m)" "member_ok m a" "member_ok m b"
    "sm_conflict (state_member m a) (state_member m b)"
  shows "pm_conflict a b"
  using assms(4) same_port_index [OF assms(1-3)]
  by (auto simp: sm_conflict_def pm_conflict_def split: if_splits)

section \<open>Tables to file\<close>

lemma add_switches_ok:
  assumes "distinct (map fst (es_switches st) @ map mv_id (filter mv_exists vs))"
    "\<forall>v\<in>set vs. mv_exists v \<longrightarrow> mv_id v \<noteq> 0"
    "length (es_switches st) + length (filter mv_exists vs) \<le> ESWITCH_MAX_VSWITCHES"
  shows "add_switches st vs = (DOCA_SUCCESS, st\<lparr>es_switches := es_switches st @
    map (\<lambda>v. (mv_id v, mv_name v)) (filter mv_exists vs)\<rparr>)"
  using assms
proof (induction vs arbitrary: st)
  case Nil
  then show ?case by simp
next
  case (Cons v vs)
  show ?case
  proof (cases "mv_exists v")
    case False
    with Cons show ?thesis by simp
  next
    case True
    have "eswitch_state_add_switch st (mv_id v) =
        (DOCA_SUCCESS, st\<lparr>es_switches := es_switches st @ [(mv_id v, [])]\<rparr>)"
      using Cons.prems True by (auto simp: eswitch_state_add_switch_def switch_exists_iff)
    moreover have "add_switches (st\<lparr>es_switches := es_switches st @ [(mv_id v, mv_name v)]\<rparr>) vs =
        (DOCA_SUCCESS, st\<lparr>es_switches := es_switches st @ [(mv_id v, mv_name v)] @
          map (\<lambda>v. (mv_id v, mv_name v)) (filter mv_exists vs)\<rparr>)"
      using Cons.prems True by (subst Cons.IH) auto
    ultimately show ?thesis using True by simp
  qed
qed

lemma add_members_ok:
  assumes "\<forall>p\<in>set ps. pm_active p \<longrightarrow> pm_vswitch_id p \<noteq> 0 \<and> state_switch_exists st (pm_vswitch_id p) \<and> \<not> pm_invalid p"
    "length (es_members st) + length (filter pm_active ps) \<le> es_member_capacity st"
    "sorted_wrt (\<lambda>a b. \<not> sm_conflict a b) (es_members st @ map (state_member m) (filter pm_active ps))"
    "sum_list (map sm_rules (es_members st)) + sum_list (map pm_rules (filter pm_active ps)) \<le> ESWITCH_MAX_VLAN_MEMBERSHIPS"
  shows "add_members m st ps = (DOCA_SUCCESS, st\<lparr>es_members := es_members st @
    map (state_member m) (filter pm_active ps)\<rparr>)"
  using assms
proof (induction ps arbitrary: st)
  case Nil
  then show ?case by simp
next
  case (Cons p ps)
  show ?case
  proof (cases "pm_active p")
    case False
    with Cons show ?thesis by simp
  next
    case True
    let ?st = "st\<lparr>es_members := es_members st @ [state_member m p]\<rparr>"
    have "\<not> list_ex (\<lambda>a. sm_conflict a (state_member m p)) (es_members st)"
      using Cons.prems(3) True by (auto simp: list_ex_iff sorted_wrt_append)
    then have "eswitch_state_add_member st (state_member m p) = (DOCA_SUCCESS, ?st)"
      using Cons.prems True by (simp add: eswitch_state_add_member_def)
    moreover have "add_members m ?st ps = (DOCA_SUCCESS, ?st\<lparr>es_members := es_members ?st @
        map (state_member m) (filter pm_active ps)\<rparr>)"
      by (rule Cons.IH) (use Cons.prems True in \<open>simp_all add: state_switch_exists_def\<close>)
    ultimately show ?thesis using True by simp
  qed
qed

lemma filter_map_upt:
  "filter P (map f [0..<n]) = map f (filter (\<lambda>i. P (f i)) [0..<n])"
  by (simp add: filter_map comp_def)

lemma active_switch_ids: "map mv_id (filter mv_exists (map (mg_switches m) [0..<ESWITCH_MAX_VSWITCHES])) = map fst (active_switches m)"
  by (simp add: active_switches_def comp_def)

lemma switches_distinct:
  assumes "l2_wf m"
  shows "distinct (map fst (active_switches m))"
proof -
  have "keys_distinct mv_exists mv_id ESWITCH_MAX_VSWITCHES (mg_switches m)"
    using assms by (simp add: l2_wf_def)
  then have "inj_on (\<lambda>i. mv_id (mg_switches m i)) (set (filter (\<lambda>i. mv_exists (mg_switches m i)) [0..<ESWITCH_MAX_VSWITCHES]))"
    by (auto simp: keys_distinct_def inj_on_def)
  then show ?thesis
    unfolding active_switches_def filter_map_upt by (simp add: distinct_map comp_def)
qed

lemma members_sorted:
  assumes wf: "l2_wf m" and ports: "ports_identified (mg_ports m)"
  shows "sorted_wrt (\<lambda>a b. \<not> sm_conflict a b) (map (state_member m) (active_members m))"
proof -
  let ?js = "filter (\<lambda>i. pm_active (mg_memberships m i)) [0..<ESWITCH_MAX_PERSISTED_MEMBERS]"
  have "sorted_wrt (\<lambda>i j. i < j) ?js" by (intro sorted_wrt_filter) (simp add: sorted_wrt_upt)
  moreover have "\<not> sm_conflict (state_member m (mg_memberships m i)) (state_member m (mg_memberships m j))"
    if "i < j" "i \<in> set ?js" "j \<in> set ?js" for i j
  proof -
    have "member_ok m (mg_memberships m i)" "member_ok m (mg_memberships m j)"
      using wf that by (simp_all add: l2_wf_def)
    moreover have "\<not> pm_conflict (mg_memberships m i) (mg_memberships m j)"
      using wf that by (simp add: l2_wf_def)
    ultimately show ?thesis using state_conflict [OF ports] by blast
  qed
  ultimately have "sorted_wrt (\<lambda>i j. \<not> sm_conflict (state_member m (mg_memberships m i))
      (state_member m (mg_memberships m j))) ?js"
    by (rule_tac sorted_wrt_mono_rel) auto
  then show ?thesis
    unfolding active_members_def filter_map_upt by (simp add: sorted_wrt_map)
qed

definition file_state :: "eswitch_manager \<Rightarrow> eswitch_state" where
  "file_state m = \<lparr>es_switches = active_switches m, es_members = map (state_member m) (active_members m),
     es_member_capacity = ESWITCH_MAX_PERSISTED_MEMBERS\<rparr>"

lemma active_members_bound: "length (active_members m) \<le> ESWITCH_MAX_PERSISTED_MEMBERS"
  unfolding active_members_def by (rule order_trans [OF length_filter_le]) simp

lemma active_switches_bound: "length (active_switches m) \<le> ESWITCH_MAX_VSWITCHES"
  unfolding active_switches_def length_map by (rule order_trans [OF length_filter_le]) simp

lemma switch_known_active: "switch_known m vs \<longleftrightarrow> vs \<in> fst ` set (active_switches m)"
  by (auto simp: switch_known_def active_switches_def image_iff) force

lemma switch_id_nonzero: "l2_wf m \<Longrightarrow> s \<in> set (active_switches m) \<Longrightarrow> fst s \<noteq> 0"
  by (auto simp: active_switches_def l2_wf_def)

lemma file_state_wf:
  assumes wf: "l2_wf m" and names: "names_ok m" and ports: "ports_identified (mg_ports m)"
  shows "state_wf (file_state m)"
  unfolding state_wf_def
proof (intro conjI)
  show "\<forall>s\<in>set (es_switches (file_state m)). fst s \<noteq> 0 \<and> (snd s = [] \<or> eswitch_vs_name_valid (snd s))"
    using names switch_id_nonzero [OF wf] by (simp add: file_state_def names_ok_def)
  show "\<forall>x\<in>set (es_members (file_state m)). sm_vswitch_id x \<in> fst ` set (es_switches (file_state m)) \<and> \<not> sm_invalid x"
    using wf by (auto simp: file_state_def switch_known_active [symmetric] active_members_set l2_wf_def member_ok_def)
  show "sum_list (map sm_rules (es_members (file_state m))) \<le> ESWITCH_MAX_VLAN_MEMBERSHIPS"
    using wf by (simp add: file_state_def l2_wf_def total_rules_def comp_def)
qed (use switches_distinct [OF wf] members_sorted [OF wf ports] active_members_bound active_switches_bound
    in \<open>simp_all add: file_state_def\<close>)

lemma manager_to_state_ok:
  assumes wf: "l2_wf m" and ports: "ports_identified (mg_ports m)"
  shows "manager_to_state True m = (DOCA_SUCCESS, file_state m)"
proof -
  let ?z = "state_zero\<lparr>es_member_capacity := ESWITCH_MAX_PERSISTED_MEMBERS\<rparr>"
  have i: "eswitch_state_init ESWITCH_MAX_PERSISTED_MEMBERS True state_zero = (DOCA_SUCCESS, ?z)"
    by (simp add: eswitch_state_init_def ESWITCH_MAX_PERSISTED_MEMBERS_def es_consts state_zero_def)
  have s: "add_switches ?z (map (mg_switches m) [0..<ESWITCH_MAX_VSWITCHES]) =
      (DOCA_SUCCESS, ?z\<lparr>es_switches := active_switches m\<rparr>)"
    using switches_distinct [OF wf] switch_id_nonzero [OF wf] active_switches_bound [of m] wf
    by (subst add_switches_ok) (auto simp: state_zero_def active_switches_def comp_def l2_wf_def)
  have "add_members m (?z\<lparr>es_switches := active_switches m\<rparr>) (map (mg_memberships m) [0..<ESWITCH_MAX_PERSISTED_MEMBERS]) =
      (DOCA_SUCCESS, file_state m)"
  proof (subst add_members_ok)
    show "\<forall>p\<in>set (map (mg_memberships m) [0..<ESWITCH_MAX_PERSISTED_MEMBERS]). pm_active p \<longrightarrow>
        pm_vswitch_id p \<noteq> 0 \<and> state_switch_exists (?z\<lparr>es_switches := active_switches m\<rparr>) (pm_vswitch_id p) \<and>
        \<not> pm_invalid p"
      using wf switch_id_nonzero [OF wf]
      by (fastforce simp: switch_exists_iff switch_known_active l2_wf_def member_ok_def)
    show "sorted_wrt (\<lambda>a b. \<not> sm_conflict a b) (es_members (?z\<lparr>es_switches := active_switches m\<rparr>) @
        map (state_member m) (filter pm_active (map (mg_memberships m) [0..<ESWITCH_MAX_PERSISTED_MEMBERS])))"
      using members_sorted [OF wf ports] by (simp add: state_zero_def active_members_def)
    show "sum_list (map sm_rules (es_members (?z\<lparr>es_switches := active_switches m\<rparr>))) +
        sum_list (map pm_rules (filter pm_active (map (mg_memberships m) [0..<ESWITCH_MAX_PERSISTED_MEMBERS])))
        \<le> ESWITCH_MAX_VLAN_MEMBERSHIPS"
      using wf by (simp add: state_zero_def l2_wf_def total_rules_def active_members_def)
    show "length (es_members (?z\<lparr>es_switches := active_switches m\<rparr>)) +
        length (filter pm_active (map (mg_memberships m) [0..<ESWITCH_MAX_PERSISTED_MEMBERS]))
        \<le> es_member_capacity (?z\<lparr>es_switches := active_switches m\<rparr>)"
      using active_members_bound [of m] by (simp add: state_zero_def active_members_def)
  qed (simp add: file_state_def state_zero_def active_members_def)
  with i s show ?thesis unfolding manager_to_state_def by simp
qed

section \<open>File to tables\<close>

lemma find_index_unique:
  assumes "i < length xs" "P (xs ! i)" "\<And>j. j < length xs \<Longrightarrow> P (xs ! j) \<Longrightarrow> j = i"
  shows "find_index P xs = Some i"
proof (cases "find_index P xs")
  case None
  with assms(1,2) show ?thesis by (simp add: find_index_None)
next
  case (Some j)
  with find_index_Some [OF Some] assms(3) show ?thesis by simp
qed

lemma set_vswitch_name_wf:
  assumes wf: "l2_wf m"
  shows "l2_wf (set_vswitch_name m vs name)"
proof (cases "find_vswitch m vs")
  case None
  with wf show ?thesis by (simp add: set_vswitch_name_def)
next
  case (Some k)
  let ?m = "m\<lparr>mg_switches := (mg_switches m)(k := (mg_switches m k)\<lparr>mv_name := name\<rparr>)\<rparr>"
  have f: "mv_exists (mg_switches ?m i) = mv_exists (mg_switches m i)" "mv_id (mg_switches ?m i) = mv_id (mg_switches m i)" for i
    by simp_all
  have k: "switch_known ?m = switch_known m" unfolding switch_known_def f ..
  have ok: "member_ok ?m = member_ok m" unfolding member_ok_def [abs_def] k by simp
  have "keys_distinct mv_exists mv_id ESWITCH_MAX_VSWITCHES (mg_switches ?m)"
    using wf unfolding l2_wf_def keys_distinct_def f by blast
  moreover have "\<forall>k<ESWITCH_MAX_VSWITCHES. mv_exists (mg_switches ?m k) \<longrightarrow> mv_id (mg_switches ?m k) \<noteq> 0"
    using wf unfolding l2_wf_def f by blast
  moreover have "owners_exact ?m = owners_exact m" "total_rules ?m = total_rules m"
    by (simp_all add: owners_exact_def total_rules_def active_members_def)
  ultimately have "l2_wf ?m" using wf unfolding l2_wf_def ok by simp
  then show ?thesis by (simp add: set_vswitch_name_def Some)
qed

lemma find_vswitch_unique:
  assumes "k < ESWITCH_MAX_VSWITCHES" "mv_exists (mg_switches m k)" "mv_id (mg_switches m k) = vs"
    "keys_distinct mv_exists mv_id ESWITCH_MAX_VSWITCHES (mg_switches m)"
  shows "find_vswitch m vs = Some k"
  unfolding find_vswitch_def
  by (rule first_slot_unique) (use assms in \<open>auto simp: keys_distinct_def\<close>)

lemma create_compact:
  assumes c: "compact mv_exists ESWITCH_MAX_VSWITCHES (mg_switches m) k" and k: "k < ESWITCH_MAX_VSWITCHES"
    and vs: "vs \<noteq> 0" "vs \<notin> fst ` set (active_switches m)"
  shows "create_vswitch m vs = (DOCA_SUCCESS,
    m\<lparr>mg_switches := (mg_switches m)(k := \<lparr>mv_exists = True, mv_id = vs, mv_name = []\<rparr>)\<rparr>)"
  using vs compact_first [OF c] k by (simp add: create_vswitch_def find_vswitch_None switch_known_active)

lemma restore_switch:
  assumes wf: "l2_wf m" and c: "compact mv_exists ESWITCH_MAX_VSWITCHES (mg_switches m) k"
    and k: "k < ESWITCH_MAX_VSWITCHES" and vs: "vs \<noteq> 0" "vs \<notin> fst ` set (active_switches m)"
    and m1: "create_vswitch m vs = (r, m1)"
  shows "r = DOCA_SUCCESS \<and> (let m2 = set_vswitch_name m1 vs name in
    (\<exists>f. m2 = m\<lparr>mg_switches := f\<rparr>) \<and> l2_wf m2 \<and> active_switches m2 = active_switches m @ [(vs, name)] \<and>
    compact mv_exists ESWITCH_MAX_VSWITCHES (mg_switches m2) (Suc k))"
proof -
  note cr = create_compact [OF c k vs]
  with m1 have r: "r = DOCA_SUCCESS" and
    m1': "m1 = m\<lparr>mg_switches := (mg_switches m)(k := \<lparr>mv_exists = True, mv_id = vs, mv_name = []\<rparr>)\<rparr>" by simp_all
  have wf1: "l2_wf m1" by (rule create_wf [OF wf m1])
  then have "find_vswitch m1 vs = Some k"
    using k by (intro find_vswitch_unique) (simp_all add: m1' l2_wf_def)
  then have m2: "set_vswitch_name m1 vs name =
      m\<lparr>mg_switches := (mg_switches m)(k := \<lparr>mv_exists = True, mv_id = vs, mv_name = name\<rparr>)\<rparr>"
    by (simp add: set_vswitch_name_def m1')
  let ?x = "\<lparr>mv_exists = True, mv_id = vs, mv_name = name\<rparr>"
  have "active_switches (set_vswitch_name m1 vs name) = active_switches m @ [(vs, name)]"
    unfolding m2 active_switches_def using compact_filter_store [OF c k, of ?x] by simp
  moreover have "compact mv_exists ESWITCH_MAX_VSWITCHES (mg_switches (set_vswitch_name m1 vs name)) (Suc k)"
    unfolding m2 using compact_store [OF c, of ?x] by simp
  moreover have "l2_wf (set_vswitch_name m1 vs name)" by (rule set_vswitch_name_wf [OF wf1])
  moreover have "\<exists>f. set_vswitch_name m1 vs name = m\<lparr>mg_switches := f\<rparr>" using m2 by blast
  ultimately show ?thesis using r by (simp add: Let_def)
qed

lemma restore_switches_ok:
  assumes "l2_wf m" "compact mv_exists ESWITCH_MAX_VSWITCHES (mg_switches m) k"
    "k + length sws \<le> ESWITCH_MAX_VSWITCHES" "distinct (map fst (active_switches m @ sws))"
    "\<forall>s\<in>set sws. fst s \<noteq> 0"
  shows "\<exists>m'. restore_switches m sws = (DOCA_SUCCESS, m') \<and> (\<exists>f. m' = m\<lparr>mg_switches := f\<rparr>) \<and> l2_wf m' \<and>
    active_switches m' = active_switches m @ sws"
  using assms
proof (induction sws arbitrary: m k)
  case Nil
  have "\<exists>f. m = m\<lparr>mg_switches := f\<rparr>" by (rule exI [of _ "mg_switches m"]) simp
  with Nil show ?case by simp
next
  case (Cons s sws)
  obtain vs name where s: "s = (vs, name)" by force
  obtain r m1 where m1: "create_vswitch m vs = (r, m1)" by force
  define m2 where "m2 = set_vswitch_name m1 vs name"
  have "vs \<noteq> 0" "vs \<notin> fst ` set (active_switches m)" "k < ESWITCH_MAX_VSWITCHES"
    using Cons.prems(3-5) s by auto
  note st = restore_switch [OF Cons.prems(1,2) this(3,1,2) m1, of name, unfolded Let_def, folded m2_def]
  from st obtain f where f: "m2 = m\<lparr>mg_switches := f\<rparr>" by blast
  from st have st2: "r = DOCA_SUCCESS" "l2_wf m2" "active_switches m2 = active_switches m @ [(vs, name)]"
    "compact mv_exists ESWITCH_MAX_VSWITCHES (mg_switches m2) (Suc k)" by blast+
  have "distinct (map fst (active_switches m2 @ sws))" "Suc k + length sws \<le> ESWITCH_MAX_VSWITCHES"
      "\<forall>s\<in>set sws. fst s \<noteq> 0"
    unfolding st2(3) using Cons.prems(3-5) s by simp_all
  from Cons.IH [OF st2(2,4) this(2,1,3)]
  obtain m' g where m': "restore_switches m2 sws = (DOCA_SUCCESS, m')" "m' = m2\<lparr>mg_switches := g\<rparr>"
    "l2_wf m'" "active_switches m' = active_switches m2 @ sws" by blast
  have "m' = m\<lparr>mg_switches := g\<rparr>" using m'(2) unfolding f by simp
  moreover have "restore_switches m (s # sws) = (DOCA_SUCCESS, m')"
    unfolding s restore_switches.simps m1 prod.case Let_def m2_def [symmetric] using m'(1) st2(1) by simp
  moreover have "active_switches m' = active_switches m @ s # sws" unfolding m'(4) st2(3) s by simp
  ultimately show ?case using m'(3) by blast
qed

text \<open>Hardware that takes every port.\<close>

definition attaching :: "'s manager_env \<Rightarrow> bool" where
  "attaching env \<longleftrightarrow> (\<forall>i vs mode v l ev el s. fst (me_attach env i vs mode v l ev el s) = DOCA_SUCCESS) \<and>
     (\<forall>vs port s. fst (me_flood_add env vs port s) = DOCA_SUCCESS)"

lemma state_port_found:
  assumes ports: "ports_identified (mg_ports m)" "mg_ports m' = mg_ports m" and ok: "member_ok m p"
  shows "find_state_member_port m' (state_member m p) = Some (pm_port_index p)"
proof -
  let ?i = "pm_port_index p"
  let ?P = "\<lambda>port. (sm_kind (state_member m p) = ESWITCH_STATE_PORT_PARENT \<and> eth_role port = ETHERNET_PORT_ROLE_PARENT) \<or>
       (sm_kind (state_member m p) = ESWITCH_STATE_PORT_REPRESENTOR \<and> eth_role port = ETHERNET_PORT_ROLE_REPRESENTOR \<and>
        eth_host_index port = sm_host_index (state_member m p) \<and> eth_pf_index port = sm_pf_index (state_member m p) \<and>
        eth_vf_index port = sm_vf_index (state_member m p))"
  have i: "?i < length (mg_ports m)" "eth_role (mg_ports m ! ?i) \<noteq> ETHERNET_PORT_ROLE_SF_REPRESENTOR"
    using ok by (simp_all add: member_ok_def)
  have P: "?P (mg_ports m ! ?i)"
    using i(2) by (cases "eth_role (mg_ports m ! ?i)") (simp_all add: state_member_port)
  have uniq: "j = ?i" if j: "j < length (mg_ports m)" "?P (mg_ports m ! j)" for j
  proof -
    have "eth_role (mg_ports m ! j) = eth_role (mg_ports m ! ?i)"
      using j(2) i(2) by (cases "eth_role (mg_ports m ! ?i)") (auto simp: state_member_port)
    moreover have "eth_role (mg_ports m ! j) = ETHERNET_PORT_ROLE_PARENT \<or>
        port_identity (mg_ports m ! j) = port_identity (mg_ports m ! ?i)"
      using j(2) calculation by (auto simp: state_member_port port_identity_def)
    ultimately show ?thesis using ports(1) j(1) i unfolding ports_identified_def by metis
  qed
  have "find_index ?P (mg_ports m) = Some ?i" by (rule find_index_unique [where P = ?P, OF i(1) P uniq])
  then show ?thesis by (simp add: find_state_member_port_def ports(2))
qed


text \<open>One member attached again, to the end of a table filled from the front.\<close>

lemma reattach_check:
  assumes wf: "l2_wf m" and c: "compact pm_active ESWITCH_MAX_PERSISTED_MEMBERS (mg_memberships m) k"
    and k: "k < ESWITCH_MAX_PERSISTED_MEMBERS" and router: "mg_router m = None"
    and p: "member_ok m p" "pm_active p"
    and clash: "\<forall>a\<in>set (active_members m). \<not> pm_conflict a p"
    and room: "pm_rules p + total_rules m \<le> ESWITCH_MAX_VLAN_MEMBERSHIPS"
  shows "requested_member (pm_vswitch_id p) (pm_port_index p) (pm_port_id p) (pm_mode p) (pm_vlan_id p)
      (pm_vlan_last p) (pm_vlan_extra_id p) (pm_vlan_extra_last p) = p"
    and "attach_check m (pm_vswitch_id p) (pm_port_id p) (pm_mode p) (pm_vlan_id p) (pm_vlan_last p)
      (pm_vlan_extra_id p) (pm_vlan_extra_last p) = Inr (pm_port_index p, k)"
proof -
  show req: "requested_member (pm_vswitch_id p) (pm_port_index p) (pm_port_id p) (pm_mode p) (pm_vlan_id p)
      (pm_vlan_last p) (pm_vlan_extra_id p) (pm_vlan_extra_last p) = p"
    using p(2) by (simp add: requested_member_def)
  have "find_port_index m (pm_port_id p) \<noteq> None"
    using p(1) by (auto simp: find_port_index_def find_index_None member_ok_def)
  then have i: "find_port_index m (pm_port_id p) = Some (pm_port_index p)"
    using port_index_unique [OF wf] p(1) by (auto simp: member_ok_def)
  have v: "find_vswitch m (pm_vswitch_id p) \<noteq> None"
    using p(1) by (simp add: find_vswitch_None member_ok_def)
  have slots: "slots_counted pm_active ESWITCH_MAX_PERSISTED_MEMBERS (mg_memberships m) (mg_membership_count m)"
    using wf by (simp add: l2_wf_def)
  have "{i. i < ESWITCH_MAX_PERSISTED_MEMBERS \<and> pm_active (mg_memberships m i)} = {..<k}"
    using c k by (auto simp: compact_def)
  then have n: "mg_membership_count m = k" using slots by (simp add: slots_counted_def)
  have f: "first_slot (\<lambda>a. \<not> pm_active a) ESWITCH_MAX_PERSISTED_MEMBERS (mg_memberships m) = Some k"
    using compact_first [OF c] k by simp
  have "\<not> list_ex (\<lambda>a. pm_conflict a p) (active_members m)" using clash by (auto simp: list_ex_iff)
  moreover have "\<not> router_control_port_reserved m (pm_port_index p)"
    by (simp add: router_control_port_reserved_def router)
  moreover have "\<not> ESWITCH_MAX_VLAN_MEMBERSHIPS \<le> k"
    using k by (simp add: ESWITCH_MAX_PERSISTED_MEMBERS_def)
  ultimately show "attach_check m (pm_vswitch_id p) (pm_port_id p) (pm_mode p) (pm_vlan_id p) (pm_vlan_last p)
      (pm_vlan_extra_id p) (pm_vlan_extra_last p) = Inr (pm_port_index p, k)"
    unfolding attach_check_def i option.case Let_def req f n router
    using v p(1) room by (simp add: member_ok_def total_rules_def)
qed

lemma attaches:
  assumes "attaching env" "attach_check m vs port mode v l ev el = Inr (i, j)"
  shows "\<exists>s'. attach_port env m vs port mode v l ev el s =
    (DOCA_SUCCESS, store_member i vs j (stored_member (requested_member vs i port mode v l ev el)) m, s')"
proof -
  obtain r1 s1 where a: "me_attach env i vs mode v l ev el s = (r1, s1)" by force
  obtain r2 s2 where f: "me_flood_add env vs port s1 = (r2, s2)" by force
  have "r1 = DOCA_SUCCESS" "r2 = DOCA_SUCCESS" using assms(1) a f unfolding attaching_def by (metis fst_conv)+
  with a f assms(2) show ?thesis by (simp add: attach_port_def Let_def)
qed

lemma restore_members_ok:
  assumes env: "attaching env" and ports: "ports_identified (mg_ports m0)"
  shows "\<lbrakk>l2_wf m; compact pm_active ESWITCH_MAX_PERSISTED_MEMBERS (mg_memberships m) k;
    k + length ps \<le> ESWITCH_MAX_PERSISTED_MEMBERS; mg_router m = None; mg_ports m = mg_ports m0;
    mg_switches m = sw \<and> member_ok m = member_ok m0;
    \<forall>p\<in>set ps. member_ok m0 p \<and> pm_active p \<and> stored_member p = p;
    sorted_wrt (\<lambda>a b. \<not> pm_conflict a b) (active_members m @ ps);
    sum_list (map pm_rules ps) + total_rules m \<le> ESWITCH_MAX_VLAN_MEMBERSHIPS\<rbrakk> \<Longrightarrow>
    \<exists>m' s'. restore_members env m (map (state_member m0) ps) s = (DOCA_SUCCESS, m', s') \<and> l2_wf m' \<and>
      mg_switches m' = sw \<and> mg_ports m' = mg_ports m0 \<and> active_members m' = active_members m @ ps"
proof (induction ps arbitrary: m k s)
  case Nil
  then show ?case by simp
next
  case (Cons p ps)
  have p: "member_ok m p" "pm_active p" "stored_member p = p" and k: "k < ESWITCH_MAX_PERSISTED_MEMBERS"
    and clash: "\<forall>a\<in>set (active_members m). \<not> pm_conflict a p"
    and room: "pm_rules p + total_rules m \<le> ESWITCH_MAX_VLAN_MEMBERSHIPS"
    using Cons.prems(3,6,7,8,9) by (simp_all add: sorted_wrt_append)
  note ck = reattach_check [OF Cons.prems(1,2) k Cons.prems(4) p(1,2) clash room]
  let ?m = "store_member (pm_port_index p) (pm_vswitch_id p) k p m"
  obtain s1 where at: "attach_port env m (pm_vswitch_id p) (pm_port_id p) (pm_mode p) (pm_vlan_id p)
      (pm_vlan_last p) (pm_vlan_extra_id p) (pm_vlan_extra_last p) s = (DOCA_SUCCESS, ?m, s1)"
    using attaches [OF env ck(2), of s] unfolding ck(1) p(3) by blast
  have M: "mg_memberships ?m = (mg_memberships m)(k := p)" "mg_ports ?m = mg_ports m" "mg_switches ?m = mg_switches m"
      "mg_router ?m = mg_router m" by (simp_all add: store_member_def)
  have wf: "l2_wf ?m" by (rule attach_port_wf [OF Cons.prems(1) at])
  have act: "active_members ?m = active_members m @ [p]"
    unfolding active_members_def M using compact_filter_store [OF Cons.prems(2) k p(2)] .
  have ok: "member_ok ?m = member_ok m" by (rule ext) (simp add: member_ok_def switch_known_def M)
  have c: "compact pm_active ESWITCH_MAX_PERSISTED_MEMBERS (mg_memberships ?m) (Suc k)"
    unfolding M by (rule compact_store [OF Cons.prems(2) p(2)])
  have tot: "total_rules ?m = total_rules m + pm_rules p" by (simp add: total_rules_def act)
  have pre: "Suc k + length ps \<le> ESWITCH_MAX_PERSISTED_MEMBERS" "mg_router ?m = None" "mg_ports ?m = mg_ports m0"
    "mg_switches ?m = sw \<and> member_ok ?m = member_ok m0"
    "\<forall>p\<in>set ps. member_ok m0 p \<and> pm_active p \<and> stored_member p = p"
    "sorted_wrt (\<lambda>a b. \<not> pm_conflict a b) (active_members ?m @ ps)"
    "sum_list (map pm_rules ps) + total_rules ?m \<le> ESWITCH_MAX_VLAN_MEMBERSHIPS"
    using Cons.prems(3-9) unfolding M ok act tot by simp_all
  from Cons.IH [OF wf c pre, of s1]
  obtain m' s' where m': "restore_members env ?m (map (state_member m0) ps) s1 = (DOCA_SUCCESS, m', s')" "l2_wf m'"
      "mg_switches m' = sw" "mg_ports m' = mg_ports m0" "active_members m' = active_members ?m @ ps" by blast
  have found: "find_state_member_port m (state_member m0 p) = Some (pm_port_index p)"
    using Cons.prems(7) by (intro state_port_found [OF ports Cons.prems(5)]) simp
  have pid: "port_id_at m (pm_port_index p) = pm_port_id p" using p(1) by (simp add: port_id_at_def member_ok_def)
  have "restore_members env m (map (state_member m0) (p # ps)) s = (DOCA_SUCCESS, m', s')"
    using m'(1) by (simp add: found pid at)
  then show ?case using m' act by simp
qed

text \<open>A manager as it stands when the configuration is restored: empty tables, no router yet.\<close>

definition tables_empty :: "eswitch_manager \<Rightarrow> bool" where
  "tables_empty m \<longleftrightarrow> mg_switches m = (\<lambda>_. vswitch_zero) \<and> mg_memberships m = (\<lambda>_. membership_zero) \<and>
     mg_router m = None"

lemma restored:
  assumes wf: "l2_wf m" and ports: "ports_identified (mg_ports m)" and env: "attaching env"
    and fresh: "l2_wf m0" "tables_empty m0" "mg_ports m0 = mg_ports m"
  shows "\<exists>m1 m2 s'. restore_switches m0 (active_switches m) = (DOCA_SUCCESS, m1) \<and>
    restore_members env m1 (map (state_member m) (active_members m)) s = (DOCA_SUCCESS, m2, s') \<and>
    l2_wf m2 \<and> active_switches m2 = active_switches m \<and> active_members m2 = active_members m"
proof -
  have e: "compact mv_exists ESWITCH_MAX_VSWITCHES (mg_switches m0) 0" "active_switches m0 = []"
      "compact pm_active ESWITCH_MAX_PERSISTED_MEMBERS (mg_memberships m0) 0" "active_members m0 = []"
    using fresh(2) by (simp_all add: tables_empty_def compact_def active_switches_def active_members_def
        vswitch_zero_def membership_zero_def)
  obtain m1 f where m1: "restore_switches m0 (active_switches m) = (DOCA_SUCCESS, m1)" "m1 = m0\<lparr>mg_switches := f\<rparr>"
      "l2_wf m1" "active_switches m1 = active_switches m"
    using restore_switches_ok [OF fresh(1) e(1), of "active_switches m"] active_switches_bound
      switches_distinct [OF wf] switch_id_nonzero [OF wf] e(2) by auto
  have "switch_known m1 = switch_known m" by (rule ext) (simp add: switch_known_active m1(4))
  then have ok: "member_ok m1 = member_ok m"
    by (intro ext) (simp add: member_ok_def m1(2) fresh(3))
  have act1: "active_members m1 = []" using e(4) by (simp add: m1(2) active_members_def)
  have members: "\<forall>p\<in>set (active_members m). member_ok m p \<and> pm_active p \<and> stored_member p = p"
    using wf by (auto simp: active_members_set l2_wf_def)
  have sorted: "sorted_wrt (\<lambda>a b. \<not> pm_conflict a b) (active_members m)"
  proof -
    let ?js = "filter (\<lambda>i. pm_active (mg_memberships m i)) [0..<ESWITCH_MAX_PERSISTED_MEMBERS]"
    have "sorted_wrt (\<lambda>i j. i < j) ?js" by (intro sorted_wrt_filter) (simp add: sorted_wrt_upt)
    moreover have "\<not> pm_conflict (mg_memberships m i) (mg_memberships m j)"
      if "i < j" "i \<in> set ?js" "j \<in> set ?js" for i j
      using wf that by (simp add: l2_wf_def)
    ultimately have "sorted_wrt (\<lambda>i j. \<not> pm_conflict (mg_memberships m i) (mg_memberships m j)) ?js"
      by (rule_tac sorted_wrt_mono_rel) auto
    then show ?thesis unfolding active_members_def filter_map_upt by (simp add: sorted_wrt_map)
  qed
  have c1: "compact pm_active ESWITCH_MAX_PERSISTED_MEMBERS (mg_memberships m1) 0" using e(3) by (simp add: m1(2))
  have "\<exists>m2 s'. restore_members env m1 (map (state_member m) (active_members m)) s = (DOCA_SUCCESS, m2, s') \<and>
      l2_wf m2 \<and> mg_switches m2 = mg_switches m1 \<and> mg_ports m2 = mg_ports m \<and>
      active_members m2 = active_members m1 @ active_members m"
    using active_members_bound [of m] fresh(2,3) members sorted wf ok act1
    by (intro restore_members_ok [OF env ports m1(3) c1])
      (simp_all add: m1(2) tables_empty_def l2_wf_def total_rules_def)
  then obtain m2 s' where m2: "restore_members env m1 (map (state_member m) (active_members m)) s = (DOCA_SUCCESS, m2, s')"
      "l2_wf m2" "mg_switches m2 = mg_switches m1" "active_members m2 = active_members m" using act1 by auto
  then have "active_switches m2 = active_switches m" using m1(4) by (simp add: active_switches_def)
  with m1(1) m2 show ?thesis by blast
qed

section \<open>Properties\<close>

lemma prepared_fresh:
  assumes "manager_prepare env ports path s = (DOCA_SUCCESS, m, s')"
  shows "tables_empty m \<and> mg_ports m = ports \<and> mg_state_path m = path"
  using assms
  by (auto simp: manager_prepare_def Let_def tables_empty_def manager_zero_def split: if_splits prod.splits)

lemma persist_outcome:
  assumes wf: "l2_wf m" and names: "names_ok m" and ports: "ports_identified (mg_ports m)"
    and save: "persist_manager env m fs s = (r, fs', s')"
    and lio: "lio_open lio \<and> lio_read_error lio = None \<and> lio_close lio"
  shows "if r = DOCA_SUCCESS
    then eswitch_state_load lio fs' (mg_state_path m) (state_zero\<lparr>es_member_capacity := ESWITCH_MAX_PERSISTED_MEMBERS\<rparr>) =
      (DOCA_SUCCESS, True, file_state m)
    else fs' (mg_state_path m) = fs (mg_state_path m)"
proof -
  obtain ok s1 where a: "me_malloc env s = (ok, s1)" by force
  show ?thesis
  proof (cases ok)
    case False
    then have "manager_to_state ok m = (DOCA_ERROR_NO_MEMORY, state_zero)"
      by (simp add: manager_to_state_def eswitch_state_init_def ESWITCH_MAX_PERSISTED_MEMBERS_def es_consts)
    with save a show ?thesis by (simp add: persist_manager_def)
  next
    case True
    obtain io s2 where i: "me_save_io env s1 = (io, s2)" by force
    have "eswitch_state_save io (mg_state_path m) (file_state m) fs = (r, fs')"
      using save a True i manager_to_state_ok [OF wf ports] by (simp add: persist_manager_def split: prod.splits)
    moreover have "list_all member_normal (es_members (file_state m))"
      by (simp add: file_state_def list_all_iff)
    moreover have "es_member_capacity (file_state m) = ESWITCH_MAX_PERSISTED_MEMBERS" by (simp add: file_state_def)
    ultimately show ?thesis
      using saved_then_loaded [OF file_state_wf [OF wf names ports] _ _ lio] by metis
  qed
qed

text \<open>C38: The switch configuration survives a restart: writing it never fails for what it contains, a failed
  write leaves the file as it was, and after a successful one a new manager on the same ports
  whose hardware accepts them comes up, from the file alone, with the same switches and names
  and the same members, VLANs and modes, in the same order.\<close>

theorem configuration_survives_restart:
  assumes "l2_wf m" "names_ok m" "ports_identified (mg_ports m)"
    and "persist_manager env m fs s = (r, fs', s')"
    and "lio_open lio \<and> lio_read_error lio = None \<and> lio_close lio"
    and "manager_prepare env' (mg_ports m) (mg_state_path m) t = (DOCA_SUCCESS, m0, t')"
    and "attaching env'" "fst (me_malloc env' t')"
  shows "fst (manager_to_state True m) = DOCA_SUCCESS \<and>
    (if r = DOCA_SUCCESS
     then \<exists>m' t''. restore_manager env' lio m0 fs' t' = (DOCA_SUCCESS, m', fs', t'') \<and> l2_wf m' \<and>
       active_switches m' = active_switches m \<and> active_members m' = active_members m
     else fs' (mg_state_path m) = fs (mg_state_path m))"
proof (cases "r = DOCA_SUCCESS")
  case False
  with persist_outcome [OF assms(1-5)] manager_to_state_ok [OF assms(1,3)] show ?thesis by simp
next
  case True
  note fresh = prepared_fresh [OF assms(6)]
  obtain t1 where t1: "me_malloc env' t' = (True, t1)" using assms(8) by (metis prod.collapse)
  let ?z = "state_zero\<lparr>es_member_capacity := ESWITCH_MAX_PERSISTED_MEMBERS\<rparr>"
  have load: "eswitch_state_load lio fs' (mg_state_path m0) ?z = (DOCA_SUCCESS, True, file_state m)"
    using persist_outcome [OF assms(1-5)] True fresh by simp
  have i: "eswitch_state_init ESWITCH_MAX_PERSISTED_MEMBERS True state_zero = (DOCA_SUCCESS, ?z)"
    by (simp add: eswitch_state_init_def ESWITCH_MAX_PERSISTED_MEMBERS_def es_consts state_zero_def)
  have wf0: "l2_wf m0" by (rule prepared_wf [OF _ assms(6)]) (use assms(1) in \<open>simp add: l2_wf_def\<close>)
  obtain m1 m2 t2 where r: "restore_switches m0 (active_switches m) = (DOCA_SUCCESS, m1)"
      "restore_members env' m1 (map (state_member m) (active_members m)) t1 = (DOCA_SUCCESS, m2, t2)"
      "l2_wf m2" "active_switches m2 = active_switches m" "active_members m2 = active_members m"
    using restored [OF assms(1,3,7) wf0] fresh by blast
  then have "restore_manager env' lio m0 fs' t' = (DOCA_SUCCESS, m2, fs', t2)"
    using load by (simp add: restore_manager_def t1 i file_state_def)
  with True r manager_to_state_ok [OF assms(1,3)] show ?thesis by simp
qed

text \<open>A manager with one switch and one access member.\<close>

definition sample_port_member :: eswitch_port_membership where
  "sample_port_member = requested_member 100 1 3 ESWITCH_PORT_MODE_ACCESS 0 0 0 0"

definition sample_switched :: eswitch_manager where
  "sample_switched = set_vswitch_name (snd (create_vswitch sample_manager 100)) 100 ''lan''"

definition sample_configured :: eswitch_manager where
  "sample_configured = store_member 1 100 0 sample_port_member sample_switched"

lemma sample_manager_wf: "l2_wf sample_manager" "tables_empty sample_manager" "mg_ports sample_manager = sample_ports"
  "mg_state_path sample_manager = ''/c''"
  using prepared_wf [OF _ sample_manager_ready] prepared_fresh [OF sample_manager_ready]
  by (simp_all add: sample_ports_def)

lemma sample_switched_ok:
  "l2_wf sample_switched" "active_switches sample_switched = [(100, ''lan'')]"
  "mg_ports sample_switched = sample_ports" "mg_router sample_switched = None"
  "mg_memberships sample_switched = (\<lambda>_. membership_zero)" "mg_state_path sample_switched = ''/c''"
proof -
  have e: "compact mv_exists ESWITCH_MAX_VSWITCHES (mg_switches sample_manager) 0" "active_switches sample_manager = []"
    using sample_manager_wf(2) by (simp_all add: tables_empty_def compact_def active_switches_def vswitch_zero_def)
  obtain r m1 where m1: "create_vswitch sample_manager 100 = (r, m1)" by force
  have st: "sample_switched = set_vswitch_name m1 100 ''lan''" by (simp add: sample_switched_def m1)
  note r = restore_switch [OF sample_manager_wf(1) e(1) _ _ _ m1, of "''lan''", folded st, unfolded Let_def]
  have "0 < ESWITCH_MAX_VSWITCHES" by (simp add: es_consts)
  with r e(2) have x: "\<exists>f. sample_switched = sample_manager\<lparr>mg_switches := f\<rparr>" "l2_wf sample_switched"
      "active_switches sample_switched = [(100, ''lan'')]" by simp_all
  from x(2,3) show "l2_wf sample_switched" "active_switches sample_switched = [(100, ''lan'')]" by simp_all
  from x(1) obtain f where f: "sample_switched = sample_manager\<lparr>mg_switches := f\<rparr>" by blast
  show "mg_ports sample_switched = sample_ports" "mg_router sample_switched = None"
      "mg_memberships sample_switched = (\<lambda>_. membership_zero)" "mg_state_path sample_switched = ''/c''"
    using sample_manager_wf by (simp_all add: f tables_empty_def)
qed

lemma sample_configured_ok:
  "l2_wf sample_configured" "active_switches sample_configured = [(100, ''lan'')]"
  "mg_ports sample_configured = sample_ports" "active_members sample_configured = [sample_port_member]"
  "mg_state_path sample_configured = ''/c''"
proof -
  have c: "compact pm_active ESWITCH_MAX_PERSISTED_MEMBERS (mg_memberships sample_switched) 0"
    by (simp add: sample_switched_ok compact_def membership_zero_def)
  have a: "active_members sample_switched = []"
    by (simp add: active_members_def sample_switched_ok membership_zero_def)
  have k: "0 < ESWITCH_MAX_PERSISTED_MEMBERS" by (simp add: ESWITCH_MAX_PERSISTED_MEMBERS_def es_consts)
  have f: "pm_active sample_port_member" "pm_vswitch_id sample_port_member = 100" "pm_port_id sample_port_member = 3"
      "pm_port_index sample_port_member = 1" "stored_member sample_port_member = sample_port_member"
      "pm_rules sample_port_member \<le> 1" "\<not> pm_invalid sample_port_member"
    by (simp_all add: sample_port_member_def requested_member_def stored_member_def pm_rules_def pm_invalid_def
        vlan_rule_count_def member_vlans_invalid_def eswitch_vlan_range_last_def eswitch_vlan_extra_present_def)
  have ok: "member_ok sample_switched sample_port_member"
    by (simp add: member_ok_def switch_known_active sample_switched_ok f sample_ports_def)
  have t: "total_rules sample_switched = 0" by (simp add: total_rules_def a)
  have room: "pm_rules sample_port_member + total_rules sample_switched \<le> ESWITCH_MAX_VLAN_MEMBERSHIPS"
    using f(6) t by (simp add: es_consts)
  note ck = reattach_check [OF sample_switched_ok(1) c k sample_switched_ok(4) ok f(1) _ room]
  have "attaching willing_env" by (simp add: attaching_def willing_env_def)
  from attaches [OF this ck(2), of 0] ck(1) obtain s' where
    "attach_port willing_env sample_switched (pm_vswitch_id sample_port_member) (pm_port_id sample_port_member)
       (pm_mode sample_port_member) (pm_vlan_id sample_port_member) (pm_vlan_last sample_port_member)
       (pm_vlan_extra_id sample_port_member) (pm_vlan_extra_last sample_port_member) 0 = (DOCA_SUCCESS, sample_configured, s')"
    by (auto simp: a f sample_configured_def)
  from attach_port_wf [OF sample_switched_ok(1) this] show "l2_wf sample_configured" .
  have M: "mg_memberships sample_configured = (mg_memberships sample_switched)(0 := sample_port_member)"
    by (simp add: sample_configured_def store_member_def)
  show "active_members sample_configured = [sample_port_member]"
    unfolding active_members_def M using compact_filter_store [OF c k f(1)] a by (simp add: active_members_def)
  show "active_switches sample_configured = [(100, ''lan'')]" "mg_ports sample_configured = sample_ports"
    "mg_state_path sample_configured = ''/c''"
    using sample_switched_ok(2,3,6) by (simp_all add: sample_configured_def store_member_def active_switches_def)
qed

theorem configuration_survives_restart_witness:
  "\<exists>fs' m' t. persist_manager willing_env sample_configured (\<lambda>_. None) 0 = (DOCA_SUCCESS, fs', 0) \<and>
     restore_manager willing_env quiet_load sample_manager fs' 0 = (DOCA_SUCCESS, m', fs', t) \<and>
     active_switches m' = [(100, ''lan'')] \<and> active_members m' = [sample_port_member]"
proof -
  have names: "names_ok sample_configured"
    by (simp add: names_ok_def sample_configured_ok eswitch_vs_name_valid_def vs_name_char_def is_alpha_def
        is_digit_def es_consts)
  have ports: "ports_identified (mg_ports sample_configured)"
    by (auto simp: sample_configured_ok ports_identified_def sample_ports_def less_Suc_eq numeral_2_eq_2)
  have "names_writable (file_state sample_configured)"
    using file_state_wf [OF sample_configured_ok(1) names ports] by (auto simp: names_writable_def state_wf_def)
  then obtain fs' where save: "persist_manager willing_env sample_configured (\<lambda>_. None) 0 = (DOCA_SUCCESS, fs', 0)"
    using manager_to_state_ok [OF sample_configured_ok(1) ports]
    by (simp add: persist_manager_def willing_env_def eswitch_state_save_def temporary_path_def PATH_MAX_def
        dec.simps sample_configured_ok Let_def)
  have lio: "lio_open quiet_load \<and> lio_read_error quiet_load = None \<and> lio_close quiet_load"
    by (simp add: quiet_load_def)
  have env: "attaching willing_env" "fst (me_malloc willing_env 0)"
    by (simp_all add: attaching_def willing_env_def)
  have prep: "manager_prepare willing_env (mg_ports sample_configured) (mg_state_path sample_configured) 0 =
      (DOCA_SUCCESS, sample_manager, 0)"
    by (simp add: sample_configured_ok sample_manager_ready)
  from configuration_survives_restart [OF sample_configured_ok(1) names ports save lio prep env] save
  show ?thesis by (auto simp: sample_configured_ok)
qed

end
