(* ===== verification/Arm_Path.thy ===== *)
theory Arm_Path
  imports Sf_Context Router_Egress Router_Icmp
begin

text \<open>
  The Arm slow path of a routed frame (\<^verbatim>\<open>eswitch_manager.c\<close>): probing next hops, answering ARP,
  firewall, route lookup, router links, address translation and transmission.  A frame that goes on to another
  virtual router calls \<open>route_arm_frame\<close> or \<open>route_router_ingress_frame\<close> again with one more
  hop; each step here takes that call as its argument \<open>again\<close>, and \<open>deliver\<close> at the end ties
  the knot.  \<open>None\<close> is a walk of a NAT index that does not end.  Terminal output and the
  counters that only steer it are left out.
\<close>

section \<open>State\<close>

definition count_up :: "manager_counter \<Rightarrow> eswitch_manager \<Rightarrow> eswitch_manager" where
  "count_up k m = m\<lparr>mg_counters := (mg_counters m)(k := mg_counters m k + 1)\<rparr>"

text \<open>The configuration packets are routed by; it is set before any packet is polled.\<close>

definition mg_config :: "eswitch_manager \<Rightarrow> router_config" where
  "mg_config m = (case mg_router m of None \<Rightarrow> router_config_init | Some c \<Rightarrow> c)"

datatype delivery =
    Arm_frame bytes router_interface u16 u8 u16
  | Router_ingress bytes router_interface u16 u8

type_synonym 's routed = "(eswitch_manager \<times> 's) option"
type_synonym 's onward = "delivery \<Rightarrow> eswitch_manager \<Rightarrow> 's \<Rightarrow> 's routed"

definition ROUTER_LINK_MAX_HOPS :: u8 where "ROUTER_LINK_MAX_HOPS = 8"

definition frame_capacity :: "bytes \<Rightarrow> nat" where
  "frame_capacity f = (if length f < 60 then 60 else length f)"

section \<open>Probing next hops\<close>

definition probe_context ::
  "'s manager_env \<Rightarrow> eswitch_manager \<Rightarrow> router_interface \<Rightarrow> 's \<Rightarrow> (doca_error \<times> u16 \<times> 's) option" where
  "probe_context env m egress s =
     (if rif_attachment egress = ROUTER_VSWITCH
        then Some (bind_sf_return_context env m (rif_vswitch_id egress) (rif_mac egress) s)
      else case find_router_interface_port_index m egress of
        None \<Rightarrow> None
      | Some i \<Rightarrow> Some (bind_route_egress env m egress (port_id_at m i) s))"

definition send_context ::
  "'s manager_env \<Rightarrow> doca_error \<times> u16 \<times> 's \<Rightarrow> bytes \<Rightarrow> doca_error \<times> 's" where
  "send_context env bound f =
     (case bound of (r, tag, s) \<Rightarrow> if r = DOCA_SUCCESS then me_sf_send env f tag s else (r, s))"

definition send_route_neighbor_probe ::
  "'s manager_env \<Rightarrow> eswitch_manager \<Rightarrow> router_interface \<Rightarrow> u32 \<Rightarrow> u64 \<Rightarrow> 's \<Rightarrow>
   bool \<times> eswitch_manager \<times> 's" where
  "send_route_neighbor_probe env m egress target now s =
     (let (nt, due) = router_neighbor_should_probe (mg_neighbors m)
            (rif_vr_id egress, rif_interface_id egress, target) now;
          m1 = m\<lparr>mg_neighbors := nt\<rparr> in
      if \<not> due then (False, m1, s)
      else case router_arp_request egress target 60 of
        None \<Rightarrow> (False, count_up Route_tx_drops m1, s)
      | Some request \<Rightarrow>
          (case probe_context env m1 egress s of
             None \<Rightarrow> (False, count_up Route_tx_drops m1, s)
           | Some bound \<Rightarrow>
               let (r, s2) = send_context env bound request in
               if r \<noteq> DOCA_SUCCESS then (False, count_up Route_tx_drops m1, s2)
               else (True, count_up Route_arp_probes m1, s2)))"

fun probe_routes ::
  "'s manager_env \<Rightarrow> eswitch_manager \<Rightarrow> router_route list \<Rightarrow> u64 \<Rightarrow> 's \<Rightarrow> eswitch_manager \<times> 's" where
  "probe_routes env m [] now s = (m, s)"
| "probe_routes env m (rt # rts) now s =
     (if rt_gateway rt = 0 then probe_routes env m rts now s
      else case find_router_interface m (rt_vr_id rt) (rt_interface_id rt) of
        None \<Rightarrow> probe_routes env m rts now s
      | Some egress \<Rightarrow>
          if rif_attachment egress = ROUTER_LINK \<or> \<not> rif_has_address egress
            then probe_routes env m rts now s
          else if router_neighbor_needs_refresh (mg_neighbors m)
                    (rt_vr_id rt, rt_interface_id rt, rt_gateway rt) now
            then let (sent, m1, s1) = send_route_neighbor_probe env m egress (rt_gateway rt) now s in
              probe_routes env (if sent then count_up Route_proactive_probes m1 else m1) rts now s1
          else probe_routes env m rts now s)"

definition probe_configured_next_hops ::
  "'s manager_env \<Rightarrow> eswitch_manager \<Rightarrow> router_config \<Rightarrow> u64 \<Rightarrow> 's \<Rightarrow> eswitch_manager \<times> 's" where
  "probe_configured_next_hops env m c now s = probe_routes env m (cfg_routes c) now s"

definition eswitch_manager_router_prepare ::
  "'s manager_env \<Rightarrow> eswitch_manager \<Rightarrow> router_config \<Rightarrow> u64 \<Rightarrow> 's \<Rightarrow> doca_error \<times> eswitch_manager \<times> 's" where
  "eswitch_manager_router_prepare env m c now s =
     (let (r, s1) = eswitch_manager_router_prearm env m c s in
      if r \<noteq> DOCA_SUCCESS then (r, m, s1)
      else let (m2, s2) = probe_configured_next_hops env m c now s1 in (DOCA_SUCCESS, m2, s2))"

definition validate_route_neighbor :: "eswitch_manager \<Rightarrow> router_interface \<Rightarrow> router_neighbor \<Rightarrow> bool" where
  "validate_route_neighbor m egress nb =
     (case find_port_index m (nb_port_id nb) of
        None \<Rightarrow> False
      | Some i \<Rightarrow>
          if rif_attachment egress = ROUTER_VSWITCH
            then eswitch_port_in_vswitch m (rif_vswitch_id egress) (nb_port_id nb)
          else find_router_interface_port_index m egress = Some i)"

section \<open>Answering ARP\<close>

text \<open>The first \<open>n\<close> bytes of a packet, \<open>None\<close> when it is shorter.\<close>

definition pktmbuf_read :: "bytes \<Rightarrow> nat \<Rightarrow> bytes option" where
  "pktmbuf_read packet n = (if length packet < n then None else Some (take n packet))"

text \<open>At most 100 replies in a second: the window restarts after a second.\<close>

definition arp_window :: "u64 \<Rightarrow> eswitch_manager \<Rightarrow> eswitch_manager" where
  "arp_window now m =
     (if 1000000000 \<le> now - mg_arp_window_ns m
        then m\<lparr>mg_arp_window_ns := now, mg_arp_window_replies := 0\<rparr> else m)"

definition reply_gateway_arp ::
  "'s manager_env \<Rightarrow> eswitch_manager \<Rightarrow> bytes \<Rightarrow> u16 \<Rightarrow> u16 \<Rightarrow> u64 \<Rightarrow> 's \<Rightarrow>
   doca_error \<times> eswitch_manager \<times> 's" where
  "reply_gateway_arp env m request vs ingress now s =
     (case Option.bind (pktmbuf_read request 42) (\<lambda>p. router_arp_reply (mg_config m) vs p 60) of
        None \<Rightarrow> (DOCA_ERROR_NOT_FOUND, count_up Arp_ignored m, s)
      | Some response \<Rightarrow>
          let m1 = count_up Arp_built m in
          if find_port_index m1 ingress = None \<or> ingress = - 1 \<or>
             \<not> eswitch_port_in_vswitch m1 vs ingress \<or> \<not> me_sf_ready env s
            then (DOCA_ERROR_INVALID_VALUE, count_up Arp_tx_drops (count_up Arp_target_drops m1), s)
          else let m2 = arp_window now m1 in
          if 100 \<le> mg_arp_window_replies m2 then (DOCA_ERROR_IN_USE, count_up Arp_rate_drops m2, s)
          else let m3 = m2\<lparr>mg_arp_window_replies := mg_arp_window_replies m2 + 1\<rparr>;
                   (r, tag, s1) = bind_sf_directed_context env m3 vs ingress (slice response 6 6) s in
          if r \<noteq> DOCA_SUCCESS then (r, count_up Arp_tx_drops (count_up Arp_target_drops m3), s1)
          else let (r, s2) = me_sf_send env response tag s1 in
          if r = DOCA_SUCCESS then (DOCA_SUCCESS, count_up Arp_replies m3, s2)
          else (DOCA_ERROR_DRIVER, count_up Arp_sf_send_drops (count_up Arp_tx_drops m3), s2))"

definition reply_uplink_arp ::
  "'s manager_env \<Rightarrow> eswitch_manager \<Rightarrow> bytes \<Rightarrow> router_interface \<Rightarrow> u16 \<Rightarrow> u64 \<Rightarrow> 's \<Rightarrow>
   eswitch_manager \<times> 's" where
  "reply_uplink_arp env m request ingress port now s =
     (case Option.bind (pktmbuf_read request 42)
             (\<lambda>p. router_arp_reply_interface (mg_config m) (rif_interface_id ingress) p 60) of
        None \<Rightarrow> (count_up Arp_ignored m, s)
      | Some response \<Rightarrow>
          let m1 = count_up Arp_built m in
          if \<not> me_sf_ready env s \<or> find_port_index m1 port \<noteq> find_router_interface_port_index m1 ingress
            then (count_up Arp_tx_drops (count_up Arp_target_drops m1), s)
          else let m2 = arp_window now m1 in
          if 100 \<le> mg_arp_window_replies m2 then (count_up Arp_rate_drops m2, s)
          else let m3 = m2\<lparr>mg_arp_window_replies := mg_arp_window_replies m2 + 1\<rparr>;
                   (r, s2) = send_context env (bind_route_egress env m3 ingress port s) response in
          if r \<noteq> DOCA_SUCCESS then (count_up Arp_tx_drops (count_up Arp_sf_send_drops m3), s2)
          else (count_up Arp_replies m3, s2))"

section \<open>Frames for the router itself and for a linked router\<close>

definition route_across_link ::
  "'s manager_env \<Rightarrow> 's onward \<Rightarrow> bytes \<Rightarrow> router_interface \<Rightarrow> u32 \<Rightarrow> u8 \<Rightarrow> eswitch_manager \<Rightarrow> 's \<Rightarrow> 's routed" where
  "route_across_link env again f egress next_hop hops m s =
     (if ROUTER_LINK_MAX_HOPS \<le> hops then Some (count_up Router_link_drops (count_up Route_ttl_expired m), s)
      else let missing = Some (count_up Router_link_drops (count_up Route_neighbor_misses m), s) in
      case router_link_peer (mg_config m) (rif_interface_id egress) of
        None \<Rightarrow> missing
      | Some peer \<Rightarrow>
          if \<not> rif_has_address egress \<or> \<not> rif_has_address peer \<or> next_hop \<noteq> rif_address peer then missing
          else let (ok, s1) = me_malloc env s in
          if \<not> ok then Some (count_up Router_link_drops (count_up Route_tx_drops m), s1)
          else case router_ipv4_rewrite f (rif_mac egress) (rif_mac peer) (frame_capacity f) of
            None \<Rightarrow> Some (count_up Router_link_drops (count_up Route_invalid m), s1)
          | Some out \<Rightarrow>
              map_option (\<lambda>(m2, s2). (count_up Router_link_forwards m2, s2))
                (again (Arm_frame out peer 0 (hops + 1) 0) m s1))"

text \<open>Sending a reply back on the port its request came from; \<open>None\<close> when that port is not valid.\<close>

definition reply_context ::
  "'s manager_env \<Rightarrow> eswitch_manager \<Rightarrow> router_interface \<Rightarrow> u16 \<Rightarrow> 's \<Rightarrow> (doca_error \<times> u16 \<times> 's) option" where
  "reply_context env m ingress port s =
     (if rif_attachment ingress = ROUTER_VSWITCH then
        (if find_port_index m port = None \<or> \<not> eswitch_port_in_vswitch m (rif_vswitch_id ingress) port
           then None
         else Some (bind_sf_directed_context env m (rif_vswitch_id ingress) port (rif_mac ingress) s))
      else if rif_attachment ingress = ROUTER_PORT then
        (case find_router_interface_port_index m ingress of
           None \<Rightarrow> None
         | Some i \<Rightarrow> if port_id_at m i \<noteq> port then None else Some (bind_route_egress env m ingress port s))
      else None)"

definition route_arm_local_reply ::
  "'s manager_env \<Rightarrow> 's onward \<Rightarrow> bytes \<Rightarrow> router_interface \<Rightarrow> u16 \<Rightarrow> u8 \<Rightarrow> eswitch_manager \<Rightarrow> 's \<Rightarrow> 's routed" where
  "route_arm_local_reply env again f ingress port hops m s =
     (let (ok, s1) = me_malloc env s; m1 = count_up Icmp_seen m in
      if \<not> ok then Some (count_up Icmp_tx_drops m1, s1)
      else case router_icmp_echo_reply_interface (mg_config m1) (rif_interface_id ingress) f (frame_capacity f) of
        None \<Rightarrow> Some (count_up Icmp_ignored m1, s1)
      | Some response \<Rightarrow>
          let m2 = count_up Icmp_built m1 in
          if rif_attachment ingress = ROUTER_LINK then
            (case router_link_peer (mg_config m2) (rif_interface_id ingress) of
               None \<Rightarrow> Some (count_up Icmp_tx_drops m2, s1)
             | Some peer \<Rightarrow>
                 if ROUTER_LINK_MAX_HOPS \<le> hops then Some (count_up Icmp_tx_drops m2, s1)
                 else map_option (\<lambda>(m3, s3). (count_up Icmp_replies (count_up Router_link_forwards m3), s3))
                        (again (Arm_frame response peer 0 (hops + 1) 0) m2 s1))
          else if rif_attachment ingress = ROUTER_VSWITCH \<and> port = - 1 then
            (let dropped = Some (count_up Shared_vswitch_drops (count_up Icmp_tx_drops m2), s1) in
             case find_router_vswitch_interface m2 (rif_vswitch_id ingress) (slice response 0 6) of
               None \<Rightarrow> dropped
             | Some peer \<Rightarrow>
                 if rif_interface_id peer = rif_interface_id ingress \<or> ROUTER_LINK_MAX_HOPS \<le> hops then dropped
                 else map_option (\<lambda>(m3, s3). (count_up Shared_vswitch_forwards (count_up Icmp_replies m3), s3))
                        (again (Router_ingress response peer (- 1) (hops + 1)) m2 s1))
          else case reply_context env m2 ingress port s1 of
            None \<Rightarrow> Some (count_up Icmp_tx_drops m2, s1)
          | Some bound \<Rightarrow>
              let (r, s3) = send_context env bound response in
              Some (count_up (if r = DOCA_SUCCESS then Icmp_replies else Icmp_tx_drops) m2, s3))"

section \<open>Routing one frame\<close>

text \<open>
  The egress policy, with the exception of replies of port-forward sessions.
\<close>

definition egress_gate :: "eswitch_manager \<Rightarrow> router_interface \<Rightarrow> bytes \<Rightarrow> (verdict \<times> eswitch_manager) option" where
  "egress_gate m ingress f =
     (let v = router_egress_check (mg_config m) ingress f in
      if v = ROUTER_EGRESS_NOT_APPLICABLE then Some (v, m)
      else let m1 = count_up Egress_checked m in
      if v = ROUTER_EGRESS_DENY then
        (case router_nat_is_port_forward_reply (mg_nat m1) ingress f of
           None \<Rightarrow> None
         | Some reply \<Rightarrow>
             if reply then Some (ROUTER_EGRESS_ALLOW, count_up Egress_allowed (count_up Egress_established_replies m1))
             else Some (ROUTER_EGRESS_DENY, count_up Egress_denied m1))
      else Some (v, count_up Egress_allowed m1))"

text \<open>A frame whose neighbor is not usable waits; its next hop is probed.\<close>

definition hold_frame ::
  "'s manager_env \<Rightarrow> decision \<Rightarrow> router_interface \<Rightarrow> bytes \<Rightarrow> router_interface \<Rightarrow> u16 \<Rightarrow> u8 \<Rightarrow> u16 \<Rightarrow> u64 \<Rightarrow>
   eswitch_manager \<Rightarrow> 's \<Rightarrow> eswitch_manager \<times> 's" where
  "hold_frame env d egress f ingress port hops expected now m s =
     (let m1 = count_up Route_neighbor_misses m;
          enqueue = (\<lambda>ok. router_pending_enqueue (mg_pending m1) ok
            (d_vr_id d, d_egress_interface_id d, d_next_hop_ip d) (rif_interface_id ingress) port hops
            expected f now);
          (ok, s1) = (if snd (enqueue True) then me_malloc env s else (True, s));
          (q, stored) = enqueue ok;
          m2 = m1\<lparr>mg_pending := q\<rparr>;
          m3 = (if stored then m2 else count_up Route_tx_drops m2);
          (_, m4, s4) = send_route_neighbor_probe env m3 egress (d_next_hop_ip d) now s1 in
      (m4, s4))"

datatype target = Shared_peer router_interface | Next_hop router_neighbor

fun target_mac :: "target \<Rightarrow> mac" where
  "target_mac (Shared_peer peer) = rif_mac peer"
| "target_mac (Next_hop nb) = nb_mac nb"

text \<open>
  Source translation on a router port, a port-forward interface or the interface of the NAT
  policy: the frame to forward with the slot of its session, or a drop.
\<close>

definition inside_of :: "decision \<Rightarrow> router_interface \<Rightarrow> u16 \<Rightarrow> bytes \<Rightarrow> nat_inside" where
  "inside_of d ingress port f =
     (let lan = (rif_attachment ingress = ROUTER_VSWITCH) in
      \<lparr>in_vr_id = d_vr_id d, in_vswitch_id = (if lan then rif_vswitch_id ingress else 0),
       in_interface_id = d_ingress_interface_id d, in_port_id = (if lan then port else 0),
       in_mac = slice f 6 6\<rparr>)"

type_synonym 's translated = "((bytes \<times> nat option) option \<times> eswitch_manager \<times> 's) option"

definition translate_egress ::
  "'s manager_env \<Rightarrow> decision \<Rightarrow> router_interface \<Rightarrow> bytes \<Rightarrow> router_interface \<Rightarrow> u16 \<Rightarrow> u64 \<Rightarrow>
   eswitch_manager \<Rightarrow> 's \<Rightarrow> 's translated" where
  "translate_egress env d egress f ingress port now m s =
     (let c = mg_config m;
          policy = (case router_nat_policy_find c (d_vr_id d) of
             None \<Rightarrow> None
           | Some p \<Rightarrow> if np_interface_id p = rif_interface_id egress then Some p else None);
          forwards = router_port_forward_uses_interface c (rif_interface_id egress);
          dropped = count_up Route_tx_drops m in
      if \<not> (rif_attachment egress = ROUTER_PORT \<or> forwards \<or> policy \<noteq> None) then Some (Some (f, None), m, s)
      else if policy = None \<and> \<not> forwards then Some (None, dropped, s)
      else let (ok, s1) = me_malloc env s in
      if \<not> ok then Some (None, dropped, s1)
      else case router_nat_outbound (mg_nat m) policy
             (case policy of None \<Rightarrow> 0 | Some p \<Rightarrow> router_nat_policy_address c p)
             (inside_of d ingress port f) f now (frame_capacity f) of
        None \<Rightarrow> None
      | Some (t, r, x) \<Rightarrow>
          let m1 = m\<lparr>mg_nat := t\<rparr> in
          if r \<noteq> ROUTER_NAT_TRANSLATED then
            Some (None, count_up Route_tx_drops (if r = ROUTER_NAT_INVALID then count_up Route_invalid m1 else m1), s1)
          else case x of
            None \<Rightarrow> Some (None, count_up Route_tx_drops m1, s1)
          | Some (i, out) \<Rightarrow>
              if ns_public_interface_id (nat_entries t i) \<noteq> rif_interface_id egress
                then Some (None, count_up Route_tx_drops m1, s1)
              else Some (Some (out, Some i), m1, s1))"

text \<open>Connection tracking takes over an eligible session.\<close>

definition promote_session ::
  "'s manager_env \<Rightarrow> verdict \<Rightarrow> decision \<Rightarrow> router_interface \<Rightarrow> router_neighbor \<Rightarrow> bytes \<Rightarrow> router_interface \<Rightarrow> u16 \<Rightarrow>
   nat option \<Rightarrow> eswitch_manager \<Rightarrow> 's \<Rightarrow> eswitch_manager \<times> 's" where
  "promote_session env verdict d egress nb f ingress port session m s =
     (let sn = map_option (nat_entries (mg_nat m)) session in
      if \<not> me_ct_enabled env s \<or>
         \<not> router_nat_session_offload_eligible sn (Some ingress) (Some egress) port (slice f 6 6)
             (verdict \<noteq> ROUTER_EGRESS_DENY) then (m, s)
      else case (find_router_interface m (d_vr_id d) (d_ingress_interface_id d), sn) of
        (Some inside, Some x) \<Rightarrow>
          let (r, marks, s1) = me_ct_promote env x
                (if rif_attachment egress = ROUTER_VSWITCH then rif_vswitch_id egress else 0)
                (nb_port_id nb) (rif_mac egress) (nb_mac nb) (rif_vswitch_id inside)
                (in_port_id (ns_inside x)) (rif_mac inside) (in_mac (ns_inside x)) s in
          (m\<lparr>mg_nat := apply_marks marks (mg_nat m)\<rparr>, s1)
      | _ \<Rightarrow> (m, s))"

definition send_to_neighbor ::
  "'s manager_env \<Rightarrow> verdict \<Rightarrow> decision \<Rightarrow> router_interface \<Rightarrow> router_neighbor \<Rightarrow> bytes \<Rightarrow> bytes \<Rightarrow>
   router_interface \<Rightarrow> u16 \<Rightarrow> nat option \<Rightarrow> u64 \<Rightarrow> eswitch_manager \<Rightarrow> 's \<Rightarrow> eswitch_manager \<times> 's" where
  "send_to_neighbor env verdict d egress nb out f ingress port session now m s =
     (let (r, s1) = send_context env (bind_route_egress env m egress (nb_port_id nb) s) out in
      if r \<noteq> DOCA_SUCCESS then (count_up Route_tx_drops m, s1)
      else let m1 = count_up Routed_forwarded m;
               s2 = (if verdict = ROUTER_EGRESS_ALLOW \<and> session = None \<and>
                        rif_attachment ingress = ROUTER_VSWITCH \<and> rif_attachment egress = ROUTER_VSWITCH
                     then snd (me_authorize env (rif_vr_id ingress) (rif_interface_id ingress) port f now s1)
                     else s1) in
        promote_session env verdict d egress nb f ingress port session m1 s2)"

definition forward_frame ::
  "'s manager_env \<Rightarrow> 's onward \<Rightarrow> verdict \<Rightarrow> decision \<Rightarrow> router_interface \<Rightarrow> target \<Rightarrow> bytes \<Rightarrow> router_interface \<Rightarrow>
   u16 \<Rightarrow> u8 \<Rightarrow> u64 \<Rightarrow> eswitch_manager \<Rightarrow> 's \<Rightarrow> 's routed" where
  "forward_frame env again verdict d egress tgt f ingress port hops now m s =
     (case translate_egress env d egress f ingress port now m s of
        None \<Rightarrow> None
      | Some (None, m1, s1) \<Rightarrow> Some (m1, s1)
      | Some (Some (g, session), m1, s1) \<Rightarrow>
          let (ok, s2) = me_malloc env s1 in
          if \<not> ok then Some (count_up Route_tx_drops m1, s2)
          else case router_ipv4_rewrite g (rif_mac egress) (target_mac tgt) (frame_capacity f) of
            None \<Rightarrow> Some (count_up Route_invalid m1, s2)
          | Some out \<Rightarrow>
              (case tgt of
                 Shared_peer peer \<Rightarrow>
                   if ROUTER_LINK_MAX_HOPS \<le> hops
                     then Some (count_up Shared_vswitch_drops (count_up Route_ttl_expired m1), s2)
                   else again (Router_ingress out peer (- 1) (hops + 1))
                          (count_up Shared_vswitch_forwards (count_up Routed_forwarded m1)) s2
               | Next_hop nb \<Rightarrow>
                   Some (send_to_neighbor env verdict d egress nb out f ingress port session now m1 s2)))"

text \<open>After the lookup decided to forward.\<close>

definition route_decided ::
  "'s manager_env \<Rightarrow> 's onward \<Rightarrow> verdict \<Rightarrow> decision \<Rightarrow> bytes \<Rightarrow> router_interface \<Rightarrow> u16 \<Rightarrow> u8 \<Rightarrow> u16 \<Rightarrow> u64 \<Rightarrow>
   eswitch_manager \<Rightarrow> 's \<Rightarrow> 's routed" where
  "route_decided env again verdict d f ingress port hops expected now m s =
     (case find_router_interface m (d_vr_id d) (d_egress_interface_id d) of
        None \<Rightarrow> Some (count_up Route_no_route m, s)
      | Some egress \<Rightarrow>
          if expected \<noteq> 0 \<and> d_egress_interface_id d \<noteq> expected then Some (count_up Route_no_route m, s)
          else if rif_attachment egress = ROUTER_LINK
            then route_across_link env again f egress (d_next_hop_ip d) hops m s
          else case find_router_vswitch_peer m egress (d_next_hop_ip d) of
            Some peer \<Rightarrow> forward_frame env again verdict d egress (Shared_peer peer) f ingress port hops now m s
          | None \<Rightarrow>
              (case router_neighbor_lookup (mg_neighbors m)
                      (d_vr_id d, d_egress_interface_id d, d_next_hop_ip d) now of
                 None \<Rightarrow> Some (hold_frame env d egress f ingress port hops expected now m s)
               | Some nb \<Rightarrow>
                   if \<not> validate_route_neighbor m egress nb
                     then Some (hold_frame env d egress f ingress port hops expected now m s)
                   else forward_frame env again verdict d egress (Next_hop nb) f ingress port hops now m s))"

definition route_arm_frame ::
  "'s manager_env \<Rightarrow> 's onward \<Rightarrow> bytes \<Rightarrow> router_interface \<Rightarrow> u16 \<Rightarrow> u8 \<Rightarrow> u16 \<Rightarrow> u64 \<Rightarrow>
   eswitch_manager \<Rightarrow> 's \<Rightarrow> 's routed" where
  "route_arm_frame env again f ingress port hops expected now m s =
     (case egress_gate m ingress f of
        None \<Rightarrow> None
      | Some (verdict, m0) \<Rightarrow>
          if verdict = ROUTER_EGRESS_DENY then Some (m0, s)
          else let (disp, d) = router_ipv4_lookup_interface (mg_config m0) (rif_interface_id ingress) f in
          if disp = ROUTER_IPV4_NOT_FOR_ROUTER then Some (m0, s)
          else if disp = ROUTER_IPV4_LOCAL then route_arm_local_reply env again f ingress port hops m0 s
          else let m1 = count_up Routed_seen m0 in
          if disp = ROUTER_IPV4_INVALID then Some (count_up Route_invalid m1, s)
          else if disp = ROUTER_IPV4_TTL_EXPIRED then Some (count_up Route_ttl_expired m1, s)
          else if disp = ROUTER_IPV4_NO_ROUTE then Some (count_up Route_no_route m1, s)
          else route_decided env again verdict d f ingress port hops expected now m1 s)"

section \<open>Frames entering a router interface\<close>

definition ingress_firewall_allowed :: "eswitch_manager \<Rightarrow> router_interface \<Rightarrow> bytes \<Rightarrow> bool \<times> eswitch_manager" where
  "ingress_firewall_allowed m ingress f =
     (let v = router_ingress_check (mg_config m) ingress f in
      if v = ROUTER_EGRESS_NOT_APPLICABLE then (True, m)
      else let m1 = count_up Ingress_checked m in
      if v = ROUTER_EGRESS_DENY then (False, count_up Ingress_denied m1)
      else (True, count_up Ingress_allowed m1))"

text \<open>
  The reverse translation missed: a frame for the router itself is handled as such, any other is
  dropped.
\<close>

definition nat_missed ::
  "'s manager_env \<Rightarrow> 's onward \<Rightarrow> nat_result \<Rightarrow> bytes \<Rightarrow> router_interface \<Rightarrow> u16 \<Rightarrow> u8 \<Rightarrow> u64 \<Rightarrow>
   eswitch_manager \<Rightarrow> 's \<Rightarrow> 's routed" where
  "nat_missed env again r f ingress port hops now m s =
     (if r = ROUTER_NAT_INVALID
        then Some (count_up Nat_fail_closed_drops (count_up Route_invalid m), s)
      else if fst (router_ipv4_lookup_interface (mg_config m) (rif_interface_id ingress) f) = ROUTER_IPV4_LOCAL
        then route_arm_frame env again f ingress port hops 0 now (count_up Nat_local_fallbacks m) s
      else Some (count_up Nat_fail_closed_drops m, s))"

text \<open>A new connection to a forwarded port is taken back.\<close>

definition reject_forward :: "nat \<Rightarrow> eswitch_manager \<Rightarrow> 's \<Rightarrow> 's routed" where
  "reject_forward i m s =
     (case router_nat_port_forward_reject (mg_nat m) i of
        None \<Rightarrow> None
      | Some t \<Rightarrow> Some (count_up Nat_fail_closed_drops (m\<lparr>mg_nat := t\<rparr>), s))"

definition nat_translated ::
  "'s manager_env \<Rightarrow> 's onward \<Rightarrow> nat \<Rightarrow> bytes \<Rightarrow> router_interface \<Rightarrow> u16 \<Rightarrow> u8 \<Rightarrow> u64 \<Rightarrow>
   eswitch_manager \<Rightarrow> 's \<Rightarrow> 's routed" where
  "nat_translated env again i g ingress port hops now m s =
     (let session = nat_entries (mg_nat m) i in
      if ns_port_forward session then
        (let (disp, d) = router_ipv4_lookup_interface (mg_config m) (rif_interface_id ingress) g in
         if disp \<noteq> ROUTER_IPV4_FORWARD \<or> d_egress_interface_id d = rif_interface_id ingress
           then reject_forward i m s
         else let (r, s1) = me_acl_reply_add env (mg_config m) (d_egress_interface_id d) session s in
         if r \<noteq> DOCA_SUCCESS then reject_forward i m s1
         else route_arm_frame env again g ingress port hops 0 now m s1)
      else route_arm_frame env again g ingress port hops (in_interface_id (ns_inside session)) now m s)"

definition route_nat_ingress_frame ::
  "'s manager_env \<Rightarrow> 's onward \<Rightarrow> bytes \<Rightarrow> router_interface \<Rightarrow> u16 \<Rightarrow> u8 \<Rightarrow> u64 \<Rightarrow>
   eswitch_manager \<Rightarrow> 's \<Rightarrow> 's routed" where
  "route_nat_ingress_frame env again f ingress port hops now m s =
     (let c = mg_config m; i = rif_interface_id ingress;
          forwards = router_port_forward_uses_interface c i in
      if (case router_nat_policy_find c (rif_vr_id ingress) of None \<Rightarrow> True | Some p \<Rightarrow> np_interface_id p \<noteq> i) \<and>
         \<not> forwards then Some (m, s)
      else let (ok, s1) = me_malloc env s in
      if \<not> ok then Some (count_up Route_tx_drops m, s1)
      else case router_nat_inbound (mg_nat m) (rif_vr_id ingress) f now (frame_capacity f) of
        None \<Rightarrow> None
      | Some (t, r, x) \<Rightarrow>
          let m1 = m\<lparr>mg_nat := t\<rparr>;
              established = (r = ROUTER_NAT_TRANSLATED \<and> (case x of None \<Rightarrow> False | Some (k, _) \<Rightarrow>
                ns_public_interface_id (nat_entries t k) = i \<and> \<not> ns_port_forward (nat_entries t k)));
              (allowed, m2) = (if established then (True, count_up Ingress_established m1)
                               else ingress_firewall_allowed m1 ingress f) in
          if \<not> allowed then Some (m2, s1)
          else case (if r = ROUTER_NAT_NOT_APPLICABLE \<and> forwards
                     then router_nat_port_forward_inbound (mg_nat m2) c (rif_vr_id ingress) i f now (frame_capacity f)
                     else Some (mg_nat m2, r, x)) of
            None \<Rightarrow> None
          | Some (t2, r2, x2) \<Rightarrow>
              let m3 = m2\<lparr>mg_nat := t2\<rparr> in
              if r2 \<noteq> ROUTER_NAT_TRANSLATED then nat_missed env again r2 f ingress port hops now m3 s1
              else case x2 of
                None \<Rightarrow> Some (m3, s1)
              | Some (k, g) \<Rightarrow>
                  if ns_public_interface_id (nat_entries t2 k) \<noteq> i
                    then Some (count_up Nat_fail_closed_drops m3, s1)
                  else nat_translated env again k g ingress port hops now m3 s1)"

definition route_router_ingress_frame ::
  "'s manager_env \<Rightarrow> 's onward \<Rightarrow> bytes \<Rightarrow> router_interface \<Rightarrow> u16 \<Rightarrow> u8 \<Rightarrow> u64 \<Rightarrow>
   eswitch_manager \<Rightarrow> 's \<Rightarrow> 's routed" where
  "route_router_ingress_frame env again f ingress port hops now m s =
     (let c = mg_config m; i = rif_interface_id ingress in
      if (case router_nat_policy_find c (rif_vr_id ingress) of None \<Rightarrow> False | Some p \<Rightarrow> np_interface_id p = i) \<or>
         router_port_forward_uses_interface c i
        then route_nat_ingress_frame env again f ingress port hops now m s
      else case ingress_firewall_allowed m ingress f of
        (allowed, m1) \<Rightarrow>
          if \<not> allowed then Some (m1, s) else route_arm_frame env again f ingress port hops 0 now m1 s)"

text \<open>
  The knot: every further call carries one more hop and no call is made at the limit of 8 hops,
  so a fuel of 8 further calls is enough.
\<close>

primrec deliver :: "'s manager_env \<Rightarrow> u64 \<Rightarrow> nat \<Rightarrow> 's onward" where
  "deliver env now 0 = (\<lambda>call m s. None)"
| "deliver env now (Suc n) = (\<lambda>call m s.
     case call of
       Arm_frame f ingress port hops expected \<Rightarrow>
         route_arm_frame env (deliver env now n) f ingress port hops expected now m s
     | Router_ingress f ingress port hops \<Rightarrow>
         route_router_ingress_frame env (deliver env now n) f ingress port hops now m s)"

definition HOP_FUEL :: nat where "HOP_FUEL = 8"

end
