(* ===== verification/Packet_Loop.thy ===== *)
theory Packet_Loop
  imports Arm_Path
begin

text \<open>
  The packet loop (\<^verbatim>\<open>eswitch_manager.c\<close>): replaying held frames, processing one received packet,
  a burst of them, and the periodic maintenance.  A packet is its metadata and its bytes.
\<close>

section \<open>Replaying held frames\<close>

definition pending_ready :: "eswitch_manager \<Rightarrow> u64 \<Rightarrow> router_pending_packet \<Rightarrow> bool" where
  "pending_ready m now p \<longleftrightarrow> pp_used p \<and> router_neighbor_lookup (mg_neighbors m) (pp_key p) now \<noteq> None"

definition replay_one ::
  "'s manager_env \<Rightarrow> u64 \<Rightarrow> router_pending_packet \<Rightarrow> eswitch_manager \<Rightarrow> 's \<Rightarrow> 's routed" where
  "replay_one env now p m s =
     (case find_router_interface m (pp_vr_id p) (pp_ingress_interface_id p) of
        None \<Rightarrow> Some (count_up Route_tx_drops m, s)
      | Some ingress \<Rightarrow>
          route_arm_frame env (deliver env now HOP_FUEL) (case pp_frame p of None \<Rightarrow> [] | Some f \<Rightarrow> f)
            ingress (pp_ingress_port p) (pp_link_hops p) (pp_expected_egress_interface p) now m s)"

text \<open>One round: \<open>Inl\<close> when no held frame is ready.\<close>

definition replay_round ::
  "'s manager_env \<Rightarrow> u64 \<Rightarrow> eswitch_manager \<Rightarrow> 's \<Rightarrow> (eswitch_manager + eswitch_manager \<times> 's) option" where
  "replay_round env now m s =
     (case first_slot (pending_ready m now) ROUTER_PENDING_MAX_PACKETS (pq_entries (mg_pending m)) of
        None \<Rightarrow> Some (Inl m)
      | Some i \<Rightarrow>
          (case router_pending_take (mg_pending m) (pp_key (pq_entries (mg_pending m) i)) of
             (q, None) \<Rightarrow> Some (Inl (m\<lparr>mg_pending := q\<rparr>))
           | (q, Some p) \<Rightarrow> map_option Inr (replay_one env now p (m\<lparr>mg_pending := q\<rparr>) s)))"

partial_function (option) replay_pending_ready ::
  "'s manager_env \<Rightarrow> u64 \<Rightarrow> eswitch_manager \<Rightarrow> 's \<Rightarrow> 's routed" where
  "replay_pending_ready env now m s =
     Option.bind (replay_round env now m s) (\<lambda>r.
       case r of Inl m1 \<Rightarrow> Some (m1, s) | Inr st \<Rightarrow> replay_pending_ready env now (fst st) (snd st))"

section \<open>One packet\<close>

definition route_ipv4_packet ::
  "'s manager_env \<Rightarrow> bytes \<Rightarrow> u16 \<Rightarrow> u16 \<Rightarrow> u64 \<Rightarrow> eswitch_manager \<Rightarrow> 's \<Rightarrow> 's routed" where
  "route_ipv4_packet env f vs port now m s =
     (let (ok, s1) = me_malloc env s in
      if \<not> ok then Some (count_up Route_tx_drops m, s1)
      else case find (\<lambda>r. rif_attachment r = ROUTER_VSWITCH \<and> rif_vswitch_id r = vs \<and> rif_has_address r \<and>
                       slice f 0 6 = rif_mac r) (cfg_interfaces (mg_config m)) of
        None \<Rightarrow> Some (m, s1)
      | Some ingress \<Rightarrow>
          route_router_ingress_frame env (deliver env now HOP_FUEL) f ingress port 0 now m s1)"

definition route_uplink_ipv4_packet ::
  "'s manager_env \<Rightarrow> bytes \<Rightarrow> router_interface \<Rightarrow> u16 \<Rightarrow> u64 \<Rightarrow> eswitch_manager \<Rightarrow> 's \<Rightarrow> 's routed" where
  "route_uplink_ipv4_packet env f ingress port now m s =
     (let (ok, s1) = me_malloc env s in
      if \<not> ok then Some (count_up Route_tx_drops m, s1)
      else route_router_ingress_frame env (deliver env now HOP_FUEL) f ingress port 0 now m s1)"

type_synonym 's processed = "(doca_error \<times> eswitch_manager \<times> 's) option"

text \<open>An ARP packet on an uplink: learn, replay, synchronise, reply.\<close>

definition process_uplink_arp ::
  "'s manager_env \<Rightarrow> bytes \<Rightarrow> router_interface \<Rightarrow> u16 \<Rightarrow> u64 \<Rightarrow> eswitch_manager \<Rightarrow> 's \<Rightarrow> 's processed" where
  "process_uplink_arp env f uplink port now m s =
     (let arp = pktmbuf_read f 42;
          (nt, changed) = (case arp of None \<Rightarrow> (mg_neighbors m, False)
            | Some p \<Rightarrow> router_neighbor_learn_arp_interface (mg_neighbors m) (mg_config m)
                          (rif_interface_id uplink) port p now);
          m1 = m\<lparr>mg_neighbors := nt\<rparr>;
          (r, m2, s2) = (if changed then ct_flush env m1 0 s else (DOCA_SUCCESS, m1, s)) in
      if r \<noteq> DOCA_SUCCESS then Some (r, m2, s2)
      else Option.bind (if arp = None then Some (m2, s2) else replay_pending_ready env now m2 s2) (\<lambda>(m3, s3).
        let (m4, s4) = (if changed then snd (eswitch_manager_hw_routes_sync env m3 (mg_router m3) True s3)
                        else (m3, s3));
            (m5, s5) = reply_uplink_arp env m4 f uplink port now s4 in
        Some (DOCA_SUCCESS, m5, s5)))"

definition learn_source ::
  "'s manager_env \<Rightarrow> u16 \<Rightarrow> mac \<Rightarrow> u16 \<Rightarrow> u64 \<Rightarrow> eswitch_manager \<Rightarrow> 's \<Rightarrow> doca_error \<times> eswitch_manager \<times> 's" where
  "learn_source env vs source port now m s =
     (let fdb = mg_fdb m;
          fresh = (fdb_pipeline fdb \<and> vs \<noteq> 0 \<and> rte_is_valid_assigned_ether_addr source \<and>
            fdb_find_entry fdb (vs, 0, source) = None \<and> fdb_count fdb < fdb_capacity fdb);
          (ok, s1) = (if fresh then me_malloc env s else (True, s));
          (r, fdb', s2) = eswitch_fdb_learn (me_flow env) fdb vs 0 source port now ok s1 in
      (r, m\<lparr>mg_fdb := fdb'\<rparr>, s2))"

text \<open>An ARP packet on a switch: learn, reply, replay, synchronise.\<close>

definition process_switch_arp ::
  "'s manager_env \<Rightarrow> bytes \<Rightarrow> u16 \<Rightarrow> u16 \<Rightarrow> u64 \<Rightarrow> eswitch_manager \<Rightarrow> 's \<Rightarrow> 's processed" where
  "process_switch_arp env f vs port now m s =
     (let arp = pktmbuf_read f 42;
          (nt, changed) = (case arp of None \<Rightarrow> (mg_neighbors m, False)
            | Some p \<Rightarrow> router_neighbor_learn_arp (mg_neighbors m) (mg_config m) vs port p now);
          m1 = m\<lparr>mg_neighbors := nt\<rparr>;
          (r, m2, s2) = (if changed then ct_flush env m1 0 s else (DOCA_SUCCESS, m1, s)) in
      if r \<noteq> DOCA_SUCCESS then Some (r, m2, s2)
      else let (reply, m3, s3) = reply_gateway_arp env m2 f vs port now s2 in
      Option.bind (if arp = None then Some (m3, s3) else replay_pending_ready env now m3 s3) (\<lambda>(m4, s4).
        let (m5, s5) = (if (changed \<or> reply = DOCA_SUCCESS) \<and> (reply = DOCA_SUCCESS \<or> reply = DOCA_ERROR_NOT_FOUND)
                        then snd (eswitch_manager_hw_routes_sync env m4 (mg_router m4) True s4)
                        else (m4, s4)) in
        Some (DOCA_SUCCESS, m5, s5)))"

definition process_switch_packet ::
  "'s manager_env \<Rightarrow> bytes \<Rightarrow> u16 \<Rightarrow> u16 \<Rightarrow> u64 \<Rightarrow> eswitch_manager \<Rightarrow> 's \<Rightarrow> 's processed" where
  "process_switch_packet env f vs port now m s =
     (if list_ex (\<lambda>r. rif_attachment r = ROUTER_VSWITCH \<and> rif_vswitch_id r = vs \<and> slice f 6 6 = rif_mac r)
           (cfg_interfaces (mg_config m)) then Some (DOCA_SUCCESS, m, s)
      else let (r, m1, s1) = learn_source env vs (slice f 6 6) port now m s in
      if r \<noteq> DOCA_SUCCESS then Some (r, m1, s1)
      else if read16 f 12 = 0x0806 then process_switch_arp env f vs port now m1 s1
      else if read16 f 12 = 0x0800 then
        map_option (\<lambda>(m2, s2). (DOCA_SUCCESS, m2, s2)) (route_ipv4_packet env f vs port now m1 s1)
      else Some (DOCA_SUCCESS, m1, s1))"

definition process_packet ::
  "'s manager_env \<Rightarrow> u32 \<times> bytes \<Rightarrow> u64 \<Rightarrow> eswitch_manager \<Rightarrow> 's \<Rightarrow> 's processed" where
  "process_packet env packet now m s =
     (let (domain, port) = eswitch_metadata_decode (fst packet); f = snd packet;
          member = eswitch_port_in_vswitch m domain port;
          known = find_port_index m port \<noteq> None;
          uplink = (if known \<and> \<not> member then find_router_port_interface m port domain else None) in
      if domain = 0 \<or> \<not> known \<or> (\<not> member \<and> uplink = None) then Some (DOCA_SUCCESS, m, s)
      else if length f < 14 then Some (DOCA_ERROR_INVALID_VALUE, m, s)
      else if read16 f 12 = 0x8100 \<or> read16 f 12 = 0x88A8 then Some (DOCA_SUCCESS, m, s)
      else case uplink of
        Some rif \<Rightarrow>
          if read16 f 12 = 0x0806 then process_uplink_arp env f rif port now m s
          else if read16 f 12 = 0x0800 then
            map_option (\<lambda>(m1, s1). (DOCA_SUCCESS, m1, s1)) (route_uplink_ipv4_packet env f rif port now m s)
          else Some (DOCA_SUCCESS, m, s)
      | None \<Rightarrow> process_switch_packet env f domain port now m s)"

section \<open>Bursts and maintenance\<close>

text \<open>A burst stops at the first packet that fails; the rest of it is freed unprocessed.\<close>

fun process_burst ::
  "'s manager_env \<Rightarrow> (u32 \<times> bytes) list \<Rightarrow> u64 \<Rightarrow> eswitch_manager \<Rightarrow> 's \<Rightarrow> 's processed" where
  "process_burst env [] now m s = Some (DOCA_SUCCESS, m, s)"
| "process_burst env (p # ps) now m s =
     Option.bind (process_packet env p now m s) (\<lambda>(r, m1, s1).
       if r \<noteq> DOCA_SUCCESS then Some (r, m1, s1) else process_burst env ps now m1 s1)"

text \<open>\<open>received\<close> is what \<open>rte_eth_rx_burst\<close> returned; the second result is \<open>did_work\<close>.\<close>

definition eswitch_manager_poll_packets ::
  "'s manager_env \<Rightarrow> (u32 \<times> bytes) list \<Rightarrow> eswitch_manager \<Rightarrow> 's \<Rightarrow> (bool \<times> doca_error \<times> eswitch_manager \<times> 's) option" where
  "eswitch_manager_poll_packets env received m s =
     (if \<not> mg_initialized m then Some (False, DOCA_ERROR_INVALID_VALUE, m, s)
      else let (now, s1) = me_clock env s in
      map_option (Pair (received \<noteq> [])) (process_burst env received now m s1))"

text \<open>Ageing the pending queue, the neighbors and the sessions, and pruning what hardware holds of them.\<close>

definition age_tables :: "'s manager_env \<Rightarrow> u64 \<Rightarrow> eswitch_manager \<Rightarrow> 's \<Rightarrow> 's routed" where
  "age_tables env now m s =
     (let (q, expired) = router_pending_expire (mg_pending m) now;
          (_, marks, s1) = me_ct_expire env now s;
          s2 = snd (me_acl_reply_prune env s1);
          s3 = snd (me_authorized_prune env now s2) in
      map_option (\<lambda>t. (m\<lparr>mg_pending := q,
          mg_counters := (mg_counters m)(Route_tx_drops := mg_counters m Route_tx_drops + of_nat expired),
          mg_neighbors := router_neighbor_age (mg_neighbors m) now, mg_nat := t\<rparr>, s3))
        (router_nat_age (apply_marks marks (mg_nat m)) now))"

definition eswitch_manager_maintenance ::
  "'s manager_env \<Rightarrow> eswitch_manager \<Rightarrow> 's \<Rightarrow> 's processed" where
  "eswitch_manager_maintenance env m s =
     (if \<not> mg_initialized m then Some (DOCA_ERROR_INVALID_VALUE, m, s)
      else let (now, s0) = me_clock env s in
      if now < mg_next_aging_ns m then Some (DOCA_SUCCESS, m, s0)
      else Option.bind
        (age_tables env now (m\<lparr>mg_next_aging_ns := now + SWITCH_AGING_SCAN_SECONDS * 1000000000\<rparr>) s0)
        (\<lambda>(m1, s1).
          let (m2, s2) = probe_configured_next_hops env m1 (mg_config m1) now s1;
              (m3, s3) = snd (eswitch_manager_hw_routes_sync env m2 (mg_router m2) True s2);
              (r, fdb, s4) = eswitch_fdb_age (me_flow env) (mg_fdb m3) now s3 in
          Some (r, m3\<lparr>mg_fdb := fdb\<rparr>, s4)))"

end
