(* ===== verification/Packet_Inv.thy ===== *)
theory Packet_Inv
  imports Packet_Loop
begin

text \<open>
  What a routed frame may do to the manager.  The locale \<open>packet_relation\<close> collects the state
  changes the packet path is built from; a preorder that allows them is kept by every step of the
  path, and the path always returns.
\<close>

section \<open>Results of a step\<close>

definition yields :: "(eswitch_manager \<Rightarrow> bool) \<Rightarrow> 's routed \<Rightarrow> bool" where
  "yields P x \<longleftrightarrow> (\<exists>m s. x = Some (m, s) \<and> P m)"

lemma yields_Some [simp]: "yields P (Some (m, s)) = P m"
  by (simp add: yields_def)

lemma yields_pair: "P (fst x) \<Longrightarrow> yields P (Some x)"
  by (cases x) simp

lemma yields_mono: "yields P x \<Longrightarrow> (\<And>m. P m \<Longrightarrow> Q m) \<Longrightarrow> yields Q x"
  by (auto simp: yields_def)

lemma yields_map: "yields P x \<Longrightarrow> (\<And>m. P m \<Longrightarrow> Q (g m)) \<Longrightarrow> yields Q (map_option (\<lambda>(m, s). (g m, s)) x)"
  by (auto simp: yields_def)

fun call_hops :: "delivery \<Rightarrow> u8" where
  "call_hops (Arm_frame f i p h e) = h"
| "call_hops (Router_ingress f i p h) = h"

text \<open>Frames are only held under a next hop without a usable neighbor.\<close>

definition unusable :: "eswitch_manager \<Rightarrow> u64 \<Rightarrow> neighbor_key \<Rightarrow> bool" where
  "unusable m now k \<longleftrightarrow>
     (case router_neighbor_lookup (mg_neighbors m) k now of
        None \<Rightarrow> True
      | Some nb \<Rightarrow> \<exists>e. find_router_interface m (fst k) (fst (snd k)) = Some e \<and> \<not> validate_route_neighbor m e nb)"

lemma counted_fields [simp]:
  "mg_config (count_up k m) = mg_config m" "mg_neighbors (count_up k m) = mg_neighbors m"
  "mg_pending (count_up k m) = mg_pending m" "mg_nat (count_up k m) = mg_nat m"
  "mg_ports (count_up k m) = mg_ports m" "mg_memberships (count_up k m) = mg_memberships m"
  "mg_router (count_up k m) = mg_router m" "mg_fdb (count_up k m) = mg_fdb m"
  "mg_initialized (count_up k m) = mg_initialized m"
  by (simp_all add: count_up_def mg_config_def)

lemma validate_cong:
  "mg_ports m' = mg_ports m \<Longrightarrow> mg_memberships m' = mg_memberships m \<Longrightarrow>
   validate_route_neighbor m' e nb = validate_route_neighbor m e nb"
  by (simp add: validate_route_neighbor_def find_port_index_def eswitch_port_in_vswitch_def
      find_membership_def find_router_interface_port_index_def cong: option.case_cong if_cong)

lemma interface_cong: "mg_router m' = mg_router m \<Longrightarrow> find_router_interface m' = find_router_interface m"
  by (rule ext)+ (simp add: find_router_interface_def manager_interfaces_def)

lemma unusable_counted [simp]: "unusable (count_up k m) now key = unusable m now key"
proof -
  have "validate_route_neighbor (count_up k m) = validate_route_neighbor m"
    by (intro ext validate_cong) simp_all
  moreover have "find_router_interface (count_up k m) = find_router_interface m"
    by (rule interface_cong) simp
  ultimately show ?thesis by (simp add: unusable_def split: option.split)
qed

section \<open>The contract of the packet path\<close>

locale packet_relation =
  fixes I :: "eswitch_manager \<Rightarrow> bool" and R :: "eswitch_manager \<Rightarrow> eswitch_manager \<Rightarrow> bool" and now :: u64
  assumes R_refl: "R m m"
    and R_trans: "R m m1 \<Longrightarrow> R m1 m2 \<Longrightarrow> R m m2"
    and I_R: "I m \<Longrightarrow> R m m' \<Longrightarrow> I m'"
    and I_nat: "I m \<Longrightarrow> nat_wf (mg_nat m)"
    and R_count: "R m (m\<lparr>mg_counters := c\<rparr>)"
    and R_window: "R m (m\<lparr>mg_arp_window_ns := w, mg_arp_window_replies := n\<rparr>)"
    and R_retry: "R m (m\<lparr>mg_next_hw_route_retry_ns := w, mg_hw_route_retry_backoff_ns := b\<rparr>)"
    and R_nat: "I m \<Longrightarrow> nat_wf t \<Longrightarrow> R m (m\<lparr>mg_nat := t\<rparr>)"
    and R_probe: "I m \<Longrightarrow>
      R m (m\<lparr>mg_neighbors := fst (router_neighbor_should_probe (mg_neighbors m) k now)\<rparr>)"
    and R_hold: "I m \<Longrightarrow> unusable m now k \<Longrightarrow>
      R m (m\<lparr>mg_pending := fst (router_pending_enqueue (mg_pending m) ok k i p h e f now)\<rparr>)"
begin

lemma count: "R m (count_up k m)"
  by (simp add: count_up_def R_count)

lemma count_step: "R m m1 \<Longrightarrow> R m (count_up k m1)"
  by (erule R_trans) (rule count)

lemma count_on: "I m \<Longrightarrow> I (count_up k m)"
  by (erule I_R) (rule count)

lemma after: "R m m1 \<Longrightarrow> yields (R m1) x \<Longrightarrow> yields (R m) x"
  by (erule yields_mono) (rule R_trans)

lemmas steps = R_refl count_step

subsection \<open>Probes and ARP\<close>

lemma probe_R: "I m \<Longrightarrow> R m (fst (snd (send_route_neighbor_probe env m egress target now s)))"
  using R_probe [of m "(rif_vr_id egress, rif_interface_id egress, target)"]
  by (auto simp: send_route_neighbor_probe_def Let_def count_step split: prod.splits option.splits)

lemma probe_routes_R: "I m \<Longrightarrow> R m (fst (probe_routes env m rts now s))"
proof (induction rts arbitrary: m s)
  case (Cons rt rts)
  have next_hop: "R m (fst (probe_routes env (if a then count_up k m1 else m1) rts now s1))"
    if "send_route_neighbor_probe env m egress (rt_gateway rt) now s = (a, m1, s1)" for egress a k m1 s1
  proof -
    have m1: "R m m1" using probe_R [OF Cons.prems, of env egress "rt_gateway rt" s] that by simp
      then have "R m (if a then count_up k m1 else m1)" by (simp add: count_step)
    with I_R [OF Cons.prems this] Cons.IH show ?thesis by (blast intro: R_trans)
  qed
  show ?case
    using Cons.IH [OF Cons.prems] next_hop
    by (auto split: option.splits prod.splits)
qed (simp add: R_refl)

lemma window_R: "R m (arp_window t m)"
  using R_window [of m 0 t] by (simp add: arp_window_def R_refl)

lemma replies_R: "R m m1 \<Longrightarrow> R m (m1\<lparr>mg_arp_window_replies := n\<rparr>)"
  using R_window [of m1 n "mg_arp_window_ns m1"] by (auto elim: R_trans)

lemma window_step: "R m m1 \<Longrightarrow> R m (arp_window t m1)"
  by (erule R_trans) (rule window_R)

lemmas arp_steps = steps window_step replies_R

lemma gateway_arp_R: "R m (fst (snd (reply_gateway_arp env m f vs port t s)))"
  unfolding reply_gateway_arp_def Let_def
  by (intro arp_steps | simp split: option.split prod.split if_split add: arp_steps)+

lemma uplink_arp_R: "R m (fst (reply_uplink_arp env m f i port t s))"
  unfolding reply_uplink_arp_def Let_def
  by (simp split: option.split prod.split if_split add: arp_steps)

lemma routes_sync_R: "R m (fst (snd (eswitch_manager_hw_routes_sync env m c a s)))"
proof -
  have "R m (m\<lparr>mg_hw_route_retry_backoff_ns := b, mg_next_hw_route_retry_ns := w\<rparr>)" for b w
    using R_retry [of m b w] by (cases m) simp
  moreover have "R m (m\<lparr>mg_next_hw_route_retry_ns := 0, mg_hw_route_retry_backoff_ns := 0\<rparr>)"
    using R_retry [of m 0 0] by simp
  ultimately show ?thesis
    by (simp add: eswitch_manager_hw_routes_sync_def Let_def R_refl split: option.split prod.split)
qed

subsection \<open>Routing\<close>

text \<open>Every further call, with one more hop, returns.\<close>

definition onwards :: "'s onward \<Rightarrow> u8 \<Rightarrow> bool" where
  "onwards again h \<longleftrightarrow>
     (\<forall>call m s. h < 8 \<longrightarrow> call_hops call = h + 1 \<longrightarrow> I m \<longrightarrow> yields (R m) (again call m s))"

lemma onwardsD:
  "onwards again h \<Longrightarrow> \<not> ROUTER_LINK_MAX_HOPS \<le> h \<Longrightarrow> call_hops call = h + 1 \<Longrightarrow> I m \<Longrightarrow> R m0 m \<Longrightarrow>
   yields (R m0) (again call m s)"
  by (rule after) (auto simp: onwards_def ROUTER_LINK_MAX_HOPS_def not_le)

lemma onwards_counted:
  "onwards again h \<Longrightarrow> \<not> ROUTER_LINK_MAX_HOPS \<le> h \<Longrightarrow> call_hops call = h + 1 \<Longrightarrow> I m \<Longrightarrow> R m0 m \<Longrightarrow>
   (\<And>m'. R m0 m' \<Longrightarrow> R m0 (g m')) \<Longrightarrow>
   yields (R m0) (map_option (\<lambda>(m, s). (g m, s)) (again call m s))"
  by (rule yields_map) (rule onwardsD)

lemma across_link_R:
  assumes a: "onwards again h" and i: "I m"
  shows "yields (R m) (route_across_link env again f e nh h m s)"
  by (auto simp: route_across_link_def Let_def steps split: option.split prod.split
      intro!: onwards_counted [OF a] steps i)

lemma local_reply_R:
  assumes a: "onwards again h" and i: "I m"
  shows "yields (R m) (route_arm_local_reply env again f e p h m s)"
  by (auto simp: route_arm_local_reply_def Let_def steps split: option.split prod.split
      intro!: onwards_counted [OF a] steps count_on i)

lemma gate_R:
  assumes i: "I m"
  shows "\<exists>v m1. egress_gate m e f = Some (v, m1) \<and> R m m1"
  using forward_reply_aux [OF I_nat [OF count_on [OF i]]]
  by (simp add: egress_gate_def Let_def steps)

lemma probe_step:
  "I m \<Longrightarrow> R m m1 \<Longrightarrow> R m (fst (snd (send_route_neighbor_probe env m1 e t now s)))"
  by (rule R_trans [OF _ probe_R [OF I_R]])

lemma hold_R:
  assumes i: "I m" and u: "unusable m now (d_vr_id d, d_egress_interface_id d, d_next_hop_ip d)"
  shows "R m (fst (hold_frame env d e f g p h x now m s))"
proof -
  let ?k = "(d_vr_id d, d_egress_interface_id d, d_next_hop_ip d)"
  let ?m = "count_up Route_neighbor_misses m"
  have q: "R m (?m\<lparr>mg_pending := fst (router_pending_enqueue (mg_pending ?m) ok ?k j p h x f now)\<rparr>)"
    for ok j
    by (rule R_trans [OF count R_hold [OF count_on [OF i]]]) (simp add: u)
  have *: "R m (fst (snd (send_route_neighbor_probe env (if st then m2 else count_up Route_tx_drops m2)
      e t now s1)))" if "R m m2" for st m2 t s1
    using that by (intro probe_step [OF i]) (simp add: steps)
  show ?thesis
    unfolding hold_frame_def case_prod_beta Let_def fst_conv
    by (rule *) (rule q)
qed

lemma translate_R:
  assumes i: "I m"
  shows "\<exists>y m1 s1. translate_egress env d e f g p now m s = Some (y, m1, s1) \<and> R m m1"
proof -
  define policy where "policy = (case router_nat_policy_find (mg_config m) (d_vr_id d) of
     None \<Rightarrow> None | Some p \<Rightarrow> if np_interface_id p = rif_interface_id e then Some p else None)"
  obtain t r x where o: "router_nat_outbound (mg_nat m) policy
      (case policy of None \<Rightarrow> 0 | Some p \<Rightarrow> router_nat_policy_address (mg_config m) p)
      (inside_of d g p f) f now (frame_capacity f) = Some (t, r, x)" "nat_wf t"
    using outbound_wf [OF I_nat [OF i]] by blast
  have R: "R m (m\<lparr>mg_nat := t\<rparr>)" by (rule R_nat [OF i o(2)])
  show ?thesis
    unfolding translate_egress_def policy_def [symmetric] Let_def
    using R by (cases "x") (auto simp: o(1) steps split: prod.split)
qed

lemma apply_marks_wf: "nat_wf t \<Longrightarrow> nat_wf (apply_marks marks t)"
  unfolding apply_marks_def
  by (induction marks arbitrary: t) (auto simp: hardware_wf)

lemma marks_R: "I m \<Longrightarrow> R m (m\<lparr>mg_nat := apply_marks marks (mg_nat m)\<rparr>)"
  by (intro R_nat apply_marks_wf I_nat)

lemma promote_R: "I m \<Longrightarrow> R m (fst (promote_session env v d e nb f g p ss m s))"
  by (simp add: promote_session_def Let_def steps marks_R split: option.split prod.split)

lemma send_R:
  assumes i: "I m"
  shows "R m (fst (send_to_neighbor env v d e nb out f g p ss now m s))"
proof -
  have "R m (fst (promote_session env v' d e nb f g p ss' (count_up k m) s'))" for v' ss' k s'
    by (rule R_trans [OF count promote_R [OF count_on [OF i]]])
  then show ?thesis by (simp add: send_to_neighbor_def Let_def steps split: prod.split)
qed

lemma forward_R:
  assumes a: "onwards again h" and i: "I m"
  shows "yields (R m) (forward_frame env again v d e tgt f g p h now m s)"
proof -
  obtain y m1 s1 where t: "translate_egress env d e f g p now m s = Some (y, m1, s1)" "R m m1"
    using translate_R [OF i, of env d e f g p s] by blast
  have i1: "I m1" by (rule I_R [OF i t(2)])
  note on = onwardsD [OF a _ _ count_on [OF count_on [OF i1]] count_step [OF count_step [OF t(2)]]]
  have sent: "R m (fst (send_to_neighbor env v d e nb out f g p ss now m1 s2))" for nb out ss s2
    by (rule R_trans [OF t(2) send_R [OF i1]])
  show ?thesis
  proof (cases y)
    case None
    with t show ?thesis by (simp add: forward_frame_def)
  next
    case (Some z)
    with t show ?thesis
      by (auto simp: forward_frame_def Let_def steps split: option.split prod.split target.split
          intro!: on sent yields_pair)
  qed
qed

lemma found_id:
  "find_router_interface m vr j = Some e \<Longrightarrow> rif_vr_id e = vr \<and> rif_interface_id e = j"
  by (auto simp: find_router_interface_def find_Some_iff)

lemma decided_R:
  assumes a: "onwards again h" and i: "I m"
  shows "yields (R m) (route_decided env again v d f g p h x now m s)"
proof (cases "find_router_interface m (d_vr_id d) (d_egress_interface_id d)")
  case None
  then show ?thesis by (simp add: route_decided_def steps)
next
  case (Some e)
  let ?k = "(d_vr_id d, d_egress_interface_id d, d_next_hop_ip d)"
  have held: "unusable m now ?k \<Longrightarrow> yields (R m) (Some (hold_frame env d e f g p h x now m s))"
    by (rule yields_pair) (rule hold_R [OF i])
  have "yields (R m) (case router_neighbor_lookup (mg_neighbors m) ?k now of
      None \<Rightarrow> Some (hold_frame env d e f g p h x now m s)
    | Some nb \<Rightarrow> if \<not> validate_route_neighbor m e nb then Some (hold_frame env d e f g p h x now m s)
        else forward_frame env again v d e (Next_hop nb) f g p h now m s)"
  proof (cases "router_neighbor_lookup (mg_neighbors m) ?k now")
    case None
    then have "unusable m now ?k" by (simp add: unusable_def)
    from held [OF this] None show ?thesis by simp
  next
    case l: (Some nb)
    show ?thesis
    proof (cases "validate_route_neighbor m e nb")
      case True
      with l forward_R [OF a i] show ?thesis by simp
    next
      case False
      with l Some have "unusable m now ?k" by (simp add: unusable_def)
      from held [OF this] l False show ?thesis by simp
    qed
  qed
  with Some forward_R [OF a i] across_link_R [OF a i] show ?thesis
    by (auto simp: route_decided_def steps split: option.split)
qed

lemma arm_R:
  assumes a: "onwards again h" and i: "I m"
  shows "yields (R m) (route_arm_frame env again f g p h x now m s)"
proof -
  obtain v m0 where gate: "egress_gate m g f = Some (v, m0)" "R m m0" using gate_R [OF i] by blast
  have i0: "I m0" by (rule I_R [OF i gate(2)])
  have local: "yields (R m) (route_arm_local_reply env again f g p h m0 s)"
    by (rule after [OF gate(2) local_reply_R [OF a i0]])
  have decided: "yields (R m) (route_decided env again v d f g p h x now (count_up Routed_seen m0) s)" for d
    by (rule after [OF count_step [OF gate(2)] decided_R [OF a count_on [OF i0]]])
  obtain disp d where l: "router_ipv4_lookup_interface (mg_config m0) (rif_interface_id g) f = (disp, d)"
    by (cases "router_ipv4_lookup_interface (mg_config m0) (rif_interface_id g) f")
  show ?thesis
    using gate(2) local decided [of d]
    by (simp add: route_arm_frame_def gate(1) l Let_def count_step)
qed

subsection \<open>Entering a router interface\<close>

lemma arm_step:
  "onwards again h \<Longrightarrow> I m \<Longrightarrow> R m m1 \<Longrightarrow> yields (R m) (route_arm_frame env again f g p h x now m1 s)"
  by (rule after) (auto intro: arm_R I_R)

lemma ingress_firewall_R: "R m (snd (ingress_firewall_allowed m g f))"
  by (simp add: ingress_firewall_allowed_def Let_def steps)

lemma missed_R:
  assumes a: "onwards again h" and i: "I m"
  shows "yields (R m) (nat_missed env again r f g p h now m s)"
  by (simp add: nat_missed_def steps arm_step [OF a i])

lemma reject_R:
  assumes i: "I m"
  shows "yields (R m) (reject_forward k m s)"
proof -
  obtain t where t: "router_nat_port_forward_reject (mg_nat m) k = Some t" "nat_wf t"
    using reject_wf [OF I_nat [OF i]] by blast
  then show ?thesis by (simp add: reject_forward_def count_step R_nat [OF i])
qed

lemma translated_R:
  assumes a: "onwards again h" and i: "I m"
  shows "yields (R m) (nat_translated env again k q g p h now m s)"
  using reject_R [OF i] arm_step [OF a i]
  by (auto simp: nat_translated_def Let_def R_refl split: prod.split)

lemma nat_ingress_R:
  assumes a: "onwards again h" and i: "I m"
  shows "yields (R m) (route_nat_ingress_frame env again f g p h now m s)"
proof -
  let ?c = "mg_config m" and ?i = "rif_interface_id g"
  obtain t r x where inb: "router_nat_inbound (mg_nat m) (rif_vr_id g) f now (frame_capacity f) = Some (t, r, x)"
    and t: "nat_wf t" using inbound_wf [OF I_nat [OF i]] by blast
  let ?e = "r = ROUTER_NAT_TRANSLATED \<and> (case x of None \<Rightarrow> False | Some (k, _) \<Rightarrow>
      ns_public_interface_id (nat_entries t k) = ?i \<and> \<not> ns_port_forward (nat_entries t k))"
  let ?x = "if ?e then (True, count_up Ingress_established (m\<lparr>mg_nat := t\<rparr>))
      else ingress_firewall_allowed (m\<lparr>mg_nat := t\<rparr>) g f"
  obtain al m2 where g: "?x = (al, m2)" by (cases ?x)
  have m2: "R m m2"
  proof (rule R_trans [OF R_nat [OF i t]])
    show "R (m\<lparr>mg_nat := t\<rparr>) m2"
      using g ingress_firewall_R [of "m\<lparr>mg_nat := t\<rparr>" g f] by (auto simp: count split: if_splits)
  qed
  have i2: "I m2" by (rule I_R [OF i m2])
  let ?y = "if r = ROUTER_NAT_NOT_APPLICABLE \<and> router_port_forward_uses_interface ?c ?i
     then router_nat_port_forward_inbound (mg_nat m2) ?c (rif_vr_id g) ?i f now (frame_capacity f)
     else Some (mg_nat m2, r, x)"
  have "\<exists>t2 r2 x2. ?y = Some (t2, r2, x2) \<and> nat_wf t2"
  proof (cases "r = ROUTER_NAT_NOT_APPLICABLE \<and> router_port_forward_uses_interface ?c ?i")
    case True
    then show ?thesis
      using port_forward_wf [OF I_nat [OF i2], of ?c "rif_vr_id g" ?i f now "frame_capacity f"] by simp
  next
    case False
    then show ?thesis using I_nat [OF i2] by auto
  qed
  then obtain t2 r2 x2 where y: "?y = Some (t2, r2, x2)" and t2: "nat_wf t2" by blast
  have m3: "R m (m2\<lparr>mg_nat := t2\<rparr>)" by (rule R_trans [OF m2 R_nat [OF i2 t2]])
  have i3: "I (m2\<lparr>mg_nat := t2\<rparr>)" by (rule I_R [OF i m3])
  have rest: "yields (R m) (let m3 = m2\<lparr>mg_nat := t2\<rparr> in
      if r2 \<noteq> ROUTER_NAT_TRANSLATED then nat_missed env again r2 f g p h now m3 s1
      else case x2 of
        None \<Rightarrow> Some (m3, s1)
      | Some (k, q) \<Rightarrow>
          if ns_public_interface_id (nat_entries t2 k) \<noteq> ?i then Some (count_up Nat_fail_closed_drops m3, s1)
          else nat_translated env again k q g p h now m3 s1)" for s1
    using m3 after [OF m3 missed_R [OF a i3]] after [OF m3 translated_R [OF a i3]]
    by (auto simp: Let_def count_step split: option.split prod.split)
  show ?thesis
    unfolding route_nat_ingress_frame_def
    by (cases "me_malloc env s")
      (simp only: Let_def inb option.case prod.case g y yields_Some steps m2 if_split de_Morgan_conj
        not_not simp_thms, intro impI, rule rest [unfolded Let_def if_split not_not])
qed

lemma ingress_R:
  assumes a: "onwards again h" and i: "I m"
  shows "yields (R m) (route_router_ingress_frame env again f g p h now m s)"
  using nat_ingress_R [OF a i] ingress_firewall_R [of m g f] arm_step [OF a i]
  by (auto simp: route_router_ingress_frame_def Let_def split: prod.split)

lemma deliver_R:
  "call_hops call \<le> 8 \<Longrightarrow> 8 < unat (call_hops call) + n \<Longrightarrow> I m \<Longrightarrow> yields (R m) (deliver env now n call m s)"
proof (induction n arbitrary: call m s)
  case 0
  then show ?case by (simp add: word_le_nat_alt)
next
  case (Suc n)
  have "onwards (deliver env now n) (call_hops call)"
    unfolding onwards_def
  proof (intro allI impI)
    fix c m s assume h: "call_hops call < 8" "call_hops c = call_hops call + 1" and "I m"
    then have "unat (call_hops c) = Suc (unat (call_hops call))" "call_hops c \<le> 8"
      by (simp_all add: unat_word_ariths word_less_nat_alt word_le_nat_alt)
    with Suc.IH Suc.prems \<open>I m\<close> show "yields (R m) (deliver env now n c m s)" by simp
  qed
  then show ?case using Suc.prems(3) by (cases call) (simp_all add: arm_R ingress_R)
qed

lemma onwards_deliver: "onwards (deliver env now HOP_FUEL) h"
  unfolding onwards_def
proof (intro allI impI)
  fix c m s assume h: "h < 8" "call_hops c = h + 1" and i: "I m"
  then have "unat (call_hops c) = Suc (unat h)" "call_hops c \<le> 8"
    by (simp_all add: unat_word_ariths word_less_nat_alt word_le_nat_alt)
  with i show "yields (R m) (deliver env now HOP_FUEL c m s)" by (simp add: deliver_R HOP_FUEL_def)
qed

end

end
