(* ===== verification/Packet_Run.thy ===== *)
theory Packet_Run
  imports Packet_Inv Manager_Persist_Props Router_Command
begin

text \<open>
  The packet loop as a whole: the interpretation of \<open>packet_relation\<close> on the model's own states,
  the termination of the replay of held frames, and the invariant of any run of packets and
  maintenance.
\<close>

section \<open>Resolved neighbors\<close>

definition resolved_ok :: "(router_neighbor \<Rightarrow> bool) \<Rightarrow> router_neighbor_table \<Rightarrow> bool" where
  "resolved_ok Q t \<longleftrightarrow>
     (\<forall>i<ROUTER_MAX_NEIGHBORS. nb_used (nt_entries t i) \<and> nb_resolved (nt_entries t i) \<longrightarrow> Q (nt_entries t i))"

text \<open>A condition that does not look at the times of an entry.\<close>

definition timeless :: "(router_neighbor \<Rightarrow> bool) \<Rightarrow> bool" where
  "timeless Q \<longleftrightarrow> (\<forall>n p. Q (n\<lparr>nb_last_probe_ns := p\<rparr>) = Q n)"

lemma allocate_entry:
  "allocate_neighbor t k = (t', r) \<Longrightarrow>
   nt_entries t' i = nt_entries t i \<or> \<not> nb_resolved (nt_entries t' i)"
  by (auto simp: allocate_neighbor_def neighbor_zero_def split: option.splits if_splits)

lemma probe_entry:
  assumes "router_neighbor_should_probe t k now = (t', b)"
  shows "\<not> nb_resolved (nt_entries t' i) \<or> (\<exists>p. nt_entries t' i = (nt_entries t i)\<lparr>nb_last_probe_ns := p\<rparr>)"
proof -
  obtain t1 r where a: "allocate_neighbor t k = (t1, r)" by (cases "allocate_neighbor t k")
  have old: "\<exists>p. nt_entries t i = (nt_entries t i)\<lparr>nb_last_probe_ns := p\<rparr>"
    by (rule exI [of _ "nb_last_probe_ns (nt_entries t i)"]) simp
  show ?thesis
    using assms a allocate_entry [OF a, of i] old
    by (auto simp: router_neighbor_should_probe_def Let_def split: if_splits option.splits)
qed

lemma probe_resolved:
  assumes "resolved_ok Q t" "timeless Q"
  shows "resolved_ok Q (fst (router_neighbor_should_probe t k now))"
proof -
  obtain t' b where p: "router_neighbor_should_probe t k now = (t', b)"
    by (cases "router_neighbor_should_probe t k now")
  have "Q (nt_entries t' i)"
    if "i < ROUTER_MAX_NEIGHBORS" "nb_used (nt_entries t' i)" "nb_resolved (nt_entries t' i)" for i
    using probe_entry [OF p, of i] that assms by (auto simp: resolved_ok_def timeless_def)
  then show ?thesis by (simp add: p resolved_ok_def)
qed

lemma probe_lookup:
  assumes "router_neighbor_lookup t q at = None"
  shows "router_neighbor_lookup (fst (router_neighbor_should_probe t k now)) q at = None"
proof -
  obtain t' b where p: "router_neighbor_should_probe t k now = (t', b)"
    by (cases "router_neighbor_should_probe t k now")
  have "\<not> (nb_used (nt_entries t' i) \<and> neighbor_fresh at (nt_entries t' i) \<and> nb_key (nt_entries t' i) = q)"
    if "i < ROUTER_MAX_NEIGHBORS" for i
    using assms that probe_entry [OF p, of i]
    by (auto simp: router_neighbor_lookup_def first_slot_None neighbor_fresh_def nb_key_def)
  then show ?thesis by (simp add: p router_neighbor_lookup_def first_slot_None)
qed

lemma lookup_entry:
  "router_neighbor_lookup t k now = Some n \<Longrightarrow>
   \<exists>i<ROUTER_MAX_NEIGHBORS. n = nt_entries t i \<and> nb_used n \<and> nb_resolved n \<and> nb_key n = k"
  by (auto simp: router_neighbor_lookup_def neighbor_fresh_def dest!: first_slot_SomeD)

lemma learn_resolved:
  assumes r: "resolved_ok Q t"
    and q: "\<And>n. nb_vr_id n = rif_vr_id rif \<Longrightarrow> nb_interface_id n = rif_interface_id rif \<Longrightarrow>
       nb_port_id n = port \<Longrightarrow> Q n"
  shows "resolved_ok Q (fst (learn_on_interface t rif port f now))"
proof -
  let ?k = "(rif_vr_id rif, rif_interface_id rif, read32 f 28)"
  obtain t1 x where a: "allocate_neighbor t ?k = (t1, x)" by (cases "allocate_neighbor t ?k")
  have r1: "resolved_ok Q t1"
    using r allocate_entry [OF a] unfolding resolved_ok_def by metis
  show ?thesis
  proof (cases x)
    case None
    with a r r1 show ?thesis by (simp add: learn_on_interface_def)
  next
    case (Some i)
    obtain n ch where n: "learn_entry port (slice f 22 6) now (nt_entries t1 i) = (n, ch)"
      by (cases "learn_entry port (slice f 22 6) now (nt_entries t1 i)")
    have "nb_key (nt_entries t1 i) = ?k"
      using a Some unfolding allocate_neighbor_def find_neighbor_def
      by (auto simp: nb_key_def split: option.splits dest!: first_slot_SomeD)
    with learn_entry_keeps [OF n] have "Q n" by (intro q) (auto simp: nb_key_def)
    with r r1 a Some n show ?thesis by (auto simp: learn_on_interface_def resolved_ok_def)
  qed
qed

lemma sweep_resolved: "neighbor_wf t \<Longrightarrow> resolved_ok Q t \<Longrightarrow> resolved_ok Q (neighbor_sweep P t)"
  using nbs.sweep_result(1) [of ROUTER_MAX_NEIGHBORS "nt_entries t" "nt_count t" P]
  by (auto simp: neighbor_wf_def neighbor_sweep_def resolved_ok_def neighbor_zero_def)

lemma learn_switch_resolved:
  assumes "resolved_ok Q t"
    and q: "\<And>rif n. rif \<in> set (cfg_interfaces c) \<Longrightarrow> rif_attachment rif = ROUTER_VSWITCH \<Longrightarrow>
       rif_vswitch_id rif = vs \<Longrightarrow> nb_vr_id n = rif_vr_id rif \<Longrightarrow>
       nb_interface_id n = rif_interface_id rif \<Longrightarrow> nb_port_id n = port \<Longrightarrow> Q n"
  shows "resolved_ok Q (fst (router_neighbor_learn_arp t c vs port f now))"
proof -
  have "resolved_ok Q (fst (foldl (\<lambda>(t, changed) rif.
          if rif_attachment rif = ROUTER_VSWITCH \<and> rif_vswitch_id rif = vs \<and>
             rif_has_address rif \<and> rif_address rif = read32 f 38
          then (let (t', ch) = learn_on_interface t rif port f now in (t', changed \<or> ch))
          else (t, changed)) (t, b) rs))"
    if "resolved_ok Q t" "set rs \<subseteq> set (cfg_interfaces c)" for rs t b
    using that
  proof (induction rs arbitrary: t b)
    case (Cons r rs)
    have "rif_attachment r = ROUTER_VSWITCH \<Longrightarrow> rif_vswitch_id r = vs \<Longrightarrow>
        resolved_ok Q (fst (learn_on_interface t r port f now))"
      using Cons.prems q by (intro learn_resolved) auto
    with Cons show ?case by (auto simp: case_prod_beta Let_def)
  qed simp
  from this [of t "cfg_interfaces c"] assms(1) show ?thesis by (simp add: router_neighbor_learn_arp_def)
qed

section \<open>The invariant and the relation\<close>

text \<open>Every resolved neighbor is behind a port its interface still uses.\<close>

definition neighbor_valid :: "eswitch_manager \<Rightarrow> router_neighbor \<Rightarrow> bool" where
  "neighbor_valid m nb \<longleftrightarrow>
     (\<exists>c. mg_router m = Some c \<and> unat (nb_interface_id nb) < unat (cfg_next_interface_id c)) \<and>
     (\<forall>e. find_router_interface m (nb_vr_id nb) (nb_interface_id nb) = Some e \<longrightarrow>
        validate_route_neighbor m e nb)"

definition packet_inv :: "eswitch_manager \<Rightarrow> bool" where
  "packet_inv m \<longleftrightarrow>
     fdb_wf (mg_fdb m) \<and> nat_wf (mg_nat m) \<and> neighbor_wf (mg_neighbors m) \<and> pending_wf (mg_pending m) \<and>
     resolved_ok (neighbor_valid m) (mg_neighbors m)"

text \<open>The tables of the switches, the ports and the router configuration stay as they are.\<close>

definition same_setup :: "eswitch_manager \<Rightarrow> eswitch_manager \<Rightarrow> bool" where
  "same_setup m m' \<longleftrightarrow>
     mg_ports m' = mg_ports m \<and> mg_router m' = mg_router m \<and> mg_switches m' = mg_switches m \<and>
     mg_memberships m' = mg_memberships m \<and> mg_membership_count m' = mg_membership_count m \<and>
     mg_port_owner m' = mg_port_owner m \<and> mg_state_path m' = mg_state_path m \<and>
     mg_initialized m' = mg_initialized m"

definition ready_slots :: "u64 \<Rightarrow> eswitch_manager \<Rightarrow> nat set" where
  "ready_slots now m =
     {i. i < ROUTER_PENDING_MAX_PACKETS \<and> pending_ready m now (pq_entries (mg_pending m) i)}"

definition keeps :: "eswitch_manager \<Rightarrow> eswitch_manager \<Rightarrow> bool" where
  "keeps m m' \<longleftrightarrow> same_setup m m' \<and> (packet_inv m \<longrightarrow> packet_inv m')"

definition routing_step :: "u64 \<Rightarrow> eswitch_manager \<Rightarrow> eswitch_manager \<Rightarrow> bool" where
  "routing_step now m m' \<longleftrightarrow> keeps m m' \<and> mg_fdb m' = mg_fdb m \<and> ready_slots now m' \<subseteq> ready_slots now m"

lemma keeps_refl: "keeps m m"
  by (simp add: keeps_def same_setup_def)

lemma keeps_trans: "keeps m m1 \<Longrightarrow> keeps m1 m2 \<Longrightarrow> keeps m m2"
  by (simp add: keeps_def same_setup_def)

lemma neighbor_valid_same:
  assumes "same_setup m m'"
  shows "neighbor_valid m' = neighbor_valid m"
proof
  fix nb
  have "find_router_interface m' = find_router_interface m"
    using assms by (intro interface_cong) (simp add: same_setup_def)
  moreover have "validate_route_neighbor m' e nb = validate_route_neighbor m e nb" for e
    using assms by (intro validate_cong) (simp_all add: same_setup_def)
  moreover have "mg_router m' = mg_router m" using assms by (simp add: same_setup_def)
  ultimately show "neighbor_valid m' nb = neighbor_valid m nb" by (simp add: neighbor_valid_def)
qed

text \<open>A step that only changes the five tables keeps everything when it keeps their invariants.\<close>

lemma keepsI:
  assumes "same_setup m m'"
    and "packet_inv m \<Longrightarrow> fdb_wf (mg_fdb m')" "packet_inv m \<Longrightarrow> nat_wf (mg_nat m')"
    and "packet_inv m \<Longrightarrow> pending_wf (mg_pending m')" "packet_inv m \<Longrightarrow> neighbor_wf (mg_neighbors m')"
    and "packet_inv m \<Longrightarrow> resolved_ok (neighbor_valid m) (mg_neighbors m')"
  shows "keeps m m'"
  using assms by (simp add: keeps_def packet_inv_def neighbor_valid_same [OF assms(1)])

lemma packet_invD:
  "packet_inv m \<Longrightarrow> fdb_wf (mg_fdb m)" "packet_inv m \<Longrightarrow> nat_wf (mg_nat m)"
  "packet_inv m \<Longrightarrow> pending_wf (mg_pending m)" "packet_inv m \<Longrightarrow> neighbor_wf (mg_neighbors m)"
  "packet_inv m \<Longrightarrow> resolved_ok (neighbor_valid m) (mg_neighbors m)"
  by (simp_all add: packet_inv_def)

lemma timeless_valid: "timeless (neighbor_valid m)"
  by (simp add: timeless_def neighbor_valid_def validate_route_neighbor_def cong: option.case_cong)

lemma ready_mono:
  assumes "mg_pending m' = mg_pending m"
    and "\<And>k. router_neighbor_lookup (mg_neighbors m) k now = None \<Longrightarrow>
       router_neighbor_lookup (mg_neighbors m') k now = None"
  shows "ready_slots now m' \<subseteq> ready_slots now m"
proof
  fix i assume "i \<in> ready_slots now m'"
  then have "i < ROUTER_PENDING_MAX_PACKETS" "pp_used (pq_entries (mg_pending m) i)"
    "router_neighbor_lookup (mg_neighbors m') (pp_key (pq_entries (mg_pending m) i)) now \<noteq> None"
    by (simp_all add: ready_slots_def pending_ready_def assms(1))
  moreover from this(3) have "router_neighbor_lookup (mg_neighbors m) (pp_key (pq_entries (mg_pending m) i)) now \<noteq> None"
    by (rule contrapos_nn) (rule assms(2))
  ultimately show "i \<in> ready_slots now m" by (simp add: ready_slots_def pending_ready_def)
qed

lemma unusable_unresolved:
  assumes i: "packet_inv m" and u: "unusable m now k"
  shows "router_neighbor_lookup (mg_neighbors m) k now = None"
proof (cases "router_neighbor_lookup (mg_neighbors m) k now")
  case (Some nb)
  from lookup_entry [OF this] obtain j where j: "nb = nt_entries (mg_neighbors m) j" "nb_used nb"
    "nb_resolved nb" "nb_key nb = k" "j < ROUTER_MAX_NEIGHBORS" by blast
  then have "neighbor_valid m nb" using packet_invD(5) [OF i] by (simp add: resolved_ok_def)
  with u Some j(4) show ?thesis by (auto simp: unusable_def neighbor_valid_def nb_key_def)
qed simp

lemma enqueue_entry:
  "pq_entries (fst (router_pending_enqueue q ok k i p h e f t)) j = pq_entries q j \<or>
   pp_key (pq_entries (fst (router_pending_enqueue q ok k i p h e f t)) j) = k"
  by (auto simp: router_pending_enqueue_def pp_key_def split: option.split)

lemma held_slots:
  assumes "router_neighbor_lookup (mg_neighbors m) k now = None"
  shows "ready_slots now (m\<lparr>mg_pending := fst (router_pending_enqueue (mg_pending m) ok k i p h e f t)\<rparr>)
    \<subseteq> ready_slots now m"
proof
  fix j assume j: "j \<in> ready_slots now (m\<lparr>mg_pending := fst (router_pending_enqueue (mg_pending m) ok k i p h e f t)\<rparr>)"
  with assms have "pp_key (pq_entries (fst (router_pending_enqueue (mg_pending m) ok k i p h e f t)) j) \<noteq> k"
    by (auto simp: ready_slots_def pending_ready_def)
  then have "pq_entries (fst (router_pending_enqueue (mg_pending m) ok k i p h e f t)) j = pq_entries (mg_pending m) j"
    using enqueue_entry by blast
  with j show "j \<in> ready_slots now m" by (simp add: ready_slots_def pending_ready_def)
qed

interpretation pk: packet_relation packet_inv "routing_step now" now for now
proof unfold_locales
  fix m m1 m2
  show "routing_step now m m" by (simp add: routing_step_def keeps_refl)
  show "routing_step now m m1 \<Longrightarrow> routing_step now m1 m2 \<Longrightarrow> routing_step now m m2"
    by (auto simp: routing_step_def elim: keeps_trans)
  show "packet_inv m \<Longrightarrow> routing_step now m m1 \<Longrightarrow> packet_inv m1"
    by (simp add: routing_step_def keeps_def)
  show "packet_inv m \<Longrightarrow> nat_wf (mg_nat m)" by (rule packet_invD)
  show "routing_step now m (m\<lparr>mg_counters := c\<rparr>)" for c
    unfolding routing_step_def
    by (intro conjI keepsI ready_mono) (simp_all add: same_setup_def packet_invD)
  show "routing_step now m (m\<lparr>mg_arp_window_ns := w, mg_arp_window_replies := n\<rparr>)" for w n
    unfolding routing_step_def
    by (intro conjI keepsI ready_mono) (simp_all add: same_setup_def packet_invD)
  show "routing_step now m (m\<lparr>mg_next_hw_route_retry_ns := w, mg_hw_route_retry_backoff_ns := b\<rparr>)" for w b
    unfolding routing_step_def
    by (intro conjI keepsI ready_mono) (simp_all add: same_setup_def packet_invD)
  show "packet_inv m \<Longrightarrow> nat_wf t \<Longrightarrow> routing_step now m (m\<lparr>mg_nat := t\<rparr>)" for t
    unfolding routing_step_def
    by (intro conjI keepsI ready_mono) (simp_all add: same_setup_def packet_invD)
  show "packet_inv m \<Longrightarrow> routing_step now m
      (m\<lparr>mg_neighbors := fst (router_neighbor_should_probe (mg_neighbors m) k now)\<rparr>)" for k
    unfolding routing_step_def
    by (intro conjI keepsI ready_mono)
      (simp_all add: same_setup_def packet_invD should_probe_wf probe_resolved timeless_valid probe_lookup)
  show "packet_inv m \<Longrightarrow> unusable m now k \<Longrightarrow> routing_step now m
      (m\<lparr>mg_pending := fst (router_pending_enqueue (mg_pending m) ok k i p h e f now)\<rparr>)" for k ok i p h e f
    unfolding routing_step_def
    by (intro conjI keepsI held_slots unusable_unresolved)
      (simp_all add: same_setup_def packet_invD enqueue_wf [OF packet_invD(3) prod.collapse [symmetric]])
qed

section \<open>Replaying held frames\<close>

lemma routing_keeps: "routing_step now m m' \<Longrightarrow> keeps m m'"
  by (simp add: routing_step_def)

lemma take_found:
  assumes i: "first_slot (pending_ready m now) ROUTER_PENDING_MAX_PACKETS (pq_entries (mg_pending m)) = Some i"
    and t: "router_pending_take (mg_pending m) (pp_key (pq_entries (mg_pending m) i)) = (q, x)"
  shows "\<exists>j p. x = Some p \<and> j \<in> ready_slots now m \<and>
    ready_slots now (m\<lparr>mg_pending := q\<rparr>) = ready_slots now m - {j}"
proof -
  let ?k = "pp_key (pq_entries (mg_pending m) i)"
  from first_slot_SomeD [OF i] have iu: "i < ROUTER_PENDING_MAX_PACKETS"
    "same_neighbor ?k (pq_entries (mg_pending m) i)"
    and l: "router_neighbor_lookup (mg_neighbors m) ?k now \<noteq> None"
    by (simp_all add: pending_ready_def same_neighbor_def)
  then obtain j where j: "first_slot (same_neighbor ?k) ROUTER_PENDING_MAX_PACKETS (pq_entries (mg_pending m)) = Some j"
    by (cases "first_slot (same_neighbor ?k) ROUTER_PENDING_MAX_PACKETS (pq_entries (mg_pending m))")
      (auto simp: first_slot_None)
  with first_slot_SomeD [OF j] l have "j \<in> ready_slots now m"
    by (simp add: ready_slots_def pending_ready_def same_neighbor_def)
  moreover have "ready_slots now (m\<lparr>mg_pending := q\<rparr>) = ready_slots now m - {j}"
    using t j pqs.zero_unused by (auto simp: router_pending_take_def ready_slots_def pending_ready_def split: if_splits)
  ultimately show ?thesis using t j by (auto simp: router_pending_take_def)
qed

lemma take_step:
  assumes i: "first_slot (pending_ready m now) ROUTER_PENDING_MAX_PACKETS (pq_entries (mg_pending m)) = Some i"
    and t: "router_pending_take (mg_pending m) (pp_key (pq_entries (mg_pending m) i)) = (q, x)"
  shows "routing_step now m (m\<lparr>mg_pending := q\<rparr>)"
proof -
  have "ready_slots now (m\<lparr>mg_pending := q\<rparr>) \<subseteq> ready_slots now m" using take_found [OF i t] by auto
  then show ?thesis unfolding routing_step_def
    by (intro conjI keepsI) (simp_all add: same_setup_def packet_invD take_wf [OF packet_invD(3) t])
qed

lemma replay_one_R: "packet_inv m \<Longrightarrow> yields (routing_step now m) (replay_one env now p m s)"
  by (simp add: replay_one_def pk.steps pk.arm_R pk.onwards_deliver split: option.split)

text \<open>
  Every round takes a ready frame out, and routing it holds frames only where no usable neighbor
  is known: the ready frames run out.
\<close>

lemma replay_R: "packet_inv m \<Longrightarrow> yields (routing_step now m) (replay_pending_ready env now m s)"
proof (induction "card (ready_slots now m)" arbitrary: m s rule: less_induct)
  case less
  show ?case
  proof (cases "first_slot (pending_ready m now) ROUTER_PENDING_MAX_PACKETS (pq_entries (mg_pending m))")
    case None
    then have "replay_round env now m s = Some (Inl m)" by (simp add: replay_round_def)
    then show ?thesis by (subst replay_pending_ready.simps) (simp add: pk.steps)
  next
    case (Some i)
    obtain q x where t: "router_pending_take (mg_pending m) (pp_key (pq_entries (mg_pending m) i)) = (q, x)"
      by (cases "router_pending_take (mg_pending m) (pp_key (pq_entries (mg_pending m) i))")
    obtain j p where j: "x = Some p" "j \<in> ready_slots now m"
      "ready_slots now (m\<lparr>mg_pending := q\<rparr>) = ready_slots now m - {j}" using take_found [OF Some t] by blast
    let ?m = "m\<lparr>mg_pending := q\<rparr>"
    note t1 = take_step [OF Some t]
    have i1: "packet_inv ?m" by (rule pk.I_R [OF less.prems t1])
    obtain m2 s2 where o: "replay_one env now p ?m s = Some (m2, s2)" "routing_step now ?m m2"
      using replay_one_R [OF i1, of now env p s] by (auto simp: yields_def)
    have rr: "replay_round env now m s = Some (Inr (m2, s2))"
      using Some t j(1) o(1) by (simp add: replay_round_def)
    have fin: "finite (ready_slots now m)" by (simp add: ready_slots_def)
    have "ready_slots now m2 \<subseteq> ready_slots now m - {j}" using o(2) j(3) by (simp add: routing_step_def)
    then have "card (ready_slots now m2) < card (ready_slots now m)"
      using j(2) fin by (intro psubset_card_mono) auto
    moreover have i2: "packet_inv m2" by (rule pk.I_R [OF i1 o(2)])
    ultimately have "yields (routing_step now m2) (replay_pending_ready env now m2 s2)"
      by (rule less.hyps)
    then have "yields (routing_step now m) (replay_pending_ready env now m2 s2)"
      by (rule pk.after [OF pk.R_trans [OF t1 o(2)]])
    then show ?thesis by (subst replay_pending_ready.simps) (simp add: rr)
  qed
qed

section \<open>One packet\<close>

text \<open>
  The set-up packets are processed in: a well-formed configuration is in place, and only the
  representor of a port carries the identity an interface names.
\<close>

definition packet_setup :: "eswitch_manager \<Rightarrow> bool" where
  "packet_setup m \<longleftrightarrow>
     (\<exists>c. mg_router m = Some c \<and> config_wf c) \<and> ports_identified (mg_ports m) \<and>
     (\<forall>p\<in>set (mg_ports m). \<forall>rif\<in>set (manager_interfaces m).
        rif_attachment rif = ROUTER_PORT \<and> rif_port rif = port_identity p \<longrightarrow>
        eth_role p = ETHERNET_PORT_ROLE_REPRESENTOR)"

definition settles :: "eswitch_manager \<Rightarrow> 's processed \<Rightarrow> bool" where
  "settles m x \<longleftrightarrow> (\<exists>r m' s. x = Some (r, m', s) \<and> keeps m m')"

lemma settles_Some [simp]: "settles m (Some (r, m', s)) = keeps m m'"
  by (simp add: settles_def)

lemma settles_pair: "keeps m (fst x) \<Longrightarrow> settles m (Some (r, x))"
  by (cases x) simp

lemma settles_step: "keeps m m1 \<Longrightarrow> settles m1 x \<Longrightarrow> settles m x"
  by (auto simp: settles_def elim: keeps_trans)

lemma settles_bind:
  "yields (routing_step now m) x \<Longrightarrow> (\<And>m1 s1. routing_step now m m1 \<Longrightarrow> settles m1 (g (m1, s1))) \<Longrightarrow>
   settles m (Option.bind x g)"
  by (auto simp: yields_def intro: settles_step routing_keeps)

lemma settles_map:
  "yields (routing_step now m) x \<Longrightarrow> settles m (map_option (\<lambda>(m1, s1). (r, m1, s1)) x)"
  by (auto simp: yields_def intro: routing_keeps)

lemma setup_keeps: "packet_setup m \<Longrightarrow> keeps m m' \<Longrightarrow> packet_setup m'"
  by (simp add: packet_setup_def keeps_def same_setup_def manager_interfaces_def)

lemma flush_keeps: "keeps m (fst (snd (ct_flush env m vr s)))"
  by (auto simp: ct_flush_def Let_def same_setup_def packet_invD pk.apply_marks_wf split: prod.split intro!: keepsI)

lemma found_unique:
  assumes s: "packet_setup m" and rif: "rif \<in> set (manager_interfaces m)"
    and e: "find_router_interface m (rif_vr_id rif) (rif_interface_id rif) = Some e"
  shows "e = rif"
proof -
  have "inj_on rif_interface_id (set (manager_interfaces m))"
    using s by (auto simp: packet_setup_def manager_interfaces_def config_wf_def wf_interfaces_def distinct_map)
  moreover have "e \<in> set (manager_interfaces m)" "rif_interface_id e = rif_interface_id rif"
    using find_SomeD [OF e [unfolded find_router_interface_def]] by simp_all
  ultimately show ?thesis using rif by (auto dest: inj_onD)
qed

lemma learned_valid:
  assumes s: "packet_setup m" and rif: "rif \<in> set (manager_interfaces m)"
    and v: "\<And>nb. nb_port_id nb = port \<Longrightarrow> validate_route_neighbor m rif nb"
    and n: "nb_vr_id n = rif_vr_id rif" "nb_interface_id n = rif_interface_id rif" "nb_port_id n = port"
  shows "neighbor_valid m n"
proof -
  from s obtain c where c: "mg_router m = Some c" "config_wf c" unfolding packet_setup_def by blast
  with rif have "rif_ok (cfg_vr_ids c) (cfg_link_ids c) (cfg_next_interface_id c) rif"
    by (intro config_wf_rif) (simp_all add: manager_interfaces_def)
  with c(1) show ?thesis
    using found_unique [OF s rif] v [OF n(3)] by (auto simp: neighbor_valid_def n rif_ok_def)
qed

lemma uplink_found:
  assumes "find_router_port_interface m port vr = Some rif"
  obtains i where "find_port_index m port = Some i" "i < length (mg_ports m)"
    "rif \<in> set (manager_interfaces m)" "rif_attachment rif = ROUTER_PORT"
    "rif_port rif = port_identity (mg_ports m ! i)"
proof -
  from assms obtain i where i: "find_port_index m port = Some i"
    "find (\<lambda>r. rif_attachment r = ROUTER_PORT \<and> rif_vr_id r = vr \<and>
       rif_port r = port_identity (mg_ports m ! i)) (manager_interfaces m) = Some rif"
    by (auto simp: find_router_port_interface_def split: option.splits)
  moreover have "i < length (mg_ports m)"
    using find_index_Some [of _ "mg_ports m" i] i(1) by (simp add: find_port_index_def)
  ultimately show ?thesis using that find_SomeD [OF i(2)] by blast
qed

lemma uplink_valid:
  assumes s: "packet_setup m" and u: "find_router_port_interface m port vr = Some rif"
    and nb: "nb_port_id nb = port"
  shows "validate_route_neighbor m rif nb"
proof -
  from uplink_found [OF u] obtain i where i: "find_port_index m port = Some i" "i < length (mg_ports m)"
    "rif \<in> set (manager_interfaces m)" "rif_attachment rif = ROUTER_PORT"
    "rif_port rif = port_identity (mg_ports m ! i)" by metis
  have rep: "eth_role (mg_ports m ! i) = ETHERNET_PORT_ROLE_REPRESENTOR"
    using s i nth_mem [OF i(2)] unfolding packet_setup_def by metis
  let ?P = "\<lambda>p. eth_role p = ETHERNET_PORT_ROLE_REPRESENTOR \<and> port_identity p = rif_port rif"
  have "find_index ?P (mg_ports m) \<noteq> None" using i(2,5) rep by (auto simp: find_index_None)
  then obtain k where k: "find_index ?P (mg_ports m) = Some k" by blast
  have "k = i"
    using s find_index_Some [OF k] i(2,5) rep unfolding packet_setup_def ports_identified_def
    by (metis ethernet_port_role.distinct(5))
  with k i(1,4) nb show ?thesis
    by (simp add: validate_route_neighbor_def find_router_interface_port_index_def)
qed

lemma interface_by_id_unique:
  assumes s: "packet_setup m" and c: "mg_router m = Some c" and rif: "rif \<in> set (manager_interfaces m)"
  shows "interface_by_id c (rif_interface_id rif) = Some rif"
proof -
  have "inj_on rif_interface_id (set (cfg_interfaces c))"
    using s c by (auto simp: packet_setup_def config_wf_def wf_interfaces_def distinct_map)
  then show ?thesis
    using rif c unfolding interface_by_id_def
    by (intro find_unique) (auto simp: manager_interfaces_def dest: inj_onD)
qed

lemma neighbors_keep:
  assumes "packet_inv m \<Longrightarrow> neighbor_wf t" "packet_inv m \<Longrightarrow> resolved_ok (neighbor_valid m) t"
  shows "keeps m (m\<lparr>mg_neighbors := t\<rparr>)"
  using assms by (intro keepsI) (simp_all add: same_setup_def packet_invD)

lemma uplink_learn_keeps:
  assumes s: "packet_setup m" and u: "find_router_port_interface m port vr = Some rif"
  shows "keeps m (m\<lparr>mg_neighbors := fst (router_neighbor_learn_arp_interface (mg_neighbors m) (mg_config m)
     (rif_interface_id rif) port f now)\<rparr>)"
proof -
  from s obtain c where c: "mg_router m = Some c" unfolding packet_setup_def by blast
  from uplink_found [OF u] have rif: "rif \<in> set (manager_interfaces m)" by metis
  have l: "router_neighbor_learn_arp_interface (mg_neighbors m) (mg_config m) (rif_interface_id rif) port f now
     = (if rif_interface_id rif = 0 then (mg_neighbors m, False) else learn_on_interface (mg_neighbors m) rif port f now)"
    using interface_by_id_unique [OF s c rif]
    by (simp add: router_neighbor_learn_arp_interface_def mg_config_def c)
  show ?thesis
    unfolding l
    by (rule neighbors_keep)
      (auto simp: packet_invD learn_wf intro!: learn_resolved learned_valid [OF s rif uplink_valid [OF s u]])
qed

lemma switch_learn_keeps:
  assumes s: "packet_setup m" and p: "find_port_index m port \<noteq> None" "eswitch_port_in_vswitch m vs port"
  shows "keeps m (m\<lparr>mg_neighbors := fst (router_neighbor_learn_arp (mg_neighbors m) (mg_config m) vs port f now)\<rparr>)"
proof (rule neighbors_keep)
  from s obtain c where c: "mg_router m = Some c" unfolding packet_setup_def by blast
  assume i: "packet_inv m"
  show "neighbor_wf (fst (router_neighbor_learn_arp (mg_neighbors m) (mg_config m) vs port f now))"
    using neighbor_step_wf [OF packet_invD(4) [OF i], of "Learn_Switch (mg_config m) vs port f now"] by simp
  show "resolved_ok (neighbor_valid m) (fst (router_neighbor_learn_arp (mg_neighbors m) (mg_config m) vs port f now))"
  proof (rule learn_switch_resolved [OF packet_invD(5) [OF i]])
    fix rif and n :: router_neighbor
    assume r: "rif \<in> set (cfg_interfaces (mg_config m))" "rif_attachment rif = ROUTER_VSWITCH"
      "rif_vswitch_id rif = vs" and n: "nb_vr_id n = rif_vr_id rif"
      "nb_interface_id n = rif_interface_id rif" "nb_port_id n = port"
    have rif: "rif \<in> set (manager_interfaces m)" using r(1) c by (simp add: mg_config_def manager_interfaces_def)
    have "validate_route_neighbor m rif nb" if "nb_port_id nb = port" for nb
      using p r that by (auto simp: validate_route_neighbor_def)
    then show "neighbor_valid m n" by (rule learned_valid [OF s rif _ n])
  qed
qed

lemma learn_source_keeps:
  assumes g: "add_gives_entry (me_flow env)"
  shows "keeps m (fst (snd (learn_source env vs source port now m s)))"
proof -
  have "fdb_wf fdb'" if "eswitch_fdb_learn (me_flow env) (mg_fdb m) vs 0 source port now ok s1 = (r, fdb', s2)"
    "packet_inv m" for ok s1 r fdb' s2
    by (rule fdb_learn_wf [OF packet_invD(1) [OF that(2)] g that(1)])
  then show ?thesis
    by (auto simp: learn_source_def Let_def same_setup_def packet_invD split: prod.split intro!: keepsI)
qed

lemma ingress_step:
  "packet_inv m \<Longrightarrow> keeps m0 m \<Longrightarrow>
   settles m0 (map_option (\<lambda>(m1, s1). (r, m1, s1))
     (route_router_ingress_frame env (deliver env now HOP_FUEL) f g p h now m s))"
  by (rule settles_step, assumption) (rule settles_map [OF pk.ingress_R [OF pk.onwards_deliver]])

lemma replayed:
  "packet_inv m \<Longrightarrow> (\<And>m1 s1. keeps m m1 \<Longrightarrow> settles m1 (g (m1, s1))) \<Longrightarrow>
   settles m (Option.bind (if c then Some (m, s) else replay_pending_ready env now m s) g)"
  by (cases c) (auto simp: keeps_refl intro!: settles_bind [OF replay_R] dest: routing_keeps)

lemma synced_keeps: "keeps m (fst (snd (eswitch_manager_hw_routes_sync env m c a s)))"
  by (rule routing_keeps) (rule pk.routes_sync_R)

lemma keeps_step: "keeps m m1 \<Longrightarrow> packet_inv m \<Longrightarrow> packet_inv m1"
  by (simp add: keeps_def)

lemma uplink_arp_settles:
  assumes i: "packet_inv m" and s: "packet_setup m" and u: "find_router_port_interface m port vr = Some rif"
  shows "settles m (process_uplink_arp env f rif port now m st)"
proof -
  obtain nt ch where l: "(case pktmbuf_read f 42 of None \<Rightarrow> (mg_neighbors m, False)
      | Some p \<Rightarrow> router_neighbor_learn_arp_interface (mg_neighbors m) (mg_config m)
                    (rif_interface_id rif) port p now) = (nt, ch)" by (metis prod.exhaust)
  have k1: "keeps m (m\<lparr>mg_neighbors := nt\<rparr>)"
  proof (cases "pktmbuf_read f 42")
    case None
    with l keeps_refl [of m] show ?thesis by auto
  next
    case (Some p)
    with l uplink_learn_keeps [OF s u, of p now] show ?thesis by simp
  qed
  obtain r m2 s2 where fl: "(if ch then ct_flush env (m\<lparr>mg_neighbors := nt\<rparr>) 0 st
      else (DOCA_SUCCESS, m\<lparr>mg_neighbors := nt\<rparr>, st)) = (r, m2, s2)" by (metis prod_cases3)
  have k2: "keeps m m2"
    using fl flush_keeps [of "m\<lparr>mg_neighbors := nt\<rparr>" env 0 st] k1
    by (auto split: if_splits elim: keeps_trans)
  have i2: "packet_inv m2" by (rule keeps_step [OF k2 i])
  have "settles m2 (Option.bind (if pktmbuf_read f 42 = None then Some (m2, s2) else replay_pending_ready env now m2 s2)
     (\<lambda>(m3, s3).
        let (m4, s4) = (if ch then snd (eswitch_manager_hw_routes_sync env m3 (mg_router m3) True s3)
                        else (m3, s3));
            (m5, s5) = reply_uplink_arp env m4 f rif port now s4 in
        Some (DOCA_SUCCESS, m5, s5)))"
  proof (rule replayed [OF i2])
    fix m3 s3
    obtain m4 s4 where y: "(if ch then snd (eswitch_manager_hw_routes_sync env m3 (mg_router m3) True s3)
        else (m3, s3)) = (m4, s4)" by (metis prod.exhaust)
    have "keeps m3 m4"
      using y synced_keeps [of m3 env "mg_router m3" True s3] keeps_refl [of m3] by (auto split: if_splits)
    moreover have "keeps m4 (fst (reply_uplink_arp env m4 f rif port now s4))"
      by (rule routing_keeps) (rule pk.uplink_arp_R)
    ultimately have "keeps m3 (fst (reply_uplink_arp env m4 f rif port now s4))" by (rule keeps_trans)
    then show "settles m3 (case (m3, s3) of (m3, s3) \<Rightarrow>
        let (m4, s4) = (if ch then snd (eswitch_manager_hw_routes_sync env m3 (mg_router m3) True s3)
                        else (m3, s3));
            (m5, s5) = reply_uplink_arp env m4 f rif port now s4 in
        Some (DOCA_SUCCESS, m5, s5))"
      by (simp add: y settles_pair)
  qed
  from settles_step [OF k2 this] k2 show ?thesis by (simp add: process_uplink_arp_def Let_def l fl)
qed

lemma switch_arp_settles:
  assumes i: "packet_inv m" and s: "packet_setup m"
    and p: "find_port_index m port \<noteq> None" "eswitch_port_in_vswitch m vs port"
  shows "settles m (process_switch_arp env f vs port now m st)"
proof -
  obtain nt ch where l: "(case pktmbuf_read f 42 of None \<Rightarrow> (mg_neighbors m, False)
      | Some p \<Rightarrow> router_neighbor_learn_arp (mg_neighbors m) (mg_config m) vs port p now) = (nt, ch)"
    by (metis prod.exhaust)
  have k1: "keeps m (m\<lparr>mg_neighbors := nt\<rparr>)"
  proof (cases "pktmbuf_read f 42")
    case None
    with l keeps_refl [of m] show ?thesis by auto
  next
    case (Some a)
    with l switch_learn_keeps [OF s p, of a now] show ?thesis by simp
  qed
  obtain r m2 s2 where fl: "(if ch then ct_flush env (m\<lparr>mg_neighbors := nt\<rparr>) 0 st
      else (DOCA_SUCCESS, m\<lparr>mg_neighbors := nt\<rparr>, st)) = (r, m2, s2)" by (metis prod_cases3)
  have k2: "keeps m m2"
    using fl flush_keeps [of "m\<lparr>mg_neighbors := nt\<rparr>" env 0 st] k1
    by (auto split: if_splits elim: keeps_trans)
  obtain a m3 s3 where rp: "reply_gateway_arp env m2 f vs port now s2 = (a, m3, s3)" by (metis prod_cases3)
  have "keeps m2 (fst (snd (reply_gateway_arp env m2 f vs port now s2)))"
    by (rule routing_keeps) (rule pk.gateway_arp_R)
  with rp have "keeps m2 m3" by simp
  with k2 have k3: "keeps m m3" by (rule keeps_trans)
  have i3: "packet_inv m3" by (rule keeps_step [OF k3 i])
  have "settles m3 (Option.bind (if pktmbuf_read f 42 = None then Some (m3, s3) else replay_pending_ready env now m3 s3)
     (\<lambda>(m4, s4).
        let (m5, s5) = (if (ch \<or> a = DOCA_SUCCESS) \<and> (a = DOCA_SUCCESS \<or> a = DOCA_ERROR_NOT_FOUND)
                        then snd (eswitch_manager_hw_routes_sync env m4 (mg_router m4) True s4)
                        else (m4, s4)) in
        Some (DOCA_SUCCESS, m5, s5)))"
  proof (rule replayed [OF i3])
    fix m4 s4
    show "settles m4 (case (m4, s4) of (m4, s4) \<Rightarrow>
        let (m5, s5) = (if (ch \<or> a = DOCA_SUCCESS) \<and> (a = DOCA_SUCCESS \<or> a = DOCA_ERROR_NOT_FOUND)
                        then snd (eswitch_manager_hw_routes_sync env m4 (mg_router m4) True s4)
                        else (m4, s4)) in
        Some (DOCA_SUCCESS, m5, s5))"
      using synced_keeps [of m4 env "mg_router m4" True s4] keeps_refl [of m4]
      by (auto simp: Let_def settles_pair split: prod.split)
  qed
  from settles_step [OF k3 this] k2 show ?thesis by (simp add: process_switch_arp_def Let_def l fl rp)
qed

lemma switch_packet_settles:
  assumes i: "packet_inv m" and s: "packet_setup m" and g: "add_gives_entry (me_flow env)"
    and p: "find_port_index m port \<noteq> None" "eswitch_port_in_vswitch m vs port"
  shows "settles m (process_switch_packet env f vs port now m st)"
proof -
  obtain r m1 s1 where l: "learn_source env vs (slice f 6 6) port now m st = (r, m1, s1)" by (metis prod_cases3)
  have k1: "keeps m m1" using learn_source_keeps [OF g, of m vs "slice f 6 6" port now st] l by simp
  note i1 = keeps_step [OF k1 i] and s1' = setup_keeps [OF s k1]
  have "find_port_index m1 port = find_port_index m port"
    "eswitch_port_in_vswitch m1 vs port = eswitch_port_in_vswitch m vs port"
    using k1 by (simp_all add: keeps_def same_setup_def find_port_index_def eswitch_port_in_vswitch_def
        find_membership_def)
  with p have "find_port_index m1 port \<noteq> None" "eswitch_port_in_vswitch m1 vs port" by simp_all
  from switch_arp_settles [OF i1 s1' this, of env f now s1]
  have arp: "settles m (process_switch_arp env f vs port now m1 s1)" by (rule settles_step [OF k1])
  have count: "keeps m (count_up k m1)" for k
    by (rule keeps_trans [OF k1 routing_keeps [OF pk.count]])
  have ip: "settles m (map_option (\<lambda>(m2, s2). (DOCA_SUCCESS, m2, s2)) (route_ipv4_packet env f vs port now m1 s1))"
    by (auto simp: route_ipv4_packet_def Let_def k1 count intro!: ingress_step [OF i1 k1, simplified]
        split: prod.split option.split)
  show ?thesis using arp ip k1 keeps_refl by (simp add: process_switch_packet_def l)
qed

lemma process_packet_settles:
  assumes i: "packet_inv m" and s: "packet_setup m" and g: "add_gives_entry (me_flow env)"
  shows "settles m (process_packet env packet now m st)"
proof -
  obtain domain port where d: "eswitch_metadata_decode (fst packet) = (domain, port)"
    by (cases "eswitch_metadata_decode (fst packet)")
  have sw: "find_port_index m port \<noteq> None \<Longrightarrow> eswitch_port_in_vswitch m domain port \<Longrightarrow>
      settles m (process_switch_packet env (snd packet) domain port now m st)"
    by (rule switch_packet_settles [OF i s g])
  have arp: "find_router_port_interface m port domain = Some rif \<Longrightarrow>
      settles m (process_uplink_arp env (snd packet) rif port now m st)" for rif
    by (rule uplink_arp_settles [OF i s])
  have count: "keeps m (count_up k m)" for k
    by (rule routing_keeps [OF pk.count])
  have ip: "settles m (map_option (\<lambda>(m1, s1). (DOCA_SUCCESS, m1, s1))
      (route_uplink_ipv4_packet env (snd packet) rif port now m st))" for rif
    by (auto simp: route_uplink_ipv4_packet_def Let_def count intro!: ingress_step [OF i keeps_refl, simplified]
        split: prod.split)
  show ?thesis
    using sw arp ip keeps_refl [of m]
    by (auto simp: process_packet_def d Let_def split: option.split)
qed

section \<open>Any run\<close>

lemma burst_settles:
  assumes g: "add_gives_entry (me_flow env)"
  shows "packet_inv m \<Longrightarrow> packet_setup m \<Longrightarrow> settles m (process_burst env ps now m st)"
proof (induction ps arbitrary: m st)
  case (Cons p ps)
  obtain r m1 s1 where p: "process_packet env p now m st = Some (r, m1, s1)" "keeps m m1"
    using process_packet_settles [OF Cons.prems g, of p now st] by (auto simp: settles_def)
  from Cons.IH [OF keeps_step [OF p(2) Cons.prems(1)] setup_keeps [OF Cons.prems(2) p(2)], of s1]
  have "settles m (process_burst env ps now m1 s1)" by (rule settles_step [OF p(2)])
  with p show ?case by simp
qed (simp add: keeps_refl)

lemma age_tables_keep:
  assumes i: "packet_inv m"
  shows "yields (keeps m) (age_tables env now m s)"
proof -
  obtain q expired where e: "router_pending_expire (mg_pending m) now = (q, expired)"
    by (cases "router_pending_expire (mg_pending m) now")
  obtain r marks s1 where ct: "me_ct_expire env now s = (r, marks, s1)" by (metis prod_cases3)
  obtain t where t: "router_nat_age (apply_marks marks (mg_nat m)) now = Some t" "nat_wf t"
    using nat_age_aux [OF pk.apply_marks_wf [OF packet_invD(2) [OF i]], of marks now] by auto
  have "pending_wf q" using expire_wf [OF packet_invD(3) [OF i], of now] e by simp
  moreover have "neighbor_wf (router_neighbor_age (mg_neighbors m) now)"
    "resolved_ok (neighbor_valid m) (router_neighbor_age (mg_neighbors m) now)"
    using packet_invD(4,5) [OF i] by (simp_all add: router_neighbor_age_def neighbor_sweep_wf sweep_resolved)
  ultimately have "keeps m (m\<lparr>mg_pending := q, mg_counters := c, mg_neighbors := router_neighbor_age (mg_neighbors m) now,
      mg_nat := t\<rparr>)" for c
    using t(2) by (intro keepsI) (simp_all add: same_setup_def packet_invD [OF i])
  then show ?thesis by (simp add: age_tables_def Let_def e ct t(1))
qed

lemma fdb_age_keeps:
  assumes i: "packet_inv m" and a: "eswitch_fdb_age env (mg_fdb m) now s = (r, fdb, s')"
  shows "keeps m (m\<lparr>mg_fdb := fdb\<rparr>)"
proof -
  have "fdb_wf fdb"
  proof (cases "fdb_pipeline (mg_fdb m)")
    case True
    with a show ?thesis
      by (auto simp: eswitch_fdb_age_def intro: fdb_walked_wf [OF age_visit_keeps] packet_invD(1) [OF i])
  next
    case False
    with a packet_invD(1) [OF i] show ?thesis by (simp add: eswitch_fdb_age_def)
  qed
  then show ?thesis by (intro keepsI) (simp_all add: same_setup_def packet_invD)
qed

lemma maintenance_settles:
  assumes i: "packet_inv m"
  shows "settles m (eswitch_manager_maintenance env m st)"
proof -
  obtain now s0 where c: "me_clock env st = (now, s0)" by (cases "me_clock env st")
  let ?m = "m\<lparr>mg_next_aging_ns := now + SWITCH_AGING_SCAN_SECONDS * 1000000000\<rparr>"
  have k0: "keeps m ?m" by (intro keepsI) (simp_all add: same_setup_def packet_invD)
  obtain m1 s1 where a: "age_tables env now ?m s0 = Some (m1, s1)" "keeps ?m m1"
    using age_tables_keep [OF keeps_step [OF k0 i], of env now s0] by (auto simp: yields_def)
  have k1: "keeps m m1" by (rule keeps_trans [OF k0 a(2)])
  obtain m2 s2 where p: "probe_configured_next_hops env m1 (mg_config m1) now s1 = (m2, s2)" by (metis prod.exhaust)
  have "keeps m1 (fst (probe_configured_next_hops env m1 (mg_config m1) now s1))"
    unfolding probe_configured_next_hops_def
    by (rule routing_keeps [OF pk.probe_routes_R [OF keeps_step [OF k1 i]]])
  with p have k2: "keeps m m2" using keeps_trans [OF k1] by simp
  obtain r3 m3 s3 where h: "eswitch_manager_hw_routes_sync env m2 (mg_router m2) True s2 = (r3, m3, s3)"
    by (metis prod_cases3)
  have k3: "keeps m m3" using keeps_trans [OF k2 synced_keeps [of m2 env "mg_router m2" True s2]] h by simp
  obtain r4 fdb s4 where f: "eswitch_fdb_age (me_flow env) (mg_fdb m3) now s3 = (r4, fdb, s4)" by (metis prod_cases3)
  have "keeps m (m3\<lparr>mg_fdb := fdb\<rparr>)" by (rule keeps_trans [OF k3 fdb_age_keeps [OF keeps_step [OF k3 i] f]])
  then show ?thesis
    by (simp add: eswitch_manager_maintenance_def c a(1) p h f keeps_refl)
qed

datatype packet_event = Poll "(u32 \<times> bytes) list" | Maintain

fun packet_step :: "'s manager_env \<Rightarrow> packet_event \<Rightarrow> eswitch_manager \<Rightarrow> 's \<Rightarrow> 's routed" where
  "packet_step env (Poll ps) m s =
     map_option (\<lambda>(work, r, m1, s1). (m1, s1)) (eswitch_manager_poll_packets env ps m s)"
| "packet_step env Maintain m s = map_option snd (eswitch_manager_maintenance env m s)"

fun packet_run :: "'s manager_env \<Rightarrow> packet_event list \<Rightarrow> eswitch_manager \<Rightarrow> 's \<Rightarrow> 's routed" where
  "packet_run env [] m s = Some (m, s)"
| "packet_run env (e # es) m s =
     Option.bind (packet_step env e m s) (\<lambda>(m1, s1). packet_run env es m1 s1)"

lemma packet_step_keeps:
  assumes i: "packet_inv m" and s: "packet_setup m" and g: "add_gives_entry (me_flow env)"
  shows "yields (keeps m) (packet_step env e m st)"
proof (cases e)
  case (Poll ps)
  obtain now s1 where c: "me_clock env st = (now, s1)" by (cases "me_clock env st")
  obtain r m1 s2 where "process_burst env ps now m s1 = Some (r, m1, s2)" "keeps m m1"
    using burst_settles [OF g i s, of ps now s1] by (auto simp: settles_def)
  then show ?thesis using Poll c keeps_refl by (simp add: eswitch_manager_poll_packets_def)
next
  case Maintain
  obtain r m1 s1 where "eswitch_manager_maintenance env m st = Some (r, m1, s1)" "keeps m m1"
    using maintenance_settles [OF i, of env st] by (auto simp: settles_def)
  then show ?thesis using Maintain by simp
qed

lemma packet_run_keeps:
  "packet_inv m \<Longrightarrow> packet_setup m \<Longrightarrow> add_gives_entry (me_flow env) \<Longrightarrow>
   yields (keeps m) (packet_run env es m st)"
proof (induction es arbitrary: m st)
  case (Cons e es)
  obtain m1 s1 where e: "packet_step env e m st = Some (m1, s1)" "keeps m m1"
    using packet_step_keeps [OF Cons.prems, of e st] by (auto simp: yields_def)
  obtain m2 s2 where "packet_run env es m1 s1 = Some (m2, s2)" "keeps m1 m2"
    using Cons.IH [OF keeps_step [OF e(2) Cons.prems(1)] setup_keeps [OF Cons.prems(2) e(2)] Cons.prems(3), of s1]
    by (auto simp: yields_def)
  with e show ?case by (auto elim: keeps_trans)
qed (simp add: keeps_refl)

text \<open>Before the first packet every table is empty.\<close>

lemma fresh_packet_inv:
  assumes "fdb_wf (mg_fdb m)" "mg_nat m = router_nat_init" "mg_neighbors m = neighbor_table_zero"
    "mg_pending m = pending_queue_zero"
  shows "packet_inv m"
proof -
  have "resolved_ok Q neighbor_table_zero" for Q
    by (simp add: resolved_ok_def neighbor_table_zero_def neighbor_zero_def)
  then show ?thesis
    using assms by (simp add: packet_inv_def nat_wf_init neighbor_wf_zero pending_wf_zero)
qed

end
