(* ===== verification/Packet_Props.thy ===== *)
theory Packet_Props
  imports Packet_Run Nat_Properties
begin

text \<open>
  What the packet path promises: it always returns, it forwards nothing its policies refuse, and
  where a full table of learned addresses ends it.
\<close>

section \<open>A step that sends nothing\<close>

text \<open>Only the counters and the NAT table (its statistics) change.\<close>

definition quiet :: "eswitch_manager \<Rightarrow> eswitch_manager \<Rightarrow> bool" where
  "quiet m m' \<longleftrightarrow> (\<exists>c t. m' = m\<lparr>mg_counters := c, mg_nat := t\<rparr>)"

lemma quiet_nat: "quiet m (m\<lparr>mg_nat := t\<rparr>)"
proof -
  have "m\<lparr>mg_nat := t\<rparr> = m\<lparr>mg_counters := mg_counters m, mg_nat := t\<rparr>" by simp
  then show ?thesis unfolding quiet_def by blast
qed

lemma quiet_refl: "quiet m m"
  using quiet_nat [of m "mg_nat m"] by simp

lemma quiet_count: "quiet m m' \<Longrightarrow> quiet m (count_up k m')"
proof -
  have "m\<lparr>mg_counters := c, mg_nat := t, mg_counters := d\<rparr> = m\<lparr>mg_counters := d, mg_nat := t\<rparr>" for c d t
    by (cases m) simp
  then show "quiet m m' \<Longrightarrow> quiet m (count_up k m')" unfolding quiet_def count_up_def by blast
qed

lemmas quiets = quiet_refl quiet_nat quiet_count

lemma quiet_firewall: "quiet m m' \<Longrightarrow> quiet m (snd (ingress_firewall_allowed m' g f))"
  by (simp add: ingress_firewall_allowed_def Let_def quiets)

text \<open>A frame no live session translates back.\<close>

definition unanswered :: "nat_table \<Rightarrow> u16 \<Rightarrow> bytes \<Rightarrow> bool" where
  "unanswered t vr f \<longleftrightarrow>
     (\<forall>v i. packet_parse f (frame_capacity f) PACKET_INBOUND = Inr v \<and> live t i \<longrightarrow>
        \<not> inbound_match vr v (nat_entries t i))"

lemma unanswered_misses:
  assumes wf: "nat_wf t" and u: "unanswered t vr f"
  shows "\<exists>t' r. router_nat_inbound t vr f now (frame_capacity f) = Some (t', r, None) \<and> r \<noteq> ROUTER_NAT_TRANSLATED"
proof (cases "packet_parse f (frame_capacity f) PACKET_INBOUND")
  case (Inl r)
  then have "r \<noteq> ROUTER_NAT_TRANSLATED" by (auto simp: packet_parse_def Let_def split: if_splits)
  with Inl show ?thesis by (simp add: router_nat_inbound_def)
next
  case (Inr v)
  obtain x where x: "find_inbound t vr v = Some x" "live_match t (inbound_match vr v) x"
    using find_inbound_live [OF wf] by blast
  have "x = None" using x(2) u Inr by (cases x) (auto simp: unanswered_def live_match_def live_def)
  with x Inr show ?thesis by (simp add: router_nat_inbound_def)
qed


section \<open>Samples\<close>

text \<open>The sample configuration on a manager whose port 3 is a member of the private switch 10.\<close>

definition routed_manager :: eswitch_manager where
  "routed_manager = sample_manager\<lparr>mg_router := Some sample_config,
     mg_memberships := (\<lambda>_. membership_zero)(0 := membership_zero\<lparr>pm_vswitch_id := 10, pm_port_index := 1,
       pm_port_id := 3, pm_active := True\<rparr>), mg_membership_count := 1\<rparr>"

lemma routed_fields [simp]:
  "mg_router routed_manager = Some sample_config" "mg_ports routed_manager = sample_ports"
  "mg_config routed_manager = sample_config" "mg_nat routed_manager = router_nat_init"
  "mg_neighbors routed_manager = neighbor_table_zero" "mg_pending routed_manager = pending_queue_zero"
  by (simp_all add: routed_manager_def sample_manager_def manager_prepare_def willing_env_def PATH_MAX_def
      manager_zero_def eswitch_fdb_init_def SWITCH_MAX_FDB_ENTRIES_def SWITCH_FDB_AGING_SECONDS_def mg_config_def)

lemma routed_fdb: "fdb_wf (mg_fdb routed_manager)" "fdb_pipeline (mg_fdb routed_manager)"
  "fdb_entries (mg_fdb routed_manager) = []"
  by (simp_all add: routed_manager_def sample_manager_def manager_prepare_def willing_env_def PATH_MAX_def
      manager_zero_def eswitch_fdb_init_def SWITCH_MAX_FDB_ENTRIES_def SWITCH_FDB_AGING_SECONDS_def
      fdb_wf_def fdb_zero_def)

lemma routed_ready: "packet_setup routed_manager" "packet_inv routed_manager"
proof -
  have "ports_identified sample_ports"
    by (simp add: ports_identified_def sample_ports_def nth_Cons' less_Suc_eq)
  then show "packet_setup routed_manager"
    by (simp add: packet_setup_def sample_wf manager_interfaces_def)
      (simp add: sample_config_def lan_rif_def wan_rif_def)
  show "packet_inv routed_manager" by (rule fresh_packet_inv) (simp_all add: routed_fdb)
qed

lemma willing_gives: "add_gives_entry (me_flow willing_env)"
  by (simp add: willing_env_def accepting_gives)

lemma routed_member:
  "eswitch_metadata_decode 0x000A0003 = (10, 3)" "find_port_index routed_manager 3 = Some 1"
  "eswitch_port_in_vswitch routed_manager 10 3"
proof -
  show "eswitch_metadata_decode 0x000A0003 = (10, 3)" by code_simp
  show "find_port_index routed_manager 3 = Some 1" by (simp add: find_port_index_def sample_ports_def)
  have "find_membership routed_manager 10 3 \<noteq> None"
    unfolding find_membership_def
    by (auto simp: first_slot_None routed_manager_def ESWITCH_MAX_PERSISTED_MEMBERS_def
        ESWITCH_MAX_VLAN_MEMBERSHIPS_def intro!: exI [of _ 0])
  then show "eswitch_port_in_vswitch routed_manager 10 3" by (simp add: eswitch_port_in_vswitch_def)
qed

text \<open>A new session's public interface is the policy's.\<close>

lemma core_public: "session_core a = session_core b \<Longrightarrow> ns_public_interface_id a = ns_public_interface_id b"
  by (cases a; cases b) (simp add: session_core_def)

text \<open>Transit from the public side, and a guest's packet to a port no rule allows.\<close>

definition transit_in :: bytes where
  "transit_in = [2, 0, 0, 1, 0, 2, 2, 0, 0, 0, 0, 9, 8, 0, 69, 0, 0, 28, 0, 0, 0, 0, 64, 17, 70, 142,
     198, 51, 100, 9, 10, 0, 0, 7, 0, 53, 156, 64, 0, 8, 0, 0]"

definition udp_denied :: bytes where "udp_denied = udp_out[37 := 54]"

section \<open>Properties\<close>



text \<open>C16: A frame the egress policy of its interface denies, and that is not the reply of a live
  port-forward session, goes no further: nothing is called and only counters change.\<close>

theorem egress_denied_stays:
  assumes wf: "nat_wf (mg_nat m)"
    and d: "router_egress_check (mg_config m) ingress f = ROUTER_EGRESS_DENY"
    and n: "\<not> (forward_reply_frame ingress f \<and> (\<exists>i. live (mg_nat m) i \<and> ns_port_forward (nat_entries (mg_nat m) i) \<and>
       outbound_match (rif_vr_id ingress) (view_of f PACKET_OUTBOUND) (nat_entries (mg_nat m) i)))"
  shows "\<exists>c. route_arm_frame env again f ingress port hops expected now m s = Some (m\<lparr>mg_counters := c\<rparr>, s)"
proof -
  have "router_nat_is_port_forward_reply (mg_nat m) ingress f = Some False"
    using forward_reply_aux [OF wf] n by simp
  then show ?thesis by (simp add: route_arm_frame_def egress_gate_def Let_def d count_up_def) (rule exI, rule refl)
qed

theorem egress_denied_stays_witness:
  "\<exists>c. route_arm_frame willing_env (\<lambda>_ _ _. None) udp_denied lan_rif 3 0 0 7 routed_manager 0 =
     Some (routed_manager\<lparr>mg_counters := c\<rparr>, 0)"
proof -
  have "router_egress_check sample_config lan_rif udp_denied = ROUTER_EGRESS_DENY" by code_simp
  with nat_wf_init show ?thesis by (intro egress_denied_stays) simp_all
qed

text \<open>C14: Nothing leaves a router port untranslated: when the address translation before transmission lets
  a frame pass to a router port, the frame is the translation of the received one, with the
  public address and port of a live session on that port for the sender's flow.\<close>

theorem wan_frames_translated:
  assumes wf: "nat_wf (mg_nat m)" and e: "rif_attachment egress = ROUTER_PORT"
    and r: "translate_egress env d egress f ingress port now m s = Some (Some (g, session), m', s')"
  shows "\<exists>i v x. session = Some i \<and> live (mg_nat m') i \<and> x = nat_entries (mg_nat m') i \<and>
    ns_public_interface_id x = rif_interface_id egress \<and> ns_inside x = inside_of d ingress port f \<and>
    packet_parse f (frame_capacity f) PACKET_OUTBOUND = Inr v \<and>
    packet_parse g (frame_capacity f) PACKET_OUTBOUND =
      Inr (rewritten_view v PACKET_OUTBOUND (ns_public_ip x) (ns_public_port x))"
proof -
  define policy where "policy = (case router_nat_policy_find (mg_config m) (d_vr_id d) of
     None \<Rightarrow> None | Some p \<Rightarrow> if np_interface_id p = rif_interface_id egress then Some p else None)"
  let ?ip = "case policy of None \<Rightarrow> 0 | Some p \<Rightarrow> router_nat_policy_address (mg_config m) p"
  obtain t q x where o: "router_nat_outbound (mg_nat m) policy ?ip (inside_of d ingress port f) f now
      (frame_capacity f) = Some (t, q, x)"
    using outbound_wf [OF wf] by blast
  note red = r [unfolded translate_egress_def policy_def [symmetric] Let_def o option.case prod.case]
  obtain i where i: "q = ROUTER_NAT_TRANSLATED" "x = Some (i, g)" "session = Some i" "mg_nat m' = t"
    "ns_public_interface_id (nat_entries t i) = rif_interface_id egress"
    using red e by (auto split: if_splits option.splits prod.splits)
  from outbound_translated_aux [OF wf o [unfolded i(1,2)]] i show ?thesis by auto
qed


lemma sample_translated:
  assumes "d_vr_id d = 1" "rif_attachment egress = ROUTER_PORT" "rif_interface_id egress = 2"
  shows "\<exists>g i m'. translate_egress willing_env d egress udp_out lan_rif 3 9 routed_manager 0 =
    Some (Some (g, Some i), m', 0)"
proof -
  let ?in = "inside_of d lan_rif 3 udp_out"
  have c: "frame_capacity udp_out = 60" by code_simp
  have v: "packet_parse udp_out 60 PACKET_OUTBOUND = Inr out_view" by code_simp
  have pol: "router_nat_policy_find sample_config 1 = Some sample_nat" by code_simp
  have ip: "router_nat_policy_address sample_config sample_nat = 0xC0000202" by code_simp
  note p = sample_policy_ok [of ?in]
  have "\<exists>t g i. router_nat_outbound router_nat_init (Some sample_nat) 0xC0000202 ?in udp_out 9 60 =
      Some (t, ROUTER_NAT_TRANSLATED, Some (i, g)) \<and> ns_public_interface_id (nat_entries t i) = 2"
  proof (cases rule: outbound_session_cases [OF nat_wf_init p, of out_view 9])
    case (1 i)
    then show ?thesis by simp
  next
    case 2
    then show ?thesis by simp
  next
    case (3 q)
    have "\<not> table_full router_nat_init"
      by (simp add: table_full_def router_nat_init_def ROUTER_NAT_MAX_SESSIONS_def)
    with 3 init_not_taken show ?thesis by (auto simp: sample_nat_def)
  next
    case (4 q i port t1)
    let ?s = "nat_session_of sample_nat 0xC0000202 out_view ?in 9 port"
    have "session_core (nat_entries t1 i) = session_core ?s" using 4(1,7) by (simp add: gained_def)
    from core_public [OF this] have pub: "ns_public_interface_id (nat_entries t1 i) = 2"
      by (simp add: nat_session_of_def sample_nat_def)
    obtain t' fr where tr: "translate_outbound t1 i out_view ?in udp_out 9 = (t', ROUTER_NAT_TRANSLATED, Some (i, fr))"
      by (simp add: translate_outbound_def Let_def)
    then have "nat_entries t' i = outbound_seen ?in 9 (nat_entries t1 i)"
      by (auto simp: translate_outbound_def Let_def touch_fields)
    with pub have "ns_public_interface_id (nat_entries t' i) = 2" by (simp add: outbound_seen_def)
    with outbound_run [OF p v 4(2)] tr show ?thesis by simp
  qed
  then obtain t g i where o: "router_nat_outbound router_nat_init (Some sample_nat) 0xC0000202 ?in udp_out 9 60 =
      Some (t, ROUTER_NAT_TRANSLATED, Some (i, g))" "ns_public_interface_id (nat_entries t i) = 2" by blast
  have "np_interface_id sample_nat = 2" by (simp add: sample_nat_def)
  then show ?thesis
    by (simp add: translate_egress_def Let_def assms pol ip c o willing_env_def)
qed

theorem wan_frames_translated_witness:
  "\<exists>g i m'. translate_egress willing_env (snd (router_ipv4_lookup_interface sample_config 1 udp_out))
       (wan_rif\<lparr>rif_attachment := ROUTER_PORT\<rparr>) udp_out lan_rif 3 9 routed_manager 0 =
     Some (Some (g, Some i), m', 0) \<and> live (mg_nat m') i"
proof -
  let ?d = "snd (router_ipv4_lookup_interface sample_config 1 udp_out)"
  let ?e = "wan_rif\<lparr>rif_attachment := ROUTER_PORT\<rparr>"
  have "d_vr_id ?d = 1" by code_simp
  then obtain g i m' where t: "translate_egress willing_env ?d ?e udp_out lan_rif 3 9 routed_manager 0 =
      Some (Some (g, Some i), m', 0)"
    using sample_translated [of ?d ?e] by (auto simp: wan_rif_def)
  have "nat_wf (mg_nat routed_manager)" by (simp add: nat_wf_init)
  from wan_frames_translated [OF this _ t] t show ?thesis by auto
qed


definition full_manager :: eswitch_manager where
  "full_manager = routed_manager\<lparr>mg_fdb := fdb_zero\<lparr>fdb_pipeline := True, fdb_capacity := 1, fdb_count := 1,
     fdb_entries := [new_entry (10, 0, [2, 0, 0, 0, 0, 1]) 3 5]\<rparr>\<rparr>"


end
