(* ===== verification/Cli.thy ===== *)
theory Cli
  imports Eswitch_State
begin

text \<open>
  The grammar of the control commands (\<^verbatim>\<open>cli/eswitch_cli.c\<close>), shared by the control client and
  the daemon: the resource-first forms, their deprecated flat aliases and the usage hints.  A
  rejected command is \<open>None\<close>; what the code leaves in the output structure then is not modelled,
  as no caller reads it.
\<close>

section \<open>Values\<close>

text \<open>
  \<open>strtoul\<close> with base 0 on a whole token: white space, a sign (a minus negates in 64 bits), the
  prefix \<^verbatim>\<open>0x\<close> or a leading 0 for the base; \<open>None\<close> when a character is left over or the value
  does not fit 64 bits.
\<close>

definition digits_value :: "nat \<Rightarrow> string \<Rightarrow> nat option" where
  "digits_value base s =
     (if s = [] \<or> \<not> list_all (\<lambda>c. case hex_value c of None \<Rightarrow> False | Some v \<Rightarrow> v < base) s then None
      else Some (foldl (\<lambda>a c. base * a + the (hex_value c)) 0 s))"

definition magnitude :: "string \<Rightarrow> nat option" where
  "magnitude s =
     (case s of
        CHR ''0'' # CHR ''x'' # ds \<Rightarrow> digits_value 16 ds
      | CHR ''0'' # CHR ''X'' # ds \<Rightarrow> digits_value 16 ds
      | CHR ''0'' # ds \<Rightarrow> digits_value 8 s
      | _ \<Rightarrow> digits_value 10 s)"

definition strtoul_any :: "string \<Rightarrow> nat option" where
  "strtoul_any t =
     (let s = dropWhile is_space t;
          neg = (s \<noteq> [] \<and> hd s = CHR ''-'');
          ds = (if s \<noteq> [] \<and> (hd s = CHR ''-'' \<or> hd s = CHR ''+'') then tl s else s) in
      case magnitude ds of
        None \<Rightarrow> None
      | Some n \<Rightarrow> if 2 ^ 64 \<le> n then None else Some (strtoul_value neg n))"

definition cli_parse_u16 :: "string \<Rightarrow> u16 option" where
  "cli_parse_u16 t =
     (case strtoul_any t of None \<Rightarrow> None | Some n \<Rightarrow> if 65535 < n then None else Some (of_nat n))"

definition parse_vlan_interval :: "string \<Rightarrow> (u16 \<times> u16) option" where
  "parse_vlan_interval t =
     (case split_at (CHR ''-'') t of
        None \<Rightarrow> (case cli_parse_u16 t of
            None \<Rightarrow> None
          | Some v \<Rightarrow> if eswitch_vlan_valid v then Some (v, v) else None)
      | Some (a, b) \<Rightarrow>
          if a = [] \<or> b = [] \<or> CHR ''-'' \<in> set b then None
          else if 16 \<le> length a \<or> 16 \<le> length b then None
          else (case (cli_parse_u16 a, cli_parse_u16 b) of
                  (Some v, Some l) \<Rightarrow> if eswitch_vlan_range_valid v l then Some (v, l) else None
                | _ \<Rightarrow> None))"

definition parse_vlan_spec :: "string \<Rightarrow> (u16 \<times> u16 \<times> u16 \<times> u16) option" where
  "parse_vlan_spec t =
     (case split_at (CHR '','') t of
        None \<Rightarrow> map_option (\<lambda>(v, l). (v, l, 0, 0)) (parse_vlan_interval t)
      | Some (a, b) \<Rightarrow>
          if a = [] \<or> b = [] \<or> CHR '','' \<in> set b then None
          else if 32 \<le> length a \<or> 32 \<le> length b then None
          else (case (parse_vlan_interval a, parse_vlan_interval b) of
                  (Some (v, l), Some (ev, el)) \<Rightarrow>
                    if eswitch_vlan_allowlist_valid v l ev el then Some (v, l, ev, el) else None
                | _ \<Rightarrow> None))"

section \<open>Commands\<close>

datatype eswitch_cli_verb = ESWITCH_CLI_INVALID | ESWITCH_CLI_STATUS | ESWITCH_CLI_TX_DEBUG
  | ESWITCH_CLI_VS_CREATE | ESWITCH_CLI_VS_DELETE | ESWITCH_CLI_VS_SHOW
  | ESWITCH_CLI_VS_PORT_ATTACH | ESWITCH_CLI_VS_PORT_DETACH | ESWITCH_CLI_PORT_SHOW
  | ESWITCH_CLI_FDB_SHOW | ESWITCH_CLI_ROUTER

record eswitch_cli_command =
  cli_verb :: eswitch_cli_verb
  cli_id :: u16
  cli_port_id :: u16
  cli_vlan_id :: u16
  cli_vlan_last :: u16
  cli_vlan_extra_id :: u16
  cli_vlan_extra_last :: u16
  cli_mode :: eswitch_port_mode
  cli_has_id :: bool
  cli_has_port :: bool
  cli_has_mode :: bool
  cli_has_vlan :: bool
  cli_all_ports :: bool
  cli_name :: string
  cli_legacy :: bool

definition cli_command :: "eswitch_cli_verb \<Rightarrow> bool \<Rightarrow> eswitch_cli_command" where
  "cli_command verb legacy = \<lparr>cli_verb = verb, cli_id = 0, cli_port_id = 0, cli_vlan_id = 0,
     cli_vlan_last = 0, cli_vlan_extra_id = 0, cli_vlan_extra_last = 0,
     cli_mode = ESWITCH_PORT_MODE_ACCESS, cli_has_id = False, cli_has_port = False,
     cli_has_mode = False, cli_has_vlan = False, cli_all_ports = False, cli_name = [],
     cli_legacy = legacy\<rparr>"

datatype cli_option_bit = OPTION_ID | OPTION_PORT | OPTION_MODE | OPTION_VLAN | OPTION_NAME

text \<open>One option with its value: its bit and the command with the field set.\<close>

definition cli_option :: "string \<Rightarrow> string \<Rightarrow> eswitch_cli_command \<Rightarrow> (cli_option_bit \<times> eswitch_cli_command) option" where
  "cli_option key v out =
     (if key = ''--id'' then
        map_option (\<lambda>n. (OPTION_ID, out\<lparr>cli_id := n, cli_has_id := True\<rparr>)) (cli_parse_u16 v)
      else if key = ''--port'' then
        map_option (\<lambda>n. (OPTION_PORT, out\<lparr>cli_port_id := n, cli_has_port := True\<rparr>)) (cli_parse_u16 v)
      else if key = ''--mode'' then
        (if v = ''access'' then
           Some (OPTION_MODE, out\<lparr>cli_mode := ESWITCH_PORT_MODE_ACCESS, cli_has_mode := True\<rparr>)
         else if v = ''trunk'' then
           Some (OPTION_MODE, out\<lparr>cli_mode := ESWITCH_PORT_MODE_TRUNK, cli_has_mode := True\<rparr>)
         else None)
      else if key = ''--vlan'' then
        map_option (\<lambda>(a, l, ea, el). (OPTION_VLAN, out\<lparr>cli_vlan_id := a, cli_vlan_last := l,
          cli_vlan_extra_id := ea, cli_vlan_extra_last := el, cli_has_vlan := True\<rparr>)) (parse_vlan_spec v)
      else if key = ''--name'' then
        (if eswitch_vs_name_valid v then Some (OPTION_NAME, out\<lparr>cli_name := v\<rparr>) else None)
      else None)"

fun cli_options ::
  "cli_option_bit list \<Rightarrow> cli_option_bit list \<Rightarrow> cli_option_bit list \<Rightarrow> string list \<Rightarrow> eswitch_cli_command \<Rightarrow>
   eswitch_cli_command option" where
  "cli_options allowed required found [] out =
     (if list_all (\<lambda>b. b \<in> set found) required then Some out else None)"
| "cli_options allowed required found [key] out = None"
| "cli_options allowed required found (key # v # rest) out =
     (case cli_option key v out of
        None \<Rightarrow> None
      | Some (b, out1) \<Rightarrow>
          if b \<notin> set allowed \<or> b \<in> set found then None
          else cli_options allowed required (b # found) rest out1)"

definition parse_options ::
  "string list \<Rightarrow> cli_option_bit list \<Rightarrow> cli_option_bit list \<Rightarrow> eswitch_cli_command \<Rightarrow> eswitch_cli_command option" where
  "parse_options tokens allowed required out = cli_options allowed required [] tokens out"

text \<open>The flat forms also take their arguments by position; \<open>args\<close> are the tokens after the verb.\<close>

definition parse_legacy_id :: "string list \<Rightarrow> bool \<Rightarrow> eswitch_cli_command \<Rightarrow> eswitch_cli_command option" where
  "parse_legacy_id args required out =
     (case args of
        [] \<Rightarrow> if required then None else Some out
      | [t] \<Rightarrow> map_option (\<lambda>n. out\<lparr>cli_id := n, cli_has_id := True\<rparr>) (cli_parse_u16 t)
      | _ \<Rightarrow> parse_options args [OPTION_ID] (if required then [OPTION_ID] else []) out)"

definition parse_legacy_port :: "string list \<Rightarrow> eswitch_cli_command \<Rightarrow> eswitch_cli_command option" where
  "parse_legacy_port args out =
     (case args of
        [t, p] \<Rightarrow>
          (case (cli_parse_u16 t, cli_parse_u16 p) of
             (Some n, Some k) \<Rightarrow>
               Some (out\<lparr>cli_id := n, cli_port_id := k, cli_has_id := True, cli_has_port := True\<rparr>)
           | _ \<Rightarrow> None)
      | _ \<Rightarrow> parse_options args [OPTION_ID, OPTION_PORT, OPTION_MODE, OPTION_VLAN]
               [OPTION_ID, OPTION_PORT] out)"

definition valid_port_membership_options :: "eswitch_cli_command \<Rightarrow> eswitch_cli_command option" where
  "valid_port_membership_options out =
     (let out1 = (if cli_has_mode out then out else out\<lparr>cli_mode := ESWITCH_PORT_MODE_ACCESS\<rparr>) in
      if (if cli_mode out1 = ESWITCH_PORT_MODE_TRUNK
            then cli_has_vlan out1 \<and> eswitch_vlan_allowlist_valid (cli_vlan_id out1) (cli_vlan_last out1)
                   (cli_vlan_extra_id out1) (cli_vlan_extra_last out1)
          else \<not> cli_has_vlan out1 \<or> cli_vlan_id out1 = cli_vlan_last out1 \<and> cli_vlan_extra_id out1 = 0)
        then Some out1 else None)"

definition keep_if :: "('a \<Rightarrow> bool) \<Rightarrow> 'a option \<Rightarrow> 'a option" where
  "keep_if P x = (case x of None \<Rightarrow> None | Some y \<Rightarrow> if P y then Some y else None)"

definition parse_vs :: "string list \<Rightarrow> eswitch_cli_command option" where
  "parse_vs args =
     (case args of
        [] \<Rightarrow> None
      | t # rest \<Rightarrow>
          if t = ''create'' then
            keep_if (\<lambda>out. cli_id out \<noteq> 0) (parse_options rest [OPTION_ID, OPTION_NAME] [OPTION_ID]
              (cli_command ESWITCH_CLI_VS_CREATE False))
          else if t = ''delete'' then
            keep_if (\<lambda>out. cli_id out \<noteq> 0) (parse_options rest [OPTION_ID] [OPTION_ID]
              (cli_command ESWITCH_CLI_VS_DELETE False))
          else if t = ''show'' then
            parse_options rest [OPTION_ID] [] (cli_command ESWITCH_CLI_VS_SHOW False)
          else if t = ''port'' then
            (case rest of
               [] \<Rightarrow> None
             | a # rest1 \<Rightarrow>
                 if a = ''attach'' then
                   Option.bind (keep_if (\<lambda>out. cli_id out \<noteq> 0)
                       (parse_options rest1 [OPTION_ID, OPTION_PORT, OPTION_MODE, OPTION_VLAN]
                          [OPTION_ID, OPTION_PORT] (cli_command ESWITCH_CLI_VS_PORT_ATTACH False)))
                     valid_port_membership_options
                 else if a = ''detach'' then
                   keep_if (\<lambda>out. cli_id out \<noteq> 0 \<and> \<not> cli_has_mode out \<and> \<not> cli_has_vlan out)
                     (parse_options rest1 [OPTION_ID, OPTION_PORT, OPTION_MODE, OPTION_VLAN]
                        [OPTION_ID, OPTION_PORT] (cli_command ESWITCH_CLI_VS_PORT_DETACH False))
                 else None)
          else None)"

text \<open>The deprecated flat aliases.\<close>

definition parse_flat :: "string \<Rightarrow> string list \<Rightarrow> eswitch_cli_command option" where
  "parse_flat verb args =
     (if verb = ''vs-create'' then
        keep_if (\<lambda>out. cli_id out \<noteq> 0) (parse_legacy_id args True (cli_command ESWITCH_CLI_VS_CREATE True))
      else if verb = ''vs-delete'' then
        keep_if (\<lambda>out. cli_id out \<noteq> 0) (parse_legacy_id args True (cli_command ESWITCH_CLI_VS_DELETE True))
      else if verb = ''vs-list'' then parse_legacy_id args False (cli_command ESWITCH_CLI_VS_SHOW True)
      else if verb = ''show-fdb'' then parse_legacy_id args False (cli_command ESWITCH_CLI_FDB_SHOW True)
      else if verb = ''vs-port-attach'' then
        Option.bind (keep_if (\<lambda>out. cli_id out \<noteq> 0)
            (parse_legacy_port args (cli_command ESWITCH_CLI_VS_PORT_ATTACH True)))
          valid_port_membership_options
      else if verb = ''vs-port-detach'' then
        keep_if (\<lambda>out. cli_id out \<noteq> 0 \<and> \<not> cli_has_mode out \<and> \<not> cli_has_vlan out)
          (parse_legacy_port args (cli_command ESWITCH_CLI_VS_PORT_DETACH True))
      else if verb = ''list-port-available'' then
        (if args = [] then Some (cli_command ESWITCH_CLI_PORT_SHOW True) else None)
      else None)"

definition ESWITCH_CLI_MAX_TOKENS :: nat where "ESWITCH_CLI_MAX_TOKENS = 24"
definition ESWITCH_CLI_REQUEST_SIZE :: nat where "ESWITCH_CLI_REQUEST_SIZE = 512"
definition ESWITCH_CLI_MAX_COMMAND_SIZE :: nat where
  "ESWITCH_CLI_MAX_COMMAND_SIZE = ESWITCH_CLI_REQUEST_SIZE - 2"

lemmas cli_consts = ESWITCH_CLI_MAX_TOKENS_def ESWITCH_CLI_REQUEST_SIZE_def
  ESWITCH_CLI_MAX_COMMAND_SIZE_def

definition eswitch_cli_parse :: "string list \<Rightarrow> eswitch_cli_command option" where
  "eswitch_cli_parse tokens =
     (case tokens of
        [] \<Rightarrow> None
      | r # args \<Rightarrow>
          if ESWITCH_CLI_MAX_TOKENS < length tokens then None
          else if r = ''vr'' \<or> r = ''link'' then Some (cli_command ESWITCH_CLI_ROUTER False)
          else if r = ''status'' then
            (if args = [] then Some (cli_command ESWITCH_CLI_STATUS False) else None)
          else if r = ''tx-debug'' then
            (if args = [] then Some (cli_command ESWITCH_CLI_TX_DEBUG False) else None)
          else if r = ''vs'' then parse_vs args
          else if r = ''fdb'' then
            (if args = [] \<or> hd args \<noteq> ''show'' then None
             else parse_options (tl args) [OPTION_ID] [] (cli_command ESWITCH_CLI_FDB_SHOW False))
          else if r = ''port'' then
            (if args = [''show''] then Some (cli_command ESWITCH_CLI_PORT_SHOW False)
             else if args = [''show'', ''--all''] then
               Some ((cli_command ESWITCH_CLI_PORT_SHOW False)\<lparr>cli_all_ports := True\<rparr>)
             else None)
          else parse_flat r args)"

section \<open>Request lines\<close>

text \<open>
  The first line only; \<open>None\<close> is the overflow of the buffer or of the token array.  The line has
  no line terminator left, so splitting at blanks and tabs is \<open>strtok\<close>.
\<close>

definition first_line :: "string \<Rightarrow> string" where
  "first_line request = takeWhile (\<lambda>c. ord c \<noteq> 13 \<and> ord c \<noteq> 10) request"

definition cli_tokenize :: "string \<Rightarrow> string list option" where
  "cli_tokenize request =
     (if ESWITCH_CLI_MAX_COMMAND_SIZE < length (first_line request) then None
      else if ESWITCH_CLI_MAX_TOKENS < length (strtok (first_line request)) then None
      else Some (strtok (first_line request)))"

definition eswitch_cli_parse_line :: "string \<Rightarrow> eswitch_cli_command option" where
  "eswitch_cli_parse_line request = Option.bind (cli_tokenize request) eswitch_cli_parse"

text \<open>The character after the word ends it; the end of the text is the 0 byte.\<close>

definition word_ends :: "string \<Rightarrow> bool" where
  "word_ends rest \<longleftrightarrow> rest = [] \<or> is_delim (hd rest)"

definition eswitch_cli_is_router_line :: "string \<Rightarrow> bool" where
  "eswitch_cli_is_router_line request =
     (let s = dropWhile (\<lambda>c. ord c = 32 \<or> ord c = 9) request in
      if take 2 s = ''vr'' then word_ends (drop 2 s)
      else if take 4 s = ''link'' then word_ends (drop 4 s)
      else False)"

section \<open>Usage hints\<close>

definition eswitch_cli_usage_for_tokens :: "string list \<Rightarrow> string" where
  "eswitch_cli_usage_for_tokens tokens =
     (let attach = ''Usage: vs port attach --id <id> --port <port-id> '' @
            ''[--mode access|trunk] [--vlan <interval[,interval]>]'' in
      (case tokens of
        [] \<Rightarrow> ''Run: eswitchctl --help''
      | r # args \<Rightarrow>
          if r = ''vs-create'' then ''Usage: vs create --id <id> [--name <name>]''
          else if r = ''vs-delete'' then ''Usage: vs delete --id <id>''
          else if r = ''vs-list'' then ''Usage: vs show [--id <id>]''
          else if r = ''vs-port-attach'' then attach
          else if r = ''vs-port-detach'' then ''Usage: vs port detach --id <id> --port <port-id>''
          else if r = ''show-fdb'' then ''Usage: fdb show [--id <id>]''
          else if r = ''list-port-available'' then ''Usage: port show''
          else if r = ''fdb'' then ''Usage: fdb show [--id <id>]''
          else if r = ''port'' then ''Usage: port show [--all]''
          else if r = ''status'' then ''Usage: status''
          else if r = ''tx-debug'' then ''Usage: tx-debug''
          else if r \<noteq> ''vs'' then ''Run: eswitchctl --help''
          else (case args of
             t # rest \<Rightarrow>
               if t = ''create'' then ''Usage: vs create --id <id> [--name <name>]''
               else if t = ''delete'' then ''Usage: vs delete --id <id>''
               else if t = ''show'' then ''Usage: vs show [--id <id>]''
               else if t = ''port'' then
                 (if rest \<noteq> [] \<and> hd rest = ''attach'' then attach
                  else if rest \<noteq> [] \<and> hd rest = ''detach'' then
                    ''Usage: vs port detach --id <id> --port <port-id>''
                  else ''Usage: vs port attach|detach --id <id> --port <port-id>'')
               else ''Usage: vs create|delete|show|port attach|port detach ...''
           | [] \<Rightarrow> ''Usage: vs create|delete|show|port attach|port detach ...'')) @ newline)"

text \<open>
  Only the tokens before an overflow count: none for a line that is too long, the first 24 of a
  line of more.
\<close>

definition eswitch_cli_usage_for_line :: "string \<Rightarrow> string" where
  "eswitch_cli_usage_for_line request =
     (if ESWITCH_CLI_MAX_COMMAND_SIZE < length (first_line request) then eswitch_cli_usage_for_tokens []
      else eswitch_cli_usage_for_tokens (take ESWITCH_CLI_MAX_TOKENS (strtok (first_line request))))"

section \<open>What a command may contain\<close>

text \<open>
  Every command that names a switch carries an id other than 0, every name fits its field, and
  the VLANs of an attachment are those its mode admits.
\<close>

definition cli_command_ok :: "eswitch_cli_command \<Rightarrow> bool" where
  "cli_command_ok c \<longleftrightarrow>
     (cli_verb c \<in> {ESWITCH_CLI_VS_CREATE, ESWITCH_CLI_VS_DELETE, ESWITCH_CLI_VS_PORT_ATTACH,
        ESWITCH_CLI_VS_PORT_DETACH} \<longrightarrow> cli_id c \<noteq> 0 \<and> cli_has_id c) \<and>
     (cli_verb c \<in> {ESWITCH_CLI_VS_PORT_ATTACH, ESWITCH_CLI_VS_PORT_DETACH} \<longrightarrow> cli_has_port c) \<and>
     (cli_name c = [] \<or> eswitch_vs_name_valid (cli_name c)) \<and>
     (cli_verb c = ESWITCH_CLI_VS_PORT_ATTACH \<longrightarrow>
        \<not> member_vlans_invalid (cli_mode c) (cli_vlan_id c) (cli_vlan_last c) (cli_vlan_extra_id c)
            (cli_vlan_extra_last c))"



text \<open>What holds while the options of a command are read.\<close>

definition vlans_read :: "eswitch_cli_command \<Rightarrow> bool" where
  "vlans_read c \<longleftrightarrow>
     (if cli_has_vlan c
        then eswitch_vlan_allowlist_valid (cli_vlan_id c) (cli_vlan_last c) (cli_vlan_extra_id c)
               (cli_vlan_extra_last c) \<and>
             (cli_vlan_extra_id c = 0 \<longrightarrow> cli_vlan_extra_last c = 0)
      else cli_vlan_id c = 0 \<and> cli_vlan_last c = 0 \<and> cli_vlan_extra_id c = 0 \<and> cli_vlan_extra_last c = 0)"

definition cli_read :: "eswitch_cli_verb \<Rightarrow> bool \<Rightarrow> eswitch_cli_command \<Rightarrow> bool" where
  "cli_read v l c \<longleftrightarrow> cli_verb c = v \<and> cli_legacy c = l \<and>
     (cli_name c = [] \<or> eswitch_vs_name_valid (cli_name c)) \<and> vlans_read c"

fun has_option :: "eswitch_cli_command \<Rightarrow> cli_option_bit \<Rightarrow> bool" where
  "has_option c OPTION_ID = cli_has_id c"
| "has_option c OPTION_PORT = cli_has_port c"
| "has_option c OPTION_MODE = cli_has_mode c"
| "has_option c OPTION_VLAN = cli_has_vlan c"
| "has_option c OPTION_NAME = True"

lemma interval_valid: "parse_vlan_interval t = Some (v, l) \<Longrightarrow> eswitch_vlan_range_valid v l"
  by (auto simp: parse_vlan_interval_def eswitch_vlan_range_valid_def eswitch_vlan_range_last_def
      split: option.splits if_splits)

lemma range_valid_nonzero: "eswitch_vlan_range_valid v l \<Longrightarrow> v \<noteq> 0"
  by (auto simp: eswitch_vlan_range_valid_def eswitch_vlan_valid_def vlan_consts)

lemma spec_valid:
  assumes "parse_vlan_spec t = Some (v, l, ev, el)"
  shows "eswitch_vlan_allowlist_valid v l ev el \<and> (ev = 0 \<longrightarrow> el = 0)"
proof (cases "split_at (CHR '','') t")
  case None
  with assms interval_valid show ?thesis
    by (auto simp: parse_vlan_spec_def eswitch_vlan_allowlist_valid_def eswitch_vlan_extra_present_def)
next
  case (Some ab)
  obtain a b where ab: "ab = (a, b)" by (cases ab)
  with assms Some have "parse_vlan_interval b = Some (ev, el)" "eswitch_vlan_allowlist_valid v l ev el"
    by (simp_all add: parse_vlan_spec_def split: option.splits if_splits prod.splits)
  then show ?thesis using interval_valid range_valid_nonzero by blast
qed

lemma option_read:
  assumes "cli_option k t out = Some (b, out1)" and "cli_read v l out"
  shows "cli_read v l out1" "has_option out1 b" "has_option out o' \<Longrightarrow> has_option out1 o'"
proof -
  have w: "cli_read v l out1 \<and> has_option out1 b \<and> (has_option out o' \<longrightarrow> has_option out1 o')" for o'
  proof -
    consider "k = ''--id''" | "k = ''--port''" | "k = ''--mode''" | "k = ''--vlan''" | "k = ''--name''"
      | "k \<notin> {''--id'', ''--port'', ''--mode'', ''--vlan'', ''--name''}" by blast
    then show ?thesis
    proof cases
      case 1
      from assms(1) [unfolded 1] obtain n where "b = OPTION_ID" "out1 = out\<lparr>cli_id := n, cli_has_id := True\<rparr>"
        by (auto simp: cli_option_def)
      with assms(2) show ?thesis by (cases o') (simp_all add: cli_read_def vlans_read_def)
    next
      case 2
      from assms(1) [unfolded 2] obtain n where "b = OPTION_PORT" "out1 = out\<lparr>cli_port_id := n, cli_has_port := True\<rparr>"
        by (auto simp: cli_option_def)
      with assms(2) show ?thesis by (cases o') (simp_all add: cli_read_def vlans_read_def)
    next
      case 3
      from assms(1) [unfolded 3] obtain md where "b = OPTION_MODE" "out1 = out\<lparr>cli_mode := md, cli_has_mode := True\<rparr>"
        by (auto simp: cli_option_def split: if_splits)
      with assms(2) show ?thesis by (cases o') (simp_all add: cli_read_def vlans_read_def)
    next
      case 4
      from assms(1) [unfolded 4] obtain a c d e where "parse_vlan_spec t = Some (a, c, d, e)" "b = OPTION_VLAN"
        "out1 = out\<lparr>cli_vlan_id := a, cli_vlan_last := c, cli_vlan_extra_id := d, cli_vlan_extra_last := e, cli_has_vlan := True\<rparr>"
        by (auto simp: cli_option_def)
      with assms(2) spec_valid show ?thesis by (cases o') (simp_all add: cli_read_def vlans_read_def)
    next
      case 5
      from assms(1) [unfolded 5] have "b = OPTION_NAME" "out1 = out\<lparr>cli_name := t\<rparr>" "eswitch_vs_name_valid t"
        by (auto simp: cli_option_def split: if_splits)
      with assms(2) show ?thesis by (cases o') (simp_all add: cli_read_def vlans_read_def)
    next
      case 6
      with assms(1) show ?thesis by (simp add: cli_option_def)
    qed
  qed
  show "cli_read v l out1" "has_option out1 b" "has_option out o' \<Longrightarrow> has_option out1 o'"
    using w by simp_all
qed

lemma options_read:
  assumes "cli_options allowed required found ts out = Some out1" and "cli_read v l out"
    and "\<forall>b\<in>set found. has_option out b"
  shows "cli_read v l out1 \<and> (\<forall>b\<in>set required. has_option out1 b)"
  using assms
proof (induction allowed required found ts out rule: cli_options.induct)
  case (1 allowed required found out)
  then show ?case by (auto simp: list_all_iff split: if_splits)
next
  case (3 allowed required found k t rest out)
  then obtain b out2 where o: "cli_option k t out = Some (b, out2)"
    and ok: "\<not> (b \<notin> set allowed \<or> b \<in> set found)"
    and c: "cli_options allowed required (b # found) rest out2 = Some out1"
    by (auto split: option.splits if_splits)
  show ?case
  proof (rule 3(1) [OF o refl ok c])
    show "cli_read v l out2" using option_read(1) [OF o 3(3)] .
    show "\<forall>b\<in>set (b # found). has_option out2 b"
      using option_read(2,3) [OF o 3(3)] 3(4) by auto
  qed
qed simp

lemma command_read: "cli_read v l (cli_command v l)"
  by (simp add: cli_read_def vlans_read_def cli_command_def)

lemma parse_options_read:
  "parse_options ts allowed required (cli_command v l) = Some out \<Longrightarrow>
     cli_read v l out \<and> (\<forall>b\<in>set required. has_option out b)"
  unfolding parse_options_def by (erule options_read [OF _ command_read]) simp

lemma legacy_id_read:
  "parse_legacy_id ts required (cli_command v l) = Some out \<Longrightarrow>
     cli_read v l out \<and> (required \<longrightarrow> has_option out OPTION_ID)"
  using parse_options_read
  by (fastforce simp: parse_legacy_id_def cli_read_def vlans_read_def cli_command_def
      split: list.splits if_splits)

lemma legacy_port_read:
  "parse_legacy_port ts (cli_command v l) = Some out \<Longrightarrow>
     cli_read v l out \<and> has_option out OPTION_ID \<and> has_option out OPTION_PORT"
  using parse_options_read
  by (fastforce simp: parse_legacy_port_def cli_read_def vlans_read_def cli_command_def
      split: list.splits option.splits)


section \<open>Accepted commands are well formed\<close>

lemma keep_if_Some: "keep_if P x = Some y \<longleftrightarrow> x = Some y \<and> P y"
  by (auto simp: keep_if_def split: option.splits)

lemma membership_mode:
  assumes "valid_port_membership_options c = Some c1"
  obtains m where "c1 = c\<lparr>cli_mode := m\<rparr>"
    "if m = ESWITCH_PORT_MODE_TRUNK
       then cli_has_vlan c \<and> eswitch_vlan_allowlist_valid (cli_vlan_id c) (cli_vlan_last c)
              (cli_vlan_extra_id c) (cli_vlan_extra_last c)
     else \<not> cli_has_vlan c \<or> cli_vlan_id c = cli_vlan_last c \<and> cli_vlan_extra_id c = 0"
proof -
  let ?m = "if cli_has_mode c then cli_mode c else ESWITCH_PORT_MODE_ACCESS"
  have e: "(if cli_has_mode c then c else c\<lparr>cli_mode := ESWITCH_PORT_MODE_ACCESS\<rparr>) = c\<lparr>cli_mode := ?m\<rparr>"
    by simp
  show thesis
    using assms unfolding valid_port_membership_options_def Let_def e
    by (intro that [of ?m]) (auto split: if_split_asm)
qed

lemma single_valid: "eswitch_vlan_allowlist_valid a a 0 0 \<Longrightarrow> eswitch_vlan_valid a"
  by (simp add: eswitch_vlan_allowlist_valid_def eswitch_vlan_extra_present_def
      eswitch_vlan_range_valid_def eswitch_vlan_range_last_def split: if_splits)

lemma membership_ok:
  assumes "cli_read ESWITCH_CLI_VS_PORT_ATTACH l c" "has_option c OPTION_ID" "has_option c OPTION_PORT"
    "cli_id c \<noteq> 0" "valid_port_membership_options c = Some c1"
  shows "cli_command_ok c1"
proof -
  from assms(5) obtain m where m: "c1 = c\<lparr>cli_mode := m\<rparr>"
    "if m = ESWITCH_PORT_MODE_TRUNK
       then cli_has_vlan c \<and> eswitch_vlan_allowlist_valid (cli_vlan_id c) (cli_vlan_last c)
              (cli_vlan_extra_id c) (cli_vlan_extra_last c)
     else \<not> cli_has_vlan c \<or> cli_vlan_id c = cli_vlan_last c \<and> cli_vlan_extra_id c = 0"
    by (rule membership_mode)
  have "\<not> member_vlans_invalid m (cli_vlan_id c) (cli_vlan_last c) (cli_vlan_extra_id c) (cli_vlan_extra_last c)"
  proof (cases "m = ESWITCH_PORT_MODE_TRUNK")
    case True
    with m(2) show ?thesis by (simp add: member_vlans_invalid_def)
  next
    case False
    show ?thesis
    proof (cases "cli_has_vlan c")
      case v: True
      then have "cli_vlan_id c = cli_vlan_last c" "cli_vlan_extra_id c = 0" using False m(2) by simp_all
      moreover from this v assms(1) have "cli_vlan_extra_last c = 0 \<and>
        eswitch_vlan_allowlist_valid (cli_vlan_id c) (cli_vlan_id c) 0 0"
        by (auto simp: cli_read_def vlans_read_def)
      ultimately show ?thesis using False single_valid by (simp add: member_vlans_invalid_def)
    next
      case v: False
      with assms(1) False show ?thesis by (simp add: member_vlans_invalid_def cli_read_def vlans_read_def)
    qed
  qed
  with assms(1-4) m(1) show ?thesis by (simp add: cli_command_ok_def cli_read_def)
qed

lemma read_ok:
  assumes "cli_read v l c" "v \<noteq> ESWITCH_CLI_VS_PORT_ATTACH"
    "v \<in> {ESWITCH_CLI_VS_CREATE, ESWITCH_CLI_VS_DELETE, ESWITCH_CLI_VS_PORT_DETACH} \<longrightarrow>
       cli_id c \<noteq> 0 \<and> has_option c OPTION_ID"
    "v = ESWITCH_CLI_VS_PORT_DETACH \<longrightarrow> has_option c OPTION_PORT"
  shows "cli_command_ok c"
  using assms by (auto simp: cli_command_ok_def cli_read_def)

lemma parse_vs_ok: "parse_vs args = Some c \<Longrightarrow> cli_command_ok c"
  unfolding parse_vs_def
  by (auto simp: keep_if_Some bind_eq_Some_conv split: list.splits if_split_asm dest!: parse_options_read
      intro: membership_ok read_ok)

lemma flat_forms:
  "parse_flat ''vs-create'' args =
     keep_if (\<lambda>out. cli_id out \<noteq> 0) (parse_legacy_id args True (cli_command ESWITCH_CLI_VS_CREATE True))"
  "parse_flat ''vs-delete'' args =
     keep_if (\<lambda>out. cli_id out \<noteq> 0) (parse_legacy_id args True (cli_command ESWITCH_CLI_VS_DELETE True))"
  "parse_flat ''vs-list'' args = parse_legacy_id args False (cli_command ESWITCH_CLI_VS_SHOW True)"
  "parse_flat ''show-fdb'' args = parse_legacy_id args False (cli_command ESWITCH_CLI_FDB_SHOW True)"
  "parse_flat ''vs-port-attach'' args =
     Option.bind (keep_if (\<lambda>out. cli_id out \<noteq> 0)
       (parse_legacy_port args (cli_command ESWITCH_CLI_VS_PORT_ATTACH True))) valid_port_membership_options"
  "parse_flat ''vs-port-detach'' args =
     keep_if (\<lambda>out. cli_id out \<noteq> 0 \<and> \<not> cli_has_mode out \<and> \<not> cli_has_vlan out)
       (parse_legacy_port args (cli_command ESWITCH_CLI_VS_PORT_DETACH True))"
  "parse_flat ''list-port-available'' args =
     (if args = [] then Some (cli_command ESWITCH_CLI_PORT_SHOW True) else None)"
  by (simp_all add: parse_flat_def)

lemma flat_verbs:
  "parse_flat verb args = Some c \<Longrightarrow>
     verb = ''vs-create'' \<or> verb = ''vs-delete'' \<or> verb = ''vs-list'' \<or> verb = ''show-fdb'' \<or>
     verb = ''vs-port-attach'' \<or> verb = ''vs-port-detach'' \<or> verb = ''list-port-available''"
  unfolding parse_flat_def by (simp split: if_split_asm)

lemma parse_flat_ok:
  assumes "parse_flat verb args = Some c"
  shows "cli_command_ok c"
proof -
  from flat_verbs [OF assms] show ?thesis
  proof (elim disjE)
    assume v: "verb = ''vs-create''"
    from assms [unfolded v flat_forms keep_if_Some] legacy_id_read show ?thesis by (blast intro: read_ok)
  next
    assume v: "verb = ''vs-delete''"
    from assms [unfolded v flat_forms keep_if_Some] legacy_id_read show ?thesis by (blast intro: read_ok)
  next
    assume v: "verb = ''vs-list''"
    from assms [unfolded v flat_forms] legacy_id_read show ?thesis by (blast intro: read_ok)
  next
    assume v: "verb = ''show-fdb''"
    from assms [unfolded v flat_forms] legacy_id_read show ?thesis by (blast intro: read_ok)
  next
    assume v: "verb = ''vs-port-attach''"
    from assms [unfolded v flat_forms bind_eq_Some_conv keep_if_Some] legacy_port_read membership_ok
    show ?thesis by blast
  next
    assume v: "verb = ''vs-port-detach''"
    from assms [unfolded v flat_forms keep_if_Some] legacy_port_read show ?thesis by (blast intro: read_ok)
  next
    assume v: "verb = ''list-port-available''"
    from assms [unfolded v flat_forms] show ?thesis
      by (auto simp: cli_command_ok_def cli_command_def split: if_splits)
  qed
qed

lemma bare_ok:
  "v \<notin> {ESWITCH_CLI_VS_CREATE, ESWITCH_CLI_VS_DELETE, ESWITCH_CLI_VS_PORT_ATTACH, ESWITCH_CLI_VS_PORT_DETACH} \<Longrightarrow>
   cli_command_ok (cli_command v l) \<and> cli_command_ok ((cli_command v l)\<lparr>cli_all_ports := True\<rparr>)"
  by (simp add: cli_command_ok_def cli_command_def)

lemma cli_parse_ok: "eswitch_cli_parse tokens = Some c \<Longrightarrow> cli_command_ok c"
  unfolding eswitch_cli_parse_def
  by (auto split: list.splits if_split_asm dest!: parse_options_read
      intro: parse_vs_ok parse_flat_ok read_ok simp: bare_ok)

section \<open>Lines that belong to the router\<close>

lemma strtok_word:
  "w \<noteq> [] \<Longrightarrow> \<forall>c\<in>set w. \<not> is_delim c \<Longrightarrow> rest = [] \<or> is_delim (hd rest) \<Longrightarrow>
   strtok (w @ rest) = w # strtok rest"
proof -
  have "\<forall>c\<in>set w. \<not> is_delim c \<Longrightarrow> acc \<noteq> [] \<or> w \<noteq> [] \<Longrightarrow> rest = [] \<or> is_delim (hd rest) \<Longrightarrow>
     strtok_from acc (w @ rest) = (rev acc @ w) # strtok_from [] rest" for acc
  proof (induction w arbitrary: acc)
    case Nil
    then show ?case by (cases rest) auto
  qed auto
  from this [of "[]"] show "w \<noteq> [] \<Longrightarrow> \<forall>c\<in>set w. \<not> is_delim c \<Longrightarrow> rest = [] \<or> is_delim (hd rest) \<Longrightarrow>
     strtok (w @ rest) = w # strtok rest" by (simp add: strtok_def)
qed

lemma strtok_skip: "strtok (dropWhile is_delim s) = strtok s"
  by (induction s) (simp_all add: strtok_def)

lemma rest_ends: "dropWhile (\<lambda>c. \<not> is_delim c) s = [] \<or> is_delim (hd (dropWhile (\<lambda>c. \<not> is_delim c) s))"
  by (induction s) auto

lemma strtok_first:
  assumes "s \<noteq> []" "\<not> is_delim (hd s)"
  shows "strtok s = takeWhile (\<lambda>c. \<not> is_delim c) s # strtok (dropWhile (\<lambda>c. \<not> is_delim c) s)"
proof -
  have "takeWhile (\<lambda>c. \<not> is_delim c) s \<noteq> []" using assms by (cases s) simp_all
  moreover have "\<forall>c\<in>set (takeWhile (\<lambda>c. \<not> is_delim c) s). \<not> is_delim c" by (auto dest: set_takeWhileD)
  ultimately show ?thesis using strtok_word [OF _ _ rest_ends] takeWhile_dropWhile_id by metis
qed

lemma first_word:
  assumes "\<forall>c\<in>set w. \<not> is_delim c"
  shows "takeWhile (\<lambda>c. \<not> is_delim c) s = w \<longleftrightarrow> take (length w) s = w \<and> word_ends (drop (length w) s)"
proof
  assume "takeWhile (\<lambda>c. \<not> is_delim c) s = w"
  then have "s = w @ dropWhile (\<lambda>c. \<not> is_delim c) s" by (metis takeWhile_dropWhile_id)
  moreover have "word_ends (dropWhile (\<lambda>c. \<not> is_delim c) s)"
    using rest_ends by (simp add: word_ends_def)
  ultimately show "take (length w) s = w \<and> word_ends (drop (length w) s)"
    by (metis append_eq_conv_conj)
next
  assume r: "take (length w) s = w \<and> word_ends (drop (length w) s)"
  then have "s = w @ drop (length w) s" by (metis append_take_drop_id)
  moreover have "takeWhile (\<lambda>c. \<not> is_delim c) (w @ drop (length w) s) = w"
    using assms r by (cases "drop (length w) s") (simp_all add: word_ends_def)
  ultimately show "takeWhile (\<lambda>c. \<not> is_delim c) s = w" by metis
qed

lemma first_token:
  "strtok (first_line r) =
     (let s = dropWhile (\<lambda>c. ord c = 32 \<or> ord c = 9) r in
      if takeWhile (\<lambda>c. \<not> is_delim c) s = [] then []
      else takeWhile (\<lambda>c. \<not> is_delim c) s # strtok (first_line (dropWhile (\<lambda>c. \<not> is_delim c) s)))"
proof (induction r)
  case (Cons c r)
  consider "ord c = 32 \<or> ord c = 9" | "ord c = 13 \<or> ord c = 10" | "\<not> is_delim c"
    by (auto simp: is_delim_def)
  then show ?case
  proof cases
    case 1
    then have "first_line (c # r) = c # first_line r" "is_delim c" by (auto simp: first_line_def is_delim_def)
    then have "strtok (first_line (c # r)) = strtok (first_line r)" by (simp add: strtok_def)
    with Cons 1 show ?thesis by (simp del: takeWhile_eq_Nil_iff)
  next
    case 2
    then have "is_delim c" "\<not> (ord c = 32 \<or> ord c = 9)" by (auto simp: is_delim_def)
    with 2 show ?thesis by (auto simp: first_line_def strtok_def)
  next
    case 3
    then have k: "ord c \<noteq> 13 \<and> ord c \<noteq> 10" "\<not> (ord c = 32 \<or> ord c = 9)" by (auto simp: is_delim_def)
    have t: "takeWhile (\<lambda>c. \<not> is_delim c) (first_line s) = takeWhile (\<lambda>c. \<not> is_delim c) s"
      "dropWhile (\<lambda>c. \<not> is_delim c) (first_line s) = first_line (dropWhile (\<lambda>c. \<not> is_delim c) s)" for s
      by (induction s) (auto simp: first_line_def is_delim_def)
    have "first_line (c # r) = c # first_line r" using k by (simp add: first_line_def)
    then have "strtok (first_line (c # r)) = takeWhile (\<lambda>c. \<not> is_delim c) (first_line (c # r)) #
        strtok (dropWhile (\<lambda>c. \<not> is_delim c) (first_line (c # r)))"
      using 3 by (intro strtok_first) auto
    with 3 k show ?thesis by (simp add: t del: takeWhile.simps dropWhile.simps) (simp add: t)
  qed
qed (simp add: first_line_def strtok_def)

lemma router_line_token:
  "eswitch_cli_is_router_line r \<longleftrightarrow>
     strtok (first_line r) \<noteq> [] \<and> hd (strtok (first_line r)) \<in> {''vr'', ''link''}"
proof -
  let ?s = "dropWhile (\<lambda>c. ord c = 32 \<or> ord c = 9) r"
  have nd: "\<forall>c\<in>set ''vr''. \<not> is_delim c" "\<forall>c\<in>set ''link''. \<not> is_delim c" by (simp_all add: is_delim_def)
  have neq: "take 2 s = ''vr'' \<Longrightarrow> take 4 s \<noteq> ''link''" for s :: string
    by (cases s) auto
  have w: "takeWhile (\<lambda>c. \<not> is_delim c) s = ''vr'' \<longleftrightarrow> take 2 s = ''vr'' \<and> word_ends (drop 2 s)"
    "takeWhile (\<lambda>c. \<not> is_delim c) s = ''link'' \<longleftrightarrow> take 4 s = ''link'' \<and> word_ends (drop 4 s)" for s
    using first_word [OF nd(1), of s] first_word [OF nd(2), of s] by (simp_all add: eval_nat_numeral)
  have eq: "(if take 2 s = ''vr'' then word_ends (drop 2 s)
      else if take 4 s = ''link'' then word_ends (drop 4 s) else False) \<longleftrightarrow>
     takeWhile (\<lambda>c. \<not> is_delim c) s = ''vr'' \<or> takeWhile (\<lambda>c. \<not> is_delim c) s = ''link''" for s
    unfolding w using neq [of s] by (simp del: take_eq_Nil)
  have "eswitch_cli_is_router_line r \<longleftrightarrow>
     takeWhile (\<lambda>c. \<not> is_delim c) ?s = ''vr'' \<or> takeWhile (\<lambda>c. \<not> is_delim c) ?s = ''link''"
    unfolding eswitch_cli_is_router_line_def Let_def by (rule eq)
  moreover have "strtok (first_line r) \<noteq> [] \<and> hd (strtok (first_line r)) \<in> {''vr'', ''link''} \<longleftrightarrow>
     takeWhile (\<lambda>c. \<not> is_delim c) ?s = ''vr'' \<or> takeWhile (\<lambda>c. \<not> is_delim c) ?s = ''link''"
    unfolding first_token [of r] Let_def by (auto simp del: takeWhile_eq_Nil_iff)
  ultimately show ?thesis by blast
qed

section \<open>The aliases\<close>

text \<open>The resource-first form of a flat command.\<close>

definition canonical_id :: "string list \<Rightarrow> string list" where
  "canonical_id args = (case args of [t] \<Rightarrow> [''--id'', t] | _ \<Rightarrow> args)"

definition canonical_port :: "string list \<Rightarrow> string list" where
  "canonical_port args = (case args of [t, p] \<Rightarrow> [''--id'', t, ''--port'', p] | _ \<Rightarrow> args)"

definition canonical_tokens :: "string list \<Rightarrow> string list" where
  "canonical_tokens tokens =
     (case tokens of [] \<Rightarrow> []
      | verb # args \<Rightarrow>
          if verb = ''vs-create'' then [''vs'', ''create''] @ canonical_id args
          else if verb = ''vs-delete'' then [''vs'', ''delete''] @ canonical_id args
          else if verb = ''vs-list'' then [''vs'', ''show''] @ canonical_id args
          else if verb = ''show-fdb'' then [''fdb'', ''show''] @ canonical_id args
          else if verb = ''vs-port-attach'' then [''vs'', ''port'', ''attach''] @ canonical_port args
          else if verb = ''vs-port-detach'' then [''vs'', ''port'', ''detach''] @ canonical_port args
          else if verb = ''list-port-available'' then [''port'', ''show''] else tokens)"

definition modern :: "eswitch_cli_command \<Rightarrow> eswitch_cli_command" where
  "modern c = c\<lparr>cli_legacy := False\<rparr>"

lemma modern_command [simp]: "modern (cli_command v l) = cli_command v False"
  by (simp add: modern_def cli_command_def)

lemma modern_fields [simp]:
  "cli_id (modern c) = cli_id c" "cli_has_mode (modern c) = cli_has_mode c" "cli_has_vlan (modern c) = cli_has_vlan c"
  by (simp_all add: modern_def)

lemma option_modern: "cli_option k t (modern out) = map_option (map_prod id modern) (cli_option k t out)"
  by (cases out) (auto simp: cli_option_def modern_def option.map_comp comp_def intro!: option.map_cong0)

lemma options_modern:
  "cli_options allowed required found ts out = Some c \<Longrightarrow> set allowed \<subseteq> set wide \<Longrightarrow>
     cli_options wide required found ts (modern out) = Some (modern c)"
proof (induction allowed required found ts out rule: cli_options.induct)
  case (3 allowed required found k t rest out)
  then obtain b out2 where o: "cli_option k t out = Some (b, out2)"
    and ok: "\<not> (b \<notin> set allowed \<or> b \<in> set found)"
    and c: "cli_options allowed required (b # found) rest out2 = Some c"
    by (auto split: option.splits if_splits)
  from 3(1) [OF o refl ok c 3(3)] ok 3(3) show ?case by (auto simp: option_modern o)
qed (simp_all split: if_splits)

lemma options_length:
  "cli_options allowed required found ts out = Some c \<Longrightarrow> distinct found \<Longrightarrow> set found \<subseteq> set allowed \<Longrightarrow>
     length ts + 2 * length found \<le> 2 * length allowed"
proof (induction allowed required found ts out rule: cli_options.induct)
  case (1 allowed required found out)
  then have "card (set found) \<le> card (set allowed)" by (simp add: card_mono)
  with 1 card_length [of allowed] show ?case by (simp add: distinct_card)
next
  case (3 allowed required found k t rest out)
  then obtain b out2 where o: "cli_option k t out = Some (b, out2)"
    and ok: "\<not> (b \<notin> set allowed \<or> b \<in> set found)"
    and c: "cli_options allowed required (b # found) rest out2 = Some c"
    by (auto split: option.splits if_splits)
  from 3(1) [OF o refl ok c] ok 3(3,4) show ?case by simp
qed simp

lemma parse_options_modern:
  "parse_options ts allowed required (cli_command v l) = Some c \<Longrightarrow> set allowed \<subseteq> set wide \<Longrightarrow>
     parse_options ts wide required (cli_command v False) = Some (modern c) \<and> length ts \<le> 2 * length allowed"
  unfolding parse_options_def
  using options_modern [of allowed required "[]" ts "cli_command v l" c wide]
    options_length [of allowed required "[]" ts "cli_command v l" c] by simp

lemma legacy_id_modern:
  assumes "parse_legacy_id args required (cli_command v l) = Some c" "OPTION_ID \<in> set wide"
  shows "parse_options (canonical_id args) wide (if required then [OPTION_ID] else []) (cli_command v False) = Some (modern c) \<and>
     length (canonical_id args) \<le> 2"
proof -
  consider "args = []" | t where "args = [t]" | "2 \<le> length args"
    by (cases args rule: remdups_adj.cases) auto
  then show ?thesis
  proof cases
    case 1
    with assms show ?thesis by (auto simp: parse_legacy_id_def canonical_id_def parse_options_def split: if_splits)
  next
    case 2
    with assms show ?thesis
      by (auto simp: parse_legacy_id_def canonical_id_def parse_options_def cli_option_def modern_def cli_command_def)
  next
    case 3
    then obtain a b r where args: "args = a # b # r" by (metis Suc_le_length_iff numeral_2_eq_2)
    with assms(1) have "parse_options args [OPTION_ID] (if required then [OPTION_ID] else []) (cli_command v l) = Some c"
      by (simp add: parse_legacy_id_def)
    from parse_options_modern [OF this, of wide] assms(2) args show ?thesis by (auto simp: canonical_id_def)
  qed
qed

lemma legacy_port_modern:
  assumes "parse_legacy_port args (cli_command v l) = Some c"
  shows "parse_options (canonical_port args) [OPTION_ID, OPTION_PORT, OPTION_MODE, OPTION_VLAN]
       [OPTION_ID, OPTION_PORT] (cli_command v False) = Some (modern c) \<and> length (canonical_port args) \<le> 8"
proof (cases "\<exists>t p. args = [t, p]")
  case True
  with assms show ?thesis
    by (auto simp: parse_legacy_port_def canonical_port_def parse_options_def cli_option_def modern_def
        cli_command_def split: option.splits)
next
  case False
  with assms have "parse_options args [OPTION_ID, OPTION_PORT, OPTION_MODE, OPTION_VLAN]
       [OPTION_ID, OPTION_PORT] (cli_command v l) = Some c"
    by (auto simp: parse_legacy_port_def split: list.splits)
  moreover have "canonical_port args = args" using False by (auto simp: canonical_port_def split: list.splits)
  ultimately show ?thesis
    using parse_options_modern [of args "[OPTION_ID, OPTION_PORT, OPTION_MODE, OPTION_VLAN]"
        "[OPTION_ID, OPTION_PORT]" v l c "[OPTION_ID, OPTION_PORT, OPTION_MODE, OPTION_VLAN]"] by simp
qed

lemma membership_modern:
  "valid_port_membership_options c = Some c1 \<Longrightarrow> valid_port_membership_options (modern c) = Some (modern c1)"
  by (auto simp: valid_port_membership_options_def modern_def Let_def split: if_splits)

lemma canonical_forms:
  "canonical_tokens (''vs-create'' # args) = [''vs'', ''create''] @ canonical_id args"
  "canonical_tokens (''vs-delete'' # args) = [''vs'', ''delete''] @ canonical_id args"
  "canonical_tokens (''vs-list'' # args) = [''vs'', ''show''] @ canonical_id args"
  "canonical_tokens (''show-fdb'' # args) = [''fdb'', ''show''] @ canonical_id args"
  "canonical_tokens (''vs-port-attach'' # args) = [''vs'', ''port'', ''attach''] @ canonical_port args"
  "canonical_tokens (''vs-port-detach'' # args) = [''vs'', ''port'', ''detach''] @ canonical_port args"
  "canonical_tokens (''list-port-available'' # args) = [''port'', ''show'']"
  by (simp_all add: canonical_tokens_def)

lemma vs_forms:
  "length args \<le> 22 \<Longrightarrow> eswitch_cli_parse ([''vs'', ''create''] @ args) =
     keep_if (\<lambda>out. cli_id out \<noteq> 0) (parse_options args [OPTION_ID, OPTION_NAME] [OPTION_ID]
       (cli_command ESWITCH_CLI_VS_CREATE False))"
  "length args \<le> 22 \<Longrightarrow> eswitch_cli_parse ([''vs'', ''delete''] @ args) =
     keep_if (\<lambda>out. cli_id out \<noteq> 0) (parse_options args [OPTION_ID] [OPTION_ID]
       (cli_command ESWITCH_CLI_VS_DELETE False))"
  "length args \<le> 22 \<Longrightarrow> eswitch_cli_parse ([''vs'', ''show''] @ args) =
     parse_options args [OPTION_ID] [] (cli_command ESWITCH_CLI_VS_SHOW False)"
  "length args \<le> 22 \<Longrightarrow> eswitch_cli_parse ([''fdb'', ''show''] @ args) =
     parse_options args [OPTION_ID] [] (cli_command ESWITCH_CLI_FDB_SHOW False)"
  "length args \<le> 21 \<Longrightarrow> eswitch_cli_parse ([''vs'', ''port'', ''attach''] @ args) =
     Option.bind (keep_if (\<lambda>out. cli_id out \<noteq> 0)
       (parse_options args [OPTION_ID, OPTION_PORT, OPTION_MODE, OPTION_VLAN]
          [OPTION_ID, OPTION_PORT] (cli_command ESWITCH_CLI_VS_PORT_ATTACH False))) valid_port_membership_options"
  "length args \<le> 21 \<Longrightarrow> eswitch_cli_parse ([''vs'', ''port'', ''detach''] @ args) =
     keep_if (\<lambda>out. cli_id out \<noteq> 0 \<and> \<not> cli_has_mode out \<and> \<not> cli_has_vlan out)
       (parse_options args [OPTION_ID, OPTION_PORT, OPTION_MODE, OPTION_VLAN]
          [OPTION_ID, OPTION_PORT] (cli_command ESWITCH_CLI_VS_PORT_DETACH False))"
  by (simp_all add: eswitch_cli_parse_def parse_vs_def cli_consts)

lemma flat_canonical:
  assumes "parse_flat verb args = Some c"
  shows "eswitch_cli_parse (canonical_tokens (verb # args)) = Some (modern c)"
proof -
  note id = legacy_id_modern [of args True _ True c, simplified] legacy_id_modern [of args False _ True c, simplified]
  note port = legacy_port_modern [of args _ True]
  from flat_verbs [OF assms] show ?thesis
  proof (elim disjE)
    assume v: "verb = ''vs-create''"
    with v assms have "parse_legacy_id args True (cli_command ESWITCH_CLI_VS_CREATE True) = Some c" "cli_id c \<noteq> 0"
      by (simp_all add: flat_forms keep_if_Some)
    with v id(1) [of ESWITCH_CLI_VS_CREATE "[OPTION_ID, OPTION_NAME]"] show ?thesis
      by (simp add: canonical_forms vs_forms keep_if_Some del: append_Cons)
  next
    assume v: "verb = ''vs-delete''"
    with v assms have "parse_legacy_id args True (cli_command ESWITCH_CLI_VS_DELETE True) = Some c" "cli_id c \<noteq> 0"
      by (simp_all add: flat_forms keep_if_Some)
    with v id(1) [of ESWITCH_CLI_VS_DELETE "[OPTION_ID]"] show ?thesis
      by (simp add: canonical_forms vs_forms keep_if_Some del: append_Cons)
  next
    assume v: "verb = ''vs-list''"
    with v assms id(2) [of ESWITCH_CLI_VS_SHOW "[OPTION_ID]"] show ?thesis
      by (simp add: flat_forms canonical_forms vs_forms del: append_Cons)
  next
    assume v: "verb = ''show-fdb''"
    with v assms id(2) [of ESWITCH_CLI_FDB_SHOW "[OPTION_ID]"] show ?thesis
      by (simp add: flat_forms canonical_forms vs_forms del: append_Cons)
  next
    assume v: "verb = ''vs-port-attach''"
    with v assms obtain c0 where "parse_legacy_port args (cli_command ESWITCH_CLI_VS_PORT_ATTACH True) = Some c0"
      "cli_id c0 \<noteq> 0" "valid_port_membership_options c0 = Some c"
      by (auto simp: flat_forms keep_if_Some bind_eq_Some_conv)
    with v port [of ESWITCH_CLI_VS_PORT_ATTACH c0] membership_modern [of c0 c] show ?thesis
      by (simp add: canonical_forms vs_forms keep_if_def del: append_Cons)
  next
    assume v: "verb = ''vs-port-detach''"
    with v assms have "parse_legacy_port args (cli_command ESWITCH_CLI_VS_PORT_DETACH True) = Some c"
      "cli_id c \<noteq> 0 \<and> \<not> cli_has_mode c \<and> \<not> cli_has_vlan c"
      by (simp_all add: flat_forms keep_if_Some)
    with v port [of ESWITCH_CLI_VS_PORT_DETACH c] show ?thesis
      by (simp add: canonical_forms vs_forms keep_if_Some del: append_Cons)
  next
    assume v: "verb = ''list-port-available''"
    with v assms show ?thesis
      by (auto simp: flat_forms canonical_forms eswitch_cli_parse_def cli_consts split: if_splits)
  qed
qed

text \<open>C40: A deprecated flat alias means its canonical form: whenever a flat command is accepted, positional
  arguments included, the resource-first command with named options in its place is accepted and
  read as the same command.\<close>

theorem canonical_parse:
  assumes "eswitch_cli_parse tokens = Some c" "cli_legacy c"
  shows "eswitch_cli_parse (canonical_tokens tokens) = Some (modern c)"
proof -
  have no: "cli_read v False x \<Longrightarrow> \<not> cli_legacy x" for v x by (simp add: cli_read_def)
  have m: "cli_legacy y = cli_legacy x" if "valid_port_membership_options x = Some y" for x y
    using that by (auto simp: valid_port_membership_options_def Let_def split: if_splits)
  have f: "\<not> cli_legacy (cli_command v False)" "\<not> cli_legacy ((cli_command v False)\<lparr>cli_all_ports := True\<rparr>)" for v
    by (simp_all add: cli_command_def)
  obtain verb args where t: "tokens = verb # args" using assms(1) by (cases tokens) (auto simp: eswitch_cli_parse_def)
  have "parse_vs args \<noteq> Some c"
    using assms(2) no m by (fastforce simp: parse_vs_def keep_if_Some bind_eq_Some_conv dest!: parse_options_read
      split: list.splits if_split_asm)
  then have "parse_flat verb args = Some c"
    using assms no [of _ c] f unfolding t
    by (auto simp: eswitch_cli_parse_def dest!: parse_options_read split: if_split_asm)
  then show ?thesis unfolding t by (rule flat_canonical)
qed

theorem canonical_parse_witness:
  "\<exists>c. eswitch_cli_parse [''vs-list'', ''--id'', ''5''] = Some c \<and> cli_id c = 5 \<and>
     eswitch_cli_parse [''vs'', ''show'', ''--id'', ''5''] = Some (modern c)"
proof -
  have n: "cli_parse_u16 ''5'' = Some 5"
    by (simp add: cli_parse_u16_def strtoul_any_def magnitude_def digits_value_def hex_value_def is_space_def
        is_digit_def strtoul_value_def Let_def)
  let ?c = "(cli_command ESWITCH_CLI_VS_SHOW True)\<lparr>cli_id := 5, cli_has_id := True\<rparr>"
  have p: "eswitch_cli_parse [''vs-list'', ''--id'', ''5''] = Some ?c"
    by (simp add: eswitch_cli_parse_def cli_consts parse_flat_def parse_legacy_id_def parse_options_def cli_option_def n)
  have "cli_legacy ?c" by (simp add: cli_command_def)
  from canonical_parse [OF p this] p show ?thesis by (auto simp: canonical_tokens_def canonical_id_def)
qed

end
