(* ===== verification/Router_State.thy ===== *)
theory Router_State
  imports Router_Command Eswitch_State
begin

text \<open>
  The router's state file (\<^verbatim>\<open>router/router_state.c\<close>): a version line, the next interface id and the
  requests that rebuild the configuration, written under a temporary name and renamed; loading
  replays the requests on an empty configuration and installs the result only when every line
  was accepted.  Files are the map of \<open>Eswitch_State\<close>; what the C library answers, its error
  text included, is an argument.
\<close>

section \<open>Saving\<close>

definition state_fail :: "nat \<Rightarrow> string \<Rightarrow> reply" where
  "state_fail cap m = (False, take (cap - 1) (''ERR router state: '' @ m @ newline))"

definition state_version :: "router_config \<Rightarrow> nat" where
  "state_version c =
     (if cfg_egress_policies c \<noteq> [] \<or> cfg_egress_rules c \<noteq> [] then 5
      else if list_ex (\<lambda>r. pf_public_port r \<noteq> pf_public_port_last r) (cfg_port_forwards c) then 4
      else if cfg_port_forwards c \<noteq> [] then 3 else 2)"

definition interface_lines :: "router_interface \<Rightarrow> string list" where
  "interface_lines r =
     [''identity '' @ dec_u16 (rif_interface_id r) @ '' '' @ dec_u32 (pi_host (rif_port r)) @ '' '' @
        dec_u32 (pi_pf (rif_port r)) @ '' '' @ dec_u32 (pi_vf (rif_port r)),
      (case rif_attachment r of
         ROUTER_PORT \<Rightarrow> ''vr port-attach --id '' @ dec_u16 (rif_vr_id r) @ '' --name '' @ rif_name r @ '' --port 0''
       | ROUTER_VSWITCH \<Rightarrow> ''vr switch-attach --id '' @ dec_u16 (rif_vr_id r) @ '' --name '' @ rif_name r @
           '' --switch-id '' @ dec_u16 (rif_vswitch_id r)
       | ROUTER_LINK \<Rightarrow> ''vr link attach --id '' @ dec_u16 (rif_vr_id r) @ '' --name '' @ rif_name r @
           '' --link-id '' @ dec_u16 (rif_link_id r)),
      ''vr interface set --id '' @ dec_u16 (rif_vr_id r) @ '' --interface '' @ rif_name r @ '' --mac '' @
        mac_text (rif_mac r)] @
     (if rif_has_address r
        then [''vr ip add --id '' @ dec_u16 (rif_vr_id r) @ '' --interface '' @ rif_name r @ '' --address '' @
                ip_text (rif_address r) @ ''/'' @ dec_u8 (rif_prefix r)] else [])"

text \<open>The name of the referenced interface; the loops have no \<open>break\<close>, so the last match counts.\<close>

definition name_of :: "router_config \<Rightarrow> u16 \<Rightarrow> string option" where
  "name_of c i = map_option rif_name (last_match (\<lambda>r. rif_interface_id r = i) (cfg_interfaces c))"

definition name_in_vr :: "router_config \<Rightarrow> u16 \<Rightarrow> u16 \<Rightarrow> string option" where
  "name_in_vr c vr i =
     map_option rif_name (last_match (\<lambda>r. rif_interface_id r = i \<and> rif_vr_id r = vr) (cfg_interfaces c))"

definition route_line :: "router_config \<Rightarrow> router_route \<Rightarrow> string option" where
  "route_line c r = map_option (\<lambda>name.
     ''vr route add --id '' @ dec_u16 (rt_vr_id r) @ '' --interface '' @ name @ '' --prefix '' @
     ip_text (rt_prefix r) @ ''/'' @ dec_u8 (rt_length r) @ '' --via '' @ ip_text (rt_gateway r))
     (name_of c (rt_interface_id r))"

definition nat_line :: "router_config \<Rightarrow> router_nat_policy \<Rightarrow> string option" where
  "nat_line c p = map_option (\<lambda>name.
     ''vr nat enable --id '' @ dec_u16 (np_vr_id p) @ '' --interface '' @ name @ '' --address '' @
     (if np_public_address p \<noteq> 0 then ip_text (np_public_address p) else ''interface'') @ '' --port-range '' @
     dec_u16 (np_port_first p) @ ''-'' @ dec_u16 (np_port_last p))
     (name_of c (np_interface_id p))"

definition ports_text :: "u16 \<Rightarrow> u16 \<Rightarrow> string" where
  "ports_text a b = (if a = b then dec_u16 a else dec_u16 a @ ''-'' @ dec_u16 b)"

definition forward_line :: "router_config \<Rightarrow> router_port_forward \<Rightarrow> string option" where
  "forward_line c r = map_option (\<lambda>name.
     ''vr port-forward add --id '' @ dec_u16 (pf_vr_id r) @ '' --rule-id '' @ dec_u16 (pf_rule_id r) @
     '' --interface '' @ name @ '' --protocol '' @ (if pf_protocol r = 6 then ''tcp'' else ''udp'') @
     '' --public-port '' @ ports_text (pf_public_port r) (pf_public_port_last r) @
     '' --private-ip '' @ ip_text (pf_private_ip r) @
     '' --private-port '' @ ports_text (pf_private_port r) (pf_private_port_last r))
     (name_of c (pf_interface_id r))"

definition policy_line :: "router_config \<Rightarrow> bool \<Rightarrow> router_egress_policy \<Rightarrow> string option" where
  "policy_line c ing p = map_option (\<lambda>name.
     ''vr '' @ direction_text ing @ '' policy set --id '' @ dec_u16 (ep_vr_id p) @ '' --interface '' @ name @
     '' --default '' @ allow_text (ep_default_allow p))
     (name_in_vr c (ep_vr_id p) (ep_interface_id p))"

definition saved_rule_line :: "router_config \<Rightarrow> bool \<Rightarrow> router_egress_rule \<Rightarrow> string option" where
  "saved_rule_line c ing r = map_option (\<lambda>name.
     ''vr '' @ direction_text ing @ '' rule add --id '' @ dec_u16 (er_vr_id r) @ '' --interface '' @ name @
     '' --rule-id '' @ dec_u16 (er_rule_id r) @ '' --action '' @ allow_text (er_allow r) @
     '' --protocol '' @ protocol_text (er_protocol r) @
     '' --source '' @ ip_text (er_source r) @ ''/'' @ dec_u8 (er_source_prefix r) @
     '' --destination '' @ ip_text (er_destination r) @ ''/'' @ dec_u8 (er_destination_prefix r) @
     (if er_port_first r \<noteq> 0
        then '' --port-range '' @ dec_u16 (er_port_first r) @ ''-'' @ dec_u16 (er_port_last r) else []) @
     (if 0 \<le> er_icmp_type r then '' --icmp-type '' @ int_text (er_icmp_type r) else []) @
     (if 0 \<le> er_icmp_code r then '' --icmp-code '' @ int_text (er_icmp_code r) else []))
     (name_in_vr c (er_vr_id r) (er_interface_id r))"

text \<open>A section of lines: \<open>Inl\<close> the message of its first dangling reference.\<close>

fun lines_or :: "string \<Rightarrow> ('a \<Rightarrow> string option) \<Rightarrow> 'a list \<Rightarrow> string + string list" where
  "lines_or m f [] = Inr []"
| "lines_or m f (x # xs) =
     (case f x of None \<Rightarrow> Inl m
      | Some l \<Rightarrow> (case lines_or m f xs of Inl e \<Rightarrow> Inl e | Inr ls \<Rightarrow> Inr (l # ls)))"

fun join_sections :: "(string + string list) list \<Rightarrow> string + string list" where
  "join_sections [] = Inr []"
| "join_sections (x # xs) =
     (case x of Inl e \<Rightarrow> Inl e
      | Inr ls \<Rightarrow> (case join_sections xs of Inl e \<Rightarrow> Inl e | Inr ms \<Rightarrow> Inr (ls @ ms)))"

definition firewall_sections :: "router_config \<Rightarrow> bool \<Rightarrow> (string + string list) list" where
  "firewall_sections c ing =
     [lines_or ''dangling egress policy interface'' (policy_line c ing) (fw_policies c ing),
      lines_or ''dangling egress rule interface'' (saved_rule_line c ing) (fw_rules c ing)]"

definition config_lines :: "router_config \<Rightarrow> string + string list" where
  "config_lines c = join_sections
     ([Inr ([''router-state '' @ dec (state_version c), ''next '' @ dec_u32 (cfg_next_interface_id c)] @
            map (\<lambda>i. ''vr create --id '' @ dec_u16 i) (cfg_vr_ids c) @
            map (\<lambda>i. ''link create --id '' @ dec_u16 i) (cfg_link_ids c) @
            concat (map interface_lines (cfg_interfaces c))),
       lines_or ''dangling route reference'' (route_line c) (cfg_routes c),
       lines_or ''dangling NAT interface reference'' (nat_line c) (cfg_nat_policies c),
       lines_or ''dangling port-forward interface reference'' (forward_line c) (cfg_port_forwards c)] @
      firewall_sections c False @ firewall_sections c True)"

definition config_text :: "string list \<Rightarrow> string" where
  "config_text ls = concat (map (\<lambda>l. l @ [nl]) ls)"

text \<open>What \<open>mkstemp\<close> and the later calls answer; \<open>rio_error\<close> is the text of \<open>strerror(errno)\<close>.\<close>

record router_save_io =
  rio_name :: string
  rio_mkstemp :: bool
  rio_fdopen :: bool
  rio_write :: bool
  rio_close :: bool
  rio_rename :: bool
  rio_error :: string

definition router_config_save ::
  "router_save_io \<Rightarrow> string \<Rightarrow> router_config \<Rightarrow> nat \<Rightarrow> files \<Rightarrow> reply \<times> files" where
  "router_config_save io path c cap fs =
     (let tmp = rio_name io; failed = (\<lambda>m. (state_fail cap m, fs(tmp := None))) in
      if PATH_MAX \<le> length (path @ ''.tmp.XXXXXX'') then (state_fail cap ''path too long'', fs)
      else if \<not> rio_mkstemp io then (state_fail cap (rio_error io), fs)
      else if \<not> rio_fdopen io then failed (rio_error io)
      else case config_lines c of
        Inl m \<Rightarrow> failed m
      | Inr ls \<Rightarrow>
          if \<not> rio_write io \<or> \<not> rio_close io \<or> \<not> rio_rename io then failed (rio_error io)
          else ((True, []), fs(tmp := None, path := Some (config_text ls))))"

section \<open>Loading\<close>

definition replay_inventory :: "router_port_identity \<Rightarrow> router_inventory" where
  "replay_inventory port = \<lparr>inv_port = (\<lambda>p. if p \<noteq> 0 then None else Some port),
     inv_switch_exists = (\<lambda>i. i \<noteq> 0)\<rparr>"

text \<open>\<open>uints\<close>: the tag and exactly \<open>n\<close> decimal numbers of 32 bits.\<close>

definition uint32_token :: "string \<Rightarrow> u32 option" where
  "uint32_token t =
     (if \<not> list_all is_digit t \<or> 4294967295 < dec_value t then None else Some (of_nat (dec_value t)))"

definition uints :: "string \<Rightarrow> nat \<Rightarrow> string \<Rightarrow> u32 list option" where
  "uints tag n line =
     (case strtok line of
        [] \<Rightarrow> None
      | t # ts \<Rightarrow>
          if t \<noteq> tag \<or> length ts \<noteq> n \<or> \<not> list_all (\<lambda>x. uint32_token x \<noteq> None) ts then None
          else Some (map (\<lambda>x. the (uint32_token x)) ts))"

definition starts :: "string \<Rightarrow> string \<Rightarrow> bool" where
  "starts p line \<longleftrightarrow> take (length p) line = p"

definition attachment_line :: "string \<Rightarrow> bool" where
  "attachment_line line \<longleftrightarrow> list_ex (\<lambda>p. starts p line)
     [''vr port attach '', ''vr switch attach '', ''vr port-attach '', ''vr switch-attach '', ''vr link attach '']"

definition other_line :: "string \<Rightarrow> bool" where
  "other_line line \<longleftrightarrow> list_ex (\<lambda>p. starts p line)
     [''vr create '', ''link create '', ''vr interface set '', ''vr ip add '', ''vr route add '',
      ''vr nat enable '', ''vr port-forward add '', ''vr egress policy set '', ''vr egress rule add '',
      ''vr ingress policy set '', ''vr ingress rule add '']"

text \<open>
  One line; the state is the candidate, the identity announced for the next attachment (0 for
  none) and its port.  \<open>None\<close> rejects the file.
\<close>

type_synonym load_state = "router_config \<times> u32 \<times> router_port_identity"

definition load_state_line ::
  "u32 \<Rightarrow> nat \<Rightarrow> string \<Rightarrow> load_state \<Rightarrow> load_state option" where
  "load_state_line n cap line st =
     (case st of (c, identity, port) \<Rightarrow>
      if nl \<notin> set line then None
      else if starts ''identity '' line then
        (if identity \<noteq> 0 then None
         else case uints ''identity'' 4 line of
           None \<Rightarrow> None
         | Some vals \<Rightarrow>
             if vals ! 0 = 0 \<or> n \<le> vals ! 0 then None
             else if list_ex (\<lambda>r. ucast (rif_interface_id r) = vals ! 0) (cfg_interfaces c) then None
             else Some (c, vals ! 0, \<lparr>pi_host = vals ! 1, pi_pf = vals ! 2, pi_vf = vals ! 3\<rparr>))
      else let attachment = attachment_line line in
      if \<not> (attachment \<or> other_line line) \<or> attachment \<noteq> (identity \<noteq> 0) then None
      else let c1 = (if attachment then c\<lparr>cfg_next_interface_id := identity\<rparr> else c);
               x = router_command c1 (replay_inventory port) line cap in
      if \<not> cr_ok x \<or> \<not> cr_changed x then None
      else Some (cr_config x, if attachment then 0 else identity, port))"

lemma fgets_command_shorter:
  "text \<noteq> [] \<Longrightarrow> length (snd (fgets ROUTER_COMMAND_SIZE text)) < length text"
  by (cases "text") (auto simp: fgets_def ROUTER_COMMAND_SIZE_def Let_def)

function load_requests ::
  "u32 \<Rightarrow> nat \<Rightarrow> nat option \<Rightarrow> string \<Rightarrow> load_state \<Rightarrow> load_state option" where
  "load_requests n cap limit text st =
     (if text = [] \<or> limit = Some 0 then Some st
      else case load_state_line n cap (fst (fgets ROUTER_COMMAND_SIZE text)) st of
        None \<Rightarrow> None
      | Some st1 \<Rightarrow> load_requests n cap (map_option (\<lambda>k. k - 1) limit)
                      (snd (fgets ROUTER_COMMAND_SIZE text)) st1)"
  by pat_completeness auto

termination
  by (relation "measure (\<lambda>(n, cap, limit, text, st). length text)") (simp_all add: fgets_command_shorter)

declare load_requests.simps [simp del]

definition version_ok :: "string \<Rightarrow> bool" where
  "version_ok line \<longleftrightarrow> line \<in> set (map (\<lambda>v. ''router-state '' @ v @ [nl]) [''1'', ''2'', ''3'', ''4'', ''5''])"

text \<open>The whole file after \<open>fopen\<close>; a read error ends the loop and is seen by \<open>ferror\<close>.\<close>

definition load_text :: "nat \<Rightarrow> nat option \<Rightarrow> string \<Rightarrow> router_config option" where
  "load_text cap limit text =
     (let (line1, text1) = fgets ROUTER_COMMAND_SIZE text; (line2, text2) = fgets ROUTER_COMMAND_SIZE text1 in
      if text = [] \<or> limit = Some 0 \<or> \<not> version_ok line1 then None
      else if text1 = [] \<or> limit = Some 1 then None
      else case uints ''next'' 1 line2 of
        None \<Rightarrow> None
      | Some vals \<Rightarrow>
          if vals ! 0 = 0 \<or> 65536 < vals ! 0 then None
          else case load_requests (vals ! 0) cap (map_option (\<lambda>k. k - 2) limit) text2
                      (router_config_init, 0, \<lparr>pi_host = 0, pi_pf = 0, pi_vf = 0\<rparr>) of
            None \<Rightarrow> None
          | Some (c, identity, port) \<Rightarrow>
              if limit \<noteq> None \<or> identity \<noteq> 0 then None
              else Some (c\<lparr>cfg_next_interface_id := vals ! 0\<rparr>))"

definition router_config_load ::
  "load_io \<Rightarrow> string \<Rightarrow> bool \<Rightarrow> files \<Rightarrow> string \<Rightarrow> nat \<Rightarrow> router_config \<Rightarrow> reply \<times> router_config" where
  "router_config_load io err malloc_ok fs path cap config =
     (case fs path of
        None \<Rightarrow> ((True, []), config)
      | Some text \<Rightarrow>
          if \<not> lio_open io then (state_fail cap err, config)
          else if \<not> malloc_ok then (state_fail cap ''out of memory'', config)
          else case load_text cap (lio_read_error io) text of
            None \<Rightarrow> (state_fail cap ''invalid configuration (nothing loaded)'', config)
          | Some c \<Rightarrow> ((True, []), c))"

end
