(* ===== verification/Router_Control.thy ===== *)
theory Router_Control
  imports Router_State Packet_Run
begin

text \<open>
  Router requests as transactions (\<^verbatim>\<open>router/router_control.c\<close>): the command runs on a copy of the
  configuration; the hardware is then programmed for the candidate, the candidate is saved and
  installed, and every failure before the file is renamed takes the hardware back to the
  configuration in force.  The calls into the pipeline are the parameter \<open>control_env\<close>, which also
  holds the texts of error codes and of the two diagnostic commands.
\<close>

section \<open>The inventory of a manager\<close>

definition port_has_membership :: "eswitch_manager \<Rightarrow> nat \<Rightarrow> bool" where
  "port_has_membership m i \<longleftrightarrow>
     first_slot (\<lambda>p. pm_active p \<and> pm_port_index p = i) ESWITCH_MAX_PERSISTED_MEMBERS (mg_memberships m) \<noteq> None"

definition inventory_port :: "eswitch_manager \<Rightarrow> u16 \<Rightarrow> router_port_identity option" where
  "inventory_port m port =
     (case find_port_index m port of
        None \<Rightarrow> None
      | Some i \<Rightarrow>
          if eth_role (mg_ports m ! i) \<noteq> ETHERNET_PORT_ROLE_REPRESENTOR \<or> port_has_membership m i then None
          else Some (port_identity (mg_ports m ! i)))"

definition inventory_switch :: "eswitch_manager \<Rightarrow> u16 \<Rightarrow> bool" where
  "inventory_switch m vs \<longleftrightarrow>
     find_vswitch m vs \<noteq> None \<and>
     first_slot (\<lambda>p. pm_active p \<and> pm_vswitch_id p = vs \<and>
         eswitch_vlan_uses_tagged_domain (pm_mode p) (pm_vlan_id p) (pm_vlan_last p)
           (pm_vlan_extra_id p) (pm_vlan_extra_last p))
       ESWITCH_MAX_PERSISTED_MEMBERS (mg_memberships m) = None"

definition manager_inventory :: "eswitch_manager \<Rightarrow> router_inventory" where
  "manager_inventory m = \<lparr>inv_port = inventory_port m, inv_switch_exists = inventory_switch m\<rparr>"

text \<open>The interface attached to a port, whatever the role of the port.\<close>

definition port_interface_at :: "router_config \<Rightarrow> eswitch_manager \<Rightarrow> nat \<Rightarrow> router_interface option" where
  "port_interface_at c m i =
     (if length (mg_ports m) \<le> i then None
      else find (\<lambda>r. rif_attachment r = ROUTER_PORT \<and> rif_port r = port_identity (mg_ports m ! i))
             (cfg_interfaces c))"

section \<open>The calls of a transaction\<close>

record 's control_env =
  ce_attach_router_port :: "nat \<Rightarrow> u16 \<Rightarrow> 's \<Rightarrow> doca_error \<times> 's"
  ce_detach_port :: "nat \<Rightarrow> 's \<Rightarrow> doca_error \<times> 's"
  ce_egress_acl_sync :: "router_config \<Rightarrow> 's \<Rightarrow> doca_error \<times> 's"
  ce_ingress_deny_sync :: "router_config \<Rightarrow> 's \<Rightarrow> doca_error \<times> 's"
  ce_save_io :: "'s \<Rightarrow> router_save_io \<times> 's"
  ce_descr :: "doca_error \<Rightarrow> string"
  ce_status :: "eswitch_manager \<Rightarrow> nat \<Rightarrow> 's \<Rightarrow> string"
  ce_tx_debug :: "eswitch_manager \<Rightarrow> nat \<Rightarrow> 's \<Rightarrow> string"

definition state_path :: "eswitch_manager \<Rightarrow> string option" where
  "state_path m =
     (let p = mg_state_path m @ ''.router'' in if length p < PATH_MAX then Some p else None)"

definition same_context_identity :: "router_interface \<Rightarrow> router_interface option \<Rightarrow> bool" where
  "same_context_identity before after =
     (case after of
        None \<Rightarrow> False
      | Some a \<Rightarrow>
          if rif_attachment a \<noteq> rif_attachment before \<or> rif_vr_id a \<noteq> rif_vr_id before \<or>
             rif_has_address a \<noteq> rif_has_address before \<or> rif_address a \<noteq> rif_address before \<or>
             rif_mac a \<noteq> rif_mac before then False
          else if rif_attachment before = ROUTER_VSWITCH then rif_vswitch_id a = rif_vswitch_id before
          else if rif_attachment before = ROUTER_PORT then rif_port a = rif_port before
          else True)"

fun invalidate_interfaces ::
  "'s manager_env \<Rightarrow> router_config \<Rightarrow> router_interface list \<Rightarrow> 's \<Rightarrow> doca_error \<times> 's" where
  "invalidate_interfaces env c [] s = (DOCA_SUCCESS, s)"
| "invalidate_interfaces env c (before # rest) s =
     (if rif_attachment before = ROUTER_LINK \<or>
         same_context_identity before
           (find (\<lambda>r. rif_interface_id r = rif_interface_id before) (cfg_interfaces c))
        then invalidate_interfaces env c rest s
      else let (r, s1) = me_sf_unbind_rif env (rif_interface_id before) s in
      if r \<noteq> DOCA_SUCCESS then (r, s1) else invalidate_interfaces env c rest s1)"

definition invalidate_changed_rifs ::
  "'s manager_env \<Rightarrow> router_config \<Rightarrow> router_config \<Rightarrow> 's \<Rightarrow> doca_error \<times> 's" where
  "invalidate_changed_rifs env old c s = invalidate_interfaces env c (cfg_interfaces old) s"

definition rollback_prearmed_candidate ::
  "'s manager_env \<Rightarrow> 's control_env \<Rightarrow> eswitch_manager \<Rightarrow> router_config \<Rightarrow> router_config \<Rightarrow> 's \<Rightarrow> 's" where
  "rollback_prearmed_candidate env ce m old c s =
     (let s1 = foldl (\<lambda>s r. snd (me_sf_unbind_rif env (rif_interface_id r) s)) s (cfg_interfaces c);
          (r, s2) = eswitch_manager_router_prearm env m old s1 in
      if r \<noteq> DOCA_SUCCESS then s2
      else let (r, s3) = ce_egress_acl_sync ce old s2 in
      if r \<noteq> DOCA_SUCCESS then s3 else snd (ce_ingress_deny_sync ce old s3))"

text \<open>A step of the transaction: the text of its failure, if any; later steps then do not run.\<close>

type_synonym 's control_step = "string option \<times> 's"

definition checked :: "'s control_env \<Rightarrow> string \<Rightarrow> doca_error \<times> 's \<Rightarrow> 's control_step" where
  "checked ce what x =
     (if fst x = DOCA_SUCCESS then None
      else Some (''ERR '' @ what @ '' failed: '' @ ce_descr ce (fst x) @ newline), snd x)"

definition and_then :: "'s control_step \<Rightarrow> ('s \<Rightarrow> 's control_step) \<Rightarrow> 's control_step" where
  "and_then x f = (if fst x = None then f (snd x) else x)"

text \<open>
  The port that lost and the port that gained its router interface, with the virtual router; the
  loop runs to the end, so the last one counts.
\<close>

definition changed_port ::
  "router_config \<Rightarrow> router_config \<Rightarrow> eswitch_manager \<Rightarrow> (nat \<times> u16) option" where
  "changed_port left right m =
     map_option (\<lambda>i. (i, rif_vr_id (the (port_interface_at left m i))))
       (last_match (\<lambda>i. port_interface_at left m i \<noteq> None \<and> port_interface_at right m i = None)
          [0..<length (mg_ports m)])"

text \<open>
  The hardware programmed for the candidate: the failure text, whether the port was detached and
  the other attached, and the outer state.
\<close>

definition program_ports ::
  "'s control_env \<Rightarrow> (nat \<times> u16) option \<Rightarrow> (nat \<times> u16) option \<Rightarrow> 's control_step \<Rightarrow>
   bool \<times> bool \<times> 's control_step" where
  "program_ports ce removed added x =
     (let x1 = (case removed of None \<Rightarrow> x
          | Some (i, vr) \<Rightarrow> and_then x (\<lambda>s. checked ce ''router uplink detach'' (ce_detach_port ce i s)));
          x2 = (case added of None \<Rightarrow> x1
          | Some (i, vr) \<Rightarrow> and_then x1 (\<lambda>s. checked ce ''router uplink attach'' (ce_attach_router_port ce i vr s)))
      in (removed \<noteq> None \<and> fst x1 = None, added \<noteq> None \<and> fst x2 = None, x2))"

definition program_candidate ::
  "'s manager_env \<Rightarrow> 's control_env \<Rightarrow> eswitch_manager \<Rightarrow> router_config \<Rightarrow> router_config \<Rightarrow> bool \<Rightarrow>
   's control_step \<Rightarrow> 's control_step" where
  "program_candidate env ce m old c plan_changed x =
     (let x1 = and_then x (\<lambda>s. checked ce ''RIF context invalidation'' (invalidate_changed_rifs env old c s));
          x2 = and_then x1 (\<lambda>s. checked ce ''router SF context pre-arm'' (eswitch_manager_router_prearm env m c s));
          x3 = and_then x2 (\<lambda>s. checked ce ''guest egress ACL transaction'' (ce_egress_acl_sync ce c s));
          x4 = and_then x3 (\<lambda>s. checked ce ''public ingress deny transaction'' (ce_ingress_deny_sync ce c s)) in
      if \<not> plan_changed then x4
      else and_then x4 (\<lambda>s. checked ce ''hardware route transaction''
             (let (r, m', s') = eswitch_manager_hw_routes_sync env m (Some c) False s in (r, s'))))"

definition save_candidate ::
  "'s control_env \<Rightarrow> eswitch_manager \<Rightarrow> router_config \<Rightarrow> nat \<Rightarrow> files \<Rightarrow> 's control_step \<Rightarrow>
   files \<times> 's control_step" where
  "save_candidate ce m c cap fs x =
     (if fst x \<noteq> None then (fs, x)
      else case state_path m of
        None \<Rightarrow> (fs, Some (''ERR router state path too long'' @ newline), snd x)
      | Some path \<Rightarrow>
          let (io, s1) = ce_save_io ce (snd x); ((ok, message), fs1) = router_config_save io path c cap fs in
          (fs1, (if ok then None else Some message), s1))"

text \<open>The failed transaction taken back; what the calls answer here is not looked at.\<close>

definition undo_candidate ::
  "'s manager_env \<Rightarrow> 's control_env \<Rightarrow> eswitch_manager \<Rightarrow> router_config \<Rightarrow> router_config \<Rightarrow> bool \<Rightarrow>
   (nat \<times> u16) option \<Rightarrow> (nat \<times> u16) option \<Rightarrow> bool \<Rightarrow> bool \<Rightarrow> 's \<Rightarrow> eswitch_manager \<times> 's" where
  "undo_candidate env ce m old c plan_changed removed added detached attached s =
     (let (m1, s1) = (if plan_changed then snd (eswitch_manager_hw_routes_sync env m (Some old) True s) else (m, s));
          s2 = (if attached then snd (ce_detach_port ce (fst (the added)) s1) else s1);
          s3 = (if detached then snd (ce_attach_router_port ce (fst (the removed)) (snd (the removed)) s2) else s2)
      in (m1, rollback_prearmed_candidate env ce m1 old c s3))"

text \<open>Hardware connection tracking and the sessions emptied, \<open>None\<close> for an endless index walk.\<close>

definition flush_for_transaction ::
  "'s manager_env \<Rightarrow> 's control_env \<Rightarrow> eswitch_manager \<Rightarrow> 's \<Rightarrow> (eswitch_manager \<times> 's control_step) option" where
  "flush_for_transaction env ce m s =
     (let (r, s1) = me_acl_reply_flush env s;
          (r, m1, s2) = (if r = DOCA_SUCCESS then ct_flush env m 0 s1 else (r, m, s1));
          x = checked ce ''hardware CT flush'' (r, s2) in
      if r \<noteq> DOCA_SUCCESS then Some (m1, x)
      else map_option (\<lambda>nt. (m1\<lparr>mg_nat := nt\<rparr>, x)) (router_nat_flush (mg_nat m1) 0))"

definition drop_pending :: "eswitch_manager \<Rightarrow> eswitch_manager" where
  "drop_pending m =
     (let (q, n) = router_pending_expire (mg_pending m) (- 1) in
      m\<lparr>mg_pending := q,
        mg_counters := (mg_counters m)(Route_tx_drops := mg_counters m Route_tx_drops + of_nat n)\<rparr>)"

section \<open>Requests\<close>

type_synonym 's controlled = "(doca_error \<times> string \<times> eswitch_manager \<times> files \<times> 's) option"

definition commit_candidate ::
  "'s manager_env \<Rightarrow> eswitch_manager \<Rightarrow> router_config \<Rightarrow> 's \<Rightarrow> eswitch_manager \<times> 's" where
  "commit_candidate env m c s =
     (let m1 = m\<lparr>mg_router := Some c, mg_nat := router_nat_set_port_forwards (mg_nat m) c\<rparr>;
          (now, s1) = me_clock env s
      in snd (eswitch_manager_router_prepare env m1 c now s1))"

definition router_transaction ::
  "'s manager_env \<Rightarrow> 's control_env \<Rightarrow> eswitch_manager \<Rightarrow> router_config \<Rightarrow> router_config \<Rightarrow> string \<Rightarrow> nat \<Rightarrow>
   files \<Rightarrow> 's \<Rightarrow> 's controlled" where
  "router_transaction env ce m old c out cap fs s =
     (let (now, s1) = me_clock env s;
          plan_changed = (\<not> router_hw_route_plans_equal old c (mg_neighbors m) now) in
      case flush_for_transaction env ce (drop_pending m) s1 of
        None \<Rightarrow> None
      | Some (m1, x) \<Rightarrow>
          let removed = changed_port old c m1; added = changed_port c old m1;
              (detached, attached, x1) = program_ports ce removed added x;
              x2 = program_candidate env ce m1 old c plan_changed x1;
              (fs1, failure, s2) = save_candidate ce m1 c cap fs x2 in
          case failure of
            None \<Rightarrow> let (m2, s3) = commit_candidate env m1 c s2 in Some (DOCA_SUCCESS, out, m2, fs1, s3)
          | Some text \<Rightarrow>
              let (m2, s3) = undo_candidate env ce m1 old c plan_changed removed added detached attached s2 in
              Some (DOCA_ERROR_INVALID_VALUE, take (cap - 1) text, m2, fs1, s3))"

definition router_control_command ::
  "'s manager_env \<Rightarrow> 's control_env \<Rightarrow> eswitch_manager \<Rightarrow> string \<Rightarrow> nat \<Rightarrow> files \<Rightarrow> 's \<Rightarrow> 's controlled" where
  "router_control_command env ce m request cap fs s =
     (case mg_router m of
        None \<Rightarrow> Some (DOCA_ERROR_BAD_STATE,
                  take (cap - 1) (''ERR router control is not initialized'' @ newline), m, fs, s)
      | Some old \<Rightarrow>
          let (ok, s1) = me_malloc env s in
          if \<not> ok then Some (DOCA_ERROR_NO_MEMORY, take (cap - 1) (''ERR out of memory'' @ newline), m, fs, s1)
          else let x = router_command old (manager_inventory m) request cap in
          if \<not> cr_ok x then Some (DOCA_ERROR_INVALID_VALUE, cr_text x, m, fs, s1)
          else if \<not> cr_changed x then Some (DOCA_SUCCESS, cr_text x, m, fs, s1)
          else router_transaction env ce m old (cr_config x) (cr_text x) cap fs s1)"

section \<open>Start-up\<close>

definition attachment_available :: "eswitch_manager \<Rightarrow> router_config \<Rightarrow> router_interface \<Rightarrow> bool" where
  "attachment_available m c rif =
     (case rif_attachment rif of
        ROUTER_VSWITCH \<Rightarrow> inventory_switch m (rif_vswitch_id rif)
      | ROUTER_LINK \<Rightarrow> router_has_link c (rif_link_id rif)
      | ROUTER_PORT \<Rightarrow> list_ex (\<lambda>i. eth_role (mg_ports m ! i) = ETHERNET_PORT_ROLE_REPRESENTOR \<and>
            port_identity (mg_ports m ! i) = rif_port rif \<and> \<not> port_has_membership m i)
          [0..<length (mg_ports m)])"

fun attach_router_ports ::
  "'s control_env \<Rightarrow> eswitch_manager \<Rightarrow> router_interface list \<Rightarrow> 's \<Rightarrow> doca_error \<times> 's" where
  "attach_router_ports ce m [] s = (DOCA_SUCCESS, s)"
| "attach_router_ports ce m (rif # rifs) s =
     (if rif_attachment rif \<noteq> ROUTER_PORT then attach_router_ports ce m rifs s
      else case find_router_interface_port_index m rif of
        None \<Rightarrow> (DOCA_ERROR_NOT_FOUND, s)
      | Some i \<Rightarrow>
          let (r, s1) = ce_attach_router_port ce i (rif_vr_id rif) s in
          if r \<noteq> DOCA_SUCCESS then (r, s1) else attach_router_ports ce m rifs s1)"

definition router_control_restore ::
  "'s manager_env \<Rightarrow> 's control_env \<Rightarrow> load_io \<Rightarrow> string \<Rightarrow> bool \<Rightarrow> eswitch_manager \<Rightarrow> files \<Rightarrow> 's \<Rightarrow>
   doca_error \<times> eswitch_manager \<times> 's" where
  "router_control_restore env ce io err load_ok m fs s =
     (case state_path m of
        None \<Rightarrow> (DOCA_ERROR_TOO_BIG, m, s)
      | Some path \<Rightarrow>
          let (ok, s1) = me_malloc env s in
          if \<not> ok then (DOCA_ERROR_NO_MEMORY, m, s1)
          else let ((loaded, message), c) = router_config_load io err load_ok fs path 256 router_config_init in
          if \<not> loaded then (DOCA_ERROR_INVALID_VALUE, m\<lparr>mg_router := Some router_config_init\<rparr>, s1)
          else let m1 = m\<lparr>mg_router := Some c, mg_nat := router_nat_set_port_forwards (mg_nat m) c\<rparr> in
          if \<not> list_all (attachment_available m1 c) (cfg_interfaces c) then (DOCA_ERROR_NOT_FOUND, m1, s1)
          else let (r, s2) = attach_router_ports ce m1 (cfg_interfaces c) s1 in (r, m1, s2))"

end
