(* ===== verification/Manager_Command.thy ===== *)
theory Manager_Command
  imports Cli Router_Control Manager_Persist_Props
begin

text \<open>
  The commands of the control socket and the life cycle of the manager (the end of
  \<^verbatim>\<open>eswitch_manager.c\<close>): dispatch of a request, the listings, start-up with its restoration
  and shut-down.  The two diagnostic texts are calls of \<open>control_env\<close>.
\<close>

section \<open>Listings\<close>

definition member_text :: "eswitch_port_membership \<Rightarrow> string" where
  "member_text p =
     dec_u16 (pm_port_id p) @
     (if pm_mode p = ESWITCH_PORT_MODE_TRUNK then
        (if pm_vlan_extra_id p \<noteq> 0 then
           '':trunk/vlan='' @ dec_u16 (pm_vlan_id p) @
           (if pm_vlan_id p = pm_vlan_last p then [] else ''-'' @ dec_u16 (pm_vlan_last p)) @
           ''+'' @ dec_u16 (pm_vlan_extra_id p) @ ''-'' @ dec_u16 (pm_vlan_extra_last p)
         else if eswitch_vlan_is_range (pm_vlan_id p) (pm_vlan_last p) then
           '':trunk/vlan='' @ dec_u16 (pm_vlan_id p) @ ''-'' @ dec_u16 (pm_vlan_last p)
         else '':trunk/vlan='' @ dec_u16 (pm_vlan_id p))
      else if pm_vlan_id p \<noteq> 0 then '':access/vlan='' @ dec_u16 (pm_vlan_id p)
      else '':access'')"

fun member_texts :: "bool \<Rightarrow> eswitch_port_membership list \<Rightarrow> string list" where
  "member_texts first [] = []"
| "member_texts first (p # ps) = ((if first then [] else '','') @ member_text p) # member_texts False ps"

definition vswitch_chunks :: "eswitch_manager \<Rightarrow> managed_vswitch \<Rightarrow> string list" where
  "vswitch_chunks m v =
     [''vs='' @ dec_u16 (mv_id v) @ '' name='' @ (if mv_name v = [] then ''-'' else mv_name v) @ '' ports=['']
     @ member_texts True (switch_members m (mv_id v)) @ ['']'' @ newline]"

definition format_vswitches :: "eswitch_manager \<Rightarrow> nat \<Rightarrow> u16 \<Rightarrow> string" where
  "format_vswitches m cap vs =
     (let shown = filter (\<lambda>v. mv_exists v \<and> (vs = 0 \<or> mv_id v = vs))
            (map (mg_switches m) [0..<ESWITCH_MAX_VSWITCHES]) in
      fst (foldl (append_text cap) ([], 0)
        ([''OK'' @ newline] @ concat (map (vswitch_chunks m) shown) @
         (if shown = [] then [''(empty)'' @ newline] else []))))"

definition port_members :: "eswitch_manager \<Rightarrow> nat \<Rightarrow> eswitch_port_membership list" where
  "port_members m i = filter (\<lambda>p. pm_active p \<and> pm_port_index p = i)
     (map (mg_memberships m) [0..<ESWITCH_MAX_PERSISTED_MEMBERS])"

definition port_listed :: "eswitch_manager \<Rightarrow> bool \<Rightarrow> nat \<Rightarrow> bool" where
  "port_listed m everything i \<longleftrightarrow>
     eth_role (mg_ports m ! i) \<noteq> ETHERNET_PORT_ROLE_SF_REPRESENTOR \<and>
     (everything \<or>
      \<not> (list_ex (\<lambda>p. pm_mode p = ESWITCH_PORT_MODE_ACCESS) (port_members m i) \<or>
         router_control_port_reserved m i \<or>
         list_ex (\<lambda>p. pm_mode p = ESWITCH_PORT_MODE_TRUNK) (port_members m i) \<and>
         eth_role (mg_ports m ! i) \<noteq> ETHERNET_PORT_ROLE_PARENT))"

definition port_line :: "ethernet_port \<Rightarrow> string" where
  "port_line p =
     ''DPDK port '' @ dec_u16 (eth_port_id p) @
     (if eth_role p = ETHERNET_PORT_ROLE_PARENT then '' (uplink/parent)''
      else '' (host='' @ dec_u32 (eth_host_index p) @ '' pf='' @ dec_u32 (eth_pf_index p) @
           '' vf='' @ dec_u32 (eth_vf_index p) @ '')'') @ newline"

definition format_available_ports :: "eswitch_manager \<Rightarrow> nat \<Rightarrow> bool \<Rightarrow> string" where
  "format_available_ports m cap everything =
     (let shown = filter (port_listed m everything) [0..<length (mg_ports m)] in
      fst (foldl (append_text cap) ([], 0)
        ([''OK'' @ newline] @ map (\<lambda>i. port_line (mg_ports m ! i)) shown @
         (if shown = [] then [''(none)'' @ newline] else []))))"

section \<open>Commands\<close>

text \<open>The numbers of the enumeration in the vendored \<^verbatim>\<open>doca_error.h\<close>.\<close>

fun doca_error_code :: "doca_error \<Rightarrow> nat" where
  "doca_error_code DOCA_SUCCESS = 0"
| "doca_error_code DOCA_ERROR_IN_USE = 3"
| "doca_error_code DOCA_ERROR_NOT_SUPPORTED = 4"
| "doca_error_code DOCA_ERROR_INVALID_VALUE = 6"
| "doca_error_code DOCA_ERROR_NO_MEMORY = 7"
| "doca_error_code DOCA_ERROR_NOT_FOUND = 16"
| "doca_error_code DOCA_ERROR_IO_FAILED = 17"
| "doca_error_code DOCA_ERROR_BAD_STATE = 18"
| "doca_error_code DOCA_ERROR_DRIVER = 21"
| "doca_error_code DOCA_ERROR_ALREADY_EXIST = 23"
| "doca_error_code DOCA_ERROR_FULL = 24"
| "doca_error_code DOCA_ERROR_TOO_BIG = 27"
| "doca_error_code (DOCA_ERROR_OTHER n) = n"

text \<open>The reply to an operation; a syntax error also gets the usage of what was attempted.\<close>

definition command_reply :: "'s control_env \<Rightarrow> nat \<Rightarrow> string option \<Rightarrow> doca_error \<Rightarrow> string" where
  "command_reply ce cap usage r =
     (if r = DOCA_SUCCESS then take (cap - 1) (''OK'' @ newline)
      else let out = take (cap - 1) (''ERR code='' @ dec (doca_error_code r) @ '' message='' @
                       ce_descr ce r @ newline) in
        case usage of None \<Rightarrow> out | Some hint \<Rightarrow> fst (append_text cap (out, length out) hint))"

definition reply_managed :: "'s control_env \<Rightarrow> nat \<Rightarrow> 's managed \<Rightarrow> 's controlled" where
  "reply_managed ce cap x = (let (r, m, fs, s) = x in Some (r, command_reply ce cap None r, m, fs, s))"

text \<open>A switch that a router interface is attached to is neither deleted nor given a tagged domain.\<close>

definition switch_reserved :: "eswitch_manager \<Rightarrow> u16 \<Rightarrow> bool" where
  "switch_reserved m vs = (case mg_router m of None \<Rightarrow> False | Some c \<Rightarrow> router_switch_reserved c vs)"

definition delete_refusal :: string where
  "delete_refusal = ''ERR vSwitch is attached to a VR; detach it first with: '' @
     ''vr switch detach --id <vr-id> --interface <name>'' @ newline"

definition attach_refusal :: "u16 \<Rightarrow> string" where
  "attach_refusal vs = ''ERR code='' @ dec (doca_error_code DOCA_ERROR_IN_USE) @ '' message=vSwitch '' @
     dec_u16 vs @ '' is attached to a VR; range/list trunks and VLAN-aware access require a '' @
     ''VLAN-aware VR RIF'' @ newline"

definition switch_command ::
  "'s manager_env \<Rightarrow> 's control_env \<Rightarrow> eswitch_manager \<Rightarrow> eswitch_cli_command \<Rightarrow> nat \<Rightarrow> files \<Rightarrow> 's \<Rightarrow>
   's controlled" where
  "switch_command env ce m c cap fs s =
     (case cli_verb c of
        ESWITCH_CLI_VS_CREATE \<Rightarrow>
          reply_managed ce cap (create_vswitch_persisted env m (cli_id c) (cli_name c) fs s)
      | ESWITCH_CLI_VS_DELETE \<Rightarrow>
          if switch_reserved m (cli_id c)
            then Some (DOCA_ERROR_IN_USE, take (cap - 1) delete_refusal, m, fs, s)
          else reply_managed ce cap (delete_vswitch_persisted env m (cli_id c) fs s)
      | ESWITCH_CLI_VS_PORT_ATTACH \<Rightarrow>
          if switch_reserved m (cli_id c) \<and>
             eswitch_vlan_uses_tagged_domain (cli_mode c) (cli_vlan_id c) (cli_vlan_last c)
               (cli_vlan_extra_id c) (cli_vlan_extra_last c)
            then Some (DOCA_ERROR_IN_USE, take (cap - 1) (attach_refusal (cli_id c)), m, fs, s)
          else reply_managed ce cap (attach_port_persisted env m (cli_id c) (cli_port_id c) (cli_mode c)
                 (cli_vlan_id c) (cli_vlan_last c) (cli_vlan_extra_id c) (cli_vlan_extra_last c) fs s)
      | _ \<Rightarrow> Option.bind (detach_port_persisted env m (cli_id c) (cli_port_id c) fs s) (reply_managed ce cap))"

definition show_fdb :: "'s manager_env \<Rightarrow> eswitch_manager \<Rightarrow> u16 \<Rightarrow> nat \<Rightarrow> 's \<Rightarrow> string \<times> 's" where
  "show_fdb env m vs cap s =
     (let out = take (cap - 1) (''OK'' @ newline); (now, s1) = me_clock env s in
      (out @ fst (eswitch_fdb_format (mg_fdb m) vs now (cap - length out)), s1))"

definition eswitch_manager_command ::
  "'s manager_env \<Rightarrow> 's control_env \<Rightarrow> eswitch_manager \<Rightarrow> string \<Rightarrow> nat \<Rightarrow> files \<Rightarrow> 's \<Rightarrow> 's controlled" where
  "eswitch_manager_command env ce m request cap fs s =
     (let shown = (\<lambda>text. Some (DOCA_SUCCESS, text, m, fs, s));
          refused = (\<lambda>r usage. Some (r, command_reply ce cap usage r, m, fs, s));
          syntax = refused DOCA_ERROR_INVALID_VALUE (Some (eswitch_cli_usage_for_line request)) in
      if cap = 0 \<or> \<not> mg_initialized m then Some (DOCA_ERROR_INVALID_VALUE, [], m, fs, s)
      else if eswitch_cli_is_router_line request then router_control_command env ce m request cap fs s
      else case eswitch_cli_parse_line request of
        None \<Rightarrow> syntax
      | Some c \<Rightarrow>
          (case cli_verb c of
             ESWITCH_CLI_STATUS \<Rightarrow> shown (ce_status ce m cap s)
           | ESWITCH_CLI_TX_DEBUG \<Rightarrow> shown (ce_tx_debug ce m cap s)
           | ESWITCH_CLI_PORT_SHOW \<Rightarrow> shown (format_available_ports m cap (cli_all_ports c))
           | ESWITCH_CLI_VS_SHOW \<Rightarrow>
               if cli_id c \<noteq> 0 \<and> find_vswitch m (cli_id c) = None then refused DOCA_ERROR_NOT_FOUND None
               else shown (format_vswitches m cap (cli_id c))
           | ESWITCH_CLI_FDB_SHOW \<Rightarrow>
               let (text, s1) = show_fdb env m (cli_id c) cap s in Some (DOCA_SUCCESS, text, m, fs, s1)
           | ESWITCH_CLI_ROUTER \<Rightarrow> syntax
           | ESWITCH_CLI_INVALID \<Rightarrow> syntax
           | _ \<Rightarrow> switch_command env ce m c cap fs s))"

section \<open>Start-up and shut-down\<close>

text \<open>
  The whole of \<open>eswitch_manager_init\<close>: after the structure is set up, the switches and the router
  are restored and the hardware is programmed, each step only when the one before succeeded.
\<close>

definition restore_hardware ::
  "'s manager_env \<Rightarrow> 's control_env \<Rightarrow> eswitch_manager \<Rightarrow> 's \<Rightarrow> doca_error \<times> eswitch_manager \<times> 's" where
  "restore_hardware env ce m s =
     (case mg_router m of
        None \<Rightarrow> (DOCA_ERROR_INVALID_VALUE, m, s)
      | Some c \<Rightarrow>
          let (r, m1, s1) = eswitch_manager_router_prepare env m c (mg_started_ns m) s in
          if r \<noteq> DOCA_SUCCESS then (r, m1, s1)
          else let (r, s2) = ce_egress_acl_sync ce c s1 in
          if r \<noteq> DOCA_SUCCESS then (r, m1, s2)
          else let (r, s3) = ce_ingress_deny_sync ce c s2 in
          if r \<noteq> DOCA_SUCCESS then (r, m1, s3)
          else let (r, m2, s4) = eswitch_manager_hw_routes_sync env m1 (Some c) True s3 in
          if (r = DOCA_ERROR_NO_MEMORY \<or> r = DOCA_ERROR_FULL) \<and> me_routing_degraded env s4
            then (DOCA_SUCCESS, m2, s4)
          else (r, m2, s4))"

definition eswitch_manager_init ::
  "'s manager_env \<Rightarrow> 's control_env \<Rightarrow> load_io \<Rightarrow> load_io \<Rightarrow> string \<Rightarrow> bool \<Rightarrow> ethernet_port list \<Rightarrow> string \<Rightarrow>
   files \<Rightarrow> 's \<Rightarrow> 's managed" where
  "eswitch_manager_init env ce io router_io err load_ok ports path fs s =
     (let (r, m, s1) = manager_prepare env ports path s in
      if r \<noteq> DOCA_SUCCESS then (r, m, fs, s1)
      else let (r, m1, fs1, s2) = restore_manager env io m fs s1 in
      if r \<noteq> DOCA_SUCCESS then (r, m1, fs1, s2)
      else let (r, m2, s3) = router_control_restore env ce router_io err load_ok m1 fs1 s2 in
      if r \<noteq> DOCA_SUCCESS then (r, m2, fs1, s3)
      else let (r, m3, s4) = restore_hardware env ce m2 s3 in (r, m3, fs1, s4))"

text \<open>Every switch is deleted whatever the earlier ones answered; the first failure is kept.\<close>

fun delete_switches ::
  "'s manager_env \<Rightarrow> nat list \<Rightarrow> doca_error \<Rightarrow> eswitch_manager \<Rightarrow> 's \<Rightarrow> 's l2_result" where
  "delete_switches env [] first m s = (first, m, s)"
| "delete_switches env (i # is) first m s =
     (if \<not> mv_exists (mg_switches m i) then delete_switches env is first m s
      else let (r, m1, s1) = delete_vswitch env m (mv_id (mg_switches m i)) s in
        delete_switches env is (if first = DOCA_SUCCESS then r else first) m1 s1)"

definition eswitch_manager_destroy ::
  "'s manager_env \<Rightarrow> eswitch_manager \<Rightarrow> 's \<Rightarrow> 's l2_result" where
  "eswitch_manager_destroy env m s =
     (if \<not> mg_initialized m then (DOCA_SUCCESS, manager_zero, s)
      else let (r0, m0, s0) = ct_flush env m 0 s;
               (r1, m1, s1) = delete_switches env [0..<ESWITCH_MAX_VSWITCHES] r0 m0 s0 in
      if r1 \<noteq> DOCA_SUCCESS then (r1, m1, s1)
      else let (r2, fdb, s2) = eswitch_fdb_destroy (me_flow env) (mg_fdb m1) s1 in
      if r2 \<noteq> DOCA_SUCCESS then (r2, m1\<lparr>mg_fdb := fdb\<rparr>, s2) else (DOCA_SUCCESS, manager_zero, s2))"

end
