(* ===== verification/Daemon_Inv.thy ===== *)
theory Daemon_Inv
  imports Manager_Command
begin

text \<open>
  The invariant of the whole daemon: the tables of the switches, the packet path and the router
  configuration stay consistent with each other under every command, burst and maintenance round.
  What ties them together is the ownership of ports and switches: an interface of the router is
  attached to a port or switch that the inventory of the manager offers, which is what
  \<open>router_control_restore\<close> demands of a saved configuration.
\<close>

section \<open>Where interfaces are attached\<close>

definition rif_place :: "router_interface \<Rightarrow> u16 \<times> u16 \<times> router_attachment \<times> u16 \<times> u16 \<times> router_port_identity" where
  "rif_place r = (rif_interface_id r, rif_vr_id r, rif_attachment r, rif_vswitch_id r, rif_link_id r, rif_port r)"

text \<open>An operation keeps the places of interfaces, and adds at most one with a new id.\<close>

definition places_kept :: "router_inventory \<Rightarrow> router_config \<Rightarrow> router_config \<Rightarrow> bool" where
  "places_kept inven c c' \<longleftrightarrow>
     unat (cfg_next_interface_id c) \<le> unat (cfg_next_interface_id c') \<and>
     (\<forall>r\<in>set (cfg_interfaces c'). rif_place r \<in> rif_place ` set (cfg_interfaces c) \<or>
        unat (rif_interface_id r) = unat (cfg_next_interface_id c) \<and>
        (rif_attachment r = ROUTER_PORT \<longrightarrow> (\<exists>p. inv_port inven p = Some (rif_port r))) \<and>
        (rif_attachment r = ROUTER_VSWITCH \<longrightarrow> inv_switch_exists inven (rif_vswitch_id r)))"

lemma places_same:
  "cfg_interfaces c' = cfg_interfaces c \<Longrightarrow> cfg_next_interface_id c' = cfg_next_interface_id c \<Longrightarrow>
   places_kept inven c c'"
  by (simp add: places_kept_def)

lemma places_subset:
  "set (cfg_interfaces c') \<subseteq> set (cfg_interfaces c) \<Longrightarrow> cfg_next_interface_id c' = cfg_next_interface_id c \<Longrightarrow>
   places_kept inven c c'"
  by (auto simp: places_kept_def)

lemma places_update:
  assumes "k < length (cfg_interfaces c)" "rif_place y = rif_place (cfg_interfaces c ! k)"
  shows "places_kept inven c (c\<lparr>cfg_interfaces := (cfg_interfaces c)[k := y]\<rparr>)"
  using assms by (auto simp: places_kept_def dest!: set_update_subset_insert [THEN subsetD])

lemma fw_places [simp]:
  "cfg_interfaces (set_fw_policies c i ps) = cfg_interfaces c" "cfg_interfaces (set_fw_rules c i rs) = cfg_interfaces c"
  "cfg_next_interface_id (set_fw_policies c i ps) = cfg_next_interface_id c"
  "cfg_next_interface_id (set_fw_rules c i rs) = cfg_next_interface_id c"
  by (simp_all add: set_fw_policies_def set_fw_rules_def)

lemma in_remove_nth: "x \<in> set (remove_nth k xs) \<Longrightarrow> x \<in> set xs"
  by (auto simp: remove_nth_def dest: in_set_takeD in_set_dropD)

lemma attach_places:
  assumes wf: "config_wf c" and q: "q_op q \<in> {ATTACH_PORT, ATTACH_SWITCH, ATTACH_LINK}"
    and r: "attach c inven q = Inr c'"
  shows "places_kept inven c c'"
proof -
  obtain y where y: "attach_kind c inven q (fresh_interface c q) = Inr y"
    and c': "c' = c\<lparr>cfg_interfaces := cfg_interfaces c @ [y], cfg_next_interface_id := cfg_next_interface_id c + 1\<rparr>"
    and cap: "cfg_next_interface_id c \<le> 65535"
    using r by (auto simp: attach_def not_less split: if_splits sum.splits)
  have un: "unat (cfg_next_interface_id c) \<le> 65535" using cap by (simp add: word_le_nat_alt)
  then have id: "unat (ucast (cfg_next_interface_id c) :: u16) = unat (cfg_next_interface_id c)"
    by (simp add: unsigned_ucast_eq take_bit_eq_mod)
  have n1: "unat (cfg_next_interface_id c + 1) = unat (cfg_next_interface_id c) + 1"
    using un by (simp add: unat_word_ariths)
  have "unat (rif_interface_id y) = unat (cfg_next_interface_id c) \<and>
     (rif_attachment y = ROUTER_PORT \<longrightarrow> (\<exists>p. inv_port inven p = Some (rif_port y))) \<and>
     (rif_attachment y = ROUTER_VSWITCH \<longrightarrow> inv_switch_exists inven (rif_vswitch_id y))"
    using q y by (elim insertE emptyE)
      (simp_all add: attach_kind_def fresh_interface_def split: option.splits if_splits, auto simp: id)
  then show ?thesis by (auto simp: places_kept_def c' n1)
qed

lemma interface_command_places:
  assumes k: "k < length (cfg_interfaces c)" and r: "interface_command c q k = Inr c'"
  shows "places_kept inven c c'"
proof -
  have up: "rif_place (r\<lparr>rif_has_address := b, rif_address := a, rif_prefix := n\<rparr>) = rif_place r"
    "rif_place (r\<lparr>rif_mac := m\<rparr>) = rif_place r" for r b a n m by (simp_all add: rif_place_def)
  have d: "detach c q k = Inr c' \<Longrightarrow> ?thesis"
    by (auto simp: detach_def Let_def split: if_splits intro!: places_subset dest: in_remove_nth)
  have a: "ip_add c q k = Inr c' \<Longrightarrow> ?thesis" "ip_del c q k = Inr c' \<Longrightarrow> ?thesis" "mac_set c q k = Inr c' \<Longrightarrow> ?thesis"
    by (auto simp: ip_add_def ip_del_def mac_set_def Let_def up split: if_splits option.splits intro!: places_update [OF k])
  have s: "route_add c q k = Inr c' \<Longrightarrow> ?thesis" "nat_enable c q k = Inr c' \<Longrightarrow> ?thesis" "pf_add c q k = Inr c' \<Longrightarrow> ?thesis"
    by (auto simp: route_add_def nat_enable_def pf_add_def Let_def split: if_splits option.splits intro!: places_same)
  show ?thesis
    using r d a s by (cases "q_op q") (auto simp: interface_command_def places_same)
qed

lemma policy_command_places: "policy_command c q ko = Inr c' \<Longrightarrow> places_kept inven c c'"
  by (intro places_same)
    (auto simp: policy_command_def policy_set_def policy_delete_def rule_delete_def rule_add_def Let_def
      split: if_splits option.splits)

lemma router_apply_places:
  assumes wf: "config_wf c" and r: "router_apply c inven q = Inr c'"
  shows "places_kept inven c c'"
proof -
  have iface: "places_kept inven c c'"
    if "(case interface_index c (q_id q) (q_name q) of None \<Rightarrow> Inl ''interface not found in VR''
         | Some i \<Rightarrow> interface_command c q i) = Inr c'"
    using that find_index_Some [of _ "cfg_interfaces c"]
    by (auto simp: interface_index_def split: option.splits intro!: interface_command_places)
  have simple: "link_create c q = Inr c' \<Longrightarrow> places_kept inven c c'" "link_delete c q = Inr c' \<Longrightarrow> places_kept inven c c'"
    "vr_create c q = Inr c' \<Longrightarrow> places_kept inven c c'" "vr_delete c q = Inr c' \<Longrightarrow> places_kept inven c c'"
    "nat_disable c q = Inr c' \<Longrightarrow> places_kept inven c c'" "pf_delete c q = Inr c' \<Longrightarrow> places_kept inven c c'"
    "route_del c q = Inr c' \<Longrightarrow> places_kept inven c c'"
    by (intro places_same; auto simp: link_create_def link_delete_def vr_create_def vr_delete_def nat_disable_def
        pf_delete_def route_del_def split: if_splits option.splits)+
  note rules = simple policy_command_places attach_places [OF wf] iface
  show ?thesis
    using r by (cases "q_op q") (auto simp: router_apply_def Let_def split: if_splits intro: rules)
qed

lemma router_command_places:
  assumes "config_wf c"
  shows "places_kept inven c (cr_config (router_command c inven request cap))"
proof -
  have "places_kept inven c c" by (simp add: places_same)
  then show ?thesis
    using router_apply_places [OF assms]
    by (auto simp: router_command_def Let_def split: sum.splits prod.splits)
qed


section \<open>The invariant\<close>

text \<open>
  No port of another role carries the identity of a representor.  \<open>router_control_command\<close> relies
  on it, as it looks for the port of an interface by identity alone.
\<close>

definition representors_exclusive :: "ethernet_port list \<Rightarrow> bool" where
  "representors_exclusive ps \<longleftrightarrow>
     (\<forall>p\<in>set ps. \<forall>q\<in>set ps. eth_role p = ETHERNET_PORT_ROLE_REPRESENTOR \<and>
        port_identity p = port_identity q \<longrightarrow> eth_role q = ETHERNET_PORT_ROLE_REPRESENTOR)"

definition router_owned :: "eswitch_manager \<Rightarrow> bool" where
  "router_owned m \<longleftrightarrow>
     (\<exists>c. mg_router m = Some c \<and> config_wf c \<and> list_all (attachment_available m c) (cfg_interfaces c))"

definition daemon_inv :: "eswitch_manager \<Rightarrow> bool" where
  "daemon_inv m \<longleftrightarrow>
     l2_wf m \<and> names_ok m \<and> ports_identified (mg_ports m) \<and> representors_exclusive (mg_ports m) \<and>
     packet_inv m \<and> router_owned m"

text \<open>What no command touches.\<close>

definition same_frame :: "eswitch_manager \<Rightarrow> eswitch_manager \<Rightarrow> bool" where
  "same_frame m m' \<longleftrightarrow> mg_ports m' = mg_ports m \<and> mg_state_path m' = mg_state_path m \<and>
     mg_initialized m' = mg_initialized m"

lemma same_frame_refl [simp]: "same_frame m m"
  by (simp add: same_frame_def)

lemma same_frame_trans: "same_frame a b \<Longrightarrow> same_frame b c \<Longrightarrow> same_frame a c"
  by (simp add: same_frame_def)

definition evolves :: "eswitch_manager \<Rightarrow> eswitch_manager \<Rightarrow> bool" where
  "evolves m m' \<longleftrightarrow> same_frame m m' \<and> (daemon_inv m \<longrightarrow> daemon_inv m')"

lemma evolves_refl [simp]: "evolves m m"
  by (simp add: evolves_def)

lemma evolves_trans: "evolves a b \<Longrightarrow> evolves b c \<Longrightarrow> evolves a c"
  by (auto simp: evolves_def elim: same_frame_trans)

lemma owned_setup:
  assumes o: "router_owned m" and i: "ports_identified (mg_ports m)" and x: "representors_exclusive (mg_ports m)"
  shows "packet_setup m"
proof -
  from o obtain c where c: "mg_router m = Some c" "config_wf c"
    and a: "\<And>rif. rif \<in> set (cfg_interfaces c) \<Longrightarrow> attachment_available m c rif"
    by (auto simp: router_owned_def list_all_iff)
  have "eth_role p = ETHERNET_PORT_ROLE_REPRESENTOR"
    if p: "p \<in> set (mg_ports m)" "rif \<in> set (cfg_interfaces c)" "rif_attachment rif = ROUTER_PORT"
      "rif_port rif = port_identity p" for p rif
  proof -
    from a [OF p(2)] p(3,4) obtain k where k: "k < length (mg_ports m)"
      "eth_role (mg_ports m ! k) = ETHERNET_PORT_ROLE_REPRESENTOR" "port_identity (mg_ports m ! k) = port_identity p"
      by (auto simp: attachment_available_def list_ex_iff)
    with x p(1) show ?thesis unfolding representors_exclusive_def by (metis nth_mem)
  qed
  with c i show ?thesis by (simp add: packet_setup_def manager_interfaces_def)
qed

lemma daemon_setup: "daemon_inv m \<Longrightarrow> packet_setup m"
  by (simp add: daemon_inv_def owned_setup)

section \<open>The packet path\<close>

lemma owned_cong:
  assumes "mg_router m' = mg_router m" "mg_ports m' = mg_ports m" "mg_switches m' = mg_switches m"
    "mg_memberships m' = mg_memberships m"
  shows "router_owned m' = router_owned m"
proof -
  have "attachment_available m' = attachment_available m"
    using assms by (intro ext) (simp add: attachment_available_def inventory_switch_def port_has_membership_def
        find_vswitch_def cong: router_attachment.case_cong)
  then show ?thesis using assms by (simp add: router_owned_def)
qed

lemma keeps_evolves: "keeps m m' \<Longrightarrow> evolves m m'"
proof -
  assume k: "keeps m m'"
  then have s: "same_setup m m'" and p: "packet_inv m \<Longrightarrow> packet_inv m'" by (simp_all add: keeps_def)
  have "same_tables m m'" using s by (simp add: same_setup_def same_tables_def)
  then have "l2_wf m \<Longrightarrow> packet_inv m \<Longrightarrow> l2_wf m'" using p packet_invD(1) same_tables_wf by blast
  moreover have "router_owned m' = router_owned m"
    by (rule owned_cong) (use s in \<open>simp_all add: same_setup_def\<close>)
  moreover have "names_ok m' = names_ok m" using s by (simp add: same_setup_def names_ok_def active_switches_def)
  ultimately show ?thesis using s p by (simp add: evolves_def daemon_inv_def same_frame_def same_setup_def)
qed

section \<open>Changes of the switch tables\<close>

text \<open>What a change of the tables owes the router: its switches and ports stay on offer, and no
  member of its switches is lost that a resolved neighbor is behind.\<close>

definition offers_kept :: "eswitch_manager \<Rightarrow> eswitch_manager \<Rightarrow> bool" where
  "offers_kept m m' \<longleftrightarrow>
     (\<forall>vs. switch_reserved m vs \<and> inventory_switch m vs \<longrightarrow> inventory_switch m' vs) \<and>
     (\<forall>i. router_control_port_reserved m i \<and> \<not> port_has_membership m i \<longrightarrow> \<not> port_has_membership m' i)"

definition members_kept :: "eswitch_manager \<Rightarrow> eswitch_manager \<Rightarrow> bool" where
  "members_kept m m' \<longleftrightarrow>
     (\<forall>i<ROUTER_MAX_NEIGHBORS. let nb = nt_entries (mg_neighbors m') i in nb_used nb \<and> nb_resolved nb \<longrightarrow>
        (\<exists>k<ROUTER_MAX_NEIGHBORS. nb = nt_entries (mg_neighbors m) k) \<and>
        (\<forall>vs. switch_reserved m vs \<and> eswitch_port_in_vswitch m vs (nb_port_id nb) \<longrightarrow>
           eswitch_port_in_vswitch m' vs (nb_port_id nb)))"

lemma members_neighbors:
  assumes i: "packet_inv m" and r: "mg_router m' = mg_router m" and p: "mg_ports m' = mg_ports m"
    and k: "members_kept m m'"
  shows "resolved_ok (neighbor_valid m') (mg_neighbors m')"
  unfolding resolved_ok_def
proof (intro allI impI)
  fix j let ?nb = "nt_entries (mg_neighbors m') j"
  assume j: "j < ROUTER_MAX_NEIGHBORS" and u: "nb_used ?nb \<and> nb_resolved ?nb"
  with k obtain l where l: "?nb = nt_entries (mg_neighbors m) l" "l < ROUTER_MAX_NEIGHBORS"
    and vs: "\<And>vs. switch_reserved m vs \<Longrightarrow> eswitch_port_in_vswitch m vs (nb_port_id ?nb) \<Longrightarrow>
       eswitch_port_in_vswitch m' vs (nb_port_id ?nb)"
    by (auto simp: members_kept_def Let_def)
  from i u l(2) have v: "neighbor_valid m ?nb" unfolding l(1) by (auto simp: packet_inv_def resolved_ok_def)
  have fi: "find_router_interface m' = find_router_interface m"
    by (intro interface_cong) (simp add: r)
  have "validate_route_neighbor m' e ?nb"
    if e: "find_router_interface m (nb_vr_id ?nb) (nb_interface_id ?nb) = Some e" for e
  proof -
    from v e have old: "validate_route_neighbor m e ?nb" by (simp add: neighbor_valid_def)
    have "e \<in> set (manager_interfaces m)" using find_SomeD [OF e [unfolded find_router_interface_def]] by simp
    then have "rif_attachment e = ROUTER_VSWITCH \<Longrightarrow> switch_reserved m (rif_vswitch_id e)"
      by (cases "mg_router m") (auto simp: manager_interfaces_def switch_reserved_def router_switch_reserved_def list_ex_iff)
    with old vs show ?thesis
      by (auto simp: validate_route_neighbor_def find_port_index_def find_router_interface_port_index_def p
          split: option.splits if_splits)
  qed
  with v show "neighbor_valid m' ?nb" by (simp add: neighbor_valid_def r fi)
qed

lemma owned_offers:
  assumes o: "router_owned m" and r: "mg_router m' = mg_router m" and p: "mg_ports m' = mg_ports m"
    and k: "offers_kept m m'"
  shows "router_owned m'"
proof -
  from o obtain c where c: "mg_router m = Some c" "config_wf c"
    and a: "\<And>rif. rif \<in> set (cfg_interfaces c) \<Longrightarrow> attachment_available m c rif"
    by (auto simp: router_owned_def list_all_iff)
  have "attachment_available m' c rif" if rif: "rif \<in> set (cfg_interfaces c)" for rif
  proof (cases "rif_attachment rif")
    case ROUTER_VSWITCH
    then have "switch_reserved m (rif_vswitch_id rif)" using rif c
      by (auto simp: switch_reserved_def router_switch_reserved_def list_ex_iff)
    with a [OF rif] k ROUTER_VSWITCH show ?thesis by (simp add: attachment_available_def offers_kept_def)
  next
    case ROUTER_PORT
    with a [OF rif] obtain i where i: "i < length (mg_ports m)" "eth_role (mg_ports m ! i) = ETHERNET_PORT_ROLE_REPRESENTOR"
      "port_identity (mg_ports m ! i) = rif_port rif" "\<not> port_has_membership m i"
      by (auto simp: attachment_available_def list_ex_iff)
    have "router_control_port_reserved m i"
      using i rif ROUTER_PORT c by (auto simp: router_control_port_reserved_def router_port_reserved_def list_ex_iff)
    with k i(4) have "\<not> port_has_membership m' i" by (simp add: offers_kept_def)
    with i ROUTER_PORT show ?thesis by (auto simp: attachment_available_def list_ex_iff p)
  next
    case ROUTER_LINK
    with a [OF rif] show ?thesis by (simp add: attachment_available_def)
  qed
  with c r show ?thesis by (auto simp: router_owned_def list_all_iff)
qed

lemma tables_evolve:
  assumes "same_frame m m'" "mg_router m' = mg_router m" "mg_nat m' = mg_nat m" "mg_pending m' = mg_pending m"
    and "daemon_inv m \<Longrightarrow> l2_wf m'" "daemon_inv m \<Longrightarrow> names_ok m'" "daemon_inv m \<Longrightarrow> neighbor_wf (mg_neighbors m')"
    and "daemon_inv m \<Longrightarrow> offers_kept m m'" "daemon_inv m \<Longrightarrow> members_kept m m'"
  shows "evolves m m'"
proof -
  have "daemon_inv m'" if d: "daemon_inv m"
  proof -
    have i: "packet_inv m" using d by (simp add: daemon_inv_def)
    have p: "mg_ports m' = mg_ports m" using assms(1) by (simp add: same_frame_def)
    have "packet_inv m'"
      using i assms(3,4,5,7) d members_neighbors [OF i assms(2) p assms(9) [OF d]]
      by (simp add: packet_inv_def l2_wf_def)
    moreover have "router_owned m'"
      using owned_offers [OF _ assms(2) p assms(8) [OF d]] d by (simp add: daemon_inv_def)
    ultimately show ?thesis using d assms(5,6) p by (simp add: daemon_inv_def)
  qed
  with assms(1) show ?thesis by (simp add: evolves_def)
qed


section \<open>Lookups as statements about the tables\<close>

lemma names_iff:
  "names_ok m \<longleftrightarrow> (\<forall>k<ESWITCH_MAX_VSWITCHES. mv_exists (mg_switches m k) \<longrightarrow>
     mv_name (mg_switches m k) = [] \<or> eswitch_vs_name_valid (mv_name (mg_switches m k)))"
proof -
  have "set (active_switches m) =
      (\<lambda>k. (mv_id (mg_switches m k), mv_name (mg_switches m k))) ` {k. k < ESWITCH_MAX_VSWITCHES \<and> mv_exists (mg_switches m k)}"
    unfolding active_switches_def by auto
  then show ?thesis by (auto simp: names_ok_def)
qed

lemma port_member_iff:
  "port_has_membership m i \<longleftrightarrow> (\<exists>j<ESWITCH_MAX_PERSISTED_MEMBERS.
     pm_active (mg_memberships m j) \<and> pm_port_index (mg_memberships m j) = i)"
  by (auto simp: port_has_membership_def first_slot_None)

lemma in_vswitch_iff:
  "eswitch_port_in_vswitch m vs port \<longleftrightarrow> (\<exists>j<ESWITCH_MAX_PERSISTED_MEMBERS.
     pm_active (mg_memberships m j) \<and> pm_vswitch_id (mg_memberships m j) = vs \<and> pm_port_id (mg_memberships m j) = port)"
  by (auto simp: eswitch_port_in_vswitch_def find_membership_def first_slot_None)

lemma offered_iff:
  "inventory_switch m vs \<longleftrightarrow> switch_known m vs \<and> (\<forall>j<ESWITCH_MAX_PERSISTED_MEMBERS.
     pm_active (mg_memberships m j) \<and> pm_vswitch_id (mg_memberships m j) = vs \<longrightarrow> \<not> pm_tagged (mg_memberships m j))"
  by (auto simp: inventory_switch_def find_vswitch_None first_slot_None pm_tagged_def)

lemma unchanged_members:
  "mg_memberships m' = mg_memberships m \<Longrightarrow> mg_neighbors m' = mg_neighbors m \<Longrightarrow> members_kept m m'"
  by (auto simp: members_kept_def Let_def in_vswitch_iff)

section \<open>The operations on switches\<close>

lemma create_outcome:
  assumes "create_vswitch m vid = (r, m')"
  shows "m' = m \<and> r \<noteq> DOCA_SUCCESS \<or> r = DOCA_SUCCESS \<and> \<not> switch_known m vid \<and>
    (\<exists>k<ESWITCH_MAX_VSWITCHES. \<not> mv_exists (mg_switches m k) \<and>
       m' = m\<lparr>mg_switches := (mg_switches m)(k := \<lparr>mv_exists = True, mv_id = vid, mv_name = []\<rparr>)\<rparr>)"
  using assms by (auto simp: create_vswitch_def find_vswitch_None split: if_splits option.splits dest: first_slot_SomeD)

lemma create_evolves:
  assumes r: "create_vswitch m vid = (r, m')"
  shows "evolves m m'"
proof (cases "r = DOCA_SUCCESS")
  case True
  with create_outcome [OF r] obtain k where k: "k < ESWITCH_MAX_VSWITCHES" "\<not> mv_exists (mg_switches m k)"
    and m': "m' = m\<lparr>mg_switches := (mg_switches m)(k := \<lparr>mv_exists = True, mv_id = vid, mv_name = []\<rparr>)\<rparr>" by auto
  have known: "switch_known m vs \<Longrightarrow> switch_known m' vs" for vs
    using k by (auto simp: switch_known_def m')
  show ?thesis
  proof (rule tables_evolve)
    show "daemon_inv m \<Longrightarrow> l2_wf m'" using create_wf [OF _ r] by (simp add: daemon_inv_def)
    show "daemon_inv m \<Longrightarrow> names_ok m'" by (auto simp: daemon_inv_def names_iff m')
    show "offers_kept m m'" using known by (auto simp: offers_kept_def offered_iff port_member_iff m')
  qed (auto simp: m' same_frame_def daemon_inv_def packet_inv_def intro!: unchanged_members)
qed (use create_outcome [OF r] in simp)

lemma set_name_evolves:
  assumes n: "name = [] \<or> eswitch_vs_name_valid name"
  shows "evolves m (set_vswitch_name m vs name)"
proof (cases "find_vswitch m vs")
  case None
  then show ?thesis by (simp add: set_vswitch_name_def)
next
  case (Some k)
  let ?m = "set_vswitch_name m vs name"
  have m': "?m = m\<lparr>mg_switches := (mg_switches m)(k := (mg_switches m k)\<lparr>mv_name := name\<rparr>)\<rparr>"
    by (simp add: set_vswitch_name_def Some)
  have f: "mv_exists (mg_switches ?m i) = mv_exists (mg_switches m i)" "mv_id (mg_switches ?m i) = mv_id (mg_switches m i)" for i
    by (simp_all add: m')
  have known: "switch_known ?m = switch_known m" unfolding switch_known_def f ..
  show ?thesis
  proof (rule tables_evolve)
    show "daemon_inv m \<Longrightarrow> l2_wf ?m" using set_vswitch_name_wf by (simp add: daemon_inv_def)
    show "daemon_inv m \<Longrightarrow> names_ok ?m" using n by (auto simp: daemon_inv_def names_iff m')
    show "offers_kept m ?m" using known by (auto simp: offers_kept_def offered_iff port_member_iff m')
  qed (auto simp: m' same_frame_def daemon_inv_def packet_inv_def intro!: unchanged_members)
qed

lemma attach_check_free:
  assumes "attach_check m vs port mode v l ev el = Inr (i, j)"
  shows "\<not> router_control_port_reserved m i"
    "\<not> (pm_tagged (requested_member vs i port mode v l ev el) \<and> switch_reserved m vs)"
  using assms by (auto simp: attach_check_def Let_def switch_reserved_def split: if_splits option.splits)

lemma attach_evolves:
  assumes r: "attach_port env m vs port mode v l ev el s = (r, m', s')"
  shows "evolves m m'"
proof (cases "r = DOCA_SUCCESS")
  case True
  with attach_outcome [OF r] obtain i j where a: "attach_check m vs port mode v l ev el = Inr (i, j)"
    and m': "m' = store_member i vs j (stored_member (requested_member vs i port mode v l ev el)) m" by auto
  let ?p = "stored_member (requested_member vs i port mode v l ev el)"
  from attach_check_ok [OF a] have j: "j < ESWITCH_MAX_PERSISTED_MEMBERS" "\<not> pm_active (mg_memberships m j)"
    by (simp_all add: Let_def)
  have M: "mg_memberships m' = (mg_memberships m)(j := ?p)" "mg_switches m' = mg_switches m"
    "mg_neighbors m' = mg_neighbors m"
    by (simp_all add: m' store_member_def)
  have p: "pm_vswitch_id ?p = vs" "pm_port_index ?p = i" by (simp_all add: requested_member_def)
  have known: "switch_known m' = switch_known m" by (intro ext) (simp add: switch_known_def M)
  note free = attach_check_free [OF a]
  show ?thesis
  proof (rule tables_evolve)
    show "daemon_inv m \<Longrightarrow> l2_wf m'" using attach_port_wf [OF _ r] by (simp add: daemon_inv_def)
    show "daemon_inv m \<Longrightarrow> names_ok m'" by (simp add: daemon_inv_def names_iff M)
    have "pm_tagged ?p \<Longrightarrow> \<not> switch_reserved m vs" using free(2) by simp
    with free(1) p show "offers_kept m m'"
      by (auto simp: offers_kept_def offered_iff port_member_iff M known fun_upd_apply split: if_splits)
    show "members_kept m m'"
      using j by (auto simp: members_kept_def Let_def in_vswitch_iff M fun_upd_apply)
  qed (auto simp: m' store_member_def same_frame_def daemon_inv_def packet_inv_def)
qed (use attach_outcome [OF r] in simp)


text \<open>What detachment leaves of the rest of the state.\<close>

definition same_rest :: "eswitch_manager \<Rightarrow> eswitch_manager \<Rightarrow> bool" where
  "same_rest m m' \<longleftrightarrow> same_frame m m' \<and> mg_router m' = mg_router m \<and> mg_nat m' = mg_nat m \<and>
     mg_pending m' = mg_pending m \<and> mg_switches m' = mg_switches m"

lemma same_rest_trans: "same_rest a b \<Longrightarrow> same_rest b c \<Longrightarrow> same_rest a c"
  by (simp add: same_rest_def same_frame_def)

lemma sync_rest:
  "eswitch_manager_hw_routes_sync env m config active s = (r, m', s') \<Longrightarrow>
   same_rest m m' \<and> mg_neighbors m' = mg_neighbors m"
  by (auto simp: eswitch_manager_hw_routes_sync_def Let_def same_rest_def same_frame_def
      split: option.splits prod.splits if_splits)

lemma detach_rest:
  assumes r: "detach_port env m vs port s = (r, m', s')"
  shows "same_rest m m' \<and>
    (r = DOCA_SUCCESS \<longrightarrow> mg_neighbors m' = router_neighbor_invalidate_port (mg_neighbors m) port)"
proof (cases "find_vswitch m vs = None \<or> find_port_index m port = None \<or> find_membership m vs port = None")
  case True
  with r show ?thesis by (auto simp: detach_port_def same_rest_def split: if_splits option.splits)
next
  case False
  then obtain i j where i: "find_port_index m port = Some i" and j: "find_membership m vs port = Some j"
    and v: "find_vswitch m vs \<noteq> None" by auto
  obtain b0 s0 where a: "me_malloc env s = (b0, s0)" by force
  obtain r1 s1 where d: "me_detach env i vs s0 = (r1, s1)" by force
  obtain r2 s2 where fr: "me_flood_remove env vs port s1 = (r2, s2)" by force
  obtain r3 fdb s3 where fl: "eswitch_fdb_flush_port (me_flow env) (mg_fdb m) vs port s2 = (r3, fdb, s3)"
    by (metis prod_cases3)
  let ?m3 = "m\<lparr>mg_fdb := fdb\<rparr>"
  let ?m5 = "(clear_member i j ?m3)\<lparr>mg_neighbors :=
    router_neighbor_invalidate_port (mg_neighbors (clear_member i j ?m3)) port\<rparr>"
  obtain r6 m6 s6 where hw: "eswitch_manager_hw_routes_sync env ?m5 (mg_router ?m5) True s3 = (r6, m6, s6)"
    by (metis prod_cases3)
  obtain r7 s7 where rl: "me_release env i vs s6 = (r7, s7)" by force
  have guards: "(find_vswitch m vs = None) = False" using v by simp
  note red = r [unfolded detach_port_def guards if_False i j option.case Let_def a d fr fl hw rl prod.case]
  define m7 where "m7 = restore_member i vs j (mg_memberships m j) (mg_neighbors m) m6"
  note red' = red [folded m7_def]
  have m5: "same_rest m ?m5" "same_rest m ?m3" "same_rest m m"
    by (simp_all add: same_rest_def same_frame_def clear_member_def Let_def)
  then have m6: "same_rest m m6" "mg_neighbors m6 = router_neighbor_invalidate_port (mg_neighbors m) port"
    using sync_rest [OF hw] m5(1) by (auto simp: clear_member_def Let_def elim: same_rest_trans)
  have m7: "same_rest m m7"
    using m6(1) by (simp add: m7_def same_rest_def same_frame_def restore_member_def store_member_def)
  have resynced: "same_rest m m'"
    if "eswitch_manager_hw_routes_sync env m7 (mg_router m7) True t = (b, m', u)" for t b u
    using sync_rest [OF that] m7 same_rest_trans by blast
  have neq: "unless_failed e b \<noteq> DOCA_SUCCESS" if "e \<noteq> DOCA_SUCCESS" for e b
    using that by simp
  show ?thesis
  proof (cases "b0 \<and> r1 = DOCA_SUCCESS \<and> r2 = DOCA_SUCCESS \<and> r3 = DOCA_SUCCESS \<and> r6 = DOCA_SUCCESS \<and>
      r7 = DOCA_SUCCESS")
    case True
    with red' m6 show ?thesis by simp
  next
    case False
    have "r \<noteq> DOCA_SUCCESS \<and> (m' = m \<or> m' = ?m3 \<or> m' = m7 \<or>
        (\<exists>t b u. eswitch_manager_hw_routes_sync env m7 (mg_router m7) True t = (b, m', u)))"
    proof (cases "b0 \<and> r1 = DOCA_SUCCESS \<and> r2 = DOCA_SUCCESS \<and> r3 = DOCA_SUCCESS \<and> r6 = DOCA_SUCCESS")
      case True
      with False red' show ?thesis by (auto split: if_splits prod.splits)
    next
      case False
      with red' show ?thesis by (auto split: if_splits prod.splits)
    qed
    with m5 m7 resynced show ?thesis by blast
  qed
qed

lemma invalidated_entry:
  assumes "neighbor_wf t" "i < ROUTER_MAX_NEIGHBORS" "nb_used (nt_entries (router_neighbor_invalidate_port t port) i)"
  shows "nt_entries (router_neighbor_invalidate_port t port) i = nt_entries t i \<and> nb_port_id (nt_entries t i) \<noteq> port"
  using assms nbs.sweep_result(1) [of ROUTER_MAX_NEIGHBORS "nt_entries t" "nt_count t" "\<lambda>n. nb_port_id n = port"]
  by (auto simp: neighbor_wf_def neighbor_sweep_def router_neighbor_invalidate_port_def neighbor_zero_def
      slots_counted_def split: if_splits)

lemma neighbor_wf_invalidate: "neighbor_wf t \<Longrightarrow> neighbor_wf (router_neighbor_invalidate_port t port)"
  using neighbor_step_wf [of t "Invalidate port"] by simp

lemma detach_evolves:
  assumes r: "detach_port env m vs port s = (r, m', s')"
  shows "evolves m m'"
proof -
  have rest: "same_rest m m'" using detach_rest [OF r] by simp
  have out: "fdb_wf (mg_fdb m') \<and>
    (if r = DOCA_SUCCESS
     then \<exists>j. find_membership m vs port = Some j \<and>
       same_tables (clear_member (pm_port_index (mg_memberships m j)) j m) m'
     else same_tables m m' \<and> mg_neighbors m' = mg_neighbors m)" if "daemon_inv m"
    using detach_outcome [OF _ r] that by (simp add: daemon_inv_def)
  show ?thesis
  proof (rule tables_evolve)
    show "same_frame m m'" "mg_router m' = mg_router m" "mg_nat m' = mg_nat m" "mg_pending m' = mg_pending m"
      using rest by (simp_all add: same_rest_def)
    assume d: "daemon_inv m"
    then have n: "neighbor_wf (mg_neighbors m)" by (simp add: daemon_inv_def packet_inv_def)
    show "l2_wf m'" using detach_port_wf [OF _ r] d by (simp add: daemon_inv_def)
    show "names_ok m'" using d rest by (simp add: daemon_inv_def names_iff same_rest_def)
    have known: "switch_known m' = switch_known m"
      using rest by (intro ext) (simp add: switch_known_def same_rest_def)
    show "neighbor_wf (mg_neighbors m')"
      using detach_rest [OF r] out [OF d] neighbor_wf_invalidate [OF n] n by (cases "r = DOCA_SUCCESS") auto
    have "offers_kept m m' \<and> members_kept m m'"
    proof (cases "r = DOCA_SUCCESS")
      case False
      with out [OF d] have M: "mg_memberships m' = mg_memberships m" "mg_neighbors m' = mg_neighbors m"
        by (simp_all add: same_tables_def)
      with known show ?thesis
        by (auto simp: offers_kept_def offered_iff port_member_iff intro: unchanged_members)
    next
      case True
      with out [OF d] obtain j where j: "find_membership m vs port = Some j"
        and "same_tables (clear_member (pm_port_index (mg_memberships m j)) j m) m'" by auto
      then have M: "mg_memberships m' = (mg_memberships m)(j := membership_zero)"
        by (simp add: same_tables_def clear_member_tables)
      note jp = find_membership_Some [OF j]
      have z: "\<not> pm_active membership_zero" by (simp add: membership_zero_def)
      have N: "mg_neighbors m' = router_neighbor_invalidate_port (mg_neighbors m) port"
        using detach_rest [OF r] True by simp
      have "offers_kept m m'"
        using known z by (auto simp: offers_kept_def offered_iff port_member_iff M fun_upd_apply split: if_splits)
      moreover have "members_kept m m'"
        unfolding members_kept_def Let_def
      proof (intro allI impI conjI)
        fix i assume b: "i < ROUTER_MAX_NEIGHBORS" and u: "nb_used (nt_entries (mg_neighbors m') i) \<and> nb_resolved (nt_entries (mg_neighbors m') i)"
        then have e: "nt_entries (mg_neighbors m') i = nt_entries (mg_neighbors m) i"
          "nb_port_id (nt_entries (mg_neighbors m') i) \<noteq> port"
          using invalidated_entry [OF n b, of port] by (auto simp: N)
        then show "\<exists>k<ROUTER_MAX_NEIGHBORS. nt_entries (mg_neighbors m') i = nt_entries (mg_neighbors m) k"
          using b by blast
        fix w
        assume "switch_reserved m w \<and> eswitch_port_in_vswitch m w (nb_port_id (nt_entries (mg_neighbors m') i))"
        then obtain k where "k < ESWITCH_MAX_PERSISTED_MEMBERS" "pm_active (mg_memberships m k)"
          "pm_vswitch_id (mg_memberships m k) = w"
          "pm_port_id (mg_memberships m k) = nb_port_id (nt_entries (mg_neighbors m') i)"
          by (auto simp: in_vswitch_iff)
        moreover from this e(2) jp have "mg_memberships m' k = mg_memberships m k" by (auto simp: M)
        ultimately show "eswitch_port_in_vswitch m' w (nb_port_id (nt_entries (mg_neighbors m') i))"
          by (auto simp: in_vswitch_iff)
      qed
      ultimately show ?thesis by simp
    qed
    then show "offers_kept m m'" "members_kept m m'" by simp_all
  qed
qed


text \<open>Releasing the members of a switch touches no other one.\<close>

definition members_released :: "u16 \<Rightarrow> eswitch_manager \<Rightarrow> eswitch_manager \<Rightarrow> bool" where
  "members_released vid m m' \<longleftrightarrow> (\<forall>j. mg_memberships m' j = mg_memberships m j \<or>
     pm_vswitch_id (mg_memberships m j) = vid \<and> \<not> pm_active (mg_memberships m' j))"

lemma released_trans: "members_released vid a b \<Longrightarrow> members_released vid b c \<Longrightarrow> members_released vid a c"
  unfolding members_released_def by metis

lemma release_members_rest:
  "release_members env vid m js s = (r, m', s') \<Longrightarrow>
   same_rest m m' \<and> mg_neighbors m' = mg_neighbors m \<and> members_released vid m m'"
proof (induction js arbitrary: m s)
  case Nil
  then show ?case by (simp add: same_rest_def members_released_def)
next
  case (Cons j js)
  let ?p = "mg_memberships m j"
  let ?c = "clear_member (pm_port_index ?p) j m"
  have c: "same_rest m ?c" by (simp add: same_rest_def same_frame_def clear_member_def Let_def)
  have z: "\<not> pm_active membership_zero" by (simp add: membership_zero_def)
  show ?case
  proof (cases "\<not> pm_active ?p \<or> pm_vswitch_id ?p \<noteq> vid")
    case True
    with Cons show ?thesis by simp
  next
    case False
    obtain r1 s1 where rl: "me_release env (pm_port_index ?p) vid s = (r1, s1)" by force
    show ?thesis
    proof (cases "r1 = DOCA_SUCCESS")
      case True
      with False Cons.prems rl have "release_members env vid ?c js s1 = (r, m', s')" by simp
      note ih = Cons.IH [OF this]
      have "members_released vid m ?c" using z False by (simp add: members_released_def clear_member_tables)
      with ih c show ?thesis by (auto simp: clear_member_tables elim: same_rest_trans released_trans)
    next
      case nok: False
      with False Cons.prems rl show ?thesis by (simp add: same_rest_def members_released_def)
    qed
  qed
qed

lemma released_offers:
  assumes u: "\<not> switch_reserved m vid" and r: "members_released vid m m'"
    and known: "\<And>w. w \<noteq> vid \<Longrightarrow> switch_known m w \<Longrightarrow> switch_known m' w"
    and n: "mg_neighbors m' = mg_neighbors m"
  shows "offers_kept m m' \<and> members_kept m m'"
proof -
  have old: "pm_active (mg_memberships m' j) \<Longrightarrow> mg_memberships m' j = mg_memberships m j" for j
    using r by (auto simp: members_released_def)
  have kept: "pm_vswitch_id (mg_memberships m j) \<noteq> vid \<Longrightarrow> mg_memberships m' j = mg_memberships m j" for j
    using r by (auto simp: members_released_def)
  have "inventory_switch m' w" if w: "switch_reserved m w" "inventory_switch m w" for w
  proof -
    have "w \<noteq> vid" using u w by blast
    with w(2) known old show ?thesis unfolding offered_iff by metis
  qed
  moreover have "port_has_membership m' i \<Longrightarrow> port_has_membership m i" for i
    using old unfolding port_member_iff by metis
  moreover have "eswitch_port_in_vswitch m' w q" if w: "switch_reserved m w" "eswitch_port_in_vswitch m w q" for w q
  proof -
    have "w \<noteq> vid" using u w by blast
    with w(2) kept show ?thesis unfolding in_vswitch_iff by metis
  qed
  ultimately show ?thesis using n by (auto simp: offers_kept_def members_kept_def Let_def)
qed

lemma delete_evolves:
  assumes u: "\<not> switch_reserved m vid" and r: "delete_vswitch env m vid s = (r, m', s')"
  shows "evolves m m'"
proof (cases "find_vswitch m vid")
  case None
  with r show ?thesis by (simp add: delete_vswitch_def)
next
  case (Some k)
  obtain r1 s1 where b: "me_sf_unbind_vswitch env vid s = (r1, s1)" by force
  obtain r2 fdb s2 where fl: "eswitch_fdb_flush_vswitch (me_flow env) (mg_fdb m) vid s1 = (r2, fdb, s2)"
    by (metis prod_cases3)
  let ?m2 = "m\<lparr>mg_fdb := fdb\<rparr>"
  obtain r3 s3 where d: "detach_members env vid ?m2 [0..<ESWITCH_MAX_PERSISTED_MEMBERS] s2 = (r3, s3)" by force
  obtain r4 s4 where fd: "me_flood_destroy env vid s3 = (r4, s4)" by force
  obtain r5 m5 s5 where rl: "release_members env vid ?m2 [0..<ESWITCH_MAX_PERSISTED_MEMBERS] s4 = (r5, m5, s5)"
    by (metis prod_cases3)
  define m6 where "m6 = m5\<lparr>mg_switches := (mg_switches m5)(k := vswitch_zero)\<rparr>"
  note red = r [unfolded delete_vswitch_def Some option.case Let_def b fl d fd rl prod.case, folded m6_def]
  have k: "mv_id (mg_switches m k) = vid" using find_vswitch_Some [OF Some] by simp
  have rest: "same_rest ?m2 m5" "mg_neighbors m5 = mg_neighbors m" "members_released vid m m5"
    using release_members_rest [OF rl] by (simp_all add: members_released_def)
  have r5: "same_rest m m5" using rest(1) by (simp add: same_rest_def same_frame_def)
  have out: "m' = m \<or> m' = ?m2 \<or> m' = m5 \<or> m' = m6"
    using red by (auto split: if_splits)
  have known: "switch_known m' w" if "w \<noteq> vid" "switch_known m w" for w
    using out that rest(1) k
    by (elim disjE) (auto simp: switch_known_def m6_def same_rest_def)
  let ?P = "\<lambda>x. same_frame m x \<and> mg_router x = mg_router m \<and> mg_nat x = mg_nat m \<and> mg_pending x = mg_pending m \<and>
     mg_neighbors x = mg_neighbors m \<and> members_released vid m x"
  have "?P m" "?P ?m2" by (simp_all add: members_released_def same_frame_def)
  moreover have p5: "?P m5" using r5 rest(2,3) by (simp add: same_rest_def)
  moreover from p5 have "?P m6" by (simp add: m6_def same_frame_def members_released_def)
  ultimately have F: "same_frame m m'" "mg_router m' = mg_router m" "mg_nat m' = mg_nat m"
    "mg_pending m' = mg_pending m" "mg_neighbors m' = mg_neighbors m" "members_released vid m m'"
    using out by metis+
  have names: "names_ok m \<Longrightarrow> names_ok m'"
    using out rest(1) by (elim disjE) (auto simp: names_iff m6_def same_rest_def vswitch_zero_def)
  have ok: "offers_kept m m' \<and> members_kept m m'"
    by (rule released_offers [OF u F(6) known F(5)])
  show ?thesis
  proof (rule tables_evolve)
    show "daemon_inv m \<Longrightarrow> l2_wf m'" using delete_wf [OF _ r] by (simp add: daemon_inv_def)
  qed (use F names ok in \<open>simp_all add: daemon_inv_def packet_inv_def\<close>)
qed

section \<open>Flushing\<close>

lemma nat_flush_keeps: "packet_inv m \<Longrightarrow> \<exists>t. router_nat_flush (mg_nat m) vr = Some t \<and> keeps m (m\<lparr>mg_nat := t\<rparr>)"
proof -
  assume i: "packet_inv m"
  from nat_flush_aux [OF packet_invD(2) [OF i], of vr] obtain t where t: "router_nat_flush (mg_nat m) vr = Some t" "nat_wf t"
    by blast
  have "keeps m (m\<lparr>mg_nat := t\<rparr>)" using t(2) by (intro keepsI) (simp_all add: same_setup_def packet_invD)
  with t show ?thesis by blast
qed

lemma drop_pending_keeps: "keeps m (drop_pending m)"
proof -
  obtain q n where q: "router_pending_expire (mg_pending m) (- 1) = (q, n)" by force
  have "pending_wf (mg_pending m) \<Longrightarrow> pending_wf q"
    using pending_step_wf [of "mg_pending m" "Expire (- 1)"] q by simp
  then show ?thesis unfolding drop_pending_def q
    by (intro keepsI) (simp_all add: same_setup_def packet_invD)
qed

end
