(* ===== verification/Daemon_Run.thy ===== *)
theory Daemon_Run
  imports Daemon_Inv
begin

text \<open>
  The invariant of \<open>Daemon_Inv\<close> under the persisted operations, router transactions and requests,
  and under any sequence of requests, bursts and maintenance rounds.
\<close>

section \<open>Persisted operations\<close>

lemma evolvesD: "evolves m m' \<Longrightarrow> daemon_inv m \<Longrightarrow> daemon_inv m'"
  by (simp add: evolves_def)

lemma reserved_known:
  assumes d: "daemon_inv m" and v: "switch_reserved m vs"
  shows "switch_known m vs"
proof -
  from d obtain c where c: "mg_router m = Some c" "list_all (attachment_available m c) (cfg_interfaces c)"
    by (auto simp: daemon_inv_def router_owned_def)
  with v obtain rif where rif: "rif \<in> set (cfg_interfaces c)" "rif_attachment rif = ROUTER_VSWITCH" "rif_vswitch_id rif = vs"
    by (auto simp: switch_reserved_def router_switch_reserved_def list_ex_iff)
  with c(2) have "attachment_available m c rif" by (simp add: list_all_iff)
  with rif show ?thesis by (simp add: attachment_available_def offered_iff)
qed

lemma create_router: "create_vswitch m vs = (r, m') \<Longrightarrow> mg_router m' = mg_router m"
  using create_outcome [of m vs r m'] by auto

lemma set_name_router [simp]: "mg_router (set_vswitch_name m vs name) = mg_router m"
  by (simp add: set_vswitch_name_def split: option.split)

lemma create_persisted_evolves:
  assumes d: "daemon_inv m" and n: "name = [] \<or> eswitch_vs_name_valid name"
    and r: "create_vswitch_persisted env m vs name fs s = (r, m', fs', s')"
  shows "evolves m m'"
proof -
  obtain r1 m1 where c: "create_vswitch m vs = (r1, m1)" by force
  let ?m2 = "set_vswitch_name m1 vs name"
  obtain w fs2 s2 where p: "persist_manager env ?m2 fs s = (w, fs2, s2)" by (metis prod_cases3)
  obtain b m3 s3 where dl: "delete_vswitch env ?m2 vs s2 = (b, m3, s3)" by (metis prod_cases3)
  note red = r [unfolded create_vswitch_persisted_def c p dl Let_def prod.case]
  note e1 = create_evolves [OF c]
  have e2: "evolves m ?m2" by (rule evolves_trans [OF e1 set_name_evolves [OF n]])
  have "evolves m m3" if "r1 = DOCA_SUCCESS"
  proof -
    have "\<not> switch_known m vs" using create_outcome [OF c] that by auto
    then have "\<not> switch_reserved ?m2 vs"
      using reserved_known [OF d] create_router [OF c] by (auto simp: switch_reserved_def)
    from delete_evolves [OF this dl] show ?thesis by (rule evolves_trans [OF e2])
  qed
  with red e1 e2 show ?thesis by (auto split: if_splits)
qed

lemma undo_attach_evolves:
  "undo_attach env r m vs port fs s = (r', m', fs', s') \<Longrightarrow> evolves m m'"
  by (auto simp: undo_attach_def Let_def split: prod.splits if_splits dest: detach_evolves)

lemma attach_persisted_evolves:
  assumes r: "attach_port_persisted env m vs port mode v l ev el fs s = (r, m', fs', s')"
  shows "evolves m m'"
proof -
  obtain r1 m1 s1 where a: "attach_port env m vs port mode v l ev el s = (r1, m1, s1)" by (metis prod_cases3)
  from attach_evolves [OF a] r a show ?thesis
    by (auto simp: attach_port_persisted_def Let_def split: prod.splits if_splits
        dest: undo_attach_evolves elim: evolves_trans)
qed

lemma ct_flush_evolves: "ct_flush env m vr s = (r, m', s') \<Longrightarrow> evolves m m'"
  using keeps_evolves [OF flush_keeps [of m env vr s]] by simp

lemma detach_persisted_settles:
  assumes d: "daemon_inv m"
  shows "\<exists>r m' fs' s'. detach_port_persisted env m vs port fs s = Some (r, m', fs', s') \<and> evolves m m'"
proof (cases "find_vswitch m vs = None \<or> find_port_index m port = None \<or> find_membership m vs port = None")
  case True
  then show ?thesis by (auto simp: detach_port_persisted_def)
next
  case False
  then obtain j where j: "find_membership m vs port = Some j" and v: "(find_vswitch m vs = None) = False"
    "(find_port_index m port = None) = False" by auto
  obtain r0 s1 where a: "me_acl_reply_flush env s = (r0, s1)" by force
  obtain r1 m1 s2 where c: "(if r0 = DOCA_SUCCESS then ct_flush env m 0 s1 else (r0, m, s1)) = (r1, m1, s2)"
    by (metis prod_cases3)
  have e1: "evolves m m1" using c ct_flush_evolves by (cases "r0 = DOCA_SUCCESS") auto
  have i: "packet_inv m1" using evolvesD [OF e1 d] by (simp add: daemon_inv_def)
  from nat_flush_keeps [OF i, of 0] obtain nt where nt: "router_nat_flush (mg_nat m1) 0 = Some nt"
    and k2: "keeps m1 (m1\<lparr>mg_nat := nt\<rparr>)" by blast
  let ?m2 = "m1\<lparr>mg_nat := nt\<rparr>"
  have e2: "evolves m ?m2" by (rule evolves_trans [OF e1 keeps_evolves [OF k2]])
  obtain r3 s3 where u: "unarm_router_member env ?m2 vs port s2 = (r3, s3)" by force
  obtain r4 m4 s4 where dp: "detach_port env ?m2 vs port s3 = (r4, m4, s4)" by (metis prod_cases3)
  have e4: "evolves m m4" by (rule evolves_trans [OF e2 detach_evolves [OF dp]])
  obtain w fs5 s5 where p: "persist_manager env m4 fs s4 = (w, fs5, s5)" by (metis prod_cases3)
  let ?o = "mg_memberships m j"
  obtain b m6 s6 where at: "attach_port env m4 vs port (pm_mode ?o) (pm_vlan_id ?o) (pm_vlan_last ?o)
      (pm_vlan_extra_id ?o) (pm_vlan_extra_last ?o) s5 = (b, m6, s6)" by (metis prod_cases3)
  have e6: "evolves m m6" by (rule evolves_trans [OF e4 attach_evolves [OF at]])
  obtain b2 s7 where pr: "prearm_active env m6 s6 = (b2, s7)" by force
  show ?thesis
    unfolding detach_port_persisted_def v if_False j option.case Let_def a prod.case c nt u dp p at pr
    using e1 e2 e4 e6 by simp
qed

lemma reattach_members_evolves:
  "reattach_members env m vs ps s = (r, m', s') \<Longrightarrow> evolves m m'"
proof (induction ps arbitrary: m s)
  case (Cons p ps)
  obtain r1 m1 s1 where a: "attach_port env m vs (pm_port_id p) (pm_mode p) (pm_vlan_id p)
    (pm_vlan_last p) (pm_vlan_extra_id p) (pm_vlan_extra_last p) s = (r1, m1, s1)" by (metis prod_cases3)
  note e = attach_evolves [OF a]
  show ?case
  proof (cases "r1 = DOCA_SUCCESS")
    case True
    with Cons.prems a have "reattach_members env m1 vs ps s1 = (r, m', s')" by simp
    from evolves_trans [OF e Cons.IH [OF this]] show ?thesis .
  qed (use Cons.prems a e in simp)
qed simp

lemma names_stored: "names_ok m \<Longrightarrow> find_vswitch m vs = Some k \<Longrightarrow>
   mv_name (mg_switches m k) = [] \<or> eswitch_vs_name_valid (mv_name (mg_switches m k))"
  using find_vswitch_Some [of m vs k] by (simp add: names_iff)

lemma delete_persisted_evolves:
  assumes d: "daemon_inv m" and u: "\<not> switch_reserved m vs"
    and r: "delete_vswitch_persisted env m vs fs s = (r, m', fs', s')"
  shows "evolves m m'"
proof (cases "find_vswitch m vs")
  case None
  with r show ?thesis by (simp add: delete_vswitch_persisted_def)
next
  case (Some k)
  let ?n = "mv_name (mg_switches m k)"
  obtain ok s0 where a: "me_malloc env s = (ok, s0)" by force
  obtain r1 m1 s1 where dl: "delete_vswitch env m vs s0 = (r1, m1, s1)" by (metis prod_cases3)
  obtain w fs2 s2 where p: "persist_manager env m1 fs s1 = (w, fs2, s2)" by (metis prod_cases3)
  obtain b m3 where c: "create_vswitch m1 vs = (b, m3)" by force
  obtain b2 m4 s4 where re: "reattach_members env (set_vswitch_name m3 vs ?n) vs (switch_members m vs) s2 = (b2, m4, s4)"
    by (metis prod_cases3)
  note red = r [unfolded delete_vswitch_persisted_def Some option.case Let_def a dl p c re prod.case]
  have n: "?n = [] \<or> eswitch_vs_name_valid ?n" using names_stored [OF _ Some] d by (simp add: daemon_inv_def)
  note e1 = delete_evolves [OF u dl]
  have e3: "evolves m m3" by (rule evolves_trans [OF e1 create_evolves [OF c]])
  have e4: "evolves m m4"
    by (rule evolves_trans [OF evolves_trans [OF e3 set_name_evolves [OF n]] reattach_members_evolves [OF re]])
  from red e1 e3 e4 show ?thesis by (auto split: if_splits)
qed


section \<open>Router transactions\<close>

lemma place_fields:
  "rif_place a = rif_place b \<Longrightarrow> rif_interface_id a = rif_interface_id b \<and> rif_vr_id a = rif_vr_id b \<and>
     rif_attachment a = rif_attachment b \<and> rif_vswitch_id a = rif_vswitch_id b \<and>
     rif_link_id a = rif_link_id b \<and> rif_port a = rif_port b"
  by (simp add: rif_place_def)

lemma place_validates:
  "rif_place a = rif_place b \<Longrightarrow> validate_route_neighbor m a nb = validate_route_neighbor m b nb"
  by (drule place_fields) (simp add: validate_route_neighbor_def find_router_interface_port_index_def split: option.split)

lemma installed_valid:
  assumes c: "mg_router m = Some c" "config_wf c" and k: "places_kept inven c c'"
    and v: "neighbor_valid m nb" and m': "mg_router m' = Some c'" "mg_ports m' = mg_ports m"
      "mg_memberships m' = mg_memberships m"
  shows "neighbor_valid m' nb"
  unfolding neighbor_valid_def
proof (intro conjI allI impI)
  from v c(1) have id: "unat (nb_interface_id nb) < unat (cfg_next_interface_id c)" by (simp add: neighbor_valid_def)
  with k have "unat (nb_interface_id nb) < unat (cfg_next_interface_id c')" by (simp add: places_kept_def)
  with m'(1) show "\<exists>c. mg_router m' = Some c \<and> unat (nb_interface_id nb) < unat (cfg_next_interface_id c)" by simp
  fix e assume e: "find_router_interface m' (nb_vr_id nb) (nb_interface_id nb) = Some e"
  then have e': "e \<in> set (cfg_interfaces c')" "rif_vr_id e = nb_vr_id nb" "rif_interface_id e = nb_interface_id nb"
    using find_SomeD [OF e [unfolded find_router_interface_def]] m'(1) by (simp_all add: manager_interfaces_def)
  from k e' id obtain r where r: "r \<in> set (cfg_interfaces c)" "rif_place e = rif_place r"
    by (fastforce simp: places_kept_def)
  note rf = place_fields [OF r(2)]
  have "inj_on rif_interface_id (set (cfg_interfaces c))"
    using c(2) by (simp add: config_wf_def wf_interfaces_def distinct_map)
  then have "find_router_interface m (nb_vr_id nb) (nb_interface_id nb) = Some r"
    unfolding find_router_interface_def
    using r(1) rf e'(2,3) c(1) by (intro find_unique) (auto simp: manager_interfaces_def dest: inj_onD)
  with v have "validate_route_neighbor m r nb" by (simp add: neighbor_valid_def)
  with place_validates [OF r(2)] have "validate_route_neighbor m e nb" by simp
  then show "validate_route_neighbor m' e nb" using validate_cong [of m' m e nb] m'(2,3) by simp
qed

lemma offered_port: "inventory_port m p = Some q \<Longrightarrow>
   \<exists>i<length (mg_ports m). eth_role (mg_ports m ! i) = ETHERNET_PORT_ROLE_REPRESENTOR \<and>
     port_identity (mg_ports m ! i) = q \<and> \<not> port_has_membership m i"
  by (auto simp: inventory_port_def split: option.splits if_splits dest: find_port_index_Some)

lemma installed_available:
  assumes c: "list_all (attachment_available m c) (cfg_interfaces c)" and w: "config_wf c'"
    and k: "places_kept (manager_inventory m) c c'"
  shows "list_all (attachment_available m c') (cfg_interfaces c')"
proof -
  have "attachment_available m c' e" if e: "e \<in> set (cfg_interfaces c')" for e
  proof (cases "rif_place e \<in> rif_place ` set (cfg_interfaces c)")
    case True
    then obtain r where r: "r \<in> set (cfg_interfaces c)" "rif_place e = rif_place r" by blast
    with c have "attachment_available m c r" by (simp add: list_all_iff)
    moreover have "rif_attachment e = ROUTER_LINK \<Longrightarrow> router_has_link c' (rif_link_id e)"
      using config_wf_rif [OF w e] by (simp add: rif_ok_def router_has_link_def)
    ultimately show ?thesis using place_fields [OF r(2)]
      by (simp add: attachment_available_def split: router_attachment.splits)
  next
    case False
    with k e have "rif_attachment e = ROUTER_PORT \<longrightarrow> (\<exists>p. inventory_port m p = Some (rif_port e))"
      "rif_attachment e = ROUTER_VSWITCH \<longrightarrow> inventory_switch m (rif_vswitch_id e)"
      by (auto simp: places_kept_def manager_inventory_def)
    moreover have "rif_attachment e = ROUTER_LINK \<Longrightarrow> router_has_link c' (rif_link_id e)"
      using config_wf_rif [OF w e] by (simp add: rif_ok_def router_has_link_def)
    ultimately show ?thesis
      by (cases "rif_attachment e") (auto simp: attachment_available_def list_ex_iff dest!: offered_port)
  qed
  then show ?thesis by (simp add: list_all_iff)
qed

definition installed :: "eswitch_manager \<Rightarrow> router_config \<Rightarrow> eswitch_manager" where
  "installed m c = m\<lparr>mg_router := Some c, mg_nat := router_nat_set_port_forwards (mg_nat m) c\<rparr>"

lemma install_evolves:
  assumes c: "mg_router m = Some c" and w: "config_wf c'" and k: "places_kept (manager_inventory m) c c'"
  shows "evolves m (installed m c')"
proof -
  let ?m = "installed m c'"
  have F: "mg_router ?m = Some c'" "mg_ports ?m = mg_ports m" "mg_memberships ?m = mg_memberships m"
    "mg_switches ?m = mg_switches m" "mg_neighbors ?m = mg_neighbors m" "mg_fdb ?m = mg_fdb m"
    "mg_pending ?m = mg_pending m" "nat_wf (mg_nat ?m) = nat_wf (mg_nat m)"
    by (simp_all add: installed_def)
  have "daemon_inv ?m" if d: "daemon_inv m"
  proof -
    have wc: "config_wf c" and av: "list_all (attachment_available m c) (cfg_interfaces c)" and i: "packet_inv m"
      using d c by (auto simp: daemon_inv_def router_owned_def)
    have "same_tables m ?m" by (simp add: same_tables_def installed_def)
    then have "l2_wf ?m" using d i F(6) same_tables_wf [of m ?m] by (simp add: daemon_inv_def packet_inv_def)
    moreover have "packet_inv ?m"
      using i installed_valid [OF c wc k _ F(1-3)] unfolding packet_inv_def resolved_ok_def F(5-8) by blast
    moreover have "attachment_available ?m = attachment_available m"
      by (intro ext) (simp add: attachment_available_def inventory_switch_def port_has_membership_def
          find_vswitch_def F(2-4) cong: router_attachment.case_cong)
    then have "router_owned ?m" using installed_available [OF av w k] w F(1) by (simp add: router_owned_def)
    moreover have "names_ok ?m" using d by (simp add: daemon_inv_def names_iff F(4))
    ultimately show ?thesis using d F(2) by (simp add: daemon_inv_def)
  qed
  then show ?thesis by (simp add: evolves_def same_frame_def installed_def)
qed

lemma prepare_keeps:
  "packet_inv m \<Longrightarrow> keeps m (fst (snd (eswitch_manager_router_prepare env m c now s)))"
  using routing_keeps [OF pk.probe_routes_R] keeps_refl
  by (auto simp: eswitch_manager_router_prepare_def probe_configured_next_hops_def Let_def split: prod.splits)


lemma flush_settles:
  assumes i: "packet_inv m"
  shows "\<exists>m1 x. flush_for_transaction env ce m s = Some (m1, x) \<and> keeps m m1"
proof -
  obtain r0 s1 where a: "me_acl_reply_flush env s = (r0, s1)" by force
  obtain r1 m1 s2 where c: "(if r0 = DOCA_SUCCESS then ct_flush env m 0 s1 else (r0, m, s1)) = (r1, m1, s2)"
    by (metis prod_cases3)
  have k1: "keeps m m1"
    using c flush_keeps [of m env 0 s1] keeps_refl by (cases "r0 = DOCA_SUCCESS") auto
  from nat_flush_keeps [OF keeps_step [OF k1 i], of 0] obtain nt
    where nt: "router_nat_flush (mg_nat m1) 0 = Some nt" and k2: "keeps m1 (m1\<lparr>mg_nat := nt\<rparr>)" by blast
  show ?thesis
    unfolding flush_for_transaction_def Let_def a prod.case c nt
    using k1 keeps_trans [OF k1 k2] by simp
qed

lemma undo_keeps: "keeps m (fst (undo_candidate env ce m old c p rm ad d a s))"
  using synced_keeps [of m env "Some old" True s] keeps_refl
  by (auto simp: undo_candidate_def Let_def split: prod.splits)

lemma router_same: "keeps m m' \<Longrightarrow> mg_router m' = mg_router m \<and> manager_inventory m' = manager_inventory m"
proof -
  assume "keeps m m'"
  then have "same_setup m m'" by (simp add: keeps_def)
  then have e: "mg_router m' = mg_router m" "mg_ports m' = mg_ports m" "mg_switches m' = mg_switches m"
    "mg_memberships m' = mg_memberships m" by (simp_all add: same_setup_def)
  have "inventory_port m' = inventory_port m" "inventory_switch m' = inventory_switch m"
    by (intro ext; simp add: inventory_port_def inventory_switch_def find_port_index_def port_has_membership_def
        find_vswitch_def e cong: option.case_cong if_cong)+
  then show ?thesis by (simp add: e(1) manager_inventory_def)
qed

text \<open>
  What a transaction does to the configuration and to its file, when the temporary name of
  \<open>mkstemp\<close> is not in use.
\<close>

definition mkstemp_fresh :: "'s control_env \<Rightarrow> files \<Rightarrow> bool" where
  "mkstemp_fresh ce fs \<longleftrightarrow> (\<forall>s. fs (rio_name (fst (ce_save_io ce s))) = None)"

definition transaction_outcome ::
  "eswitch_manager \<Rightarrow> router_config \<Rightarrow> router_config \<Rightarrow> files \<Rightarrow> doca_error \<Rightarrow> eswitch_manager \<Rightarrow> files \<Rightarrow> bool" where
  "transaction_outcome m old c fs r m' fs' \<longleftrightarrow>
     (if r = DOCA_SUCCESS
        then \<exists>path ls. state_path m = Some path \<and> config_lines c = Inr ls \<and>
          mg_router m' = Some c \<and> nat_port_forwards (mg_nat m') = cfg_port_forwards c \<and>
          fs' = fs(path := Some (config_text ls))
      else mg_router m' = Some old \<and> fs' = fs)"

lemma save_outcome:
  assumes f: "mkstemp_fresh ce fs" and s: "save_candidate ce m c cap fs x = (fs', failure, s')"
  shows "if failure = None
    then \<exists>path ls. state_path m = Some path \<and> config_lines c = Inr ls \<and> fs' = fs(path := Some (config_text ls))
    else fs' = fs"
proof (cases "fst x = None \<and> state_path m \<noteq> None")
  case True
  then obtain path where p: "state_path m = Some path" by auto
  obtain io s1 where io: "ce_save_io ce (snd x) = (io, s1)" by force
  have u: "fs(rio_name io := None) = fs" using f io by (metis fst_conv fun_upd_triv mkstemp_fresh_def)
  obtain ok msg fs1 where w: "router_config_save io path c cap fs = ((ok, msg), fs1)" by (metis prod.exhaust)
  from w u have "if ok then \<exists>ls. config_lines c = Inr ls \<and> fs1 = fs(path := Some (config_text ls)) else fs1 = fs"
    by (auto simp: router_config_save_def state_fail_def Let_def split: if_splits sum.splits)
  with s True p io w show ?thesis by (auto simp: save_candidate_def split: if_splits)
next
  case False
  with s show ?thesis by (auto simp: save_candidate_def split: if_splits)
qed

lemma probe_nat: "mg_nat (fst (snd (send_route_neighbor_probe env m egress target now s))) = mg_nat m"
  by (auto simp: send_route_neighbor_probe_def Let_def count_up_def split: prod.splits option.splits)

lemma probe_routes_nat: "mg_nat (fst (probe_routes env m rts now s)) = mg_nat m"
proof (induction rts arbitrary: m s)
  case (Cons rt rts)
  have "mg_nat m1 = mg_nat m" if "send_route_neighbor_probe env m e (rt_gateway rt) now s = (a, m1, s1)" for e a m1 s1
    using probe_nat [of env m e "rt_gateway rt" now s] that by simp
  then show ?case using Cons.IH by (auto simp: count_up_def split: option.splits prod.splits)
qed simp

lemma prepare_nat: "mg_nat (fst (snd (eswitch_manager_router_prepare env m c now s))) = mg_nat m"
  using probe_routes_nat [of env m]
  by (auto simp: eswitch_manager_router_prepare_def probe_configured_next_hops_def Let_def split: prod.splits)

lemma transaction_settles:
  assumes d: "daemon_inv m" and old: "mg_router m = Some old" and w: "config_wf c"
    and k: "places_kept (manager_inventory m) old c"
  shows "\<exists>r text m' fs' s'. router_transaction env ce m old c out cap fs s = Some (r, text, m', fs', s') \<and>
    evolves m m' \<and> (mkstemp_fresh ce fs \<longrightarrow> transaction_outcome m old c fs r m' fs')"
proof -
  obtain now s1 where cl: "me_clock env s = (now, s1)" by force
  let ?pc = "\<not> router_hw_route_plans_equal old c (mg_neighbors m) now"
  have i: "packet_inv m" using d by (simp add: daemon_inv_def)
  obtain m1 x where f: "flush_for_transaction env ce (drop_pending m) s1 = Some (m1, x)"
    and k1: "keeps (drop_pending m) m1"
    using flush_settles [OF keeps_step [OF drop_pending_keeps i], of env ce s1] by blast
  have k0: "keeps m m1" by (rule keeps_trans [OF drop_pending_keeps k1])
  note same = router_same [OF k0]
  have path: "state_path m1 = state_path m"
    using k0 by (simp add: keeps_def same_setup_def state_path_def Let_def)
  let ?rm = "changed_port old c m1" and ?ad = "changed_port c old m1"
  obtain de at x1 where pp: "program_ports ce ?rm ?ad x = (de, at, x1)" by (metis prod_cases3)
  obtain fs1 failure s2 where sv: "save_candidate ce m1 c cap fs (program_candidate env ce m1 old c ?pc x1) = (fs1, failure, s2)"
    by (metis prod_cases3)
  have e1: "evolves m m1" by (rule keeps_evolves [OF k0])
  show ?thesis
  proof (cases failure)
    case (Some t)
    obtain m2 s3 where u: "undo_candidate env ce m1 old c ?pc ?rm ?ad de at s2 = (m2, s3)" by force
    have k2: "keeps m1 m2" using undo_keeps [of m1 env ce old c ?pc ?rm ?ad de at s2] u by simp
    have "mg_router m2 = Some old" using router_same [OF keeps_trans [OF k0 k2]] old by simp
    moreover have "mkstemp_fresh ce fs \<Longrightarrow> fs1 = fs" using save_outcome [OF _ sv] Some by simp
    ultimately show ?thesis
      unfolding router_transaction_def Let_def cl prod.case f option.case pp sv Some u
      using keeps_evolves [OF keeps_trans [OF k0 k2]] by (simp add: transaction_outcome_def)
  next
    case None
    obtain m2 s3 where cm: "commit_candidate env m1 c s2 = (m2, s3)" by force
    obtain now2 s4 where cl2: "me_clock env s2 = (now2, s4)" by force
    have e2: "evolves m1 (installed m1 c)"
      by (rule install_evolves [OF _ w]) (use same old k in simp_all)
    have ii: "packet_inv (installed m1 c)"
      using evolvesD [OF evolves_trans [OF e1 e2] d] by (simp add: daemon_inv_def)
    have m2: "m2 = fst (snd (eswitch_manager_router_prepare env (installed m1 c) c now2 s4))"
        using cm by (simp add: commit_candidate_def cl2 Let_def installed_def)
    have k3: "keeps (installed m1 c) m2" unfolding m2 by (rule prepare_keeps [OF ii])
    have "mg_router m2 = Some c" using router_same [OF k3] by (simp add: installed_def)
    moreover have "nat_port_forwards (mg_nat m2) = cfg_port_forwards c"
      using prepare_nat [of env "installed m1 c" c now2 s4]
      by (simp add: m2 installed_def router_nat_set_port_forwards_def)
    ultimately have "mkstemp_fresh ce fs \<Longrightarrow> transaction_outcome m old c fs DOCA_SUCCESS m2 fs1"
      using save_outcome [OF _ sv] None path by (auto simp: transaction_outcome_def)
    then show ?thesis
      unfolding router_transaction_def Let_def cl prod.case f option.case pp sv None cm
      using evolves_trans [OF e1 evolves_trans [OF e2 keeps_evolves [OF k3]]] by simp
  qed
qed


section \<open>Requests\<close>

text \<open>A request settles: it returns, and the invariant holds again.\<close>

definition answers :: "eswitch_manager \<Rightarrow> 's controlled \<Rightarrow> bool" where
  "answers m x \<longleftrightarrow> (\<exists>r text m' fs' s'. x = Some (r, text, m', fs', s') \<and> evolves m m')"

lemma answers_Some [simp]: "answers m (Some (r, t, m', fs', s')) = evolves m m'"
  by (simp add: answers_def)

lemma answers_managed: "evolves m (fst (snd x)) \<Longrightarrow> answers m (reply_managed ce cap x)"
  by (simp add: reply_managed_def split: prod.split) (cases x, simp)

lemma router_control_answers:
  assumes d: "daemon_inv m"
  shows "answers m (router_control_command env ce m request cap fs s)"
proof -
  from d obtain old where old: "mg_router m = Some old" "config_wf old" by (auto simp: daemon_inv_def router_owned_def)
  obtain ok s1 where a: "me_malloc env s = (ok, s1)" by force
  let ?x = "router_command old (manager_inventory m) request cap"
  have "answers m (router_transaction env ce m old (cr_config ?x) out cap fs s1)" for out
    using transaction_settles [OF d old(1) command_wf_step [OF old(2)] router_command_places [OF old(2)],
        of env ce request cap out cap fs s1]
    by (auto simp: answers_def)
  then show ?thesis by (simp add: router_control_command_def old(1) a Let_def)
qed

lemma switch_command_answers:
  assumes d: "daemon_inv m" and c: "cli_command_ok c"
  shows "answers m (switch_command env ce m c cap fs s)"
proof -
  have n: "cli_name c = [] \<or> eswitch_vs_name_valid (cli_name c)" using c by (simp add: cli_command_ok_def)
  have cr: "answers m (reply_managed ce cap (create_vswitch_persisted env m (cli_id c) (cli_name c) fs s))"
    by (cases "create_vswitch_persisted env m (cli_id c) (cli_name c) fs s" rule: prod_cases4)
      (simp add: answers_managed create_persisted_evolves [OF d n])
  have dl: "answers m (reply_managed ce cap (delete_vswitch_persisted env m (cli_id c) fs s))"
    if "\<not> switch_reserved m (cli_id c)"
    by (cases "delete_vswitch_persisted env m (cli_id c) fs s" rule: prod_cases4)
      (simp add: answers_managed delete_persisted_evolves [OF d that])
  have at: "answers m (reply_managed ce cap (attach_port_persisted env m (cli_id c) (cli_port_id c) (cli_mode c)
       (cli_vlan_id c) (cli_vlan_last c) (cli_vlan_extra_id c) (cli_vlan_extra_last c) fs s))"
    by (rule answers_managed) (metis attach_persisted_evolves prod.collapse)
  obtain r m' fs' s' where dt: "detach_port_persisted env m (cli_id c) (cli_port_id c) fs s = Some (r, m', fs', s')"
    "evolves m m'" using detach_persisted_settles [OF d, of env "cli_id c" "cli_port_id c" fs s] by blast
  have dp: "answers m (Option.bind (detach_port_persisted env m (cli_id c) (cli_port_id c) fs s) (reply_managed ce cap))"
    using dt by (simp add: answers_managed)
  show ?thesis
    using cr dl at dp by (auto simp: switch_command_def split: eswitch_cli_verb.split)
qed

lemma command_answers:
  assumes d: "daemon_inv m"
  shows "answers m (eswitch_manager_command env ce m request cap fs s)"
proof (cases "cap = 0 \<or> \<not> mg_initialized m \<or> eswitch_cli_is_router_line request \<or> eswitch_cli_parse_line request = None")
  case True
  then show ?thesis
    using router_control_answers [OF d] by (auto simp: eswitch_manager_command_def Let_def)
next
  case False
  then obtain c where c: "eswitch_cli_parse_line request = Some c" by auto
  then obtain ts where "eswitch_cli_parse ts = Some c" by (auto simp: eswitch_cli_parse_line_def bind_eq_Some_conv)
  from switch_command_answers [OF d cli_parse_ok [OF this]]
  have sw: "answers m (switch_command env ce m c cap fs s)" .
  obtain t s1 where "show_fdb env m (cli_id c) cap s = (t, s1)" by force
  with False c sw show ?thesis
    by (cases "cli_verb c") (simp_all add: eswitch_manager_command_def Let_def)
qed

section \<open>The daemon\<close>

datatype daemon_event = Packets packet_event | Request string nat

type_synonym 's daemon_state = "eswitch_manager \<times> files \<times> 's"

fun daemon_step ::
  "'s manager_env \<Rightarrow> 's control_env \<Rightarrow> daemon_event \<Rightarrow> 's daemon_state \<Rightarrow> 's daemon_state option" where
  "daemon_step env ce (Packets e) (m, fs, s) =
     map_option (\<lambda>(m1, s1). (m1, fs, s1)) (packet_step env e m s)"
| "daemon_step env ce (Request line cap) (m, fs, s) =
     map_option (\<lambda>(r, text, m1, fs1, s1). (m1, fs1, s1)) (eswitch_manager_command env ce m line cap fs s)"

fun daemon_run ::
  "'s manager_env \<Rightarrow> 's control_env \<Rightarrow> daemon_event list \<Rightarrow> 's daemon_state \<Rightarrow> 's daemon_state option" where
  "daemon_run env ce [] st = Some st"
| "daemon_run env ce (e # es) st = Option.bind (daemon_step env ce e st) (daemon_run env ce es)"

lemma daemon_step_settles:
  assumes d: "daemon_inv m" and g: "add_gives_entry (me_flow env)"
  shows "\<exists>m' fs' s'. daemon_step env ce e (m, fs, s) = Some (m', fs', s') \<and> evolves m m'"
proof (cases e)
  case (Packets p)
  have "packet_inv m" using d by (simp add: daemon_inv_def)
  from packet_step_keeps [OF this daemon_setup [OF d] g, of p s] Packets
  show ?thesis by (auto simp: yields_def dest!: keeps_evolves)
next
  case (Request line cap)
  from command_answers [OF d, of env ce line cap fs s] Request show ?thesis by (auto simp: answers_def)
qed

lemma daemon_run_settles:
  assumes "daemon_inv m" and g: "add_gives_entry (me_flow env)"
  shows "\<exists>m' fs' s'. daemon_run env ce es (m, fs, s) = Some (m', fs', s') \<and> evolves m m'"
  using assms(1)
proof (induction es arbitrary: m fs s)
  case (Cons e es)
  from daemon_step_settles [OF Cons.prems g, of ce e fs s] obtain m1 fs1 s1
    where e: "daemon_step env ce e (m, fs, s) = Some (m1, fs1, s1)" "evolves m m1" by blast
  from Cons.IH [OF evolvesD [OF e(2) Cons.prems], of fs1 s1] e show ?case by (auto elim: evolves_trans)
qed simp

end
