(* ===== verification/Router_State_Props.thy ===== *)
theory Router_State_Props
  imports Router_State Cli Router_Preserve Eswitch_State_Props
begin

text \<open>
  What loading a router state file gives.  The replay attaches every interface at the id the file
  names, so between two lines the next id of the candidate is not above all ids; the invariant of
  the loop is that the candidate is well formed with the next id of the file put in its place.
\<close>

section \<open>Requests do not look at the next id\<close>

abbreviation at_next :: "u32 \<Rightarrow> router_config \<Rightarrow> router_config" where
  "at_next n c \<equiv> c\<lparr>cfg_next_interface_id := n\<rparr>"

lemma next_queries [simp]:
  "router_has_vr (at_next n c) = router_has_vr c" "router_has_link (at_next n c) = router_has_link c"
  "router_link_peer (at_next n c) = router_link_peer c"
  "router_nat_policy_find (at_next n c) = router_nat_policy_find c"
  "router_port_forward_uses_interface (at_next n c) = router_port_forward_uses_interface c"
  "interface_index (at_next n c) = interface_index c" "routes_reference (at_next n c) = routes_reference c"
  "nat_references (at_next n c) = nat_references c" "egress_references (at_next n c) = egress_references c"
  "ingress_references (at_next n c) = ingress_references c"
  "peer_routes_reference (at_next n c) = peer_routes_reference c"
  "default_route_uses (at_next n c) = default_route_uses c" "route_key_index (at_next n c) = route_key_index c"
  "link_peer_mismatch (at_next n c) = link_peer_mismatch c"
  "fw_policies (at_next n c) = fw_policies c" "fw_rules (at_next n c) = fw_rules c"
  "rule_key_index (at_next n c) = rule_key_index c"
  "set_fw_policies (at_next n c) ing ps = at_next n (set_fw_policies c ing ps)"
  "set_fw_rules (at_next n c) ing rs = at_next n (set_fw_rules c ing rs)"
proof -
  have p: "router_link_peer (at_next n c) i = router_link_peer c i" for i
    by (simp add: router_link_peer_def interface_by_id_def cong: option.case_cong if_cong)
  then show "router_link_peer (at_next n c) = router_link_peer c" "link_peer_mismatch (at_next n c) = link_peer_mismatch c"
    "peer_routes_reference (at_next n c) = peer_routes_reference c"
    by (simp_all add: fun_eq_iff link_peer_mismatch_def peer_routes_reference_def cong: option.case_cong)
qed (simp_all add: fun_eq_iff router_has_vr_def router_has_link_def
      router_nat_policy_find_def router_port_forward_uses_interface_def interface_index_def routes_reference_def
      nat_references_def egress_references_def ingress_references_def default_route_uses_def route_key_index_def fw_policies_def fw_rules_def
      rule_key_index_def set_fw_policies_def set_fw_rules_def)

text \<open>Applying an operation and setting the next id commute, attachments excepted.\<close>

abbreviation next_sum :: "u32 \<Rightarrow> op_result \<Rightarrow> op_result" where
  "next_sum n \<equiv> map_sum (\<lambda>m. m) (at_next n)"

lemma next_ops:
  "link_create (at_next n c) q = next_sum n (link_create c q)"
  "link_delete (at_next n c) q = next_sum n (link_delete c q)"
  "vr_create (at_next n c) q = next_sum n (vr_create c q)"
  "vr_delete (at_next n c) q = next_sum n (vr_delete c q)"
  "detach (at_next n c) q k = next_sum n (detach c q k)"
  "ip_add (at_next n c) q k = next_sum n (ip_add c q k)"
  "ip_del (at_next n c) q k = next_sum n (ip_del c q k)"
  "mac_set (at_next n c) q k = next_sum n (mac_set c q k)"
  "route_add (at_next n c) q k = next_sum n (route_add c q k)"
  "route_del (at_next n c) q = next_sum n (route_del c q)"
  "nat_enable (at_next n c) q k = next_sum n (nat_enable c q k)"
  "nat_disable (at_next n c) q = next_sum n (nat_disable c q)"
  "pf_add (at_next n c) q k = next_sum n (pf_add c q k)"
  "pf_delete (at_next n c) q = next_sum n (pf_delete c q)"
proof -
  show "link_create (at_next n c) q = next_sum n (link_create c q)"
    by (simp add: link_create_def Let_def split: option.split)
  show "link_delete (at_next n c) q = next_sum n (link_delete c q)"
    by (simp add: link_delete_def Let_def split: option.split)
  show "vr_create (at_next n c) q = next_sum n (vr_create c q)"
    by (simp add: vr_create_def Let_def split: option.split)
  show "vr_delete (at_next n c) q = next_sum n (vr_delete c q)"
    by (simp add: vr_delete_def Let_def split: option.split)
  show "detach (at_next n c) q k = next_sum n (detach c q k)"
    by (simp add: detach_def Let_def split: option.split)
  show "ip_add (at_next n c) q k = next_sum n (ip_add c q k)"
    by (simp add: ip_add_def Let_def split: option.split)
  show "ip_del (at_next n c) q k = next_sum n (ip_del c q k)"
    by (simp add: ip_del_def Let_def split: option.split)
  show "mac_set (at_next n c) q k = next_sum n (mac_set c q k)"
    by (simp add: mac_set_def Let_def split: option.split)
  show "route_add (at_next n c) q k = next_sum n (route_add c q k)"
    by (simp add: route_add_def Let_def split: option.split)
  show "route_del (at_next n c) q = next_sum n (route_del c q)"
    by (auto simp: route_del_def split: option.split)
  show "nat_enable (at_next n c) q k = next_sum n (nat_enable c q k)"
    by (simp add: nat_enable_def Let_def split: option.split)
  show "nat_disable (at_next n c) q = next_sum n (nat_disable c q)"
    by (simp add: nat_disable_def Let_def split: option.split)
  show "pf_add (at_next n c) q k = next_sum n (pf_add c q k)"
    by (simp add: pf_add_def Let_def split: option.split)
  show "pf_delete (at_next n c) q = next_sum n (pf_delete c q)"
    by (simp add: pf_delete_def Let_def split: option.split)
qed

lemma next_policies:
  "policy_set (at_next n c) q r j = next_sum n (policy_set c q r j)"
  "policy_delete (at_next n c) q r i = next_sum n (policy_delete c q r i)"
  "rule_delete (at_next n c) q r = next_sum n (rule_delete c q r)"
  "rule_add (at_next n c) q r = next_sum n (rule_add c q r)"
proof -
  show "policy_set (at_next n c) q r j = next_sum n (policy_set c q r j)"
    by (simp add: policy_set_def Let_def split: option.split)
  show "policy_delete (at_next n c) q r i = next_sum n (policy_delete c q r i)"
    by (simp add: policy_delete_def Let_def)
  show "rule_delete (at_next n c) q r = next_sum n (rule_delete c q r)"
    by (simp add: rule_delete_def split: option.split)
  show "rule_add (at_next n c) q r = next_sum n (rule_add c q r)"
    by (simp add: rule_add_def Let_def)
qed

lemma next_policy: "policy_command (at_next n c) q k = next_sum n (policy_command c q k)"
  by (simp add: policy_command_def next_policies Let_def if_distrib [of "next_sum n"]
      option.case_distrib [of "next_sum n"] cong: if_cong option.case_cong)

lemma next_interface: "interface_command (at_next n c) q k = next_sum n (interface_command c q k)"
  by (simp add: interface_command_def next_ops split: operation.split)

definition attaches_rif :: "operation \<Rightarrow> bool" where
  "attaches_rif opr \<longleftrightarrow> opr \<in> {ATTACH_PORT, ATTACH_SWITCH, ATTACH_LINK}"

lemma next_apply:
  assumes "\<not> attaches_rif (q_op q)"
  shows "router_apply (at_next n c) inven q = next_sum n (router_apply c inven q)"
proof -
  have i: "(case k of None \<Rightarrow> Inl m | Some i \<Rightarrow> interface_command (at_next n c) q i) =
    next_sum n (case k of None \<Rightarrow> Inl m | Some i \<Rightarrow> interface_command c q i)" for k m
    by (simp add: next_interface split: option.split)
  show ?thesis
    using assms by (cases "q_op q")
      (simp_all add: attaches_rif_def router_apply_def next_ops next_policy i Let_def)
qed

lemma next_apply_wf:
  assumes wf: "config_wf (at_next n c)" and q: "command_wf q" "\<not> attaches_rif (q_op q)"
    and r: "router_apply c inven q = Inr c'"
  shows "config_wf (at_next n c')"
  using router_apply_preserves [OF wf q(1), of inven] next_apply [OF q(2), of n c inven] r by simp

section \<open>Which requests attach\<close>

definition plain_word :: "string \<Rightarrow> bool" where
  "plain_word w \<longleftrightarrow> w \<noteq> [] \<and> list_all (\<lambda>c. \<not> is_delim c) w"

lemma starts_words:
  assumes "starts (a @ CHR '' '' # b @ CHR '' '' # r) line" "plain_word a" "plain_word b"
  shows "\<exists>ts. strtok line = a # b # ts"
proof -
  let ?p = "a @ CHR '' '' # b @ CHR '' '' # r"
  have "line = ?p @ drop (length ?p) line"
    using assms(1) unfolding starts_def by (metis append_take_drop_id)
  then obtain t where l: "line = a @ (CHR '' '' # (b @ CHR '' '' # t))" unfolding append_assoc append_Cons by blast
  have sp: "strtok (CHR '' '' # u) = strtok u" for u by (simp add: strtok_def is_delim_def)
  have "strtok line = a # strtok (CHR '' '' # (b @ CHR '' '' # t))"
    unfolding l using assms(2) by (intro strtok_word) (simp_all add: plain_word_def list_all_iff is_delim_def)
  moreover have "strtok (b @ CHR '' '' # t) = b # strtok (CHR '' '' # t)"
    using assms(3) by (intro strtok_word) (simp_all add: plain_word_def list_all_iff is_delim_def)
  ultimately show ?thesis by (simp add: sp)
qed

definition attach_word :: "string \<Rightarrow> bool" where
  "attach_word w \<longleftrightarrow> w \<in> set [''port'', ''switch'', ''link'', ''port-attach'', ''switch-attach'']"

lemma vr_verb_attaches: "vr_verb ts = Inr vb \<Longrightarrow> attaches_rif (vb_op vb) \<Longrightarrow> attach_word (ts ! 1)"
  by (auto simp: vr_verb_def firewall_verb_def verb_of_def attaches_rif_def attach_word_def Let_def split: if_splits)

lemma link_verb_attaches: "link_verb w = Inr vb \<Longrightarrow> \<not> attaches_rif (vb_op vb)"
  by (auto simp: link_verb_def verb_of_def attaches_rif_def split: if_splits)

lemma parse_options_op:
  "Router_Parse.parse_options allowed found q ts = Some (q', found') \<Longrightarrow> q_op q' = q_op q"
  by (induction allowed found q ts rule: Router_Parse.parse_options.induct)
    (auto simp: Let_def option_value_op split: if_splits option.splits)

lemma parse_attaches:
  assumes p: "parse_tokens (a # w # ts) = Inr q" and a: "attaches_rif (q_op q)"
  shows "a \<noteq> ''link'' \<and> attach_word w"
proof -
  let ?v = "if a = ''link'' then link_verb w else if a \<noteq> ''vr'' then Inl ''expected vr|link <operation>''
    else vr_verb (a # w # ts)"
  obtain vb where vb: "?v = Inr vb"
    using p by (cases ?v) (auto simp: parse_tokens_def split: if_splits)
  then obtain q1 found where "q_op q1 = vb_op vb" "parse_final (vb_required vb) found q1 = Inr q"
    using p by (auto simp: parse_tokens_def split: if_splits option.splits dest!: parse_options_op)
  then have "q_op q = vb_op vb" by (auto simp: parse_final_def split: if_splits)
  with a have v: "attaches_rif (vb_op vb)" by simp
  have "a \<noteq> ''link''" using vb link_verb_attaches [of w vb] v by auto
  with vb have "vr_verb (a # w # ts) = Inr vb" by (auto split: if_splits)
  from vr_verb_attaches [OF this v] \<open>a \<noteq> ''link''\<close> show ?thesis by simp
qed

lemma other_words:
  assumes "other_line line"
  shows "\<exists>a w ts. strtok line = a # w # ts \<and> (a = ''link'' \<or> \<not> attach_word w)"
proof -
  have w: "\<exists>a w ts. strtok line = a # w # ts \<and> (a = ''link'' \<or> \<not> attach_word w)"
    if "starts (x @ CHR '' '' # y @ CHR '' '' # r) line" "plain_word x" "plain_word y" "x = ''link'' \<or> \<not> attach_word y" for x y r
    using starts_words [OF that(1-3)] that(4) by blast
  note d = plain_word_def is_delim_def attach_word_def
  from assms show ?thesis
    unfolding other_line_def list_ex_iff list.set bex_simps
  proof (elim disjE)
    assume "starts ''vr create '' line" then show ?thesis using w [of "''vr''" "''create''" "[]"] by (simp add: d)
  next
    assume "starts ''link create '' line" then show ?thesis using w [of "''link''" "''create''" "[]"] by (simp add: d)
  next
    assume "starts ''vr interface set '' line" then show ?thesis using w [of "''vr''" "''interface''" "''set ''"] by (simp add: d)
  next
    assume "starts ''vr ip add '' line" then show ?thesis using w [of "''vr''" "''ip''" "''add ''"] by (simp add: d)
  next
    assume "starts ''vr route add '' line" then show ?thesis using w [of "''vr''" "''route''" "''add ''"] by (simp add: d)
  next
    assume "starts ''vr nat enable '' line" then show ?thesis using w [of "''vr''" "''nat''" "''enable ''"] by (simp add: d)
  next
    assume "starts ''vr port-forward add '' line"
    then show ?thesis using w [of "''vr''" "''port-forward''" "''add ''"] by (simp add: d)
  next
    assume "starts ''vr egress policy set '' line"
    then show ?thesis using w [of "''vr''" "''egress''" "''policy set ''"] by (simp add: d)
  next
    assume "starts ''vr egress rule add '' line"
    then show ?thesis using w [of "''vr''" "''egress''" "''rule add ''"] by (simp add: d)
  next
    assume "starts ''vr ingress policy set '' line"
    then show ?thesis using w [of "''vr''" "''ingress''" "''policy set ''"] by (simp add: d)
  next
    assume "starts ''vr ingress rule add '' line"
    then show ?thesis using w [of "''vr''" "''ingress''" "''rule add ''"] by (simp add: d)
  qed simp
qed

lemma other_keeps_next:
  assumes "other_line line" "parse line = Inr q"
  shows "\<not> attaches_rif (q_op q)"
proof -
  obtain a w ts where t: "strtok line = a # w # ts" "a = ''link'' \<or> \<not> attach_word w"
    using other_words [OF assms(1)] by blast
  have "parse_tokens (a # w # ts) = Inr q" using assms(2) t(1) by (simp add: parse_def split: if_splits)
  with parse_attaches t(2) show ?thesis by blast
qed

section \<open>Loading\<close>

text \<open>
  Between two lines: the candidate is well formed once its next id is that of the file, and an
  announced identity is below it and new.
\<close>

definition replay_ok :: "u32 \<Rightarrow> load_state \<Rightarrow> bool" where
  "replay_ok n st \<longleftrightarrow> (case st of (c, identity, port) \<Rightarrow> config_wf (at_next n c) \<and>
     (identity \<noteq> 0 \<longrightarrow> unat identity < unat n \<and>
        (\<forall>b\<in>set (cfg_interfaces c). unat (rif_interface_id b) \<noteq> unat identity)))"

lemma replayed_line:
  assumes ok: "replay_ok n (c, identity, port)" and a: "attachment_line line = (identity \<noteq> 0)"
    and l: "attachment_line line \<or> other_line line"
    and x: "x = router_command (if attachment_line line then at_next identity c else c) inven line cap"
      "cr_ok x" "cr_changed x"
  shows "config_wf (at_next n (cr_config x))"
proof -
  let ?c = "if attachment_line line then at_next identity c else c"
  obtain q c' where q: "parse line = Inr q" "router_apply ?c inven q = Inr c'" and c': "cr_config x = c'"
    using x by (auto simp: router_command_def Let_def split: sum.splits if_splits prod.splits)
  have wf: "config_wf (at_next n ?c)" using ok by (simp add: replay_ok_def)
  show ?thesis
  proof (cases "attaches_rif (q_op q)")
    case False
    from next_apply_wf [OF wf parse_wf_aux [OF q(1)] this q(2)] c' show ?thesis by simp
  next
    case True
    then have at: "attachment_line line" using l other_keeps_next [OF _ q(1)] by blast
    then have id: "cfg_next_interface_id ?c = identity" "identity \<noteq> 0" using a by simp_all
    have "router_has_vr ?c (q_id q)" "attach ?c inven q = Inr c'"
      using True q(2) by (cases "q_op q"; simp add: attaches_rif_def router_apply_def Let_def split: if_splits)+
    note at' = this
    have "config_wf (at_next n c')"
    proof (rule attach_wf_at [OF wf _ at'])
      show "q_op q \<in> {ATTACH_PORT, ATTACH_SWITCH, ATTACH_LINK}" using True by (simp add: attaches_rif_def)
      show "0 < unat (cfg_next_interface_id ?c)" using id by (simp add: unat_gt_0)
      show "unat (cfg_next_interface_id ?c) < unat n" using id ok by (simp add: replay_ok_def)
      show "unat (rif_interface_id b) \<noteq> unat (cfg_next_interface_id ?c)" if "b \<in> set (cfg_interfaces ?c)" for b
        using that id ok by (simp add: replay_ok_def split: if_splits)
    qed
    with c' show ?thesis by simp
  qed
qed

lemma load_state_line_ok:
  assumes ok: "replay_ok n st" and r: "load_state_line n cap line st = Some st'"
  shows "replay_ok n st'"
proof -
  obtain c identity port where st: "st = (c, identity, port)" by (cases st)
  show ?thesis
  proof (cases "starts ''identity '' line")
    case True
    then obtain vals where v: "\<not> n \<le> vals ! 0" "st' = (c, vals ! 0, \<lparr>pi_host = vals ! 1, pi_pf = vals ! 2, pi_vf = vals ! 3\<rparr>)"
      "\<not> list_ex (\<lambda>r. ucast (rif_interface_id r) = vals ! 0) (cfg_interfaces c)"
      using r st by (auto simp: load_state_line_def Let_def split: if_splits option.splits)
    have u: "unat (ucast i :: u32) = unat i" for i :: u16 by (simp add: unsigned_ucast_eq)
    have "unat (rif_interface_id b) \<noteq> unat (vals ! 0)" if "b \<in> set (cfg_interfaces c)" for b
      using v(3) that u [of "rif_interface_id b"] unfolding list_ex_iff by (metis word_unat_eq_iff)
    with ok v st show ?thesis by (simp add: replay_ok_def word_le_nat_alt)
  next
    case False
    let ?x = "router_command (if attachment_line line then at_next identity c else c) (replay_inventory port) line cap"
    have "attachment_line line = (identity \<noteq> 0)" "attachment_line line \<or> other_line line" "cr_ok ?x" "cr_changed ?x"
      and st': "st' = (cr_config ?x, 0, port)"
      using r st False by (auto simp: load_state_line_def Let_def split: if_splits)
    from replayed_line [OF ok [unfolded st] this(1,2) refl this(3,4)] st' show ?thesis by (simp add: replay_ok_def)
  qed
qed

lemma load_requests_ok:
  "replay_ok n st \<Longrightarrow> load_requests n cap limit body st = Some st' \<Longrightarrow> replay_ok n st'"
proof (induction n cap limit body st arbitrary: st' rule: load_requests.induct)
  case (1 n cap limit body st)
  show ?case
  proof (cases "body = [] \<or> limit = Some 0")
    case True
    with 1(2,3) show ?thesis by (auto simp: load_requests.simps [of n cap limit body st])
  next
    case False
    from 1(3) False obtain st1 where s: "load_state_line n cap (fst (fgets ROUTER_COMMAND_SIZE body)) st = Some st1"
      "load_requests n cap (map_option (\<lambda>k. k - 1) limit) (snd (fgets ROUTER_COMMAND_SIZE body)) st1 = Some st'"
      by (auto simp: load_requests.simps [of n cap limit body st] split: option.splits)
    from 1(1) [OF False s(1) load_state_line_ok [OF 1(2) s(1)] s(2)] show ?thesis .
  qed
qed

lemma load_text_wf:
  assumes "load_text cap limit text = Some c"
  shows "config_wf c"
proof -
  obtain line1 text1 where f1: "fgets ROUTER_COMMAND_SIZE text = (line1, text1)" by force
  obtain line2 text2 where f2: "fgets ROUTER_COMMAND_SIZE text1 = (line2, text2)" by force
  obtain vals c0 identity port where v: "vals ! 0 \<noteq> 0" "vals ! 0 \<le> 65536" "c = at_next (vals ! 0) c0"
    and l: "load_requests (vals ! 0) cap (map_option (\<lambda>k. k - 2) limit) text2
      (router_config_init, 0, \<lparr>pi_host = 0, pi_pf = 0, pi_vf = 0\<rparr>) = Some (c0, identity, port)"
  proof -
    from assms obtain vals where u: "uints ''next'' 1 line2 = Some vals"
      unfolding load_text_def Let_def f1 f2 prod.case by (cases "uints ''next'' 1 line2") (simp_all split: if_splits)
    note red = assms [unfolded load_text_def Let_def f1 f2 prod.case u option.case]
    then obtain st where l: "load_requests (vals ! 0) cap (map_option (\<lambda>k. k - 2) limit) text2
      (router_config_init, 0, \<lparr>pi_host = 0, pi_pf = 0, pi_vf = 0\<rparr>) = Some st" "vals ! 0 \<noteq> 0" "\<not> 65536 < vals ! 0"
      by (cases "load_requests (vals ! 0) cap (map_option (\<lambda>k. k - 2) limit) text2
        (router_config_init, 0, \<lparr>pi_host = 0, pi_pf = 0, pi_vf = 0\<rparr>)") (simp_all split: if_splits)
    obtain c0 identity port where st: "st = (c0, identity, port)" by (cases st)
    have "c = at_next (vals ! 0) c0" using red [unfolded l(1) st option.case prod.case] by (simp split: if_splits)
    with l st that show thesis by (simp add: not_less)
  qed
  have "config_wf (at_next (vals ! 0) router_config_init)"
  proof (rule config_wf_next [OF config_wf_init])
    show "unat (cfg_next_interface_id router_config_init) \<le> unat (vals ! 0)"
      using v(1) by (simp add: router_config_init_def) (metis One_nat_def Suc_leI unat_gt_0)
    show "unat (vals ! 0) \<le> 65536" using v(2) by (simp add: word_le_nat_alt)
  qed
  then have "replay_ok (vals ! 0) (router_config_init, 0, \<lparr>pi_host = 0, pi_pf = 0, pi_vf = 0\<rparr>)"
    by (simp add: replay_ok_def)
  from load_requests_ok [OF this l] v(3) show ?thesis by (simp add: replay_ok_def)
qed

lemma load_wf:
  assumes "config_wf config"
  shows "config_wf (snd (router_config_load io err malloc_ok fs path cap config))"
  using assms load_text_wf
  by (auto simp: router_config_load_def state_fail_def split: option.splits)

section \<open>Properties\<close>

text \<open>C6: Loading a router state file never yields an inconsistent configuration: whatever the file
  holds and whatever the reads answer, the result is well formed (given that the configuration
  in force was), and a refused file leaves the configuration in force untouched.\<close>

theorem router_state_load_wf:
  assumes "router_config_load io err malloc_ok fs path cap config = ((ok, message), c)"
    and "config_wf config"
  shows "config_wf c \<and> (\<not> ok \<longrightarrow> c = config)"
  using load_wf [OF assms(2), of io err malloc_ok fs path cap] assms(1)
  by (auto simp: router_config_load_def state_fail_def split: option.splits if_splits)

text \<open>A file with one virtual router.\<close>

definition saved_text :: string where
  "saved_text = config_text [''router-state 2'', ''next 9'', ''vr create --id 1'']"

lemma saved_lines:
  "fgets ROUTER_COMMAND_SIZE saved_text = (''router-state 2'' @ [nl], config_text [''next 9'', ''vr create --id 1''])"
  "fgets ROUTER_COMMAND_SIZE (config_text [''next 9'', ''vr create --id 1'']) = (''next 9'' @ [nl], config_text [''vr create --id 1''])"
  "fgets ROUTER_COMMAND_SIZE (config_text [''vr create --id 1'']) = (''vr create --id 1'' @ [nl], [])"
  by code_simp+

lemma saved_next: "uints ''next'' 1 (''next 9'' @ [nl]) = Some [9]"
  by (simp add: uints_def uint32_token_def strtok_def is_delim_def dec_value_def is_digit_def nl_def)

lemma saved_command: "load_state_line 9 256 (''vr create --id 1'' @ [nl]) (router_config_init, 0, p) =
   Some (router_config_init\<lparr>cfg_vr_ids := [1]\<rparr>, 0, p)"
proof -
  let ?l = "''vr create --id 1'' @ [nl]"
  have "strtok ?l = [''vr'', ''create'', ''--id'', ''1'']" by (simp add: strtok_def is_delim_def nl_def)
  moreover have "nonzero_number ''1'' = Some 1" by (simp add: nonzero_number_def number_def is_digit_def dec_value_def)
  ultimately have "parse ?l = Inr (command_zero\<lparr>q_op := CREATE, q_id := 1\<rparr>)"
    by (simp add: parse_def ROUTER_COMMAND_SIZE_def parse_tokens_def vr_verb_def verb_of_def option_bit_def
        parse_final_def command_zero_def)
  moreover have "router_apply router_config_init (replay_inventory p) (command_zero\<lparr>q_op := CREATE, q_id := 1\<rparr>) =
      Inr (router_config_init\<lparr>cfg_vr_ids := [1]\<rparr>)"
    by (simp add: router_apply_def vr_create_def router_has_vr_def router_config_init_def command_zero_def ROUTER_MAX_VRS_def)
  ultimately have "router_command router_config_init (replay_inventory p) ?l 256 =
      \<lparr>cr_ok = True, cr_text = take 255 (commit_text (command_zero\<lparr>q_op := CREATE, q_id := 1\<rparr>)),
       cr_changed = True, cr_config = router_config_init\<lparr>cfg_vr_ids := [1]\<rparr>\<rparr>"
    by (simp only: router_command_def) (simp add: is_show_def)
  moreover have "\<not> starts ''identity '' ?l" "\<not> attachment_line ?l" "other_line ?l" "nl \<in> set ?l" by code_simp+
  ultimately show ?thesis by (simp only: load_state_line_def) simp
qed

lemma saved_loads: "load_text 256 None saved_text = Some (router_config_init\<lparr>cfg_vr_ids := [1], cfg_next_interface_id := 9\<rparr>)"
proof -
  have "version_ok (''router-state 2'' @ [nl])" "saved_text \<noteq> []" "config_text [''next 9'', ''vr create --id 1''] \<noteq> []"
    "config_text [''vr create --id 1''] \<noteq> []"
    by code_simp+
  note c = this
  have "load_requests 9 256 None (config_text [''vr create --id 1'']) (router_config_init, 0, p) =
      Some (router_config_init\<lparr>cfg_vr_ids := [1]\<rparr>, 0, p)" for p
    unfolding load_requests.simps [of 9 256 None "config_text [''vr create --id 1'']"] saved_lines fst_conv snd_conv
      saved_command using c(4) by (simp add: load_requests.simps)
  with c show ?thesis unfolding load_text_def Let_def saved_lines prod.case saved_next by simp
qed

theorem router_state_load_wf_witness:
  "router_config_load quiet_load [] True (\<lambda>_. Some saved_text) ''/c'' 256 router_config_init =
     ((True, []), router_config_init\<lparr>cfg_vr_ids := [1], cfg_next_interface_id := 9\<rparr>) \<and>
   config_wf (router_config_init\<lparr>cfg_vr_ids := [1], cfg_next_interface_id := 9\<rparr>)"
proof -
  have l: "router_config_load quiet_load [] True (\<lambda>_. Some saved_text) ''/c'' 256 router_config_init =
     ((True, []), router_config_init\<lparr>cfg_vr_ids := [1], cfg_next_interface_id := 9\<rparr>)"
    using saved_loads by (simp add: router_config_load_def quiet_load_def)
  with router_state_load_wf [OF l config_wf_init] show ?thesis by simp
qed

end
