(* ===== verification/Daemon_Start.thy ===== *)
theory Daemon_Start
  imports Daemon_Run Router_State_Props
begin

text \<open>
  Start-up establishes the invariant: whatever the two state files hold and whatever the hardware
  answers, a manager that comes up is one whose tables, router configuration and port ownership
  are consistent.
\<close>

section \<open>The switches\<close>

text \<open>A manager before its router is restored, with no packet seen.\<close>

definition unrouted :: "eswitch_manager \<Rightarrow> bool" where
  "unrouted m \<longleftrightarrow> l2_wf m \<and> names_ok m \<and> mg_router m = None \<and> mg_nat m = router_nat_init \<and>
     mg_neighbors m = neighbor_table_zero \<and> mg_pending m = pending_queue_zero"

definition stays_unrouted :: "eswitch_manager \<Rightarrow> eswitch_manager \<Rightarrow> bool" where
  "stays_unrouted m m' \<longleftrightarrow> same_frame m m' \<and> (unrouted m \<longrightarrow> unrouted m')"

lemma stays_refl [simp]: "stays_unrouted m m"
  by (simp add: stays_unrouted_def)

lemma stays_trans: "stays_unrouted a b \<Longrightarrow> stays_unrouted b c \<Longrightarrow> stays_unrouted a c"
  by (auto simp: stays_unrouted_def elim: same_frame_trans)

lemma create_stays:
  assumes r: "create_vswitch m vid = (r, m')"
  shows "stays_unrouted m m'"
proof (cases "r = DOCA_SUCCESS")
  case True
  with create_outcome [OF r] obtain k where
    m': "m' = m\<lparr>mg_switches := (mg_switches m)(k := \<lparr>mv_exists = True, mv_id = vid, mv_name = []\<rparr>)\<rparr>" by auto
  show ?thesis using create_wf [OF _ r] by (auto simp: stays_unrouted_def unrouted_def same_frame_def names_iff m')
qed (use create_outcome [OF r] in simp)

lemma set_name_stays:
  assumes n: "name = [] \<or> eswitch_vs_name_valid name"
  shows "stays_unrouted m (set_vswitch_name m vs name)"
  using n set_vswitch_name_wf [of m vs name]
  by (auto simp: stays_unrouted_def unrouted_def same_frame_def names_iff set_vswitch_name_def split: option.splits)

lemma attach_stays:
  assumes r: "attach_port env m vs port mode v l ev el s = (r, m', s')"
  shows "stays_unrouted m m'"
proof (cases "r = DOCA_SUCCESS")
  case True
  with attach_outcome [OF r] obtain i j where
    m': "m' = store_member i vs j (stored_member (requested_member vs i port mode v l ev el)) m" by auto
  show ?thesis
    using attach_port_wf [OF _ r]
    by (auto simp: stays_unrouted_def unrouted_def same_frame_def names_iff m' store_member_def)
qed (use attach_outcome [OF r] in simp)

lemma restore_switches_stays:
  "list_all (\<lambda>s. snd s = [] \<or> eswitch_vs_name_valid (snd s)) sws \<Longrightarrow>
   restore_switches m sws = (r, m') \<Longrightarrow> stays_unrouted m m'"
proof (induction sws arbitrary: m)
  case (Cons sw sws)
  obtain vs name where sw: "sw = (vs, name)" by (cases sw)
  obtain r1 m1 where c: "create_vswitch m vs = (r1, m1)" by force
  show ?case
  proof (cases "r1 = DOCA_SUCCESS")
    case True
    with Cons.prems sw c have "restore_switches (set_vswitch_name m1 vs name) sws = (r, m')" by simp
    with Cons sw have "stays_unrouted (set_vswitch_name m1 vs name) m'" by simp
    moreover have "stays_unrouted m1 (set_vswitch_name m1 vs name)" using Cons.prems(1) sw by (simp add: set_name_stays)
    ultimately show ?thesis using create_stays [OF c] stays_trans by blast
  qed (use Cons.prems sw c create_stays [OF c] in simp)
qed simp

lemma restore_members_stays:
  "restore_members env m xs s = (r, m', s') \<Longrightarrow> stays_unrouted m m'"
proof (induction xs arbitrary: m s)
  case (Cons x xs)
  show ?case
  proof (cases "find_state_member_port m x")
    case (Some i)
    obtain r1 m1 s1 where a: "attach_port env m (sm_vswitch_id x) (port_id_at m i) (sm_mode x) (sm_vlan_id x)
      (sm_vlan_last x) (sm_vlan_extra_id x) (sm_vlan_extra_last x) s = (r1, m1, s1)" by (metis prod_cases3)
    show ?thesis
    proof (cases "r1 = DOCA_SUCCESS")
      case True
      with Cons.prems Some a have "restore_members env m1 xs s1 = (r, m', s')" by simp
      from stays_trans [OF attach_stays [OF a] Cons.IH [OF this]] show ?thesis .
    qed (use Cons.prems Some a attach_stays [OF a] in simp)
  qed (use Cons.prems in simp)
qed simp

lemma restore_manager_stays:
  assumes "restore_manager env io m fs s = (r, m', fs', s')"
  shows "stays_unrouted m m'"
proof -
  obtain ok s1 where a: "me_malloc env s = (ok, s1)" by force
  obtain r0 st0 where i: "eswitch_state_init ESWITCH_MAX_PERSISTED_MEMBERS ok state_zero = (r0, st0)" by force
  obtain r1 found st where l: "eswitch_state_load io fs (mg_state_path m) st0 = (r1, found, st)" by (metis prod_cases3)
  obtain r2 m2 where sw: "restore_switches m (es_switches st) = (r2, m2)" by force
  obtain r3 m3 s3 where me: "restore_members env m2 (es_members st) s1 = (r3, m3, s3)" by (metis prod_cases3)
  note red = assms [unfolded restore_manager_def Let_def a i l sw me prod.case]
  show ?thesis
  proof (cases "r0 = DOCA_SUCCESS")
    case True
    then have "st0 = state_zero\<lparr>es_member_capacity := ESWITCH_MAX_PERSISTED_MEMBERS\<rparr>"
      using i by (auto simp: eswitch_state_init_def state_zero_def split: if_splits)
    with loaded_state l have "state_wf st" by blast
    then have "list_all (\<lambda>s. snd s = [] \<or> eswitch_vs_name_valid (snd s)) (es_switches st)"
      by (simp add: state_wf_def list_all_iff)
    from restore_switches_stays [OF this sw] have "stays_unrouted m m2" .
    moreover from this stays_trans restore_members_stays [OF me] have "stays_unrouted m m3" by blast
    ultimately show ?thesis using red by (auto split: if_splits prod.splits)
  qed (use red in simp)
qed

section \<open>The router\<close>

lemma installed_daemon:
  assumes u: "unrouted m" and p: "ports_identified (mg_ports m)" "representors_exclusive (mg_ports m)"
    and c: "config_wf c" "list_all (attachment_available (installed m c) c) (cfg_interfaces c)"
  shows "daemon_inv (installed m c)"
proof -
  let ?m = "installed m c"
  have "fdb_wf (mg_fdb m)" using u by (simp add: unrouted_def l2_wf_def)
  moreover have "resolved_ok Q neighbor_table_zero" for Q
    by (simp add: resolved_ok_def neighbor_table_zero_def neighbor_zero_def)
  ultimately have "packet_inv ?m"
    using u by (simp add: packet_inv_def installed_def unrouted_def nat_wf_init neighbor_wf_zero pending_wf_zero)
  moreover have "same_tables m ?m" by (simp add: same_tables_def installed_def)
  then have "l2_wf ?m" using u same_tables_wf [of m ?m] by (simp add: unrouted_def l2_wf_def installed_def)
  moreover have "names_ok ?m" using u by (simp add: unrouted_def names_iff installed_def)
  moreover have "router_owned ?m" using c by (simp add: router_owned_def installed_def)
  ultimately show ?thesis using p by (simp add: daemon_inv_def installed_def)
qed

lemma router_restored:
  assumes u: "unrouted m" and p: "ports_identified (mg_ports m)" "representors_exclusive (mg_ports m)"
    and r: "router_control_restore env ce io err load_ok m fs s = (DOCA_SUCCESS, m', s')"
  shows "daemon_inv m' \<and> same_frame m m'"
proof -
  obtain path where path: "state_path m = Some path" using r by (cases "state_path m") (simp_all add: router_control_restore_def)
  obtain ok s1 where a: "me_malloc env s = (ok, s1)" by force
  obtain loaded msg c where l: "router_config_load io err load_ok fs path 256 router_config_init = ((loaded, msg), c)"
    by (metis prod.exhaust)
  have c: "config_wf c" using load_wf [OF config_wf_init, of io err load_ok fs path 256] l by simp
  obtain r2 s2 where at: "attach_router_ports ce (installed m c) (cfg_interfaces c) s1 = (r2, s2)" by force
  note red = r [unfolded router_control_restore_def path option.case Let_def a l prod.case installed_def [symmetric] at]
  have "m' = installed m c" "list_all (attachment_available (installed m c) c) (cfg_interfaces c)"
    using red by (auto split: if_splits)
  with installed_daemon [OF u p c] show ?thesis by (simp add: same_frame_def installed_def)
qed

lemma hardware_restored:
  assumes d: "daemon_inv m" and r: "restore_hardware env ce m s = (r, m', s')"
  shows "evolves m m'"
proof -
  obtain c where c: "mg_router m = Some c" using d by (auto simp: daemon_inv_def router_owned_def)
  obtain r1 m1 s1 where p: "eswitch_manager_router_prepare env m c (mg_started_ns m) s = (r1, m1, s1)" by (metis prod_cases3)
  obtain r2 s2 where e: "ce_egress_acl_sync ce c s1 = (r2, s2)" by force
  obtain r3 s3 where i: "ce_ingress_deny_sync ce c s2 = (r3, s3)" by force
  obtain r4 m4 s4 where h: "eswitch_manager_hw_routes_sync env m1 (Some c) True s3 = (r4, m4, s4)" by (metis prod_cases3)
  have k1: "keeps m m1" using prepare_keeps [of m env c "mg_started_ns m" s] p d by (simp add: daemon_inv_def)
  have k2: "keeps m m4" using keeps_trans [OF k1] synced_keeps [of m1 env "Some c" True s3] h by simp
  show ?thesis
    using r [unfolded restore_hardware_def c option.case Let_def p e i h prod.case]
      keeps_evolves [OF k1] keeps_evolves [OF k2] by (auto split: if_splits)
qed

section \<open>Start-up\<close>

lemma prepared_unrouted:
  assumes d: "distinct (map eth_port_id ports)" and r: "manager_prepare env ports path s = (DOCA_SUCCESS, m, s')"
  shows "unrouted m \<and> mg_ports m = ports \<and> mg_initialized m"
proof -
  have w: "l2_wf m" by (rule prepared_wf [OF d r])
  show ?thesis
    using r w
    by (auto simp: manager_prepare_def Let_def unrouted_def manager_zero_def names_iff vswitch_zero_def split: if_splits prod.splits)
qed

lemma started_inv:
  assumes r: "eswitch_manager_init env ce io router_io err load_ok ports path fs s = (DOCA_SUCCESS, m, fs', s')"
    and d: "distinct (map eth_port_id ports)" and p: "ports_identified ports" "representors_exclusive ports"
  shows "daemon_inv m \<and> mg_ports m = ports \<and> mg_initialized m"
proof -
  obtain r0 m0 s0 where a: "manager_prepare env ports path s = (r0, m0, s0)" by (metis prod_cases3)
  obtain r1 m1 fs1 s1 where b: "restore_manager env io m0 fs s0 = (r1, m1, fs1, s1)" by (metis prod_cases4)
  obtain r2 m2 s2 where c: "router_control_restore env ce router_io err load_ok m1 fs1 s1 = (r2, m2, s2)"
    by (metis prod_cases3)
  obtain r3 m3 s3 where e: "restore_hardware env ce m2 s2 = (r3, m3, s3)" by (metis prod_cases3)
  note red = r [unfolded eswitch_manager_init_def Let_def a b c e prod.case]
  have ok: "r0 = DOCA_SUCCESS" "r2 = DOCA_SUCCESS" "m = m3" using red by (auto split: if_splits)
  have u0: "unrouted m0 \<and> mg_ports m0 = ports \<and> mg_initialized m0"
    using prepared_unrouted [OF d a [unfolded ok(1)]] .
  have s1: "unrouted m1" "same_frame m0 m1"
    using restore_manager_stays [OF b] u0 by (simp_all add: stays_unrouted_def)
  have "mg_ports m1 = ports" using s1(2) u0 by (simp add: same_frame_def)
  with router_restored [OF s1(1), of env ce router_io err load_ok fs1 s1 m2 s2] c ok(2) p
  have s2: "daemon_inv m2" "same_frame m1 m2" by simp_all
  have "evolves m2 m3" by (rule hardware_restored [OF s2(1) e])
  with s2 s1(2) u0 ok(3) show ?thesis by (simp add: evolves_def same_frame_def)
qed

end
