(* ===== verification/Daemon_Props.thy ===== *)
theory Daemon_Props
  imports Daemon_Start Packet_Props
begin

text \<open>What the daemon as a whole promises, from start-up on.\<close>

section \<open>A sample daemon\<close>

text \<open>The sample hardware as the router's transactions see it: it accepts everything.\<close>

definition willing_control :: "nat control_env" where
  "willing_control = \<lparr>ce_attach_router_port = \<lambda>i vr s. (DOCA_SUCCESS, s), ce_detach_port = \<lambda>i s. (DOCA_SUCCESS, s),
     ce_egress_acl_sync = \<lambda>c s. (DOCA_SUCCESS, s), ce_ingress_deny_sync = \<lambda>c s. (DOCA_SUCCESS, s),
     ce_save_io = \<lambda>s. (\<lparr>rio_name = ''/c.router.tmp.a'', rio_mkstemp = True, rio_fdopen = True, rio_write = True,
       rio_close = True, rio_rename = True, rio_error = []\<rparr>, s),
     ce_descr = \<lambda>r. ''failure'', ce_status = \<lambda>m cap s. [], ce_tx_debug = \<lambda>m cap s. []\<rparr>"

lemma sample_ports_ok:
  "distinct (map eth_port_id sample_ports)" "ports_identified sample_ports" "representors_exclusive sample_ports"
proof -
  show "distinct (map eth_port_id sample_ports)" by (simp add: sample_ports_def)
  show "ports_identified sample_ports" "representors_exclusive sample_ports"
    by (auto simp: sample_ports_def ports_identified_def representors_exclusive_def port_identity_def less_Suc_eq
        numeral_2_eq_2)
qed

lemma willing_malloc: "me_malloc willing_env s = (True, s)"
  by (simp add: willing_env_def)

lemma willing_prearm:
  "cfg_interfaces c = [] \<Longrightarrow> eswitch_manager_router_prearm willing_env m c s = (DOCA_SUCCESS, s)"
  by (simp add: eswitch_manager_router_prearm_def prearm_router_contexts_def preflight_router_contexts_def
      willing_env_def ESWITCH_MAX_SF_RETURN_CONTEXTS_def Let_def)

lemma willing_prepare:
  "cfg_interfaces c = [] \<Longrightarrow> cfg_routes c = [] \<Longrightarrow>
   eswitch_manager_router_prepare willing_env m c now s = (DOCA_SUCCESS, m, s)"
  by (simp add: eswitch_manager_router_prepare_def willing_prearm probe_configured_next_hops_def)

lemma willing_sync: "eswitch_manager_hw_routes_sync willing_env m (Some c) a s = (DOCA_SUCCESS, m, s)"
  by (simp add: eswitch_manager_hw_routes_sync_def willing_env_def)

definition sample_daemon :: eswitch_manager where
  "sample_daemon = installed sample_manager router_config_init"

lemma sample_daemon_ok: "daemon_inv sample_daemon" "mg_router sample_daemon = Some router_config_init"
proof -
  have "unrouted sample_manager \<and> mg_ports sample_manager = sample_ports"
    using prepared_unrouted [OF sample_ports_ok(1) sample_manager_ready] by simp
  then show "daemon_inv sample_daemon"
    unfolding sample_daemon_def using sample_ports_ok
    by (intro installed_daemon) (simp_all add: config_wf_init, simp add: router_config_init_def)
qed (simp add: sample_daemon_def installed_def)

lemma sample_starts:
  "\<exists>m fs. eswitch_manager_init willing_env willing_control quiet_load quiet_load [] True sample_ports ''/c''
     (\<lambda>_. None) 0 = (DOCA_SUCCESS, m, fs, 0)"
proof -
  note m = sample_manager_wf
  have names: "names_ok sample_manager" using m(2) by (simp add: tables_empty_def names_iff vswitch_zero_def)
  have r: "mg_router sample_manager = None" using m(2) by (simp add: tables_empty_def)
  have ports: "ports_identified (mg_ports sample_manager)" using sample_ports_ok m(3) by simp
  have "names_writable (file_state sample_manager)"
    using file_state_wf [OF m(1) names ports] by (auto simp: names_writable_def state_wf_def)
  then obtain fs where save: "persist_manager willing_env sample_manager (\<lambda>_. None) 0 = (DOCA_SUCCESS, fs, 0)"
    and fs: "fs ''/c.router'' = None"
    using manager_to_state_ok [OF m(1) ports]
    by (simp add: persist_manager_def willing_env_def eswitch_state_save_def temporary_path_def PATH_MAX_def
        dec.simps m Let_def)
  have restored: "restore_manager willing_env quiet_load sample_manager (\<lambda>_. None) 0 = (DOCA_SUCCESS, sample_manager, fs, 0)"
    using save by (simp add: restore_manager_def eswitch_state_load_def eswitch_state_init_def willing_malloc m Let_def
        ESWITCH_MAX_PERSISTED_MEMBERS_def es_consts)
  let ?m = "installed sample_manager router_config_init"
  have none: "cfg_interfaces router_config_init = []" "cfg_routes router_config_init = []"
    by (simp_all add: router_config_init_def)
  have router: "router_control_restore willing_env willing_control quiet_load [] True sample_manager fs 0 =
      (DOCA_SUCCESS, ?m, 0)"
    using fs by (simp add: router_control_restore_def state_path_def m PATH_MAX_def willing_env_def Let_def none
        router_config_load_def installed_def)
  have "restore_hardware willing_env willing_control ?m 0 = (DOCA_SUCCESS, ?m, 0)"
    using none by (simp add: restore_hardware_def installed_def willing_prepare willing_sync willing_control_def)
  then show ?thesis
    using sample_manager_ready restored router by (auto simp: eswitch_manager_init_def Let_def)
qed

section \<open>The port a transaction programs\<close>

text \<open>
  \<open>port_interface_at\<close> does not look at the role of a port.  Next to a representor of host 0, PF 0, VF
  0, the sub-function representor, whose identity is left zero, counts as attached too; being the
  last, it is the port the transaction programs, where the data path looks for the representor.
\<close>

definition zero_rif :: router_interface where
  "zero_rif = wan_rif\<lparr>rif_vr_id := 1, rif_attachment := ROUTER_PORT, rif_port := \<lparr>pi_host = 0, pi_pf = 0, pi_vf = 0\<rparr>\<rparr>"

definition zero_manager :: eswitch_manager where
  "zero_manager = manager_zero\<lparr>mg_ports :=
     [\<lparr>eth_port_id = 3, eth_role = ETHERNET_PORT_ROLE_REPRESENTOR, eth_host_index = 0, eth_pf_index = 0, eth_vf_index = 0\<rparr>,
      \<lparr>eth_port_id = 9, eth_role = ETHERNET_PORT_ROLE_SF_REPRESENTOR, eth_host_index = 0, eth_pf_index = 0,
        eth_vf_index = 0\<rparr>]\<rparr>"

lemma attach_programs_other_port:
  "changed_port (router_config_init\<lparr>cfg_interfaces := [zero_rif]\<rparr>) router_config_init zero_manager = Some (1, 1)"
  "find_router_interface_port_index zero_manager zero_rif = Some 0"
  by (simp_all add: changed_port_def last_match_def port_interface_at_def zero_rif_def zero_manager_def port_identity_def
      router_config_init_def find_router_interface_port_index_def)

section \<open>Properties\<close>

text \<open>C1: From start-up on, the daemon answers and stays consistent.  When \<open>eswitch_manager_init\<close> succeeds,
  whatever the two configuration files held, any sequence of control requests, received bursts
  and maintenance rounds, whatever their texts and packets and whatever the hardware and the
  files answer, is worked off to its end and keeps the whole invariant: the switch tables, the
  learned addresses, the router configuration, its neighbors, sessions and held frames are
  consistent, and every router interface is attached to a switch or port no one else uses.\<close>

theorem daemon_always_consistent:
  assumes "eswitch_manager_init env ce io router_io err load_ok ports path fs s = (DOCA_SUCCESS, m, fs1, s1)"
    and "distinct (map eth_port_id ports)" "ports_identified ports" "representors_exclusive ports"
    and "add_gives_entry (me_flow env)"
  shows "\<exists>m' fs' s'. daemon_run env ce events (m, fs1, s1) = Some (m', fs', s') \<and> daemon_inv m' \<and> mg_ports m' = ports"
proof -
  have m: "daemon_inv m \<and> mg_ports m = ports" using started_inv [OF assms(1-4)] by simp
  from daemon_run_settles [OF _ assms(5), of m ce events fs1 s1] m show ?thesis
    by (auto simp: evolves_def same_frame_def)
qed

theorem daemon_always_consistent_witness:
  "\<exists>m fs m' fs' s'. eswitch_manager_init willing_env willing_control quiet_load quiet_load [] True sample_ports ''/c''
       (\<lambda>_. None) 0 = (DOCA_SUCCESS, m, fs, 0) \<and>
     daemon_run willing_env willing_control [Request ''vr create --id 1'' 4096, Request ''vs create --id 10'' 4096,
       Packets (Poll [(0x000A0003, udp_out)]), Packets Maintain] (m, fs, 0) = Some (m', fs', s') \<and> daemon_inv m'"
proof -
  obtain m fs where i: "eswitch_manager_init willing_env willing_control quiet_load quiet_load [] True sample_ports ''/c''
     (\<lambda>_. None) 0 = (DOCA_SUCCESS, m, fs, 0)" using sample_starts by blast
  from daemon_always_consistent [OF i sample_ports_ok willing_gives] i show ?thesis by blast
qed

text \<open>C4: A router request is all or nothing.  On success the running configuration and the forwarded ports
  the NAT table uses are those the request asked for, and unless nothing changed the file holds
  exactly their text; on failure, wherever the hardware or the files refused, the running
  configuration and every file are what they were.\<close>

theorem router_request_atomic:
  assumes "router_control_command env ce m request cap fs s = Some (r, reply, m', fs', s')"
    and "daemon_inv m" "mg_router m = Some old" "mkstemp_fresh ce fs"
  shows "let x = router_command old (manager_inventory m) request cap in
    if r \<noteq> DOCA_SUCCESS then mg_router m' = Some old \<and> fs' = fs
    else cr_ok x \<and> mg_router m' = Some (cr_config x) \<and>
      (if cr_changed x
       then nat_port_forwards (mg_nat m') = cfg_port_forwards (cr_config x) \<and>
         (\<exists>path ls. state_path m = Some path \<and> config_lines (cr_config x) = Inr ls \<and>
            fs' = fs(path := Some (config_text ls)))
       else m' = m \<and> fs' = fs)"
proof -
  let ?x = "router_command old (manager_inventory m) request cap"
  have old: "config_wf old" using assms(2,3) by (auto simp: daemon_inv_def router_owned_def)
  obtain ok s1 where a: "me_malloc env s = (ok, s1)" by force
  note red = assms(1) [unfolded router_control_command_def assms(3) option.case Let_def a prod.case]
  show ?thesis
  proof (cases "ok \<and> cr_ok ?x \<and> cr_changed ?x")
    case False
    with red assms(3) command_refused show ?thesis by (auto simp: Let_def split: if_splits)
  next
    case True
    then have "router_transaction env ce m old (cr_config ?x) (cr_text ?x) cap fs s1 = Some (r, reply, m', fs', s')"
      using red by simp
    with transaction_settles [OF assms(2,3) command_wf_step [OF old] router_command_places [OF old],
        of env ce request cap "cr_text ?x" cap fs s1] assms(4)
    have "transaction_outcome m old (cr_config ?x) fs r m' fs'" by auto
    with True show ?thesis by (auto simp: transaction_outcome_def Let_def)
  qed
qed


lemma willing_flush:
  assumes "packet_inv m"
  shows "\<exists>m1. flush_for_transaction willing_env willing_control m s = Some (m1, None, s) \<and> keeps m m1"
proof -
  obtain m1 x where f: "flush_for_transaction willing_env willing_control m s = Some (m1, x)" "keeps m m1"
    using flush_settles [OF assms, of willing_env willing_control s] by blast
  then have "x = (None, s)"
    by (auto simp: flush_for_transaction_def ct_flush_def willing_env_def checked_def Let_def
        split: option.splits prod.splits)
  with f show ?thesis by blast
qed

lemma no_port_changes:
  assumes "cfg_interfaces old = []"
  shows "changed_port old c m = None"
proof -
  have "port_interface_at old m i = None" for i using assms by (simp add: port_interface_at_def)
  then show ?thesis by (simp add: changed_port_def last_match_def find_None_iff)
qed

lemma willing_control_calls:
  "ce_egress_acl_sync willing_control c s = (DOCA_SUCCESS, s)" "ce_ingress_deny_sync willing_control c s = (DOCA_SUCCESS, s)"
  "ce_save_io willing_control s = (\<lparr>rio_name = ''/c.router.tmp.a'', rio_mkstemp = True, rio_fdopen = True,
     rio_write = True, rio_close = True, rio_rename = True, rio_error = []\<rparr>, s)"
  by (simp_all add: willing_control_def)

lemma willing_transaction:
  assumes d: "daemon_inv m" "state_path m = Some ''/c.router''"
    and i: "cfg_interfaces old = []" "cfg_interfaces c = []" "cfg_routes c = []" "config_lines c = Inr ls"
  shows "\<exists>m' fs' s'. router_transaction willing_env willing_control m old c out cap fs s =
    Some (DOCA_SUCCESS, out, m', fs', s')"
proof -
  have "packet_inv m" using d(1) by (simp add: daemon_inv_def)
  from keeps_step [OF drop_pending_keeps this] obtain m1 where
    f: "flush_for_transaction willing_env willing_control (drop_pending m) s = Some (m1, None, s)"
    and k: "keeps (drop_pending m) m1" using willing_flush by blast
  have "state_path m1 = Some ''/c.router''"
    using keeps_trans [OF drop_pending_keeps k] d(2) by (simp add: keeps_def same_setup_def state_path_def Let_def)
  moreover have "me_clock willing_env u = (5, u)" for u by (simp add: willing_env_def)
  ultimately show ?thesis
    using i by (simp add: router_transaction_def f no_port_changes program_ports_def program_candidate_def
        invalidate_changed_rifs_def willing_prearm willing_sync willing_control_calls and_then_def checked_def
        save_candidate_def router_config_save_def PATH_MAX_def commit_candidate_def willing_prepare Let_def)
qed

lemma sample_request: "router_command router_config_init inven ''link create --id 5'' 4096 =
   \<lparr>cr_ok = True, cr_text = take 4095 (commit_text (command_zero\<lparr>q_op := LINK_CREATE, q_id := 5\<rparr>)),
    cr_changed = True, cr_config = router_config_init\<lparr>cfg_link_ids := [5]\<rparr>\<rparr>"
proof -
  have "strtok ''link create --id 5'' = [''link'', ''create'', ''--id'', ''5'']"
    by (simp add: strtok_def is_delim_def)
  then have "parse ''link create --id 5'' = Inr (command_zero\<lparr>q_op := LINK_CREATE, q_id := 5\<rparr>)"
    by (simp add: parse_def ROUTER_COMMAND_SIZE_def parse_tokens_def link_verb_def verb_of_def option_bit_def
        sample_number parse_final_def command_zero_def)
  moreover have "router_apply router_config_init inven (command_zero\<lparr>q_op := LINK_CREATE, q_id := 5\<rparr>) =
      Inr (router_config_init\<lparr>cfg_link_ids := [5]\<rparr>)"
    by (simp add: router_apply_def link_create_def router_has_link_def router_config_init_def command_zero_def
        ROUTER_MAX_LINKS_def)
  ultimately show ?thesis by (simp only: router_command_def) (simp add: is_show_def)
qed

theorem router_request_atomic_witness:
  "\<exists>reply m' s'. router_control_command willing_env willing_control sample_daemon ''link create --id 5'' 4096
       (\<lambda>_. None) 0 = Some (DOCA_SUCCESS, reply, m', (\<lambda>_. None)(''/c.router'' :=
         Some (config_text [''router-state 2'', ''next 1'', ''link create --id 5''])), s') \<and>
     mg_router m' = Some (router_config_init\<lparr>cfg_link_ids := [5]\<rparr>)"
proof -
  let ?c = "router_config_init\<lparr>cfg_link_ids := [5]\<rparr>"
  let ?x = "router_command router_config_init (manager_inventory sample_daemon) ''link create --id 5'' 4096"
  have path: "state_path sample_daemon = Some ''/c.router''"
    by (simp add: state_path_def sample_daemon_def installed_def sample_manager_wf PATH_MAX_def)
  have ls: "config_lines ?c = Inr [''router-state 2'', ''next 1'', ''link create --id 5'']" by code_simp
  have "cfg_interfaces router_config_init = []" "cfg_interfaces ?c = []" "cfg_routes ?c = []"
    by (simp_all add: router_config_init_def)
  from willing_transaction [OF sample_daemon_ok(1) path this ls, of "cr_text ?x" 4096 "\<lambda>_. None" 0]
  obtain m' fs' s' where t: "router_control_command willing_env willing_control sample_daemon ''link create --id 5''
      4096 (\<lambda>_. None) 0 = Some (DOCA_SUCCESS, cr_text ?x, m', fs', s')"
    by (auto simp: router_control_command_def sample_daemon_ok(2) willing_malloc sample_request)
  have "mkstemp_fresh willing_control (\<lambda>_. None)" by (simp add: mkstemp_fresh_def)
  from router_request_atomic [OF t sample_daemon_ok this] t show ?thesis
    by (auto simp: sample_request path ls)
qed

end
