(* ===== verification/Spec2Isabelle.thy ===== *)
theory Spec2Isabelle
  imports Router_Command Router_Forward Router_Arp Router_Neighbor Router_Pending Router_Icmp
    Router_Egress Router_Hw Nat_Properties Vlan Offload_Retry Manager_Persist_Props Packet_Props
    Daemon_Props
begin

text \<open>
  A verification development for the eSwitch management daemon
  (\<^verbatim>\<open>src/application/eswitch_management\<close>), which switches and routes between the virtual
  functions of a network card.

  The program.  A control socket hands request lines to \<open>eswitch_manager_command\<close>
  (\<^verbatim>\<open>eswitch_manager.c\<close>).  Lines of the groups \<^verbatim>\<open>vr\<close> and \<^verbatim>\<open>link\<close> are router requests: they run on a copy of
  the router configuration (\<^verbatim>\<open>router/router.c\<close>), the hardware is programmed for the copy, the copy is
  saved (\<^verbatim>\<open>router/router_state.c\<close>) and installed, or everything is taken back
  (\<^verbatim>\<open>router/router_control.c\<close>).  The other lines (\<^verbatim>\<open>cli/eswitch_cli.c\<close>) create and delete virtual switches
  and attach ports to them (\<^verbatim>\<open>l2/l2_switch.c\<close>), each with the save of the switch configuration
  (\<^verbatim>\<open>eswitch_state.c\<close>) and its roll-back.  Packets the hardware does not handle reach the Arm slow path in
  bursts (\<open>eswitch_manager_poll_packets\<close>): a member port's source address is learned into the
  forwarding database, whose entries own hardware rules (\<^verbatim>\<open>l2/eswitch_fdb.c\<close>,
  \<^verbatim>\<open>pipeline/eswitch_pipeline.c\<close>); a routed frame passes the firewall (\<^verbatim>\<open>router_egress.c\<close>), a route is
  looked up (\<^verbatim>\<open>router_forward.c\<close>), addresses are translated (\<^verbatim>\<open>router_nat.c\<close>), the next hop is resolved
  (\<^verbatim>\<open>router_arp.c\<close>, \<^verbatim>\<open>router_neighbor.c\<close>, the frame waiting in \<^verbatim>\<open>router_pending.c\<close>), a router link
  hands it to the next virtual router, and pings are answered (\<^verbatim>\<open>router_icmp.c\<close>).  Resolved routes
  and deny lists are turned into plans for the hardware (\<^verbatim>\<open>router_hw.c\<close>, \<^verbatim>\<open>router_acl_plan.h\<close>), with a
  retry backoff (\<^verbatim>\<open>offload_retry.h\<close>).  A periodic maintenance ages all tables.

  The theories, from the bottom.
  \<^item> \<open>Prelude\<close>: types of machine integers, lists updated and searched by index.
  \<^item> \<open>Router_Config\<close> (data of \<^verbatim>\<open>router.h\<close>, queries of \<^verbatim>\<open>router.c\<close>), \<open>Router_Ops\<close> (one function per
    mutating branch of \<open>router_command\<close>), \<open>Router_Inv\<close> (the invariant \<open>config_wf\<close>),
    \<open>Router_Preserve\<close> (every operation keeps it), \<open>Text\<close> and \<open>Router_Parse\<close> (the request
    grammar), \<open>Router_Command\<close> (the entry point on texts, show output, reachable configurations).
  \<^item> \<open>Sample\<close>: a configuration and frames on which the theorems are exercised.
  \<^item> \<open>Wire\<close> (byte order, Internet checksum), \<open>Router_Forward\<close> (lookup and rewrite; the lookup is
    proved to refine the declarative choice of the best candidate route), \<open>Router_Arp\<close>,
    \<open>Router_Icmp\<close>.
  \<^item> \<open>Slots\<close> (fixed tables of reusable slots, the locale \<open>slot_table\<close>), interpreted by
    \<open>Router_Neighbor\<close>, \<open>Router_Pending\<close>, the NAT table and the switch tables.
  \<^item> \<open>Blocks\<close> (ranges covered by ternary blocks, the locale \<open>range_cover\<close> interpreted on both
    loops of the code), \<open>Router_Egress\<close> (firewall and the deny lists derived for hardware).
  \<^item> \<open>Chains\<close> (intrusive linked chains), \<open>Nat_Packet\<close>, \<open>Nat_Table\<close>, \<open>Router_Nat\<close>,
    \<open>Nat_Properties\<close>: the NAT session table.
  \<^item> \<open>Router_Hw\<close> (hardware route plans), \<open>Offload_Retry\<close>, \<open>Vlan\<close> (the allow-lists of
    \<^verbatim>\<open>eswitch_vlan.h\<close>).
  \<^item> \<open>Flow_Rules\<close> (one hardware rule: its handle, its completion cookie, the steps that add and
    remove it, over an SDK given as the record \<open>flow_env\<close>), \<open>Fdb_Hw\<close> (the rules of one learned
    address and their transactional move), \<open>Fdb\<close> (the forwarding database), \<open>Fdb_Inv\<close> (its
    invariant over any sequence of operations and its refinement of a map from addresses to ports).
  \<^item> \<open>Eswitch_State\<close>, \<open>Eswitch_State_Props\<close>: the switch configuration file, every version of its
    format; any text loads into a well-formed state, and a saved state loads back.
  \<^item> \<open>Manager\<close> (the record \<open>eswitch_manager\<close> and its set-up), \<open>L2_Switch\<close>, \<open>L2_Switch_Inv\<close> (switches and
    members with the roll-back of every hardware step, their invariant \<open>l2_wf\<close>), \<open>Sf_Context\<close> (return
    contexts of the sub-function interface), \<open>Manager_Persist\<close>, \<open>Manager_Persist_Props\<close> (operations
    with their save, and the restart).
  \<^item> \<open>Arm_Path\<close> (\<open>route_arm_frame\<close> and what it calls), \<open>Packet_Loop\<close> (replay, classification, bursts,
    maintenance), \<open>Packet_Inv\<close> (the locale \<open>packet_relation\<close>: a relation every call keeps is kept by the
    whole path, and the path returns), \<open>Packet_Run\<close> (its interpretation with the invariant of the
    tables), \<open>Packet_Props\<close>.
  \<^item> \<open>Router_State\<close>, \<open>Router_State_Props\<close> (the router configuration file and the invariant of its
    replay), \<open>Router_Control\<close> (transactions), \<open>Cli\<close> (the control grammar), \<open>Manager_Command\<close> (requests,
    listings, start-up and shut-down).
  \<^item> \<open>Daemon_Inv\<close> (the invariant \<open>daemon_inv\<close>, which ties the tables together by the ownership of ports
    and switches), \<open>Daemon_Run\<close> (every request, burst and maintenance round keeps it),
    \<open>Daemon_Start\<close> (start-up establishes it), \<open>Daemon_Props\<close>: the properties of the whole.

  What the theorems show.  Router configurations reachable by requests, or loaded from any file, are
  well formed; a request is all or nothing.  Route lookup, firewall, address translation and
  rewriting do what their declarative descriptions say, checksums included; nothing a policy
  refuses is sent, and what leaves a router port is translated.  Hardware plans agree with the
  software, except where a theorem exhibits the difference.  Every table keeps its invariant and
  every loop ends, for one table at a time and for the daemon as a whole from start-up on.

  Conventions.  A C structure is a record with the fields' widths kept as words; an array with a
  count is a list (its capacity is checked where the code checks it), a fixed table of slots a
  function from the slot number; frames are byte lists, a frame being one contiguous buffer.  A
  function that returns \<^verbatim>\<open>bool\<close> and a message is a sum or a pair, one that may find nothing an
  \<open>option\<close>.  \<^verbatim>\<open>malloc\<close> and \<^verbatim>\<open>calloc\<close> succeed or not by an argument or a call of the environment.  Times
  and statistics are 64-bit words that wrap.  Loops without a bound of their own (the hash chains
  of the NAT table, the replay of held frames) are partial functions or carry an outer \<open>option\<close> whose
  \<open>None\<close> is a walk that does not end; the invariants exclude it, and \<open>nat_run_total\<close> and
  \<open>daemon_always_consistent\<close> state that it never happens.  Hand-over across router links is bounded by
  the code's own limit of 8 hops: \<open>HOP_FUEL\<close> is 8, each further call carries one hop more and none is
  made at the limit, so the fuel never runs out.

  The outside.  The records \<open>flow_env\<close>, \<open>manager_env\<close> and \<open>control_env\<close> hold the calls into DOCA Flow, the
  pipeline, the sub-function interface, the clock, allocation and file output, as functions of an
  abstract outer state; nothing is assumed of what they answer except \<open>add_gives_entry\<close>, the documented
  behaviour that an accepted addition returns the handle of the new entry.  Files are a map from
  paths to texts without 0 bytes, and records of outcomes say which POSIX call fails;
  \<open>router_request_atomic\<close> takes from \<^verbatim>\<open>mkstemp\<close> that the name it makes is not in use.  The probed ports
  are assumed to have distinct port ids and identities (\<open>ports_identified\<close>), and no port of another
  role to carry the identity of a representor (\<open>representors_exclusive\<close>); the last is not checked by the
  code, and \<open>attach_programs_other_port\<close> shows what happens without it.

  Not modelled.  Calls whose pointer arguments are \<^verbatim>\<open>NULL\<close>; the creation of DOCA Flow pipes and most of
  \<^verbatim>\<open>pipeline/eswitch_pipeline.c\<close>, device set-up, the socket server, polling and raw packet I/O, which are
  calls into the SDK, DPDK and POSIX; \<^verbatim>\<open>main.c\<close>; the texts of \<^verbatim>\<open>status\<close> and \<^verbatim>\<open>tx-debug\<close>, \<open>eswitch_cli_help\<close>,
  output on the terminal and the counters that only steer it; the \<^verbatim>\<open>fsync\<close> of a directory, whose
  failure is only reported; test programs, scripts and vendored headers.
\<close>

end
